(* ===== verification/Prelude.thy ===== *)
theory Prelude
  imports Main "HOL-Library.Word" "HOL-Library.Monad_Syntax"
begin

unbundle bit_operations_syntax

text \<open>
  Shared vocabulary of the development: the machine types of the 32-bit ARM
  target, byte buffers with checked accesses, and the generic lemmas the
  components use.

  An access outside an object, a NULL dereference or a wild copy is undefined
  behaviour in C. Such an access is the value \<open>None\<close> here, so every
  operation that touches memory has an \<open>option\<close> result and the absence
  of memory errors is a theorem \<open>f x = Some y\<close>. Error codes are ordinary
  return values, as in the source.
\<close>

section \<open>Machine types\<close>

type_synonym u8 = "8 word"
type_synonym u16 = "16 word"
type_synonym u32 = "32 word"
type_synonym u64 = "64 word"

text \<open>\<open>size_t\<close> and pointers are 32 bits wide on this target.\<close>

type_synonym size_t = "32 word"
type_synonym bytes = "u8 list"

named_theorems buf_simps \<open>lengths and contents of byte buffers after an access\<close>
named_theorems word_conv \<open>conversions between words and integers\<close>

section \<open>Words\<close>

lemma unat_of_int [word_conv]:
  assumes "0 \<le> i" and "i < 2 ^ LENGTH('a::len)"
  shows "unat (of_int i :: 'a word) = nat i"
  using assms by (simp add: unat_eq_nat_uint uint_word_of_int take_bit_eq_mod)

lemma unat_size_t [word_conv]:
  assumes "0 \<le> i" and "i < 2 ^ 32"
  shows "unat (of_int i :: size_t) = nat i"
  using assms by (intro unat_of_int) auto

lemma unat_of_int_mod:
  "unat (of_int i :: 'a::len word) = nat (i mod 2 ^ LENGTH('a))"
  by (simp add: unat_eq_nat_uint uint_word_of_int take_bit_eq_mod)

lemma unat_of_int_neg_ge:
  assumes "i < 0" and "- (2 ^ 32) \<le> i"
  shows "unat (of_int i :: 32 word) = nat (i + 2 ^ 32)"
proof -
  have "i mod 2 ^ 32 = (i + 2 ^ 32) mod 2 ^ 32" by simp
  also have "\<dots> = i + 2 ^ 32" using assms by (intro mod_pos_pos_trivial) auto
  finally show ?thesis by (simp add: unat_of_int_mod)
qed

section \<open>Byte buffers\<close>

text \<open>Little-endian halfwords and words in a byte buffer, bounds checked.\<close>

definition load8 :: "bytes \<Rightarrow> nat \<Rightarrow> u8 option" where
  "load8 b i = (if i < length b then Some (b ! i) else None)"

definition lo8 :: "u16 \<Rightarrow> u8" where "lo8 v = ucast v"
definition hi8 :: "u16 \<Rightarrow> u8" where "hi8 v = ucast (drop_bit 8 v)"

definition mk16 :: "u8 \<Rightarrow> u8 \<Rightarrow> u16" where
  "mk16 lo hi = ucast lo OR push_bit 8 (ucast hi)"

definition load16 :: "bytes \<Rightarrow> nat \<Rightarrow> u16 option" where
  "load16 b i = (if i + 1 < length b then Some (mk16 (b ! i) (b ! (i + 1))) else None)"

definition store16 :: "bytes \<Rightarrow> nat \<Rightarrow> u16 \<Rightarrow> bytes option" where
  "store16 b i v =
     (if i + 1 < length b then Some (b[i := lo8 v, i + 1 := hi8 v]) else None)"

text \<open>\<open>memcpy(dst + doff, src + soff, len)\<close> between two different objects.\<close>

definition memcpy :: "bytes \<Rightarrow> nat \<Rightarrow> bytes \<Rightarrow> nat \<Rightarrow> nat \<Rightarrow> bytes option" where
  "memcpy dst doff src soff len =
     (if doff + len \<le> length dst \<and> soff + len \<le> length src
      then Some (take doff dst @ take len (drop soff src) @ drop (doff + len) dst)
      else None)"

text \<open>\<open>memcmp(a + aoff, b + boff, len) == 0\<close>.\<close>

definition memeq :: "bytes \<Rightarrow> nat \<Rightarrow> bytes \<Rightarrow> nat \<Rightarrow> nat \<Rightarrow> bool option" where
  "memeq a aoff b boff len =
     (if aoff + len \<le> length a \<and> boff + len \<le> length b
      then Some (take len (drop aoff a) = take len (drop boff b)) else None)"

lemma mk16_lo_hi [simp]: "mk16 (lo8 v) (hi8 v) = v"
  by (rule bit_word_eqI)
    (auto simp: mk16_def lo8_def hi8_def bit_or_iff bit_ucast_iff bit_push_bit_iff
      bit_drop_bit_eq not_le)

lemma lo_mk16 [simp]: "lo8 (mk16 l h) = l"
  by (rule bit_word_eqI)
    (auto simp: mk16_def lo8_def bit_or_iff bit_ucast_iff bit_push_bit_iff)

lemma hi_mk16 [simp]: "hi8 (mk16 l h) = h"
  by (rule bit_word_eqI)
    (auto simp: mk16_def hi8_def bit_or_iff bit_ucast_iff bit_push_bit_iff bit_drop_bit_eq
      dest: bit_imp_le_length)

text \<open>Little-endian words.\<close>

definition le16 :: "u16 \<Rightarrow> bytes" where "le16 v = [lo8 v, hi8 v]"

definition le32 :: "u32 \<Rightarrow> bytes" where
  "le32 v = [ucast v, ucast (drop_bit 8 v), ucast (drop_bit 16 v), ucast (drop_bit 24 v)]"

definition mk32 :: "u8 \<Rightarrow> u8 \<Rightarrow> u8 \<Rightarrow> u8 \<Rightarrow> u32" where
  "mk32 a b c d = ucast a OR push_bit 8 (ucast b) OR push_bit 16 (ucast c) OR push_bit 24 (ucast d)"

text \<open>Words in a byte object.\<close>

definition load32 :: "bytes \<Rightarrow> nat \<Rightarrow> u32 option" where
  "load32 b i = (if i + 3 < length b then Some (mk32 (b ! i) (b ! (i + 1)) (b ! (i + 2)) (b ! (i + 3))) else None)"

definition store_bytes :: "bytes \<Rightarrow> nat \<Rightarrow> bytes \<Rightarrow> bytes option" where
  "store_bytes b i bs = memcpy b i bs 0 (length bs)"

lemma le_length [simp]: "length (le16 a) = 2" "length (le32 v) = 4"
  by (simp_all add: le16_def le32_def)

lemma mk32_le32 [simp]:
  "mk32 (ucast v) (ucast (drop_bit 8 v)) (ucast (drop_bit 16 v)) (ucast (drop_bit 24 v)) = v"
proof (rule bit_word_eqI)
  fix n assume "n < LENGTH(32)"
  then consider "n < 8" | "8 \<le> n" "n < 16" | "16 \<le> n" "n < 24" | "24 \<le> n" "n < 32" by fastforce
  then show "bit (mk32 (ucast v) (ucast (drop_bit 8 v)) (ucast (drop_bit 16 v)) (ucast (drop_bit 24 v))) n = bit v n"
    by cases (auto simp: mk32_def bit_or_iff bit_ucast_iff bit_push_bit_iff bit_drop_bit_eq)
qed

lemma bit8_ge: "8 \<le> n \<Longrightarrow> \<not> bit (w :: 8 word) n"
  by (auto dest: bit_imp_le_length)

lemma le32_mk32 [simp]: "le32 (mk32 a b c d) = [a, b, c, d]"
  unfolding le32_def mk32_def
  by (auto intro!: bit_word_eqI
      simp: bit_or_iff bit_ucast_iff bit_push_bit_iff bit_drop_bit_eq bit8_ge)

lemma store16_length [buf_simps]: "store16 b i v = Some b' \<Longrightarrow> length b' = length b"
  by (auto simp: store16_def split: if_splits)

lemma store16_nth [buf_simps]:
  assumes "store16 b i v = Some b'" and "j < length b"
  shows "b' ! j = (if j = i then lo8 v else if j = i + 1 then hi8 v else b ! j)"
  using assms by (auto simp: store16_def nth_list_update split: if_splits)

lemma load16_store16 [buf_simps]: "store16 b i v = Some b' \<Longrightarrow> load16 b' i = Some v"
  by (auto simp: store16_def load16_def nth_list_update split: if_splits)

lemma memcpy_length [buf_simps]:
  "memcpy dst doff src soff len = Some d' \<Longrightarrow> length d' = length dst"
  by (auto simp: memcpy_def split: if_splits)

lemma memcpy_nth [buf_simps]:
  assumes "memcpy dst doff src soff len = Some d'" and "j < length dst"
  shows "d' ! j = (if doff \<le> j \<and> j < doff + len then src ! (soff + (j - doff)) else dst ! j)"
proof -
  let ?mid = "take len (drop soff src)"
  have b: "doff + len \<le> length dst" "soff + len \<le> length src"
    and d': "d' = take doff dst @ ?mid @ drop (doff + len) dst"
    using assms(1) by (auto simp: memcpy_def split: if_splits)
  have l: "length (take doff dst) = doff" "length ?mid = len" using b by auto
  show ?thesis
    unfolding d' nth_append l using b assms(2) by auto
qed

lemma memeq_True_nth [buf_simps]:
  assumes "memeq a aoff b boff len = Some True" and "j < len"
  shows "a ! (aoff + j) = b ! (boff + j)"
proof -
  have "take len (drop aoff a) = take len (drop boff b)"
    and len: "aoff + len \<le> length a" "boff + len \<le> length b"
    using assms(1) by (auto simp: memeq_def split: if_splits)
  then have "take len (drop aoff a) ! j = take len (drop boff b) ! j" by simp
  then show ?thesis using len assms(2) by simp
qed

section \<open>Rounding sizes up to words\<close>

definition round4 :: "u32 \<Rightarrow> u32" where
  "round4 n = (n + 3) AND NOT 3"

lemma and_split: "(x :: u32) = (x AND y) + (x AND NOT y)"
  by (subst disjunctive_add) (auto intro!: bit_word_eqI simp: bit_and_iff bit_or_iff bit_not_iff)

lemma and_not3: "(x :: u32) AND NOT 3 = x - x mod 4"
proof -
  have "x AND 3 = take_bit 2 x" by (simp add: take_bit_eq_mask mask_eq_exp_minus_1)
  moreover have "take_bit 2 x = x mod 4" by (simp add: take_bit_eq_mod)
  ultimately show ?thesis using and_split [of x 3] by (metis add_diff_cancel_left')
qed

lemma unat_and_not3: "unat ((x :: u32) AND NOT 3) = unat x div 4 * 4"
proof -
  have m: "unat (x mod 4) = unat x mod 4" by (simp add: unat_mod)
  have le: "x mod 4 \<le> x" by (simp add: word_le_nat_alt unat_mod)
  show ?thesis unfolding and_not3 unat_sub [OF le] m by (simp add: minus_mod_eq_div_mult)
qed

lemma round4_le: "unat n \<le> 2 ^ 32 - 4 \<Longrightarrow> unat (round4 n) = (unat n + 3) div 4 * 4"
  unfolding round4_def unat_and_not3 by (subst unat_add_lem [THEN iffD1]) auto

lemma round4_simps [simp]: "round4 4 = 4" "round4 16 = 16"
  by (simp_all add: round4_def)

lemma round4_ge: "unat n \<le> 2 ^ 32 - 4 \<Longrightarrow> unat n \<le> unat (round4 n)"
  using div_mult_mod_eq [of "unat n + 3" 4] by (simp add: round4_le)

section \<open>Loops\<close>

text \<open>A loop over a list of indices whose body may fail.\<close>

fun foldM :: "('x \<Rightarrow> 's \<Rightarrow> 's option) \<Rightarrow> 'x list \<Rightarrow> 's \<Rightarrow> 's option" where
  "foldM f [] s = Some s"
| "foldM f (x # xs) s = (case f x s of None \<Rightarrow> None | Some s' \<Rightarrow> foldM f xs s')"

text \<open>\<open>for (int i = lo; i < hi; i++)\<close>\<close>

definition for_range :: "int \<Rightarrow> int \<Rightarrow> (int \<Rightarrow> 's \<Rightarrow> 's option) \<Rightarrow> 's \<Rightarrow> 's option" where
  "for_range lo hi f s = foldM f [lo..hi - 1] s"

lemma foldM_append:
  "foldM f (xs @ ys) s = (case foldM f xs s of None \<Rightarrow> None | Some s' \<Rightarrow> foldM f ys s')"
  by (induction xs arbitrary: s) (auto split: option.splits)

text \<open>An invariant of the body that also rules out failure.\<close>

lemma foldM_inv:
  assumes "I s" and "\<And>x s. x \<in> set xs \<Longrightarrow> I s \<Longrightarrow> \<exists>s'. f x s = Some s' \<and> I s'"
  shows "\<exists>s'. foldM f xs s = Some s' \<and> I s'"
  using assms by (induction xs arbitrary: s) fastforce+

section \<open>Error codes of the Linux ABI\<close>

abbreviation (input) EPERM :: int where "EPERM \<equiv> 1"
abbreviation (input) EINTR :: int where "EINTR \<equiv> 4"
abbreviation (input) EBADF :: int where "EBADF \<equiv> 9"
abbreviation (input) EAGAIN :: int where "EAGAIN \<equiv> 11"
abbreviation (input) ENOMEM :: int where "ENOMEM \<equiv> 12"
abbreviation (input) EFAULT :: int where "EFAULT \<equiv> 14"
abbreviation (input) EBUSY :: int where "EBUSY \<equiv> 16"
abbreviation (input) ENODEV :: int where "ENODEV \<equiv> 19"
abbreviation (input) EINVAL :: int where "EINVAL \<equiv> 22"
abbreviation (input) ENOSPC :: int where "ENOSPC \<equiv> 28"

section \<open>The panel driver's update request\<close>

text \<open>
  The fields of \<open>struct mxcfb_update_data\<close> that the sources set to
  anything but a constant; the waveform is always \<open>WAVEFORM_MODE_AUTO\<close>,
  the temperature \<open>TEMP_USE_AMBIENT\<close> and the flags 0.
\<close>

datatype update_mode = UPDATE_MODE_FULL | UPDATE_MODE_PARTIAL

record mxcfb_update =
  upd_left :: int
  upd_top :: int
  upd_width :: int
  upd_height :: int
  upd_mode :: update_mode

end
