(* ===== verification/BufferTable.thy ===== *)
theory BufferTable
  imports Prelude
begin

text \<open>
  The buffer geometry side table of the gralloc wrapper
  (\<open>gralloc_eink/src/eink_wrapper.c\<close>): a fixed array of
  \<open>EINK_MAX_BUFS\<close> slots that \<open>eink_buf_record\<close>,
  \<open>eink_buf_forget\<close> and \<open>eink_gralloc_query\<close> search linearly.
  The theory shows that the array implements a partial map of bounded size
  (locale \<open>geometry_store\<close>): while the map has room it behaves like a
  dictionary from handles to geometries, and a buffer recorded when the table is
  full is dropped without disturbing the others.
\<close>

section \<open>Data\<close>

text \<open>A \<open>buffer_handle_t\<close> is an opaque pointer; 0 is NULL.\<close>

type_synonym handle = u32

text \<open>The pixel formats the code names; every other code is \<open>OTHER_FORMAT\<close>.\<close>

datatype pixel_format =
    RGBA_8888 | RGBX_8888 | RGB_888 | RGB_565 | BGRA_8888 | OTHER_FORMAT int

record eink_buf_info =
  buf_handle :: handle
  buf_width :: int
  buf_height :: int
  buf_stride :: int
  buf_format :: pixel_format

type_synonym geometry = "int \<times> int \<times> int \<times> pixel_format"
type_synonym buf_table = "eink_buf_info list"

definition EINK_MAX_BUFS :: nat where "EINK_MAX_BUFS = 64"

definition zero_info :: eink_buf_info where
  "zero_info = \<lparr>buf_handle = 0, buf_width = 0, buf_height = 0, buf_stride = 0,
     buf_format = OTHER_FORMAT 0\<rparr>"

text \<open>\<open>static eink_buf_info_t g_bufs[EINK_MAX_BUFS]\<close> starts zeroed.\<close>

definition g_bufs_init :: buf_table where
  "g_bufs_init = replicate EINK_MAX_BUFS zero_info"

section \<open>Operations\<close>

text \<open>
  The search loop of \<open>eink_buf_record\<close>: the slot that already holds the
  handle wins (the \<open>break\<close>), otherwise the first empty slot.
\<close>

fun record_slot :: "handle \<Rightarrow> nat \<Rightarrow> nat option \<Rightarrow> buf_table \<Rightarrow> nat option" where
  "record_slot h i slot [] = slot"
| "record_slot h i slot (b # bs) =
     (if buf_handle b = h then Some i
      else record_slot h (Suc i)
             (if slot = None \<and> buf_handle b = 0 then Some i else slot) bs)"

definition eink_buf_record ::
    "buf_table \<Rightarrow> handle \<Rightarrow> int \<Rightarrow> int \<Rightarrow> int \<Rightarrow> pixel_format \<Rightarrow> buf_table" where
  "eink_buf_record t h w ht stride fmt =
     (case record_slot h 0 None t of
        None \<Rightarrow> t
      | Some i \<Rightarrow> t[i := \<lparr>buf_handle = h, buf_width = w, buf_height = ht,
                     buf_stride = stride, buf_format = fmt\<rparr>])"

fun eink_buf_forget :: "buf_table \<Rightarrow> handle \<Rightarrow> buf_table" where
  "eink_buf_forget [] h = []"
| "eink_buf_forget (b # bs) h =
     (if buf_handle b = h then zero_info # bs else b # eink_buf_forget bs h)"

text \<open>
  \<open>eink_gralloc_query\<close> returns 0 and the geometry, or -1 (\<open>None\<close>)
  when no slot holds the handle. All four output pointers are given by its one
  caller.
\<close>

fun eink_gralloc_query :: "buf_table \<Rightarrow> handle \<Rightarrow> geometry option" where
  "eink_gralloc_query [] h = None"
| "eink_gralloc_query (b # bs) h =
     (if buf_handle b = h
      then Some (buf_width b, buf_height b, buf_stride b, buf_format b)
      else eink_gralloc_query bs h)"

section \<open>Invariant\<close>

text \<open>The handles in use are pairwise different, and the array keeps its size.\<close>

definition used_handles :: "buf_table \<Rightarrow> handle list" where
  "used_handles t = filter (\<lambda>h. h \<noteq> 0) (map buf_handle t)"

definition table_ok :: "buf_table \<Rightarrow> bool" where
  "table_ok t \<longleftrightarrow> length t = EINK_MAX_BUFS \<and> distinct (used_handles t)"

text \<open>What the table means: the geometry of every live (non-NULL) handle.\<close>

definition table_abs :: "buf_table \<Rightarrow> handle \<rightharpoonup> geometry" where
  "table_abs t h = (if h = 0 then None else eink_gralloc_query t h)"

section \<open>Lemmas\<close>

lemma used_handles_Cons [simp]:
  "used_handles (b # bs) = (if buf_handle b = 0 then used_handles bs
     else buf_handle b # used_handles bs)"
  by (simp add: used_handles_def)

lemma used_handles_Nil [simp]: "used_handles [] = []"
  by (simp add: used_handles_def)

lemma used_handles_zero_info [simp]: "buf_handle zero_info = 0"
  by (simp add: zero_info_def)

lemma query_None_iff:
  "eink_gralloc_query t h = None \<longleftrightarrow> h \<notin> buf_handle ` set t"
  by (induction t) auto

lemma set_used_handles: "set (used_handles t) = buf_handle ` set t - {0}"
  by (auto simp: used_handles_def)

lemma dom_table_abs: "dom (table_abs t) = set (used_handles t)"
  by (rule set_eqI) (simp add: domIff table_abs_def set_used_handles query_None_iff
      del: not_None_eq)

lemma record_slot_present:
  "h \<in> buf_handle ` set t \<Longrightarrow>
     \<exists>k. record_slot h i s t = Some (i + k) \<and> k < length t \<and> buf_handle (t ! k) = h
       \<and> (\<forall>j<k. buf_handle (t ! j) \<noteq> h)"
proof (induction t arbitrary: i s)
  case (Cons b bs)
  show ?case
  proof (cases "buf_handle b = h")
    case True
    then show ?thesis by (auto intro!: exI [of _ 0])
  next
    case False
    with Cons.prems have "h \<in> buf_handle ` set bs" by auto
    from Cons.IH [OF this, of "Suc i" "if s = None \<and> buf_handle b = 0 then Some i else s"]
    obtain k where k: "record_slot h (Suc i)
        (if s = None \<and> buf_handle b = 0 then Some i else s) bs = Some (Suc i + k)"
      "k < length bs" "buf_handle (bs ! k) = h" "\<forall>j<k. buf_handle (bs ! j) \<noteq> h" by blast
    have "\<forall>j<Suc k. buf_handle ((b # bs) ! j) \<noteq> h"
      using k(4) False by (auto simp: less_Suc_eq_0_disj)
    with k False show ?thesis by (intro exI [of _ "Suc k"]) auto
  qed
qed simp

lemma record_slot_given:
  "h \<notin> buf_handle ` set t \<Longrightarrow> record_slot h i (Some s) t = Some s"
  by (induction t arbitrary: i) auto

lemma record_slot_absent:
  assumes "h \<notin> buf_handle ` set t"
  shows "(0 \<notin> buf_handle ` set t \<and> record_slot h i None t = None) \<or>
     (\<exists>k. record_slot h i None t = Some (i + k) \<and> k < length t \<and> buf_handle (t ! k) = 0)"
  using assms
proof (induction t arbitrary: i)
  case (Cons b bs)
  then have h: "buf_handle b \<noteq> h" "h \<notin> buf_handle ` set bs" by auto
  show ?case
  proof (cases "buf_handle b = 0")
    case True
    then show ?thesis using h by (auto simp: record_slot_given intro!: exI [of _ 0])
  next
    case False
    from Cons.IH [OF h(2), of "Suc i"] show ?thesis
    proof (elim disjE exE conjE)
      fix k
      assume "record_slot h (Suc i) None bs = Some (Suc i + k)" "k < length bs"
        "buf_handle (bs ! k) = 0"
      then show ?thesis using h False by (intro disjI2 exI [of _ "Suc k"]) auto
    qed (use h False in auto)
  qed
qed simp

lemma query_nth:
  assumes "k < length t" and "buf_handle (t ! k) = h" and "\<forall>j<k. buf_handle (t ! j) \<noteq> h"
  shows "eink_gralloc_query t h =
     Some (buf_width (t ! k), buf_height (t ! k), buf_stride (t ! k), buf_format (t ! k))"
  using assms
proof (induction t arbitrary: k)
  case (Cons b bs)
  show ?case
  proof (cases k)
    case 0
    then show ?thesis using Cons.prems by simp
  next
    case (Suc n)
    have "buf_handle b \<noteq> h" using Cons.prems(3) Suc by force
    moreover have "\<forall>j<n. buf_handle (bs ! j) \<noteq> h" using Cons.prems(3) Suc by force
    ultimately show ?thesis using Cons.IH [of n] Cons.prems Suc by simp
  qed
qed simp

lemma query_update_other:
  assumes "buf_handle (t ! k) = h \<or> buf_handle (t ! k) = 0" and "buf_handle b = h"
    and "h' \<noteq> h" and "h' \<noteq> 0" and "k < length t"
  shows "eink_gralloc_query (t[k := b]) h' = eink_gralloc_query t h'"
  using assms by (induction t arbitrary: k) (auto simp: nth_Cons split: nat.splits)

lemma used_handles_update_same:
  assumes "k < length t" and "buf_handle (t ! k) = buf_handle b"
  shows "used_handles (t[k := b]) = used_handles t"
  using assms by (induction t arbitrary: k) (auto simp: nth_Cons split: nat.splits)

lemma distinct_used_handles_update_empty:
  assumes "k < length t" and "buf_handle (t ! k) = 0" and "buf_handle b \<noteq> 0"
    and "buf_handle b \<notin> buf_handle ` set t" and "distinct (used_handles t)"
  shows "distinct (used_handles (t[k := b])) \<and>
    set (used_handles (t[k := b])) = insert (buf_handle b) (set (used_handles t))"
  using assms
proof (induction t arbitrary: k)
  case (Cons a t)
  show ?case
  proof (cases k)
    case 0
    then show ?thesis using Cons.prems by (auto simp: set_used_handles)
  next
    case (Suc n)
    have "distinct (used_handles (t[n := b])) \<and>
      set (used_handles (t[n := b])) = insert (buf_handle b) (set (used_handles t))"
      using Cons.IH [of n] Cons.prems Suc by (auto split: if_splits)
    then show ?thesis using Cons.prems Suc by auto
  qed
qed simp

lemma used_handles_full_iff:
  "0 \<notin> buf_handle ` set t \<longleftrightarrow> length (used_handles t) = length t"
proof (induction t)
  case (Cons b bs)
  have "length (used_handles bs) \<le> length bs" by (simp add: used_handles_def le_trans [OF length_filter_le])
  then show ?case using Cons.IH by auto
qed simp

lemma forget_length [simp]: "length (eink_buf_forget t h) = length t"
  by (induction t) auto

lemma used_handles_forget:
  "h \<noteq> 0 \<Longrightarrow> used_handles (eink_buf_forget t h) = remove1 h (used_handles t)"
  by (induction t) auto

lemma query_forget_other:
  "h' \<noteq> h \<Longrightarrow> h' \<noteq> 0 \<Longrightarrow> eink_gralloc_query (eink_buf_forget t h) h' = eink_gralloc_query t h'"
  by (induction t) auto

lemma table_ok_init: "table_ok g_bufs_init" and table_abs_init: "table_abs g_bufs_init = Map.empty"
proof -
  have u: "used_handles (replicate n zero_info) = []" for n by (induction n) auto
  show "table_ok g_bufs_init" by (simp add: table_ok_def g_bufs_init_def u)
  have "dom (table_abs g_bufs_init) = {}" by (simp add: dom_table_abs g_bufs_init_def u)
  then show "table_abs g_bufs_init = Map.empty" by simp
qed

lemma table_record_present:
  assumes "table_ok t" and "h \<noteq> 0" and "h \<in> dom (table_abs t)"
  shows "table_ok (eink_buf_record t h w ht s f) \<and>
    table_abs (eink_buf_record t h w ht s f) = (table_abs t)(h \<mapsto> (w, ht, s, f))"
proof -
  let ?b = "\<lparr>buf_handle = h, buf_width = w, buf_height = ht, buf_stride = s, buf_format = f\<rparr>"
  have "h \<in> buf_handle ` set t" using assms by (auto simp: dom_table_abs set_used_handles)
  from record_slot_present [OF this, of 0 None]
  obtain k where k: "record_slot h 0 None t = Some k" "k < length t" "buf_handle (t ! k) = h"
    "\<forall>j<k. buf_handle (t ! j) \<noteq> h" by auto
  have r: "eink_buf_record t h w ht s f = t[k := ?b]" by (simp add: eink_buf_record_def k(1))
  have "table_ok (t[k := ?b])"
    using assms(1) k by (simp add: table_ok_def used_handles_update_same)
  moreover have "table_abs (t[k := ?b]) h' = ((table_abs t)(h \<mapsto> (w, ht, s, f))) h'" for h'
    using k assms(2) query_nth [of k "t[k := ?b]" h] query_update_other [of t k h ?b h']
    by (auto simp: table_abs_def)
  ultimately show ?thesis by (simp add: r fun_eq_iff)
qed

lemma table_record_room:
  assumes "table_ok t" and "h \<noteq> 0" and "h \<notin> dom (table_abs t)"
    and room: "card (dom (table_abs t)) < EINK_MAX_BUFS"
  shows "table_ok (eink_buf_record t h w ht s f) \<and>
    table_abs (eink_buf_record t h w ht s f) = (table_abs t)(h \<mapsto> (w, ht, s, f))"
proof -
  let ?b = "\<lparr>buf_handle = h, buf_width = w, buf_height = ht, buf_stride = s, buf_format = f\<rparr>"
  have d: "distinct (used_handles t)" "length t = EINK_MAX_BUFS" using assms(1) by (auto simp: table_ok_def)
  have nh: "h \<notin> buf_handle ` set t" using assms by (auto simp: dom_table_abs set_used_handles)
  have "card (dom (table_abs t)) = length (used_handles t)"
    by (simp add: dom_table_abs distinct_card d)
  with room d have "0 \<in> buf_handle ` set t" using used_handles_full_iff [of t] by auto
  with record_slot_absent [OF nh, of 0]
  obtain k where k: "record_slot h 0 None t = Some k" "k < length t" "buf_handle (t ! k) = 0" by auto
  have r: "eink_buf_record t h w ht s f = t[k := ?b]" by (simp add: eink_buf_record_def k(1))
  have first: "\<forall>j<k. buf_handle ((t[k := ?b]) ! j) \<noteq> h" using nh k(2) by (auto simp: image_iff)
  have "table_ok (t[k := ?b])"
    using distinct_used_handles_update_empty [of k t ?b] k assms(2) nh d by (simp add: table_ok_def)
  moreover have "table_abs (t[k := ?b]) h' = ((table_abs t)(h \<mapsto> (w, ht, s, f))) h'" for h'
    using k first assms(2) query_nth [of k "t[k := ?b]" h] query_update_other [of t k h ?b h']
    by (auto simp: table_abs_def)
  ultimately show ?thesis by (simp add: r fun_eq_iff)
qed

lemma table_record_full:
  assumes "table_ok t" and "h \<notin> dom (table_abs t)" and "h \<noteq> 0"
    and full: "\<not> card (dom (table_abs t)) < EINK_MAX_BUFS"
  shows "eink_buf_record t h w ht s f = t"
proof -
  have d: "distinct (used_handles t)" "length t = EINK_MAX_BUFS" using assms(1) by (auto simp: table_ok_def)
  have nh: "h \<notin> buf_handle ` set t" using assms by (auto simp: dom_table_abs set_used_handles)
  have "length (used_handles t) \<le> length t" by (simp add: used_handles_def le_trans [OF length_filter_le])
  then have "length (used_handles t) = length t"
    using full d by (simp add: dom_table_abs distinct_card)
  then have "0 \<notin> buf_handle ` set t" using used_handles_full_iff by blast
  with record_slot_absent [OF nh, of 0] have "record_slot h 0 None t = None" by auto
  then show ?thesis by (simp add: eink_buf_record_def)
qed

lemma table_forget:
  assumes "table_ok t" and "h \<noteq> 0"
  shows "table_ok (eink_buf_forget t h) \<and> table_abs (eink_buf_forget t h) = (table_abs t)(h := None)"
proof -
  have d: "distinct (used_handles t)" using assms(1) by (simp add: table_ok_def)
  then have "h \<notin> dom (table_abs (eink_buf_forget t h))"
    using assms(2) by (simp add: dom_table_abs used_handles_forget)
  then have "table_abs (eink_buf_forget t h) h' = ((table_abs t)(h := None)) h'" for h'
    using query_forget_other [of h' h t] assms(2)
    by (auto simp add: table_abs_def domIff simp del: not_None_eq split: if_splits)
  then show ?thesis
    using assms d by (simp add: table_ok_def used_handles_forget fun_eq_iff)
qed

section \<open>The interface: a map with a capacity\<close>

datatype buf_op = Record handle geometry | Forget handle

fun op_handle :: "buf_op \<Rightarrow> handle" where
  "op_handle (Record h g) = h"
| "op_handle (Forget h) = h"

text \<open>One call on a store that offers the two operations, and on the bounded map.\<close>

fun store_step ::
    "('t \<Rightarrow> handle \<Rightarrow> geometry \<Rightarrow> 't) \<Rightarrow> ('t \<Rightarrow> handle \<Rightarrow> 't) \<Rightarrow> 't \<Rightarrow> buf_op \<Rightarrow> 't" where
  "store_step rec forget t (Record h g) = rec t h g"
| "store_step rec forget t (Forget h) = forget t h"

fun spec_step :: "nat \<Rightarrow> (handle \<rightharpoonup> geometry) \<Rightarrow> buf_op \<Rightarrow> (handle \<rightharpoonup> geometry)" where
  "spec_step cap m (Record h g) = (if h \<in> dom m \<or> card (dom m) < cap then m(h \<mapsto> g) else m)"
| "spec_step cap m (Forget h) = m(h := None)"

definition record_geometry :: "buf_table \<Rightarrow> handle \<Rightarrow> geometry \<Rightarrow> buf_table" where
  "record_geometry t h g = (case g of (w, ht, s, f) \<Rightarrow> eink_buf_record t h w ht s f)"

text \<open>
  What a client of the table may rely on. \<open>cap\<close> bounds the number of live
  handles; recording one more is a no-op.
\<close>

locale geometry_store =
  fixes rec :: "'t \<Rightarrow> handle \<Rightarrow> geometry \<Rightarrow> 't"
    and forget :: "'t \<Rightarrow> handle \<Rightarrow> 't"
    and abs :: "'t \<Rightarrow> handle \<rightharpoonup> geometry"
    and ok :: "'t \<Rightarrow> bool"
    and cap :: nat
  assumes ok_rec: "ok t \<Longrightarrow> h \<noteq> 0 \<Longrightarrow> ok (rec t h g)"
    and ok_forget: "ok t \<Longrightarrow> h \<noteq> 0 \<Longrightarrow> ok (forget t h)"
    and abs_rec: "ok t \<Longrightarrow> h \<noteq> 0 \<Longrightarrow>
      abs (rec t h g) =
        (if h \<in> dom (abs t) \<or> card (dom (abs t)) < cap then (abs t)(h \<mapsto> g) else abs t)"
    and abs_forget: "ok t \<Longrightarrow> h \<noteq> 0 \<Longrightarrow> abs (forget t h) = (abs t)(h := None)"
begin

lemma step_refines:
  "ok t \<Longrightarrow> op_handle p \<noteq> 0 \<Longrightarrow> ok (store_step rec forget t p) \<and> abs (store_step rec forget t p) = spec_step cap (abs t) p"
  by (cases p) (auto simp: ok_rec ok_forget abs_rec abs_forget)

lemma run_refines:
  "ok t \<Longrightarrow> \<forall>p \<in> set ps. op_handle p \<noteq> 0 \<Longrightarrow>
     ok (foldl (store_step rec forget) t ps) \<and> abs (foldl (store_step rec forget) t ps) = foldl (spec_step cap) (abs t) ps"
proof (induction ps arbitrary: t)
  case (Cons p ps)
  then have "ok (store_step rec forget t p)" "abs (store_step rec forget t p) = spec_step cap (abs t) p"
    using step_refines [of t p] by auto
  with Cons show ?case by auto
qed simp

text \<open>A recorded handle keeps its geometry until it is recorded again or forgotten.\<close>

lemma lookup_stable:
  assumes "ok t" and "\<forall>p \<in> set ps. op_handle p \<noteq> 0 \<and> op_handle p \<noteq> h" and "abs t h = Some g"
  shows "abs (foldl (store_step rec forget) t ps) h = Some g"
proof -
  have keep: "foldl (spec_step cap) m ps h = Some g" if "m h = Some g" for m
    using that assms(2)
  proof (induction ps arbitrary: m)
    case (Cons p ps)
    then have "spec_step cap m p h = Some g" by (cases p) auto
    with Cons show ?case by auto
  qed simp
  show ?thesis using run_refines [of t ps] assms keep by auto
qed

end

interpretation bufs: geometry_store record_geometry eink_buf_forget table_abs table_ok EINK_MAX_BUFS
proof unfold_locales
  fix t and h :: handle and g :: geometry assume *: "table_ok t" "h \<noteq> 0"
  obtain w ht s f where g: "g = (w, ht, s, f)" by (cases g)
  show "table_ok (record_geometry t h g)"
    using table_record_present [OF *] table_record_room [OF *] table_record_full [OF *(1) _ *(2)] *(1)
    by (simp add: record_geometry_def g) metis
next
  fix t and h :: handle and g :: geometry assume *: "table_ok t" "h \<noteq> 0"
  obtain w ht s f where g: "g = (w, ht, s, f)" by (cases g)
  show "table_abs (record_geometry t h g) =
    (if h \<in> dom (table_abs t) \<or> card (dom (table_abs t)) < EINK_MAX_BUFS
     then (table_abs t)(h \<mapsto> g) else table_abs t)"
    using table_record_present [OF *] table_record_room [OF *] table_record_full [OF *(1) _ *(2)]
    by (cases "h \<in> dom (table_abs t)") (auto simp: record_geometry_def g)
qed (auto simp: table_forget)

section \<open>Properties\<close>

text \<open>
  C5. The side table refines a map of at most 64 entries: after any sequence of
  \<open>eink_buf_record\<close> and \<open>eink_buf_forget\<close> calls on non-NULL
  handles, starting from the zeroed array, a query of a non-NULL handle returns
  exactly what the bounded map holds.
\<close>

theorem table_refines_bounded_map:
  assumes "\<forall>p \<in> set ps. op_handle p \<noteq> 0" and "h \<noteq> 0"
  shows "eink_gralloc_query (foldl (store_step record_geometry eink_buf_forget) g_bufs_init ps) h =
    foldl (spec_step EINK_MAX_BUFS) Map.empty ps h"
proof -
  have "table_abs (foldl (store_step record_geometry eink_buf_forget) g_bufs_init ps) =
      foldl (spec_step EINK_MAX_BUFS) (table_abs g_bufs_init) ps"
    using bufs.run_refines [OF table_ok_init assms(1)] by blast
  then show ?thesis using assms(2) by (simp add: table_abs_init table_abs_def fun_eq_iff) metis
qed

theorem table_refines_bounded_map_witness:
  "eink_gralloc_query (foldl (store_step record_geometry eink_buf_forget) g_bufs_init
      [Record 7 (4, 2, 4, RGB_565), Record 9 (1, 1, 1, RGBA_8888), Forget 9]) 7 =
    foldl (spec_step EINK_MAX_BUFS) Map.empty
      [Record 7 (4, 2, 4, RGB_565), Record 9 (1, 1, 1, RGBA_8888), Forget 9] 7"
  by (rule table_refines_bounded_map) auto

end
