(* ===== verification/GrallocWrapper.thy ===== *)
theory GrallocWrapper
  imports BufferTable
begin

text \<open>
  The gralloc wrapper module (\<open>gralloc_eink/src/eink_wrapper.c\<close>): it loads
  the vendor's module, forwards every call to it, strips one usage flag from
  allocations, records buffer geometry for the compositor and sends an e-ink
  update after every successful \<open>post\<close>.

  The vendor's module is code outside the repository. Its state is the type
  variable \<open>'v\<close> and its functions are the fields of the records
  \<open>fb_ops\<close>, \<open>alloc_ops\<close> and \<open>real_module\<close>, which the
  definitions take as arguments; an optional hook of the vendor's device is an
  \<open>option\<close> (\<open>None\<close> is NULL).
\<close>

section \<open>The vendor's devices\<close>

text \<open>The device names are strings the platform's headers define.\<close>

datatype device_name = GRALLOC_HARDWARE_GPU0 | GRALLOC_HARDWARE_FB0 | DEVICE_OTHER string

record 'v fb_ops =
  fb_setSwapInterval :: "('v \<Rightarrow> int \<Rightarrow> 'v \<times> int) option"
  fb_setUpdateRect :: "('v \<Rightarrow> int \<Rightarrow> int \<Rightarrow> int \<Rightarrow> int \<Rightarrow> 'v \<times> int) option"
  fb_post :: "'v \<Rightarrow> handle \<Rightarrow> 'v \<times> int"
  fb_compositionComplete :: "('v \<Rightarrow> 'v \<times> int) option"
  fb_dump :: "('v \<Rightarrow> int \<Rightarrow> 'v \<times> string) option"
  fb_enableScreen :: "('v \<Rightarrow> int \<Rightarrow> 'v \<times> int) option"
  fb_close :: "'v \<Rightarrow> 'v \<times> int"
  fb_width :: int
  fb_height :: int

text \<open>\<open>alloc\<close> returns its status, the handle and the stride it stored.\<close>

record 'v alloc_ops =
  al_alloc :: "'v \<Rightarrow> int \<Rightarrow> int \<Rightarrow> pixel_format \<Rightarrow> u32 \<Rightarrow> 'v \<times> int \<times> handle \<times> int"
  al_free :: "'v \<Rightarrow> handle \<Rightarrow> 'v \<times> int"
  al_dump :: "('v \<Rightarrow> int \<Rightarrow> 'v \<times> string) option"
  al_close :: "'v \<Rightarrow> 'v \<times> int"

datatype 'v real_device = RealAlloc "'v alloc_ops" | RealFb "'v fb_ops" | RealOther

record 'v real_module =
  mod_open :: "'v \<Rightarrow> device_name \<Rightarrow> 'v \<times> int \<times> 'v real_device option"
  mod_registerBuffer :: "'v \<Rightarrow> handle \<Rightarrow> 'v \<times> int"
  mod_unregisterBuffer :: "'v \<Rightarrow> handle \<Rightarrow> 'v \<times> int"
  mod_lock :: "'v \<Rightarrow> handle \<Rightarrow> u32 \<Rightarrow> int \<Rightarrow> int \<Rightarrow> int \<Rightarrow> int \<Rightarrow> 'v \<times> int \<times> bytes option"
  mod_unlock :: "'v \<Rightarrow> handle \<Rightarrow> 'v \<times> int"

section \<open>The wrapper's state and devices\<close>

text \<open>
  The module's globals, the vendor's state and the updates handed to the panel
  driver, newest last.
\<close>

record 'v wrapper =
  vendor :: 'v
  g_real_module :: bool
  g_bufs :: buf_table
  g_post_count :: int
  panel_updates :: "mxcfb_update list"

text \<open>
  \<open>eink_fb_wrapper_t\<close>: the copied geometry, the vendor's device, the
  wrapper's own descriptor of \<open>fb0\<close>, and which optional hooks of the
  published device are trampolines (the others are NULL).
\<close>

record 'v eink_fb_wrapper =
  dev_width :: int
  dev_height :: int
  real_fb :: "'v fb_ops"
  eink_fd :: int
  has_setUpdateRect :: bool
  has_compositionComplete :: bool
  has_dump :: bool
  has_enableScreen :: bool

record 'v eink_alloc_wrapper =
  real_alloc :: "'v alloc_ops"
  has_alloc_dump :: bool

datatype 'v device =
    WrappedAlloc "'v eink_alloc_wrapper"
  | WrappedFb "'v eink_fb_wrapper"
  | Passthrough "'v real_device"

section \<open>Operations\<close>

text \<open>\<open>dlopen\<close> and \<open>dlsym\<close> succeed or not; a loaded module stays loaded.\<close>

definition ensure_real_loaded :: "bool \<Rightarrow> bool \<Rightarrow> 'v wrapper \<Rightarrow> 'v wrapper \<times> int" where
  "ensure_real_loaded dlopen_ok dlsym_ok s =
     (if g_real_module s then (s, 0)
      else if \<not> dlopen_ok then (s, -1)
      else if \<not> dlsym_ok then (s, -1)
      else (s\<lparr>g_real_module := True\<rparr>, 0))"

definition wrapper_send_update :: "'v wrapper \<Rightarrow> int \<Rightarrow> int \<Rightarrow> 'v wrapper" where
  "wrapper_send_update s xres yres =
     s\<lparr>panel_updates := panel_updates s @
        [\<lparr>upd_left = 0, upd_top = 0, upd_width = xres, upd_height = yres,
          upd_mode = UPDATE_MODE_FULL\<rparr>]\<rparr>"

definition eink_fb_setSwapInterval ::
    "'v eink_fb_wrapper \<Rightarrow> 'v wrapper \<Rightarrow> int \<Rightarrow> 'v wrapper \<times> int" where
  "eink_fb_setSwapInterval w s interval =
     (case fb_setSwapInterval (real_fb w) of
        None \<Rightarrow> (s, 0)
      | Some f \<Rightarrow> (let (v, r) = f (vendor s) interval in (s\<lparr>vendor := v\<rparr>, r)))"

definition eink_fb_setUpdateRect ::
    "'v eink_fb_wrapper \<Rightarrow> 'v wrapper \<Rightarrow> int \<Rightarrow> int \<Rightarrow> int \<Rightarrow> int \<Rightarrow> 'v wrapper \<times> int" where
  "eink_fb_setUpdateRect w s l t wd h =
     (case fb_setUpdateRect (real_fb w) of
        None \<Rightarrow> (s, - EINVAL)
      | Some f \<Rightarrow> (let (v, r) = f (vendor s) l t wd h in (s\<lparr>vendor := v\<rparr>, r)))"

definition eink_fb_post :: "'v eink_fb_wrapper \<Rightarrow> 'v wrapper \<Rightarrow> handle \<Rightarrow> 'v wrapper \<times> int" where
  "eink_fb_post w s buffer =
     (let s1 = s\<lparr>g_post_count := g_post_count s + 1\<rparr>;
          (v, ret) = fb_post (real_fb w) (vendor s1) buffer;
          s2 = s1\<lparr>vendor := v\<rparr>
      in (if ret = 0 \<and> eink_fd w \<ge> 0
          then wrapper_send_update s2 (dev_width w) (dev_height w) else s2, ret))"

definition eink_fb_compositionComplete ::
    "'v eink_fb_wrapper \<Rightarrow> 'v wrapper \<Rightarrow> 'v wrapper \<times> int" where
  "eink_fb_compositionComplete w s =
     (case fb_compositionComplete (real_fb w) of
        None \<Rightarrow> (s, 0)
      | Some f \<Rightarrow> (let (v, r) = f (vendor s) in (s\<lparr>vendor := v\<rparr>, r)))"

definition eink_fb_dump :: "'v eink_fb_wrapper \<Rightarrow> 'v wrapper \<Rightarrow> int \<Rightarrow> 'v wrapper \<times> string option" where
  "eink_fb_dump w s len =
     (case fb_dump (real_fb w) of
        None \<Rightarrow> (s, None)
      | Some f \<Rightarrow> (let (v, buf) = f (vendor s) len in (s\<lparr>vendor := v\<rparr>, Some buf)))"

definition eink_fb_enableScreen ::
    "'v eink_fb_wrapper \<Rightarrow> 'v wrapper \<Rightarrow> int \<Rightarrow> 'v wrapper \<times> int" where
  "eink_fb_enableScreen w s enable =
     (case fb_enableScreen (real_fb w) of
        None \<Rightarrow> (s, 0)
      | Some f \<Rightarrow> (let (v, r) = f (vendor s) enable in (s\<lparr>vendor := v\<rparr>, r)))"

text \<open>
  \<open>close\<close> of the framebuffer device: the result also says whether the
  wrapper's own descriptor was closed.
\<close>

definition eink_fb_close :: "'v eink_fb_wrapper \<Rightarrow> 'v wrapper \<Rightarrow> 'v wrapper \<times> int \<times> bool" where
  "eink_fb_close w s =
     (let closed = (eink_fd w \<ge> 0); (v, ret) = fb_close (real_fb w) (vendor s)
      in (s\<lparr>vendor := v\<rparr>, ret, closed))"

text \<open>
  \<open>alloc\<close>: \<open>want_handle\<close> and \<open>want_stride\<close> say whether the caller's
  output pointers are non-NULL. \<open>hw_fb\<close> is the mask
  \<open>GRALLOC_USAGE_HW_FB\<close> of \<open>hardware/gralloc.h\<close>.
\<close>

definition eink_gpu_alloc ::
    "u32 \<Rightarrow> 'v eink_alloc_wrapper \<Rightarrow> 'v wrapper \<Rightarrow> int \<Rightarrow> int \<Rightarrow> pixel_format \<Rightarrow> u32 \<Rightarrow> bool \<Rightarrow> bool
       \<Rightarrow> 'v wrapper \<times> int \<times> handle \<times> int" where
  "eink_gpu_alloc hw_fb aw s w h format usage want_handle want_stride =
     (let real_usage = usage AND NOT hw_fb;
          (v, ret, hnd, stride) = al_alloc (real_alloc aw) (vendor s) w h format real_usage;
          s1 = s\<lparr>vendor := v\<rparr>;
          s2 = (if ret = 0 \<and> want_handle \<and> hnd \<noteq> 0
                then s1\<lparr>g_bufs := eink_buf_record (g_bufs s1) hnd w h
                          (if want_stride then stride else w) format\<rparr>
                else s1)
      in (s2, ret, hnd, stride))"

definition eink_gpu_free :: "'v eink_alloc_wrapper \<Rightarrow> 'v wrapper \<Rightarrow> handle \<Rightarrow> 'v wrapper \<times> int" where
  "eink_gpu_free aw s h =
     (let s1 = s\<lparr>g_bufs := eink_buf_forget (g_bufs s) h\<rparr>;
          (v, r) = al_free (real_alloc aw) (vendor s1) h
      in (s1\<lparr>vendor := v\<rparr>, r))"

definition eink_gpu_dump :: "'v eink_alloc_wrapper \<Rightarrow> 'v wrapper \<Rightarrow> int \<Rightarrow> 'v wrapper \<times> string option" where
  "eink_gpu_dump aw s len =
     (case al_dump (real_alloc aw) of
        None \<Rightarrow> (s, None)
      | Some f \<Rightarrow> (let (v, buf) = f (vendor s) len in (s\<lparr>vendor := v\<rparr>, Some buf)))"

definition eink_gpu_close :: "'v eink_alloc_wrapper \<Rightarrow> 'v wrapper \<Rightarrow> 'v wrapper \<times> int" where
  "eink_gpu_close aw s =
     (let (v, r) = al_close (real_alloc aw) (vendor s) in (s\<lparr>vendor := v\<rparr>, r))"

text \<open>
  The two devices that \<open>eink_device_open\<close> wraps. A device of the wrong
  kind behind the name is a wild cast (\<open>None\<close>).
\<close>

definition wrap_alloc ::
    "bool \<Rightarrow> 'v wrapper \<Rightarrow> 'v real_device \<Rightarrow> ('v wrapper \<times> int \<times> 'v device option) option" where
  "wrap_alloc malloc_ok s real_device =
     (case real_device of
        RealAlloc ops \<Rightarrow>
          (if \<not> malloc_ok
           then (let (v, _) = al_close ops (vendor s) in Some (s\<lparr>vendor := v\<rparr>, - ENOMEM, None))
           else Some (s, 0, Some (WrappedAlloc
                  \<lparr>real_alloc = ops, has_alloc_dump = (al_dump ops \<noteq> None)\<rparr>)))
      | _ \<Rightarrow> None)"

definition wrap_fb ::
    "bool \<Rightarrow> int \<Rightarrow> 'v wrapper \<Rightarrow> 'v real_device \<Rightarrow> ('v wrapper \<times> int \<times> 'v device option) option" where
  "wrap_fb malloc_ok fb0_fd s real_device =
     (case real_device of
        RealFb ops \<Rightarrow>
          (if \<not> malloc_ok
           then (let (v, _) = fb_close ops (vendor s) in Some (s\<lparr>vendor := v\<rparr>, - ENOMEM, None))
           else Some (s, 0, Some (WrappedFb
                  \<lparr>dev_width = fb_width ops, dev_height = fb_height ops, real_fb = ops,
                   eink_fd = fb0_fd,
                   has_setUpdateRect = (fb_setUpdateRect ops \<noteq> None),
                   has_compositionComplete = (fb_compositionComplete ops \<noteq> None),
                   has_dump = (fb_dump ops \<noteq> None),
                   has_enableScreen = (fb_enableScreen ops \<noteq> None)\<rparr>)))
      | _ \<Rightarrow> None)"

text \<open>
  \<open>env\<close> values: do \<open>dlopen\<close>, \<open>dlsym\<close> and \<open>malloc\<close>
  succeed, and what \<open>open("/dev/graphics/fb0")\<close> returns.
\<close>

definition eink_device_open ::
    "bool \<Rightarrow> bool \<Rightarrow> bool \<Rightarrow> int \<Rightarrow> 'v real_module \<Rightarrow> 'v wrapper \<Rightarrow> device_name
       \<Rightarrow> ('v wrapper \<times> int \<times> 'v device option) option" where
  "eink_device_open dlopen_ok dlsym_ok malloc_ok fb0_fd m s name =
     (let (s0, loaded) = ensure_real_loaded dlopen_ok dlsym_ok s in
      if loaded \<noteq> 0 then Some (s0, - EINVAL, None)
      else
        (let (v, status, real_device) = mod_open m (vendor s0) name;
             s1 = s0\<lparr>vendor := v\<rparr>
         in case real_device of
              None \<Rightarrow> Some (s1, if status \<noteq> 0 then status else - EINVAL, None)
            | Some rd \<Rightarrow>
                if status \<noteq> 0 then Some (s1, status, None)
                else if name = GRALLOC_HARDWARE_GPU0 then wrap_alloc malloc_ok s1 rd
                else if name \<noteq> GRALLOC_HARDWARE_FB0 then Some (s1, 0, Some (Passthrough rd))
                else wrap_fb malloc_ok fb0_fd s1 rd))"

definition eink_registerBuffer ::
    "bool \<Rightarrow> bool \<Rightarrow> 'v real_module \<Rightarrow> 'v wrapper \<Rightarrow> handle \<Rightarrow> 'v wrapper \<times> int" where
  "eink_registerBuffer dlopen_ok dlsym_ok m s h =
     (let (s0, loaded) = ensure_real_loaded dlopen_ok dlsym_ok s in
      if loaded \<noteq> 0 then (s0, - EINVAL)
      else (let (v, r) = mod_registerBuffer m (vendor s0) h in (s0\<lparr>vendor := v\<rparr>, r)))"

definition eink_unregisterBuffer ::
    "bool \<Rightarrow> bool \<Rightarrow> 'v real_module \<Rightarrow> 'v wrapper \<Rightarrow> handle \<Rightarrow> 'v wrapper \<times> int" where
  "eink_unregisterBuffer dlopen_ok dlsym_ok m s h =
     (let (s0, loaded) = ensure_real_loaded dlopen_ok dlsym_ok s in
      if loaded \<noteq> 0 then (s0, - EINVAL)
      else (let (v, r) = mod_unregisterBuffer m (vendor s0) h in (s0\<lparr>vendor := v\<rparr>, r)))"

definition eink_lock ::
    "bool \<Rightarrow> bool \<Rightarrow> 'v real_module \<Rightarrow> 'v wrapper \<Rightarrow> handle \<Rightarrow> u32 \<Rightarrow> int \<Rightarrow> int \<Rightarrow> int \<Rightarrow> int
       \<Rightarrow> 'v wrapper \<times> int \<times> bytes option" where
  "eink_lock dlopen_ok dlsym_ok m s h usage l t w ht =
     (let (s0, loaded) = ensure_real_loaded dlopen_ok dlsym_ok s in
      if loaded \<noteq> 0 then (s0, - EINVAL, None)
      else (let (v, r, vaddr) = mod_lock m (vendor s0) h usage l t w ht
            in (s0\<lparr>vendor := v\<rparr>, r, vaddr)))"

definition eink_unlock ::
    "bool \<Rightarrow> bool \<Rightarrow> 'v real_module \<Rightarrow> 'v wrapper \<Rightarrow> handle \<Rightarrow> 'v wrapper \<times> int" where
  "eink_unlock dlopen_ok dlsym_ok m s h =
     (let (s0, loaded) = ensure_real_loaded dlopen_ok dlsym_ok s in
      if loaded \<noteq> 0 then (s0, - EINVAL)
      else (let (v, r) = mod_unlock m (vendor s0) h in (s0\<lparr>vendor := v\<rparr>, r)))"

section \<open>Properties\<close>

lemma record_table:
  assumes "table_ok t" and "h \<noteq> 0"
  shows "table_ok (eink_buf_record t h w ht st f)"
    and "table_abs (eink_buf_record t h w ht st f) =
      (if h \<in> dom (table_abs t) \<or> card (dom (table_abs t)) < EINK_MAX_BUFS
       then (table_abs t)(h \<mapsto> (w, ht, st, f)) else table_abs t)"
  using bufs.ok_rec [OF assms, of "(w, ht, st, f)"] bufs.abs_rec [OF assms, of "(w, ht, st, f)"]
  by (simp_all add: record_geometry_def)

text \<open>
  Every allocation reaches the vendor without the framebuffer usage flag,
  and a successful one leaves the geometry (with the vendor's stride) in the
  side table under its handle, every other entry unchanged; a failed one leaves
  the table as it was.
\<close>

theorem gpu_alloc_records_geometry:
  assumes ok: "table_ok (g_bufs s)"
    and room: "card (dom (table_abs (g_bufs s))) < EINK_MAX_BUFS"
    and call: "al_alloc (real_alloc aw) (vendor s) w h fmt (usage AND NOT hw_fb) = (v, ret, hnd, stride)"
    and res: "eink_gpu_alloc hw_fb aw s w h fmt usage True True = (s', ret', hnd', stride')"
  shows "(usage AND NOT hw_fb) AND hw_fb = 0 \<and> vendor s' = v \<and> (ret', hnd', stride') = (ret, hnd, stride) \<and>
    table_ok (g_bufs s') \<and>
    table_abs (g_bufs s') =
      (if ret = 0 \<and> hnd \<noteq> 0 then (table_abs (g_bufs s))(hnd \<mapsto> (w, h, stride, fmt))
       else table_abs (g_bufs s))"
proof -
  have "(usage AND NOT hw_fb) AND hw_fb = 0"
    by (rule bit_word_eqI) (simp add: bit_and_iff bit_not_iff)
  then show ?thesis
    using res record_table [OF ok] room by (auto simp: eink_gpu_alloc_def call ok Let_def)
qed

definition demo_alloc_ops :: "nat alloc_ops" where
  "demo_alloc_ops = \<lparr>al_alloc = (\<lambda>v w h f u. (v + 1, 0, 7, w + 8)), al_free = (\<lambda>v h. (v, 0)),
     al_dump = None, al_close = (\<lambda>v. (v, 0))\<rparr>"

definition demo_wrapper :: "nat wrapper" where
  "demo_wrapper = \<lparr>vendor = 0, g_real_module = True, g_bufs = g_bufs_init, g_post_count = 0,
     panel_updates = []\<rparr>"

theorem gpu_alloc_records_geometry_witness:
  "table_abs (g_bufs (fst (eink_gpu_alloc 0x1000 \<lparr>real_alloc = demo_alloc_ops, has_alloc_dump = False\<rparr>
      demo_wrapper 100 50 RGBX_8888 0x1033 True True))) 7 = Some (100, 50, 108, RGBX_8888)"
proof -
  let ?aw = "\<lparr>real_alloc = demo_alloc_ops, has_alloc_dump = False\<rparr>"
  let ?r = "eink_gpu_alloc 0x1000 ?aw demo_wrapper 100 50 RGBX_8888 0x1033 True True"
  obtain s' ret' hnd' stride' where r: "?r = (s', ret', hnd', stride')" by (cases ?r)
  have "table_abs (g_bufs s') = (table_abs (g_bufs demo_wrapper))(7 \<mapsto> (100, 50, 108, RGBX_8888))"
    using gpu_alloc_records_geometry [of demo_wrapper ?aw 100 50 RGBX_8888 "0x1033" "0x1000" 1 0 7 108,
        OF _ _ _ r]
    by (simp add: demo_wrapper_def demo_alloc_ops_def table_ok_init table_abs_init EINK_MAX_BUFS_def)
  then show ?thesis by (simp add: r)
qed

text \<open>
  Freeing a buffer removes exactly its entry from the side table before the
  vendor frees it, so a later query of the handle finds nothing.
\<close>

theorem gpu_free_forgets:
  assumes "table_ok (g_bufs s)" and "h \<noteq> 0"
  shows "table_ok (g_bufs (fst (eink_gpu_free aw s h))) \<and>
    table_abs (g_bufs (fst (eink_gpu_free aw s h))) = (table_abs (g_bufs s))(h := None) \<and>
    eink_gralloc_query (g_bufs (fst (eink_gpu_free aw s h))) h = None \<and>
    (vendor (fst (eink_gpu_free aw s h)), snd (eink_gpu_free aw s h)) =
      al_free (real_alloc aw) (vendor s) h"
proof -
  let ?t = "eink_buf_forget (g_bufs s) h"
  have t: "table_ok ?t" "table_abs ?t = (table_abs (g_bufs s))(h := None)"
    using table_forget [OF assms] by auto
  moreover have "eink_gralloc_query ?t h = None"
    using fun_cong [OF t(2), of h] assms(2) by (simp add: table_abs_def)
  ultimately show ?thesis by (simp add: eink_gpu_free_def Let_def split: prod.splits)
qed

theorem gpu_free_forgets_witness:
  "eink_gralloc_query (g_bufs (fst (eink_gpu_free \<lparr>real_alloc = demo_alloc_ops, has_alloc_dump = False\<rparr>
      demo_wrapper 7))) 7 = None"
  using gpu_free_forgets [of demo_wrapper 7 "\<lparr>real_alloc = demo_alloc_ops, has_alloc_dump = False\<rparr>"]
  by (simp add: demo_wrapper_def table_ok_init)

text \<open>
  \<open>post\<close> returns the vendor's status and sends exactly one full
  update of the whole panel when the vendor succeeded and \<open>fb0\<close> is open,
  and none otherwise.
\<close>

theorem fb_post_updates_panel:
  "let (v, ret) = fb_post (real_fb w) (vendor s) b; (s', ret') = eink_fb_post w s b in
     ret' = ret \<and> vendor s' = v \<and> g_bufs s' = g_bufs s \<and>
     panel_updates s' = panel_updates s @
       (if ret = 0 \<and> 0 \<le> eink_fd w
        then [\<lparr>upd_left = 0, upd_top = 0, upd_width = dev_width w, upd_height = dev_height w,
               upd_mode = UPDATE_MODE_FULL\<rparr>] else [])"
  by (simp add: eink_fb_post_def wrapper_send_update_def Let_def split: prod.splits)

text \<open>
  The outcome of opening a device: status 0 exactly when a device is published,
  the geometry table and the panel untouched.
\<close>

definition open_outcome_ok ::
    "'v wrapper \<Rightarrow> ('v wrapper \<times> int \<times> 'v device option) option \<Rightarrow> bool" where
  "open_outcome_ok s r =
     (case r of
        None \<Rightarrow> False
      | Some (s', ret, dev) \<Rightarrow>
          (ret = 0 \<longleftrightarrow> dev \<noteq> None) \<and> g_bufs s' = g_bufs s \<and> panel_updates s' = panel_updates s)"

lemma wrap_alloc_outcome: "open_outcome_ok s (wrap_alloc mo (s\<lparr>vendor := v\<rparr>) (RealAlloc a))"
  by (simp add: open_outcome_ok_def wrap_alloc_def split: prod.splits)

lemma wrap_fb_outcome: "open_outcome_ok s (wrap_fb mo fd (s\<lparr>vendor := v\<rparr>) (RealFb f))"
  by (simp add: open_outcome_ok_def wrap_fb_def split: prod.splits)

text \<open>
  Opening a device either fails with a non-zero status and publishes
  nothing, or succeeds with status 0 and a device: never a success without a
  device, provided the vendor's module returns for \<open>gpu0\<close> and
  \<open>fb0\<close> the kind of device the name stands for.
\<close>

theorem device_open_status:
  assumes kind: "\<And>v st rd v'. mod_open m v name = (v', st, Some rd) \<Longrightarrow>
      (name = GRALLOC_HARDWARE_GPU0 \<longrightarrow> (\<exists>a. rd = RealAlloc a)) \<and> (name = GRALLOC_HARDWARE_FB0 \<longrightarrow> (\<exists>f. rd = RealFb f))"
  shows "open_outcome_ok s (eink_device_open lo ls mo fd m s name)"
proof -
  obtain s0 l where e: "ensure_real_loaded lo ls s = (s0, l)" by (cases "ensure_real_loaded lo ls s")
  have keep: "g_bufs s0 = g_bufs s" "panel_updates s0 = panel_updates s"
    using e by (auto simp: ensure_real_loaded_def split: if_splits)
  then have mono: "open_outcome_ok s0 r \<Longrightarrow> open_outcome_ok s r" for r
    by (simp add: open_outcome_ok_def cong: option.case_cong)
  obtain v st rd where o: "mod_open m (vendor s0) name = (v, st, rd)"
    by (cases "mod_open m (vendor s0) name") auto
  show ?thesis
  proof (cases "l = 0 \<and> st = 0 \<and> (name = GRALLOC_HARDWARE_GPU0 \<or> name = GRALLOC_HARDWARE_FB0) \<and> rd \<noteq> None")
    case True
    then obtain d where d: "rd = Some d" by blast
    from True have "name = GRALLOC_HARDWARE_GPU0 \<or> name = GRALLOC_HARDWARE_FB0" by simp
    then show ?thesis
    proof
      assume n: "name = GRALLOC_HARDWARE_GPU0"
      with kind [of "vendor s0" v st d] o d obtain a where "d = RealAlloc a" by auto
      then show ?thesis using True n d o mono [OF wrap_alloc_outcome, of mo v a]
        by (simp add: eink_device_open_def e)
    next
      assume n: "name = GRALLOC_HARDWARE_FB0"
      with kind [of "vendor s0" v st d] o d obtain f where "d = RealFb f" by auto
      then show ?thesis using True n d o mono [OF wrap_fb_outcome, of mo fd v f]
        by (simp add: eink_device_open_def e)
    qed
  next
    case False
    then show ?thesis using o keep
      by (auto simp: eink_device_open_def e Let_def open_outcome_ok_def split: option.splits)
  qed
qed

definition demo_module :: "nat real_module" where
  "demo_module = \<lparr>mod_open = (\<lambda>v n. if n = GRALLOC_HARDWARE_GPU0 then (v, 0, Some (RealAlloc demo_alloc_ops))
       else (v, -1, None)),
     mod_registerBuffer = (\<lambda>v h. (v, 0)), mod_unregisterBuffer = (\<lambda>v h. (v, 0)),
     mod_lock = (\<lambda>v h u l t w ht. (v, 0, None)), mod_unlock = (\<lambda>v h. (v, 0))\<rparr>"

theorem device_open_status_witness:
  "open_outcome_ok demo_wrapper (eink_device_open True True True 3 demo_module demo_wrapper GRALLOC_HARDWARE_GPU0)"
  by (rule device_open_status) (auto simp: demo_module_def split: if_splits)

end
