(* ===== verification/HwCompose.thy ===== *)
theory HwCompose
  imports ComposeLayer
begin

text \<open>
  The frame path of the e-ink compositor
  (\<open>gralloc_eink/src/hwcomposer_eink.c\<close>): \<open>hwc_compose\<close>, which
  \<open>hwc_set\<close> and \<open>hwc_prepare\<close> call, and the update request it
  sends to the panel driver.

  The state holds the device, the globals and the function-local statics. Left
  out are the accumulators of elapsed microseconds and the rate limits of the
  log, which no behaviour depends on but log lines. The clock is an input: the
  two readings of \<open>now_us()\<close> that the code keeps are the fields
  \<open>t_set\<close> and \<open>t_upd\<close> of \<open>compose_env\<close>.
\<close>

section \<open>State\<close>

type_synonym rect4 = "int \<times> int \<times> int \<times> int"

record hwc_state =
  hwc_dev :: eink_hwc
  g_prepare_count :: int
  g_set_count :: int
  g_frames_composed :: u32
  g_updates_sent :: u32
  g_frames_identical :: u32
  g_vsync_events :: u32
  g_eventcontrol_count :: u32
  g_nudges :: u32
  g_blank_count :: u32
  g_prepare_composites :: u32
  g_last_blank :: int
  g_last_prepare_layers :: int
  g_last_change_us :: u32
  g_last_set_us :: u32
  g_fence_src :: int
  updates :: int
  prev_rect :: rect4
  sent :: "mxcfb_update list"
  gr_calls :: "gr_call list"

text \<open>\<open>hwc_display_contents_1_t\<close>: the layer list and the retire fence.\<close>

record display =
  hwLayers :: "hwc_layer list"
  retireFenceFd :: int

text \<open>
  What one call of \<open>hwc_compose\<close> depends on outside the compositor: the
  geometry table, the vendor's \<open>lock\<close>, two clock readings and the result
  of \<open>dup\<close>.
\<close>

record compose_env =
  env_query :: "handle \<Rightarrow> geometry option"
  env_lock :: lock_fn
  t_set :: u32
  t_upd :: u32
  dup_fd :: int

definition EINK_FULL_UPDATE_EVERY :: int where "EINK_FULL_UPDATE_EVERY = 60"
definition EINK_SET_MISSING_US :: u32 where "EINK_SET_MISSING_US = 300000"

section \<open>The update request\<close>

definition eink_send_update ::
    "int \<Rightarrow> int \<Rightarrow> int \<Rightarrow> int \<Rightarrow> int \<Rightarrow> bool \<Rightarrow> mxcfb_update option" where
  "eink_send_update panel_width left ytop width height full =
     (if width \<le> 0 \<or> height \<le> 0 then None
      else
        (let right = left + width;
             left = left AND NOT 7;
             width = ((right - left) + 7) AND NOT 7;
             width = (if left + width > panel_width then panel_width - left else width)
         in if width \<le> 0 then None
            else Some \<lparr>upd_left = left, upd_top = ytop, upd_width = width, upd_height = height,
                   upd_mode = (if full then UPDATE_MODE_FULL else UPDATE_MODE_PARTIAL)\<rparr>))"

section \<open>The layer loop\<close>

text \<open>Device, calls into gralloc, \<open>dirty\<close>, and the union of the frames.\<close>

record layer_loop =
  lp_hw :: eink_hwc
  lp_calls :: "gr_call list"
  lp_dirty :: bool
  lp_rect :: rect4

definition union_frame :: "rect4 \<Rightarrow> hwc_rect \<Rightarrow> rect4" where
  "union_frame r f =
     (let (dx0, dy0, dx1, dy1) = r
      in (if rleft f < dx0 then rleft f else dx0, if rtop f < dy0 then rtop f else dy0,
          if rright f > dx1 then rright f else dx1, if rbottom f > dy1 then rbottom f else dy1))"

definition layer_step :: "compose_env \<Rightarrow> hwc_layer \<Rightarrow> layer_loop \<Rightarrow> layer_loop option" where
  "layer_step env l s =
     (if compositionType l = HWC_FRAMEBUFFER_TARGET then Some s
      else if compositionType l = HWC_BACKGROUND
      then Some (s\<lparr>lp_hw := compose_background (lp_hw s) l, lp_dirty := True,
                  lp_rect := (0, 0, hw_width (lp_hw s), hw_height (lp_hw s))\<rparr>)
      else do { (hw, calls, rc) \<leftarrow> compose_layer (env_query env) (env_lock env) (lp_hw s) l;
                let s' = s\<lparr>lp_hw := hw, lp_calls := lp_calls s @ calls\<rparr>;
                Some (if rc = 0
                      then s'\<lparr>lp_dirty := True, lp_rect := union_frame (lp_rect s') (displayFrame l)\<rparr>
                      else s') })"

text \<open>The shadow is cleared to white before the layers are drawn.\<close>

definition clear_shadow :: "eink_hwc \<Rightarrow> eink_hwc" where
  "clear_shadow hw = hw\<lparr>shadow := replicate (unat (fb_size hw)) 0xff\<rparr>"

section \<open>Presenting the frame\<close>

definition clamp_rect :: "int \<Rightarrow> int \<Rightarrow> rect4 \<Rightarrow> rect4" where
  "clamp_rect W H r =
     (let (dx0, dy0, dx1, dy1) = r;
          dx0 = (if dx0 < 0 then 0 else dx0); dy0 = (if dy0 < 0 then 0 else dy0);
          dx1 = (if dx1 > W then W else dx1); dy1 = (if dy1 > H then H else dy1)
      in if dx1 \<le> dx0 \<or> dy1 \<le> dy0 then (0, 0, W, H) else (dx0, dy0, dx1, dy1))"

definition union_prev :: "rect4 \<Rightarrow> rect4 \<Rightarrow> rect4" where
  "union_prev prev r =
     (let (px0, py0, px1, py1) = prev; (dx0, dy0, dx1, dy1) = r
      in if px1 > px0 \<and> py1 > py0
         then (if px0 < dx0 then px0 else dx0, if py0 < dy0 then py0 else dy0,
               if px1 > dx1 then px1 else dx1, if py1 > dy1 then py1 else dy1)
         else r)"

text \<open>
  One row of the comparison: bytes that differ from the panel copy are written
  to the panel copy and to the framebuffer.
\<close>

definition push_row ::
    "int \<Rightarrow> bytes \<Rightarrow> int \<Rightarrow> int \<Rightarrow> int \<Rightarrow> bytes \<times> bytes \<times> bool \<Rightarrow> (bytes \<times> bytes \<times> bool) option" where
  "push_row stride sh dx0 dx1 y s =
     (let (seen, fb, changed) = s;
          off = unat (of_int y * of_int stride + of_int dx0 * 2 :: size_t);
          len = unat (of_int (dx1 - dx0) * 2 :: size_t)
      in do { same \<leftarrow> memeq seen off sh off len;
              if same then Some (seen, fb, changed)
              else do { seen' \<leftarrow> memcpy seen off sh off len;
                        fb' \<leftarrow> memcpy fb off sh off len;
                        Some (seen', fb', True) } })"

definition present_frame :: "compose_env \<Rightarrow> rect4 \<Rightarrow> hwc_state \<Rightarrow> hwc_state option" where
  "present_frame env r s =
     (let hw = hwc_dev s; W = hw_width hw; H = hw_height hw;
          r1 = union_prev (prev_rect s) (clamp_rect W H r);
          full = (updates s mod EINK_FULL_UPDATE_EVERY = 0 \<or> force_full hw);
          (dx0, dy0, dx1, dy1) = (if full then (0, 0, W, H) else r1)
      in do { (seen, fb, changed) \<leftarrow>
                for_range dy0 dy1 (push_row (stride_bytes hw) (shadow hw) dx0 dx1)
                  (panel hw, fb_mem hw, False);
              let s1 = s\<lparr>hwc_dev := hw\<lparr>force_full := False, panel := seen, fb_mem := fb\<rparr>,
                         prev_rect := r1,
                         g_frames_composed := g_frames_composed s + 1,
                         g_last_set_us := t_set env\<rparr>;
              Some (if \<not> changed
                    then s1\<lparr>g_frames_identical := g_frames_identical s1 + 1\<rparr>
                    else s1\<lparr>g_last_change_us := t_upd env,
                            updates := updates s1 + 1,
                            g_updates_sent := g_updates_sent s1 + 1,
                            sent := sent s1 @
                              (case eink_send_update W dx0 dy0 (dx1 - dx0) (dy1 - dy0) full of
                                 None \<Rightarrow> [] | Some u \<Rightarrow> [u])\<rparr>) })"

section \<open>hwc_compose, set and prepare\<close>

definition compose_primary ::
    "compose_env \<Rightarrow> bool \<Rightarrow> display \<Rightarrow> hwc_state \<Rightarrow> (hwc_state \<times> display) option" where
  "compose_primary env from_set d s =
     (let hw = hwc_dev s;
          d1 = d\<lparr>hwLayers := map (\<lambda>l. l\<lparr>releaseFenceFd := -1\<rparr>) (hwLayers d)\<rparr>;
          d2 = (if from_set
                then d1\<lparr>retireFenceFd := (if g_fence_src s \<ge> 0 then dup_fd env else -1)\<rparr> else d1)
      in if blanked hw then Some (s, d2)
         else do { lp \<leftarrow> foldM (layer_step env) (hwLayers d1)
                          \<lparr>lp_hw = clear_shadow hw, lp_calls = [], lp_dirty = False,
                           lp_rect = (hw_width hw, hw_height hw, 0, 0)\<rparr>;
                   let s1 = s\<lparr>hwc_dev := lp_hw lp, gr_calls := gr_calls s @ lp_calls lp\<rparr>;
                   s2 \<leftarrow> (if lp_dirty lp then present_frame env (lp_rect lp) s1 else Some s1);
                   Some (s2, d2) })"

text \<open>The loop over the displays; display 0 is the primary one.\<close>

fun compose_displays ::
    "compose_env \<Rightarrow> bool \<Rightarrow> nat \<Rightarrow> display option list \<Rightarrow> hwc_state
       \<Rightarrow> (hwc_state \<times> display option list) option" where
  "compose_displays env from_set i [] s = Some (s, [])"
| "compose_displays env from_set i (None # ds) s =
     do { (s', ds') \<leftarrow> compose_displays env from_set (Suc i) ds s; Some (s', None # ds') }"
| "compose_displays env from_set i (Some d # ds) s =
     do { (s1, d1) \<leftarrow> (if i \<noteq> 0 then Some (s, d\<lparr>retireFenceFd := -1\<rparr>)
                        else compose_primary env from_set d s);
          (s2, ds') \<leftarrow> compose_displays env from_set (Suc i) ds s1;
          Some (s2, Some d1 # ds') }"

definition hwc_compose ::
    "compose_env \<Rightarrow> bool \<Rightarrow> display option list \<Rightarrow> hwc_state
       \<Rightarrow> (hwc_state \<times> display option list \<times> int) option" where
  "hwc_compose env from_set displays s =
     (let s1 = (if from_set then s\<lparr>g_set_count := g_set_count s + 1\<rparr>
                else s\<lparr>g_prepare_composites := g_prepare_composites s + 1\<rparr>)
      in do { (s2, ds) \<leftarrow> compose_displays env from_set 0 displays s1; Some (s2, ds, 0) })"

definition hwc_set ::
    "compose_env \<Rightarrow> display option list \<Rightarrow> hwc_state \<Rightarrow> (hwc_state \<times> display option list \<times> int) option" where
  "hwc_set env displays s = hwc_compose env True displays s"

text \<open>\<open>prepare\<close> claims every real layer as an overlay.\<close>

definition claim_layer :: "hwc_layer \<Rightarrow> hwc_layer" where
  "claim_layer l =
     (if compositionType l = HWC_FRAMEBUFFER_TARGET then l
      else if compositionType l = HWC_BACKGROUND then l
      else l\<lparr>compositionType := HWC_OVERLAY, hints := 0\<rparr>)"

definition claim_display :: "display option \<Rightarrow> display option" where
  "claim_display d = map_option (\<lambda>d. d\<lparr>hwLayers := map claim_layer (hwLayers d)\<rparr>) d"

text \<open>\<open>now\<close> is the reading of \<open>now_us()\<close> in the condition at the end.\<close>

definition hwc_prepare ::
    "compose_env \<Rightarrow> u32 \<Rightarrow> display option list \<Rightarrow> hwc_state
       \<Rightarrow> (hwc_state \<times> display option list \<times> int) option" where
  "hwc_prepare env now displays s =
     (let s1 = s\<lparr>g_last_prepare_layers :=
                   (case displays of Some d # _ \<Rightarrow> int (length (hwLayers d)) | _ \<Rightarrow> -1),
                 g_prepare_count := g_prepare_count s + 1\<rparr>;
          ds = map claim_display displays
      in if \<not> blanked (hwc_dev s1) \<and> g_last_set_us s1 \<noteq> 0 \<and> now - g_last_set_us s1 > EINK_SET_MISSING_US
         then do { (s2, ds', _) \<leftarrow> hwc_compose env False ds s1; Some (s2, ds', 0) }
         else Some (s1, ds, 0))"

end
