(* ===== verification/Image.thy ===== *)
theory Image
  imports ComposeLayer
begin

text \<open>
  Byte buffers as images. \<open>px\<close> reads the panel pixel at a position of a
  buffer in the framebuffer's layout; \<open>paints\<close> says that a buffer
  operation never faults and acts on the image as a given function of position
  and old pixel value. The loops of the compositor are composed with
  \<open>paints_foldM\<close>, so the proofs about them are proofs about functions on
  pixels.
\<close>

section \<open>Definitions\<close>

definition px :: "int \<Rightarrow> bytes \<Rightarrow> int \<Rightarrow> int \<Rightarrow> u16" where
  "px st b x y = mk16 (b ! nat (y * st + 2 * x)) (b ! (nat (y * st + 2 * x) + 1))"

definition in_panel :: "int \<Rightarrow> int \<Rightarrow> int \<Rightarrow> int \<Rightarrow> bool" where
  "in_panel W H x y \<longleftrightarrow> 0 \<le> x \<and> x < W \<and> 0 \<le> y \<and> y < H"

definition panel_ok :: "int \<Rightarrow> int \<Rightarrow> int \<Rightarrow> bytes \<Rightarrow> bool" where
  "panel_ok W H st b \<longleftrightarrow>
     0 \<le> W \<and> 0 \<le> H \<and> 2 * W \<le> st \<and> st * H < 2 ^ 32 \<and> length b = nat (st * H)"

definition paints ::
    "int \<Rightarrow> int \<Rightarrow> int \<Rightarrow> (bytes \<Rightarrow> bytes option) \<Rightarrow> (int \<Rightarrow> int \<Rightarrow> u16 \<Rightarrow> u16) \<Rightarrow> bool" where
  "paints W H st f g \<longleftrightarrow>
     (\<forall>b. panel_ok W H st b \<longrightarrow>
        (\<exists>b'. f b = Some b' \<and> panel_ok W H st b' \<and>
           (\<forall>x y. in_panel W H x y \<longrightarrow> px st b' x y = g x y (px st b x y))))"

section \<open>Offsets\<close>

lemma pixel_bounds:
  assumes "panel_ok W H st b" and "in_panel W H x y"
  shows "0 \<le> y * st + 2 * x" and "y * st + 2 * x + 2 \<le> st * H"
    and "nat (y * st + 2 * x) + 1 < length b" and "y * st + 2 * x < 2 ^ 32"
proof -
  have p: "0 \<le> x" "x < W" "0 \<le> y" "y < H" "2 * W \<le> st" "st * H < 2 ^ 32" "length b = nat (st * H)"
    using assms by (auto simp: panel_ok_def in_panel_def)
  have "0 \<le> st" using p by linarith
  then have y0: "0 \<le> y * st" using p by simp
  then show lo: "0 \<le> y * st + 2 * x" using p by linarith
  have "(y + 1) * st \<le> H * st" using p \<open>0 \<le> st\<close> by (intro mult_right_mono) auto
  then have "y * st + st \<le> st * H" by (simp add: algebra_simps)
  then show hi: "y * st + 2 * x + 2 \<le> st * H" using p by linarith
  show "y * st + 2 * x < 2 ^ 32" using hi p by linarith
  show "nat (y * st + 2 * x) + 1 < length b" using lo hi p by linarith
qed

text \<open>The offset the code computes in 32-bit \<open>size_t\<close> is the pixel's offset.\<close>

lemma pixel_offset:
  assumes "panel_ok W H st b" and "in_panel W H x y"
  shows "unat (of_int y * of_int st + of_int x * 2 :: size_t) = nat (y * st + 2 * x)"
proof -
  have eq: "(of_int y * of_int st + of_int x * 2 :: size_t) = of_int (y * st + 2 * x)" by simp
  show ?thesis unfolding eq by (rule unat_size_t) (use pixel_bounds [OF assms] in auto)
qed

lemma pixel_disjoint:
  assumes "panel_ok W H st b" and "in_panel W H x y" and "in_panel W H x' y'" and "(x, y) \<noteq> (x', y')"
  shows "y' * st + 2 * x' + 2 \<le> y * st + 2 * x \<or> y * st + 2 * x + 2 \<le> y' * st + 2 * x'"
proof -
  have p: "0 \<le> x" "x < W" "0 \<le> x'" "x' < W" "2 * W \<le> st"
    using assms by (auto simp: panel_ok_def in_panel_def)
  have "0 \<le> st" using p by linarith
  consider "y = y'" | "y < y'" | "y' < y" by linarith
  then show ?thesis
  proof cases
    case 1
    then show ?thesis using assms(4) by auto
  next
    case 2
    then have "(y + 1) * st \<le> y' * st" using \<open>0 \<le> st\<close> by (intro mult_right_mono) auto
    then have "y * st + st \<le> y' * st" by (simp add: algebra_simps)
    then show ?thesis using p by linarith
  next
    case 3
    then have "(y' + 1) * st \<le> y * st" using \<open>0 \<le> st\<close> by (intro mult_right_mono) auto
    then have "y' * st + st \<le> y * st" by (simp add: algebra_simps)
    then show ?thesis using p by linarith
  qed
qed

lemma px_load16:
  assumes "panel_ok W H st b" and "in_panel W H x y"
  shows "load16 b (nat (y * st + 2 * x)) = Some (px st b x y)"
  using pixel_bounds [OF assms] by (simp add: load16_def px_def)

lemma px_store16:
  assumes ok: "panel_ok W H st b" and p: "in_panel W H x y"
  shows "\<exists>b'. store16 b (nat (y * st + 2 * x)) v = Some b' \<and> panel_ok W H st b' \<and>
    (\<forall>x' y'. in_panel W H x' y' \<longrightarrow>
       px st b' x' y' = (if (x', y') = (x, y) then v else px st b x' y'))"
proof -
  let ?o = "nat (y * st + 2 * x)"
  have b: "?o + 1 < length b" "0 \<le> y * st + 2 * x" using pixel_bounds [OF ok p] by auto
  then obtain b' where s: "store16 b ?o v = Some b'" by (simp add: store16_def)
  have "px st b' x' y' = (if (x', y') = (x, y) then v else px st b x' y')"
    if q: "in_panel W H x' y'" for x' y'
  proof (cases "(x', y') = (x, y)")
    case True
    then show ?thesis using b store16_nth [OF s] by (auto simp: px_def)
  next
    case False
    have q1: "nat (y' * st + 2 * x') + 1 < length b" "0 \<le> y' * st + 2 * x'"
      using pixel_bounds [OF ok q] by auto
    have "nat (y' * st + 2 * x') + 2 \<le> ?o \<or> ?o + 2 \<le> nat (y' * st + 2 * x')"
      using pixel_disjoint [OF ok p q] False q1 b by auto
    then show ?thesis using False store16_nth [OF s] q1 by (auto simp: px_def)
  qed
  moreover have "panel_ok W H st b'" using ok store16_length [OF s] by (simp add: panel_ok_def)
  ultimately show ?thesis using s by blast
qed

section \<open>Composing painters\<close>

lemma paints_id: "paints W H st Some (\<lambda>x y old. old)"
  by (simp add: paints_def)

lemma paints_foldM:
  assumes "\<And>i. i \<in> set xs \<Longrightarrow> paints W H st (f i) (g i)"
  shows "paints W H st (foldM f xs) (\<lambda>x y. fold (\<lambda>i. g i x y) xs)"
  using assms
proof (induction xs)
  case Nil
  then show ?case by (simp add: paints_def)
next
  case (Cons i xs)
  have h: "paints W H st (f i) (g i)" and t: "paints W H st (foldM f xs) (\<lambda>x y. fold (\<lambda>i. g i x y) xs)"
    using Cons by auto
  show ?case unfolding paints_def
  proof (intro allI impI)
    fix b assume "panel_ok W H st b"
    with h obtain b1 where b1: "f i b = Some b1" "panel_ok W H st b1"
      "\<forall>x y. in_panel W H x y \<longrightarrow> px st b1 x y = g i x y (px st b x y)" by (auto simp: paints_def)
    with t obtain b2 where b2: "foldM f xs b1 = Some b2" "panel_ok W H st b2"
      "\<forall>x y. in_panel W H x y \<longrightarrow> px st b2 x y = fold (\<lambda>i. g i x y) xs (px st b1 x y)"
      by (auto simp: paints_def)
    with b1 show "\<exists>b'. foldM f (i # xs) b = Some b' \<and> panel_ok W H st b' \<and>
      (\<forall>x y. in_panel W H x y \<longrightarrow> px st b' x y = fold (\<lambda>i. g i x y) (i # xs) (px st b x y))"
      by simp
  qed
qed

lemma paints_cong:
  assumes "paints W H st f g" and "\<And>x y old. in_panel W H x y \<Longrightarrow> g x y old = g' x y old"
  shows "paints W H st f g'"
  using assms unfolding paints_def by metis

text \<open>A loop in which only the iteration \<open>k\<close> touches the pixel.\<close>

lemma fold_once:
  assumes "distinct xs" and "\<And>i. i \<in> set xs \<Longrightarrow> g i = (\<lambda>v. if i = k \<and> Q then h v else v)"
  shows "fold g xs v = (if k \<in> set xs \<and> Q then h v else v)"
  using assms by (induction xs arbitrary: v) auto

lemma paints_pixel:
  assumes "in_panel W H dx dy"
    and "\<And>b. panel_ok W H st b \<Longrightarrow>
      f b = store16 b (nat (dy * st + 2 * dx)) (h (px st b dx dy))"
  shows "paints W H st f (\<lambda>x y old. if (x, y) = (dx, dy) then h old else old)"
  unfolding paints_def
proof (intro allI impI)
  fix b assume ok: "panel_ok W H st b"
  from px_store16 [OF ok assms(1), of "h (px st b dx dy)"] assms(2) [OF ok]
  show "\<exists>b'. f b = Some b' \<and> panel_ok W H st b' \<and> (\<forall>x y. in_panel W H x y \<longrightarrow>
     px st b' x y = (if (x, y) = (dx, dy) then h (px st b x y) else px st b x y))"
    by (auto 0 4)
qed

section \<open>The general loop\<close>

text \<open>
  Source pixel of the frame position \<open>(i, j)\<close>: the inverse of
  \<open>place\<close>.
\<close>

fun layer_src :: "transform \<Rightarrow> int \<Rightarrow> int \<Rightarrow> int \<Rightarrow> int \<Rightarrow> int \<times> int" where
  "layer_src XF_ROT_90 cw ch i j = (j, ch - 1 - i)"
| "layer_src XF_ROT_180 cw ch i j = (cw - 1 - i, ch - 1 - j)"
| "layer_src XF_ROT_270 cw ch i j = (cw - 1 - j, i)"
| "layer_src XF_FLIP_H cw ch i j = (cw - 1 - i, j)"
| "layer_src XF_FLIP_V cw ch i j = (i, ch - 1 - j)"
| "layer_src _ cw ch i j = (i, j)"

lemma place_src:
  assumes "place xf cw ch sy = (i0, j0, di, dj)"
  shows "(dleft + i0 + sx * di, dtop + j0 + sx * dj) = (x, y) \<longleftrightarrow>
    layer_src xf cw ch (x - dleft) (y - dtop) = (sx, sy)"
  using assms by (cases xf) auto

text \<open>A locked source buffer holds every pixel of its geometry.\<close>

definition src_ok :: "geometry \<Rightarrow> bytes \<Rightarrow> bool" where
  "src_ok geo src \<longleftrightarrow>
     (case geo of (sw, sht, sstride, f) \<Rightarrow>
        0 \<le> sw \<and> 0 \<le> sht \<and> sw \<le> sstride \<and>
        sstride * src_bytes_per_pixel f * sht \<le> int (length src) \<and> int (length src) < 2 ^ 32)"

definition src_off :: "int \<Rightarrow> pixel_format \<Rightarrow> int \<Rightarrow> int \<Rightarrow> nat" where
  "src_off sstride f sx sy =
     nat (sy * (sstride * src_bytes_per_pixel f) + sx * src_bytes_per_pixel f)"

lemma src_bounds:
  assumes "src_ok (sw, sht, sstride, f) src" and "0 \<le> x" "x < sw" "0 \<le> y" "y < sht"
  shows "0 \<le> y * (sstride * src_bytes_per_pixel f) + x * src_bytes_per_pixel f"
    and "y * (sstride * src_bytes_per_pixel f) + x * src_bytes_per_pixel f < 2 ^ 32"
    and "src_off sstride f x y + nat (src_bytes_per_pixel f) \<le> length src"
proof -
  let ?s = "src_bytes_per_pixel f"
  have s0: "0 \<le> ?s" using src_bytes_per_pixel_range [of f] by auto
  have a: "sw \<le> sstride" "sstride * ?s * sht \<le> int (length src)" "int (length src) < 2 ^ 32"
    using assms(1) by (auto simp: src_ok_def)
  have st0: "0 \<le> sstride * ?s" using a(1) assms s0 by simp
  have "0 \<le> y * (sstride * ?s)" "0 \<le> x * ?s" using st0 s0 assms by simp_all
  then show lo: "0 \<le> y * (sstride * ?s) + x * ?s" by linarith
  have "(x + 1) * ?s \<le> sstride * ?s" using a assms s0 by (intro mult_right_mono) auto
  moreover have "(y + 1) * (sstride * ?s) \<le> sht * (sstride * ?s)"
    using assms st0 by (intro mult_right_mono) auto
  ultimately have hi: "y * (sstride * ?s) + x * ?s + ?s \<le> sstride * ?s * sht"
    by (simp add: algebra_simps)
  show "src_off sstride f x y + nat ?s \<le> length src"
    using lo hi a s0 by (simp add: src_off_def nat_add_distrib [symmetric] nat_le_iff)
  show "y * (sstride * ?s) + x * ?s < 2 ^ 32"
    using hi a s0 by linarith
qed

lemma src_offset:
  assumes "src_ok (sw, sht, sstride, f) src" and "0 \<le> x" "x < sw" "0 \<le> y" "y < sht"
  shows "unat (of_int y * (of_int sstride * of_int (src_bytes_per_pixel f)) +
      of_int x * of_int (src_bytes_per_pixel f) :: size_t) = src_off sstride f x y"
proof -
  let ?s = "src_bytes_per_pixel f"
  have eq: "(of_int y * (of_int sstride * of_int ?s) + of_int x * of_int ?s :: size_t) =
      of_int (y * (sstride * ?s) + x * ?s)" by simp
  show ?thesis unfolding eq src_off_def by (rule unat_size_t) (use src_bounds [OF assms] in auto)
qed

lemma src_off_shift:
  assumes "0 \<le> y * (sstride * src_bytes_per_pixel f) + x * src_bytes_per_pixel f" and "0 \<le> k"
  shows "src_off sstride f x y + nat k * nat (src_bytes_per_pixel f) = src_off sstride f (x + k) y"
proof -
  let ?s = "src_bytes_per_pixel f"
  have s0: "0 \<le> ?s" using src_bytes_per_pixel_range [of f] by auto
  have "y * (sstride * ?s) + (x + k) * ?s = (y * (sstride * ?s) + x * ?s) + k * ?s"
    by (simp add: distrib_right)
  then show ?thesis
    using assms s0 by (simp only: src_off_def nat_add_distrib nat_mult_distrib mult_nonneg_nonneg)
qed

text \<open>The blend of one source pixel over an old panel pixel.\<close>

definition blend_over ::
    "bytes \<Rightarrow> geometry \<Rightarrow> blending \<Rightarrow> int \<Rightarrow> int \<Rightarrow> u16 \<Rightarrow> u16" where
  "blend_over src geo bl sx sy old =
     (case geo of (sw, sht, sstride, f) \<Rightarrow>
        the (blend_px old src (src_off sstride f sx sy) (src_bytes_per_pixel f) f bl 255))"

lemma paints_blend_at:
  assumes src: "src_ok (sw, sht, sstride, f) src" and f: "src_bytes_per_pixel f \<noteq> 0"
    and s: "0 \<le> sx" "sx < sw" "0 \<le> sy" "sy < sht" and p: "in_panel W H dx dy"
  shows "paints W H st
      (blend_at st src (of_int sstride * of_int (src_bytes_per_pixel f)) (src_bytes_per_pixel f) f bl sx sy dx dy)
      (\<lambda>x y old. if (x, y) = (dx, dy) then blend_over src (sw, sht, sstride, f) bl sx sy old else old)"
proof (rule paints_pixel [OF p])
  fix b assume ok: "panel_ok W H st b"
  obtain v where "blend_px (px st b dx dy) src (src_off sstride f sx sy) (src_bytes_per_pixel f) f bl 255 = Some v"
    using blend_px_defined [OF src_bounds(3) [OF src s] f] by blast
  then show "blend_at st src (of_int sstride * of_int (src_bytes_per_pixel f)) (src_bytes_per_pixel f) f bl sx sy dx dy b =
      store16 b (nat (dy * st + 2 * dx)) (blend_over src (sw, sht, sstride, f) bl sx sy (px st b dx dy))"
    by (simp add: blend_at_def pixel_offset [OF ok p] src_offset [OF src s] px_load16 [OF ok p] blend_over_def)
qed

text \<open>What one source row contributes to the pixel \<open>(x, y)\<close>.\<close>

definition row_pixel ::
    "bytes \<Rightarrow> geometry \<Rightarrow> blending \<Rightarrow> transform \<Rightarrow> int \<Rightarrow> int \<Rightarrow> int \<Rightarrow> int \<Rightarrow> int \<Rightarrow> int
       \<Rightarrow> int \<Rightarrow> int \<Rightarrow> int \<Rightarrow> u16 \<Rightarrow> u16" where
  "row_pixel src geo bl xf cleft ctop cw ch dleft dtop sy x y old =
     (case geo of (sw, sht, sstride, f) \<Rightarrow>
      case layer_src xf cw ch (x - dleft) (y - dtop) of (sx, sy') \<Rightarrow>
        if sy' = sy \<and> 0 \<le> sx \<and> sx < cw \<and> 0 \<le> cleft + sx \<and> cleft + sx < sw \<and>
           0 \<le> ctop + sy \<and> ctop + sy < sht
        then blend_over src geo bl (cleft + sx) (ctop + sy) old else old)"

lemma paints_general_row:
  assumes src: "src_ok (sw, sht, sstride, f) src" and f: "src_bytes_per_pixel f \<noteq> 0"
  shows "paints W H st
      (general_row W H st src (of_int sstride * of_int (src_bytes_per_pixel f)) (src_bytes_per_pixel f) f bl xf
         sw sht cleft ctop cw ch dleft dtop sy)
      (row_pixel src (sw, sht, sstride, f) bl xf cleft ctop cw ch dleft dtop sy)"
proof (cases "0 \<le> ctop + sy \<and> ctop + sy < sht")
  case False
  then have "general_row W H st src (of_int sstride * of_int (src_bytes_per_pixel f)) (src_bytes_per_pixel f) f bl xf
      sw sht cleft ctop cw ch dleft dtop sy = Some"
    by (intro ext) (auto simp: general_row_def Let_def)
  then show ?thesis
    using False by (auto intro!: paints_cong [OF paints_id] simp: row_pixel_def split: prod.splits)
next
  case True
  obtain i0 j0 di dj where pl: "place xf cw ch sy = (i0, j0, di, dj)" by (cases "place xf cw ch sy")
  let ?dx = "\<lambda>sx. dleft + i0 + sx * di" and ?dy = "\<lambda>sx. dtop + j0 + sx * dj"
  let ?C = "\<lambda>sx. 0 \<le> cleft + sx \<and> cleft + sx < sw \<and> in_panel W H (?dx sx) (?dy sx)"
  let ?body = "\<lambda>sx sh. if cleft + sx < 0 \<or> cleft + sx \<ge> sw then Some sh
      else if ?dx sx < 0 \<or> ?dx sx \<ge> W \<or> ?dy sx < 0 \<or> ?dy sx \<ge> H then Some sh
      else blend_at st src (of_int sstride * of_int (src_bytes_per_pixel f)) (src_bytes_per_pixel f) f bl
             (cleft + sx) (ctop + sy) (?dx sx) (?dy sx) sh"
  let ?g = "\<lambda>sx x y old. if ?C sx \<and> (x, y) = (?dx sx, ?dy sx)
      then blend_over src (sw, sht, sstride, f) bl (cleft + sx) (ctop + sy) old else old"
  have body: "paints W H st (?body sx) (?g sx)" for sx
  proof (cases "?C sx")
    case c: True
    then have "?body sx = blend_at st src (of_int sstride * of_int (src_bytes_per_pixel f)) (src_bytes_per_pixel f) f
        bl (cleft + sx) (ctop + sy) (?dx sx) (?dy sx)"
      by (auto simp: in_panel_def)
    then show ?thesis using paints_blend_at [OF src f, of "cleft + sx" "ctop + sy" W H] c True by simp
  next
    case c: False
    then have "?body sx = Some" by (auto simp: in_panel_def)
    then show ?thesis using c by (auto intro!: paints_cong [OF paints_id])
  qed
  have row: "general_row W H st src (of_int sstride * of_int (src_bytes_per_pixel f)) (src_bytes_per_pixel f) f bl xf
      sw sht cleft ctop cw ch dleft dtop sy = foldM ?body [0..cw - 1]"
    using True by (intro ext) (simp add: general_row_def for_range_def pl Let_def)
  show ?thesis unfolding row
  proof (rule paints_cong [OF paints_foldM [OF body]])
    fix x y old assume p: "in_panel W H x y"
    obtain k k' where k: "layer_src xf cw ch (x - dleft) (y - dtop) = (k, k')" by fastforce
    have hit: "(x, y) = (?dx i, ?dy i) \<longleftrightarrow> i = k \<and> k' = sy" for i
      using place_src [OF pl, of dleft i dtop x y] k by auto
    have "fold (\<lambda>i. ?g i x y) [0..cw - 1] old =
        (if k \<in> set [0..cw - 1] \<and> (k' = sy \<and> 0 \<le> cleft + k \<and> cleft + k < sw)
         then blend_over src (sw, sht, sstride, f) bl (cleft + k) (ctop + sy) old else old)"
    proof (rule fold_once)
      show "distinct [0..cw - 1]" by simp
      fix i
      have "i = k \<and> k' = sy \<Longrightarrow> in_panel W H (?dx i) (?dy i)" using p hit [of i] by simp
      then show "(\<lambda>old. ?g i x y old) = (\<lambda>v. if i = k \<and> k' = sy \<and> 0 \<le> cleft + k \<and> cleft + k < sw
          then blend_over src (sw, sht, sstride, f) bl (cleft + k) (ctop + sy) v else v)"
        unfolding hit by auto
    qed
    then show "fold (\<lambda>i. ?g i x y) [0..cw - 1] old =
        row_pixel src (sw, sht, sstride, f) bl xf cleft ctop cw ch dleft dtop sy x y old"
      using True by (simp add: row_pixel_def k)
  qed
qed

text \<open>
  The pixel \<open>(x, y)\<close> of the panel after a layer: the reference
  definition of \<open>compose_layer\<close>.
\<close>

definition layer_pixel :: "hwc_layer \<Rightarrow> geometry \<Rightarrow> bytes \<Rightarrow> int \<Rightarrow> int \<Rightarrow> u16 \<Rightarrow> u16" where
  "layer_pixel l geo src x y old =
     (case geo of (sw, sht, sstride, f) \<Rightarrow>
      let cleft = rleft (sourceCropi l); ctop = rtop (sourceCropi l);
          cw = rright (sourceCropi l) - cleft; ch = rbottom (sourceCropi l) - ctop;
          (sx, sy) = layer_src (l_transform l) cw ch
                       (x - rleft (displayFrame l)) (y - rtop (displayFrame l))
      in if 0 \<le> sx \<and> sx < cw \<and> 0 \<le> sy \<and> sy < ch \<and> 0 \<le> cleft + sx \<and> cleft + sx < sw \<and>
            0 \<le> ctop + sy \<and> ctop + sy < sht
         then blend_over src geo (l_blending l) (cleft + sx) (ctop + sy) old else old)"

lemma paints_general:
  assumes src: "src_ok (sw, sht, sstride, f) src" and f: "src_bytes_per_pixel f \<noteq> 0"
  shows "paints W H st
      (for_range 0 (rbottom (sourceCropi l) - rtop (sourceCropi l))
        (general_row W H st src (of_int sstride * of_int (src_bytes_per_pixel f)) (src_bytes_per_pixel f) f
           (l_blending l) (l_transform l) sw sht (rleft (sourceCropi l)) (rtop (sourceCropi l))
           (rright (sourceCropi l) - rleft (sourceCropi l)) (rbottom (sourceCropi l) - rtop (sourceCropi l))
           (rleft (displayFrame l)) (rtop (displayFrame l))))
      (layer_pixel l (sw, sht, sstride, f) src)"
  unfolding for_range_def
proof (rule paints_cong [OF paints_foldM [OF paints_general_row [OF src f]]])
  fix x y old
  let ?cw = "rright (sourceCropi l) - rleft (sourceCropi l)" and ?ch = "rbottom (sourceCropi l) - rtop (sourceCropi l)"
  obtain k k' where k: "layer_src (l_transform l) ?cw ?ch (x - rleft (displayFrame l)) (y - rtop (displayFrame l)) = (k, k')"
    by fastforce
  let ?cl = "rleft (sourceCropi l)" and ?ct = "rtop (sourceCropi l)"
  have "fold (\<lambda>sy. row_pixel src (sw, sht, sstride, f) (l_blending l) (l_transform l) ?cl ?ct ?cw ?ch
      (rleft (displayFrame l)) (rtop (displayFrame l)) sy x y) [0..?ch - 1] old =
     (if k' \<in> set [0..?ch - 1] \<and> (0 \<le> k \<and> k < ?cw \<and> 0 \<le> ?cl + k \<and> ?cl + k < sw \<and> 0 \<le> ?ct + k' \<and> ?ct + k' < sht)
      then blend_over src (sw, sht, sstride, f) (l_blending l) (?cl + k) (?ct + k') old else old)"
    by (rule fold_once) (auto simp: row_pixel_def k)
  then show "fold (\<lambda>sy. row_pixel src (sw, sht, sstride, f) (l_blending l) (l_transform l) ?cl ?ct ?cw ?ch
      (rleft (displayFrame l)) (rtop (displayFrame l)) sy x y) [0..?ch - 1] old =
    layer_pixel l (sw, sht, sstride, f) src x y old"
    by (auto simp: layer_pixel_def k Let_def)
qed

section \<open>The fast path\<close>

lemma paints_seq:
  assumes "paints W H st f1 g1" and "paints W H st f2 g2"
  shows "paints W H st (\<lambda>b. f1 b \<bind> f2) (\<lambda>x y old. g2 x y (g1 x y old))"
  unfolding paints_def
proof (intro allI impI)
  fix b assume "panel_ok W H st b"
  with assms(1) obtain b1 where b1: "f1 b = Some b1" "panel_ok W H st b1"
    "\<forall>x y. in_panel W H x y \<longrightarrow> px st b1 x y = g1 x y (px st b x y)" by (auto simp: paints_def)
  with assms(2) obtain b2 where "f2 b1 = Some b2" "panel_ok W H st b2"
    "\<forall>x y. in_panel W H x y \<longrightarrow> px st b2 x y = g2 x y (px st b1 x y)" by (auto simp: paints_def)
  with b1 show "\<exists>b'. f1 b \<bind> f2 = Some b' \<and> panel_ok W H st b' \<and>
    (\<forall>x y. in_panel W H x y \<longrightarrow> px st b' x y = g2 x y (g1 x y (px st b x y)))" by simp
qed

text \<open>A horizontal run of converted pixels starting at \<open>(X, Y)\<close>.\<close>

definition run_pixel :: "bytes \<Rightarrow> nat \<Rightarrow> pixel_format \<Rightarrow> int \<Rightarrow> int \<Rightarrow> nat \<Rightarrow> int \<Rightarrow> int \<Rightarrow> u16 \<Rightarrow> u16" where
  "run_pixel src so f X Y n x y old =
     (if y = Y \<and> X \<le> x \<and> x < X + int n
      then the (to_rgb565 src (so + nat (x - X) * nat (src_bytes_per_pixel f)) (src_bytes_per_pixel f) f) else old)"

lemma paints_fast_pixels:
  assumes "0 \<le> X" and "X + int n \<le> W" and "0 \<le> Y" "Y < H" and f: "src_bytes_per_pixel f \<noteq> 0"
    and "so + n * nat (src_bytes_per_pixel f) \<le> length src"
  shows "paints W H st
      (\<lambda>b. fast_pixels n b (nat (Y * st + 2 * X)) src so (src_bytes_per_pixel f) f)
      (run_pixel src so f X Y n)"
  using assms
proof (induction n arbitrary: X so)
  case 0
  then show ?case by (auto intro!: paints_cong [OF paints_id] simp: run_pixel_def)
next
  case (Suc n)
  let ?s = "src_bytes_per_pixel f"
  have p: "in_panel W H X Y" using Suc.prems by (simp add: in_panel_def)
  obtain v where v: "to_rgb565 src so ?s f = Some v"
    using to_rgb565_defined [of so f src] Suc.prems by auto
  have one: "paints W H st (\<lambda>b. store16 b (nat (Y * st + 2 * X)) v)
      (\<lambda>x y old. if (x, y) = (X, Y) then v else old)"
    by (rule paints_pixel [OF p]) simp
  have rest: "paints W H st (\<lambda>b. fast_pixels n b (nat (Y * st + 2 * (X + 1))) src (so + nat ?s) ?s f)
      (run_pixel src (so + nat ?s) f (X + 1) Y n)"
    using Suc.prems by (intro Suc.IH) auto
  show ?case unfolding paints_def
  proof (intro allI impI)
    fix b assume ok: "panel_ok W H st b"
    have off: "nat (Y * st + 2 * X) + 2 = nat (Y * st + 2 * (X + 1))"
      using pixel_bounds(1) [OF ok p] by (simp add: nat_add_distrib [symmetric] algebra_simps)
    have "fast_pixels (Suc n) b (nat (Y * st + 2 * X)) src so ?s f =
        (store16 b (nat (Y * st + 2 * X)) v \<bind> (\<lambda>b. fast_pixels n b (nat (Y * st + 2 * (X + 1))) src (so + nat ?s) ?s f))"
      by (simp only: fast_pixels.simps(2) v bind.bind_lunit off)
    moreover have "run_pixel src (so + nat ?s) f (X + 1) Y n x y (if (x, y) = (X, Y) then v else old) =
        run_pixel src so f X Y (Suc n) x y old" for x y old
    proof -
      have "so + nat (x - X) * nat ?s = so + nat ?s + nat (x - (X + 1)) * nat ?s" if "X < x"
      proof -
        have "nat (x - X) = Suc (nat (x - (X + 1)))" using that by simp
        then show ?thesis by simp
      qed
      then show ?thesis by (cases "x = X") (auto simp: run_pixel_def v add.assoc)
    qed
    ultimately show "\<exists>b'. fast_pixels (Suc n) b (nat (Y * st + 2 * X)) src so ?s f = Some b' \<and>
        panel_ok W H st b' \<and> (\<forall>x y. in_panel W H x y \<longrightarrow>
          px st b' x y = run_pixel src so f X Y (Suc n) x y (px st b x y))"
      using paints_seq [OF one rest] ok by (simp add: paints_def)
  qed
qed

text \<open>The row copy of the 16-bit case is the same run of pixels.\<close>

lemma row_disjoint:
  assumes ok: "panel_ok W H st b" and q: "in_panel W H x y" and Y: "0 \<le> Y" "Y < H" and "y \<noteq> Y"
  shows "y * st + 2 * x + 2 \<le> Y * st \<or> Y * st + 2 * W \<le> y * st + 2 * x"
proof -
  have a: "0 \<le> x" "x < W" "2 * W \<le> st" using ok q by (auto simp: panel_ok_def in_panel_def)
  have "0 \<le> st" using a by linarith
  show ?thesis
  proof (cases "y < Y")
    case True
    then have "(y + 1) * st \<le> Y * st" using \<open>0 \<le> st\<close> by (intro mult_right_mono) auto
    then show ?thesis using a by (simp add: algebra_simps)
  next
    case False
    then have "(Y + 1) * st \<le> y * st" using \<open>0 \<le> st\<close> \<open>y \<noteq> Y\<close> by (intro mult_right_mono) auto
    then show ?thesis using a by (simp add: algebra_simps)
  qed
qed

lemma paints_memcpy_row:
  assumes X: "0 \<le> X" "X + int n \<le> W" "0 < n" and Y: "0 \<le> Y" "Y < H"
    and so: "so + n * 2 \<le> length src"
  shows "paints W H st (\<lambda>b. memcpy b (nat (Y * st + 2 * X)) src so (n * 2)) (run_pixel src so RGB_565 X Y n)"
  unfolding paints_def
proof (intro allI impI)
  fix b assume ok: "panel_ok W H st b"
  have pX: "in_panel W H X Y" and pE: "in_panel W H (X + int n - 1) Y"
    using X Y by (auto simp: in_panel_def)
  have lo: "0 \<le> Y * st + 2 * X" using pixel_bounds [OF ok pX] by simp
  have hi: "nat (Y * st + 2 * X) + n * 2 \<le> length b"
    using pixel_bounds(3) [OF ok pE] lo by (simp add: algebra_simps)
  then obtain b' where m: "memcpy b (nat (Y * st + 2 * X)) src so (n * 2) = Some b'"
    using so by (simp add: memcpy_def)
  have "px st b' x y = run_pixel src so RGB_565 X Y n x y (px st b x y)" if q: "in_panel W H x y" for x y
  proof -
    have q1: "nat (y * st + 2 * x) + 1 < length b" "0 \<le> y * st + 2 * x" using pixel_bounds [OF ok q] by auto
    show ?thesis
    proof (cases "y = Y \<and> X \<le> x \<and> x < X + int n")
      case True
      then have y: "y = Y" and x: "X \<le> x" "x < X + int n" by auto
      have d: "nat (y * st + 2 * x) = nat (Y * st + 2 * X) + 2 * nat (x - X)" "nat (x - X) < n"
        unfolding y using lo x by linarith+
      then have "load16 src (so + nat (x - X) * 2) = Some (mk16 (src ! (so + 2 * nat (x - X))) (src ! (so + 2 * nat (x - X) + 1)))"
        using so by (simp add: load16_def mult.commute)
      then show ?thesis
        using True d q1 by (simp add: px_def run_pixel_def to_rgb565_def memcpy_nth [OF m])
    next
      case False
      have "nat (y * st + 2 * x) + 2 \<le> nat (Y * st + 2 * X) \<or> nat (Y * st + 2 * X) + n * 2 \<le> nat (y * st + 2 * x)"
      proof (cases "y = Y")
        case y: True
        then have "x < X \<or> X + int n \<le> x" using False by auto
        then show ?thesis unfolding y using lo q1(2) y by auto
      next
        case y: False
        from row_disjoint [OF ok q Y y] show ?thesis using X lo q1(2) by linarith
      qed
      then have "px st b' x y = px st b x y"
        using q1(1) by (auto simp: px_def memcpy_nth [OF m])
      then show ?thesis using False by (auto simp: run_pixel_def)
    qed
  qed
  moreover have "panel_ok W H st b'" using ok memcpy_length [OF m] by (simp add: panel_ok_def)
  ultimately show "\<exists>b'. memcpy b (nat (Y * st + 2 * X)) src so (n * 2) = Some b' \<and> panel_ok W H st b' \<and>
    (\<forall>x y. in_panel W H x y \<longrightarrow> px st b' x y = run_pixel src so RGB_565 X Y n x y (px st b x y))"
    using m by blast
qed

lemma paints_fast_row:
  assumes src: "src_ok (sw, sht, sstride, f) src" and f: "src_bytes_per_pixel f \<noteq> 0"
    and row: "0 \<le> ctop + sy" "ctop + sy < sht" "0 \<le> dtop + sy" "dtop + sy < H"
    and col: "0 \<le> cleft + sx0" "cleft + sx1 \<le> sw" "0 \<le> dleft + sx0" "dleft + sx1 \<le> W"
    and nonempty: "f = RGB_565 \<Longrightarrow> sx0 < sx1"
  shows "paints W H st
      (fast_row st src (of_int sstride * of_int (src_bytes_per_pixel f)) (src_bytes_per_pixel f) f
         cleft ctop dleft dtop sx0 sx1 sy)
      (run_pixel src (src_off sstride f (cleft + sx0) (ctop + sy)) f (dleft + sx0) (dtop + sy) (nat (sx1 - sx0)))"
proof (cases "sx0 < sx1")
  case False
  then have "f \<noteq> RGB_565" using nonempty by auto
  with False have "fast_row st src (of_int sstride * of_int (src_bytes_per_pixel f)) (src_bytes_per_pixel f) f
      cleft ctop dleft dtop sx0 sx1 sy = Some"
    by (intro ext) (simp add: fast_row_def Let_def sbpp_2_iff)
  then show ?thesis using False by (auto intro!: paints_cong [OF paints_id] simp: run_pixel_def)
next
  case True
  let ?s = "src_bytes_per_pixel f" and ?n = "nat (sx1 - sx0)"
  let ?so = "src_off sstride f (cleft + sx0) (ctop + sy)"
  have s0: "0 < ?s" using f src_bytes_per_pixel_range [of f] by auto
  have p: "in_panel W H (dleft + sx0) (dtop + sy)" using True row col by (simp add: in_panel_def)
  have so: "unat (of_int (ctop + sy) * (of_int sstride * of_int ?s) + of_int (cleft + sx0) * of_int ?s :: size_t) = ?so"
    using src_offset [OF src, of "cleft + sx0" "ctop + sy"] True row col by simp
  have b0: "0 \<le> (ctop + sy) * (sstride * ?s) + (cleft + sx0) * ?s"
    using src_bounds(1) [OF src, of "cleft + sx0" "ctop + sy"] True row col by simp
  have "src_off sstride f (cleft + sx1 - 1) (ctop + sy) + nat ?s \<le> length src"
    using src_bounds(3) [OF src, of "cleft + sx1 - 1" "ctop + sy"] True row col by simp
  moreover have "?so + nat (sx1 - 1 - sx0) * nat ?s = src_off sstride f (cleft + sx1 - 1) (ctop + sy)"
    using src_off_shift [OF b0, of "sx1 - 1 - sx0"] True by (simp add: algebra_simps)
  moreover have "?n = Suc (nat (sx1 - 1 - sx0))" using True by simp
  ultimately have fit: "?so + ?n * nat ?s \<le> length src" by simp
  show ?thesis unfolding paints_def
  proof (intro allI impI)
    fix b assume ok: "panel_ok W H st b"
    have len: "unat (of_int (sx1 - sx0) * 2 :: size_t) = ?n * 2"
    proof -
      have st: "0 \<le> st" "2 * W \<le> st" "st * H < 2 ^ 32" using ok by (auto simp: panel_ok_def)
      have "st \<le> st * H" using mult_left_mono [of 1 H st] st(1) row by simp
      then have "(sx1 - sx0) * 2 < 2 ^ 32" using st col by simp
      moreover have eq: "(of_int (sx1 - sx0) * 2 :: size_t) = of_int ((sx1 - sx0) * 2)" by simp
      ultimately show ?thesis unfolding eq using True by (subst unat_size_t) auto
    qed
    have "fast_row st src (of_int sstride * of_int ?s) ?s f cleft ctop dleft dtop sx0 sx1 sy b =
        (if f = RGB_565 then memcpy b (nat ((dtop + sy) * st + 2 * (dleft + sx0))) src ?so (?n * 2)
         else fast_pixels ?n b (nat ((dtop + sy) * st + 2 * (dleft + sx0))) src ?so ?s f)"
      by (simp only: fast_row_def Let_def so len pixel_offset [OF ok p] sbpp_2_iff)
    moreover have "paints W H st (\<lambda>b. memcpy b (nat ((dtop + sy) * st + 2 * (dleft + sx0))) src ?so (?n * 2))
        (run_pixel src ?so f (dleft + sx0) (dtop + sy) ?n)" if "f = RGB_565"
      using paints_memcpy_row [of "dleft + sx0" ?n W "dtop + sy" H ?so src st] True row col fit that by simp
    moreover have "paints W H st (\<lambda>b. fast_pixels ?n b (nat ((dtop + sy) * st + 2 * (dleft + sx0))) src ?so ?s f)
        (run_pixel src ?so f (dleft + sx0) (dtop + sy) ?n)"
      using paints_fast_pixels [of "dleft + sx0" ?n W "dtop + sy" H f ?so src st] True row col fit f by simp
    ultimately show "\<exists>b'. fast_row st src (of_int sstride * of_int ?s) ?s f cleft ctop dleft dtop sx0 sx1 sy b = Some b' \<and>
        panel_ok W H st b' \<and> (\<forall>x y. in_panel W H x y \<longrightarrow> px st b' x y =
          run_pixel src ?so f (dleft + sx0) (dtop + sy) ?n x y (px st b x y))"
      using ok by (auto simp: paints_def)
  qed
qed

lemma clip_range:
  "clip_lo c d \<le> s \<and> s < clip_hi n c lim d dlim \<longleftrightarrow>
     0 \<le> s \<and> s < n \<and> 0 \<le> c + s \<and> c + s < lim \<and> 0 \<le> d + s \<and> d + s < dlim"
  by (auto simp: clip_lo_def clip_hi_def Let_def)

lemma clip_bounds:
  "0 \<le> c + clip_lo c d" "0 \<le> d + clip_lo c d" "c + clip_hi n c lim d dlim \<le> lim"
  "d + clip_hi n c lim d dlim \<le> dlim"
  by (auto simp: clip_lo_def clip_hi_def Let_def)

text \<open>
  The one case the fast path gets wrong: a 16-bit layer none of whose columns
  is visible, although some of its rows would be.
\<close>

definition fast_path :: "hwc_layer \<Rightarrow> pixel_format \<Rightarrow> bool" where
  "fast_path l f \<longleftrightarrow>
     l_transform l = XF_NONE \<and> (l_blending l = BLENDING_NONE \<or> \<not> format_has_alpha f)"

definition clip_cols :: "int \<Rightarrow> hwc_layer \<Rightarrow> geometry \<Rightarrow> int \<times> int" where
  "clip_cols W l geo =
     (let c = rleft (sourceCropi l); d = rleft (displayFrame l)
      in (clip_lo c d, clip_hi (rright (sourceCropi l) - c) c (fst geo) d W))"

definition clip_rows :: "int \<Rightarrow> hwc_layer \<Rightarrow> geometry \<Rightarrow> int \<times> int" where
  "clip_rows H l geo =
     (let c = rtop (sourceCropi l); d = rtop (displayFrame l)
      in (clip_lo c d, clip_hi (rbottom (sourceCropi l) - c) c (fst (snd geo)) d H))"

definition blank_565 :: "int \<Rightarrow> int \<Rightarrow> hwc_layer \<Rightarrow> geometry \<Rightarrow> bool" where
  "blank_565 W H l geo \<longleftrightarrow>
     snd (snd (snd geo)) = RGB_565 \<and> l_transform l = XF_NONE \<and>
     snd (clip_cols W l geo) \<le> fst (clip_cols W l geo) \<and>
     fst (clip_rows H l geo) < snd (clip_rows H l geo)"

lemma paints_fast:
  assumes src: "src_ok (sw, sht, sstride, f) src" and f: "src_bytes_per_pixel f \<noteq> 0"
    and fast: "fast_path l f" and vis: "\<not> blank_565 W H l (sw, sht, sstride, f)"
    and cols: "clip_cols W l (sw, sht, sstride, f) = (sx0, sx1)"
    and rows: "clip_rows H l (sw, sht, sstride, f) = (sy0, sy1)"
  shows "paints W H st
      (for_range sy0 sy1 (fast_row st src (of_int sstride * of_int (src_bytes_per_pixel f)) (src_bytes_per_pixel f) f
         (rleft (sourceCropi l)) (rtop (sourceCropi l)) (rleft (displayFrame l)) (rtop (displayFrame l)) sx0 sx1))
      (layer_pixel l (sw, sht, sstride, f) src)"
  unfolding for_range_def
proof (rule paints_cong [OF paints_foldM])
  let ?cl = "rleft (sourceCropi l)" and ?ct = "rtop (sourceCropi l)"
  let ?dl = "rleft (displayFrame l)" and ?dt = "rtop (displayFrame l)"
  have c: "0 \<le> ?cl + sx0" "?cl + sx1 \<le> sw" "0 \<le> ?dl + sx0" "?dl + sx1 \<le> W"
    using cols clip_bounds by (auto simp: clip_cols_def Let_def)
  have r: "sy0 \<le> s \<and> s < sy1 \<longleftrightarrow> 0 \<le> s \<and> s < rbottom (sourceCropi l) - ?ct \<and>
      0 \<le> ?ct + s \<and> ?ct + s < sht \<and> 0 \<le> ?dt + s \<and> ?dt + s < H" for s
    using rows clip_range [of ?ct ?dt s] by (auto simp: clip_rows_def Let_def)
  have k: "sx0 \<le> s \<and> s < sx1 \<longleftrightarrow> 0 \<le> s \<and> s < rright (sourceCropi l) - ?cl \<and>
      0 \<le> ?cl + s \<and> ?cl + s < sw \<and> 0 \<le> ?dl + s \<and> ?dl + s < W" for s
    using cols clip_range [of ?cl ?dl s] by (auto simp: clip_cols_def Let_def)
  let ?run = "\<lambda>sy. run_pixel src (src_off sstride f (?cl + sx0) (?ct + sy)) f (?dl + sx0) (?dt + sy) (nat (sx1 - sx0))"
  show "paints W H st (fast_row st src (of_int sstride * of_int (src_bytes_per_pixel f)) (src_bytes_per_pixel f) f
      ?cl ?ct ?dl ?dt sx0 sx1 sy) (?run sy)" if "sy \<in> set [sy0..sy1 - 1]" for sy
  proof -
    have "sy0 \<le> sy \<and> sy < sy1" using that by auto
    moreover from this have "f = RGB_565 \<Longrightarrow> sx0 < sx1"
      using vis fast cols rows by (auto simp: blank_565_def fast_path_def)
    ultimately show ?thesis using paints_fast_row [OF src f _ _ _ _ c] r [of sy] by blast
  qed
  fix x y old assume p: "in_panel W H x y"
  let ?v = "the (to_rgb565 src (src_off sstride f (?cl + (x - ?dl)) (?ct + (y - ?dt))) (src_bytes_per_pixel f) f)"
  have "fold (\<lambda>i. ?run i x y) [sy0..sy1 - 1] old =
      (if y - ?dt \<in> set [sy0..sy1 - 1] \<and> (sx0 \<le> x - ?dl \<and> x - ?dl < sx1) then ?v else old)"
  proof (rule fold_once)
    fix i
    have "src_off sstride f (?cl + sx0) (?ct + i) + nat (x - (?dl + sx0)) * nat (src_bytes_per_pixel f) =
        src_off sstride f (?cl + (x - ?dl)) (?ct + i)"
      if "sx0 \<le> x - ?dl" "x - ?dl < sx1" "i \<in> set [sy0..sy1 - 1]"
      using src_off_shift [OF src_bounds(1) [OF src, of "?cl + sx0" "?ct + i"], of "x - (?dl + sx0)"] c r [of i] that
      by (simp add: algebra_simps)
    moreover assume "i \<in> set [sy0..sy1 - 1]"
    ultimately show "(\<lambda>v. ?run i x y v) = (\<lambda>v. if i = y - ?dt \<and> (sx0 \<le> x - ?dl \<and> x - ?dl < sx1) then ?v else v)"
      by (auto simp: run_pixel_def fun_eq_iff)
  qed simp
  then show "fold (\<lambda>i. ?run i x y) [sy0..sy1 - 1] old = layer_pixel l (sw, sht, sstride, f) src x y old"
    using r [of "y - ?dt"] k [of "x - ?dl"] p fast
    by (auto simp: layer_pixel_def fast_path_def blend_over_def blend_px_opaque in_panel_def Let_def)
qed

section \<open>The whole layer\<close>

text \<open>Both paths of \<open>compose_layer\<close> implement \<open>layer_pixel\<close>.\<close>

lemma paints_compose_pixels:
  assumes src: "src_ok (sw, sht, sstride, f) src" and f: "src_bytes_per_pixel f \<noteq> 0"
    and vis: "\<not> blank_565 W H l (sw, sht, sstride, f)"
  shows "paints W H st (compose_pixels W H st l (sw, sht, sstride, f) src)
    (layer_pixel l (sw, sht, sstride, f) src)"
proof (cases "fast_path l f")
  case True
  obtain sx0 sx1 sy0 sy1 where c: "clip_cols W l (sw, sht, sstride, f) = (sx0, sx1)"
      "clip_rows H l (sw, sht, sstride, f) = (sy0, sy1)" by fastforce
  have "compose_pixels W H st l (sw, sht, sstride, f) src =
      for_range sy0 sy1 (fast_row st src (of_int sstride * of_int (src_bytes_per_pixel f)) (src_bytes_per_pixel f) f
        (rleft (sourceCropi l)) (rtop (sourceCropi l)) (rleft (displayFrame l)) (rtop (displayFrame l)) sx0 sx1)"
    using True c by (intro ext)
      (auto simp: compose_pixels_def fast_path_def clip_cols_def clip_rows_def Let_def)
  then show ?thesis using paints_fast [OF src f True vis c] by simp
next
  case False
  then have "compose_pixels W H st l (sw, sht, sstride, f) src =
      for_range 0 (rbottom (sourceCropi l) - rtop (sourceCropi l))
        (general_row W H st src (of_int sstride * of_int (src_bytes_per_pixel f)) (src_bytes_per_pixel f) f
           (l_blending l) (l_transform l) sw sht (rleft (sourceCropi l)) (rtop (sourceCropi l))
           (rright (sourceCropi l) - rleft (sourceCropi l)) (rbottom (sourceCropi l) - rtop (sourceCropi l))
           (rleft (displayFrame l)) (rtop (displayFrame l)))"
    by (intro ext) (auto simp: compose_pixels_def fast_path_def Let_def)
  then show ?thesis using paints_general [OF src f] by simp
qed

text \<open>A well-formed compositor: three buffers of the framebuffer's layout.\<close>

definition hw_ok :: "eink_hwc \<Rightarrow> bool" where
  "hw_ok hw \<longleftrightarrow>
     panel_ok (hw_width hw) (hw_height hw) (stride_bytes hw) (shadow hw) \<and>
     panel_ok (hw_width hw) (hw_height hw) (stride_bytes hw) (panel hw) \<and>
     panel_ok (hw_width hw) (hw_height hw) (stride_bytes hw) (fb_mem hw) \<and>
     fb_size hw = of_int (stride_bytes hw * hw_height hw)"

text \<open>
  What the compositor relies on of gralloc: a buffer it could lock is at least
  as large as its geometry says, and less than 4 GB.
\<close>

definition lock_ok :: "(handle \<Rightarrow> geometry option) \<Rightarrow> lock_fn \<Rightarrow> bool" where
  "lock_ok query lock \<longleftrightarrow>
     (\<forall>h geo l t w ht src. query h = Some geo \<longrightarrow> lock h l t w ht = (0, Some src) \<longrightarrow> src_ok geo src)"

text \<open>The image and the status a layer gives.\<close>

definition layer_effect ::
    "(handle \<Rightarrow> geometry option) \<Rightarrow> lock_fn \<Rightarrow> eink_hwc \<Rightarrow> hwc_layer \<Rightarrow> int \<Rightarrow> int \<Rightarrow> u16 \<Rightarrow> u16" where
  "layer_effect query lock hw l x y old =
     (case query (l_handle l) of
        None \<Rightarrow> old
      | Some geo \<Rightarrow>
          (case lock (l_handle l) (rleft (sourceCropi l)) (rtop (sourceCropi l))
                  (rright (sourceCropi l) - rleft (sourceCropi l))
                  (rbottom (sourceCropi l) - rtop (sourceCropi l)) of
             (_, None) \<Rightarrow> old
           | (_, Some src) \<Rightarrow> layer_pixel l geo src x y old))"

text \<open>A layer is skipped with status -1, or its locked buffer is drawn.\<close>

lemma compose_layer_cases:
  obtains (skip) calls where "compose_layer query lock hw l = Some (hw, calls, -1)"
  | (draw) sw sht sstride f src where "query (l_handle l) = Some (sw, sht, sstride, f)"
      and "lock (l_handle l) (rleft (sourceCropi l)) (rtop (sourceCropi l))
             (rright (sourceCropi l) - rleft (sourceCropi l))
             (rbottom (sourceCropi l) - rtop (sourceCropi l)) = (0, Some src)"
      and "src_bytes_per_pixel f \<noteq> 0"
      and "rleft (displayFrame l) < rright (displayFrame l)" "rtop (displayFrame l) < rbottom (displayFrame l)"
      and "rleft (sourceCropi l) < rright (sourceCropi l)" "rtop (sourceCropi l) < rbottom (sourceCropi l)"
      and "compose_layer query lock hw l =
        do { sh \<leftarrow> compose_pixels (hw_width hw) (hw_height hw) (stride_bytes hw) l
                     (sw, sht, sstride, f) src (shadow hw);
             Some (hw\<lparr>shadow := sh\<rparr>, [GrLock (l_handle l), GrUnlock (l_handle l)], 0) }"
proof (cases "l_handle l = 0 \<or> \<not> query_bound hw \<or> \<not> gralloc_bound hw \<or> query (l_handle l) = None \<or>
    rright (displayFrame l) - rleft (displayFrame l) \<le> 0 \<or> rbottom (displayFrame l) - rtop (displayFrame l) \<le> 0 \<or>
    rright (sourceCropi l) - rleft (sourceCropi l) \<le> 0 \<or> rbottom (sourceCropi l) - rtop (sourceCropi l) \<le> 0")
  case True
  then have "compose_layer query lock hw l = Some (hw, [], -1)"
    by (auto simp: compose_layer_def Let_def split: option.splits)
  then show ?thesis by (rule skip)
next
  case False
  then obtain sw sht sstride f where q: "query (l_handle l) = Some (sw, sht, sstride, f)"
    by (metis not_None_eq prod_cases4)
  obtain rc va where lock: "lock (l_handle l) (rleft (sourceCropi l)) (rtop (sourceCropi l))
      (rright (sourceCropi l) - rleft (sourceCropi l)) (rbottom (sourceCropi l) - rtop (sourceCropi l)) = (rc, va)"
    by fastforce
  show ?thesis
  proof (cases "va = None \<or> rc \<noteq> 0 \<or> src_bytes_per_pixel f = 0 \<or> bpp hw \<noteq> 2")
    case True
    then have "\<exists>calls. compose_layer query lock hw l = Some (hw, calls, -1)"
      using False q lock by (cases va) (auto simp: compose_layer_def)
    then show ?thesis using skip by blast
  next
    case c: False
    then obtain src where "va = Some src" by auto
    then show ?thesis using False q lock c by (intro draw [of sw sht sstride f src]) (auto simp: compose_layer_def)
  qed
qed

lemma compose_layer_pixels:
  assumes ok: "hw_ok hw" and lk: "lock_ok query lock"
    and vis: "\<forall>geo. query (l_handle l) = Some geo \<longrightarrow> \<not> blank_565 (hw_width hw) (hw_height hw) l geo"
  shows "\<exists>sh calls rc. compose_layer query lock hw l = Some (hw\<lparr>shadow := sh\<rparr>, calls, rc) \<and>
    hw_ok (hw\<lparr>shadow := sh\<rparr>) \<and> rc \<in> {0, -1} \<and>
    (\<forall>x y. in_panel (hw_width hw) (hw_height hw) x y \<longrightarrow>
       px (stride_bytes hw) sh x y =
         (if rc = 0 then layer_effect query lock hw l x y (px (stride_bytes hw) (shadow hw) x y)
          else px (stride_bytes hw) (shadow hw) x y))"
proof (cases rule: compose_layer_cases [of query lock hw l])
  case (skip calls)
  then show ?thesis using ok by (intro exI [of _ "shadow hw"] exI [of _ calls] exI [of _ "-1"]) auto
next
  case (draw sw sht sstride f src)
  let ?geo = "(sw, sht, sstride, f)"
  have src: "src_ok ?geo src" using lk draw(1,2) unfolding lock_ok_def by blast
  have pok: "panel_ok (hw_width hw) (hw_height hw) (stride_bytes hw) (shadow hw)"
    using ok by (simp add: hw_ok_def)
  have nb: "\<not> blank_565 (hw_width hw) (hw_height hw) l ?geo" using vis draw(1) by simp
  from paints_compose_pixels [OF src draw(3) nb, of "stride_bytes hw"] pok
  obtain sh where sh: "compose_pixels (hw_width hw) (hw_height hw) (stride_bytes hw) l ?geo src (shadow hw) = Some sh"
      "panel_ok (hw_width hw) (hw_height hw) (stride_bytes hw) sh"
      "\<forall>x y. in_panel (hw_width hw) (hw_height hw) x y \<longrightarrow> px (stride_bytes hw) sh x y =
        layer_pixel l ?geo src x y (px (stride_bytes hw) (shadow hw) x y)"
    by (auto simp: paints_def)
  have "compose_layer query lock hw l =
      Some (hw\<lparr>shadow := sh\<rparr>, [GrLock (l_handle l), GrUnlock (l_handle l)], 0)"
    using draw(8) sh(1) by simp
  moreover have "hw_ok (hw\<lparr>shadow := sh\<rparr>)" using ok sh(2) by (simp add: hw_ok_def)
  ultimately show ?thesis using sh(3)
    by (intro exI [of _ sh] exI [of _ "[GrLock (l_handle l), GrUnlock (l_handle l)]"] exI [of _ 0])
      (simp add: layer_effect_def draw(1,2))
qed

end
