(* ===== verification/LayerProps.thy ===== *)
theory LayerProps
  imports Image
begin

text \<open>
  Properties of composing one layer: the pixels it gives, the equivalence of the
  fast path with the general loop, the frame it stays in, the pairing of
  \<open>lock\<close> with \<open>unlock\<close>, and the input on which the fast path
  copies out of bounds.
\<close>

section \<open>A small panel for the witnesses\<close>

definition demo_hw :: eink_hwc where
  "demo_hw = \<lparr>gralloc_bound = True, query_bound = True, fb_fd = 3,
     fb_mem = replicate 8 0, shadow = replicate 8 255, panel = replicate 8 0, fb_size = 8,
     hw_width = 2, hw_height = 2, hw_fb_width = 2, hw_fb_height = 2, stride_bytes = 4, bpp = 2,
     procs = None, vsync_enabled = 0, vsync_requested = False, blanked = False,
     force_full = False, stop_vsync = False\<rparr>"

definition demo_layer :: hwc_layer where
  "demo_layer = \<lparr>compositionType = HWC_OVERLAY, hints = 0, l_handle = 7, l_transform = XF_ROT_90,
     l_blending = BLENDING_PREMULT,
     sourceCropi = \<lparr>rleft = 0, rtop = 0, rright = 2, rbottom = 1\<rparr>,
     displayFrame = \<lparr>rleft = 0, rtop = 0, rright = 1, rbottom = 2\<rparr>,
     backgroundColor = (0, 0, 0), releaseFenceFd = 0\<rparr>"

definition demo_query :: "handle \<Rightarrow> geometry option" where
  "demo_query h = (if h = 7 then Some (2, 1, 2, RGBA_8888) else None)"

definition demo_lock :: lock_fn where
  "demo_lock h l t w ht = (0, Some [10, 20, 30, 255, 0, 0, 0, 0])"

lemma demo_ok: "hw_ok demo_hw" "lock_ok demo_query demo_lock"
  by (auto simp: hw_ok_def panel_ok_def demo_hw_def lock_ok_def demo_query_def demo_lock_def src_ok_def
      split: if_splits)

text \<open>A layer that \<open>compose_layer\<close> draws, with status 0.\<close>

definition drawable :: "(handle \<Rightarrow> geometry option) \<Rightarrow> lock_fn \<Rightarrow> eink_hwc \<Rightarrow> hwc_layer \<Rightarrow> bool" where
  "drawable query lock hw l \<longleftrightarrow>
     l_handle l \<noteq> 0 \<and> query_bound hw \<and> gralloc_bound hw \<and> bpp hw = 2 \<and>
     rleft (displayFrame l) < rright (displayFrame l) \<and> rtop (displayFrame l) < rbottom (displayFrame l) \<and>
     rleft (sourceCropi l) < rright (sourceCropi l) \<and> rtop (sourceCropi l) < rbottom (sourceCropi l) \<and>
     (case query (l_handle l) of None \<Rightarrow> False | Some (sw, sht, sstride, f) \<Rightarrow> src_bytes_per_pixel f \<noteq> 0) \<and>
     (case lock (l_handle l) (rleft (sourceCropi l)) (rtop (sourceCropi l))
             (rright (sourceCropi l) - rleft (sourceCropi l)) (rbottom (sourceCropi l) - rtop (sourceCropi l)) of
        (rc, va) \<Rightarrow> rc = 0 \<and> va \<noteq> None)"

lemma compose_layer_status:
  "compose_layer query lock hw l = Some (hw', calls, rc) \<Longrightarrow> rc = (if drawable query lock hw l then 0 else -1)"
  by (auto simp: compose_layer_def drawable_def Let_def bind_eq_Some_conv
      split: if_splits option.splits prod.splits)

section \<open>Properties\<close>

text \<open>
  C19. Composing a layer, but one case, never touches memory outside the buffers and gives the
  reference image: every panel pixel becomes the layer pixel the transform maps
  onto it, blended over the old value, and keeps its value where there is none
  or where the layer was skipped (status -1, exactly for a layer that is not
  \<open>drawable\<close>). Excluded is a 16-bit layer without a visible column
  (\<open>blank_565\<close>), on which the code copies outside the buffers: see
  \<open>offscreen_565_layer_faults\<close> below.
\<close>

theorem compose_layer_correct:
  assumes "hw_ok hw" and "lock_ok query lock"
    and "\<forall>geo. query (l_handle l) = Some geo \<longrightarrow> \<not> blank_565 (hw_width hw) (hw_height hw) l geo"
  shows "\<exists>sh calls rc. compose_layer query lock hw l = Some (hw\<lparr>shadow := sh\<rparr>, calls, rc) \<and>
    hw_ok (hw\<lparr>shadow := sh\<rparr>) \<and> rc = (if drawable query lock hw l then 0 else -1) \<and>
    (\<forall>x y. in_panel (hw_width hw) (hw_height hw) x y \<longrightarrow>
       px (stride_bytes hw) sh x y =
         (if rc = 0 then layer_effect query lock hw l x y (px (stride_bytes hw) (shadow hw) x y)
          else px (stride_bytes hw) (shadow hw) x y))"
  using compose_layer_pixels [OF assms] compose_layer_status [of query lock hw l] by metis

theorem compose_layer_correct_witness:
  "\<exists>sh calls rc. compose_layer demo_query demo_lock demo_hw demo_layer = Some (demo_hw\<lparr>shadow := sh\<rparr>, calls, rc) \<and>
    hw_ok (demo_hw\<lparr>shadow := sh\<rparr>)"
  using compose_layer_correct [OF demo_ok, of demo_layer]
  by (auto simp: blank_565_def demo_layer_def)

text \<open>
  C31. The fast path is an optimisation: on every layer it accepts but one kind it
  leaves the same panel image as the general per-pixel loop. Excluded is a 16-bit layer
  without a visible column (\<open>blank_565\<close>): the fast path accepts it and
  copies outside the buffers, as \<open>offscreen_565_layer_faults\<close> below shows.
\<close>

theorem fast_path_equals_general_loop:
  assumes ok: "panel_ok W H st b" and src: "src_ok (sw, sht, sstride, f) src"
    and f: "src_bytes_per_pixel f \<noteq> 0" and vis: "\<not> blank_565 W H l (sw, sht, sstride, f)"
    and fast: "fast_path l f"
  shows "\<exists>b1 b2. compose_pixels W H st l (sw, sht, sstride, f) src b = Some b1 \<and>
    for_range 0 (rbottom (sourceCropi l) - rtop (sourceCropi l))
      (general_row W H st src (of_int sstride * of_int (src_bytes_per_pixel f)) (src_bytes_per_pixel f) f
         (l_blending l) (l_transform l) sw sht (rleft (sourceCropi l)) (rtop (sourceCropi l))
         (rright (sourceCropi l) - rleft (sourceCropi l)) (rbottom (sourceCropi l) - rtop (sourceCropi l))
         (rleft (displayFrame l)) (rtop (displayFrame l))) b = Some b2 \<and>
    (\<forall>x y. in_panel W H x y \<longrightarrow> px st b1 x y = px st b2 x y)"
  using paints_compose_pixels [OF src f vis, of st] paints_general [OF src f, of W H st l] ok
  unfolding paints_def by metis

definition demo_opaque :: hwc_layer where
  "demo_opaque = demo_layer\<lparr>l_transform := XF_NONE, l_blending := BLENDING_NONE\<rparr>"

theorem fast_path_equals_general_loop_witness:
  "\<exists>b1. compose_pixels 2 2 4 demo_opaque (2, 1, 2, RGBA_8888) [10, 20, 30, 255, 0, 0, 0, 0] (replicate 8 255) = Some b1"
  using fast_path_equals_general_loop [of 2 2 4 "replicate 8 255" 2 1 2 RGBA_8888 "[10, 20, 30, 255, 0, 0, 0, 0]" demo_opaque]
  by (auto simp: panel_ok_def src_ok_def blank_565_def fast_path_def demo_opaque_def demo_layer_def)

text \<open>The (possibly transposed) crop is not larger than the frame.\<close>

definition fits_frame :: "hwc_layer \<Rightarrow> bool" where
  "fits_frame l \<longleftrightarrow>
     (let cw = rright (sourceCropi l) - rleft (sourceCropi l); ch = rbottom (sourceCropi l) - rtop (sourceCropi l);
          dw = rright (displayFrame l) - rleft (displayFrame l); dh = rbottom (displayFrame l) - rtop (displayFrame l)
      in if l_transform l \<in> {XF_ROT_90, XF_ROT_270} then ch \<le> dw \<and> cw \<le> dh else cw \<le> dw \<and> ch \<le> dh)"

definition in_rect :: "hwc_rect \<Rightarrow> int \<Rightarrow> int \<Rightarrow> bool" where
  "in_rect r x y \<longleftrightarrow> rleft r \<le> x \<and> x < rright r \<and> rtop r \<le> y \<and> y < rbottom r"

lemma layer_outside:
  assumes "fits_frame l" and "\<not> in_rect (displayFrame l) x y"
  shows "layer_pixel l geo src x y old = old"
  using assms
  by (cases "l_transform l"; cases geo)
    (auto simp: fits_frame_def in_rect_def layer_pixel_def Let_def)

text \<open>
  A layer whose crop is not larger than its frame draws only inside its
  \<open>displayFrame\<close>: every other pixel keeps its value.
\<close>

theorem layer_stays_in_frame:
  assumes "fits_frame l" and "\<not> in_rect (displayFrame l) x y"
  shows "layer_pixel l geo src x y old = old"
  by (rule layer_outside [OF assms])

theorem layer_stays_in_frame_witness:
  "layer_pixel demo_layer (2, 1, 2, RGBA_8888) [10, 20, 30, 255, 0, 0, 0, 0] 1 0 0xffff = 0xffff"
  by (rule layer_stays_in_frame) (auto simp: fits_frame_def in_rect_def demo_layer_def)

text \<open>
  Every buffer that \<open>compose_layer\<close> locked successfully is unlocked
  again, on every path that returns: the calls are none, a failed lock, or a
  lock followed by the unlock of the same handle.
\<close>

theorem compose_layer_lock_balanced:
  assumes "compose_layer query lock hw l = Some (hw', calls, rc)"
  shows "calls = [] \<or> calls = [GrLock (l_handle l), GrUnlock (l_handle l)] \<or>
    (calls = [GrLock (l_handle l)] \<and> rc = -1 \<and>
     (let r = lock (l_handle l) (rleft (sourceCropi l)) (rtop (sourceCropi l))
        (rright (sourceCropi l) - rleft (sourceCropi l)) (rbottom (sourceCropi l) - rtop (sourceCropi l))
      in fst r \<noteq> 0 \<or> snd r = None))"
  using assms
  by (auto simp: compose_layer_def bind_eq_Some_conv Let_def split: option.splits prod.splits if_splits)

theorem compose_layer_lock_balanced_witness:
  "fst (snd (the (compose_layer demo_query demo_lock demo_hw (demo_layer\<lparr>l_handle := 9\<rparr>)))) = []"
  using compose_layer_lock_balanced [of demo_query demo_lock demo_hw "demo_layer\<lparr>l_handle := 9\<rparr>" demo_hw "[]" "-1"]
  by (simp add: compose_layer_def demo_query_def)

text \<open>
  The fast path's row copy has no guard for an empty column range: for a
  16-bit layer that lies completely beside the panel the byte count
  \<open>(size_t)(sx1 - sx0) * 2\<close> is the wrapped negative width, and the first
  row copied runs out of the framebuffer.
\<close>

theorem offscreen_565_layer_faults:
  assumes fmt: "f = RGB_565" and fast: "l_transform l = XF_NONE" and ok: "panel_ok W H st b"
    and small: "st * H < 2 ^ 31"
    and cols: "clip_cols W l (sw, sht, sstride, f) = (sx0, sx1)" "sx1 < sx0" "sx0 - sx1 < 2 ^ 30"
    and rows: "clip_rows H l (sw, sht, sstride, f) = (sy0, sy1)" "sy0 < sy1"
  shows "compose_pixels W H st l (sw, sht, sstride, f) src b = None"
proof -
  have eq: "(of_int (sx1 - sx0) * 2 :: size_t) = of_int ((sx1 - sx0) * 2)" by simp
  have "unat (of_int (sx1 - sx0) * 2 :: size_t) = nat ((sx1 - sx0) * 2 + 2 ^ 32)"
    unfolding eq by (rule unat_of_int_neg_ge) (use cols in auto)
  then have "2 ^ 31 < unat (of_int (sx1 - sx0) * 2 :: size_t)" using cols by simp
  moreover have "length b < 2 ^ 31" using ok small by (simp add: panel_ok_def)
  ultimately have big: "memcpy b d src s (unat (of_int (sx1 - sx0) * 2 :: size_t)) = None" for d s
    by (simp add: memcpy_def)
  have "[sy0..sy1 - 1] = sy0 # [sy0 + 1..sy1 - 1]" using rows by (simp add: upto_rec1)
  then show ?thesis
    using fmt fast cols(1) rows(1) big
    by (simp add: compose_pixels_def for_range_def fast_row_def clip_cols_def clip_rows_def
        format_has_alpha_def Let_def)
qed

theorem offscreen_565_layer_faults_witness:
  "compose_pixels 2 2 4
     (demo_layer\<lparr>l_transform := XF_NONE, displayFrame := \<lparr>rleft = 5, rtop = 0, rright = 7, rbottom = 1\<rparr>\<rparr>)
     (2, 1, 2, RGB_565) [1, 2, 3, 4] (replicate 8 255) = None"
  by (rule offscreen_565_layer_faults [of RGB_565 _ _ _ _ _ _ _ _ 0 "-3" 0 1])
    (auto simp: panel_ok_def clip_cols_def clip_rows_def clip_lo_def clip_hi_def demo_layer_def Let_def)

end
