(* ===== verification/FrameProps.thy ===== *)
theory FrameProps
  imports HwCompose LayerProps
begin

text \<open>
  Correctness of the frame path. \<open>frame_pixel\<close> is the reference
  definition of a frame: white, then every layer in order. The lemmas show that
  the shadow buffer holds it, that comparing and copying the dirty rectangle row
  by row brings the panel copy and the framebuffer to it, and that the update
  sent to the driver covers what changed.
\<close>

section \<open>Rows\<close>

text \<open>A row segment \<open>[dx0, dx1)\<close> of row \<open>y\<close>, in bytes.\<close>

lemma row_segment:
  assumes ok: "panel_ok W H st b" and y: "0 \<le> y" "y < H" and x: "0 \<le> dx0" "dx0 \<le> dx1" "dx1 \<le> W"
  shows "unat (of_int y * of_int st + of_int dx0 * 2 :: size_t) = nat (y * st + 2 * dx0)"
    and "unat (of_int (dx1 - dx0) * 2 :: size_t) = nat (2 * (dx1 - dx0))"
    and "nat (y * st + 2 * dx0) + nat (2 * (dx1 - dx0)) \<le> length b"
    and "0 \<le> y * st"
proof -
  have p: "2 * W \<le> st" "st * H < 2 ^ 32" "length b = nat (st * H)" using ok by (auto simp: panel_ok_def)
  then have st: "0 \<le> st" using x by linarith
  then show y0: "0 \<le> y * st" using y by simp
  have "(y + 1) * st \<le> H * st" using y st by (intro mult_right_mono) auto
  then have h: "y * st + st \<le> st * H" by (simp add: algebra_simps)
  have e1: "(of_int y * of_int st + of_int dx0 * 2 :: size_t) = of_int (y * st + 2 * dx0)" by simp
  show "unat (of_int y * of_int st + of_int dx0 * 2 :: size_t) = nat (y * st + 2 * dx0)"
    unfolding e1 by (rule unat_size_t) (use y0 h p x in linarith)+
  have e2: "(of_int (dx1 - dx0) * 2 :: size_t) = of_int (2 * (dx1 - dx0))" by simp
  have "2 * dx1 - 2 * dx0 \<le> st * H" using y0 h p(1) x by linarith
  then have "2 * (dx1 - dx0) < 2 ^ 32" using p(2) by (simp add: right_diff_distrib)
  moreover have "0 \<le> 2 * (dx1 - dx0)" using x by simp
  ultimately show "unat (of_int (dx1 - dx0) * 2 :: size_t) = nat (2 * (dx1 - dx0))"
    unfolding e2 by (intro unat_size_t)
  show "nat (y * st + 2 * dx0) + nat (2 * (dx1 - dx0)) \<le> length b"
    using y0 h p x by (simp add: nat_add_distrib [symmetric] right_diff_distrib)
qed

lemma memcpy_row:
  assumes ok: "panel_ok W H st b" "panel_ok W H st c"
    and y: "0 \<le> y" "y < H" and x: "0 \<le> dx0" "dx0 \<le> dx1" "dx1 \<le> W"
  shows "\<exists>b'. memcpy b (nat (y * st + 2 * dx0)) c (nat (y * st + 2 * dx0)) (nat (2 * (dx1 - dx0))) = Some b' \<and>
    panel_ok W H st b' \<and>
    (\<forall>x' y'. in_panel W H x' y' \<longrightarrow>
       px st b' x' y' = (if y' = y \<and> dx0 \<le> x' \<and> x' < dx1 then px st c x' y' else px st b x' y'))"
proof -
  let ?o = "nat (y * st + 2 * dx0)" and ?n = "nat (2 * (dx1 - dx0))"
  note sb = row_segment [OF ok(1) y x] and sc = row_segment [OF ok(2) y x]
  obtain b' where m: "memcpy b ?o c ?o ?n = Some b'" using sb sc by (simp add: memcpy_def)
  have byte: "b' ! j = (if ?o \<le> j \<and> j < ?o + ?n then c ! j else b ! j)" if "j < length b" for j
    using memcpy_nth [OF m that] by simp
  have "px st b' x' y' = (if y' = y \<and> dx0 \<le> x' \<and> x' < dx1 then px st c x' y' else px st b x' y')"
    if q: "in_panel W H x' y'" for x' y'
  proof -
    let ?p = "nat (y' * st + 2 * x')"
    note pb = pixel_bounds [OF ok(1) q]
    have xW: "0 \<le> x'" "x' < W" using q by (auto simp: in_panel_def)
    have "(?o \<le> ?p \<and> ?p < ?o + ?n) = (y' = y \<and> dx0 \<le> x' \<and> x' < dx1)"
      "(?o \<le> ?p + 1 \<and> ?p + 1 < ?o + ?n) = (y' = y \<and> dx0 \<le> x' \<and> x' < dx1)"
      using row_disjoint [OF ok(1) q y] pb(1) sb(4) x xW by (cases "y' = y"; auto; linarith)+
    then show ?thesis using byte [of ?p] byte [of "?p + 1"] pb(3) by (auto simp: px_def)
  qed
  moreover have "panel_ok W H st b'" using ok(1) memcpy_length [OF m] by (simp add: panel_ok_def)
  ultimately show ?thesis using m by blast
qed

lemma memeq_row:
  assumes ok: "panel_ok W H st b" "panel_ok W H st c"
    and y: "0 \<le> y" "y < H" and x: "0 \<le> dx0" "dx0 \<le> dx1" "dx1 \<le> W"
  shows "memeq b (nat (y * st + 2 * dx0)) c (nat (y * st + 2 * dx0)) (nat (2 * (dx1 - dx0))) =
    Some (\<forall>x'. dx0 \<le> x' \<and> x' < dx1 \<longrightarrow> px st b x' y = px st c x' y)"
proof -
  let ?o = "nat (y * st + 2 * dx0)" and ?n = "nat (2 * (dx1 - dx0))"
  note sb = row_segment [OF ok(1) y x] and sc = row_segment [OF ok(2) y x]
  let ?B = "take ?n (drop ?o b)" and ?C = "take ?n (drop ?o c)"
  have len: "length ?B = ?n" "length ?C = ?n" using sb(3) sc(3) by auto
  have nth: "?B ! j = b ! (?o + j)" "?C ! j = c ! (?o + j)" if "j < ?n" for j
    using that sb(3) sc(3) by auto
  have off: "?o + nat (2 * (x' - dx0)) = nat (y * st + 2 * x')" if "dx0 \<le> x'" for x'
    using that sb(4) x by (simp add: nat_add_distrib [symmetric])
  have "?B = ?C \<longleftrightarrow> (\<forall>x'. dx0 \<le> x' \<and> x' < dx1 \<longrightarrow> px st b x' y = px st c x' y)" (is "_ \<longleftrightarrow> ?R")
  proof
    assume eq: "?B = ?C"
    have "b ! (?o + j) = c ! (?o + j)" if "j < ?n" for j using nth [OF that] eq by simp
    then have "b ! (?o + nat (2 * (x' - dx0))) = c ! (?o + nat (2 * (x' - dx0)))"
        "b ! (?o + nat (2 * (x' - dx0)) + 1) = c ! (?o + nat (2 * (x' - dx0)) + 1)"
      if "dx0 \<le> x'" "x' < dx1" for x'
      using that by (auto simp: add.assoc simp del: add_Suc_right)
    then show ?R using off by (auto simp: px_def)
  next
    assume r: ?R
    show "?B = ?C"
    proof (rule nth_equalityI)
      show "length ?B = length ?C" using len by simp
      fix j assume "j < length ?B"
      then have j: "j < ?n" using len by simp
      let ?x = "dx0 + int (j div 2)"
      have "px st b ?x y = px st c ?x y" using r j by auto
      then have "lo8 (px st b ?x y) = lo8 (px st c ?x y)" "hi8 (px st b ?x y) = hi8 (px st c ?x y)" by auto
      moreover have "nat (y * st + 2 * ?x) = ?o + 2 * (j div 2)" using off [of ?x] by simp
      ultimately have "b ! (?o + 2 * (j div 2)) = c ! (?o + 2 * (j div 2))"
        "b ! (?o + (2 * (j div 2) + 1)) = c ! (?o + (2 * (j div 2) + 1))" by (auto simp: px_def)
      moreover have "j = 2 * (j div 2) \<or> j = 2 * (j div 2) + 1" by presburger
      ultimately have "b ! (?o + j) = c ! (?o + j)" by metis
      then show "?B ! j = ?C ! j" using nth [OF j] by simp
    qed
  qed
  then show ?thesis using sb(3) sc(3) by (simp add: memeq_def)
qed

text \<open>One row of the comparison loop.\<close>

lemma push_row_pixels:
  assumes ok: "panel_ok W H st seen" "panel_ok W H st fb" "panel_ok W H st sh"
    and y: "0 \<le> y" "y < H" and x: "0 \<le> dx0" "dx0 \<le> dx1" "dx1 \<le> W"
    and same: "\<forall>x y. in_panel W H x y \<longrightarrow> px st fb x y = px st seen x y"
  shows "\<exists>seen' fb'. push_row st sh dx0 dx1 y (seen, fb, ch) =
      Some (seen', fb', ch \<or> (\<exists>x. dx0 \<le> x \<and> x < dx1 \<and> px st seen x y \<noteq> px st sh x y)) \<and>
    panel_ok W H st seen' \<and> panel_ok W H st fb' \<and>
    (\<forall>x' y'. in_panel W H x' y' \<longrightarrow>
       px st seen' x' y' = (if y' = y \<and> dx0 \<le> x' \<and> x' < dx1 then px st sh x' y' else px st seen x' y') \<and>
       px st fb' x' y' = px st seen' x' y')"
proof -
  note seg = row_segment [OF ok(1) y x]
  note eq = memeq_row [OF ok(1,3) y x]
  show ?thesis
  proof (cases "\<forall>x'. dx0 \<le> x' \<and> x' < dx1 \<longrightarrow> px st seen x' y = px st sh x' y")
    case True
    then have "push_row st sh dx0 dx1 y (seen, fb, ch) = Some (seen, fb, ch)"
      using eq by (simp only: push_row_def seg(1,2) Let_def split bind.bind_lunit) simp
    then show ?thesis using True ok same by auto
  next
    case False
    from memcpy_row [OF ok(1,3) y x] memcpy_row [OF ok(2,3) y x]
    obtain s' f' where c: "memcpy seen (nat (y * st + 2 * dx0)) sh (nat (y * st + 2 * dx0)) (nat (2 * (dx1 - dx0))) = Some s'"
      "memcpy fb (nat (y * st + 2 * dx0)) sh (nat (y * st + 2 * dx0)) (nat (2 * (dx1 - dx0))) = Some f'"
      "panel_ok W H st s'" "panel_ok W H st f'"
      "\<forall>x' y'. in_panel W H x' y' \<longrightarrow>
         px st s' x' y' = (if y' = y \<and> dx0 \<le> x' \<and> x' < dx1 then px st sh x' y' else px st seen x' y')"
      "\<forall>x' y'. in_panel W H x' y' \<longrightarrow>
         px st f' x' y' = (if y' = y \<and> dx0 \<le> x' \<and> x' < dx1 then px st sh x' y' else px st fb x' y')"
      by blast
    then have "push_row st sh dx0 dx1 y (seen, fb, ch) = Some (s', f', True)"
      using eq False by (simp only: push_row_def seg(1,2) Let_def split bind.bind_lunit if_False)
    then show ?thesis using False c same by auto
  qed
qed

lemma push_rows_pixels:
  assumes ok: "panel_ok W H st seen" "panel_ok W H st fb" "panel_ok W H st sh"
    and ys: "\<And>y. y \<in> set ys \<Longrightarrow> 0 \<le> y \<and> y < H" and x: "0 \<le> dx0" "dx0 \<le> dx1" "dx1 \<le> W"
    and same: "\<forall>x y. in_panel W H x y \<longrightarrow> px st fb x y = px st seen x y"
  shows "\<exists>seen' fb'. foldM (push_row st sh dx0 dx1) ys (seen, fb, ch) =
      Some (seen', fb', ch \<or> (\<exists>x y. y \<in> set ys \<and> dx0 \<le> x \<and> x < dx1 \<and> px st seen x y \<noteq> px st sh x y)) \<and>
    panel_ok W H st seen' \<and> panel_ok W H st fb' \<and>
    (\<forall>x' y'. in_panel W H x' y' \<longrightarrow>
       px st seen' x' y' = (if y' \<in> set ys \<and> dx0 \<le> x' \<and> x' < dx1 then px st sh x' y' else px st seen x' y') \<and>
       px st fb' x' y' = px st seen' x' y')"
  using ok(1,2) ys same
proof (induction ys arbitrary: seen fb ch)
  case Nil
  then show ?case by auto
next
  case (Cons y ys)
  from push_row_pixels [OF Cons.prems(1,2) ok(3) _ _ x Cons.prems(4), of y ch] Cons.prems(3)
  obtain s1 f1 where one: "push_row st sh dx0 dx1 y (seen, fb, ch) =
      Some (s1, f1, ch \<or> (\<exists>x. dx0 \<le> x \<and> x < dx1 \<and> px st seen x y \<noteq> px st sh x y))"
    and ok1: "panel_ok W H st s1" "panel_ok W H st f1"
    and p1: "\<forall>x' y'. in_panel W H x' y' \<longrightarrow>
       px st s1 x' y' = (if y' = y \<and> dx0 \<le> x' \<and> x' < dx1 then px st sh x' y' else px st seen x' y') \<and>
       px st f1 x' y' = px st s1 x' y'" by auto
  let ?c1 = "ch \<or> (\<exists>x. dx0 \<le> x \<and> x < dx1 \<and> px st seen x y \<noteq> px st sh x y)"
  from Cons.IH [OF ok1, of ?c1] p1 Cons.prems(3)
  obtain s2 f2 where rest: "foldM (push_row st sh dx0 dx1) ys (s1, f1, ?c1) =
      Some (s2, f2, ?c1 \<or> (\<exists>x y. y \<in> set ys \<and> dx0 \<le> x \<and> x < dx1 \<and> px st s1 x y \<noteq> px st sh x y))"
    and ok2: "panel_ok W H st s2" "panel_ok W H st f2"
    and p2: "\<forall>x' y'. in_panel W H x' y' \<longrightarrow>
       px st s2 x' y' = (if y' \<in> set ys \<and> dx0 \<le> x' \<and> x' < dx1 then px st sh x' y' else px st s1 x' y') \<and>
       px st f2 x' y' = px st s2 x' y'" by auto
  have in_p: "in_panel W H x' y'" if "dx0 \<le> x'" "x' < dx1" "y' \<in> set (y # ys)" for x' y'
    using that x Cons.prems(3) by (auto simp: in_panel_def)
  have "(?c1 \<or> (\<exists>x y. y \<in> set ys \<and> dx0 \<le> x \<and> x < dx1 \<and> px st s1 x y \<noteq> px st sh x y)) =
      (ch \<or> (\<exists>x y'. y' \<in> set (y # ys) \<and> dx0 \<le> x \<and> x < dx1 \<and> px st seen x y' \<noteq> px st sh x y'))"
    using p1 in_p by (simp, metis)
  then show ?case using one rest ok2 p1 p2 by (intro exI [of _ s2] exI [of _ f2]) auto
qed

section \<open>Layers\<close>

text \<open>The reference: what a layer makes of a pixel, and the whole frame.\<close>

definition paint_layer :: "compose_env \<Rightarrow> eink_hwc \<Rightarrow> hwc_layer \<Rightarrow> int \<Rightarrow> int \<Rightarrow> u16 \<Rightarrow> u16" where
  "paint_layer env hw l x y old =
     (if compositionType l = HWC_FRAMEBUFFER_TARGET then old
      else if compositionType l = HWC_BACKGROUND
      then (case backgroundColor l of (r, g, b) \<Rightarrow>
              let gray = of_nat ((unat r + unat g + unat b) div 3) in mk16 gray gray)
      else if drawable (env_query env) (env_lock env) hw l
      then layer_effect (env_query env) (env_lock env) hw l x y old else old)"

definition frame_pixel :: "compose_env \<Rightarrow> eink_hwc \<Rightarrow> hwc_layer list \<Rightarrow> int \<Rightarrow> int \<Rightarrow> u16" where
  "frame_pixel env hw ls x y = fold (\<lambda>l. paint_layer env hw l x y) ls 0xffff"

definition touches :: "compose_env \<Rightarrow> eink_hwc \<Rightarrow> hwc_layer \<Rightarrow> bool" where
  "touches env hw l \<longleftrightarrow>
     compositionType l \<noteq> HWC_FRAMEBUFFER_TARGET \<and>
     (compositionType l = HWC_BACKGROUND \<or> drawable (env_query env) (env_lock env) hw l)"

definition rect_in :: "rect4 \<Rightarrow> int \<Rightarrow> int \<Rightarrow> bool" where
  "rect_in r x y = (case r of (x0, y0, x1, y1) \<Rightarrow> x0 \<le> x \<and> x < x1 \<and> y0 \<le> y \<and> y < y1)"

text \<open>
  What is asked of the layers that are composed: none is larger than its frame
  and none is a 16-bit layer without a visible column. The code accepts both
  kinds and goes wrong on them, as \<open>scaled_layer_partly_shown\<close> and
  \<open>offscreen_565_layer_faults\<close> show.
\<close>

definition layers_ok :: "compose_env \<Rightarrow> eink_hwc \<Rightarrow> hwc_layer list \<Rightarrow> bool" where
  "layers_ok env hw ls \<longleftrightarrow>
     (\<forall>l\<in>set ls. compositionType l \<notin> {HWC_FRAMEBUFFER_TARGET, HWC_BACKGROUND} \<longrightarrow> fits_frame l \<and>
        (\<forall>geo. env_query env (l_handle l) = Some geo \<longrightarrow> \<not> blank_565 (hw_width hw) (hw_height hw) l geo))"

lemma paint_layer_cong [simp]:
  "drawable q k (hw\<lparr>shadow := sh\<rparr>) l = drawable q k hw l"
  "paint_layer env (hw\<lparr>shadow := sh\<rparr>) l = paint_layer env hw l"
  "touches env (hw\<lparr>shadow := sh\<rparr>) l = touches env hw l"
  "layers_ok env (hw\<lparr>shadow := sh\<rparr>) ls = layers_ok env hw ls"
  by (auto simp: fun_eq_iff drawable_def paint_layer_def layer_effect_def touches_def layers_ok_def
      split: option.splits)

lemma px_replicate:
  assumes "panel_ok W H st b" and "in_panel W H x y"
  shows "px st (replicate (nat (st * H)) g) x y = mk16 g g"
proof -
  have "nat (y * st + 2 * x) + 1 < nat (st * H)"
    using pixel_bounds(3) [OF assms] assms(1) by (simp add: panel_ok_def)
  then have "nat (y * st + 2 * x) < nat (st * H)" "nat (y * st + 2 * x) + 1 < nat (st * H)" by linarith+
  then show ?thesis by (simp only: px_def nth_replicate)
qed

text \<open>\<open>memset\<close> of the whole shadow buffer, for the clear and for a background.\<close>

lemma fill_shadow:
  assumes ok: "hw_ok hw"
  shows "hw_ok (hw\<lparr>shadow := replicate (unat (fb_size hw)) g\<rparr>)"
    and "in_panel (hw_width hw) (hw_height hw) x y \<Longrightarrow>
      px (stride_bytes hw) (replicate (unat (fb_size hw)) g) x y = mk16 g g"
proof -
  let ?n = "stride_bytes hw * hw_height hw"
  have p: "panel_ok (hw_width hw) (hw_height hw) (stride_bytes hw) (shadow hw)" and sz: "fb_size hw = of_int ?n"
    using ok by (auto simp: hw_ok_def)
  then have "0 \<le> stride_bytes hw" "0 \<le> hw_height hw" "?n < 2 ^ 32" by (auto simp: panel_ok_def)
  then have n: "unat (fb_size hw) = nat ?n" unfolding sz by (intro unat_size_t) auto
  show "hw_ok (hw\<lparr>shadow := replicate (unat (fb_size hw)) g\<rparr>)"
    using ok n by (simp add: hw_ok_def panel_ok_def)
  show "px (stride_bytes hw) (replicate (unat (fb_size hw)) g) x y = mk16 g g"
    if "in_panel (hw_width hw) (hw_height hw) x y"
    unfolding n by (rule px_replicate [OF p that])
qed

lemma union_frame_in:
  "rect_in r x y \<Longrightarrow> rect_in (union_frame r f) x y"
  "in_rect f x y \<Longrightarrow> rect_in (union_frame r f) x y"
  by (auto simp: rect_in_def union_frame_def in_rect_def Let_def split: prod.splits)

text \<open>One layer: the image, \<open>dirty\<close>, and the rectangle that covers what was drawn.\<close>

lemma layer_step_pixels:
  assumes ok: "hw_ok (lp_hw s)" and lk: "lock_ok (env_query env) (env_lock env)"
    and l: "layers_ok env (lp_hw s) [l]"
  shows "\<exists>s' sh. layer_step env l s = Some s' \<and> lp_hw s' = (lp_hw s)\<lparr>shadow := sh\<rparr> \<and> hw_ok (lp_hw s') \<and>
    lp_dirty s' = (lp_dirty s \<or> touches env (lp_hw s) l) \<and>
    (\<forall>x y. in_panel (hw_width (lp_hw s)) (hw_height (lp_hw s)) x y \<longrightarrow>
       px (stride_bytes (lp_hw s)) sh x y =
         paint_layer env (lp_hw s) l x y (px (stride_bytes (lp_hw s)) (shadow (lp_hw s)) x y) \<and>
       (rect_in (lp_rect s) x y \<longrightarrow> rect_in (lp_rect s') x y) \<and>
       (rect_in (lp_rect s') x y \<or> (\<forall>v. paint_layer env (lp_hw s) l x y v = v)))"
proof -
  let ?hw = "lp_hw s"
  consider (target) "compositionType l = HWC_FRAMEBUFFER_TARGET" | (bg) "compositionType l = HWC_BACKGROUND"
    | (layer) "compositionType l \<noteq> HWC_FRAMEBUFFER_TARGET" "compositionType l \<noteq> HWC_BACKGROUND" by blast
  then show ?thesis
  proof cases
    case target
    then show ?thesis using ok by (intro exI [of _ s] exI [of _ "shadow ?hw"])
      (auto simp: layer_step_def paint_layer_def touches_def)
  next
    case bg
    obtain r g b where c: "backgroundColor l = (r, g, b)" by (cases "backgroundColor l")
    let ?g = "of_nat ((unat r + unat g + unat b) div 3) :: u8"
    show ?thesis
      using bg c fill_shadow(1) [OF ok, of ?g] fill_shadow(2) [OF ok, of _ _ ?g]
      by (intro exI [of _ "s\<lparr>lp_hw := compose_background ?hw l, lp_dirty := True,
            lp_rect := (0, 0, hw_width ?hw, hw_height ?hw)\<rparr>"] exI [of _ "replicate (unat (fb_size ?hw)) ?g"])
        (auto simp: layer_step_def compose_background_def paint_layer_def touches_def rect_in_def in_panel_def Let_def)
  next
    case layer
    then have fits: "fits_frame l"
      and vis: "\<forall>geo. env_query env (l_handle l) = Some geo \<longrightarrow> \<not> blank_565 (hw_width ?hw) (hw_height ?hw) l geo"
      using l by (auto simp: layers_ok_def)
    from compose_layer_pixels [OF ok lk vis]
    obtain sh calls rc where cl: "compose_layer (env_query env) (env_lock env) ?hw l = Some (?hw\<lparr>shadow := sh\<rparr>, calls, rc)"
      and ok': "hw_ok (?hw\<lparr>shadow := sh\<rparr>)"
      and img: "\<forall>x y. in_panel (hw_width ?hw) (hw_height ?hw) x y \<longrightarrow> px (stride_bytes ?hw) sh x y =
         (if rc = 0 then layer_effect (env_query env) (env_lock env) ?hw l x y (px (stride_bytes ?hw) (shadow ?hw) x y)
          else px (stride_bytes ?hw) (shadow ?hw) x y)"
      by (elim exE conjE)
    have rc: "rc = (if drawable (env_query env) (env_lock env) ?hw l then 0 else -1)"
      by (rule compose_layer_status [OF cl])
    have stay: "layer_effect (env_query env) (env_lock env) ?hw l x y v = v"
      if "\<not> rect_in (union_frame (lp_rect s) (displayFrame l)) x y" for x y v
    proof -
      have "\<not> in_rect (displayFrame l) x y" using that union_frame_in(2) by blast
      then show ?thesis using layer_outside [OF fits, of x y]
        by (auto simp: layer_effect_def split: option.splits prod.splits)
    qed
    let ?s = "s\<lparr>lp_hw := ?hw\<lparr>shadow := sh\<rparr>, lp_calls := lp_calls s @ calls\<rparr>"
    let ?s' = "if rc = 0 then ?s\<lparr>lp_dirty := True, lp_rect := union_frame (lp_rect ?s) (displayFrame l)\<rparr> else ?s"
    have "layer_step env l s = Some ?s'" using layer cl by (simp add: layer_step_def)
    then show ?thesis
      using layer ok' img rc stay
      by (intro exI [of _ ?s'] exI [of _ sh]) (auto simp: paint_layer_def touches_def intro: union_frame_in)
  qed
qed

lemma layer_loop_pixels:
  assumes "hw_ok (lp_hw s)" and lk: "lock_ok (env_query env) (env_lock env)" and "layers_ok env (lp_hw s) ls"
  shows "\<exists>s' sh. foldM (layer_step env) ls s = Some s' \<and> lp_hw s' = (lp_hw s)\<lparr>shadow := sh\<rparr> \<and> hw_ok (lp_hw s') \<and>
    lp_dirty s' = (lp_dirty s \<or> (\<exists>l\<in>set ls. touches env (lp_hw s) l)) \<and>
    (\<forall>x y. in_panel (hw_width (lp_hw s)) (hw_height (lp_hw s)) x y \<longrightarrow>
       px (stride_bytes (lp_hw s)) sh x y =
         fold (\<lambda>l. paint_layer env (lp_hw s) l x y) ls (px (stride_bytes (lp_hw s)) (shadow (lp_hw s)) x y) \<and>
       (rect_in (lp_rect s) x y \<longrightarrow> rect_in (lp_rect s') x y) \<and>
       (rect_in (lp_rect s') x y \<or> (\<forall>v. fold (\<lambda>l. paint_layer env (lp_hw s) l x y) ls v = v)))"
  using assms(1,3)
proof (induction ls arbitrary: s)
  case Nil
  then show ?case by (intro exI [of _ s] exI [of _ "shadow (lp_hw s)"]) auto
next
  case (Cons l ls)
  have lo: "layers_ok env (lp_hw s) [l]" "layers_ok env (lp_hw s) ls"
    using Cons.prems(2) by (auto simp: layers_ok_def)
  from layer_step_pixels [OF Cons.prems(1) lk lo(1)] obtain s1 sh1 where
    one: "layer_step env l s = Some s1" "lp_hw s1 = (lp_hw s)\<lparr>shadow := sh1\<rparr>" "hw_ok (lp_hw s1)"
      "lp_dirty s1 = (lp_dirty s \<or> touches env (lp_hw s) l)"
    and p1: "\<forall>x y. in_panel (hw_width (lp_hw s)) (hw_height (lp_hw s)) x y \<longrightarrow>
       px (stride_bytes (lp_hw s)) sh1 x y =
         paint_layer env (lp_hw s) l x y (px (stride_bytes (lp_hw s)) (shadow (lp_hw s)) x y) \<and>
       (rect_in (lp_rect s) x y \<longrightarrow> rect_in (lp_rect s1) x y) \<and>
       (rect_in (lp_rect s1) x y \<or> (\<forall>v. paint_layer env (lp_hw s) l x y v = v))" by blast
  have "layers_ok env (lp_hw s1) ls" using lo(2) one(2) by simp
  from Cons.IH [OF one(3) this] have "\<exists>s2 sh2. foldM (layer_step env) ls s1 = Some s2 \<and>
    lp_hw s2 = (lp_hw s)\<lparr>shadow := sh2\<rparr> \<and> hw_ok (lp_hw s2) \<and>
    lp_dirty s2 = (lp_dirty s1 \<or> (\<exists>l\<in>set ls. touches env (lp_hw s) l)) \<and>
    (\<forall>x y. in_panel (hw_width (lp_hw s)) (hw_height (lp_hw s)) x y \<longrightarrow>
       px (stride_bytes (lp_hw s)) sh2 x y =
         fold (\<lambda>l. paint_layer env (lp_hw s) l x y) ls (px (stride_bytes (lp_hw s)) sh1 x y) \<and>
       (rect_in (lp_rect s1) x y \<longrightarrow> rect_in (lp_rect s2) x y) \<and>
       (rect_in (lp_rect s2) x y \<or> (\<forall>v. fold (\<lambda>l. paint_layer env (lp_hw s) l x y) ls v = v)))"
    using one(2) by simp
  then obtain s2 sh2 where
    two: "foldM (layer_step env) ls s1 = Some s2" "lp_hw s2 = (lp_hw s)\<lparr>shadow := sh2\<rparr>" "hw_ok (lp_hw s2)"
      "lp_dirty s2 = (lp_dirty s1 \<or> (\<exists>l\<in>set ls. touches env (lp_hw s) l))"
    and p2: "\<forall>x y. in_panel (hw_width (lp_hw s)) (hw_height (lp_hw s)) x y \<longrightarrow>
       px (stride_bytes (lp_hw s)) sh2 x y =
         fold (\<lambda>l. paint_layer env (lp_hw s) l x y) ls (px (stride_bytes (lp_hw s)) sh1 x y) \<and>
       (rect_in (lp_rect s1) x y \<longrightarrow> rect_in (lp_rect s2) x y) \<and>
       (rect_in (lp_rect s2) x y \<or> (\<forall>v. fold (\<lambda>l. paint_layer env (lp_hw s) l x y) ls v = v))"
    by blast
  have "px (stride_bytes (lp_hw s)) sh2 x y =
         fold (\<lambda>l. paint_layer env (lp_hw s) l x y) (l # ls) (px (stride_bytes (lp_hw s)) (shadow (lp_hw s)) x y) \<and>
       (rect_in (lp_rect s) x y \<longrightarrow> rect_in (lp_rect s2) x y) \<and>
       (rect_in (lp_rect s2) x y \<or> (\<forall>v. fold (\<lambda>l. paint_layer env (lp_hw s) l x y) (l # ls) v = v))"
    if "in_panel (hw_width (lp_hw s)) (hw_height (lp_hw s)) x y" for x y
    using p1 [rule_format, OF that] p2 [rule_format, OF that] by auto
  then show ?case using one(1,4) two by (intro exI [of _ s2] exI [of _ sh2]) auto
qed

section \<open>The update request\<close>

lemma and_not_add: "(a AND NOT m) + (a AND m) = (a::int)"
  by (subst disjunctive_add) (auto intro!: bit_eqI simp: bit_and_iff bit_or_iff bit_not_iff)

lemma and_not_7: "(a::int) AND NOT 7 = a - a mod 8"
proof -
  have m: "(7::int) = mask 3" by (simp add: mask_eq_exp_minus_1)
  have "a AND 7 = a mod 8" unfolding m by (simp add: take_bit_eq_mask [symmetric] take_bit_eq_mod)
  then show ?thesis using and_not_add [of a 7] by linarith
qed

lemma align8:
  assumes "0 \<le> (x::int)"
  shows "(x - x mod 8) mod 8 = 0" "0 \<le> x - x mod 8" "x - x mod 8 \<le> x" "x - (x - x mod 8) < 8"
  using assms pos_mod_bound [of 8 x] pos_mod_sign [of 8 x] zmod_le_nonneg_dividend [of x 8]
  by (auto simp: minus_mod_eq_mult_div)

definition in_update :: "mxcfb_update \<Rightarrow> int \<Rightarrow> int \<Rightarrow> bool" where
  "in_update u x y \<longleftrightarrow>
     upd_left u \<le> x \<and> x < upd_left u + upd_width u \<and> upd_top u \<le> y \<and> y < upd_top u + upd_height u"

lemma eink_send_update_covers:
  assumes "0 \<le> x0" "x0 < x1" "x1 \<le> W" "y0 < y1"
  shows "\<exists>u. eink_send_update W x0 y0 (x1 - x0) (y1 - y0) full = Some u \<and>
    upd_left u mod 8 = 0 \<and> 0 \<le> upd_left u \<and> upd_left u + upd_width u \<le> W \<and>
    (upd_width u mod 8 = 0 \<or> upd_left u + upd_width u = W) \<and>
    upd_left u \<le> x0 \<and> x1 \<le> upd_left u + upd_width u \<and> x0 - upd_left u < 8 \<and>
    upd_top u = y0 \<and> upd_height u = y1 - y0 \<and>
    upd_mode u = (if full then UPDATE_MODE_FULL else UPDATE_MODE_PARTIAL)"
proof -
  have right: "x0 + (x1 - x0) = x1" by simp
  define l where "l = x0 AND NOT 7"
  define w where "w = (x1 - l + 7) AND NOT 7"
  have l: "l mod 8 = 0" "0 \<le> l" "l \<le> x0" "x0 - l < 8"
    using align8 [OF assms(1)] unfolding l_def and_not_7 by simp_all
  have w: "x1 - l \<le> w" "w mod 8 = 0"
    using align8(1,4) [of "x1 - l + 7"] l assms unfolding w_def and_not_7 by simp_all
  have "eink_send_update W x0 y0 (x1 - x0) (y1 - y0) full =
      Some \<lparr>upd_left = l, upd_top = y0, upd_width = (if l + w > W then W - l else w), upd_height = y1 - y0,
        upd_mode = (if full then UPDATE_MODE_FULL else UPDATE_MODE_PARTIAL)\<rparr>"
    unfolding eink_send_update_def Let_def right l_def [symmetric] w_def [symmetric] using assms l w by simp
  then show ?thesis using assms l w by auto
qed

section \<open>Presenting\<close>

definition rect_inside :: "int \<Rightarrow> int \<Rightarrow> rect4 \<Rightarrow> bool" where
  "rect_inside W H r = (case r of (x0, y0, x1, y1) \<Rightarrow> 0 \<le> x0 \<and> x0 \<le> x1 \<and> x1 \<le> W \<and> 0 \<le> y0 \<and> y0 \<le> y1 \<and> y1 \<le> H)"

text \<open>
  The invariant of the compositor between frames: the panel copy is what the
  framebuffer holds, the remembered rectangle lies on the panel, and unless the
  next frame is a full one, the panel is white outside that rectangle.
\<close>

definition frame_inv :: "hwc_state \<Rightarrow> bool" where
  "frame_inv s \<longleftrightarrow>
     (let hw = hwc_dev s; W = hw_width hw; H = hw_height hw; st = stride_bytes hw
      in hw_ok hw \<and> rect_inside W H (prev_rect s) \<and>
         (\<forall>x y. in_panel W H x y \<longrightarrow> px st (fb_mem hw) x y = px st (panel hw) x y) \<and>
         (updates s mod EINK_FULL_UPDATE_EVERY = 0 \<or> force_full hw \<or>
          (\<forall>x y. in_panel W H x y \<longrightarrow> \<not> rect_in (prev_rect s) x y \<longrightarrow> px st (panel hw) x y = 0xffff)))"

lemma clamp_rect_inside:
  assumes "0 \<le> W" "0 \<le> H"
  shows "rect_inside W H (clamp_rect W H r)"
    and "in_panel W H x y \<Longrightarrow> rect_in r x y \<Longrightarrow> rect_in (clamp_rect W H r) x y"
  using assms by (auto simp: rect_inside_def clamp_rect_def rect_in_def in_panel_def Let_def split: prod.splits)

lemma union_prev_inside:
  assumes "rect_inside W H p" "rect_inside W H r"
  shows "rect_inside W H (union_prev p r)"
    and "rect_in p x y \<or> rect_in r x y \<Longrightarrow> rect_in (union_prev p r) x y"
  using assms by (auto simp: rect_inside_def union_prev_def rect_in_def Let_def split: prod.splits)

text \<open>
  What a presented frame does: the panel copy and the framebuffer become the
  shadow, and if that changes a pixel, one update covering the change is sent.
\<close>

definition shown :: "eink_hwc \<Rightarrow> bool" where
  "shown hw \<longleftrightarrow> (\<forall>x y. in_panel (hw_width hw) (hw_height hw) x y \<longrightarrow>
     px (stride_bytes hw) (panel hw) x y = px (stride_bytes hw) (shadow hw) x y \<and>
     px (stride_bytes hw) (fb_mem hw) x y = px (stride_bytes hw) (shadow hw) x y)"

definition update_covers :: "eink_hwc \<Rightarrow> eink_hwc \<Rightarrow> mxcfb_update \<Rightarrow> bool" where
  "update_covers hw hw' u \<longleftrightarrow>
     0 \<le> upd_left u \<and> upd_left u mod 8 = 0 \<and> 0 < upd_width u \<and> upd_left u + upd_width u \<le> hw_width hw \<and>
     (upd_width u mod 8 = 0 \<or> upd_left u + upd_width u = hw_width hw) \<and>
     0 \<le> upd_top u \<and> 0 < upd_height u \<and> upd_top u + upd_height u \<le> hw_height hw \<and>
     (\<forall>x y. in_panel (hw_width hw) (hw_height hw) x y \<longrightarrow>
        px (stride_bytes hw) (fb_mem hw') x y \<noteq> px (stride_bytes hw) (fb_mem hw) x y \<longrightarrow> in_update u x y)"

definition is_full :: "hwc_state \<Rightarrow> bool" where
  "is_full s \<longleftrightarrow> updates s mod EINK_FULL_UPDATE_EVERY = 0 \<or> force_full (hwc_dev s)"

text \<open>The loop over the rows of the update region.\<close>

lemma present_rows:
  assumes inv: "frame_inv s"
    and blank: "\<forall>x y. in_panel (hw_width (hwc_dev s)) (hw_height (hwc_dev s)) x y \<longrightarrow> \<not> rect_in r x y \<longrightarrow>
       px (stride_bytes (hwc_dev s)) (shadow (hwc_dev s)) x y = 0xffff"
  obtains x0 y0 x1 y1 seen fb where
    "(if is_full s then (0, 0, hw_width (hwc_dev s), hw_height (hwc_dev s))
      else union_prev (prev_rect s) (clamp_rect (hw_width (hwc_dev s)) (hw_height (hwc_dev s)) r)) = (x0, y0, x1, y1)"
    "rect_inside (hw_width (hwc_dev s)) (hw_height (hwc_dev s)) (x0, y0, x1, y1)"
    "for_range y0 y1 (push_row (stride_bytes (hwc_dev s)) (shadow (hwc_dev s)) x0 x1)
       (panel (hwc_dev s), fb_mem (hwc_dev s), False) = Some (seen, fb, \<not> shown (hwc_dev s))"
    "hw_ok ((hwc_dev s)\<lparr>force_full := False, panel := seen, fb_mem := fb\<rparr>)"
    "shown ((hwc_dev s)\<lparr>force_full := False, panel := seen, fb_mem := fb\<rparr>)"
    "\<forall>x y. in_panel (hw_width (hwc_dev s)) (hw_height (hwc_dev s)) x y \<longrightarrow> \<not> rect_in (x0, y0, x1, y1) x y \<longrightarrow>
       px (stride_bytes (hwc_dev s)) (panel (hwc_dev s)) x y = px (stride_bytes (hwc_dev s)) (shadow (hwc_dev s)) x y"
proof -
  let ?hw = "hwc_dev s"
  let ?W = "hw_width ?hw" and ?H = "hw_height ?hw" and ?st = "stride_bytes ?hw"
  let ?r1 = "union_prev (prev_rect s) (clamp_rect ?W ?H r)"
  have ok: "hw_ok ?hw" and pr: "rect_inside ?W ?H (prev_rect s)"
    and same: "\<forall>x y. in_panel ?W ?H x y \<longrightarrow> px ?st (fb_mem ?hw) x y = px ?st (panel ?hw) x y"
    and wh: "is_full s \<or> (\<forall>x y. in_panel ?W ?H x y \<longrightarrow> \<not> rect_in (prev_rect s) x y \<longrightarrow> px ?st (panel ?hw) x y = 0xffff)"
    using inv by (auto simp: frame_inv_def is_full_def Let_def)
  have bufs: "panel_ok ?W ?H ?st (panel ?hw)" "panel_ok ?W ?H ?st (fb_mem ?hw)" "panel_ok ?W ?H ?st (shadow ?hw)"
    using ok by (auto simp: hw_ok_def)
  then have WH: "0 \<le> ?W" "0 \<le> ?H" by (auto simp: panel_ok_def)
  note cl = clamp_rect_inside(1) [OF WH, of r] clamp_rect_inside(2) [OF WH]
  obtain x0 y0 x1 y1 where q: "(if is_full s then (0, 0, ?W, ?H) else ?r1) = (x0, y0, x1, y1)" by (metis prod_cases4)
  have ins: "rect_inside ?W ?H (x0, y0, x1, y1)"
    unfolding q [symmetric] using union_prev_inside(1) [OF pr cl(1)] WH by (auto simp: rect_inside_def)
  then have i: "0 \<le> x0" "x0 \<le> x1" "x1 \<le> ?W" "0 \<le> y0" "y1 \<le> ?H" by (auto simp: rect_inside_def)
  have out: "px ?st (panel ?hw) x y = px ?st (shadow ?hw) x y"
    if p: "in_panel ?W ?H x y" and o: "\<not> rect_in (x0, y0, x1, y1) x y" for x y
  proof -
    have nf: "\<not> is_full s" using p o q by (auto simp: in_panel_def rect_in_def)
    then have "\<not> rect_in ?r1 x y" using o q by auto
    then have "\<not> rect_in (prev_rect s) x y" "\<not> rect_in r x y"
      using union_prev_inside(2) [OF pr cl(1)] cl(2) [OF p] by blast+
    then show ?thesis using wh blank p nf by simp
  qed
  have rows: "y \<in> set [y0..y1 - 1] \<and> x0 \<le> x \<and> x < x1 \<longleftrightarrow> rect_in (x0, y0, x1, y1) x y" for x y
    by (auto simp: rect_in_def)
  have inp: "rect_in (x0, y0, x1, y1) x y \<Longrightarrow> in_panel ?W ?H x y" for x y
    using i by (auto simp: rect_in_def in_panel_def)
  from push_rows_pixels [OF bufs _ i(1-3) same, of "[y0..y1 - 1]" False] i(4,5)
  obtain seen fb where loop: "foldM (push_row ?st (shadow ?hw) x0 x1) [y0..y1 - 1] (panel ?hw, fb_mem ?hw, False) =
      Some (seen, fb, \<exists>x y. y \<in> set [y0..y1 - 1] \<and> x0 \<le> x \<and> x < x1 \<and> px ?st (panel ?hw) x y \<noteq> px ?st (shadow ?hw) x y)"
    and ok': "panel_ok ?W ?H ?st seen" "panel_ok ?W ?H ?st fb"
    and img: "\<forall>x y. in_panel ?W ?H x y \<longrightarrow>
       px ?st seen x y = (if y \<in> set [y0..y1 - 1] \<and> x0 \<le> x \<and> x < x1 then px ?st (shadow ?hw) x y else px ?st (panel ?hw) x y) \<and>
       px ?st fb x y = px ?st seen x y" by auto
  have ch: "(\<exists>x y. y \<in> set [y0..y1 - 1] \<and> x0 \<le> x \<and> x < x1 \<and> px ?st (panel ?hw) x y \<noteq> px ?st (shadow ?hw) x y)
      \<longleftrightarrow> \<not> shown ?hw"
    using rows inp out same unfolding shown_def by (metis (no_types, lifting))
  show thesis
  proof (rule that [OF q ins])
    show "for_range y0 y1 (push_row ?st (shadow ?hw) x0 x1) (panel ?hw, fb_mem ?hw, False) = Some (seen, fb, \<not> shown ?hw)"
      using loop unfolding ch for_range_def .
    show "hw_ok (?hw\<lparr>force_full := False, panel := seen, fb_mem := fb\<rparr>)" using ok ok' by (simp add: hw_ok_def)
    show "shown (?hw\<lparr>force_full := False, panel := seen, fb_mem := fb\<rparr>)"
      using img out rows by (auto simp: shown_def)
  qed (use out in blast)
qed

lemma present_inv:
  assumes inv: "frame_inv s"
    and blank: "\<forall>x y. in_panel (hw_width (hwc_dev s)) (hw_height (hwc_dev s)) x y \<longrightarrow> \<not> rect_in r x y \<longrightarrow>
       px (stride_bytes (hwc_dev s)) (shadow (hwc_dev s)) x y = 0xffff"
    and ok: "hw_ok ((hwc_dev s)\<lparr>force_full := False, panel := seen, fb_mem := fb\<rparr>)"
    and sh: "shown ((hwc_dev s)\<lparr>force_full := False, panel := seen, fb_mem := fb\<rparr>)"
  shows "frame_inv (s\<lparr>hwc_dev := (hwc_dev s)\<lparr>force_full := False, panel := seen, fb_mem := fb\<rparr>,
    prev_rect := union_prev (prev_rect s) (clamp_rect (hw_width (hwc_dev s)) (hw_height (hwc_dev s)) r), updates := n\<rparr>)"
proof -
  let ?W = "hw_width (hwc_dev s)" and ?H = "hw_height (hwc_dev s)"
  have pr: "rect_inside ?W ?H (prev_rect s)" and "hw_ok (hwc_dev s)" using inv by (auto simp: frame_inv_def Let_def)
  then have WH: "0 \<le> ?W" "0 \<le> ?H" by (auto simp: hw_ok_def panel_ok_def)
  note u = union_prev_inside [OF pr clamp_rect_inside(1) [OF WH]]
  have "px (stride_bytes (hwc_dev s)) seen x y = 0xffff"
    if p: "in_panel ?W ?H x y" and "\<not> rect_in (union_prev (prev_rect s) (clamp_rect ?W ?H r)) x y" for x y
  proof -
    have "\<not> rect_in r x y" using that u(2) clamp_rect_inside(2) [OF WH p] by blast
    then show ?thesis using blank sh p by (simp add: shown_def)
  qed
  then show ?thesis using ok sh u(1) by (simp add: frame_inv_def shown_def Let_def)
qed

lemma present_update:
  assumes inv: "frame_inv s"
    and ins: "rect_inside (hw_width (hwc_dev s)) (hw_height (hwc_dev s)) (x0, y0, x1, y1)"
    and ch: "\<not> shown (hwc_dev s)"
    and sh: "shown ((hwc_dev s)\<lparr>force_full := False, panel := seen, fb_mem := fb\<rparr>)"
    and out: "\<forall>x y. in_panel (hw_width (hwc_dev s)) (hw_height (hwc_dev s)) x y \<longrightarrow> \<not> rect_in (x0, y0, x1, y1) x y \<longrightarrow>
       px (stride_bytes (hwc_dev s)) (panel (hwc_dev s)) x y = px (stride_bytes (hwc_dev s)) (shadow (hwc_dev s)) x y"
  shows "\<exists>u. eink_send_update (hw_width (hwc_dev s)) x0 y0 (x1 - x0) (y1 - y0) full = Some u \<and>
    update_covers (hwc_dev s) ((hwc_dev s)\<lparr>force_full := False, panel := seen, fb_mem := fb\<rparr>) u \<and>
    upd_mode u = (if full then UPDATE_MODE_FULL else UPDATE_MODE_PARTIAL)"
proof -
  let ?hw = "hwc_dev s"
  let ?W = "hw_width ?hw" and ?H = "hw_height ?hw" and ?st = "stride_bytes ?hw"
  have same: "\<forall>x y. in_panel ?W ?H x y \<longrightarrow> px ?st (fb_mem ?hw) x y = px ?st (panel ?hw) x y"
    using inv by (simp add: frame_inv_def Let_def)
  obtain x y where "in_panel ?W ?H x y" "px ?st (panel ?hw) x y \<noteq> px ?st (shadow ?hw) x y"
    using ch same unfolding shown_def by metis
  then have "rect_in (x0, y0, x1, y1) x y" using out by blast
  then have ne: "x0 < x1" "y0 < y1" by (auto simp: rect_in_def)
  from ins have i: "0 \<le> x0" "x1 \<le> ?W" "0 \<le> y0" "y1 \<le> ?H" by (auto simp: rect_inside_def)
  obtain u where u: "eink_send_update ?W x0 y0 (x1 - x0) (y1 - y0) full = Some u"
      "upd_left u mod 8 = 0" "0 \<le> upd_left u" "upd_left u + upd_width u \<le> ?W"
      "upd_width u mod 8 = 0 \<or> upd_left u + upd_width u = ?W"
      "upd_left u \<le> x0" "x1 \<le> upd_left u + upd_width u" "upd_top u = y0" "upd_height u = y1 - y0"
      "upd_mode u = (if full then UPDATE_MODE_FULL else UPDATE_MODE_PARTIAL)"
    using eink_send_update_covers [OF i(1) ne(1) i(2) ne(2), of full] by (elim exE conjE) (rule that)
  have "in_update u x y" if "in_panel ?W ?H x y" "px ?st fb x y \<noteq> px ?st (fb_mem ?hw) x y" for x y
  proof -
    have "px ?st fb x y = px ?st (shadow ?hw) x y" using sh that(1) by (simp add: shown_def)
    then have "px ?st (panel ?hw) x y \<noteq> px ?st (shadow ?hw) x y" using that same by metis
    then have "rect_in (x0, y0, x1, y1) x y" using that(1) out by blast
    then show ?thesis using u by (auto simp: in_update_def rect_in_def)
  qed
  then show ?thesis using u ne i by (intro exI [of _ u]) (simp add: update_covers_def)
qed

lemma present_frame_shows:
  assumes inv: "frame_inv s"
    and blank: "\<forall>x y. in_panel (hw_width (hwc_dev s)) (hw_height (hwc_dev s)) x y \<longrightarrow> \<not> rect_in r x y \<longrightarrow>
       px (stride_bytes (hwc_dev s)) (shadow (hwc_dev s)) x y = 0xffff"
  shows "\<exists>s' seen fb. present_frame env r s = Some s' \<and> frame_inv s' \<and> shown (hwc_dev s') \<and>
    hwc_dev s' = (hwc_dev s)\<lparr>force_full := False, panel := seen, fb_mem := fb\<rparr> \<and>
    (if shown (hwc_dev s) then sent s' = sent s \<and> updates s' = updates s
     else updates s' = updates s + 1 \<and>
       (\<exists>u. sent s' = sent s @ [u] \<and> update_covers (hwc_dev s) (hwc_dev s') u \<and>
         upd_mode u = (if is_full s then UPDATE_MODE_FULL else UPDATE_MODE_PARTIAL)))"
proof -
  let ?hw = "hwc_dev s"
  let ?W = "hw_width ?hw" and ?H = "hw_height ?hw" and ?st = "stride_bytes ?hw"
  let ?r1 = "union_prev (prev_rect s) (clamp_rect ?W ?H r)"
  from present_rows [OF inv blank] obtain x0 y0 x1 y1 seen fb where
    q: "(if is_full s then (0, 0, ?W, ?H) else ?r1) = (x0, y0, x1, y1)"
    and ins: "rect_inside ?W ?H (x0, y0, x1, y1)"
    and loop: "for_range y0 y1 (push_row ?st (shadow ?hw) x0 x1) (panel ?hw, fb_mem ?hw, False) = Some (seen, fb, \<not> shown ?hw)"
    and ok: "hw_ok (?hw\<lparr>force_full := False, panel := seen, fb_mem := fb\<rparr>)"
    and sh: "shown (?hw\<lparr>force_full := False, panel := seen, fb_mem := fb\<rparr>)"
    and out: "\<forall>x y. in_panel ?W ?H x y \<longrightarrow> \<not> rect_in (x0, y0, x1, y1) x y \<longrightarrow>
       px ?st (panel ?hw) x y = px ?st (shadow ?hw) x y" .
  let ?hw' = "?hw\<lparr>force_full := False, panel := seen, fb_mem := fb\<rparr>"
  let ?s1 = "s\<lparr>hwc_dev := ?hw', prev_rect := ?r1, g_frames_composed := g_frames_composed s + 1,
    g_last_set_us := t_set env\<rparr>"
  let ?s' = "if shown ?hw then ?s1\<lparr>g_frames_identical := g_frames_identical s + 1\<rparr>
    else ?s1\<lparr>g_last_change_us := t_upd env, updates := updates s + 1, g_updates_sent := g_updates_sent s + 1,
      sent := sent s @ (case eink_send_update ?W x0 y0 (x1 - x0) (y1 - y0) (is_full s) of None \<Rightarrow> [] | Some u \<Rightarrow> [u])\<rparr>"
  have res: "present_frame env r s = Some ?s'"
    unfolding present_frame_def Let_def is_full_def [symmetric] q by (simp add: loop)
  have inv': "frame_inv ?s'" using present_inv [OF inv blank ok sh] by (simp add: frame_inv_def Let_def)
  have upd: "\<exists>u. eink_send_update ?W x0 y0 (x1 - x0) (y1 - y0) (is_full s) = Some u \<and> update_covers ?hw ?hw' u \<and>
      upd_mode u = (if is_full s then UPDATE_MODE_FULL else UPDATE_MODE_PARTIAL)" if "\<not> shown ?hw"
    by (rule present_update [OF inv ins that sh out])
  show ?thesis
  proof (intro exI conjI)
    show "present_frame env r s = Some ?s'" by (rule res)
    show "frame_inv ?s'" by (rule inv')
    show "hwc_dev ?s' = ?hw'" by simp
    then show "shown (hwc_dev ?s')" using sh by simp
  qed (use upd in auto)
qed

section \<open>The frame\<close>

lemma release_fence_irrelevant [simp]:
  "paint_layer env hw (l\<lparr>releaseFenceFd := n\<rparr>) = paint_layer env hw l"
  "touches env hw (l\<lparr>releaseFenceFd := n\<rparr>) = touches env hw l"
  "fits_frame (l\<lparr>releaseFenceFd := n\<rparr>) = fits_frame l"
  "blank_565 W H (l\<lparr>releaseFenceFd := n\<rparr>) geo = blank_565 W H l geo"
  by (auto simp: fun_eq_iff paint_layer_def touches_def drawable_def layer_effect_def layer_pixel_def
      fits_frame_def blank_565_def clip_cols_def clip_rows_def Let_def split: option.splits prod.splits)

text \<open>The layer loop draws the reference frame into the shadow buffer.\<close>

lemma layers_drawn:
  assumes ok: "hw_ok hw" and lk: "lock_ok (env_query env) (env_lock env)" and ls: "layers_ok env hw ls"
  obtains lp sh where
    "foldM (layer_step env) (map (\<lambda>l. l\<lparr>releaseFenceFd := -1\<rparr>) ls)
       \<lparr>lp_hw = clear_shadow hw, lp_calls = [], lp_dirty = False, lp_rect = (hw_width hw, hw_height hw, 0, 0)\<rparr> = Some lp"
    "lp_hw lp = hw\<lparr>shadow := sh\<rparr>" "hw_ok (hw\<lparr>shadow := sh\<rparr>)"
    "lp_dirty lp = (\<exists>l\<in>set ls. touches env hw l)"
    "\<forall>x y. in_panel (hw_width hw) (hw_height hw) x y \<longrightarrow>
       px (stride_bytes hw) sh x y = frame_pixel env hw ls x y \<and>
       (rect_in (lp_rect lp) x y \<or> frame_pixel env hw ls x y = 0xffff)"
proof -
  let ?ls = "map (\<lambda>l. l\<lparr>releaseFenceFd := -1\<rparr>) ls"
  let ?W = "hw_width hw" and ?H = "hw_height hw" and ?st = "stride_bytes hw"
  let ?lp = "\<lparr>lp_hw = clear_shadow hw, lp_calls = [], lp_dirty = False, lp_rect = (?W, ?H, 0, 0)\<rparr>"
  have white: "px ?st (shadow (clear_shadow hw)) x y = 0xffff" if "in_panel ?W ?H x y" for x y
    using fill_shadow(2) [OF ok that, of 255] by (simp add: clear_shadow_def mk16_def)
  have frame: "fold (\<lambda>l. paint_layer env (clear_shadow hw) l x y) ?ls 0xffff = frame_pixel env hw ls x y" for x y
    by (simp add: frame_pixel_def clear_shadow_def fold_map comp_def)
  have "hw_ok (lp_hw ?lp)" "layers_ok env (lp_hw ?lp) ?ls"
    using fill_shadow(1) [OF ok] ls by (auto simp: layers_ok_def clear_shadow_def)
  from layer_loop_pixels [OF this(1) lk this(2)]
  obtain lp sh where loop: "foldM (layer_step env) ?ls ?lp = Some lp"
    and raw: "lp_hw lp = (lp_hw ?lp)\<lparr>shadow := sh\<rparr>" "hw_ok (lp_hw lp)"
      "lp_dirty lp = (lp_dirty ?lp \<or> (\<exists>l\<in>set ?ls. touches env (lp_hw ?lp) l))"
      "\<forall>x y. in_panel (hw_width (lp_hw ?lp)) (hw_height (lp_hw ?lp)) x y \<longrightarrow>
         px (stride_bytes (lp_hw ?lp)) sh x y =
           fold (\<lambda>l. paint_layer env (lp_hw ?lp) l x y) ?ls (px (stride_bytes (lp_hw ?lp)) (shadow (lp_hw ?lp)) x y) \<and>
         (rect_in (lp_rect ?lp) x y \<longrightarrow> rect_in (lp_rect lp) x y) \<and>
         (rect_in (lp_rect lp) x y \<or> (\<forall>v. fold (\<lambda>l. paint_layer env (lp_hw ?lp) l x y) ?ls v = v))"
    by blast
  have geo: "hw_width (clear_shadow hw) = ?W" "hw_height (clear_shadow hw) = ?H" "stride_bytes (clear_shadow hw) = ?st"
    by (simp_all add: clear_shadow_def)
  show thesis
  proof (rule that [OF loop])
    show "lp_hw lp = hw\<lparr>shadow := sh\<rparr>" "hw_ok (hw\<lparr>shadow := sh\<rparr>)" "lp_dirty lp = (\<exists>l\<in>set ls. touches env hw l)"
      using raw(1-3) by (simp_all add: clear_shadow_def)
    show "\<forall>x y. in_panel ?W ?H x y \<longrightarrow> px ?st sh x y = frame_pixel env hw ls x y \<and>
        (rect_in (lp_rect lp) x y \<or> frame_pixel env hw ls x y = 0xffff)"
      using raw(4) white frame by (metis geo layer_loop.select_convs(1))
  qed
qed

lemma compose_primary_frame:
  assumes inv: "frame_inv s" and lk: "lock_ok (env_query env) (env_lock env)"
    and ls: "layers_ok env (hwc_dev s) (hwLayers d)" and nb: "\<not> blanked (hwc_dev s)"
  shows "\<exists>s' d'. compose_primary env from_set d s = Some (s', d') \<and> frame_inv s' \<and>
    hw_width (hwc_dev s') = hw_width (hwc_dev s) \<and> hw_height (hwc_dev s') = hw_height (hwc_dev s) \<and>
    stride_bytes (hwc_dev s') = stride_bytes (hwc_dev s) \<and>
    (\<forall>x y. in_panel (hw_width (hwc_dev s)) (hw_height (hwc_dev s)) x y \<longrightarrow>
       px (stride_bytes (hwc_dev s)) (shadow (hwc_dev s')) x y = frame_pixel env (hwc_dev s) (hwLayers d) x y) \<and>
    (if \<exists>l\<in>set (hwLayers d). touches env (hwc_dev s) l
     then shown (hwc_dev s') \<and>
       (if shown ((hwc_dev s)\<lparr>shadow := shadow (hwc_dev s')\<rparr>) then sent s' = sent s \<and> updates s' = updates s
        else updates s' = updates s + 1 \<and>
          (\<exists>u. sent s' = sent s @ [u] \<and> update_covers (hwc_dev s) (hwc_dev s') u \<and>
            upd_mode u = (if is_full s then UPDATE_MODE_FULL else UPDATE_MODE_PARTIAL)))
     else hwc_dev s' = (hwc_dev s)\<lparr>shadow := shadow (hwc_dev s')\<rparr> \<and> sent s' = sent s)"
proof -
  let ?hw = "hwc_dev s"
  let ?W = "hw_width ?hw" and ?H = "hw_height ?hw" and ?st = "stride_bytes ?hw"
  have ok: "hw_ok ?hw" using inv by (simp add: frame_inv_def Let_def)
  obtain lp sh where loop: "foldM (layer_step env) (map (\<lambda>l. l\<lparr>releaseFenceFd := -1\<rparr>) (hwLayers d))
        \<lparr>lp_hw = clear_shadow ?hw, lp_calls = [], lp_dirty = False, lp_rect = (?W, ?H, 0, 0)\<rparr> = Some lp"
    and hw': "lp_hw lp = ?hw\<lparr>shadow := sh\<rparr>" "hw_ok (?hw\<lparr>shadow := sh\<rparr>)"
    and dirty: "lp_dirty lp = (\<exists>l\<in>set (hwLayers d). touches env ?hw l)"
    and img: "\<forall>x y. in_panel ?W ?H x y \<longrightarrow> px ?st sh x y = frame_pixel env ?hw (hwLayers d) x y \<and>
       (rect_in (lp_rect lp) x y \<or> frame_pixel env ?hw (hwLayers d) x y = 0xffff)"
    by (rule layers_drawn [OF ok lk ls])
  let ?s1 = "s\<lparr>hwc_dev := ?hw\<lparr>shadow := sh\<rparr>, gr_calls := gr_calls s @ lp_calls lp\<rparr>"
  have inv1: "frame_inv ?s1" and full: "is_full ?s1 = is_full s"
    using inv hw' by (auto simp: frame_inv_def is_full_def Let_def)
  have s1: "hwc_dev ?s1 = ?hw\<lparr>shadow := sh\<rparr>" "sent ?s1 = sent s" "updates ?s1 = updates s" by simp_all
  have uc: "update_covers (?hw\<lparr>shadow := sh\<rparr>) = update_covers ?hw" by (simp add: fun_eq_iff update_covers_def)
  have blank: "\<forall>x y. in_panel (hw_width (hwc_dev ?s1)) (hw_height (hwc_dev ?s1)) x y \<longrightarrow> \<not> rect_in (lp_rect lp) x y \<longrightarrow>
      px (stride_bytes (hwc_dev ?s1)) (shadow (hwc_dev ?s1)) x y = 0xffff" using img by auto
  show ?thesis
  proof (cases "\<exists>l\<in>set (hwLayers d). touches env ?hw l")
    case True
    obtain s' seen fb where p: "present_frame env (lp_rect lp) ?s1 = Some s'" "frame_inv s'" "shown (hwc_dev s')"
      "hwc_dev s' = (hwc_dev ?s1)\<lparr>force_full := False, panel := seen, fb_mem := fb\<rparr>"
      "if shown (hwc_dev ?s1) then sent s' = sent ?s1 \<and> updates s' = updates ?s1
       else updates s' = updates ?s1 + 1 \<and>
         (\<exists>u. sent s' = sent ?s1 @ [u] \<and> update_covers (hwc_dev ?s1) (hwc_dev s') u \<and>
           upd_mode u = (if is_full ?s1 then UPDATE_MODE_FULL else UPDATE_MODE_PARTIAL))"
      using present_frame_shows [OF inv1 blank, of env] by (elim exE conjE) (rule that)
    from p(5) have "if shown (?hw\<lparr>shadow := sh\<rparr>) then sent s' = sent s \<and> updates s' = updates s
       else updates s' = updates s + 1 \<and>
         (\<exists>u. sent s' = sent s @ [u] \<and> update_covers ?hw (hwc_dev s') u \<and>
           upd_mode u = (if is_full s then UPDATE_MODE_FULL else UPDATE_MODE_PARTIAL))"
      unfolding s1 full uc .
    note upd = this
    have sh: "shadow (hwc_dev s') = sh" and geo: "hw_width (hwc_dev s') = ?W" "hw_height (hwc_dev s') = ?H"
        "stride_bytes (hwc_dev s') = ?st" using p(4) by simp_all
    obtain d' where "compose_primary env from_set d s = Some (s', d')"
      using True nb loop hw'(1) dirty p(1) by (simp add: compose_primary_def Let_def)
    then show ?thesis unfolding if_P [OF True]
      using img p(2,3) geo upd unfolding sh [symmetric] by (intro exI [of _ s'] exI [of _ d'] conjI) simp_all
  next
    case False
    obtain d' where "compose_primary env from_set d s = Some (?s1, d')"
      using False nb loop hw'(1) dirty by (simp add: compose_primary_def Let_def)
    then show ?thesis unfolding if_not_P [OF False]
      using inv1 img by (intro exI [of _ ?s1] exI [of _ d'] conjI) simp_all
  qed
qed

lemma compose_secondary:
  "compose_displays env from_set (Suc i) ds s = Some (s, map (map_option (\<lambda>d. d\<lparr>retireFenceFd := -1\<rparr>)) ds)"
proof (induction ds arbitrary: i)
  case (Cons d ds)
  then show ?case by (cases d) auto
qed simp

text \<open>The counters at the start of \<open>hwc_compose\<close>.\<close>

definition count_call :: "bool \<Rightarrow> hwc_state \<Rightarrow> hwc_state" where
  "count_call from_set s =
     (if from_set then s\<lparr>g_set_count := g_set_count s + 1\<rparr>
      else s\<lparr>g_prepare_composites := g_prepare_composites s + 1\<rparr>)"

lemma count_call_frame [simp]:
  "hwc_dev (count_call b s) = hwc_dev s" "sent (count_call b s) = sent s" "updates (count_call b s) = updates s"
  "frame_inv (count_call b s) = frame_inv s" "is_full (count_call b s) = is_full s"
  "gr_calls (count_call b s) = gr_calls s" "g_fence_src (count_call b s) = g_fence_src s"
  "prev_rect (count_call b s) = prev_rect s"
  by (auto simp: count_call_def frame_inv_def is_full_def Let_def)

lemma hwc_compose_primary:
  "hwc_compose env from_set (Some d # ds) s =
     do { (s', d') \<leftarrow> compose_primary env from_set d (count_call from_set s);
          Some (s', Some d' # map (map_option (\<lambda>d. d\<lparr>retireFenceFd := -1\<rparr>)) ds, 0) }"
  by (cases "compose_primary env from_set d (count_call from_set s)")
    (auto simp: hwc_compose_def compose_secondary count_call_def)

section \<open>Witness data\<close>

definition demo_state :: hwc_state where
  "demo_state = \<lparr>hwc_dev = demo_hw, g_prepare_count = 0, g_set_count = 0, g_frames_composed = 0,
     g_updates_sent = 0, g_frames_identical = 0, g_vsync_events = 0, g_eventcontrol_count = 0, g_nudges = 0,
     g_blank_count = 0, g_prepare_composites = 0, g_last_blank = 0, g_last_prepare_layers = 0,
     g_last_change_us = 0, g_last_set_us = 0, g_fence_src = 5, updates = 0, prev_rect = (0, 0, 0, 0),
     sent = [], gr_calls = []\<rparr>"

definition demo_display :: display where
  "demo_display = \<lparr>hwLayers = [demo_layer], retireFenceFd = 11\<rparr>"

definition demo_env :: compose_env where
  "demo_env = \<lparr>env_query = demo_query, env_lock = demo_lock, t_set = 1000, t_upd = 1001, dup_fd = 21\<rparr>"

lemma demo_frame_ok:
  "frame_inv demo_state" "lock_ok (env_query demo_env) (env_lock demo_env)"
  "layers_ok demo_env (hwc_dev demo_state) (hwLayers demo_display)" "\<not> blanked (hwc_dev demo_state)"
  "touches demo_env (hwc_dev demo_state) demo_layer"
proof -
  show "frame_inv demo_state"
    using demo_ok(1) by (simp add: frame_inv_def demo_state_def demo_hw_def rect_inside_def EINK_FULL_UPDATE_EVERY_def)
  show "lock_ok (env_query demo_env) (env_lock demo_env)" using demo_ok(2) by (simp add: demo_env_def)
  show "layers_ok demo_env (hwc_dev demo_state) (hwLayers demo_display)"
    by (auto simp: layers_ok_def demo_display_def demo_layer_def fits_frame_def blank_565_def)
  show "\<not> blanked (hwc_dev demo_state)" by (simp add: demo_state_def demo_hw_def)
  show "touches demo_env (hwc_dev demo_state) demo_layer"
    by (simp add: touches_def drawable_def demo_env_def demo_state_def demo_hw_def demo_layer_def demo_query_def
        demo_lock_def)
qed

section \<open>Properties\<close>

text \<open>
  C1. A frame reaches the panel: when the display is not blanked, some layer is
  drawn, and no composed layer is larger than its frame or a 16-bit layer
  without a visible column (\<open>layers_ok\<close>), the framebuffer holds the
  reference image of the whole layer list afterwards, on every pixel, although
  only the dirty rectangle was compared and copied. Composing never fails then,
  and the invariant the partial updates rest on is kept. For a layer larger
  than its frame this is false (\<open>scaled_layer_partly_shown\<close>), and a
  16-bit layer without a visible column faults (\<open>offscreen_565_layer_faults\<close>).
\<close>

theorem frame_reaches_panel:
  assumes "frame_inv s" and "lock_ok (env_query env) (env_lock env)"
    and "layers_ok env (hwc_dev s) (hwLayers d)" and "\<not> blanked (hwc_dev s)"
    and t: "l \<in> set (hwLayers d)" "touches env (hwc_dev s) l"
  shows "\<exists>s' ds'. hwc_compose env from_set (Some d # ds) s = Some (s', ds', 0) \<and> frame_inv s' \<and>
    (\<forall>x y. in_panel (hw_width (hwc_dev s)) (hw_height (hwc_dev s)) x y \<longrightarrow>
       px (stride_bytes (hwc_dev s)) (fb_mem (hwc_dev s')) x y = frame_pixel env (hwc_dev s) (hwLayers d) x y)"
proof -
  have "\<exists>l\<in>set (hwLayers d). touches env (hwc_dev s) l" using t by blast
  then obtain s' d' where "compose_primary env from_set d (count_call from_set s) = Some (s', d')" "frame_inv s'"
      "shown (hwc_dev s')" "hw_width (hwc_dev s') = hw_width (hwc_dev s)" "hw_height (hwc_dev s') = hw_height (hwc_dev s)"
      "stride_bytes (hwc_dev s') = stride_bytes (hwc_dev s)"
      "\<forall>x y. in_panel (hw_width (hwc_dev s)) (hw_height (hwc_dev s)) x y \<longrightarrow>
         px (stride_bytes (hwc_dev s)) (shadow (hwc_dev s')) x y = frame_pixel env (hwc_dev s) (hwLayers d) x y"
    using compose_primary_frame [of "count_call from_set s" env d from_set, unfolded count_call_frame] assms(1-4) by auto
  then show ?thesis by (simp add: hwc_compose_primary shown_def)
qed

theorem frame_reaches_panel_witness:
  "\<exists>s' ds'. hwc_compose demo_env True [Some demo_display] demo_state = Some (s', ds', 0) \<and>
     px 4 (fb_mem (hwc_dev s')) 1 1 = frame_pixel demo_env demo_hw [demo_layer] 1 1"
  using frame_reaches_panel [OF demo_frame_ok(1-4) _ demo_frame_ok(5), where from_set = True and ds = "[]"]
  by (auto simp: demo_display_def demo_state_def demo_hw_def in_panel_def)



text \<open>
  While the display is blanked nothing is drawn or sent: the device, the
  update log and the gralloc calls stay as they are; the fences are still given
  out.
\<close>

theorem blanked_frame_idle:
  assumes "blanked (hwc_dev s)"
  shows "\<exists>s' d' ds'. hwc_compose env from_set (Some d # ds) s = Some (s', Some d' # ds', 0) \<and>
    hwc_dev s' = hwc_dev s \<and> sent s' = sent s \<and> gr_calls s' = gr_calls s \<and> prev_rect s' = prev_rect s \<and>
    (\<forall>l\<in>set (hwLayers d'). releaseFenceFd l = -1) \<and>
    retireFenceFd d' =
      (if from_set then if g_fence_src s \<ge> 0 then dup_fd env else -1 else retireFenceFd d)"
  using assms by (auto simp: hwc_compose_primary compose_primary_def Let_def)

theorem blanked_frame_idle_witness:
  "\<exists>s' d' ds'. hwc_compose demo_env True [Some demo_display]
       (demo_state\<lparr>hwc_dev := demo_hw\<lparr>blanked := True\<rparr>\<rparr>) = Some (s', Some d' # ds', 0) \<and>
     sent s' = [] \<and> retireFenceFd d' = 21"
  using blanked_frame_idle [of "demo_state\<lparr>hwc_dev := demo_hw\<lparr>blanked := True\<rparr>\<rparr>" demo_env True demo_display "[]"]
  by (auto simp: demo_state_def demo_env_def)

text \<open>
  Only \<open>set\<close> hands out a retire fence. Whatever \<open>prepare\<close>
  does, also when it composes because \<open>set\<close> has gone missing, the retire
  fence of the primary display stays what it was, so no descriptor leaks;
  \<open>set\<close> gives a duplicate of the fence source, or -1 without one.
\<close>

theorem retire_fence_only_from_set:
  "(hwc_prepare env now (Some d # ds) s = Some (s', Some d' # ds', rc) \<longrightarrow> retireFenceFd d' = retireFenceFd d) \<and>
   (hwc_set env (Some d # ds) s = Some (s', Some d' # ds', rc) \<longrightarrow>
      retireFenceFd d' = (if g_fence_src s \<ge> 0 then dup_fd env else -1))"
  by (auto simp: hwc_prepare_def hwc_set_def hwc_compose_primary compose_primary_def claim_display_def Let_def
      bind_eq_Some_conv split: if_splits)

theorem retire_fence_only_from_set_witness:
  "hwc_prepare demo_env 400000 [Some demo_display] demo_state =
     Some (demo_state\<lparr>g_last_prepare_layers := 1, g_prepare_count := 1\<rparr>,
       [Some (demo_display\<lparr>hwLayers := [claim_layer demo_layer]\<rparr>)], 0) \<and>
   retireFenceFd (demo_display\<lparr>hwLayers := [claim_layer demo_layer]\<rparr>) = 11"
proof -
  have "hwc_prepare demo_env 400000 [Some demo_display] demo_state =
     Some (demo_state\<lparr>g_last_prepare_layers := 1, g_prepare_count := 1\<rparr>,
       [Some (demo_display\<lparr>hwLayers := [claim_layer demo_layer]\<rparr>)], 0)"
    by (simp add: hwc_prepare_def demo_state_def demo_display_def claim_display_def)
  then show ?thesis
    using retire_fence_only_from_set [of demo_env 400000 demo_display "[]" demo_state]
    by (auto simp: demo_display_def)
qed

definition scaled_layer :: hwc_layer where
  "scaled_layer = demo_layer\<lparr>l_transform := XF_NONE, l_blending := BLENDING_NONE,
     displayFrame := \<lparr>rleft = 0, rtop = 0, rright = 1, rbottom = 1\<rparr>\<rparr>"

definition white_state :: hwc_state where
  "white_state = demo_state\<lparr>hwc_dev := demo_hw\<lparr>fb_mem := replicate 8 255, panel := replicate 8 255\<rparr>, updates := 1\<rparr>"

text \<open>
  The hypothesis of the frame theorem that no crop is larger than its frame is
  needed: a layer whose crop is larger than its frame is drawn
  unscaled, beyond the frame, but only the frame enters the dirty rectangle. On
  a 2x2 panel the pixel beside the frame is black in the shadow and stays white
  on the panel.
\<close>

theorem scaled_layer_partly_shown:
  "map_option (\<lambda>(s, _, _). (px 4 (shadow (hwc_dev s)) 1 0, px 4 (fb_mem (hwc_dev s)) 1 0))
     (hwc_compose demo_env True [Some (demo_display\<lparr>hwLayers := [scaled_layer]\<rparr>)] white_state) = Some (0, 0xffff)"
  by code_simp

end
