(* ===== verification/HwDevice.thy ===== *)
theory HwDevice
  imports FrameProps
begin

text \<open>
  The device side of the e-ink compositor
  (\<open>gralloc_eink/src/hwcomposer_eink.c\<close>): opening and closing the
  device with the resources it holds, the small hooks SurfaceFlinger calls, the
  vsync thread, and the system made of all of them as a step relation. The
  frame invariant of \<open>FrameProps\<close> holds in every reachable state.
\<close>

section \<open>Hooks\<close>

datatype hwc_event = HWC_EVENT_VSYNC | HWC_EVENT_OTHER int

definition hwc_eventControl :: "hwc_event \<Rightarrow> int \<Rightarrow> hwc_state \<Rightarrow> hwc_state \<times> int" where
  "hwc_eventControl event enabled s =
     (if event \<noteq> HWC_EVENT_VSYNC then (s, - EINVAL)
      else
        (let hw = (hwc_dev s)\<lparr>vsync_enabled := enabled\<rparr>;
             hw = (if enabled \<noteq> 0 then hw\<lparr>vsync_requested := True\<rparr> else hw)
         in (s\<lparr>hwc_dev := hw, g_eventcontrol_count := g_eventcontrol_count s + 1\<rparr>, 0)))"

text \<open>\<open>HWC_DISPLAY_PRIMARY\<close> is display 0.\<close>

definition hwc_blank :: "int \<Rightarrow> int \<Rightarrow> hwc_state \<Rightarrow> hwc_state \<times> int" where
  "hwc_blank disp blank s =
     (if disp = 0
      then
        (let hw = (hwc_dev s)\<lparr>blanked := (blank \<noteq> 0)\<rparr>;
             hw = (if blank = 0 then hw\<lparr>force_full := True\<rparr> else hw)
         in (s\<lparr>g_blank_count := g_blank_count s + 1, g_last_blank := blank, hwc_dev := hw\<rparr>, 0))
      else (s, 0))"

datatype query_what = HWC_BACKGROUND_LAYER_SUPPORTED | HWC_VSYNC_PERIOD | HWC_QUERY_OTHER int

text \<open>The value written through \<open>*value\<close>, if any, and the status.\<close>

fun hwc_query :: "query_what \<Rightarrow> int option \<times> int" where
  "hwc_query HWC_BACKGROUND_LAYER_SUPPORTED = (Some 1, 0)"
| "hwc_query HWC_VSYNC_PERIOD = (Some 1000000000, 0)"
| "hwc_query (HWC_QUERY_OTHER _) = (None, - EINVAL)"

definition hwc_registerProcs :: "hwc_procs option \<Rightarrow> hwc_state \<Rightarrow> hwc_state" where
  "hwc_registerProcs p s = s\<lparr>hwc_dev := (hwc_dev s)\<lparr>procs := p\<rparr>\<rparr>"

text \<open>\<open>configs\<close> is the caller's array, \<open>num\<close> its \<open>*numConfigs\<close>.\<close>

definition hwc_getDisplayConfigs :: "int \<Rightarrow> u32 list \<Rightarrow> size_t \<Rightarrow> (u32 list \<times> size_t \<times> int) option" where
  "hwc_getDisplayConfigs disp configs num =
     (if disp \<noteq> 0 then Some (configs, num, - EINVAL)
      else if num = 0 then Some (configs, num, 0)
      else if configs = [] then None
      else Some (configs[0 := 0], 1, 0))"

datatype attribute =
    HWC_DISPLAY_NO_ATTRIBUTE | HWC_DISPLAY_VSYNC_PERIOD | HWC_DISPLAY_WIDTH | HWC_DISPLAY_HEIGHT
  | HWC_DISPLAY_DPI_X | HWC_DISPLAY_DPI_Y | HWC_DISPLAY_OTHER u32

definition EINK_VSYNC_PERIOD_NS :: int where "EINK_VSYNC_PERIOD_NS = 100000000"

fun attribute_value :: "eink_hwc \<Rightarrow> attribute \<Rightarrow> int" where
  "attribute_value hw HWC_DISPLAY_VSYNC_PERIOD = EINK_VSYNC_PERIOD_NS"
| "attribute_value hw HWC_DISPLAY_WIDTH = hw_width hw"
| "attribute_value hw HWC_DISPLAY_HEIGHT = hw_height hw"
| "attribute_value hw HWC_DISPLAY_DPI_X = 212000"
| "attribute_value hw HWC_DISPLAY_DPI_Y = 212000"
| "attribute_value hw _ = 0"

text \<open>The loop ends at the terminator; without one it runs off the array.\<close>

fun attribute_loop :: "eink_hwc \<Rightarrow> attribute list \<Rightarrow> int list \<Rightarrow> int list option" where
  "attribute_loop hw [] values = None"
| "attribute_loop hw (HWC_DISPLAY_NO_ATTRIBUTE # as) values = Some values"
| "attribute_loop hw (a # as) [] = None"
| "attribute_loop hw (a # as) (v # vs) = do { r \<leftarrow> attribute_loop hw as vs; Some (attribute_value hw a # r) }"

definition hwc_getDisplayAttributes ::
    "eink_hwc \<Rightarrow> int \<Rightarrow> attribute list \<Rightarrow> int list \<Rightarrow> (int list \<times> int) option" where
  "hwc_getDisplayAttributes hw disp attributes values =
     (if disp \<noteq> 0 then Some (values, - EINVAL)
      else do { r \<leftarrow> attribute_loop hw attributes values; Some (r, 0) })"

section \<open>The vsync thread\<close>

definition EINK_NUDGE_IDLE_US :: u32 where "EINK_NUDGE_IDLE_US = 3000000"
definition EINK_NUDGE_QUIET_US :: u32 where "EINK_NUDGE_QUIET_US = 200000"

datatype callback = CbVsync int | CbInvalidate

text \<open>
  One turn of the loop: the time stamp of the event and the reading of
  \<open>now_us()\<close> are inputs, the callbacks made the output. The counters
  \<open>tick\<close>, \<open>loops\<close> and \<open>logged_wait\<close> only steer log
  lines and are left out.
\<close>

definition vsync_tick :: "int \<Rightarrow> u32 \<Rightarrow> hwc_state \<Rightarrow> hwc_state \<times> callback list" where
  "vsync_tick now_ns nowu s =
     (let (s1, cb) =
        (case procs (hwc_dev s) of
           Some p \<Rightarrow>
             if has_vsync p
             then (s\<lparr>hwc_dev := (hwc_dev s)\<lparr>vsync_requested := False\<rparr>,
                     g_vsync_events := g_vsync_events s + 1\<rparr>, [CbVsync now_ns])
             else (s, [])
         | None \<Rightarrow> (s, []));
        hw = hwc_dev s1
      in if \<not> blanked hw \<and> (case procs hw of Some p \<Rightarrow> has_invalidate p | None \<Rightarrow> False) \<and> g_last_change_us s1 \<noteq> 0 \<and>
            nowu - g_last_change_us s1 < EINK_NUDGE_IDLE_US \<and> nowu - g_last_set_us s1 > EINK_NUDGE_QUIET_US
         then (s1\<lparr>g_nudges := g_nudges s1 + 1\<rparr>, cb @ [CbInvalidate])
         else (s1, cb))"

text \<open>The loop over a sequence of turns, until \<open>stop_vsync\<close> is set.\<close>

fun vsync_thread_main :: "(int \<times> u32) list \<Rightarrow> hwc_state \<Rightarrow> hwc_state \<times> callback list" where
  "vsync_thread_main [] s = (s, [])"
| "vsync_thread_main ((ns, us) # ts) s =
     (if stop_vsync (hwc_dev s) then (s, [])
      else (let (s1, cb) = vsync_tick ns us s; (s2, cbs) = vsync_thread_main ts s1 in (s2, cb @ cbs)))"

section \<open>Opening and closing\<close>

text \<open>The resources of the device, with a log of acquiring and releasing them.\<close>

datatype hwc_res = ResHw | ResFbFd | ResFbMap | ResShadow | ResPanel | ResVsyncThread
datatype res_op = Acquire hwc_res | Release hwc_res

record hwc_open_env =
  oe_malloc :: bool
  oe_fb_open :: int
  oe_vinfo :: "(u32 \<times> u32 \<times> u32) option"
  oe_line_length :: "u32 option"
  oe_mmap :: "size_t \<Rightarrow> bytes option"
  oe_shadow :: "size_t \<Rightarrow> bytes option"
  oe_panel :: "size_t \<Rightarrow> bytes option"
  oe_gralloc :: "(bool \<times> bool) option"
  oe_sw_sync :: int
  oe_null :: int

text \<open>
  \<open>vinfo\<close> is \<open>(xres, yres, bits_per_pixel)\<close>. The successful tail of
  the function: the panel copy starts as the framebuffer's contents.
\<close>

definition opened_hwc ::
    "hwc_open_env \<Rightarrow> u32 \<Rightarrow> u32 \<Rightarrow> u32 \<Rightarrow> u32 \<Rightarrow> bytes \<Rightarrow> bytes \<Rightarrow> bytes \<Rightarrow> eink_hwc" where
  "opened_hwc e xres yres bits line fbm sh pan =
     \<lparr>gralloc_bound = (case oe_gralloc e of Some (g, _) \<Rightarrow> g | None \<Rightarrow> False),
      query_bound = (case oe_gralloc e of Some (_, q) \<Rightarrow> q | None \<Rightarrow> False),
      fb_fd = oe_fb_open e, fb_mem = fbm, shadow = sh, panel = pan, fb_size = line * yres,
      hw_width = sint xres, hw_height = sint yres, hw_fb_width = sint xres, hw_fb_height = sint yres,
      stride_bytes = sint line, bpp = uint (bits div 8), procs = None, vsync_enabled = 0,
      vsync_requested = False, blanked = False, force_full = False, stop_vsync = False\<rparr>"

text \<open>
  The error path for the two buffers, as written: the shadow is freed once, the
  panel copy twice; \<open>free(NULL)\<close> does nothing.
\<close>

definition free_buffers :: "bytes option \<Rightarrow> bytes option \<Rightarrow> res_op list" where
  "free_buffers sh pan =
     (if sh \<noteq> None then [Release ResShadow] else []) @ (if pan \<noteq> None then [Release ResPanel] else []) @
     (if pan \<noteq> None then [Release ResPanel] else [])"

text \<open>\<open>composer\<close> stands for the platform header's \<open>HWC_HARDWARE_COMPOSER\<close>.\<close>

definition hwc_device_open ::
    "string \<Rightarrow> hwc_open_env \<Rightarrow> string \<Rightarrow> hwc_state \<Rightarrow> (hwc_state \<times> res_op list \<times> int) option" where
  "hwc_device_open composer e name s =
     (if name \<noteq> composer then Some (s, [], - EINVAL)
      else if \<not> oe_malloc e then Some (s, [], - ENOMEM)
      else if oe_fb_open e < 0 then Some (s, [Acquire ResHw, Release ResHw], - ENODEV)
      else case (oe_vinfo e, oe_line_length e) of
        (Some (xres, yres, bits), Some line) \<Rightarrow>
          (let size = line * yres; acq = [Acquire ResHw, Acquire ResFbFd] in
           case oe_mmap e size of
             None \<Rightarrow> Some (s, acq @ [Release ResFbFd, Release ResHw], - ENODEV)
           | Some fbm \<Rightarrow>
               (let sh = oe_shadow e size; pan = oe_panel e size;
                    acq = acq @ [Acquire ResFbMap] @ (if sh \<noteq> None then [Acquire ResShadow] else []) @
                          (if pan \<noteq> None then [Acquire ResPanel] else [])
                in case (sh, pan) of
                  (Some shb, Some panb) \<Rightarrow>
                    do { panb' \<leftarrow> memcpy panb 0 fbm 0 (unat size);
                         let fence = (if oe_sw_sync e < 0 then oe_null e else oe_sw_sync e);
                         Some (s\<lparr>hwc_dev := opened_hwc e xres yres bits line fbm shb panb', g_fence_src := fence\<rparr>,
                               acq @ [Acquire ResVsyncThread], 0) }
                | _ \<Rightarrow> Some (s, acq @ free_buffers sh pan @ [Release ResFbMap, Release ResFbFd, Release ResHw], - ENOMEM)))
      | _ \<Rightarrow> Some (s, [Acquire ResHw, Acquire ResFbFd, Release ResFbFd, Release ResHw], - ENODEV))"

text \<open>\<open>hwc_close\<close> of an opened device: its mapping and buffers are there.\<close>

definition hwc_close :: "hwc_state \<Rightarrow> hwc_state \<times> res_op list \<times> int" where
  "hwc_close s =
     (s\<lparr>hwc_dev := (hwc_dev s)\<lparr>stop_vsync := True\<rparr>\<rparr>,
      [Release ResVsyncThread, Release ResFbMap, Release ResShadow, Release ResPanel] @
      (if fb_fd (hwc_dev s) \<ge> 0 then [Release ResFbFd] else []) @ [Release ResHw], 0)"

section \<open>The system\<close>

text \<open>
  SurfaceFlinger's threads and the vsync thread call the hooks in any order.
  What the compositor relies on of a call of \<open>set\<close> or
  \<open>prepare\<close>: buffers that can be locked are as large as their geometry
  says, and no composed layer is larger than its frame or a 16-bit layer
  without a visible column (\<open>layers_ok\<close>).
\<close>

definition call_ok :: "compose_env \<Rightarrow> display option list \<Rightarrow> hwc_state \<Rightarrow> bool" where
  "call_ok env ds s \<longleftrightarrow>
     lock_ok (env_query env) (env_lock env) \<and>
     (\<forall>d. Some d \<in> set ds \<longrightarrow> layers_ok env (hwc_dev s) (hwLayers d))"

inductive hwc_step :: "hwc_state \<Rightarrow> hwc_state \<Rightarrow> bool" where
  step_set: "call_ok env ds s \<Longrightarrow> hwc_set env ds s = Some (s', ds', rc) \<Longrightarrow> hwc_step s s'"
| step_prepare: "call_ok env ds s \<Longrightarrow> hwc_prepare env now ds s = Some (s', ds', rc) \<Longrightarrow> hwc_step s s'"
| step_blank: "hwc_blank disp b s = (s', rc) \<Longrightarrow> hwc_step s s'"
| step_eventControl: "hwc_eventControl ev en s = (s', rc) \<Longrightarrow> hwc_step s s'"
| step_registerProcs: "hwc_registerProcs p s = s' \<Longrightarrow> hwc_step s s'"
| step_vsync: "vsync_tick ns us s = (s', cb) \<Longrightarrow> hwc_step s s'"

text \<open>States reached from the first open in the process.\<close>

inductive hwc_reachable :: "string \<Rightarrow> hwc_open_env \<Rightarrow> hwc_state \<Rightarrow> hwc_state \<Rightarrow> bool" for composer e s0 where
  reach_open: "hwc_device_open composer e name s0 = Some (s, log, 0) \<Longrightarrow> hwc_reachable composer e s0 s"
| reach_step: "hwc_reachable composer e s0 s \<Longrightarrow> hwc_step s s' \<Longrightarrow> hwc_reachable composer e s0 s'"

inductive_cases hwc_stepE: "hwc_step s s'"

section \<open>Lemmas\<close>

lemma claim_layer_geometry [simp]:
  "fits_frame (claim_layer l) = fits_frame l" "blank_565 W H (claim_layer l) geo = blank_565 W H l geo"
  "l_handle (claim_layer l) = l_handle l"
  "compositionType (claim_layer l) \<in> {HWC_FRAMEBUFFER_TARGET, HWC_BACKGROUND} \<longleftrightarrow>
     compositionType l \<in> {HWC_FRAMEBUFFER_TARGET, HWC_BACKGROUND}"
  by (auto simp: claim_layer_def fits_frame_def blank_565_def clip_cols_def clip_rows_def Let_def)

lemma layers_ok_claim: "layers_ok env hw (map claim_layer ls) = layers_ok env hw ls"
  unfolding layers_ok_def by (simp only: ball_simps set_map claim_layer_geometry)

lemma call_ok_claim: "call_ok env ds s \<Longrightarrow> call_ok env (map claim_display ds) s"
  by (auto simp: call_ok_def claim_display_def layers_ok_claim map_option_case split: option.splits)

text \<open>A composing call never fails and keeps the invariant.\<close>

lemma hwc_compose_inv:
  assumes inv: "frame_inv s" and ok: "call_ok env ds s"
  shows "\<exists>s' ds'. hwc_compose env from_set ds s = Some (s', ds', 0) \<and> frame_inv s'"
proof (cases ds)
  case Nil
  then show ?thesis using inv by (auto simp: hwc_compose_def frame_inv_def Let_def)
next
  case (Cons d0 rest)
  show ?thesis
  proof (cases d0)
    case None
    then show ?thesis using Cons inv by (auto simp: hwc_compose_def compose_secondary frame_inv_def Let_def)
  next
    case (Some d)
    show ?thesis
    proof (cases "blanked (hwc_dev s)")
      case True
      then show ?thesis using Cons Some inv
        by (auto simp: hwc_compose_primary compose_primary_def Let_def)
    next
      case False
      have "lock_ok (env_query env) (env_lock env)" "layers_ok env (hwc_dev s) (hwLayers d)"
        using ok Cons Some by (auto simp: call_ok_def)
      then obtain s' d' where "compose_primary env from_set d (count_call from_set s) = Some (s', d')" "frame_inv s'"
        using compose_primary_frame [of "count_call from_set s" env d from_set, unfolded count_call_frame] inv False
        by blast
      then show ?thesis using Cons Some by (simp add: hwc_compose_primary)
    qed
  qed
qed

lemma hwc_prepare_inv:
  assumes inv: "frame_inv s" and ok: "call_ok env ds s"
  shows "\<exists>s' ds'. hwc_prepare env now ds s = Some (s', ds', 0) \<and> frame_inv s'"
proof -
  let ?s1 = "s\<lparr>g_last_prepare_layers := (case ds of Some d # _ \<Rightarrow> int (length (hwLayers d)) | _ \<Rightarrow> -1),
                 g_prepare_count := g_prepare_count s + 1\<rparr>"
  have inv1: "frame_inv ?s1" using inv by (simp add: frame_inv_def Let_def)
  moreover have "call_ok env (map claim_display ds) ?s1" using call_ok_claim [OF ok] by (simp add: call_ok_def)
  ultimately obtain s' ds' where "hwc_compose env False (map claim_display ds) ?s1 = Some (s', ds', 0)" "frame_inv s'"
    using hwc_compose_inv by blast
  then show ?thesis using inv1 by (simp add: hwc_prepare_def Let_def)
qed

lemma hooks_keep_inv:
  assumes inv: "frame_inv s"
  shows "hwc_blank disp b s = (s', rc) \<Longrightarrow> frame_inv s'"
    and "hwc_eventControl ev en s = (s', rc) \<Longrightarrow> frame_inv s'"
    and "frame_inv (hwc_registerProcs p s)"
    and "vsync_tick ns us s = (s', cb) \<Longrightarrow> frame_inv s'"
  using inv
  by (auto simp: hwc_blank_def hwc_eventControl_def hwc_registerProcs_def vsync_tick_def frame_inv_def hw_ok_def
      Let_def split: if_splits option.splits)

lemma hwc_step_inv:
  assumes "hwc_step s s'" and inv: "frame_inv s"
  shows "frame_inv s'"
  using assms(1)
proof cases
  case (step_set env ds ds' rc)
  with hwc_compose_inv [OF inv, of env ds True] show ?thesis by (auto simp: hwc_set_def)
next
  case (step_prepare env ds now ds' rc)
  with hwc_prepare_inv [OF inv, of env ds now] show ?thesis by auto
qed (use hooks_keep_inv [OF inv] in \<open>auto simp del: split_paired_All\<close>)

text \<open>Sizes as the framebuffer driver reports them.\<close>

definition screen_ok :: "u32 \<Rightarrow> u32 \<Rightarrow> u32 \<Rightarrow> bool" where
  "screen_ok xres yres line \<longleftrightarrow>
     2 * uint xres \<le> uint line \<and> uint line < 2 ^ 31 \<and> uint yres < 2 ^ 31 \<and> uint line * uint yres < 2 ^ 32"

text \<open>\<open>mmap\<close> and \<open>malloc\<close> give objects of the requested size.\<close>

definition alloc_ok :: "hwc_open_env \<Rightarrow> bool" where
  "alloc_ok e \<longleftrightarrow>
     (\<forall>n b. (oe_mmap e n = Some b \<or> oe_shadow e n = Some b \<or> oe_panel e n = Some b) \<longrightarrow> length b = unat n)"

lemma sint_small: "uint w < 2 ^ 31 \<Longrightarrow> sint (w :: 32 word) = uint w"
  unfolding sint_uint by (rule signed_take_bit_int_eq_self) (auto intro: order_trans [of _ 0])

lemma memcpy_all: "length d = n \<Longrightarrow> length b = n \<Longrightarrow> memcpy d 0 b 0 n = Some b"
  by (simp add: memcpy_def)

lemma open_frame_inv:
  assumes scr: "oe_vinfo e = Some (xres, yres, bits)" "oe_line_length e = Some line" "screen_ok xres yres line"
    and al: "alloc_ok e" and fresh: "updates s = 0" "prev_rect s = (0, 0, 0, 0)"
    and opn: "hwc_device_open composer e name s = Some (s', log, 0)"
  shows "frame_inv s'"
proof -
  let ?n = "line * yres"
  obtain fbm shb panb panb' where b: "oe_mmap e ?n = Some fbm" "oe_shadow e ?n = Some shb" "oe_panel e ?n = Some panb"
      "memcpy panb 0 fbm 0 (unat ?n) = Some panb'"
    and s': "hwc_dev s' = opened_hwc e xres yres bits line fbm shb panb'" "updates s' = 0" "prev_rect s' = (0, 0, 0, 0)"
    using opn scr(1,2) fresh
    by (auto simp: hwc_device_open_def Let_def bind_eq_Some_conv split: if_splits option.splits)
  have len: "length fbm = unat ?n" "length shb = unat ?n" "length panb = unat ?n"
    using al b(1-3) by (auto simp: alloc_ok_def)
  then have pan: "panb' = fbm" using b(4) memcpy_all by (metis option.sel)
  have sz: "uint ?n = uint line * uint yres" using scr(3) by (simp add: screen_ok_def uint_word_ariths)
  have si: "sint line = uint line" "sint yres = uint yres" "sint xres = uint xres"
    using scr(3) sint_small by (auto simp: screen_ok_def)
  have "?n = of_int (uint line * uint yres)" by (metis sz word_of_int_uint of_int_uint)
  then show ?thesis
    using s' scr(3) len pan si
    by (simp add: frame_inv_def hw_ok_def panel_ok_def opened_hwc_def rect_inside_def screen_ok_def sz
        EINK_FULL_UPDATE_EVERY_def unat_eq_nat_uint Let_def)
qed

definition acquires :: "hwc_res \<Rightarrow> res_op list \<Rightarrow> nat" where
  "acquires r log = length (filter ((=) (Acquire r)) log)"

definition releases :: "hwc_res \<Rightarrow> res_op list \<Rightarrow> nat" where
  "releases r log = length (filter ((=) (Release r)) log)"

lemma vsync_tick_keeps:
  assumes "vsync_tick ns us s = (s', cb)"
  shows "procs (hwc_dev s') = procs (hwc_dev s)" "stop_vsync (hwc_dev s') = stop_vsync (hwc_dev s)"
    "g_last_change_us s' = g_last_change_us s" "g_last_set_us s' = g_last_set_us s"
  using assms by (auto simp: vsync_tick_def Let_def split: if_splits option.splits prod.splits)

lemma vsync_tick_vsyncs:
  assumes "vsync_tick ns us s = (s', cb)" and "procs (hwc_dev s) = Some p" and "has_vsync p"
  shows "filter (\<lambda>c. c \<noteq> CbInvalidate) cb = [CbVsync ns]"
  using assms by (auto simp: vsync_tick_def Let_def split: if_splits)

lemma vsync_tick_quiet:
  assumes "vsync_tick ns us s = (s', cb)" and "EINK_NUDGE_IDLE_US \<le> us - g_last_change_us s"
  shows "CbInvalidate \<notin> set cb"
  using assms by (auto simp: vsync_tick_def Let_def split: if_splits option.splits prod.splits)

lemma word_since:
  assumes "c + d \<le> t" and "t < c + 2 ^ 32" and "d < 2 ^ 32"
  shows "(of_nat d :: 32 word) \<le> of_nat t - of_nat c"
proof -
  have "(of_nat t - of_nat c :: 32 word) = of_nat (t - c)" using assms by simp
  moreover have "unat (of_nat (t - c) :: 32 word) = t - c" "unat (of_nat d :: 32 word) = d"
    using assms by (simp_all add: unat_of_nat del: of_nat_diff)
  ultimately show ?thesis using assms by (simp add: word_le_nat_alt del: of_nat_diff)
qed

section \<open>Properties\<close>

definition demo_open_env :: hwc_open_env where
  "demo_open_env = \<lparr>oe_malloc = True, oe_fb_open = 3, oe_vinfo = Some (2, 2, 16), oe_line_length = Some 4,
     oe_mmap = (\<lambda>n. Some (replicate (unat n) 0)), oe_shadow = (\<lambda>n. Some (replicate (unat n) 7)),
     oe_panel = (\<lambda>n. Some (replicate (unat n) 9)), oe_gralloc = Some (True, True),
     oe_sw_sync = -1, oe_null = 5\<rparr>"


lemma demo_open:
  "\<exists>s log. hwc_device_open ''composer'' demo_open_env ''composer'' demo_state = Some (s, log, 0)"
  by (simp add: hwc_device_open_def demo_open_env_def memcpy_def)


text \<open>
  C37. A failing open gives back what it took: on every error path each resource
  is released as often as it was acquired, with one exception the theorem spells
  out: when only the shadow buffer cannot be allocated, the panel copy is freed
  twice.
\<close>

theorem open_failure_releases:
  assumes "hwc_device_open composer e name s = Some (s', log, rc)" and "rc \<noteq> 0"
  shows "s' = s \<and> releases r log = acquires r log +
    (if r = ResPanel \<and> Acquire ResPanel \<in> set log then 1 else 0)"
  using assms
  by (auto simp: hwc_device_open_def free_buffers_def releases_def acquires_def Let_def bind_eq_Some_conv
      split: if_splits option.splits)

theorem open_failure_releases_witness:
  "\<exists>s' log rc. hwc_device_open ''composer'' (demo_open_env\<lparr>oe_shadow := \<lambda>_. None\<rparr>) ''composer'' demo_state = Some (s', log, rc) \<and>
     acquires ResPanel log = 1 \<and> releases ResPanel log = 2"
proof -
  let ?r = "hwc_device_open ''composer'' (demo_open_env\<lparr>oe_shadow := \<lambda>_. None\<rparr>) ''composer'' demo_state"
  let ?log = "[Acquire ResHw, Acquire ResFbFd, Acquire ResFbMap, Acquire ResPanel, Release ResPanel, Release ResPanel,
    Release ResFbMap, Release ResFbFd, Release ResHw]"
  have r: "?r = Some (demo_state, ?log, - ENOMEM)" by (simp add: hwc_device_open_def demo_open_env_def free_buffers_def)
  have "releases ResPanel ?log = acquires ResPanel ?log + 1" using open_failure_releases [OF r, of ResPanel] by simp
  then show ?thesis using r by (intro exI [of _ demo_state] exI [of _ ?log]) (simp add: acquires_def)
qed

text \<open>
  Opening and closing balance: after a successful open, \<open>hwc_close\<close>
  releases every resource exactly once and tells the vsync thread to stop.
\<close>

theorem open_close_balanced:
  assumes "hwc_device_open composer e name s = Some (s1, log, 0)" and "hwc_close s1 = (s2, log', rc)"
  shows "rc = 0 \<and> stop_vsync (hwc_dev s2) \<and> acquires r log = 1 \<and> releases r (log @ log') = 1"
  using assms
  by (cases r) (auto simp: hwc_device_open_def hwc_close_def opened_hwc_def releases_def acquires_def Let_def
      bind_eq_Some_conv split: if_splits option.splits)

theorem open_close_balanced_witness:
  "\<exists>s1 log s2 log' rc. hwc_device_open ''composer'' demo_open_env ''composer'' demo_state = Some (s1, log, 0) \<and>
     hwc_close s1 = (s2, log', rc) \<and> releases ResPanel (log @ log') = 1"
proof -
  obtain s1 log where o: "hwc_device_open ''composer'' demo_open_env ''composer'' demo_state = Some (s1, log, 0)"
    using demo_open by blast
  obtain s2 log' rc where c: "hwc_close s1 = (s2, log', rc)" by (metis prod_cases3)
  show ?thesis using open_close_balanced [OF o c, of ResPanel] o c by blast
qed



text \<open>
  A still screen is left alone: no turn of the vsync thread asks for a
  recomposition from three seconds after the last visible change on, as long as
  the 32-bit microsecond counter has not come round to the time of that change.
\<close>

theorem idle_screen_not_nudged:
  assumes "g_last_change_us s = of_nat c"
    and "\<forall>(ns, us)\<in>set ts. \<exists>t. us = of_nat t \<and> c + 3000000 \<le> t \<and> t < c + 2 ^ 32"
  shows "CbInvalidate \<notin> set (snd (vsync_thread_main ts s))"
  using assms
proof (induction ts arbitrary: s)
  case (Cons t ts)
  obtain ns us s1 cb where t: "t = (ns, us)" "vsync_tick ns us s = (s1, cb)" by (metis surj_pair)
  have "EINK_NUDGE_IDLE_US \<le> us - g_last_change_us s"
    using Cons.prems t(1) word_since [of c 3000000] by (auto simp: EINK_NUDGE_IDLE_US_def)
  then have "CbInvalidate \<notin> set cb" using vsync_tick_quiet [OF t(2)] by simp
  then show ?case
    using Cons.IH [of s1] Cons.prems vsync_tick_keeps [OF t(2)] by (auto simp: t split: prod.splits)
qed simp

theorem idle_screen_not_nudged_witness:
  "CbInvalidate \<notin> set (snd (vsync_thread_main [(1, 4000000)] (demo_state\<lparr>g_last_change_us := 5\<rparr>)))"
  by (rule idle_screen_not_nudged [of _ 5]) (auto intro: exI [of _ 4000000])

text \<open>
  Past that bound the promise that an idle device is not woken at all does
  not hold: 2^32 microseconds after the last change (about 71 minutes) the
  difference of the counters has wrapped to zero and the thread nudges again.
\<close>

theorem idle_screen_nudged_after_wrap:
  assumes "procs (hwc_dev s) = Some p" and "has_invalidate p" and "\<not> blanked (hwc_dev s)"
    and "g_last_change_us s = of_nat c" and "g_last_change_us s \<noteq> 0" and "g_last_set_us s = of_nat c"
    and "t = c + 2 ^ 32 + d" and "200000 < d" and "d < 3000000"
  shows "CbInvalidate \<in> set (snd (vsync_tick ns (of_nat t) s))"
proof -
  have "(of_nat t - of_nat c :: 32 word) = of_nat d" using assms(7) by simp
  moreover have "unat (of_nat d :: 32 word) = d" using assms(9) by (simp add: unat_of_nat)
  ultimately have "of_nat t - g_last_change_us s < EINK_NUDGE_IDLE_US" "EINK_NUDGE_QUIET_US < of_nat t - g_last_set_us s"
    using assms(4,6,8,9) by (auto simp: EINK_NUDGE_IDLE_US_def EINK_NUDGE_QUIET_US_def word_less_nat_alt)
  then show ?thesis using assms(1-3,5) by (auto simp: vsync_tick_def Let_def)
qed

theorem idle_screen_nudged_after_wrap_witness:
  "CbInvalidate \<in> set (snd (vsync_tick 0 (of_nat (7 + 2 ^ 32 + 1000000))
     (demo_state\<lparr>g_last_change_us := 7, g_last_set_us := 7,
        hwc_dev := demo_hw\<lparr>procs := Some \<lparr>has_invalidate = True, has_vsync = True\<rparr>\<rparr>\<rparr>)))"
  by (rule idle_screen_nudged_after_wrap [of _ _ 7 _ 1000000]) (auto simp: demo_hw_def)

end
