(* ===== verification/Logger.thy ===== *)
theory Logger
  imports Prelude
begin

text \<open>
  The kernel's log device (\<open>patches/kernel/logger.c\<close>,
  \<open>logger.h\<close>): four ring buffers of entries with any number of readers
  each. Every operation runs under the log's mutex, so it is one step on the
  log; \<open>logger_read\<close>, which drops the mutex to wait, takes what happens
  meanwhile as an argument.

  Offsets and sizes are \<open>nat\<close>: a log's size is an \<open>int\<close>, so
  offsets are below \<open>2 ^ 31\<close>, and a step adds at most
  \<open>24 + 65535\<close>, so \<open>size_t\<close> arithmetic does not wrap. A copy
  outside the ring is \<open>None\<close>.
\<close>

section \<open>Data\<close>

text \<open>
  \<open>struct logger_entry\<close>, 24 bytes. Signed fields are kept as their
  32-bit patterns.
\<close>

record logger_entry =
  en_len :: u16
  en_hdr_size :: u16
  en_pid :: u32
  en_tid :: u32
  en_sec :: u32
  en_nsec :: u32
  en_euid :: u32

definition hdr_len :: nat where "hdr_len = 24"
definition compat_len :: nat where "compat_len = 20"
definition LOGGER_ENTRY_MAX_PAYLOAD :: nat where "LOGGER_ENTRY_MAX_PAYLOAD = 4076"

text \<open>The bytes of the header in memory, and reading them back.\<close>

definition enc_header :: "logger_entry \<Rightarrow> bytes" where
  "enc_header e = le16 (en_len e) @ le16 (en_hdr_size e) @ le32 (en_pid e) @ le32 (en_tid e) @
     le32 (en_sec e) @ le32 (en_nsec e) @ le32 (en_euid e)"

definition word_at :: "bytes \<Rightarrow> nat \<Rightarrow> u32" where
  "word_at b i = mk32 (b ! i) (b ! (i + 1)) (b ! (i + 2)) (b ! (i + 3))"

definition dec_header :: "bytes \<Rightarrow> logger_entry" where
  "dec_header b = \<lparr>en_len = mk16 (b ! 0) (b ! 1), en_hdr_size = mk16 (b ! 2) (b ! 3),
     en_pid = word_at b 4, en_tid = word_at b 8, en_sec = word_at b 12, en_nsec = word_at b 16,
     en_euid = word_at b 20\<rparr>"

record logger_reader =
  r_id :: nat
  r_off :: nat
  r_all :: bool
  r_ver :: int

record logger_log =
  lg_buffer :: bytes
  lg_minor :: int
  lg_name :: string
  lg_readers :: "logger_reader list"
  w_off :: nat
  lg_head :: nat
  lg_size :: nat

section \<open>Reading the ring\<close>

definition logger_offset :: "logger_log \<Rightarrow> nat \<Rightarrow> nat" where
  "logger_offset log n = n AND (lg_size log - 1)"

text \<open>
  The pointer result of \<open>get_entry_header\<close> is only read, so the header
  itself is returned; a header that spans the end of the buffer is put together
  in a scratch copy.
\<close>

definition get_entry_header :: "logger_log \<Rightarrow> nat \<Rightarrow> logger_entry option" where
  "get_entry_header log off =
     (let len = min hdr_len (lg_size log - off) in
      if len \<noteq> hdr_len
      then do { s1 \<leftarrow> memcpy (replicate hdr_len 0) 0 (lg_buffer log) off len;
                s2 \<leftarrow> memcpy s1 len (lg_buffer log) 0 (hdr_len - len);
                Some (dec_header s2) }
      else do { s \<leftarrow> memcpy (replicate hdr_len 0) 0 (lg_buffer log) off hdr_len;
                Some (dec_header s) })"

definition get_entry_msg_len :: "logger_log \<Rightarrow> nat \<Rightarrow> nat option" where
  "get_entry_msg_len log off = do { e \<leftarrow> get_entry_header log off; Some (unat (en_len e)) }"

definition get_user_hdr_len :: "int \<Rightarrow> nat" where
  "get_user_hdr_len ver = (if ver < 2 then compat_len else hdr_len)"

text \<open>
  The header as the reader's ABI version has it. Copies to user space go to
  consecutive places of the reader's buffer: \<open>uok off n\<close> says whether
  \<open>n\<close> bytes at \<open>buf + off\<close> can be written.
\<close>

definition user_header :: "int \<Rightarrow> logger_entry \<Rightarrow> bytes" where
  "user_header ver e =
     (if ver < 2
      then le16 (en_len e) @ le16 0 @ le32 (en_pid e) @ le32 (en_tid e) @ le32 (en_sec e) @ le32 (en_nsec e)
      else enc_header e)"

definition copy_header_to_user :: "(nat \<Rightarrow> nat \<Rightarrow> bool) \<Rightarrow> int \<Rightarrow> logger_entry \<Rightarrow> bytes option" where
  "copy_header_to_user uok ver e =
     (let h = user_header ver e in if uok 0 (length h) then Some h else None)"

text \<open>
  Result of a read: the reader, the return value and the bytes delivered. The
  count is the user header's length plus the message's.
\<close>

definition do_read_log_to_user ::
    "(nat \<Rightarrow> nat \<Rightarrow> bool) \<Rightarrow> logger_log \<Rightarrow> logger_reader \<Rightarrow> nat \<Rightarrow> (logger_reader \<times> int \<times> bytes) option" where
  "do_read_log_to_user uok log reader count =
     do { e \<leftarrow> get_entry_header log (r_off reader);
          case copy_header_to_user uok (r_ver reader) e of
            None \<Rightarrow> Some (reader, - EFAULT, [])
          | Some h \<Rightarrow>
              (let ul = get_user_hdr_len (r_ver reader);
                   count = count - ul;
                   msg_start = logger_offset log (r_off reader + hdr_len);
                   len = min count (lg_size log - msg_start)
               in do { m1 \<leftarrow> memcpy (replicate len 0) 0 (lg_buffer log) msg_start len;
                       if \<not> uok ul len then Some (reader, - EFAULT, [])
                       else do {
                         m2 \<leftarrow> (if count \<noteq> len
                                then memcpy (replicate (count - len) 0) 0 (lg_buffer log) 0 (count - len)
                                else Some []);
                         if count \<noteq> len \<and> \<not> uok (ul + len) (count - len) then Some (reader, - EFAULT, [])
                         else Some (reader\<lparr>r_off := logger_offset log (r_off reader + hdr_len + count)\<rparr>,
                                    int (count + ul), h @ m1 @ m2) } }) }"

text \<open>
  The search for an entry of a user. The loop ends when it meets
  \<open>w_off\<close>; \<open>fuel\<close> bounds the number of entries looked at, and
  \<open>lg_size\<close> of it is always enough.
\<close>

fun next_by_uid :: "nat \<Rightarrow> logger_log \<Rightarrow> nat \<Rightarrow> u32 \<Rightarrow> nat option" where
  "next_by_uid 0 log off euid = None"
| "next_by_uid (Suc fuel) log off euid =
     (if off = w_off log then Some off
      else do { e \<leftarrow> get_entry_header log off;
                if en_euid e = euid then Some off
                else next_by_uid fuel log (logger_offset log (off + (hdr_len + unat (en_len e)))) euid })"

definition get_next_entry_by_uid :: "logger_log \<Rightarrow> nat \<Rightarrow> u32 \<Rightarrow> nat option" where
  "get_next_entry_by_uid log off euid = next_by_uid (Suc (lg_size log)) log off euid"

text \<open>The second half of \<open>logger_read\<close>, after the wait.\<close>

datatype read_result = ReadDone int bytes | ReadAgain

definition skip_foreign :: "u32 \<Rightarrow> logger_log \<Rightarrow> logger_reader \<Rightarrow> logger_reader option" where
  "skip_foreign euid log reader =
     (if r_all reader then Some reader
      else do { off \<leftarrow> get_next_entry_by_uid log (r_off reader) euid; Some (reader\<lparr>r_off := off\<rparr>) })"

definition read_entry ::
    "(nat \<Rightarrow> nat \<Rightarrow> bool) \<Rightarrow> u32 \<Rightarrow> nat \<Rightarrow> logger_log \<Rightarrow> logger_reader \<Rightarrow> (logger_reader \<times> read_result) option" where
  "read_entry uok euid count log reader =
     do { reader \<leftarrow> skip_foreign euid log reader;
          if w_off log = r_off reader then Some (reader, ReadAgain)
          else do {
            ml \<leftarrow> get_entry_msg_len log (r_off reader);
            let n = get_user_hdr_len (r_ver reader) + ml;
            if count < n then Some (reader, ReadDone (- EINVAL) [])
            else do { (reader, rc, out) \<leftarrow> do_read_log_to_user uok log reader n;
                      Some (reader, ReadDone rc out) } } }"

definition find_reader :: "logger_log \<Rightarrow> nat \<Rightarrow> logger_reader option" where
  "find_reader log i = find (\<lambda>r. r_id r = i) (lg_readers log)"

definition put_reader :: "logger_log \<Rightarrow> logger_reader \<Rightarrow> logger_log" where
  "put_reader log r = log\<lparr>lg_readers := map (\<lambda>q. if r_id q = r_id r then r else q) (lg_readers log)\<rparr>"

text \<open>
  \<open>logger_read\<close>. Each round of the loop at \<open>start\<close> checks for data
  under the mutex and, if there is some, takes the mutex again to read. The list
  holds, per round, what others do to the log before the check and between the
  two; when it is used up the reader is still waiting (\<open>None\<close> in the
  result). A waiting reader returns on a signal.
\<close>

fun logger_read ::
    "(nat \<Rightarrow> nat \<Rightarrow> bool) \<Rightarrow> u32 \<Rightarrow> bool \<Rightarrow> bool \<Rightarrow> nat \<Rightarrow> nat
       \<Rightarrow> ((logger_log \<Rightarrow> logger_log) \<times> (logger_log \<Rightarrow> logger_log)) list \<Rightarrow> logger_log
       \<Rightarrow> (logger_log \<times> (int \<times> bytes) option) option" where
  "logger_read uok euid nonblock signal i count [] log = Some (log, None)"
| "logger_read uok euid nonblock signal i count ((g1, g2) # gs) log =
     (let log1 = g1 log in
      do { reader \<leftarrow> find_reader log1 i;
           if w_off log1 = r_off reader
           then (if nonblock then Some (log1, Some (- EAGAIN, []))
                 else if signal then Some (log1, Some (- EINTR, []))
                 else logger_read uok euid nonblock signal i count gs (g2 log1))
           else
             (let log2 = g2 log1 in
              do { reader \<leftarrow> find_reader log2 i;
                   (reader', r) \<leftarrow> read_entry uok euid count log2 reader;
                   let log3 = put_reader log2 reader';
                   case r of ReadDone rc out \<Rightarrow> Some (log3, Some (rc, out))
                   | ReadAgain \<Rightarrow> logger_read uok euid nonblock signal i count gs log3 }) })"

section \<open>Writing\<close>

text \<open>
  \<open>get_next_entry\<close>: the loop adds at least 24 to \<open>count\<close> every
  time round.
\<close>

function next_entry_loop :: "logger_log \<Rightarrow> nat \<Rightarrow> nat \<Rightarrow> nat \<Rightarrow> nat option" where
  "next_entry_loop log off len count =
     do { ml \<leftarrow> get_entry_msg_len log off;
          let nr = hdr_len + ml;
          let off = logger_offset log (off + nr);
          let count = count + nr;
          if count < len then next_entry_loop log off len count else Some off }"
  by pat_completeness auto

termination
  by (relation "measure (\<lambda>(log, off, len, count). len - count)") (auto simp: hdr_len_def)

declare next_entry_loop.simps [simp del]

definition get_next_entry :: "logger_log \<Rightarrow> nat \<Rightarrow> nat \<Rightarrow> nat option" where
  "get_next_entry log off len = next_entry_loop log off len 0"

definition is_between :: "nat \<Rightarrow> nat \<Rightarrow> nat \<Rightarrow> bool" where
  "is_between a b c = (if a < b then a < c \<and> c \<le> b else c \<le> b \<or> a < c)"

definition pull_forward :: "logger_log \<Rightarrow> nat \<Rightarrow> nat \<Rightarrow> nat option" where
  "pull_forward log len off =
     (let old = w_off log; new = logger_offset log (old + len)
      in if is_between old new off then get_next_entry log off len else Some off)"

definition fix_up_readers :: "logger_log \<Rightarrow> nat \<Rightarrow> logger_log option" where
  "fix_up_readers log len =
     do { h \<leftarrow> pull_forward log len (lg_head log);
          rs \<leftarrow> those (map (\<lambda>r. map_option (\<lambda>o'. r\<lparr>r_off := o'\<rparr>) (pull_forward log len (r_off r))) (lg_readers log));
          Some (log\<lparr>lg_head := h, lg_readers := rs\<rparr>) }"

text \<open>
  The source of a write: the length the caller announced and the bytes that can
  be read from user space, a proper prefix if its memory faults.
\<close>

record iov_iter =
  it_count :: nat
  it_data :: bytes

definition copy_from_iter :: "bytes \<Rightarrow> nat \<Rightarrow> nat \<Rightarrow> iov_iter \<Rightarrow> (bytes \<times> nat \<times> iov_iter) option" where
  "copy_from_iter dst off len it =
     (let n = min len (length (it_data it))
      in do { dst' \<leftarrow> memcpy dst off (it_data it) 0 n;
              Some (dst', n, it\<lparr>it_count := it_count it - n, it_data := drop n (it_data it)\<rparr>) })"

text \<open>The writing process: ids, time and effective user.\<close>

record log_task =
  t_tgid :: u32
  t_pid :: u32
  t_sec :: u32
  t_nsec :: u32
  t_euid :: u32

definition write_header :: "log_task \<Rightarrow> nat \<Rightarrow> logger_entry" where
  "write_header t count = \<lparr>en_len = of_nat count, en_hdr_size = of_nat hdr_len, en_pid = t_tgid t, en_tid = t_pid t,
     en_sec = t_sec t, en_nsec = t_nsec t, en_euid = t_euid t\<rparr>"

definition put_header :: "logger_log \<Rightarrow> logger_entry \<Rightarrow> logger_log option" where
  "put_header log header =
     (let len = min hdr_len (lg_size log - w_off log)
      in do { b1 \<leftarrow> memcpy (lg_buffer log) (w_off log) (enc_header header) 0 len;
              b2 \<leftarrow> memcpy b1 0 (enc_header header) len (hdr_len - len);
              Some (log\<lparr>lg_buffer := b2\<rparr>) })"

definition put_payload :: "logger_log \<Rightarrow> nat \<Rightarrow> iov_iter \<Rightarrow> (logger_log \<times> int) option" where
  "put_payload log count from =
     (let w = logger_offset log (w_off log + hdr_len);
          len = min count (lg_size log - w)
      in do { (b1, n1, it1) \<leftarrow> copy_from_iter (lg_buffer log) w len from;
              let log1 = log\<lparr>lg_buffer := b1\<rparr>;
              if n1 \<noteq> len then Some (log1, - EFAULT)
              else do {
                (b2, n2, it2) \<leftarrow> copy_from_iter b1 0 (count - len) it1;
                let log2 = log\<lparr>lg_buffer := b2\<rparr>;
                if n2 \<noteq> count - len then Some (log2, - EFAULT)
                else Some (log2\<lparr>w_off := logger_offset log (w + count)\<rparr>, int len) } })"

definition logger_write_iter :: "log_task \<Rightarrow> iov_iter \<Rightarrow> logger_log \<Rightarrow> (logger_log \<times> int) option" where
  "logger_write_iter t from log =
     (let count = min (it_count from) LOGGER_ENTRY_MAX_PAYLOAD;
          header = write_header t count
      in if en_len header = 0 then Some (log, 0)
         else do { log1 \<leftarrow> fix_up_readers log (hdr_len + unat (en_len header));
                   log2 \<leftarrow> put_header log1 header;
                   put_payload log2 count from })"

section \<open>Files and control\<close>

text \<open>An open file: its modes and what \<open>private_data\<close> points at.\<close>

datatype private_data = PReader nat | PLog

record log_file =
  f_read :: bool
  f_write :: bool
  f_private :: private_data

definition get_log_from_minor :: "logger_log list \<Rightarrow> int \<Rightarrow> logger_log option" where
  "get_log_from_minor logs minor = find (\<lambda>l. lg_minor l = minor) logs"

text \<open>
  \<open>logger_open\<close>: \<open>seek\<close> is the status of
  \<open>nonseekable_open\<close>, \<open>fresh\<close> the new reader's identity if
  \<open>kmalloc\<close> succeeds, \<open>trusted\<close> whether the caller is in the log's
  group or has \<open>CAP_SYSLOG\<close>.
\<close>

definition logger_open ::
    "int \<Rightarrow> nat option \<Rightarrow> bool \<Rightarrow> logger_log list \<Rightarrow> int \<Rightarrow> bool \<Rightarrow> bool
       \<Rightarrow> logger_log list \<times> int \<times> log_file option" where
  "logger_open seek fresh trusted logs minor rd wr =
     (if seek \<noteq> 0 then (logs, seek, None)
      else case get_log_from_minor logs minor of
        None \<Rightarrow> (logs, - ENODEV, None)
      | Some log \<Rightarrow>
          if rd
          then (case fresh of
                  None \<Rightarrow> (logs, - ENOMEM, None)
                | Some i \<Rightarrow>
                    (let r = \<lparr>r_id = i, r_off = lg_head log, r_all = trusted, r_ver = 1\<rparr>
                     in (map (\<lambda>l. if lg_minor l = minor then l\<lparr>lg_readers := lg_readers l @ [r]\<rparr> else l) logs, 0,
                         Some \<lparr>f_read = rd, f_write = wr, f_private = PReader i\<rparr>)))
          else (logs, 0, Some \<lparr>f_read = rd, f_write = wr, f_private = PLog\<rparr>))"

definition logger_release :: "log_file \<Rightarrow> logger_log \<Rightarrow> logger_log \<times> int" where
  "logger_release f log =
     (case f_private f of
        PReader i \<Rightarrow> (if f_read f then log\<lparr>lg_readers := filter (\<lambda>r. r_id r \<noteq> i) (lg_readers log)\<rparr> else log, 0)
      | PLog \<Rightarrow> (log, 0))"

text \<open>\<open>logger_poll\<close> returns whether the log is readable; it is always writable.\<close>

definition logger_poll :: "u32 \<Rightarrow> log_file \<Rightarrow> logger_log \<Rightarrow> (logger_log \<times> bool) option" where
  "logger_poll euid f log =
     (case f_private f of
        PLog \<Rightarrow> Some (log, False)
      | PReader i \<Rightarrow>
          do { r \<leftarrow> find_reader log i;
               r' \<leftarrow> skip_foreign euid log r;
               Some (put_reader log r', w_off log \<noteq> r_off r') })"

datatype logger_cmd =
    LOGGER_GET_LOG_BUF_SIZE | LOGGER_GET_LOG_LEN | LOGGER_GET_NEXT_ENTRY_LEN | LOGGER_FLUSH_LOG
  | LOGGER_GET_VERSION | LOGGER_SET_VERSION "int option" | LOGGER_OTHER u32

text \<open>\<open>copy_from_user\<close> of the version may fault (\<open>None\<close>).\<close>

definition logger_set_version :: "logger_reader \<Rightarrow> int option \<Rightarrow> logger_reader \<times> int" where
  "logger_set_version r arg =
     (case arg of
        None \<Rightarrow> (r, - EFAULT)
      | Some version \<Rightarrow> if version < 1 \<or> version > 2 then (r, - EINVAL) else (r\<lparr>r_ver := version\<rparr>, 0))"

definition with_reader ::
    "log_file \<Rightarrow> logger_log \<Rightarrow> (logger_reader \<Rightarrow> (logger_reader \<times> int) option) \<Rightarrow> (logger_log \<times> int) option" where
  "with_reader f log k =
     (case f_private f of
        PReader i \<Rightarrow>
          if f_read f
          then do { r \<leftarrow> find_reader log i; (r', rc) \<leftarrow> k r; Some (put_reader log r', rc) }
          else Some (log, - EBADF)
      | PLog \<Rightarrow> Some (log, - EBADF))"

fun logger_ioctl :: "u32 \<Rightarrow> bool \<Rightarrow> log_file \<Rightarrow> logger_cmd \<Rightarrow> logger_log \<Rightarrow> (logger_log \<times> int) option" where
  "logger_ioctl euid trusted f LOGGER_GET_LOG_BUF_SIZE log = Some (log, int (lg_size log))"
| "logger_ioctl euid trusted f LOGGER_GET_LOG_LEN log =
     with_reader f log (\<lambda>r. Some (r,
       if w_off log \<ge> r_off r then int (w_off log - r_off r)
       else int (lg_size log - r_off r + w_off log)))"
| "logger_ioctl euid trusted f LOGGER_GET_NEXT_ENTRY_LEN log =
     with_reader f log (\<lambda>r.
       do { r' \<leftarrow> skip_foreign euid log r;
            if w_off log \<noteq> r_off r'
            then do { ml \<leftarrow> get_entry_msg_len log (r_off r'); Some (r', int (get_user_hdr_len (r_ver r') + ml)) }
            else Some (r', 0) })"
| "logger_ioctl euid trusted f LOGGER_FLUSH_LOG log =
     (if \<not> f_write f then Some (log, - EBADF)
      else if \<not> trusted then Some (log, - EPERM)
      else Some (log\<lparr>lg_readers := map (\<lambda>r. r\<lparr>r_off := w_off log\<rparr>) (lg_readers log), lg_head := w_off log\<rparr>, 0))"
| "logger_ioctl euid trusted f LOGGER_GET_VERSION log = with_reader f log (\<lambda>r. Some (r, r_ver r))"
| "logger_ioctl euid trusted f (LOGGER_SET_VERSION arg) log =
     with_reader f log (\<lambda>r. Some (logger_set_version r arg))"
| "logger_ioctl euid trusted f (LOGGER_OTHER _) log = Some (log, - EINVAL)"

section \<open>Creating the logs\<close>

text \<open>
  What \<open>create_log\<close> asks of the kernel: \<open>vmalloc\<close>,
  \<open>kzalloc\<close>, \<open>kstrdup\<close> and the status and minor of
  \<open>misc_register\<close>.
\<close>

record create_env =
  ce_buffer :: "nat \<Rightarrow> bytes option"
  ce_log :: bool
  ce_name :: bool
  ce_register :: "int \<times> int"

datatype log_res = ResBuffer | ResLog | ResName
datatype log_event = LogAlloc log_res | LogFree log_res

text \<open>
  The list keeps a log whose registration failed: its memory is freed but it is
  not taken off \<open>log_list\<close>. The flag says whether the added log is live.
\<close>

definition create_log ::
    "create_env \<Rightarrow> string \<Rightarrow> nat \<Rightarrow> (logger_log \<times> bool) list \<Rightarrow> (logger_log \<times> bool) list \<times> log_event list \<times> int" where
  "create_log env name sz logs =
     (case ce_buffer env sz of
        None \<Rightarrow> (logs, [], - ENOMEM)
      | Some buffer \<Rightarrow>
          if \<not> ce_log env then (logs, [LogAlloc ResBuffer, LogFree ResBuffer], - ENOMEM)
          else if \<not> ce_name env
          then (logs, [LogAlloc ResBuffer, LogAlloc ResLog, LogFree ResLog, LogFree ResBuffer], - ENOMEM)
          else
            (let (ret, minor) = ce_register env;
                 log = \<lparr>lg_buffer = buffer, lg_minor = minor, lg_name = name, lg_readers = [], w_off = 0,
                        lg_head = 0, lg_size = sz\<rparr>;
                 acq = [LogAlloc ResBuffer, LogAlloc ResLog, LogAlloc ResName]
             in if ret \<noteq> 0
                then (logs @ [(log, False)], acq @ [LogFree ResName, LogFree ResLog, LogFree ResBuffer], ret)
                else (logs @ [(log, True)], acq, 0)))"

definition log_names :: "string list" where
  "log_names = [''log_main'', ''log_events'', ''log_radio'', ''log_system'']"

fun create_all ::
    "(string \<Rightarrow> create_env) \<Rightarrow> string list \<Rightarrow> (logger_log \<times> bool) list \<Rightarrow> (logger_log \<times> bool) list \<times> int" where
  "create_all env [] logs = (logs, 0)"
| "create_all env (n # ns) logs =
     (let (logs', _, ret) = create_log (env n) n (256 * 1024) logs
      in if ret \<noteq> 0 then (logs', ret) else create_all env ns logs')"

definition logger_init :: "(string \<Rightarrow> create_env) \<Rightarrow> (logger_log \<times> bool) list \<times> int" where
  "logger_init env = create_all env log_names []"

text \<open>\<open>logger_exit\<close> frees every log on the list; touching a freed one is \<open>None\<close>.\<close>

fun logger_exit :: "(logger_log \<times> bool) list \<Rightarrow> log_event list option" where
  "logger_exit [] = Some []"
| "logger_exit ((log, live) # logs) =
     (if \<not> live then None
      else do { r \<leftarrow> logger_exit logs; Some ([LogFree ResBuffer, LogFree ResName, LogFree ResLog] @ r) })"

end
