(* ===== verification/LoggerRing.thy ===== *)
theory LoggerRing
  imports Logger
begin

text \<open>
  The ring buffer of a log as a stream of entries. \<open>ring_get\<close> reads
  bytes around the end of the buffer; \<open>holds log off es\<close> says that from
  offset \<open>off\<close> to the write head the ring holds exactly the entries
  \<open>es\<close>. It is the abstraction relation of the log.
\<close>

section \<open>Bytes on a ring\<close>

definition ring_get :: "bytes \<Rightarrow> nat \<Rightarrow> nat \<Rightarrow> bytes" where
  "ring_get b off n = map (\<lambda>i. b ! ((off + i) mod length b)) [0..<n]"

lemma ring_get_length [simp]: "length (ring_get b off n) = n"
  by (simp add: ring_get_def)

lemma ring_get_nth [simp]: "i < n \<Longrightarrow> ring_get b off n ! i = b ! ((off + i) mod length b)"
  by (simp add: ring_get_def)

lemma ring_get_add:
  "ring_get b off (m + n) = ring_get b off m @ ring_get b ((off + m) mod length b) n"
proof -
  have "ring_get b ((off + m) mod length b) n = map (\<lambda>i. b ! ((off + i) mod length b)) [m..<m + n]"
    by (rule nth_equalityI) (simp_all add: ring_get_def mod_add_left_eq add.assoc)
  moreover have "[0..<m + n] = [0..<m] @ [m..<m + n]" using upt_add_eq_append [of 0 m n] by simp
  ultimately show ?thesis by (simp only: ring_get_def map_append)
qed

lemma ring_get_mod [simp]: "ring_get b (off mod length b) n = ring_get b off n"
  by (simp add: ring_get_def mod_add_left_eq)

lemma ring_get_take: "m \<le> n \<Longrightarrow> take m (ring_get b off n) = ring_get b off m"
  using ring_get_add [of b off m "n - m"] by simp

lemma ring_get_split:
  assumes "off < length b" and "n \<le> length b"
  shows "ring_get b off n =
    take (min n (length b - off)) (drop off b) @ take (n - min n (length b - off)) b"
proof (rule nth_equalityI)
  show "length (ring_get b off n) =
      length (take (min n (length b - off)) (drop off b) @ take (n - min n (length b - off)) b)"
    using assms by simp
  fix i assume "i < length (ring_get b off n)"
  then have i: "i < n" by simp
  show "ring_get b off n ! i =
      (take (min n (length b - off)) (drop off b) @ take (n - min n (length b - off)) b) ! i"
  proof (cases "off + i < length b")
    case True
    then have "i < length b - off" by simp
    with True show ?thesis using i assms by (simp add: nth_append)
  next
    case False
    then have "(off + i) mod length b = off + i - length b"
      using i assms by (simp add: mod_if)
    moreover have "min n (length b - off) = length b - off" using False i by simp
    moreover have "\<not> i < length b - off" "off + i - length b = i - (length b - off)"
      "i - (length b - off) < n - (length b - off)" using False i assms by auto
    ultimately show ?thesis using i assms by (simp add: nth_append del: diff_diff_right)
  qed
qed

lemma memcpy_fill: "off + n \<le> length b \<Longrightarrow> memcpy (replicate n x) 0 b off n = Some (take n (drop off b))"
  by (simp add: memcpy_def)

text \<open>Two copies, up to the end of the buffer and from its start, write around the ring.\<close>

lemma ring_put:
  assumes off: "off < length b" and n: "length bs \<le> length b"
  defines "l \<equiv> min (length bs) (length b - off)"
  shows "\<exists>b1 b2. memcpy b off bs 0 l = Some b1 \<and> memcpy b1 0 bs l (length bs - l) = Some b2 \<and>
    length b2 = length b \<and>
    (\<forall>j<length b. b2 ! ((off + j) mod length b) = (if j < length bs then bs ! j else b ! ((off + j) mod length b)))"
proof -
  have l: "off + l \<le> length b" "l \<le> length bs" using off by (auto simp: l_def)
  then obtain b1 where m1: "memcpy b off bs 0 l = Some b1" by (simp add: memcpy_def)
  have l1: "length b1 = length b" by (rule memcpy_length [OF m1])
  have "length bs - l \<le> length b" using n by linarith
  then obtain b2 where m2: "memcpy b1 0 bs l (length bs - l) = Some b2" using l l1 by (simp add: memcpy_def)
  have l2: "length b2 = length b" using memcpy_length [OF m2] l1 by simp
  have "b2 ! ((off + j) mod length b) = (if j < length bs then bs ! j else b ! ((off + j) mod length b))"
    if j: "j < length b" for j
  proof -
    define q where "q = (off + j) mod length b"
    have "0 < length b" using off by linarith
    then have q: "q < length b" unfolding q_def by (rule mod_less_divisor)
    have v: "b2 ! q = (if q < length bs - l then bs ! (l + q) else if off \<le> q \<and> q < off + l then bs ! (q - off) else b ! q)"
      using memcpy_nth [OF m2, of q] memcpy_nth [OF m1, of q] q l1 by simp
    show ?thesis
    proof (cases "off + j < length b")
      case True
      then have "q = off + j" by (simp add: q_def)
      moreover have "length bs - l \<le> off" using n True by (auto simp: l_def)
      moreover have "j < l \<longleftrightarrow> j < length bs" using True by (auto simp: l_def)
      ultimately show ?thesis using v unfolding q_def [symmetric] by auto
    next
      case False
      then have qj: "q = off + j - length b" using j off by (simp add: q_def mod_if)
      then have "q < off" using j False by linarith
      moreover have "q < length bs - l \<longleftrightarrow> j < length bs" using False j off n qj by (auto simp: l_def min_def)
      moreover have "l + q = j" if "j < length bs" using False j off qj that by (auto simp: l_def min_def)
      ultimately show ?thesis using v unfolding q_def [symmetric] by auto
    qed
  qed
  then show ?thesis using m1 m2 l2 by blast
qed

text \<open>What such a write leaves behind, in terms of \<open>ring_get\<close>.\<close>

definition ring_written :: "bytes \<Rightarrow> nat \<Rightarrow> bytes \<Rightarrow> bytes \<Rightarrow> bool" where
  "ring_written b off bs b' \<longleftrightarrow>
     length b' = length b \<and>
     (\<forall>j<length b. b' ! ((off + j) mod length b) = (if j < length bs then bs ! j else b ! ((off + j) mod length b)))"

lemma ring_written_get:
  assumes w: "ring_written b off bs b'" and n: "length bs \<le> length b"
  shows "ring_get b' off (length bs) = bs"
    and "length bs \<le> d \<Longrightarrow> d + m \<le> length b \<Longrightarrow> ring_get b' (off + d) m = ring_get b (off + d) m"
proof -
  have len: "length b' = length b"
    and at: "\<And>j. j < length b \<Longrightarrow> b' ! ((off + j) mod length b) = (if j < length bs then bs ! j else b ! ((off + j) mod length b))"
    using w by (auto simp: ring_written_def)
  show "ring_get b' off (length bs) = bs"
    using at n len by (intro nth_equalityI) auto
  show "ring_get b' (off + d) m = ring_get b (off + d) m" if "length bs \<le> d" "d + m \<le> length b"
  proof (rule nth_equalityI)
    fix i assume "i < length (ring_get b' (off + d) m)"
    then have "i < m" by simp
    then show "ring_get b' (off + d) m ! i = ring_get b (off + d) m ! i"
      using at [of "d + i"] that len by (simp add: add.assoc)
  qed simp
qed

section \<open>Entries\<close>

type_synonym log_entry = "logger_entry \<times> bytes"

definition entry_wf :: "log_entry \<Rightarrow> bool" where
  "entry_wf e \<longleftrightarrow>
     unat (en_len (fst e)) = length (snd e) \<and> 0 < length (snd e) \<and> length (snd e) \<le> LOGGER_ENTRY_MAX_PAYLOAD"

definition enc :: "log_entry \<Rightarrow> bytes" where
  "enc e = enc_header (fst e) @ snd e"

definition stream :: "log_entry list \<Rightarrow> bytes" where
  "stream es = concat (map enc es)"

lemma enc_header_length [simp]: "length (enc_header h) = hdr_len"
  by (simp add: enc_header_def hdr_len_def)

lemma dec_enc_header: "dec_header (enc_header h @ m) = h"
  by (simp add: dec_header_def enc_header_def le16_def le32_def word_at_def)

lemma enc_length: "length (enc e) = hdr_len + length (snd e)"
  by (simp add: enc_def)

lemma enc_pos: "hdr_len \<le> length (enc e)"
  by (simp add: enc_length)

lemma stream_simps [simp]:
  "stream [] = []" "stream (e # es) = enc e @ stream es" "stream (xs @ ys) = stream xs @ stream ys"
  by (simp_all add: stream_def)

lemma stream_pos: "0 < length (stream es) \<longleftrightarrow> es \<noteq> []"
proof (cases es)
  case (Cons e rest)
  then show ?thesis using enc_pos [of e] by (auto simp: hdr_len_def)
qed simp

lemma stream_take_drop: "length (stream (take k es)) + length (stream (drop k es)) = length (stream es)"
  by (metis append_take_drop_id length_append stream_simps(3))

lemma length_le_stream: "hdr_len * length es \<le> length (stream es)"
  using enc_pos by (induction es) (auto simp: add_mono)

text \<open>The encoding is a prefix code: a stream determines its entries.\<close>

lemma stream_inj:
  assumes "stream es = stream es'" and "\<forall>e\<in>set es. entry_wf e" and "\<forall>e\<in>set es'. entry_wf e"
  shows "es = es'"
  using assms
proof (induction es arbitrary: es')
  case Nil
  then show ?case using enc_pos by (cases es') (auto simp: enc_def enc_header_def le16_def)
next
  case (Cons e es)
  then obtain f fs where es': "es' = f # fs"
    by (cases es') (auto simp: enc_def enc_header_def le16_def)
  have eq: "enc_header (fst e) @ snd e @ stream es = enc_header (fst f) @ snd f @ stream fs"
    using Cons.prems(1) es' by (simp add: enc_def)
  then have h: "fst e = fst f" by (metis dec_enc_header)
  then have "length (snd e) = length (snd f)" using Cons.prems(2,3) es' by (simp add: entry_wf_def)
  moreover have "snd e @ stream es = snd f @ stream fs" using eq h by simp
  ultimately have "snd e = snd f" "stream es = stream fs" by auto
  then show ?case using Cons.IH [of fs] Cons.prems es' h by (simp add: prod_eq_iff)
qed

section \<open>The abstraction\<close>

definition holds :: "logger_log \<Rightarrow> nat \<Rightarrow> log_entry list \<Rightarrow> bool" where
  "holds log off es \<longleftrightarrow>
     off < lg_size log \<and> length (stream es) < lg_size log \<and> (\<forall>e\<in>set es. entry_wf e) \<and>
     ring_get (lg_buffer log) off (length (stream es)) = stream es \<and>
     (off + length (stream es)) mod lg_size log = w_off log"

text \<open>
  A log with room for two entries of maximal size; its buffer, write head, start
  head and all readers are consistent.
\<close>

definition ring_ok :: "logger_log \<Rightarrow> bool" where
  "ring_ok log \<longleftrightarrow>
     (\<exists>k. lg_size log = 2 ^ k) \<and> 2 * (hdr_len + LOGGER_ENTRY_MAX_PAYLOAD) \<le> lg_size log \<and>
     length (lg_buffer log) = lg_size log \<and> w_off log < lg_size log"

definition log_ok :: "logger_log \<Rightarrow> bool" where
  "log_ok log \<longleftrightarrow>
     ring_ok log \<and> (\<exists>es. holds log (lg_head log) es) \<and>
     (\<forall>r\<in>set (lg_readers log). \<exists>es. holds log (r_off r) es) \<and> distinct (map r_id (lg_readers log))"

lemma logger_offset_mod:
  assumes "ring_ok log"
  shows "logger_offset log n = n mod lg_size log"
proof -
  obtain k where "lg_size log = 2 ^ k" using assms by (auto simp: ring_ok_def)
  moreover have "n AND (2 ^ k - 1) = n mod 2 ^ k"
    by (metis mask_eq_exp_minus_1 take_bit_eq_mask take_bit_eq_mod)
  ultimately show ?thesis by (simp add: logger_offset_def)
qed

lemma ring_okD:
  assumes "ring_ok log"
  shows "length (lg_buffer log) = lg_size log" "w_off log < lg_size log" "hdr_len \<le> lg_size log" "0 < lg_size log"
    "2 * (hdr_len + LOGGER_ENTRY_MAX_PAYLOAD) \<le> lg_size log"
  using assms by (auto simp: ring_ok_def hdr_len_def)

lemma holds_inj:
  assumes "holds log off es" and "holds log off es'"
  shows "es = es'"
proof -
  let ?n = "lg_size log" and ?a = "length (stream es)" and ?b = "length (stream es')"
  have h: "off < ?n" "?a < ?n" "?b < ?n" "(off + ?a) mod ?n = (off + ?b) mod ?n"
    using assms by (auto simp: holds_def)
  then have "?a = ?b" by (simp add: mod_if split: if_splits)
  then have "stream es = stream es'" using assms by (metis holds_def)
  then show ?thesis using assms by (intro stream_inj) (auto simp: holds_def)
qed

lemma get_entry_header_ring:
  assumes ok: "ring_ok log" and off: "off < lg_size log"
  shows "get_entry_header log off = Some (dec_header (ring_get (lg_buffer log) off hdr_len))"
proof -
  let ?b = "lg_buffer log" and ?l = "min hdr_len (lg_size log - off)"
  note d = ring_okD [OF ok]
  have sp: "ring_get ?b off hdr_len = take ?l (drop off ?b) @ take (hdr_len - ?l) ?b"
    using ring_get_split [of off ?b hdr_len] d off by simp
  show ?thesis
  proof (cases "?l = hdr_len")
    case True
    then show ?thesis using sp memcpy_fill [of off hdr_len ?b 0] d off
      by (simp add: get_entry_header_def)
  next
    case False
    let ?s1 = "take ?l (drop off ?b) @ replicate (hdr_len - ?l) 0"
    have "memcpy (replicate hdr_len 0) 0 ?b off ?l = Some ?s1"
      using d off by (simp add: memcpy_def)
    moreover have "memcpy ?s1 ?l ?b 0 (hdr_len - ?l) = Some (take ?l (drop off ?b) @ take (hdr_len - ?l) ?b)"
      using d off by (simp add: memcpy_def)
    ultimately show ?thesis unfolding sp using False
      by (simp only: get_entry_header_def Let_def bind.bind_lunit if_True not_False_eq_True)
  qed
qed

text \<open>The header of the first entry of a stream.\<close>

lemma first_header:
  assumes ok: "ring_ok log" and off: "off < lg_size log"
    and st: "ring_get (lg_buffer log) off (length (stream (e # es))) = stream (e # es)"
  shows "get_entry_header log off = Some (fst e)"
    and "ring_get (lg_buffer log) (off + length (enc e)) (length (stream es)) = stream es"
    and "ring_get (lg_buffer log) off (length (enc e)) = enc e"
proof -
  let ?b = "lg_buffer log"
  have "ring_get ?b off (length (enc e)) @ ring_get ?b (off + length (enc e)) (length (stream es)) = enc e @ stream es"
    using st ring_get_add [of ?b off "length (enc e)" "length (stream es)"] by simp
  then show e: "ring_get ?b off (length (enc e)) = enc e"
    and "ring_get ?b (off + length (enc e)) (length (stream es)) = stream es"
    by (simp_all add: append_eq_append_conv)
  have "ring_get ?b off hdr_len = take hdr_len (enc e)"
    using ring_get_take [OF enc_pos, of ?b off e] e by simp
  then have "ring_get ?b off hdr_len = enc_header (fst e)" by (simp add: enc_def)
  then show "get_entry_header log off = Some (fst e)"
    using get_entry_header_ring [OF ok off] dec_enc_header [of "fst e" "[]"] by simp
qed

lemma holds_Cons:
  assumes ok: "ring_ok log" and h: "holds log off (e # es)"
  shows "get_entry_header log off = Some (fst e)" and "ring_get (lg_buffer log) off (length (enc e)) = enc e"
    and "holds log (logger_offset log (off + length (enc e))) es" and "entry_wf e" and "off \<noteq> w_off log"
proof -
  have o: "off < lg_size log" and st: "ring_get (lg_buffer log) off (length (stream (e # es))) = stream (e # es)"
    and L: "length (stream (e # es)) < lg_size log" and w: "(off + length (stream (e # es))) mod lg_size log = w_off log"
    using h by (auto simp: holds_def)
  note f = first_header [OF ok o st] and d = ring_okD [OF ok]
  show "get_entry_header log off = Some (fst e)" "ring_get (lg_buffer log) off (length (enc e)) = enc e"
    by (rule f)+
  show "entry_wf e" using h by (simp add: holds_def)
  have "(off + length (enc e)) mod lg_size log < lg_size log" using d(4) by simp
  moreover have "((off + length (enc e)) mod lg_size log + length (stream es)) mod lg_size log = w_off log"
    using w by (simp add: mod_add_left_eq add.assoc)
  moreover have "ring_get (lg_buffer log) ((off + length (enc e)) mod lg_size log) (length (stream es)) = stream es"
    using f(2) ring_get_mod [of "lg_buffer log" "off + length (enc e)"] d(1) by simp
  ultimately show "holds log (logger_offset log (off + length (enc e))) es"
    using h L by (simp add: holds_def logger_offset_mod [OF ok])
  have "0 < length (stream (e # es))" using enc_pos [of e] by (auto simp: hdr_len_def)
  then show "off \<noteq> w_off log" using w o L by (auto simp: mod_if split: if_splits)
qed

lemma holds_Nil: "ring_ok log \<Longrightarrow> holds log off [] \<longleftrightarrow> off = w_off log"
  by (auto simp: holds_def ring_get_def ring_ok_def hdr_len_def)

lemma holds_empty_iff:
  assumes "ring_ok log" and "holds log off es"
  shows "off = w_off log \<longleftrightarrow> es = []"
  using assms holds_Nil holds_Cons(5) by (cases es) auto

lemma entry_length: "entry_wf e \<Longrightarrow> length (enc e) = hdr_len + unat (en_len (fst e))"
  by (simp add: entry_wf_def enc_length)

end
