(* ===== verification/LoggerProps.thy ===== *)
theory LoggerProps
  imports LoggerRing
begin

text \<open>
  Correctness of the log device: writing appends one entry and takes away at
  most the oldest ones, reading delivers the oldest unread entry a reader may
  see, and the invariant \<open>log_ok\<close> is kept by every operation.
\<close>

section \<open>Pulling offsets forward\<close>

lemma next_entry_loop_stream:
  assumes ok: "ring_ok log" and "off < lg_size log"
    and "ring_get (lg_buffer log) off (length (stream es)) = stream es" and "\<forall>e\<in>set es. entry_wf e"
    and "count < len" and "len \<le> count + length (stream es)"
  shows "\<exists>k. next_entry_loop log off len count = Some ((off + length (stream (take k es))) mod lg_size log) \<and>
    0 < k \<and> k \<le> length es \<and> len \<le> count + length (stream (take k es))"
  using assms(2-)
proof (induction es arbitrary: off count)
  case Nil
  then show ?case by simp
next
  case (Cons e es)
  let ?off = "(off + length (enc e)) mod lg_size log" and ?c = "count + length (enc e)"
  note f = first_header [OF ok Cons.prems(1,2)] and d = ring_okD [OF ok]
  have wf: "length (enc e) = hdr_len + unat (en_len (fst e))" using Cons.prems(3) by (simp add: entry_length)
  have step: "next_entry_loop log off len count =
      (if ?c < len then next_entry_loop log ?off len ?c else Some ?off)"
    by (subst next_entry_loop.simps) (simp add: get_entry_msg_len_def f(1) wf logger_offset_mod [OF ok] Let_def)
  show ?case
  proof (cases "?c < len")
    case False
    then show ?thesis using step by (intro exI [of _ 1]) simp
  next
    case True
    have "ring_get (lg_buffer log) ?off (length (stream es)) = stream es"
      using f(2) ring_get_mod [of "lg_buffer log" "off + length (enc e)"] d(1) by simp
    moreover have "?off < lg_size log" using d(4) by simp
    ultimately obtain k where k: "next_entry_loop log ?off len ?c = Some ((?off + length (stream (take k es))) mod lg_size log)"
        "0 < k" "k \<le> length es" "len \<le> ?c + length (stream (take k es))"
      using Cons.IH [of ?off ?c] Cons.prems True by auto
    then show ?thesis
      using step True by (intro exI [of _ "Suc k"]) (simp add: mod_add_left_eq add.assoc)
  qed
qed

text \<open>The offset lies in the part about to be overwritten iff there is no room.\<close>

lemma is_between_iff:
  assumes "off < n" and "L < n" and "(off + L) mod n = old" and "0 < len" and "len < n"
  shows "is_between old ((old + len) mod n) off \<longleftrightarrow> 0 < L \<and> n \<le> L + len"
proof -
  have old: "old < n" "old = (if off + L < n then off + L else off + L - n)"
    using assms by (auto simp: mod_if)
  have "(old + len) mod n = (if old + len < n then old + len else old + len - n)"
    using old assms by (auto simp: mod_if)
  then show ?thesis using old assms by (auto simp: is_between_def split: if_splits)
qed

lemma holds_drop:
  assumes ok: "ring_ok log" and h: "holds log off es"
  shows "holds log ((off + length (stream (take k es))) mod lg_size log) (drop k es)"
  using h
proof (induction es arbitrary: off k)
  case Nil
  then show ?case using holds_Nil [OF ok] ring_okD [OF ok] by simp
next
  case (Cons e es)
  show ?case
  proof (cases k)
    case 0
    then show ?thesis using Cons.prems by (simp add: holds_def)
  next
    case (Suc m)
    have "holds log ((off + length (enc e)) mod lg_size log) es"
      using holds_Cons(3) [OF ok Cons.prems] by (simp add: logger_offset_mod [OF ok])
    from Cons.IH [OF this, of m] show ?thesis using Suc by (simp add: mod_add_left_eq add.assoc)
  qed
qed

lemma pull_forward_holds:
  assumes ok: "ring_ok log" and h: "holds log off es"
    and len: "0 < len" "len \<le> hdr_len + LOGGER_ENTRY_MAX_PAYLOAD"
  shows "\<exists>k off'. pull_forward log len off = Some off' \<and> holds log off' (drop k es) \<and>
    length (stream (drop k es)) + len < lg_size log \<and>
    (k = 0 \<longleftrightarrow> length (stream es) + len < lg_size log \<or> es = [])"
proof -
  let ?n = "lg_size log" and ?L = "length (stream es)"
  note d = ring_okD [OF ok]
  have l: "len < ?n" "2 * len \<le> ?n" using d(3,5) len by (auto simp: hdr_len_def)
  have hh: "off < ?n" "?L < ?n" "(off + ?L) mod ?n = w_off log" "\<forall>e\<in>set es. entry_wf e"
      "ring_get (lg_buffer log) off ?L = stream es"
    using h by (auto simp: holds_def)
  have pos: "0 < ?L \<longleftrightarrow> es \<noteq> []" by (rule stream_pos)
  have pf: "pull_forward log len off = (if es \<noteq> [] \<and> ?n \<le> ?L + len then get_next_entry log off len else Some off)"
    using is_between_iff [OF hh(1-3) len(1) l(1)] pos by (auto simp: pull_forward_def logger_offset_mod [OF ok])
  show ?thesis
  proof (cases "es \<noteq> [] \<and> ?n \<le> ?L + len")
    case False
    then show ?thesis using pf h l pos by (intro exI [of _ 0] exI [of _ off]) auto
  next
    case True
    then obtain k where k: "get_next_entry log off len = Some ((off + length (stream (take k es))) mod ?n)"
        "0 < k" "k \<le> length es" "len \<le> length (stream (take k es))"
      using next_entry_loop_stream [OF ok hh(1,5,4) len(1)] l by (auto simp: get_next_entry_def)
    have "length (stream (drop k es)) + len < ?n" using stream_take_drop [of k es] k(4) hh(2) by linarith
    then show ?thesis
      using pf True k holds_drop [OF ok h, of k]
      by (intro exI [of _ k] exI [of _ "(off + length (stream (take k es))) mod ?n"]) auto
  qed
qed

section \<open>Writing one entry\<close>

lemma ring_put_written:
  assumes "off < length b" and "length bs \<le> length b"
  shows "\<exists>b1 b2. memcpy b off bs 0 (min (length bs) (length b - off)) = Some b1 \<and>
    memcpy b1 0 bs (min (length bs) (length b - off)) (length bs - min (length bs) (length b - off)) = Some b2 \<and>
    ring_written b off bs b2"
  using ring_put [OF assms] by (auto simp: ring_written_def)

lemma put_header_written:
  assumes ok: "ring_ok log"
  shows "\<exists>b. put_header log h = Some (log\<lparr>lg_buffer := b\<rparr>) \<and> ring_written (lg_buffer log) (w_off log) (enc_header h) b"
  using ring_put_written [of "w_off log" "lg_buffer log" "enc_header h"] ring_okD [OF ok]
  by (auto simp: put_header_def)

text \<open>
  The payload: as many bytes as can be read are stored, and the write head
  advances only if that was all of them.
\<close>

lemma memcpy_take: "n \<le> m \<Longrightarrow> m \<le> length s \<Longrightarrow> memcpy d o1 (take m s) 0 n = memcpy d o1 s 0 n"
  by (auto simp: memcpy_def min_def)

lemma memcpy_drop: "l + n \<le> m \<Longrightarrow> m \<le> length s \<Longrightarrow> memcpy d o1 (take m s) l n = memcpy d o1 (drop l s) 0 n"
  by (auto simp: memcpy_def take_drop min_def)

lemma put_payload_written:
  fixes src :: iov_iter
  assumes ok: "ring_ok log" and n: "count \<le> lg_size log"
  defines "w \<equiv> logger_offset log (w_off log + hdr_len)" and "m \<equiv> min count (length (it_data src))"
  shows "\<exists>b. ring_written (lg_buffer log) w (take m (it_data src)) b \<and>
    put_payload log count src =
      Some (if m = count
            then (log\<lparr>lg_buffer := b, w_off := logger_offset log (w + count)\<rparr>, int (min count (lg_size log - w)))
            else (log\<lparr>lg_buffer := b\<rparr>, - EFAULT))"
proof -
  let ?d = "it_data src" and ?len = "min count (lg_size log - w)"
  note d = ring_okD [OF ok]
  have w: "w < lg_size log" unfolding w_def logger_offset_mod [OF ok] using d(4) by simp
  have m: "m \<le> length ?d" "m \<le> count" "length (take m ?d) = m" by (auto simp: m_def)
  have m_len: "min m (length (lg_buffer log) - w) = min ?len m" using d(1) by (auto simp: m_def)
  obtain b1 b2 where c: "memcpy (lg_buffer log) w (take m ?d) 0 (min ?len m) = Some b1"
      "memcpy b1 0 (take m ?d) (min ?len m) (m - min ?len m) = Some b2"
    and wr: "ring_written (lg_buffer log) w (take m ?d) b2"
    using ring_put_written [of w "lg_buffer log" "take m ?d"] w m n d(1) unfolding m(3) m_len by auto
  have n1: "min ?len (length ?d) = min ?len m" by (auto simp: m_def)
  have c1: "copy_from_iter (lg_buffer log) w ?len src =
      Some (b1, min ?len m, src\<lparr>it_count := it_count src - min ?len m, it_data := drop (min ?len m) ?d\<rparr>)"
    using c(1) memcpy_take [of "min ?len m" m ?d] m by (simp add: copy_from_iter_def n1 Let_def)
  show ?thesis
  proof (cases "?len \<le> m")
    case False
    then have "m < ?len" by (simp only: not_le)
    then have "min ?len m = m" "m \<noteq> ?len" "m \<noteq> count" by auto
    moreover have "b2 = b1" using c(2) \<open>min ?len m = m\<close> by (auto simp: memcpy_def split: if_splits)
    ultimately show ?thesis using c1 wr
      by (intro exI [of _ b1]) (simp add: put_payload_def w_def [symmetric])
  next
    case True
    then have l: "min ?len m = ?len" by simp
    have n2: "min (count - ?len) (length (drop ?len ?d)) = m - ?len" by (simp add: m_def min_diff)
    have "memcpy b1 0 (drop ?len ?d) 0 (m - ?len) = Some b2"
      using c(2) memcpy_drop [of ?len "m - ?len" m ?d] m True unfolding l by simp
    then have c2: "\<exists>it2. copy_from_iter b1 0 (count - ?len)
        (src\<lparr>it_count := it_count src - ?len, it_data := drop ?len ?d\<rparr>) = Some (b2, m - ?len, it2)"
      using n2 by (simp add: copy_from_iter_def Let_def)
    have e: "m - ?len = count - ?len \<longleftrightarrow> m = count" using m(2) True by auto
    show ?thesis
      using c1 c2 wr e unfolding l by (auto simp: put_payload_def w_def [symmetric])
  qed
qed

lemma ring_back:
  assumes "off < n" and "L \<le> n" and "(off + L) mod n = w"
  shows "(w + (n - L)) mod (n::nat) = off"
proof -
  have "(w + (n - L)) mod n = (off + L + (n - L)) mod n" using assms(3) mod_add_left_eq by metis
  also have "\<dots> = (off + n) mod n" using assms(2) by simp
  also have "\<dots> = off" using assms(1) by simp
  finally show ?thesis .
qed

text \<open>
  Storing header and payload leaves every stream alone that ends at the old write
  head and has room for the new entry, and appends that entry.
\<close>

lemma stored_entry:
  assumes ok: "ring_ok log" and h: "holds log off es"
    and b1: "ring_written (lg_buffer log) (w_off log) (enc_header hr) b1"
    and b2: "ring_written b1 (logger_offset log (w_off log + hdr_len)) msg b2"
    and room: "length (stream es) + hdr_len + length msg < lg_size log"
  shows "ring_get b2 off (length (stream es)) = stream es"
    and "ring_get b2 (w_off log) (hdr_len + length msg) = enc_header hr @ msg"
proof -
  let ?n = "lg_size log" and ?w = "w_off log" and ?L = "length (stream es)"
  let ?p = "logger_offset log (?w + hdr_len)" and ?d = "?n - ?L"
  note d = ring_okD [OF ok]
  have p: "?p = (?w + hdr_len) mod ?n" by (rule logger_offset_mod [OF ok])
  have len: "length (lg_buffer log) = ?n" "length b1 = ?n" "length b2 = ?n"
    using d(1) b1 b2 by (auto simp: ring_written_def)
  have hh: "off < ?n" "?L \<le> ?n" "(off + ?L) mod ?n = ?w" "ring_get (lg_buffer log) off ?L = stream es"
    using h by (auto simp: holds_def)
  note w1 = ring_written_get [OF b1] and w2 = ring_written_get [OF b2]
  have at: "ring_get b off m = ring_get b (?w + ?d) m" if "length b = ?n" for b m
    using ring_back [OF hh(1-3)] ring_get_mod [of b "?w + ?d" m] that by simp
  have "ring_get b1 off ?L = stream es"
    using w1(2) [of ?d ?L] len hh room by (simp add: at)
  moreover have "?w + ?d = ?w + hdr_len + (?d - hdr_len)" using room by simp
  ultimately have e1: "ring_get b1 (?p + (?d - hdr_len)) ?L = stream es"
    using at [of b1 ?L] ring_get_mod [of b1 "?w + hdr_len + (?d - hdr_len)" ?L]
      ring_get_mod [of b1 "?p + (?d - hdr_len)" ?L] len by (simp add: p mod_add_left_eq)
  have "ring_get b2 (?p + (?d - hdr_len)) ?L = stream es"
    using w2(2) [of "?d - hdr_len" ?L] e1 len room hh(2) by simp
  then show "ring_get b2 off ?L = stream es"
    using at [of b2 ?L] \<open>?w + ?d = ?w + hdr_len + (?d - hdr_len)\<close>
      ring_get_mod [of b2 "?w + hdr_len + (?d - hdr_len)" ?L]
      ring_get_mod [of b2 "?p + (?d - hdr_len)" ?L] len by (simp add: p mod_add_left_eq)
  have wback: "(?p + (?n - hdr_len)) mod ?n = ?w"
    unfolding p by (rule ring_back) (use d in auto)
  have "ring_get b2 (?p + (?n - hdr_len)) hdr_len = ring_get b1 (?p + (?n - hdr_len)) hdr_len"
    using w2(2) [of "?n - hdr_len" hdr_len] len room d by simp
  then have "ring_get b2 ?w hdr_len = ring_get b1 ?w hdr_len"
    using ring_get_mod [of b2 "?p + (?n - hdr_len)" hdr_len] ring_get_mod [of b1 "?p + (?n - hdr_len)" hdr_len]
      wback len by simp
  then have "ring_get b2 ?w hdr_len = enc_header hr" using w1(1) len room by simp
  moreover have "ring_get b2 ?p (length msg) = msg" using w2(1) len room by simp
  ultimately show "ring_get b2 ?w (hdr_len + length msg) = enc_header hr @ msg"
    using ring_get_add [of b2 ?w hdr_len "length msg"] len by (simp add: p)
qed

lemma stored_holds:
  assumes ok: "ring_ok log" and h: "holds log off es"
    and b1: "ring_written (lg_buffer log) (w_off log) (enc_header hr) b1"
    and b2: "ring_written b1 (logger_offset log (w_off log + hdr_len)) msg b2"
    and room: "length (stream es) + hdr_len + length msg < lg_size log"
    and l: "lg_buffer log' = b2" "lg_size log' = lg_size log"
  shows "w_off log' = w_off log \<Longrightarrow> holds log' off es"
    and "w_off log' = (w_off log + (hdr_len + length msg)) mod lg_size log \<Longrightarrow> entry_wf (hr, msg) \<Longrightarrow>
      holds log' off (es @ [(hr, msg)])"
proof -
  let ?L = "length (stream es)"
  note s = stored_entry [OF ok h b1 b2 room]
  have hh: "off < lg_size log" "(off + ?L) mod lg_size log = w_off log" "\<forall>e\<in>set es. entry_wf e"
    using h by (auto simp: holds_def)
  show "w_off log' = w_off log \<Longrightarrow> holds log' off es" using h s(1) l by (simp add: holds_def)
  have len: "length b2 = lg_size log" using b1 b2 ring_okD(1) [OF ok] by (simp add: ring_written_def)
  assume w: "w_off log' = (w_off log + (hdr_len + length msg)) mod lg_size log" and wf: "entry_wf (hr, msg)"
  have "ring_get b2 off (?L + (hdr_len + length msg)) = stream es @ enc_header hr @ msg"
    using ring_get_add [of b2 off ?L "hdr_len + length msg"] s hh(2) len by simp
  moreover have "(off + (?L + (hdr_len + length msg))) mod lg_size log = w_off log'"
    using w hh(2) mod_add_left_eq [of "off + ?L" "lg_size log" "hdr_len + length msg"] by (simp add: add.assoc)
  ultimately show "holds log' off (es @ [(hr, msg)])"
    using hh wf room l by (simp add: holds_def enc_def)
qed

section \<open>The whole write\<close>

definition pulled :: "logger_log \<Rightarrow> nat \<Rightarrow> nat \<Rightarrow> nat" where
  "pulled log len off = the (pull_forward log len off)"

definition new_entry :: "log_task \<Rightarrow> iov_iter \<Rightarrow> log_entry" where
  "new_entry t src =
     (let c = min (it_count src) LOGGER_ENTRY_MAX_PAYLOAD in (write_header t c, take c (it_data src)))"

text \<open>The announced bytes can all be read.\<close>

definition iter_complete :: "iov_iter \<Rightarrow> bool" where
  "iter_complete src \<longleftrightarrow> min (it_count src) LOGGER_ENTRY_MAX_PAYLOAD \<le> length (it_data src)"

lemma those_map_Some: "(\<forall>x\<in>set xs. f x = Some (g x)) \<Longrightarrow> those (map f xs) = Some (map g xs)"
  by (induction xs) auto

lemma fix_up_readers_pulled:
  assumes ok: "log_ok log" and len: "0 < len" "len \<le> hdr_len + LOGGER_ENTRY_MAX_PAYLOAD"
  shows "fix_up_readers log len = Some (log\<lparr>lg_head := pulled log len (lg_head log),
    lg_readers := map (\<lambda>r. r\<lparr>r_off := pulled log len (r_off r)\<rparr>) (lg_readers log)\<rparr>)"
proof -
  have r: "ring_ok log" using ok by (simp add: log_ok_def)
  have p: "pull_forward log len off = Some (pulled log len off)" if "\<exists>es. holds log off es" for off
    using that pull_forward_holds [OF r _ len] unfolding pulled_def by (metis option.sel)
  have "pull_forward log len (lg_head log) = Some (pulled log len (lg_head log))"
    using ok p by (simp add: log_ok_def)
  moreover have "those (map (\<lambda>r. map_option (\<lambda>o'. r\<lparr>r_off := o'\<rparr>) (pull_forward log len (r_off r))) (lg_readers log)) =
      Some (map (\<lambda>r. r\<lparr>r_off := pulled log len (r_off r)\<rparr>) (lg_readers log))"
    by (rule those_map_Some) (use ok p in \<open>simp add: log_ok_def\<close>)
  ultimately show ?thesis by (simp add: fix_up_readers_def)
qed

lemma write_count:
  assumes "0 < it_count src"
  defines "c \<equiv> min (it_count src) LOGGER_ENTRY_MAX_PAYLOAD"
  shows "unat (en_len (write_header t c)) = c" and "0 < c" and "c \<le> LOGGER_ENTRY_MAX_PAYLOAD"
    and "en_len (write_header t c) \<noteq> 0"
proof -
  show c: "0 < c" "c \<le> LOGGER_ENTRY_MAX_PAYLOAD" using assms by (auto simp: LOGGER_ENTRY_MAX_PAYLOAD_def)
  then have "c < 2 ^ 16" by (simp add: LOGGER_ENTRY_MAX_PAYLOAD_def)
  then show u: "unat (en_len (write_header t c)) = c" by (simp add: write_header_def unat_of_nat)
  then show "en_len (write_header t c) \<noteq> 0" using c(1) by (metis less_irrefl unat_0)
qed

text \<open>
  A write: offsets are pulled forward, every stream loses \<open>k\<close> of its
  oldest entries, none if there was room, and gains the new entry if the payload
  could be read.
\<close>

lemma write_iter_streams:
  assumes ok: "log_ok log" and pos: "0 < it_count src"
  defines "n \<equiv> hdr_len + min (it_count src) LOGGER_ENTRY_MAX_PAYLOAD"
  shows "\<exists>log' rc. logger_write_iter t src log = Some (log', rc) \<and> ring_ok log' \<and>
    lg_size log' = lg_size log \<and> lg_minor log' = lg_minor log \<and> lg_head log' = pulled log n (lg_head log) \<and>
    lg_readers log' = map (\<lambda>r. r\<lparr>r_off := pulled log n (r_off r)\<rparr>) (lg_readers log) \<and>
    rc = (if iter_complete src
          then int (min (min (it_count src) LOGGER_ENTRY_MAX_PAYLOAD)
                      (lg_size log - logger_offset log (w_off log + hdr_len)))
          else - EFAULT) \<and>
    (\<forall>off es. holds log off es \<longrightarrow>
       (\<exists>k. holds log' (pulled log n off) (drop k es @ (if iter_complete src then [new_entry t src] else [])) \<and>
            (k = 0 \<longleftrightarrow> length (stream es) + n < lg_size log \<or> es = [])))"
proof -
  let ?c = "min (it_count src) LOGGER_ENTRY_MAX_PAYLOAD" and ?sz = "lg_size log"
  let ?h = "write_header t ?c" and ?m = "min ?c (length (it_data src))"
  let ?log1 = "log\<lparr>lg_head := pulled log n (lg_head log),
    lg_readers := map (\<lambda>r. r\<lparr>r_off := pulled log n (r_off r)\<rparr>) (lg_readers log)\<rparr>"
  have r: "ring_ok log" using ok by (simp add: log_ok_def)
  note c = write_count(1) [OF pos, of t] write_count(2,3) [OF pos] write_count(4) [OF pos, of t] and d = ring_okD [OF r]
  have n: "0 < n" "n \<le> hdr_len + LOGGER_ENTRY_MAX_PAYLOAD" "n < ?sz" "?c \<le> ?sz"
    using c d(5) by (auto simp: n_def hdr_len_def)
  have r1: "ring_ok ?log1" using r by (simp add: ring_ok_def)
  obtain b1 where b1: "put_header ?log1 ?h = Some (?log1\<lparr>lg_buffer := b1\<rparr>)"
      "ring_written (lg_buffer log) (w_off log) (enc_header ?h) b1"
    using put_header_written [OF r1] by auto
  let ?log2 = "?log1\<lparr>lg_buffer := b1\<rparr>" and ?w = "logger_offset log (w_off log + hdr_len)"
  have lb1: "length b1 = ?sz" using b1(2) d(1) by (simp add: ring_written_def)
  have r2: "ring_ok ?log2" using r lb1 by (simp add: ring_ok_def)
  have off2: "logger_offset ?log2 = logger_offset log" by (simp add: fun_eq_iff logger_offset_def)
  obtain b2 where b2: "ring_written b1 ?w (take ?m (it_data src)) b2"
      "put_payload ?log2 ?c src = Some (if ?m = ?c
         then (?log2\<lparr>lg_buffer := b2, w_off := logger_offset log (?w + ?c)\<rparr>, int (min ?c (?sz - ?w)))
         else (?log2\<lparr>lg_buffer := b2\<rparr>, - EFAULT))"
    using put_payload_written [OF r2, of ?c src] n(4) off2 by auto
  have full: "?m = ?c \<longleftrightarrow> iter_complete src" by (auto simp: iter_complete_def)
  let ?log' = "if iter_complete src then ?log1\<lparr>lg_buffer := b2, w_off := logger_offset log (?w + ?c)\<rparr>
    else ?log1\<lparr>lg_buffer := b2\<rparr>"
  have res: "logger_write_iter t src log = Some (?log', if iter_complete src then int (min ?c (?sz - ?w)) else - EFAULT)"
    using c b1(1) b2(2) fix_up_readers_pulled [OF ok n(1,2)] full
    by (simp add: logger_write_iter_def n_def [symmetric] Let_def)
  have lb2: "length b2 = ?sz" using b2(1) lb1 by (simp add: ring_written_def)
  have w': "w_off ?log' = (if iter_complete src then (w_off log + n) mod ?sz else w_off log)"
    by (simp add: logger_offset_mod [OF r] n_def mod_add_left_eq add.assoc)
  have r': "ring_ok ?log'" using r lb2 w' d(4) by (auto simp: ring_ok_def)
  have str: "\<exists>k. holds ?log' (pulled log n off) (drop k es @ (if iter_complete src then [new_entry t src] else [])) \<and>
            (k = 0 \<longleftrightarrow> length (stream es) + n < ?sz \<or> es = [])" if h: "holds log off es" for off es
  proof -
    obtain k where k: "holds log (pulled log n off) (drop k es)" "length (stream (drop k es)) + n < ?sz"
        "k = 0 \<longleftrightarrow> length (stream es) + n < ?sz \<or> es = []"
      using pull_forward_holds [OF r h n(1,2)] unfolding pulled_def by (metis option.sel)
    have wf: "entry_wf (new_entry t src)" if "iter_complete src"
      using that c by (auto simp: entry_wf_def new_entry_def iter_complete_def Let_def)
    have room: "length (stream (drop k es)) + hdr_len + length (take ?m (it_data src)) < ?sz"
      using k(2) by (simp add: n_def)
    note st = stored_holds [OF r k(1) b1(2) b2(1) room, of ?log']
    have "holds ?log' (pulled log n off) (drop k es @ (if iter_complete src then [new_entry t src] else []))"
    proof (cases "iter_complete src")
      case True
      then have "(?h, take ?m (it_data src)) = new_entry t src" "length (take ?m (it_data src)) = ?c"
        using full by (auto simp: new_entry_def Let_def)
      then show ?thesis using True st(2) wf w' by (simp add: n_def)
    next
      case False
      then show ?thesis using st(1) w' by simp
    qed
    then show ?thesis using k(3) by blast
  qed
  show ?thesis using res r' str by (intro exI [of _ ?log']) auto
qed

section \<open>Reading\<close>

text \<open>What a reader may see of its unread entries.\<close>

definition visible :: "logger_reader \<Rightarrow> u32 \<Rightarrow> log_entry list \<Rightarrow> log_entry list" where
  "visible r euid es = (if r_all r then es else dropWhile (\<lambda>e. en_euid (fst e) \<noteq> euid) es)"

lemma next_by_uid_holds:
  assumes ok: "ring_ok log" and "holds log off es" and "length es < fuel"
  shows "\<exists>off'. next_by_uid fuel log off euid = Some off' \<and> holds log off' (dropWhile (\<lambda>e. en_euid (fst e) \<noteq> euid) es)"
  using assms(2,3)
proof (induction es arbitrary: off fuel)
  case Nil
  then show ?case using holds_Nil [OF ok] by (cases fuel) auto
next
  case (Cons e es)
  then obtain n where n: "fuel = Suc n" "length es < n" by (cases fuel) auto
  note c = holds_Cons [OF ok Cons.prems(1)]
  have "holds log (logger_offset log (off + (hdr_len + unat (en_len (fst e))))) es"
    using c(3,4) entry_length by metis
  from Cons.IH [OF this n(2)] show ?case using n c(1,5) Cons.prems(1) by auto
qed

lemma skip_foreign_holds:
  assumes ok: "ring_ok log" and h: "holds log (r_off r) es"
  shows "\<exists>off'. skip_foreign euid log r = Some (r\<lparr>r_off := off'\<rparr>) \<and> holds log off' (visible r euid es)"
proof (cases "r_all r")
  case True
  then show ?thesis using h by (intro exI [of _ "r_off r"]) (simp add: skip_foreign_def visible_def)
next
  case False
  have "hdr_len * length es < lg_size log" using h length_le_stream [of es] by (simp add: holds_def)
  then have "length es < Suc (lg_size log)" by (simp add: hdr_len_def)
  from next_by_uid_holds [OF ok h this, of euid] obtain off' where
    "next_by_uid (Suc (lg_size log)) log (r_off r) euid = Some off'"
    "holds log off' (dropWhile (\<lambda>e. en_euid (fst e) \<noteq> euid) es)" by blast
  then show ?thesis using False
    by (auto simp: skip_foreign_def visible_def get_next_entry_by_uid_def simp del: next_by_uid.simps)
qed

lemma get_entry_msg_len_holds:
  assumes "ring_ok log" and "holds log off (e # es)"
  shows "get_entry_msg_len log off = Some (length (snd e))"
  using holds_Cons(1,4) [OF assms] by (simp add: get_entry_msg_len_def entry_wf_def)

lemma user_header_length: "length (user_header ver e) = get_user_hdr_len ver"
  by (simp add: user_header_def get_user_hdr_len_def compat_len_def hdr_len_def enc_header_def)

text \<open>Copying out the message gives exactly its bytes, also around the end of the ring.\<close>

lemma do_read_entry:
  assumes ok: "ring_ok log" and h: "holds log (r_off r) (e # es)"
  shows "do_read_log_to_user uok log r (get_user_hdr_len (r_ver r) + length (snd e)) =
      Some (r, - EFAULT, []) \<or>
    (\<exists>off'. do_read_log_to_user uok log r (get_user_hdr_len (r_ver r) + length (snd e)) =
       Some (r\<lparr>r_off := off'\<rparr>, int (get_user_hdr_len (r_ver r) + length (snd e)),
             user_header (r_ver r) (fst e) @ snd e) \<and> holds log off' es)"
    and "(\<And>o' n. uok o' n) \<Longrightarrow>
      do_read_log_to_user uok log r (get_user_hdr_len (r_ver r) + length (snd e)) \<noteq> Some (r, - EFAULT, [])"
proof -
  let ?b = "lg_buffer log" and ?ms = "logger_offset log (r_off r + hdr_len)" and ?c = "length (snd e)"
  define l where "l = min ?c (lg_size log - ?ms)"
  note c = holds_Cons [OF ok h] and d = ring_okD [OF ok]
  have ms: "?ms = (r_off r + hdr_len) mod lg_size log" "?ms < lg_size log"
    using logger_offset_mod [OF ok] d(4) by auto
  have "ring_get ?b (r_off r) (hdr_len + ?c) = enc_header (fst e) @ snd e" using c(2) by (simp add: enc_def)
  then have "ring_get ?b ?ms ?c = snd e"
    using ring_get_add [of ?b "r_off r" hdr_len ?c] d(1) ms(1) by (simp add: append_eq_append_conv)
  moreover have le: "?c \<le> lg_size log" using c(4) d(5) by (simp add: entry_wf_def)
  ultimately have msg: "take l (drop ?ms ?b) @ take (?c - l) ?b = snd e"
    using ring_get_split [of ?ms ?b ?c] ms(2) d(1) by (simp add: l_def)
  have m1: "memcpy (replicate l 0) 0 ?b ?ms l = Some (take l (drop ?ms ?b))"
    by (rule memcpy_fill) (use ms(2) d(1) in \<open>auto simp: l_def\<close>)
  have m2: "memcpy (replicate (?c - l) 0) 0 ?b 0 (?c - l) = Some (take (?c - l) ?b)"
    using memcpy_fill [of 0 "?c - l" ?b] le d(1) by simp
  have nx: "holds log (logger_offset log (r_off r + hdr_len + ?c)) es"
    using c(3) by (simp add: enc_length add.assoc)
  let ?ul = "get_user_hdr_len (r_ver r)"
  let ?good = "uok 0 ?ul \<and> uok ?ul l \<and> (?c = l \<or> uok (?ul + l) (?c - l))"
  have "do_read_log_to_user uok log r (?ul + ?c) =
      Some (if ?good
            then (r\<lparr>r_off := logger_offset log (r_off r + hdr_len + ?c)\<rparr>, int (?c + ?ul),
                  user_header (r_ver r) (fst e) @ take l (drop ?ms ?b) @ (if ?c = l then [] else take (?c - l) ?b))
            else (r, - EFAULT, []))"
    using m1 m2
    by (simp add: do_read_log_to_user_def c(1) copy_header_to_user_def user_header_length l_def [symmetric] Let_def)
  moreover have "take l (drop ?ms ?b) @ (if ?c = l then [] else take (?c - l) ?b) = snd e"
    using msg by (cases "?c = l") simp_all
  ultimately have eq: "do_read_log_to_user uok log r (?ul + ?c) =
      Some (if ?good then (r\<lparr>r_off := logger_offset log (r_off r + hdr_len + ?c)\<rparr>, int (?ul + ?c),
                           user_header (r_ver r) (fst e) @ snd e)
            else (r, - EFAULT, []))"
    by (simp only: add.commute)
  show "do_read_log_to_user uok log r (?ul + ?c) = Some (r, - EFAULT, []) \<or>
    (\<exists>off'. do_read_log_to_user uok log r (?ul + ?c) =
       Some (r\<lparr>r_off := off'\<rparr>, int (?ul + ?c), user_header (r_ver r) (fst e) @ snd e) \<and> holds log off' es)"
    unfolding eq using nx by (cases ?good) auto
  show "do_read_log_to_user uok log r (?ul + ?c) \<noteq> Some (r, - EFAULT, [])" if "\<And>o' n. uok o' n"
    unfolding eq using that by simp
qed

lemma read_entry_holds:
  assumes ok: "ring_ok log" and h: "holds log (r_off r) es"
  shows "\<exists>off' res. read_entry uok euid count log r = Some (r\<lparr>r_off := off'\<rparr>, res) \<and>
    (case visible r euid es of
       [] \<Rightarrow> res = ReadAgain \<and> holds log off' []
     | e # rest \<Rightarrow>
         let n = get_user_hdr_len (r_ver r) + length (snd e) in
         if count < n then res = ReadDone (- EINVAL) [] \<and> holds log off' (e # rest)
         else (res = ReadDone (- EFAULT) [] \<and> holds log off' (e # rest) \<and> \<not> (\<forall>o' n. uok o' n)) \<or>
              (res = ReadDone (int n) (user_header (r_ver r) (fst e) @ snd e) \<and> holds log off' rest))"
proof -
  obtain off1 where sk: "skip_foreign euid log r = Some (r\<lparr>r_off := off1\<rparr>)" "holds log off1 (visible r euid es)"
    using skip_foreign_holds [OF ok h] by blast
  show ?thesis
  proof (cases "visible r euid es")
    case Nil
    then have "off1 = w_off log" using sk(2) holds_Nil [OF ok] by simp
    then show ?thesis using sk Nil
      by (intro exI [of _ "w_off log"] exI [of _ ReadAgain]) (simp add: read_entry_def)
  next
    case (Cons e rest)
    let ?r = "r\<lparr>r_off := off1\<rparr>" and ?n = "get_user_hdr_len (r_ver r) + length (snd e)"
    have h1: "holds log (r_off ?r) (e # rest)" using sk(2) Cons by simp
    note ml = get_entry_msg_len_holds [OF ok h1] and ne = holds_Cons(5) [OF ok h1]
    have step: "read_entry uok euid count log r =
        (if count < ?n then Some (?r, ReadDone (- EINVAL) [])
         else do { (r', rc, out) \<leftarrow> do_read_log_to_user uok log ?r ?n; Some (r', ReadDone rc out) })"
      using sk(1) ml ne by (auto simp: read_entry_def Let_def)
    show ?thesis
    proof (cases "count < ?n")
      case True
      then show ?thesis using step h1 Cons by (intro exI [of _ off1] exI [of _ "ReadDone (- EINVAL) []"]) simp
    next
      case False
      from do_read_entry [OF ok h1, of uok] consider
        (fault) "do_read_log_to_user uok log ?r ?n = Some (?r, - EFAULT, [])" "\<not> (\<forall>o' n. uok o' n)"
        | (good) off' where "do_read_log_to_user uok log ?r ?n =
            Some (r\<lparr>r_off := off'\<rparr>, int ?n, user_header (r_ver r) (fst e) @ snd e)" "holds log off' rest"
        by auto
      then show ?thesis
      proof cases
        case fault
        then show ?thesis using step False h1 Cons
          by (intro exI [of _ off1] exI [of _ "ReadDone (- EFAULT) []"]) simp
      next
        case (good off')
        then show ?thesis using step False Cons
          by (intro exI [of _ off'] exI [of _ "ReadDone (int ?n) (user_header (r_ver r) (fst e) @ snd e)"]) simp
      qed
    qed
  qed
qed

section \<open>Readers\<close>

lemma find_readerD: "find_reader log i = Some r \<Longrightarrow> r \<in> set (lg_readers log) \<and> r_id r = i"
  by (auto simp: find_reader_def find_Some_iff)

lemma holds_readers [simp]:
  "holds (log\<lparr>lg_readers := rs\<rparr>) = holds log" "ring_ok (log\<lparr>lg_readers := rs\<rparr>) = ring_ok log"
  "holds (log\<lparr>lg_head := hd'\<rparr>) = holds log" "ring_ok (log\<lparr>lg_head := hd'\<rparr>) = ring_ok log"
  by (auto simp: fun_eq_iff holds_def ring_ok_def)

lemma put_reader_ok:
  assumes "log_ok log" and "holds log (r_off r) es"
  shows "log_ok (put_reader log r)"
proof -
  have "r_id \<circ> (\<lambda>q. if r_id q = r_id r then r else q) = r_id" by auto
  then show ?thesis using assms unfolding log_ok_def put_reader_def by auto
qed

lemma find_map_readers:
  assumes "\<And>r. r_id (f r) = r_id r" and "find (\<lambda>r. r_id r = i) rs = Some r"
  shows "find (\<lambda>r. r_id r = i) (map f rs) = Some (f r)"
  using assms(2) by (induction rs) (auto simp: assms(1) split: if_splits)

lemma find_put_reader:
  assumes "find_reader log i = Some r" and "r_id r' = i"
  shows "find_reader (put_reader log r') i = Some r'"
  using assms find_map_readers [of "\<lambda>q. if r_id q = r_id r' then r' else q" i "lg_readers log" r]
    find_readerD [of log i r]
  by (auto simp: find_reader_def put_reader_def)

lemma put_reader_same [simp]: "w_off (put_reader log r) = w_off log" "holds (put_reader log r) = holds log"
    "lg_size (put_reader log r) = lg_size log"
  by (auto simp: put_reader_def)

section \<open>All operations keep the invariant\<close>

lemma write_keeps_ok:
  assumes ok: "log_ok log" and w: "logger_write_iter t src log = Some (log', rc)"
  shows "log_ok log'"
proof (cases "it_count src = 0")
  case True
  then show ?thesis using w ok by (simp add: logger_write_iter_def write_header_def)
next
  case False
  then have pos: "0 < it_count src" by simp
  let ?n = "hdr_len + min (it_count src) LOGGER_ENTRY_MAX_PAYLOAD"
  have h: "ring_ok log'" "lg_head log' = pulled log ?n (lg_head log)"
      "lg_readers log' = map (\<lambda>r. r\<lparr>r_off := pulled log ?n (r_off r)\<rparr>) (lg_readers log)"
    and st: "\<And>off es. holds log off es \<Longrightarrow> \<exists>es'. holds log' (pulled log ?n off) es'"
    using write_iter_streams [OF ok pos, of t] w by auto
  have "map r_id (lg_readers log') = map r_id (lg_readers log)" using h(3) by (simp add: comp_def)
  then have "distinct (map r_id (lg_readers log'))" using ok by (simp add: log_ok_def)
  moreover have "\<exists>es. holds log' (lg_head log') es" using ok h(2) st by (auto simp: log_ok_def)
  moreover have "\<exists>es. holds log' (r_off r) es" if r: "r \<in> set (lg_readers log')" for r
  proof -
    obtain q where "q \<in> set (lg_readers log)" "r_off r = pulled log ?n (r_off q)" using r h(3) by auto
    then show ?thesis using ok st by (auto simp: log_ok_def)
  qed
  ultimately show ?thesis using h(1) by (simp add: log_ok_def)
qed

lemma read_entry_off:
  assumes "ring_ok log" and "holds log (r_off r) es" and r: "read_entry uok euid count log r = Some (r', res)"
  shows "\<exists>off' es'. r' = r\<lparr>r_off := off'\<rparr> \<and> holds log off' es'"
proof -
  from read_entry_holds [OF assms(1,2), of uok euid count] r obtain off' where
    r': "r' = r\<lparr>r_off := off'\<rparr>" and c: "case visible r euid es of
       [] \<Rightarrow> res = ReadAgain \<and> holds log off' []
     | e # rest \<Rightarrow>
         let n = get_user_hdr_len (r_ver r) + length (snd e) in
         if count < n then res = ReadDone (- EINVAL) [] \<and> holds log off' (e # rest)
         else (res = ReadDone (- EFAULT) [] \<and> holds log off' (e # rest) \<and> \<not> (\<forall>o' n. uok o' n)) \<or>
              (res = ReadDone (int n) (user_header (r_ver r) (fst e) @ snd e) \<and> holds log off' rest)" by auto
  have "\<exists>es'. holds log off' es'"
    using c by (cases "visible r euid es") (auto simp: Let_def split: if_splits)
  then show ?thesis using r' by blast
qed

lemma read_keeps_ok:
  assumes ok: "log_ok log" and f: "find_reader log i = Some r"
    and r: "read_entry uok euid count log r = Some (r', res)"
  shows "log_ok (put_reader log r')"
proof -
  have "ring_ok log" "\<exists>es. holds log (r_off r) es" using ok find_readerD [OF f] by (auto simp: log_ok_def)
  then obtain off' es' where "r' = r\<lparr>r_off := off'\<rparr>" "holds log off' es'" using read_entry_off r by blast
  then show ?thesis using put_reader_ok [OF ok, of r' es'] by simp
qed

lemma skip_keeps_ok:
  assumes ok: "log_ok log" and f: "find_reader log i = Some r" and s: "skip_foreign euid log r = Some r'"
  shows "log_ok (put_reader log r')"
proof -
  have "ring_ok log" "\<exists>es. holds log (r_off r) es" using ok find_readerD [OF f] by (auto simp: log_ok_def)
  then obtain off' es' where "skip_foreign euid log r = Some (r\<lparr>r_off := off'\<rparr>)" "holds log off' es'"
    using skip_foreign_holds by blast
  then show ?thesis using put_reader_ok [OF ok, of r' es'] s by simp
qed

lemma with_reader_ok:
  assumes ok: "log_ok log" and w: "with_reader f log k = Some (log', rc)"
    and k: "\<And>i r r' rc. find_reader log i = Some r \<Longrightarrow> k r = Some (r', rc) \<Longrightarrow> log_ok (put_reader log r')"
  shows "log_ok log'"
  using assms by (auto simp: with_reader_def bind_eq_Some_conv split: private_data.splits if_splits)

lemma put_same_off_ok:
  assumes "log_ok log" and "find_reader log i = Some r" and "r_off r' = r_off r"
  shows "log_ok (put_reader log r')"
proof -
  obtain es where "holds log (r_off r') es" using assms find_readerD [OF assms(2)] by (auto simp: log_ok_def)
  then show ?thesis by (rule put_reader_ok [OF assms(1)])
qed

lemma ioctl_keeps_ok:
  assumes ok: "log_ok log" and c: "logger_ioctl euid trusted f cmd log = Some (log', rc)"
  shows "log_ok log'"
proof (cases cmd)
  case LOGGER_GET_NEXT_ENTRY_LEN
  then show ?thesis using c skip_keeps_ok [OF ok, of _ _ euid]
    by (auto elim!: with_reader_ok [OF ok] simp: bind_eq_Some_conv split: if_splits)
next
  case LOGGER_FLUSH_LOG
  have "holds log (w_off log) []" using ok holds_Nil by (simp add: log_ok_def)
  then have "log_ok (log\<lparr>lg_readers := map (\<lambda>r. r\<lparr>r_off := w_off log\<rparr>) (lg_readers log), lg_head := w_off log\<rparr>)"
    using ok by (auto simp: log_ok_def comp_def)
  then show ?thesis using LOGGER_FLUSH_LOG c ok by (auto split: if_splits)
next
  case (LOGGER_SET_VERSION arg)
  then show ?thesis using c put_same_off_ok [OF ok]
    by (auto elim!: with_reader_ok [OF ok] simp: logger_set_version_def split: option.splits if_splits)
qed (use c ok put_same_off_ok [OF ok] in \<open>auto elim!: with_reader_ok [OF ok]\<close>)

text \<open>
  The log between system calls. An open searches the list of all logs by minor
  number, which are distinct, and \<open>kmalloc\<close> returns an address that no
  other reader has; the step is what the open makes of any one log of the list.
\<close>

inductive log_step :: "logger_log \<Rightarrow> logger_log \<Rightarrow> bool" where
  ls_write: "logger_write_iter t src log = Some (log', rc) \<Longrightarrow> log_step log log'"
| ls_read: "find_reader log i = Some r \<Longrightarrow> read_entry uok euid count log r = Some (r', res) \<Longrightarrow>
    log_step log (put_reader log r')"
| ls_open: "logger_open seek fresh trusted logs minor rd wr = (logs', rc, f) \<Longrightarrow>
    distinct (map lg_minor logs) \<Longrightarrow> \<forall>j. fresh = Some j \<longrightarrow> j \<notin> r_id ` set (lg_readers (logs ! k)) \<Longrightarrow>
    k < length logs \<Longrightarrow> log_step (logs ! k) (logs' ! k)"
| ls_release: "logger_release f log = (log', rc) \<Longrightarrow> log_step log log'"
| ls_poll: "logger_poll euid f log = Some (log', b) \<Longrightarrow> log_step log log'"
| ls_ioctl: "logger_ioctl euid trusted f cmd log = Some (log', rc) \<Longrightarrow> log_step log log'"

lemma release_ok: "log_ok log \<Longrightarrow> logger_release f log = (log', rc) \<Longrightarrow> log_ok log'"
  by (auto simp: logger_release_def log_ok_def distinct_map_filter split: private_data.splits if_splits)

lemma open_ok:
  assumes "logger_open seek fresh trusted logs minor rd wr = (logs', rc, f)" and d: "distinct (map lg_minor logs)"
    and i: "\<forall>j. fresh = Some j \<longrightarrow> j \<notin> r_id ` set (lg_readers (logs ! k))" and k: "k < length logs" and ok: "log_ok (logs ! k)"
  shows "log_ok (logs' ! k)"
proof -
  let ?r = "\<lambda>i log. \<lparr>r_id = i, r_off = lg_head log, r_all = trusted, r_ver = 1\<rparr>"
  let ?add = "\<lambda>j log. map (\<lambda>l. if lg_minor l = minor then l\<lparr>lg_readers := lg_readers l @ [?r j log]\<rparr> else l) logs"
  show ?thesis
  proof (cases "seek = 0 \<and> rd \<and> fresh \<noteq> None \<and> get_log_from_minor logs minor \<noteq> None")
    case True
    then obtain j log where jl: "fresh = Some j" "get_log_from_minor logs minor = Some log" by blast
    then have new: "logs' = ?add j log" using assms(1) True by (simp add: logger_open_def)
    have "logs ! k = log" if "lg_minor (logs ! k) = minor"
      using jl(2) that d k by (auto simp: get_log_from_minor_def find_Some_iff distinct_conv_nth)
    then show ?thesis using jl(1) new i k ok by (auto simp: log_ok_def)
  next
    case False
    then have "logs' = logs" using assms(1) by (auto simp: logger_open_def split: option.splits if_splits)
    then show ?thesis using ok by simp
  qed
qed

lemma log_step_ok: "log_step log log' \<Longrightarrow> log_ok log \<Longrightarrow> log_ok log'"
proof (induction rule: log_step.induct)
  case (ls_poll euid f log log' b)
  then show ?case using skip_keeps_ok
    by (fastforce simp: logger_poll_def bind_eq_Some_conv split: private_data.splits)
qed (blast intro: write_keeps_ok read_keeps_ok open_ok release_ok ioctl_keeps_ok)+

section \<open>Witness data\<close>

definition demo_log :: logger_log where
  "demo_log = \<lparr>lg_buffer = replicate 16384 0, lg_minor = 60, lg_name = ''log_main'',
     lg_readers = [\<lparr>r_id = 1, r_off = 0, r_all = True, r_ver = 1\<rparr>], w_off = 0, lg_head = 0, lg_size = 16384\<rparr>"

definition demo_task :: log_task where
  "demo_task = \<lparr>t_tgid = 100, t_pid = 101, t_sec = 5, t_nsec = 6, t_euid = 1000\<rparr>"

definition demo_iter :: iov_iter where
  "demo_iter = \<lparr>it_count = 3, it_data = [65, 66, 67]\<rparr>"

definition demo_entry :: log_entry where
  "demo_entry = (write_header demo_task 3, [65, 66, 67])"

text \<open>A log that holds one entry, at the start of its buffer.\<close>

definition demo_full :: logger_log where
  "demo_full = demo_log\<lparr>lg_buffer := enc demo_entry @ replicate 16357 0, w_off := 27\<rparr>"

lemma demo_log_ok: "log_ok demo_log" "holds demo_log 0 []"
proof -
  have r: "ring_ok demo_log"
    by (auto simp: ring_ok_def demo_log_def hdr_len_def LOGGER_ENTRY_MAX_PAYLOAD_def intro: exI [of _ 14])
  then show h: "holds demo_log 0 []" by (simp add: holds_Nil demo_log_def)
  show "log_ok demo_log" using r h by (auto simp: log_ok_def demo_log_def)
qed

lemma demo_reader:
  "find_reader demo_log 1 = Some \<lparr>r_id = 1, r_off = 0, r_all = True, r_ver = 1\<rparr>"
  "find_reader demo_full 1 = Some \<lparr>r_id = 1, r_off = 0, r_all = True, r_ver = 1\<rparr>"
  by (simp_all add: find_reader_def demo_log_def demo_full_def)

lemma demo_entry_wf: "entry_wf demo_entry" "length (enc demo_entry) = 27"
  by (auto simp: entry_wf_def demo_entry_def write_header_def LOGGER_ENTRY_MAX_PAYLOAD_def enc_length hdr_len_def
      unat_of_nat)

lemma demo_full_ok: "log_ok demo_full" "holds demo_full 0 [demo_entry]"
proof -
  have r: "ring_ok demo_full" using demo_entry_wf(2)
    by (auto simp: ring_ok_def demo_full_def demo_log_def hdr_len_def LOGGER_ENTRY_MAX_PAYLOAD_def intro: exI [of _ 14])
  have "ring_get (lg_buffer demo_full) 0 27 = enc demo_entry"
    using ring_get_split [of 0 "lg_buffer demo_full" 27] demo_entry_wf(2)
    by (simp add: demo_full_def)
  then show h: "holds demo_full 0 [demo_entry]"
    using demo_entry_wf by (simp add: holds_def) (simp add: demo_full_def demo_log_def)
  show "log_ok demo_full" using r h by (auto simp: log_ok_def demo_full_def demo_log_def)
qed

section \<open>Properties\<close>

text \<open>
  C2. Writing appends. A write whose payload can be read adds exactly one entry,
  with the caller's ids and at most 4076 bytes of payload, after what every
  reader had unread. A reader loses some of the oldest of its unread entries
  exactly if the ring has no room for them beside the new one. The invariant is
  kept and no access leaves the buffer.
\<close>

theorem write_appends_entry:
  assumes "log_ok log" and "0 < it_count src" and "iter_complete src"
    and "find_reader log i = Some r" and "holds log (r_off r) es"
  shows "\<exists>log' rc r' k. logger_write_iter t src log = Some (log', rc) \<and> log_ok log' \<and>
    find_reader log' i = Some r' \<and> holds log' (r_off r') (drop k es @ [new_entry t src]) \<and>
    (k = 0 \<longleftrightarrow> length (stream es) + length (enc (new_entry t src)) < lg_size log \<or> es = [])"
proof -
  let ?n = "hdr_len + min (it_count src) LOGGER_ENTRY_MAX_PAYLOAD"
  have len: "length (enc (new_entry t src)) = ?n"
    using assms(3) by (simp add: enc_length new_entry_def iter_complete_def Let_def)
  obtain log' rc where w: "logger_write_iter t src log = Some (log', rc)"
      "lg_readers log' = map (\<lambda>r. r\<lparr>r_off := pulled log ?n (r_off r)\<rparr>) (lg_readers log)"
    and all: "\<forall>off es. holds log off es \<longrightarrow>
       (\<exists>k. holds log' (pulled log ?n off) (drop k es @ (if iter_complete src then [new_entry t src] else [])) \<and>
            (k = 0 \<longleftrightarrow> length (stream es) + ?n < lg_size log \<or> es = []))"
    using write_iter_streams [OF assms(1,2), of t] by (elim exE conjE) (rule that)
  obtain k where k: "holds log' (pulled log ?n (r_off r)) (drop k es @ [new_entry t src])"
      "k = 0 \<longleftrightarrow> length (stream es) + ?n < lg_size log \<or> es = []"
    using all [rule_format, OF assms(5)] assms(3) by (elim exE conjE) (rule that; simp)
  have "find_reader log' i = Some (r\<lparr>r_off := pulled log ?n (r_off r)\<rparr>)"
    using find_map_readers [of "\<lambda>r. r\<lparr>r_off := pulled log ?n (r_off r)\<rparr>" i "lg_readers log" r] assms(4) w(2)
    by (simp add: find_reader_def)
  then show ?thesis using w(1) k write_keeps_ok [OF assms(1) w(1)] unfolding len
    by (intro exI [of _ log'] exI [of _ rc] exI [of _ "r\<lparr>r_off := pulled log ?n (r_off r)\<rparr>"] exI [of _ k]) simp
qed

theorem write_appends_entry_witness:
  "\<exists>log' rc r'. logger_write_iter demo_task demo_iter demo_log = Some (log', rc) \<and> find_reader log' 1 = Some r' \<and>
     holds log' (r_off r') [new_entry demo_task demo_iter]"
proof -
  have "iter_complete demo_iter" "0 < it_count demo_iter"
    by (auto simp: demo_iter_def iter_complete_def)
  then show ?thesis using write_appends_entry [OF demo_log_ok(1) _ _ demo_reader(1), of demo_iter "[]" demo_task] demo_log_ok(2)
    by auto
qed

text \<open>
  C3. Reading delivers the oldest unread entry the reader may see: header in the
  reader's ABI version followed by the whole message, also when they lie around
  the end of the ring, and leaves exactly the later entries unread.
\<close>

theorem read_delivers_oldest:
  assumes ok: "log_ok log" and f: "find_reader log i = Some r" and h: "holds log (r_off r) es"
    and v: "visible r euid es = e # rest" and u: "\<And>o' n. uok o' n"
    and n: "get_user_hdr_len (r_ver r) + length (snd e) \<le> count"
  shows "\<exists>log' r'. logger_read uok euid nb sig i count [(id, id)] log =
      Some (log', Some (int (get_user_hdr_len (r_ver r) + length (snd e)), user_header (r_ver r) (fst e) @ snd e)) \<and>
    log_ok log' \<and> find_reader log' i = Some r' \<and> holds log' (r_off r') rest"
proof -
  have ring: "ring_ok log" using ok by (simp add: log_ok_def)
  have "es \<noteq> []" using v by (auto simp: visible_def split: if_splits)
  then have ne: "w_off log \<noteq> r_off r" using holds_empty_iff [OF ring h] by auto
  obtain off' where r: "read_entry uok euid count log r =
      Some (r\<lparr>r_off := off'\<rparr>, ReadDone (int (get_user_hdr_len (r_ver r) + length (snd e)))
        (user_header (r_ver r) (fst e) @ snd e))" and h': "holds log off' rest"
    using read_entry_holds [OF ring h, of uok euid count] v u n by (auto simp: Let_def)
  have id: "r_id (r\<lparr>r_off := off'\<rparr>) = i" using find_readerD [OF f] by simp
  show ?thesis
    using f ne r read_keeps_ok [OF ok f r] find_put_reader [OF f id] h' by simp
qed

theorem read_delivers_oldest_witness:
  "\<exists>log'. logger_read (\<lambda>_ _. True) 0 True False 1 100 [(id, id)] demo_full =
     Some (log', Some (23, user_header 1 (write_header demo_task 3) @ [65, 66, 67]))"
  using read_delivers_oldest [OF demo_full_ok(1) demo_reader(2), of "[demo_entry]"
      0 demo_entry "[]" "\<lambda>_ _. True" 100 True False] demo_full_ok(2)
  by (auto simp: visible_def get_user_hdr_len_def compat_len_def demo_entry_def simp del: logger_read.simps)

text \<open>
  C34. A reader that was not granted the whole log never gets another user's
  entry: whatever a read returns with a non-negative status is an entry of the
  log whose effective user is the reader's.
\<close>

theorem reader_sees_own_entries:
  assumes ok: "log_ok log" and h: "holds log (r_off r) es" and na: "\<not> r_all r"
    and r: "read_entry uok euid count log r = Some (r', ReadDone rc out)" and nn: "0 \<le> rc"
  shows "\<exists>e\<in>set es. en_euid (fst e) = euid \<and> out = user_header (r_ver r) (fst e) @ snd e"
proof -
  have ring: "ring_ok log" using ok by (simp add: log_ok_def)
  obtain e rest where v: "visible r euid es = e # rest" and out: "out = user_header (r_ver r) (fst e) @ snd e"
    using read_entry_holds [OF ring h, of uok euid count] r nn
    by (cases "visible r euid es") (auto simp: Let_def split: if_splits)
  then have d: "dropWhile (\<lambda>e. en_euid (fst e) \<noteq> euid) es = e # rest" using na by (simp add: visible_def)
  then have "e \<in> set es" by (metis list.set_intros(1) set_dropWhileD)
  moreover have "en_euid (fst e) = euid" using d by (auto simp: dropWhile_eq_Cons_conv)
  ultimately show ?thesis using out by blast
qed

definition own_reader :: logger_reader where
  "own_reader = \<lparr>r_id = 1, r_off = 0, r_all = False, r_ver = 1\<rparr>"

theorem reader_sees_own_entries_witness:
  "\<exists>r' rc out. read_entry (\<lambda>_ _. True) 1000 100 demo_full own_reader = Some (r', ReadDone rc out) \<and>
     out = user_header 1 (fst demo_entry) @ snd demo_entry"
proof -
  have h: "holds demo_full (r_off own_reader) [demo_entry]" using demo_full_ok(2) by (simp add: own_reader_def)
  have v: "visible own_reader 1000 [demo_entry] = [demo_entry]"
    by (simp add: visible_def own_reader_def demo_entry_def write_header_def demo_task_def)
  have ring: "ring_ok demo_full" using demo_full_ok(1) by (simp add: log_ok_def)
  obtain r' rc out where r: "read_entry (\<lambda>_ _. True) 1000 100 demo_full own_reader = Some (r', ReadDone rc out)" "0 \<le> rc"
    using read_entry_holds [OF ring h, of "\<lambda>_ _. True" 1000 100] v demo_entry_wf(2)
    by (auto simp: get_user_hdr_len_def compat_len_def own_reader_def enc_length hdr_len_def)
  have "\<not> r_all own_reader" "r_ver own_reader = 1" by (simp_all add: own_reader_def)
  then show ?thesis using reader_sees_own_entries [OF demo_full_ok(1) h _ r] r(1) by auto
qed

text \<open>
  C33. The invariant of a log holds from its creation on: in every state reached
  by writes (also failing ones), reads, opens, releases, polls and ioctls, the
  start head and every reader stand at an entry and the bytes from there to the
  write head are whole entries.
\<close>

lemma created_ok:
  assumes b: "\<And>n buf. ce_buffer env n = Some buf \<Longrightarrow> length buf = n"
    and "create_log env name (256 * 1024) logs = (logs', ev, 0)"
  shows "\<exists>log. logs' = logs @ [(log, True)] \<and> log_ok log \<and> lg_name log = name \<and> lg_readers log = []"
proof -
  obtain log where log: "logs' = logs @ [(log, True)]" "length (lg_buffer log) = 262144" "lg_size log = 262144"
      "w_off log = 0" "lg_head log = 0" "lg_readers log = []" "lg_name log = name"
    using assms by (auto simp: create_log_def Let_def split: option.splits if_splits prod.splits)
  then have "ring_ok log"
    by (auto simp: ring_ok_def hdr_len_def LOGGER_ENTRY_MAX_PAYLOAD_def intro: exI [of _ 18])
  moreover from this have "holds log (lg_head log) []" using log holds_Nil by simp
  ultimately have "log_ok log" using log(6) by (auto simp: log_ok_def)
  then show ?thesis using log by blast
qed

theorem log_ok_reachable:
  assumes "\<And>n buf. ce_buffer env n = Some buf \<Longrightarrow> length buf = n"
    and "create_log env name (256 * 1024) logs = (logs', ev, 0)"
    and "log_step\<^sup>*\<^sup>* (fst (last logs')) log"
  shows "log_ok log"
proof -
  have "log_ok (fst (last logs'))" using created_ok [OF assms(1,2)] by auto
  with assms(3) show ?thesis by (induction rule: rtranclp_induct) (auto intro: log_step_ok)
qed

definition demo_create :: create_env where
  "demo_create = \<lparr>ce_buffer = (\<lambda>n. Some (replicate n 0)), ce_log = True, ce_name = True, ce_register = (0, 60)\<rparr>"

theorem log_ok_reachable_witness:
  "\<exists>logs' ev. create_log demo_create ''log_main'' (256 * 1024) [] = (logs', ev, 0) \<and> log_ok (fst (last logs'))"
proof -
  obtain logs' ev where c: "create_log demo_create ''log_main'' (256 * 1024) [] = (logs', ev, 0)"
    by (simp add: create_log_def demo_create_def)
  have b: "\<And>n buf. ce_buffer demo_create n = Some buf \<Longrightarrow> length buf = n" by (auto simp: demo_create_def)
  show ?thesis using log_ok_reachable [OF b c, of "fst (last logs')"] c by blast
qed

text \<open>
  A write that faults in user memory leaves no trace of the entry: it
  returns \<open>-EFAULT\<close>, the invariant holds, and every reader has a suffix
  of what it had unread.
\<close>

theorem failed_write_invisible:
  assumes "log_ok log" and "0 < it_count src" and "\<not> iter_complete src" and "holds log (r_off r) es"
    and "r \<in> set (lg_readers log)"
  shows "\<exists>log' k. logger_write_iter t src log = Some (log', - EFAULT) \<and> log_ok log' \<and>
    (\<exists>r'\<in>set (lg_readers log'). r_id r' = r_id r \<and> holds log' (r_off r') (drop k es))"
proof -
  let ?n = "hdr_len + min (it_count src) LOGGER_ENTRY_MAX_PAYLOAD"
  obtain log' rc where w1: "logger_write_iter t src log = Some (log', rc)" "rc = - EFAULT"
      "lg_readers log' = map (\<lambda>r. r\<lparr>r_off := pulled log ?n (r_off r)\<rparr>) (lg_readers log)"
    and all: "\<forall>off es. holds log off es \<longrightarrow>
       (\<exists>k. holds log' (pulled log ?n off) (drop k es @ []) \<and>
            (k = 0 \<longleftrightarrow> length (stream es) + ?n < lg_size log \<or> es = []))"
    using write_iter_streams [OF assms(1,2), of t] unfolding if_not_P [OF assms(3)]
    by (elim exE conjE) (rule that)
  have w: "logger_write_iter t src log = Some (log', - EFAULT)"
      "lg_readers log' = map (\<lambda>r. r\<lparr>r_off := pulled log ?n (r_off r)\<rparr>) (lg_readers log)"
    using w1 by simp_all
  obtain k where "holds log' (pulled log ?n (r_off r)) (drop k es)"
    using all [rule_format, OF assms(4)] by auto
  then show ?thesis using w write_keeps_ok [OF assms(1) w(1)] assms(5)
    by (intro exI [of _ log'] exI [of _ k]) auto
qed

theorem failed_write_invisible_witness:
  "\<exists>log' k. logger_write_iter demo_task (demo_iter\<lparr>it_count := 9\<rparr>) demo_full = Some (log', - EFAULT) \<and> log_ok log'"
  using failed_write_invisible [OF demo_full_ok(1), of "demo_iter\<lparr>it_count := 9\<rparr>"
      "\<lparr>r_id = 1, r_off = 0, r_all = True, r_ver = 1\<rparr>" "[demo_entry]" demo_task]
    demo_full_ok(2) find_readerD [OF demo_reader(2)]
  by (auto simp: demo_iter_def iter_complete_def LOGGER_ENTRY_MAX_PAYLOAD_def)

text \<open>
  The value \<open>write\<close> returns is not the number of bytes logged: when
  the payload lies around the end of the ring, only the part before the end is
  counted, although the whole entry is in the log.
\<close>

theorem write_returns_first_chunk:
  assumes "log_ok log" and "0 < it_count src" and "iter_complete src"
    and "(w_off log + hdr_len) mod lg_size log + min (it_count src) LOGGER_ENTRY_MAX_PAYLOAD > lg_size log"
  shows "\<exists>log' rc. logger_write_iter t src log = Some (log', rc) \<and>
    rc = int (lg_size log - (w_off log + hdr_len) mod lg_size log) \<and>
    rc < int (min (it_count src) LOGGER_ENTRY_MAX_PAYLOAD)"
proof -
  have r: "ring_ok log" using assms(1) by (simp add: log_ok_def)
  have off: "logger_offset log (w_off log + hdr_len) = (w_off log + hdr_len) mod lg_size log"
    by (rule logger_offset_mod [OF r])
  note pos = ring_okD(4) [OF r]
  obtain log' where "logger_write_iter t src log =
      Some (log', int (min (min (it_count src) LOGGER_ENTRY_MAX_PAYLOAD) (lg_size log - (w_off log + hdr_len) mod lg_size log)))"
    using write_iter_streams [OF assms(1,2), of t] unfolding if_P [OF assms(3)] off
    by (elim exE conjE) (rule that; simp)
  moreover have "min (min (it_count src) LOGGER_ENTRY_MAX_PAYLOAD) (lg_size log - (w_off log + hdr_len) mod lg_size log) =
      lg_size log - (w_off log + hdr_len) mod lg_size log" using assms(4) by (intro min_absorb2) linarith
  moreover have "lg_size log - (w_off log + hdr_len) mod lg_size log < min (it_count src) LOGGER_ENTRY_MAX_PAYLOAD"
    using assms(4) mod_less_divisor [OF pos, of "w_off log + hdr_len"] by linarith
  ultimately show ?thesis by (metis of_nat_less_iff)
qed

theorem write_returns_first_chunk_witness:
  "\<exists>log' rc. logger_write_iter demo_task (demo_iter) (demo_log\<lparr>w_off := 16358, lg_head := 16358, lg_readers := []\<rparr>) = Some (log', rc) \<and>
     rc = 2"
proof -
  let ?l = "demo_log\<lparr>w_off := 16358, lg_head := 16358, lg_readers := []\<rparr>"
  have r: "ring_ok ?l"
    by (auto simp: ring_ok_def demo_log_def hdr_len_def LOGGER_ENTRY_MAX_PAYLOAD_def intro: exI [of _ 14])
  then have ok: "log_ok ?l" using holds_Nil [OF r] by (auto simp: log_ok_def)
  show ?thesis using write_returns_first_chunk [OF ok, of demo_iter demo_task]
    by (auto simp: demo_iter_def iter_complete_def demo_log_def hdr_len_def LOGGER_ENTRY_MAX_PAYLOAD_def)
qed

text \<open>
  A log whose device cannot be registered is freed but stays on the list:
  after such a failure of \<open>create_log\<close>, \<open>logger_exit\<close> touches freed
  memory; after a successful one it frees the three parts of the new log once.
\<close>

lemma exit_append: "logger_exit (xs @ ys) = do { a \<leftarrow> logger_exit xs; b \<leftarrow> logger_exit ys; Some (a @ b) }"
proof (induction xs)
  case (Cons x xs)
  then show ?case by (cases x) (auto split: bind_splits)
qed (cases "logger_exit ys"; simp)

theorem exit_after_failed_registration:
  assumes "ce_buffer env (256 * 1024) \<noteq> None" and "ce_log env" and "ce_name env"
  shows "logger_exit (fst (create_log env name (256 * 1024) logs)) =
    (if fst (ce_register env) \<noteq> 0 then None
     else do { r \<leftarrow> logger_exit logs; Some (r @ [LogFree ResBuffer, LogFree ResName, LogFree ResLog]) })"
  using assms by (auto simp: create_log_def exit_append Let_def split: option.splits prod.splits bind_splits)

theorem exit_after_failed_registration_witness:
  "logger_exit (fst (create_log (demo_create\<lparr>ce_register := (-16, 0)\<rparr>) ''log_main'' (256 * 1024) [])) = None"
  by (subst exit_after_failed_registration) (auto simp: demo_create_def)

end
