(* ===== verification/BinderIo.thy ===== *)
theory BinderIo
  imports Prelude
begin

text \<open>
  Reading and writing binder messages in the service manager
  (\<open>servicemanager/binder.c\<close>, \<open>binder.h\<close>).

  A \<open>struct binder_io\<close> points into two objects, the data and the table
  of object offsets. The model keeps both objects in the record and the pointers
  as distances from their starts: \<open>bio_pos\<close> is
  \<open>data - data0\<close> in bytes and \<open>bio_opos\<close> is
  \<open>offs - offs0\<close> in entries. A pointer into the message is its distance
  from \<open>data0\<close>, and NULL is \<open>None\<close>. Sizes are 32-bit words and
  wrap around as in the source; an access outside an object is \<open>None\<close>.
\<close>

section \<open>Data\<close>

text \<open>
  Codes and flags of the driver's interface, from a kernel header that is not in
  the repository.
\<close>

record binder_abi =
  BR_NOOP :: u32
  BR_TRANSACTION_COMPLETE :: u32
  BR_INCREFS :: u32
  BR_ACQUIRE :: u32
  BR_RELEASE :: u32
  BR_DECREFS :: u32
  BR_TRANSACTION :: u32
  BR_REPLY :: u32
  BR_DEAD_BINDER :: u32
  BR_FAILED_REPLY :: u32
  BR_DEAD_REPLY :: u32
  BINDER_TYPE_BINDER :: u32
  BINDER_TYPE_HANDLE :: u32
  ACCEPTS_FDS :: u32
  TF_STATUS_CODE :: u32

record binder_txn =
  tx_target :: u32
  tx_cookie :: u32
  tx_code :: u32
  tx_flags :: u32
  tx_sender_pid :: u32
  tx_sender_euid :: u32
  tx_data_size :: u32
  tx_offs_size :: u32
  tx_data :: u32
  tx_offs :: u32

record binder_io =
  bio_mem :: bytes
  bio_pos :: u32
  data_avail :: u32
  bio_otab :: "u32 list"
  bio_opos :: u32
  offs_avail :: u32
  bio_flags :: u32

definition BIO_F_SHARED :: u32 where "BIO_F_SHARED = 0x01"
definition BIO_F_OVERFLOW :: u32 where "BIO_F_OVERFLOW = 0x02"
definition BIO_F_IOERROR :: u32 where "BIO_F_IOERROR = 0x04"

definition MAX_BIO_SIZE :: u32 where "MAX_BIO_SIZE = 0x40000000"

text \<open>
  The memory a \<open>uint16_t *\<close> into the message points at: the halfwords
  from there to the end of the object.
\<close>

fun halfwords :: "bytes \<Rightarrow> u16 list" where
  "halfwords (a # b # r) = mk16 a b # halfwords r"
| "halfwords _ = []"

definition at16 :: "binder_io \<Rightarrow> u32 option \<Rightarrow> u16 list option" where
  "at16 bio p = map_option (\<lambda>i. halfwords (drop (unat i) (bio_mem bio))) p"

section \<open>Initialising\<close>

text \<open>The buffers of a transaction are the driver's: \<open>data\<close> and \<open>offs\<close>.\<close>

definition bio_init_from_txn :: "bytes \<Rightarrow> u32 list \<Rightarrow> binder_txn \<Rightarrow> binder_io" where
  "bio_init_from_txn data offs txn =
     \<lparr>bio_mem = data, bio_pos = 0, data_avail = tx_data_size txn, bio_otab = offs, bio_opos = 0,
      offs_avail = tx_offs_size txn div 4, bio_flags = BIO_F_SHARED\<rparr>"

text \<open>
  \<open>bio_init\<close> splits one buffer into the offsets table and the data; their
  contents before are \<open>otab\<close> and \<open>mem\<close>.
\<close>

definition bio_init :: "bytes \<Rightarrow> u32 list \<Rightarrow> u32 \<Rightarrow> u32 \<Rightarrow> binder_io" where
  "bio_init mem otab maxdata maxoffs =
     (let n = maxoffs * 4 in
      if n > maxdata
      then \<lparr>bio_mem = [], bio_pos = 0, data_avail = 0, bio_otab = [], bio_opos = 0, offs_avail = 0,
            bio_flags = BIO_F_OVERFLOW\<rparr>
      else \<lparr>bio_mem = mem, bio_pos = 0, data_avail = maxdata - n, bio_otab = otab, bio_opos = 0,
            offs_avail = maxoffs, bio_flags = 0\<rparr>)"

section \<open>Writing\<close>

definition bio_alloc :: "binder_io \<Rightarrow> u32 \<Rightarrow> binder_io \<times> u32 option" where
  "bio_alloc bio n =
     (let n = round4 n in
      if n > data_avail bio then (bio\<lparr>bio_flags := bio_flags bio OR BIO_F_OVERFLOW\<rparr>, None)
      else (bio\<lparr>bio_pos := bio_pos bio + n, data_avail := data_avail bio - n\<rparr>, Some (bio_pos bio)))"

definition bio_alloc_obj :: "binder_io \<Rightarrow> (binder_io \<times> u32 option) option" where
  "bio_alloc_obj bio =
     (let (bio1, obj) = bio_alloc bio 16 in
      case obj of
        Some p \<Rightarrow>
          if offs_avail bio1 \<noteq> 0
          then (if unat (bio_opos bio1) < length (bio_otab bio1)
                then Some (bio1\<lparr>offs_avail := offs_avail bio1 - 1,
                                bio_otab := (bio_otab bio1)[unat (bio_opos bio1) := p],
                                bio_opos := bio_opos bio1 + 1\<rparr>, Some p)
                else None)
          else Some (bio1\<lparr>bio_flags := bio_flags bio1 OR BIO_F_OVERFLOW\<rparr>, None)
      | None \<Rightarrow> Some (bio1\<lparr>bio_flags := bio_flags bio1 OR BIO_F_OVERFLOW\<rparr>, None))"

definition bio_store :: "binder_io \<Rightarrow> u32 \<Rightarrow> bytes \<Rightarrow> binder_io option" where
  "bio_store bio p bs = do { m \<leftarrow> store_bytes (bio_mem bio) (unat p) bs; Some (bio\<lparr>bio_mem := m\<rparr>) }"

definition bio_put_uint32 :: "binder_io \<Rightarrow> u32 \<Rightarrow> binder_io option" where
  "bio_put_uint32 bio n =
     (let (bio1, ptr) = bio_alloc bio 4 in
      case ptr of None \<Rightarrow> Some bio1 | Some p \<Rightarrow> bio_store bio1 p (le32 n))"

text \<open>\<open>struct binder_object\<close>: type, flags, pointer, cookie.\<close>

definition object_bytes :: "binder_abi \<Rightarrow> u32 \<Rightarrow> u32 \<Rightarrow> bytes" where
  "object_bytes abi type ptr = le32 type @ le32 (0x7f OR ACCEPTS_FDS abi) @ le32 ptr @ le32 0"

definition bio_put_obj :: "binder_abi \<Rightarrow> binder_io \<Rightarrow> u32 \<Rightarrow> binder_io option" where
  "bio_put_obj abi bio ptr =
     do { (bio1, obj) \<leftarrow> bio_alloc_obj bio;
          case obj of None \<Rightarrow> Some bio1
          | Some p \<Rightarrow> bio_store bio1 p (object_bytes abi (BINDER_TYPE_BINDER abi) ptr) }"

definition bio_put_ref :: "binder_abi \<Rightarrow> binder_io \<Rightarrow> u32 \<Rightarrow> binder_io option" where
  "bio_put_ref abi bio ptr =
     do { (bio1, obj) \<leftarrow> (if ptr \<noteq> 0 then bio_alloc_obj bio else Some (bio_alloc bio 16));
          case obj of None \<Rightarrow> Some bio1
          | Some p \<Rightarrow> bio_store bio1 p (object_bytes abi (BINDER_TYPE_HANDLE abi) ptr) }"

text \<open>Length of a zero-terminated 16-bit string; \<open>None\<close> if it has no end.\<close>

fun strlen16 :: "u16 list \<Rightarrow> nat option" where
  "strlen16 [] = None"
| "strlen16 (c # cs) = (if c = 0 then Some 0 else map_option Suc (strlen16 cs))"

definition le16s :: "u16 list \<Rightarrow> bytes" where
  "le16s cs = concat (map le16 cs)"

text \<open>\<open>str\<close> is the memory the argument points at, \<open>None\<close> for NULL.\<close>

definition bio_put_string16 :: "binder_io \<Rightarrow> u16 list option \<Rightarrow> binder_io option" where
  "bio_put_string16 bio str =
     (case str of
        None \<Rightarrow> bio_put_uint32 bio 0xffffffff
      | Some cs \<Rightarrow>
          do { len \<leftarrow> strlen16 cs;
               if of_nat len \<ge> MAX_BIO_SIZE div 2 then bio_put_uint32 bio 0xffffffff
               else do {
                 bio1 \<leftarrow> bio_put_uint32 bio (of_nat len);
                 let (bio2, ptr) = bio_alloc bio1 ((of_nat len + 1) * 2);
                 case ptr of None \<Rightarrow> Some bio2 | Some p \<Rightarrow> bio_store bio2 p (le16s (take (len + 1) cs)) } })"

text \<open>\<open>char\<close> is unsigned on this target; the C string is given without its end.\<close>

definition widen :: "string \<Rightarrow> u16 list" where
  "widen s = map (\<lambda>c. of_nat (of_char c)) s"

definition bio_put_string16_x :: "binder_io \<Rightarrow> string option \<Rightarrow> binder_io option" where
  "bio_put_string16_x bio str =
     (case str of
        None \<Rightarrow> bio_put_uint32 bio 0xffffffff
      | Some s \<Rightarrow>
          if of_nat (length s) \<ge> MAX_BIO_SIZE div 2 then bio_put_uint32 bio 0xffffffff
          else do {
            bio1 \<leftarrow> bio_put_uint32 bio (of_nat (length s));
            let (bio2, ptr) = bio_alloc bio1 ((of_nat (length s) + 1) * 2);
            case ptr of None \<Rightarrow> Some bio2 | Some p \<Rightarrow> bio_store bio2 p (le16s (widen s @ [0])) })"

section \<open>Reading\<close>

definition bio_get :: "binder_io \<Rightarrow> u32 \<Rightarrow> binder_io \<times> u32 option" where
  "bio_get bio n =
     (let n = round4 n in
      if data_avail bio < n
      then (bio\<lparr>data_avail := 0, bio_flags := bio_flags bio OR BIO_F_OVERFLOW\<rparr>, None)
      else (bio\<lparr>bio_pos := bio_pos bio + n, data_avail := data_avail bio - n\<rparr>, Some (bio_pos bio)))"

definition bio_get_uint32 :: "binder_io \<Rightarrow> (binder_io \<times> u32) option" where
  "bio_get_uint32 bio =
     (let (bio1, ptr) = bio_get bio 4 in
      case ptr of None \<Rightarrow> Some (bio1, 0)
      | Some p \<Rightarrow> do { v \<leftarrow> load32 (bio_mem bio1) (unat p); Some (bio1, v) })"

text \<open>The pointer to the characters and the length.\<close>

definition bio_get_string16 :: "binder_io \<Rightarrow> (binder_io \<times> u32 option \<times> u32) option" where
  "bio_get_string16 bio =
     do { (bio1, len) \<leftarrow> bio_get_uint32 bio;
          let (bio2, ptr) = bio_get bio1 ((len + 1) * 2);
          Some (bio2, ptr, len) }"

definition bio_get_obj :: "binder_io \<Rightarrow> (binder_io \<times> u32 option) option" where
  "bio_get_obj bio =
     (let n = unat (offs_avail bio); tab = drop (unat (bio_opos bio)) (bio_otab bio) in
      if bio_pos bio \<in> set (take n tab) then Some (bio_get bio 16)
      else if n \<le> length tab
      then Some (bio\<lparr>data_avail := 0, bio_flags := bio_flags bio OR BIO_F_OVERFLOW\<rparr>, None)
      else None)"

definition bio_get_ref :: "binder_abi \<Rightarrow> binder_io \<Rightarrow> (binder_io \<times> u32) option" where
  "bio_get_ref abi bio =
     do { (bio1, obj) \<leftarrow> bio_get_obj bio;
          case obj of None \<Rightarrow> Some (bio1, 0)
          | Some p \<Rightarrow>
              do { type \<leftarrow> load32 (bio_mem bio1) (unat p);
                   ptr \<leftarrow> load32 (bio_mem bio1) (unat p + 8);
                   Some (bio1, if type = BINDER_TYPE_HANDLE abi then ptr else 0) } }"

end
