(* ===== verification/BinderIoProps.thy ===== *)
theory BinderIoProps
  imports BinderIo
begin

text \<open>
  Messages: reading stays inside the buffers whatever the bytes are, and what
  was written is read back. The second part is stated once, for anything that
  can be put into and taken from a message (locale \<open>parcel_item\<close>), and
  composes: two items in sequence are an item.
\<close>

section \<open>Staying inside the buffers\<close>

definition bio_ok :: "binder_io \<Rightarrow> bool" where
  "bio_ok bio \<longleftrightarrow> unat (bio_pos bio) + unat (data_avail bio) \<le> length (bio_mem bio)
     \<and> unat (bio_opos bio) + unat (offs_avail bio) \<le> length (bio_otab bio)
     \<and> length (bio_mem bio) < 2 ^ 32 \<and> length (bio_otab bio) < 2 ^ 30"

text \<open>Two states of one reader: the message is the same, and so is its end.\<close>

definition same_reader :: "binder_io \<Rightarrow> binder_io \<Rightarrow> bool" where
  "same_reader r r' \<longleftrightarrow> bio_mem r' = bio_mem r \<and> bio_otab r' = bio_otab r \<and> bio_opos r' = bio_opos r
     \<and> offs_avail r' = offs_avail r
     \<and> unat (bio_pos r') + unat (data_avail r') = unat (bio_pos r) + unat (data_avail r)"

lemma unat_advance:
  assumes "n \<le> avail" and "unat p + unat avail \<le> k" and "k < 2 ^ 32"
  shows "unat ((p :: u32) + n) = unat p + unat n" and "unat (avail - n) = unat avail - unat n"
    and "unat n \<le> unat avail"
proof -
  show le: "unat n \<le> unat avail" using assms(1) by (simp add: word_le_nat_alt)
  then show "unat (p + n) = unat p + unat n"
    using assms by (intro unat_add_lem [THEN iffD1]) simp
  show "unat (avail - n) = unat avail - unat n" using assms(1) by (rule unat_sub)
qed

lemma bio_get_hit:
  assumes "bio_ok bio" and "unat (round4 n) \<le> unat (data_avail bio)"
  shows "\<exists>bio'. bio_get bio n = (bio', Some (bio_pos bio)) \<and> bio_ok bio' \<and> same_reader bio bio'
    \<and> bio_flags bio' = bio_flags bio \<and> bio_pos bio' = bio_pos bio + round4 n
    \<and> unat (bio_pos bio') = unat (bio_pos bio) + unat (round4 n)"
proof -
  have le: "round4 n \<le> data_avail bio" using assms(2) by (simp add: word_le_nat_alt)
  have b: "unat (bio_pos bio) + unat (data_avail bio) \<le> length (bio_mem bio)" "length (bio_mem bio) < 2 ^ 32"
    using assms(1) by (auto simp: bio_ok_def)
  note adv = unat_advance [OF le b]
  show ?thesis
    using assms le by (auto simp: bio_get_def Let_def bio_ok_def same_reader_def adv not_less)
qed

lemma bio_get_ok:
  assumes "bio_ok bio" and "bio_get bio n = (bio', p)"
  shows "bio_ok bio' \<and> bio_mem bio' = bio_mem bio"
    and "p = Some q \<Longrightarrow> q = bio_pos bio \<and> unat q + unat (round4 n) \<le> length (bio_mem bio)"
proof -
  show "bio_ok bio' \<and> bio_mem bio' = bio_mem bio"
  proof (cases "unat (round4 n) \<le> unat (data_avail bio)")
    case True
    then show ?thesis using bio_get_hit [OF assms(1) True] assms(2) by (auto simp: same_reader_def)
  next
    case False
    then show ?thesis using assms
      by (auto simp: bio_get_def Let_def bio_ok_def word_le_nat_alt word_less_nat_alt split: if_splits)
  qed
  show "q = bio_pos bio \<and> unat q + unat (round4 n) \<le> length (bio_mem bio)" if "p = Some q"
    using assms that by (auto simp: bio_get_def Let_def bio_ok_def word_less_nat_alt split: if_splits)
qed

lemma load32_Some: "i + 4 \<le> length b \<Longrightarrow> \<exists>v. load32 b i = Some v"
  by (simp add: load32_def)

lemma bio_get_uint32_ok:
  assumes "bio_ok bio"
  shows "\<exists>bio' v. bio_get_uint32 bio = Some (bio', v) \<and> bio_ok bio' \<and> bio_mem bio' = bio_mem bio"
proof (cases "bio_get bio 4")
  case (Pair bio1 p)
  note ok = bio_get_ok [OF assms Pair]
  show ?thesis
  proof (cases p)
    case None then show ?thesis using ok(1) by (simp add: bio_get_uint32_def Pair)
  next
    case (Some q)
    then have "unat q + 4 \<le> length (bio_mem bio1)" using ok by auto
    then show ?thesis
      using ok(1) Some load32_Some [of "unat q" "bio_mem bio1"] by (auto simp: bio_get_uint32_def Pair)
  qed
qed

lemma bio_get_string16_ok:
  assumes "bio_ok bio"
  shows "\<exists>bio' p len. bio_get_string16 bio = Some (bio', p, len) \<and> bio_ok bio' \<and> bio_mem bio' = bio_mem bio
    \<and> (\<forall>q. p = Some q \<longrightarrow> unat q + unat (round4 ((len + 1) * 2)) \<le> length (bio_mem bio))"
proof -
  obtain bio1 len where 1: "bio_get_uint32 bio = Some (bio1, len)" "bio_ok bio1" "bio_mem bio1 = bio_mem bio"
    using bio_get_uint32_ok [OF assms] by auto
  obtain bio2 p where 2: "bio_get bio1 ((len + 1) * 2) = (bio2, p)" by (cases "bio_get bio1 ((len + 1) * 2)")
  show ?thesis
    using bio_get_ok [OF 1(2) 2] 1(3) by (auto simp: bio_get_string16_def 1(1) 2 simp del: distrib_right_numeral)
qed

lemma bio_get_obj_ok:
  assumes "bio_ok bio"
  shows "\<exists>bio' p. bio_get_obj bio = Some (bio', p) \<and> bio_ok bio' \<and> bio_mem bio' = bio_mem bio
    \<and> (\<forall>q. p = Some q \<longrightarrow> unat q + 16 \<le> length (bio_mem bio))"
proof -
  obtain bio2 p where 2: "bio_get bio 16 = (bio2, p)" by (cases "bio_get bio 16")
  have t: "unat (offs_avail bio) \<le> length (drop (unat (bio_opos bio)) (bio_otab bio))"
    using assms by (auto simp: bio_ok_def)
  show ?thesis
    using bio_get_ok [OF assms 2] t assms unfolding bio_get_obj_def Let_def 2
    by (auto simp: bio_ok_def)
qed

lemma bio_get_ref_ok:
  assumes "bio_ok bio"
  shows "\<exists>bio' v. bio_get_ref abi bio = Some (bio', v) \<and> bio_ok bio' \<and> bio_mem bio' = bio_mem bio"
proof -
  obtain bio1 p where 1: "bio_get_obj bio = Some (bio1, p)" "bio_ok bio1" "bio_mem bio1 = bio_mem bio"
    and q: "\<And>q. p = Some q \<Longrightarrow> unat q + 16 \<le> length (bio_mem bio1)"
    using bio_get_obj_ok [OF assms] by metis
  show ?thesis
  proof (cases p)
    case None then show ?thesis using 1 by (simp add: bio_get_ref_def)
  next
    case (Some a)
    obtain x y where "load32 (bio_mem bio1) (unat a) = Some x" "load32 (bio_mem bio1) (unat a + 8) = Some y"
      using q [OF Some] load32_Some [of "unat a" "bio_mem bio1"] load32_Some [of "unat a + 8" "bio_mem bio1"] by auto
    then show ?thesis using 1 Some by (simp add: bio_get_ref_def)
  qed
qed

lemma bio_ok_from_txn:
  assumes "unat (tx_data_size txn) \<le> length data" "length data < 2 ^ 32"
    and "unat (tx_offs_size txn) div 4 \<le> length offs" "length offs < 2 ^ 30"
  shows "bio_ok (bio_init_from_txn data offs txn)"
  using assms by (simp add: bio_ok_def bio_init_from_txn_def unat_div)

section \<open>Writing\<close>

definition fits :: "binder_io \<Rightarrow> bool" where
  "fits bio \<longleftrightarrow> bio_flags bio AND BIO_F_OVERFLOW = 0"

lemma overflow_not_fits: "\<not> fits (b\<lparr>bio_flags := f OR BIO_F_OVERFLOW\<rparr>)"
proof
  assume "fits (b\<lparr>bio_flags := f OR BIO_F_OVERFLOW\<rparr>)"
  then have "bit ((f OR BIO_F_OVERFLOW) AND BIO_F_OVERFLOW) 1 = bit (0 :: u32) 1" by (simp add: fits_def)
  then show False by (simp add: bit_and_iff bit_or_iff BIO_F_OVERFLOW_def)
qed

text \<open>A later state of one writer: what was sent before is still there.\<close>

definition extends :: "binder_io \<Rightarrow> binder_io \<Rightarrow> bool" where
  "extends w w' \<longleftrightarrow> length (bio_mem w') = length (bio_mem w) \<and> unat (bio_pos w) \<le> unat (bio_pos w')
     \<and> take (unat (bio_pos w)) (bio_mem w') = take (unat (bio_pos w)) (bio_mem w)
     \<and> length (bio_otab w') = length (bio_otab w) \<and> unat (bio_opos w) \<le> unat (bio_opos w')
     \<and> take (unat (bio_opos w)) (bio_otab w') = take (unat (bio_opos w)) (bio_otab w)
     \<and> (fits w' \<longrightarrow> fits w)"

lemma take_mono_eq: "take n xs = take n ys \<Longrightarrow> m \<le> n \<Longrightarrow> take m xs = take m ys"
  by (metis min.absorb1 take_take)

lemma extends_refl [simp]: "extends w w"
  by (simp add: extends_def)

lemma extends_trans: "extends a b \<Longrightarrow> extends b c \<Longrightarrow> extends a c"
  unfolding extends_def
  using take_mono_eq [of "unat (bio_pos b)" "bio_mem c" "bio_mem b" "unat (bio_pos a)"]
    take_mono_eq [of "unat (bio_opos b)" "bio_otab c" "bio_otab b" "unat (bio_opos a)"]
  by (intro conjI) auto

text \<open>The common part of the \<open>bio_put\<close> functions.\<close>

definition put_bytes :: "binder_io \<Rightarrow> u32 \<Rightarrow> bytes \<Rightarrow> binder_io option" where
  "put_bytes bio n bs =
     (let (bio1, ptr) = bio_alloc bio n in case ptr of None \<Rightarrow> Some bio1 | Some p \<Rightarrow> bio_store bio1 p bs)"

lemma put_uint32_bytes: "bio_put_uint32 bio n = put_bytes bio 4 (le32 n)"
  by (simp add: bio_put_uint32_def put_bytes_def)

lemma put_bytes_hit:
  assumes "bio_ok w" and "length bs \<le> unat (round4 n)" and "unat (round4 n) \<le> unat (data_avail w)"
  shows "\<exists>w'. put_bytes w n bs = Some w' \<and> bio_ok w' \<and> extends w w' \<and> bio_flags w' = bio_flags w
    \<and> bio_pos w' = bio_pos w + round4 n \<and> unat (bio_pos w') = unat (bio_pos w) + unat (round4 n)
    \<and> bio_otab w' = bio_otab w \<and> bio_opos w' = bio_opos w \<and> offs_avail w' = offs_avail w
    \<and> take (length bs) (drop (unat (bio_pos w)) (bio_mem w')) = bs"
proof -
  have le: "round4 n \<le> data_avail w" using assms(3) by (simp add: word_le_nat_alt)
  have b: "unat (bio_pos w) + unat (data_avail w) \<le> length (bio_mem w)" "length (bio_mem w) < 2 ^ 32"
    using assms(1) by (auto simp: bio_ok_def)
  note adv = unat_advance [OF le b]
  have l: "unat (bio_pos w) + length bs \<le> length (bio_mem w)" using assms b by linarith
  show ?thesis
    using assms le l b
    by (auto simp: put_bytes_def bio_alloc_def bio_store_def store_bytes_def memcpy_def Let_def bio_ok_def
        extends_def fits_def adv not_less)
qed

lemma put_bytes_miss:
  assumes "bio_ok w" and "\<not> unat (round4 n) \<le> unat (data_avail w)"
  shows "\<exists>w'. put_bytes w n bs = Some w' \<and> bio_ok w' \<and> extends w w' \<and> \<not> fits w'"
proof -
  have "put_bytes w n bs = Some (w\<lparr>bio_flags := bio_flags w OR BIO_F_OVERFLOW\<rparr>)"
    using assms(2) by (simp add: put_bytes_def bio_alloc_def Let_def word_less_nat_alt)
  then show ?thesis using assms(1) overflow_not_fits [of "bio_flags w" w]
    by (auto simp: bio_ok_def extends_def)
qed

section \<open>What is written is read back\<close>

text \<open>\<open>r\<close> reads a message that begins with what \<open>w\<close> has sent.\<close>

definition reads_from :: "binder_io \<Rightarrow> binder_io \<Rightarrow> bool" where
  "reads_from r w \<longleftrightarrow>
     take (unat (bio_pos w)) (bio_mem r) = take (unat (bio_pos w)) (bio_mem w)
     \<and> unat (bio_pos w) \<le> unat (bio_pos r) + unat (data_avail r)
     \<and> set (take (unat (bio_opos w)) (bio_otab w))
        \<subseteq> set (take (unat (offs_avail r)) (drop (unat (bio_opos r)) (bio_otab r)))"

lemma reads_from_extends:
  assumes "reads_from r w'" and "extends w w'"
  shows "reads_from r w"
proof -
  from assms(1) have r: "take (unat (bio_pos w')) (bio_mem r) = take (unat (bio_pos w')) (bio_mem w')"
    "unat (bio_pos w') \<le> unat (bio_pos r) + unat (data_avail r)"
    "set (take (unat (bio_opos w')) (bio_otab w')) \<subseteq> set (take (unat (offs_avail r)) (drop (unat (bio_opos r)) (bio_otab r)))"
    unfolding reads_from_def by blast+
  from assms(2) have e: "unat (bio_pos w) \<le> unat (bio_pos w')" "unat (bio_opos w) \<le> unat (bio_opos w')"
    "take (unat (bio_pos w)) (bio_mem w') = take (unat (bio_pos w)) (bio_mem w)"
    "take (unat (bio_opos w)) (bio_otab w') = take (unat (bio_opos w)) (bio_otab w)"
    unfolding extends_def by blast+
  have "set (take (unat (bio_opos w)) (bio_otab w)) \<subseteq> set (take (unat (bio_opos w')) (bio_otab w'))"
    unfolding e(4) [symmetric] by (rule set_take_subset_set_take [OF e(2)])
  moreover have "take (unat (bio_pos w)) (bio_mem r) = take (unat (bio_pos w)) (bio_mem w)"
    using take_mono_eq [OF r(1) e(1)] e(3) by (rule trans)
  ultimately show ?thesis
    unfolding reads_from_def using r(2,3) e(1) by (meson le_trans subset_trans)
qed

lemma reads_from_same: "same_reader r r' \<Longrightarrow> reads_from r' w = reads_from r w"
  by (simp add: same_reader_def reads_from_def)

lemma same_reader_trans: "same_reader a b \<Longrightarrow> same_reader b c \<Longrightarrow> same_reader a c"
  by (simp add: same_reader_def)

lemma get_put_bytes:
  assumes "bio_ok w" and "length bs \<le> unat (round4 n)" and "put_bytes w n bs = Some w'" and "fits w'"
    and "bio_ok r" and "reads_from r w'" and "bio_pos r = bio_pos w"
  shows "\<exists>r'. bio_get r n = (r', Some (bio_pos w)) \<and> bio_ok r' \<and> same_reader r r' \<and> bio_pos r' = bio_pos w'
    \<and> unat (bio_pos w) + length bs \<le> length (bio_mem r)
    \<and> take (length bs) (drop (unat (bio_pos w)) (bio_mem r)) = bs"
proof -
  have "unat (round4 n) \<le> unat (data_avail w)"
    using put_bytes_miss [OF assms(1), of n bs] assms(3,4) by auto
  from put_bytes_hit [OF assms(1,2) this]
  have w': "bio_ok w'" "extends w w'" "bio_pos w' = bio_pos w + round4 n"
    and p: "unat (bio_pos w') = unat (bio_pos w) + unat (round4 n)"
    and d: "take (length bs) (drop (unat (bio_pos w)) (bio_mem w')) = bs"
    using assms(3) by auto
  have eq: "take (unat (bio_pos w')) (bio_mem r) = take (unat (bio_pos w')) (bio_mem w')"
    and av: "unat (bio_pos w') \<le> unat (bio_pos r) + unat (data_avail r)"
    using assms(6) by (auto simp: reads_from_def)
  have "unat (round4 n) \<le> unat (data_avail r)" using av p assms(7) by simp
  from bio_get_hit [OF assms(5) this] w'(3) assms(7)
  have g: "\<exists>r'. bio_get r n = (r', Some (bio_pos w)) \<and> bio_ok r' \<and> same_reader r r' \<and> bio_pos r' = bio_pos w'"
    by auto
  have "take (length bs) (drop (unat (bio_pos w)) (take (unat (bio_pos w')) (bio_mem x)))
      = take (length bs) (drop (unat (bio_pos w)) (bio_mem x))" for x
    using assms(2) p by (simp add: drop_take min_absorb1)
  then have "take (length bs) (drop (unat (bio_pos w)) (bio_mem r)) = bs" using d eq by metis
  moreover have "unat (bio_pos w) + length bs \<le> length (bio_mem r)"
    using assms(2,5,7) p av by (auto simp: bio_ok_def)
  ultimately show ?thesis using g by auto
qed

text \<open>
  The contract of a kind of value that can be sent: putting one never fails and
  keeps what is there already, and a reader standing where the writer stood gets
  the value back and stands where the writer stands now.
\<close>

locale parcel_item =
  fixes valid :: "'v \<Rightarrow> bool"
    and put :: "binder_io \<Rightarrow> 'v \<Rightarrow> binder_io option"
    and get :: "binder_io \<Rightarrow> (binder_io \<times> 'v) option"
  assumes put_ok: "valid v \<Longrightarrow> bio_ok w \<Longrightarrow> \<exists>w'. put w v = Some w' \<and> bio_ok w' \<and> extends w w'"
    and get_put: "valid v \<Longrightarrow> bio_ok w \<Longrightarrow> put w v = Some w' \<Longrightarrow> fits w' \<Longrightarrow> bio_ok r
      \<Longrightarrow> reads_from r w' \<Longrightarrow> bio_pos r = bio_pos w
      \<Longrightarrow> \<exists>r'. get r = Some (r', v) \<and> bio_ok r' \<and> same_reader r r' \<and> bio_pos r' = bio_pos w'"
begin

lemma put_Some:
  assumes "valid v" and "bio_ok w" and "put w v = Some w'"
  shows "bio_ok w'" and "extends w w'"
  using put_ok [OF assms(1,2)] assms(3) by auto

end

definition put_pair :: "(binder_io \<Rightarrow> 'a \<Rightarrow> binder_io option) \<Rightarrow> (binder_io \<Rightarrow> 'b \<Rightarrow> binder_io option)
    \<Rightarrow> binder_io \<Rightarrow> 'a \<times> 'b \<Rightarrow> binder_io option" where
  "put_pair p1 p2 w v = do { w1 \<leftarrow> p1 w (fst v); p2 w1 (snd v) }"

definition get_pair :: "(binder_io \<Rightarrow> (binder_io \<times> 'a) option) \<Rightarrow> (binder_io \<Rightarrow> (binder_io \<times> 'b) option)
    \<Rightarrow> binder_io \<Rightarrow> (binder_io \<times> 'a \<times> 'b) option" where
  "get_pair g1 g2 r = do { (r1, x) \<leftarrow> g1 r; (r2, y) \<leftarrow> g2 r1; Some (r2, x, y) }"

locale parcel_seq = fst_item: parcel_item valid1 put1 get1 + snd_item: parcel_item valid2 put2 get2
  for valid1 :: "'a \<Rightarrow> bool" and put1 get1 and valid2 :: "'b \<Rightarrow> bool" and put2 get2

sublocale parcel_seq \<subseteq> pair: parcel_item "\<lambda>v. valid1 (fst v) \<and> valid2 (snd v)" "put_pair put1 put2" "get_pair get1 get2"
proof
  fix v w
  assume v: "valid1 (fst v) \<and> valid2 (snd v)" and w: "bio_ok w"
  obtain w1 where 1: "put1 w (fst v) = Some w1" "bio_ok w1" "extends w w1"
    using fst_item.put_ok v w by blast
  obtain w2 where 2: "put2 w1 (snd v) = Some w2" "bio_ok w2" "extends w1 w2"
    using snd_item.put_ok v 1(2) by blast
  show "\<exists>w'. put_pair put1 put2 w v = Some w' \<and> bio_ok w' \<and> extends w w'"
    using 1 2 extends_trans by (auto simp: put_pair_def)
next
  fix v w w' r
  assume v: "valid1 (fst v) \<and> valid2 (snd v)" and w: "bio_ok w" and p: "put_pair put1 put2 w v = Some w'"
    and f: "fits w'" and r: "bio_ok r" "reads_from r w'" "bio_pos r = bio_pos w"
  obtain w1 where 1: "put1 w (fst v) = Some w1" and 2: "put2 w1 (snd v) = Some w'"
    using p by (auto simp: put_pair_def bind_eq_Some_conv)
  have ok: "bio_ok w1" using fst_item.put_Some v w 1 by blast
  have ext: "extends w1 w'" using snd_item.put_Some v ok 2 by blast
  have f1: "fits w1" using ext f by (simp add: extends_def)
  obtain r1 where g1: "get1 r = Some (r1, fst v)" "bio_ok r1" "same_reader r r1" "bio_pos r1 = bio_pos w1"
    using fst_item.get_put [OF _ w 1 f1 r(1) reads_from_extends [OF r(2) ext] r(3)] v by blast
  obtain r2 where g2: "get2 r1 = Some (r2, snd v)" "bio_ok r2" "same_reader r1 r2" "bio_pos r2 = bio_pos w'"
    using snd_item.get_put [OF _ ok 2 f g1(2) _ g1(4)] v r(2) reads_from_same [OF g1(3)] by blast
  show "\<exists>r'. get_pair get1 get2 r = Some (r', v) \<and> bio_ok r' \<and> same_reader r r' \<and> bio_pos r' = bio_pos w'"
    using g1 g2 same_reader_trans by (auto simp: get_pair_def)
qed

section \<open>The three kinds of value\<close>

subsection \<open>Words\<close>

lemma load32_at:
  assumes "i + 4 \<le> length m" and "take 4 (drop i m) = le32 v"
  shows "load32 m i = Some v"
proof -
  have k: "m ! (i + k) = le32 v ! k" if "k < 4" for k
    using assms(1) that unfolding assms(2) [symmetric] by simp
  have "m ! i = ucast v" "m ! (i + 1) = ucast (drop_bit 8 v)" "m ! (i + 2) = ucast (drop_bit 16 v)"
    "m ! (i + 3) = ucast (drop_bit 24 v)"
    using k [of 0] k [of 1] k [of 2] k [of 3] by (simp_all add: le32_def)
  then show ?thesis using assms(1) by (simp add: load32_def)
qed

interpretation word_item: parcel_item "\<lambda>_. True" bio_put_uint32 bio_get_uint32
proof
  fix v :: u32 and w assume w: "bio_ok w"
  show "\<exists>w'. bio_put_uint32 w v = Some w' \<and> bio_ok w' \<and> extends w w'"
    using put_bytes_hit [OF w, of "le32 v" 4] put_bytes_miss [OF w, of 4 "le32 v"]
    by (cases "unat (round4 4) \<le> unat (data_avail w)") (auto simp: put_uint32_bytes)
next
  fix v w w' r
  assume a: "bio_ok w" "bio_put_uint32 w v = Some w'" "fits w'" "bio_ok r" "reads_from r w'" "bio_pos r = bio_pos w"
  obtain r' where g: "bio_get r 4 = (r', Some (bio_pos w))" "bio_ok r'" "same_reader r r'" "bio_pos r' = bio_pos w'"
    and m: "unat (bio_pos w) + 4 \<le> length (bio_mem r)" "take 4 (drop (unat (bio_pos w)) (bio_mem r)) = le32 v"
    using get_put_bytes [OF a(1) _ a(2) [unfolded put_uint32_bytes] a(3-6)] by auto
  show "\<exists>r'. bio_get_uint32 r = Some (r', v) \<and> bio_ok r' \<and> same_reader r r' \<and> bio_pos r' = bio_pos w'"
    using g load32_at [OF m] by (auto simp: bio_get_uint32_def same_reader_def)
qed

subsection \<open>Strings\<close>

text \<open>The characters of a string are given without the terminating zero.\<close>

definition string_ok :: "u16 list \<Rightarrow> bool" where
  "string_ok v \<longleftrightarrow> 0 \<notin> set v \<and> length v < 2 ^ 29"

definition put_chars :: "binder_io \<Rightarrow> u16 list \<Rightarrow> binder_io option" where
  "put_chars w v = bio_put_string16 w (Some (v @ [0]))"

definition get_chars :: "binder_io \<Rightarrow> (binder_io \<times> u16 list) option" where
  "get_chars r =
     do { (r1, p, len) \<leftarrow> bio_get_string16 r;
          cs \<leftarrow> at16 r1 p;
          if unat len < length cs \<and> cs ! unat len = 0 then Some (r1, take (unat len) cs) else None }"

lemma strlen16_end: "0 \<notin> set v \<Longrightarrow> strlen16 (v @ 0 # r) = Some (length v)"
  by (induction v) auto

lemma halfwords_le16s: "halfwords (le16s cs @ r) = cs @ halfwords r"
  by (induction cs) (auto simp: le16s_def le16_def)

lemma le16s_length [simp]: "length (le16s cs) = 2 * length cs"
  by (induction cs) (auto simp: le16s_def)

lemma string_size:
  assumes "length v < 2 ^ 29"
  shows "unat ((of_nat (length v) + 1) * 2 :: u32) = 2 * (length v + 1)"
    and "2 * (length v + 1) \<le> unat (round4 ((of_nat (length v) + 1) * 2))"
    and "unat (of_nat (length v) :: u32) = length v"
proof -
  have e: "((of_nat (length v) + 1) * 2 :: u32) = of_nat (2 * (length v + 1))" by simp
  show u: "unat ((of_nat (length v) + 1) * 2 :: u32) = 2 * (length v + 1)"
    unfolding e unat_of_nat using assms by simp
  show "2 * (length v + 1) \<le> unat (round4 ((of_nat (length v) + 1) * 2))"
    using round4_ge [of "(of_nat (length v) + 1) * 2"] assms unfolding u by simp
  show "unat (of_nat (length v) :: u32) = length v"
    unfolding unat_of_nat using assms by simp
qed

lemma put_chars_eq:
  assumes "string_ok v"
  shows "put_chars w v = do { w1 \<leftarrow> bio_put_uint32 w (of_nat (length v));
    put_bytes w1 ((of_nat (length v) + 1) * 2) (le16s (v @ [0])) }"
proof -
  have "\<not> of_nat (length v) \<ge> MAX_BIO_SIZE div 2"
    using assms string_size(3) [of v] by (simp add: string_ok_def word_le_nat_alt MAX_BIO_SIZE_def)
  then show ?thesis
    using assms by (simp add: put_chars_def bio_put_string16_def string_ok_def strlen16_end put_bytes_def
        split: bind_splits del: distrib_right_numeral)
qed

interpretation string_item: parcel_item string_ok put_chars get_chars
proof
  fix v w assume v: "string_ok v" and w: "bio_ok w"
  note sz = string_size [of v]
  have len: "length v < 2 ^ 29" using v by (simp add: string_ok_def)
  obtain w1 where 1: "bio_put_uint32 w (of_nat (length v)) = Some w1" "bio_ok w1" "extends w w1"
    using word_item.put_ok [OF TrueI w] by blast
  let ?n = "(of_nat (length v) + 1) * 2 :: u32" and ?bs = "le16s (v @ [0])"
  have "length ?bs \<le> unat (round4 ?n)" using sz(2) [OF len] by simp
  then obtain w2 where "put_bytes w1 ?n ?bs = Some w2" "bio_ok w2" "extends w1 w2"
    using put_bytes_hit [OF 1(2)] put_bytes_miss [OF 1(2)] by blast
  then show "\<exists>w'. put_chars w v = Some w' \<and> bio_ok w' \<and> extends w w'"
    using 1 extends_trans unfolding put_chars_eq [OF v] by (simp del: distrib_right_numeral)
next
  fix v w w' r
  assume v: "string_ok v" and w: "bio_ok w" and p: "put_chars w v = Some w'" and f: "fits w'"
    and r: "bio_ok r" "reads_from r w'" "bio_pos r = bio_pos w"
  have len: "length v < 2 ^ 29" using v by (simp add: string_ok_def)
  note sz = string_size [OF len]
  let ?n = "(of_nat (length v) + 1) * 2 :: u32" and ?bs = "le16s (v @ [0])"
  have lb: "length ?bs \<le> unat (round4 ?n)" using sz(2) by simp
  obtain w1 where 1: "bio_put_uint32 w (of_nat (length v)) = Some w1" and 2: "put_bytes w1 ?n ?bs = Some w'"
    using p unfolding put_chars_eq [OF v] bind_eq_Some_conv by blast
  have ok: "bio_ok w1" using word_item.put_Some [OF TrueI w 1] by simp
  have ext: "extends w1 w'"
    using put_bytes_hit [OF ok lb] put_bytes_miss [OF ok, of ?n ?bs] 2 by (metis option.inject)
  have f1: "fits w1" using ext f by (simp add: extends_def)
  obtain r1 where g1: "bio_get_uint32 r = Some (r1, of_nat (length v))" "bio_ok r1" "same_reader r r1" "bio_pos r1 = bio_pos w1"
    using word_item.get_put [OF TrueI w 1 f1 r(1) reads_from_extends [OF r(2) ext] r(3)] by blast
  obtain r2 where g2: "bio_get r1 ?n = (r2, Some (bio_pos w1))" "bio_ok r2" "same_reader r1 r2" "bio_pos r2 = bio_pos w'"
    and d: "take (length ?bs) (drop (unat (bio_pos w1)) (bio_mem r1)) = ?bs"
    using get_put_bytes [OF ok lb 2 f g1(2) _ g1(4)] r(2) reads_from_same [OF g1(3)] by blast
  have "drop (unat (bio_pos w1)) (bio_mem r1) = ?bs @ drop (length ?bs) (drop (unat (bio_pos w1)) (bio_mem r1))"
    using d by (metis append_take_drop_id)
  then have "at16 r2 (Some (bio_pos w1)) = Some (v @ 0 # halfwords (drop (length ?bs) (drop (unat (bio_pos w1)) (bio_mem r1))))"
    using g2(3) halfwords_le16s [of "v @ [0]"] by (simp add: at16_def same_reader_def)
  then show "\<exists>r'. get_chars r = Some (r', v) \<and> bio_ok r' \<and> same_reader r r' \<and> bio_pos r' = bio_pos w'"
    using g1 g2 same_reader_trans [OF g1(3) g2(3)] sz(3)
    by (simp add: get_chars_def bio_get_string16_def del: distrib_right_numeral)
qed

subsection \<open>References\<close>

lemma object_bytes_length [simp]: "length (object_bytes abi t ptr) = 16"
  by (simp add: object_bytes_def)

text \<open>A non-null reference is its bytes and an entry in the table of offsets.\<close>

lemma put_ref_eq:
  assumes "ptr \<noteq> 0"
  shows "bio_put_ref abi w ptr =
    (let p = bio_pos w; bs = object_bytes abi (BINDER_TYPE_HANDLE abi) ptr in
     if \<not> 16 \<le> unat (data_avail w) then Some (w\<lparr>bio_flags := (bio_flags w OR BIO_F_OVERFLOW) OR BIO_F_OVERFLOW\<rparr>)
     else if offs_avail w = 0
     then Some (w\<lparr>bio_pos := p + 16, data_avail := data_avail w - 16, bio_flags := bio_flags w OR BIO_F_OVERFLOW\<rparr>)
     else if unat (bio_opos w) < length (bio_otab w)
     then map_option (\<lambda>w1. w1\<lparr>offs_avail := offs_avail w - 1, bio_otab := (bio_otab w)[unat (bio_opos w) := p],
            bio_opos := bio_opos w + 1\<rparr>) (put_bytes w 16 bs)
     else None)"
  using assms
  by (auto simp: bio_put_ref_def bio_alloc_obj_def bio_alloc_def put_bytes_def bio_store_def Let_def word_less_nat_alt
      split: bind_splits)

text \<open>The step after the bytes are stored.\<close>

definition push_offset :: "u32 \<Rightarrow> binder_io \<Rightarrow> binder_io" where
  "push_offset p w = w\<lparr>offs_avail := offs_avail w - 1, bio_otab := (bio_otab w)[unat (bio_opos w) := p],
     bio_opos := bio_opos w + 1\<rparr>"

lemma push_offset_ok:
  assumes "bio_ok w" and "offs_avail w \<noteq> 0"
  shows "bio_ok (push_offset p w)" and "extends w (push_offset p w)"
    and "p \<in> set (take (unat (bio_opos (push_offset p w))) (bio_otab (push_offset p w)))"
proof -
  have a: "unat (offs_avail w - 1) = unat (offs_avail w) - 1" "0 < unat (offs_avail w)"
    using assms(2) by (simp_all add: unat_minus_one unat_gt_0)
  have b: "unat (bio_opos w) + unat (offs_avail w) \<le> length (bio_otab w)" "length (bio_otab w) < 2 ^ 30"
    using assms(1) by (auto simp: bio_ok_def)
  have c: "unat (bio_opos w + 1) = unat (bio_opos w) + 1"
    using b a by (subst unat_add_lem [THEN iffD1]) auto
  show "bio_ok (push_offset p w)" "extends w (push_offset p w)"
    using assms(1) a b c by (auto simp: bio_ok_def push_offset_def extends_def fits_def)
  have "(bio_otab w)[unat (bio_opos w) := p] ! unat (bio_opos w) = p" using a b by simp
  then show "p \<in> set (take (unat (bio_opos (push_offset p w))) (bio_otab (push_offset p w)))"
    using a b c by (auto simp: push_offset_def in_set_conv_nth intro!: exI [of _ "unat (bio_opos w)"])
qed

lemma put_ref_hit:
  assumes "ptr \<noteq> 0" and "bio_ok w" and "16 \<le> unat (data_avail w)" and "offs_avail w \<noteq> 0"
  shows "\<exists>w1. put_bytes w 16 (object_bytes abi (BINDER_TYPE_HANDLE abi) ptr) = Some w1 \<and> bio_ok w1 \<and> extends w w1
    \<and> bio_put_ref abi w ptr = Some (push_offset (bio_pos w) w1) \<and> offs_avail w1 \<noteq> 0"
proof -
  have "unat (bio_opos w) < length (bio_otab w)"
    using assms(2,4) unat_gt_0 [of "offs_avail w"] by (auto simp: bio_ok_def)
  then show ?thesis
    using put_bytes_hit [OF assms(2), of "object_bytes abi (BINDER_TYPE_HANDLE abi) ptr" 16] assms
    by (auto simp: put_ref_eq push_offset_def Let_def)
qed

lemma put_ref_miss:
  assumes "ptr \<noteq> 0" and "bio_ok w" and "\<not> (16 \<le> unat (data_avail w) \<and> offs_avail w \<noteq> 0)"
  shows "\<exists>w'. bio_put_ref abi w ptr = Some w' \<and> bio_ok w' \<and> extends w w' \<and> \<not> fits w'"
proof (cases "16 \<le> unat (data_avail w)")
  case False
  then show ?thesis using assms(1,2) overflow_not_fits [of "bio_flags w OR BIO_F_OVERFLOW" w]
    by (auto simp: put_ref_eq Let_def bio_ok_def extends_def)
next
  case True
  then have z: "offs_avail w = 0" using assms(3) by simp
  let ?w = "w\<lparr>bio_pos := bio_pos w + 16, data_avail := data_avail w - 16\<rparr>"
  have le: "16 \<le> data_avail w" using True by (simp add: word_le_nat_alt)
  have "unat (bio_pos w) + unat (data_avail w) \<le> length (bio_mem w)" "length (bio_mem w) < 2 ^ 32"
    using assms(2) by (auto simp: bio_ok_def)
  note adv = unat_advance [OF le this]
  have "bio_put_ref abi w ptr = Some (?w\<lparr>bio_flags := bio_flags w OR BIO_F_OVERFLOW\<rparr>)"
    using assms(1) True z by (simp add: put_ref_eq Let_def)
  moreover have "bio_ok (?w\<lparr>bio_flags := bio_flags w OR BIO_F_OVERFLOW\<rparr>)"
    using assms(2) adv by (simp add: bio_ok_def)
  ultimately show ?thesis
    using overflow_not_fits [of "bio_flags w" ?w] adv by (auto simp: extends_def)
qed

lemma object_bytes_at:
  assumes "i + 16 \<le> length m" and "take 16 (drop i m) = object_bytes abi t ptr"
  shows "load32 m i = Some t" and "load32 m (i + 8) = Some ptr"
proof -
  have "take 4 (drop i m) = take 4 (take 16 (drop i m))" by simp
  then have "take 4 (drop i m) = le32 t" unfolding assms(2) by (simp add: object_bytes_def)
  then show "load32 m i = Some t" using assms(1) by (intro load32_at) auto
  have "take 4 (drop (i + 8) m) = take 4 (drop 8 (take 16 (drop i m)))" by (simp add: drop_take add.commute)
  then have "take 4 (drop (i + 8) m) = le32 ptr" unfolding assms(2) by (simp add: object_bytes_def)
  then show "load32 m (i + 8) = Some ptr" using assms(1) by (intro load32_at) auto
qed

interpretation ref_item: parcel_item "\<lambda>ptr. ptr \<noteq> 0" "bio_put_ref abi" "bio_get_ref abi"
proof
  fix v w assume v: "(v :: u32) \<noteq> 0" and w: "bio_ok w"
  show "\<exists>w'. bio_put_ref abi w v = Some w' \<and> bio_ok w' \<and> extends w w'"
  proof (cases "16 \<le> unat (data_avail w) \<and> offs_avail w \<noteq> 0")
    case True
    then obtain w1 where "bio_ok w1" "extends w w1" "bio_put_ref abi w v = Some (push_offset (bio_pos w) w1)"
      "offs_avail w1 \<noteq> 0"
      using put_ref_hit [OF v w] by blast
    then show ?thesis using push_offset_ok extends_trans by blast
  next
    case False
    then show ?thesis using put_ref_miss [OF v w] by blast
  qed
next
  fix v w w' r
  assume v: "(v :: u32) \<noteq> 0" and w: "bio_ok w" and p: "bio_put_ref abi w v = Some w'" and f: "fits w'"
    and r: "bio_ok r" "reads_from r w'" "bio_pos r = bio_pos w"
  have "16 \<le> unat (data_avail w) \<and> offs_avail w \<noteq> 0"
    using put_ref_miss [OF v w, of abi] p f by auto
  then obtain w1 where 1: "put_bytes w 16 (object_bytes abi (BINDER_TYPE_HANDLE abi) v) = Some w1" "bio_ok w1"
    and w': "w' = push_offset (bio_pos w) w1" and o: "offs_avail w1 \<noteq> 0"
    using put_ref_hit [OF v w, of abi] p by auto
  note po = push_offset_ok [OF 1(2) o, of "bio_pos w", folded w']
  have f1: "fits w1" using po(2) f by (simp add: extends_def)
  obtain r' where g: "bio_get r 16 = (r', Some (bio_pos w))" "bio_ok r'" "same_reader r r'" "bio_pos r' = bio_pos w1"
    and m: "unat (bio_pos w) + 16 \<le> length (bio_mem r)"
      "take 16 (drop (unat (bio_pos w)) (bio_mem r)) = object_bytes abi (BINDER_TYPE_HANDLE abi) v"
    using get_put_bytes [OF w _ 1(1) f1 r(1) reads_from_extends [OF r(2) po(2)] r(3)] by auto
  have "bio_pos r \<in> set (take (unat (offs_avail r)) (drop (unat (bio_opos r)) (bio_otab r)))"
    using r(2,3) po(3) by (auto simp: reads_from_def)
  then have "bio_get_obj r = Some (r', Some (bio_pos w))" by (simp add: bio_get_obj_def g(1))
  then show "\<exists>r'. bio_get_ref abi r = Some (r', v) \<and> bio_ok r' \<and> same_reader r r' \<and> bio_pos r' = bio_pos w'"
    using g object_bytes_at [OF m] w' by (auto simp: bio_get_ref_def same_reader_def push_offset_def)
qed

end
