(* ===== verification/BinderUser.thy ===== *)
theory BinderUser
  imports BinderIo
begin

text \<open>
  The service manager's side of the binder protocol
  (\<open>servicemanager/binder.c\<close>): the commands it hands to the driver, the
  parser of what the driver returns, calls and the main loop.

  The driver is outside the repository. What it returns from an ioctl is an
  input: a status and the words read; the buffers of a transaction are found by
  address with \<open>drv_data\<close> and \<open>drv_offs\<close>. Commands written to it
  are collected in \<open>bs_cmds\<close>.
\<close>

section \<open>Commands\<close>

datatype bcmd =
    BcEnterLooper
  | BcAcquire u32
  | BcRelease u32
  | BcRequestDeath u32 u32
  | BcFreeBuffer u32
  | BcReply u32 bytes "u32 list"
  | BcTransaction u32 u32 bytes "u32 list"

record binder_state =
  bs_cmds :: "bcmd list"

record driver =
  drv_data :: "u32 \<Rightarrow> bytes"
  drv_offs :: "u32 \<Rightarrow> u32 list"
  drv_stack :: "bytes \<times> u32 list"

text \<open>
  \<open>drv_stack\<close> is what the 256-byte reply buffer on the stack holds before
  it is initialised, as the data and the offsets part.
\<close>

definition binder_write :: "'a binder_state_scheme \<Rightarrow> bcmd list \<Rightarrow> 'a binder_state_scheme" where
  "binder_write bs cs = bs\<lparr>bs_cmds := bs_cmds bs @ cs\<rparr>"

definition binder_acquire :: "'a binder_state_scheme \<Rightarrow> u32 \<Rightarrow> 'a binder_state_scheme" where
  "binder_acquire bs ptr = binder_write bs [BcAcquire ptr]"

definition binder_release :: "'a binder_state_scheme \<Rightarrow> u32 \<Rightarrow> 'a binder_state_scheme" where
  "binder_release bs ptr = binder_write bs [BcRelease ptr]"

definition binder_link_to_death :: "'a binder_state_scheme \<Rightarrow> u32 \<Rightarrow> u32 \<Rightarrow> 'a binder_state_scheme" where
  "binder_link_to_death bs ptr death = binder_write bs [BcRequestDeath ptr death]"

text \<open>The data a message has so far, as the driver would copy it.\<close>

definition bio_sent :: "binder_io \<Rightarrow> bytes" where
  "bio_sent bio = take (unat (bio_pos bio)) (bio_mem bio)"

definition bio_sent_offs :: "binder_io \<Rightarrow> u32 list" where
  "bio_sent_offs bio = take (unat (bio_opos bio)) (bio_otab bio)"

definition binder_send_reply ::
    "binder_abi \<Rightarrow> 'a binder_state_scheme \<Rightarrow> binder_io \<Rightarrow> u32 \<Rightarrow> int \<Rightarrow> 'a binder_state_scheme" where
  "binder_send_reply abi bs reply buffer_to_free status =
     binder_write bs
       [BcFreeBuffer buffer_to_free,
        if status \<noteq> 0 then BcReply (TF_STATUS_CODE abi) (le32 (of_int status)) []
        else BcReply 0 (bio_sent reply) (bio_sent_offs reply)]"

definition binder_done :: "'a binder_state_scheme \<Rightarrow> u32 \<Rightarrow> binder_io \<Rightarrow> 'a binder_state_scheme \<times> binder_io" where
  "binder_done bs data0 reply =
     (if bio_flags reply AND BIO_F_SHARED \<noteq> 0
      then (binder_write bs [BcFreeBuffer data0], reply\<lparr>bio_flags := 0\<rparr>) else (bs, reply))"

section \<open>Opening the driver\<close>

datatype bs_res = ResBs | ResBinderFd | ResMap
datatype bs_op = Take bs_res | Give bs_res

text \<open>\<open>malloc\<close>, the descriptor and whether \<open>mmap\<close> worked.\<close>

definition binder_open :: "bool \<Rightarrow> int \<Rightarrow> bool \<Rightarrow> bs_op list \<times> bool" where
  "binder_open malloc_ok fd map_ok =
     (if \<not> malloc_ok then ([], False)
      else if fd < 0 then ([Take ResBs, Give ResBs], False)
      else if \<not> map_ok then ([Take ResBs, Take ResBinderFd, Give ResBinderFd, Give ResBs], False)
      else ([Take ResBs, Take ResBinderFd, Take ResMap], True))"

definition binder_close :: "bs_op list" where
  "binder_close = [Give ResMap, Give ResBinderFd, Give ResBs]"

section \<open>Parsing\<close>

text \<open>\<open>struct binder_txn\<close> is ten words.\<close>

definition txn_words :: nat where "txn_words = 10"

definition txn_of_words :: "u32 list \<Rightarrow> binder_txn" where
  "txn_of_words ws = \<lparr>tx_target = ws ! 0, tx_cookie = ws ! 1, tx_code = ws ! 2, tx_flags = ws ! 3,
     tx_sender_pid = ws ! 4, tx_sender_euid = ws ! 5, tx_data_size = ws ! 6, tx_offs_size = ws ! 7,
     tx_data = ws ! 8, tx_offs = ws ! 9\<rparr>"

text \<open>
  The handler of transactions returns the new state, the reply and its status.
  It may be NULL (\<open>binder_call\<close> passes none).
\<close>

type_synonym 'a handler =
  "'a binder_state_scheme \<Rightarrow> binder_txn \<Rightarrow> binder_io \<Rightarrow> binder_io \<Rightarrow> ('a binder_state_scheme \<times> binder_io \<times> int) option"

definition run_txn ::
    "binder_abi \<Rightarrow> driver \<Rightarrow> 'a handler option \<Rightarrow> binder_txn \<Rightarrow> 'a binder_state_scheme \<Rightarrow> 'a binder_state_scheme option" where
  "run_txn abi drv func txn s =
     (case func of
        None \<Rightarrow> Some s
      | Some f \<Rightarrow>
          (let reply = bio_init (fst (drv_stack drv)) (snd (drv_stack drv)) 256 4;
               msg = bio_init_from_txn (drv_data drv (tx_data txn)) (drv_offs drv (tx_offs txn)) txn
           in do { (s1, reply1, res) \<leftarrow> f s txn msg reply;
                   Some (binder_send_reply abi s1 reply1 (tx_data txn) res) }))"

text \<open>
  The loop of \<open>binder_parse\<close>. \<open>idx\<close> is the index of the next word,
  \<open>ws\<close> the words from there to the end, \<open>bio\<close> where a reply goes
  (\<open>want\<close> is false once it is NULL), \<open>death\<close> the call through a
  \<open>struct binder_death\<close> pointer.
\<close>

function parse_loop ::
    "binder_abi \<Rightarrow> driver \<Rightarrow> 'a handler option \<Rightarrow> (u32 \<Rightarrow> 'a binder_state_scheme \<Rightarrow> 'a binder_state_scheme option)
       \<Rightarrow> nat \<Rightarrow> u32 list \<Rightarrow> int \<Rightarrow> bool \<Rightarrow> binder_io \<Rightarrow> 'a binder_state_scheme
       \<Rightarrow> ('a binder_state_scheme \<times> binder_io \<times> int) option" where
  "parse_loop abi drv func death idx [] r want bio s = Some (s, bio, r)"
| "parse_loop abi drv func death idx (cmd # ws) r want bio s =
     (if cmd = BR_NOOP abi \<or> cmd = BR_TRANSACTION_COMPLETE abi
      then parse_loop abi drv func death (idx + 1) ws r want bio s
      else if cmd = BR_INCREFS abi \<or> cmd = BR_ACQUIRE abi \<or> cmd = BR_RELEASE abi \<or> cmd = BR_DECREFS abi
      then parse_loop abi drv func death (idx + 3) (drop 2 ws) r want bio s
      else if cmd = BR_TRANSACTION abi
      then (if length ws < txn_words then Some (s, bio, -1)
            else do { s1 \<leftarrow> run_txn abi drv func (txn_of_words ws) s;
                      parse_loop abi drv func death (idx + 1 + txn_words) (drop txn_words ws) r want bio s1 })
      else if cmd = BR_REPLY abi
      then (if length ws < txn_words then Some (s, bio, -1)
            else
              (let txn = txn_of_words ws;
                   bio1 = (if want then bio_init_from_txn (drv_data drv (tx_data txn)) (drv_offs drv (tx_offs txn)) txn
                           else bio)
               in parse_loop abi drv func death (idx + 1 + txn_words) (drop txn_words ws) 0 False bio1 s))
      else if cmd = BR_DEAD_BINDER abi
      then (case ws of [] \<Rightarrow> None
            | c # ws' \<Rightarrow> do { s1 \<leftarrow> death c s; parse_loop abi drv func death (idx + 2) ws' r want bio s1 })
      else if cmd = BR_FAILED_REPLY abi \<or> cmd = BR_DEAD_REPLY abi
      then parse_loop abi drv func death (idx + 1) ws (-1) want bio s
      else if idx = 0 then parse_loop abi drv func death (idx + 1) ws r want bio s
      else Some (s, bio, -1))"
  by pat_completeness auto

termination
  by (relation "measure (\<lambda>(abi, drv, func, death, idx, ws, r, want, bio, s). length ws)")
    (auto simp: txn_words_def)

definition binder_parse ::
    "binder_abi \<Rightarrow> driver \<Rightarrow> 'a handler option \<Rightarrow> (u32 \<Rightarrow> 'a binder_state_scheme \<Rightarrow> 'a binder_state_scheme option)
       \<Rightarrow> bool \<Rightarrow> binder_io \<Rightarrow> u32 list \<Rightarrow> 'a binder_state_scheme \<Rightarrow> ('a binder_state_scheme \<times> binder_io \<times> int) option" where
  "binder_parse abi drv func death want bio ws s = parse_loop abi drv func death 0 ws 1 want bio s"

section \<open>Calls and the loop\<close>

definition zero_bio :: binder_io where
  "zero_bio = \<lparr>bio_mem = [], bio_pos = 0, data_avail = 0, bio_otab = [], bio_opos = 0, offs_avail = 0, bio_flags = 0\<rparr>"

text \<open>
  \<open>binder_call\<close>. The list holds the driver's answers to the ioctls;
  if it ends first the call is still waiting (the inner \<open>None\<close>).
\<close>

fun call_loop ::
    "binder_abi \<Rightarrow> driver \<Rightarrow> (u32 \<Rightarrow> 'a binder_state_scheme \<Rightarrow> 'a binder_state_scheme option) \<Rightarrow> (int \<times> u32 list) list
       \<Rightarrow> binder_io \<Rightarrow> 'a binder_state_scheme \<Rightarrow> ('a binder_state_scheme \<times> binder_io \<times> int option) option" where
  "call_loop abi drv death [] reply s = Some (s, reply, None)"
| "call_loop abi drv death ((res, ws) # io) reply s =
     (if res < 0 then Some (s, zero_bio\<lparr>bio_flags := BIO_F_IOERROR\<rparr>, Some (-1))
      else do { (s1, reply1, r) \<leftarrow> binder_parse abi drv None death True reply ws s;
                if r = 0 then Some (s1, reply1, Some 0)
                else if r < 0 then Some (s1, zero_bio\<lparr>bio_flags := BIO_F_IOERROR\<rparr>, Some (-1))
                else call_loop abi drv death io reply1 s1 })"

definition binder_call ::
    "binder_abi \<Rightarrow> driver \<Rightarrow> (u32 \<Rightarrow> 'a binder_state_scheme \<Rightarrow> 'a binder_state_scheme option) \<Rightarrow> (int \<times> u32 list) list
       \<Rightarrow> binder_io \<Rightarrow> binder_io \<Rightarrow> u32 \<Rightarrow> u32 \<Rightarrow> 'a binder_state_scheme
       \<Rightarrow> ('a binder_state_scheme \<times> binder_io \<times> int option) option" where
  "binder_call abi drv death io msg reply target code s =
     (if bio_flags msg AND BIO_F_OVERFLOW \<noteq> 0 then Some (s, zero_bio\<lparr>bio_flags := BIO_F_IOERROR\<rparr>, Some (-1))
      else call_loop abi drv death io reply
             (binder_write s [BcTransaction target code (bio_sent msg) (bio_sent_offs msg)]))"

fun loop_reads ::
    "binder_abi \<Rightarrow> driver \<Rightarrow> 'a handler \<Rightarrow> (u32 \<Rightarrow> 'a binder_state_scheme \<Rightarrow> 'a binder_state_scheme option)
       \<Rightarrow> (int \<times> u32 list) list \<Rightarrow> 'a binder_state_scheme \<Rightarrow> 'a binder_state_scheme option" where
  "loop_reads abi drv func death [] s = Some s"
| "loop_reads abi drv func death ((res, ws) # io) s =
     (if res < 0 then Some s
      else do { (s1, _, r) \<leftarrow> binder_parse abi drv (Some func) death False zero_bio ws s;
                if r \<le> 0 then Some s1 else loop_reads abi drv func death io s1 })"

definition binder_loop ::
    "binder_abi \<Rightarrow> driver \<Rightarrow> 'a handler \<Rightarrow> (u32 \<Rightarrow> 'a binder_state_scheme \<Rightarrow> 'a binder_state_scheme option)
       \<Rightarrow> (int \<times> u32 list) list \<Rightarrow> 'a binder_state_scheme \<Rightarrow> 'a binder_state_scheme option" where
  "binder_loop abi drv func death io s = loop_reads abi drv func death io (binder_write s [BcEnterLooper])"

end
