(* ===== verification/BinderLoop.thy ===== *)
theory BinderLoop
  imports BinderUser
begin

text \<open>
  The parser and the main loop of the service manager, for any handler: which
  commands one read produces, and the invariants a handler carries through the
  loop (locale \<open>handler_contract\<close>).
\<close>

declare parse_loop.simps [simp del]

definition br_codes :: "binder_abi \<Rightarrow> u32 list" where
  "br_codes abi = [BR_NOOP abi, BR_TRANSACTION_COMPLETE abi, BR_INCREFS abi, BR_ACQUIRE abi, BR_RELEASE abi,
     BR_DECREFS abi, BR_TRANSACTION abi, BR_REPLY abi, BR_DEAD_BINDER abi, BR_FAILED_REPLY abi, BR_DEAD_REPLY abi]"

text \<open>The driver's return codes are pairwise different.\<close>

definition abi_ok :: "binder_abi \<Rightarrow> bool" where
  "abi_ok abi \<longleftrightarrow> distinct (br_codes abi)"

lemma txn_code_other:
  "abi_ok abi \<Longrightarrow> BR_TRANSACTION abi \<noteq> BR_NOOP abi \<and> BR_TRANSACTION abi \<noteq> BR_TRANSACTION_COMPLETE abi
    \<and> BR_TRANSACTION abi \<noteq> BR_INCREFS abi \<and> BR_TRANSACTION abi \<noteq> BR_ACQUIRE abi
    \<and> BR_TRANSACTION abi \<noteq> BR_RELEASE abi \<and> BR_TRANSACTION abi \<noteq> BR_DECREFS abi"
  by (auto simp: abi_ok_def br_codes_def)

section \<open>Transactions are answered\<close>

lemma txn_of_words_append: "length t = txn_words \<Longrightarrow> txn_of_words (t @ r) = txn_of_words t"
  by (simp add: txn_of_words_def nth_append txn_words_def)

lemma parse_txn:
  assumes "abi_ok abi" and "length t = txn_words"
  shows "parse_loop abi drv f death idx (BR_TRANSACTION abi # t @ ws) r want bio s =
    do { s1 \<leftarrow> run_txn abi drv f (txn_of_words t) s; parse_loop abi drv f death (idx + 11) ws r want bio s1 }"
  using assms(2) txn_code_other [OF assms(1)]
  by (subst parse_loop.simps) (simp add: txn_of_words_append txn_words_def add.commute)

lemma parse_first:
  assumes "w0 = BR_NOOP abi \<or> w0 \<notin> set (br_codes abi)"
  shows "binder_parse abi drv f death want bio (w0 # ws) s = parse_loop abi drv f death 1 ws 1 want bio s"
  using assms unfolding binder_parse_def by (subst parse_loop.simps) (auto simp: br_codes_def)

lemma parse_txns:
  assumes "abi_ok abi" and "\<forall>t\<in>set ts. length t = txn_words"
  shows "parse_loop abi drv f death idx (concat (map (\<lambda>t. BR_TRANSACTION abi # t) ts)) r want bio s =
    map_option (\<lambda>s1. (s1, bio, r)) (foldM (\<lambda>t. run_txn abi drv f (txn_of_words t)) ts s)"
  using assms(2)
proof (induction ts arbitrary: idx s)
  case (Cons t ts)
  then show ?case
    by (cases "run_txn abi drv f (txn_of_words t) s") (simp_all add: parse_txn [OF assms(1)])
qed (simp add: parse_loop.simps)

text \<open>
  C35. A read that holds transactions serves all of them in order, also when
  its first word is corrupt. The first word may be \<open>BR_NOOP\<close>, as the
  driver writes it, or any word that is not a return code; \<open>binder_parse\<close>
  then runs the handler once per transaction, answers each with exactly a
  free of its buffer and a reply, and tells the loop to go on (it returns 1).
\<close>

theorem transactions_answered:
  assumes "abi_ok abi" and "w0 = BR_NOOP abi \<or> w0 \<notin> set (br_codes abi)"
    and "\<forall>t\<in>set ts. length t = txn_words"
  shows "binder_parse abi drv (Some f) death want bio (w0 # concat (map (\<lambda>t. BR_TRANSACTION abi # t) ts)) s =
    map_option (\<lambda>s1. (s1, bio, 1)) (foldM (\<lambda>t s. do {
        (s1, reply, res) \<leftarrow> f s (txn_of_words t)
          (bio_init_from_txn (drv_data drv (t ! 8)) (drv_offs drv (t ! 9)) (txn_of_words t))
          (bio_init (fst (drv_stack drv)) (snd (drv_stack drv)) 256 4);
        Some (s1\<lparr>bs_cmds := bs_cmds s1 @ [BcFreeBuffer (t ! 8),
          if res \<noteq> 0 then BcReply (TF_STATUS_CODE abi) (le32 (of_int res)) []
          else BcReply 0 (bio_sent reply) (bio_sent_offs reply)]\<rparr>) }) ts s)"
proof -
  have "run_txn abi drv (Some f) (txn_of_words t) = (\<lambda>s. do {
        (s1, reply, res) \<leftarrow> f s (txn_of_words t)
          (bio_init_from_txn (drv_data drv (t ! 8)) (drv_offs drv (t ! 9)) (txn_of_words t))
          (bio_init (fst (drv_stack drv)) (snd (drv_stack drv)) 256 4);
        Some (s1\<lparr>bs_cmds := bs_cmds s1 @ [BcFreeBuffer (t ! 8),
          if res \<noteq> 0 then BcReply (TF_STATUS_CODE abi) (le32 (of_int res)) []
          else BcReply 0 (bio_sent reply) (bio_sent_offs reply)]\<rparr>) })" for t
    by (rule ext) (simp add: run_txn_def Let_def txn_of_words_def binder_send_reply_def binder_write_def)
  then show ?thesis
    unfolding parse_first [OF assms(2)] parse_txns [OF assms(1,3)] by simp
qed

definition abi_0 :: binder_abi where
  "abi_0 = \<lparr>BR_NOOP = 0, BR_TRANSACTION_COMPLETE = 1, BR_INCREFS = 2, BR_ACQUIRE = 3, BR_RELEASE = 4, BR_DECREFS = 5,
     BR_TRANSACTION = 6, BR_REPLY = 7, BR_DEAD_BINDER = 8, BR_FAILED_REPLY = 9, BR_DEAD_REPLY = 10,
     BINDER_TYPE_BINDER = 1, BINDER_TYPE_HANDLE = 2, ACCEPTS_FDS = 0x100, TF_STATUS_CODE = 8\<rparr>"

definition drv_0 :: driver where
  "drv_0 = \<lparr>drv_data = (\<lambda>_. replicate 8 0), drv_offs = (\<lambda>_. []), drv_stack = (replicate 240 0, replicate 4 0)\<rparr>"

lemma abi_0_ok [simp]: "abi_ok abi_0"
  by (simp add: abi_ok_def br_codes_def abi_0_def)

theorem transactions_answered_witness:
  "binder_parse abi_0 drv_0 (Some (\<lambda>s txn msg reply. Some (s, reply, 0))) (\<lambda>_ s. Some s) False zero_bio
     [0xbeef, 6, 0, 0, 1, 0, 0, 0, 8, 0, 77, 0] \<lparr>bs_cmds = []\<rparr>
   = Some (\<lparr>bs_cmds = [BcFreeBuffer 77, BcReply 0 [] []]\<rparr>, zero_bio, 1)"
  using transactions_answered [of abi_0 "0xbeef" "[[0, 0, 1, 0, 0, 0, 8, 0, 77, 0]]" drv_0
      "\<lambda>s txn msg reply. Some (s, reply, 0)" "\<lambda>_ s. Some s" False zero_bio "\<lparr>bs_cmds = []\<rparr>"]
  by (simp add: abi_ok_def br_codes_def abi_0_def txn_words_def drv_0_def bio_init_def bio_sent_def bio_sent_offs_def)

section \<open>Invariants of the loop\<close>

text \<open>What a handler and its death callback keep, and the loop's own commands do not disturb.\<close>

locale handler_contract =
  fixes abi :: binder_abi
    and inv :: "'a binder_state_scheme \<Rightarrow> bool"
    and func :: "'a handler"
    and death :: "u32 \<Rightarrow> 'a binder_state_scheme \<Rightarrow> 'a binder_state_scheme option"
  assumes func_keeps: "inv s \<Longrightarrow> func s txn msg reply = Some (s', reply', r) \<Longrightarrow> inv s'"
    and death_keeps: "inv s \<Longrightarrow> death c s = Some s' \<Longrightarrow> inv s'"
    and reply_keeps: "inv s \<Longrightarrow> inv (binder_send_reply abi s reply b r)"
    and looper_keeps: "inv s \<Longrightarrow> inv (binder_write s [BcEnterLooper])"
begin

lemma run_txn_keeps: "inv s \<Longrightarrow> run_txn abi drv (Some func) txn s = Some s' \<Longrightarrow> inv s'"
  by (auto simp: run_txn_def Let_def bind_eq_Some_conv dest: func_keeps intro: reply_keeps)

lemma parse_loop_keeps:
  assumes "inv s" and "parse_loop abi drv (Some func) death idx ws r want bio s = Some (s', bio', r')"
  shows "inv s'"
  using assms
proof (induction "length ws" arbitrary: idx ws r want bio s rule: less_induct)
  case less
  show ?case
  proof (cases ws)
    case Nil
    then show ?thesis using less.prems by (simp add: parse_loop.simps)
  next
    case (Cons cmd rest)
    have IH: "inv s'" if "length v < length ws" "inv t"
      "parse_loop abi drv (Some func) death i v q w b t = Some (s', bio', r')" for i v q w b t
      using less.hyps that by blast
    show ?thesis
      using less.prems unfolding Cons
      by (subst (asm) parse_loop.simps)
        (auto simp: Cons Let_def bind_eq_Some_conv txn_words_def dest: run_txn_keeps death_keeps
          split: if_splits list.splits elim!: IH [rotated 2])
  qed
qed

lemma loop_reads_keeps: "inv s \<Longrightarrow> loop_reads abi drv func death io s = Some s' \<Longrightarrow> inv s'"
proof (induction io arbitrary: s)
  case (Cons a io)
  obtain res ws where a: "a = (res, ws)" by (cases a)
  show ?case
  proof (cases "res < 0")
    case True then show ?thesis using Cons.prems by (simp add: a)
  next
    case False
    obtain s1 b r where p: "binder_parse abi drv (Some func) death False zero_bio ws s = Some (s1, b, r)"
      and rest: "(if r \<le> 0 then Some s1 else loop_reads abi drv func death io s1) = Some s'"
      using Cons.prems False by (auto simp: a bind_eq_Some_conv simp del: if_split)
    have "inv s1" using parse_loop_keeps [OF Cons.prems(1) p [unfolded binder_parse_def]] .
    then show ?thesis using rest Cons.IH by (auto split: if_splits)
  qed
qed simp

lemma binder_loop_keeps: "inv s \<Longrightarrow> binder_loop abi drv func death io s = Some s' \<Longrightarrow> inv s'"
  by (auto simp: binder_loop_def dest: loop_reads_keeps looper_keeps)

end

end
