(* ===== verification/ServiceManager.thy ===== *)
theory ServiceManager
  imports BinderUser
begin

text \<open>
  The service manager (\<open>servicemanager/service_manager.c\<close>): the registry
  of named services, who may register, who may look up, the handler of its
  transactions and \<open>main\<close>.

  A \<open>uint16_t *\<close> is the list of halfwords from the pointer to the end of
  the object it points into, and \<open>None\<close> when it is NULL, so reading past
  the object is a failed pattern match and gives \<open>None\<close>. The linked list
  \<open>svclist\<close> is a list of records; \<open>si_addr\<close> is the address of
  a \<open>struct svcinfo\<close>, by which the code refers to it.
\<close>

section \<open>Identities\<close>

text \<open>
  User ids of \<open>android_filesystem_config.h\<close>, which is not in the
  repository.
\<close>

record aids =
  AID_SYSTEM :: u32
  AID_MEDIA :: u32
  AID_DRM :: u32
  AID_NFC :: u32
  AID_BLUETOOTH :: u32
  AID_RADIO :: u32
  AID_KEYSTORE :: u32
  AID_USER :: u32
  AID_ISOLATED_START :: u32
  AID_ISOLATED_END :: u32

definition allowed :: "aids \<Rightarrow> (u32 \<times> string) list" where
  "allowed aid =
    [(AID_MEDIA aid, ''media.audio_flinger''),
     (AID_MEDIA aid, ''media.log''),
     (AID_MEDIA aid, ''media.player''),
     (AID_MEDIA aid, ''media.camera''),
     (AID_MEDIA aid, ''media.audio_policy''),
     (AID_DRM aid, ''drm.drmManager''),
     (AID_NFC aid, ''nfc''),
     (AID_BLUETOOTH aid, ''bluetooth''),
     (AID_RADIO aid, ''radio.phone''),
     (AID_RADIO aid, ''radio.sms''),
     (AID_RADIO aid, ''radio.phonesubinfo''),
     (AID_RADIO aid, ''radio.simphonebook''),
     (AID_RADIO aid, ''phone''),
     (AID_RADIO aid, ''sip''),
     (AID_RADIO aid, ''isms''),
     (AID_RADIO aid, ''iphonesubinfo''),
     (AID_RADIO aid, ''simphonebook''),
     (AID_MEDIA aid, ''common_time.clock''),
     (AID_MEDIA aid, ''common_time.config''),
     (AID_KEYSTORE aid, ''android.security.keystore'')]"

definition svcmgr_handle :: u32 where "svcmgr_handle = 0"

section \<open>Strings\<close>

fun str8_loop :: "u16 list \<Rightarrow> nat \<Rightarrow> bytes option" where
  "str8_loop [] k = None"
| "str8_loop (c # cs) k =
     (if c = 0 then Some []
      else case k of 0 \<Rightarrow> Some [] | Suc k' \<Rightarrow> map_option ((#) (lo8 c)) (str8_loop cs k'))"

definition str8 :: "u16 list option \<Rightarrow> bytes option" where
  "str8 x = (case x of None \<Rightarrow> Some [] | Some cs \<Rightarrow> str8_loop cs 127)"

fun str16eq_loop :: "u16 list \<Rightarrow> u16 list \<Rightarrow> bool option" where
  "str16eq_loop [] b = None"
| "str16eq_loop (x # a) [] = Some (x = 0)"
| "str16eq_loop (x # a) (y # b) =
     (if x = 0 then Some False else if x \<noteq> y then Some False else str16eq_loop a b)"

definition str16eq :: "u16 list option \<Rightarrow> string \<Rightarrow> bool option" where
  "str16eq a b = do { cs \<leftarrow> a; str16eq_loop cs (widen b) }"

definition memcmp16 :: "u16 list option \<Rightarrow> u16 list option \<Rightarrow> nat \<Rightarrow> bool option" where
  "memcmp16 a b n =
     do { x \<leftarrow> a; y \<leftarrow> b;
          if n \<le> length x \<and> n \<le> length y then Some (take n x = take n y) else None }"

section \<open>Who may register\<close>

fun allowed_loop :: "u32 \<Rightarrow> u16 list option \<Rightarrow> (u32 \<times> string) list \<Rightarrow> bool option" where
  "allowed_loop uid name [] = Some False"
| "allowed_loop uid name ((u, n) # tab) =
     (if uid = u
      then do { eq \<leftarrow> str16eq name n; if eq then Some True else allowed_loop uid name tab }
      else allowed_loop uid name tab)"

definition svc_can_register :: "aids \<Rightarrow> u32 \<Rightarrow> u16 list option \<Rightarrow> bool option" where
  "svc_can_register aid uid name =
     (if uid = 0 \<or> uid = AID_SYSTEM aid then Some True else allowed_loop uid name (allowed aid))"

section \<open>The registry\<close>

record svcinfo =
  si_addr :: u32
  si_ptr :: u32
  allow_isolated :: bool
  si_len :: u32
  si_name :: "u16 list"

record svc_state = binder_state +
  svclist :: "svcinfo list"

fun find_in :: "u16 list option \<Rightarrow> u32 \<Rightarrow> svcinfo list \<Rightarrow> svcinfo option option" where
  "find_in s16 len [] = Some None"
| "find_in s16 len (si # l) =
     (if len = si_len si
      then do { eq \<leftarrow> memcmp16 s16 (Some (si_name si)) (unat len);
                if eq then Some (Some si) else find_in s16 len l }
      else find_in s16 len l)"

definition find_svc :: "svc_state \<Rightarrow> u16 list option \<Rightarrow> u32 \<Rightarrow> svcinfo option option" where
  "find_svc s s16 len = find_in s16 len (svclist s)"

text \<open>An assignment through a \<open>struct svcinfo *\<close>.\<close>

definition set_ptr :: "u32 \<Rightarrow> u32 \<Rightarrow> svc_state \<Rightarrow> svc_state" where
  "set_ptr a p s =
     s\<lparr>svclist := map (\<lambda>si. if si_addr si = a then si\<lparr>si_ptr := p\<rparr> else si) (svclist s)\<rparr>"

definition svcinfo_death :: "svc_state \<Rightarrow> svcinfo \<Rightarrow> svc_state option" where
  "svcinfo_death s si =
     do { _ \<leftarrow> str8 (Some (si_name si));
          Some (if si_ptr si \<noteq> 0 then set_ptr (si_addr si) 0 (binder_release s (si_ptr si)) else s) }"

text \<open>
  The call the parser makes through a \<open>struct binder_death *\<close>. The
  field \<open>death\<close> is 8 bytes into a \<open>struct svcinfo\<close>; an
  address that is not the field of a live one is a wild pointer.
\<close>

definition death_offset :: u32 where "death_offset = 8"

definition svc_death :: "u32 \<Rightarrow> svc_state \<Rightarrow> svc_state option" where
  "svc_death death s =
     (case find (\<lambda>si. si_addr si + death_offset = death) (svclist s) of
        None \<Rightarrow> None | Some si \<Rightarrow> svcinfo_death s si)"

definition svcmgr_id :: "u16 list" where
  "svcmgr_id = widen ''android.os.IServiceManager''"

definition do_find_service :: "aids \<Rightarrow> svc_state \<Rightarrow> u16 list option \<Rightarrow> u32 \<Rightarrow> u32 \<Rightarrow> u32 option" where
  "do_find_service aid bs s len uid =
     do { si \<leftarrow> find_svc bs s len;
          case si of
            None \<Rightarrow> Some 0
          | Some si \<Rightarrow>
              if si_ptr si \<noteq> 0
              then (if \<not> allow_isolated si
                    then (let appid = uid mod AID_USER aid in
                          if appid \<ge> AID_ISOLATED_START aid \<and> appid \<le> AID_ISOLATED_END aid
                          then Some 0 else Some (si_ptr si))
                    else Some (si_ptr si))
              else Some 0 }"

text \<open>
  \<open>malloc\<close> gets the blocks in use and the size and returns the address,
  or \<open>None\<close> when memory is exhausted. A \<open>struct svcinfo\<close> is 24
  bytes without its name.
\<close>

type_synonym malloc_fn = "u32 list \<Rightarrow> u32 \<Rightarrow> u32 option"

definition new_svc :: "u32 \<Rightarrow> u32 \<Rightarrow> u16 list option \<Rightarrow> u32 \<Rightarrow> bool \<Rightarrow> svcinfo option" where
  "new_svc a ptr s len allow =
     do { cs \<leftarrow> s;
          if unat len + 1 \<le> length cs
          then Some \<lparr>si_addr = a, si_ptr = ptr, allow_isolated = allow, si_len = len,
                     si_name = (take (unat len + 1) cs)[unat len := 0]\<rparr>
          else None }"

definition link_svc :: "svc_state \<Rightarrow> u32 \<Rightarrow> u32 \<Rightarrow> svc_state" where
  "link_svc bs ptr a = binder_link_to_death (binder_acquire bs ptr) ptr (a + death_offset)"

definition do_add_service ::
    "aids \<Rightarrow> malloc_fn \<Rightarrow> svc_state \<Rightarrow> u16 list option \<Rightarrow> u32 \<Rightarrow> u32 \<Rightarrow> u32 \<Rightarrow> bool \<Rightarrow> (svc_state \<times> int) option" where
  "do_add_service aid mal bs s len ptr uid allow =
     (if ptr = 0 \<or> len = 0 \<or> len > 127 then Some (bs, -1)
      else do {
        can \<leftarrow> svc_can_register aid uid s;
        if \<not> can then do { _ \<leftarrow> str8 s; Some (bs, -1) }
        else do {
          found \<leftarrow> find_svc bs s len;
          case found of
            Some si \<Rightarrow>
              do { bs1 \<leftarrow> (if si_ptr si \<noteq> 0
                           then do { _ \<leftarrow> str8 s; svcinfo_death bs si } else Some bs);
                   Some (link_svc (set_ptr (si_addr si) ptr bs1) ptr (si_addr si), 0) }
          | None \<Rightarrow>
              (case mal (map si_addr (svclist bs)) (24 + (len + 1) * 2) of
                 None \<Rightarrow> do { _ \<leftarrow> str8 s; Some (bs, -1) }
               | Some a \<Rightarrow>
                   do { si \<leftarrow> new_svc a ptr s len allow;
                        Some (link_svc (bs\<lparr>svclist := si # svclist bs\<rparr>) ptr a, 0) }) } })"

section \<open>Transactions\<close>

definition SVC_MGR_GET_SERVICE :: u32 where "SVC_MGR_GET_SERVICE = 1"
definition SVC_MGR_CHECK_SERVICE :: u32 where "SVC_MGR_CHECK_SERVICE = 2"
definition SVC_MGR_ADD_SERVICE :: u32 where "SVC_MGR_ADD_SERVICE = 3"
definition SVC_MGR_LIST_SERVICES :: u32 where "SVC_MGR_LIST_SERVICES = 4"

text \<open>
  The interface header: the strict-mode word and the interface name. The value
  says whether the name is the service manager's.
\<close>

definition enforce_interface :: "binder_io \<Rightarrow> (binder_io \<times> bool) option" where
  "enforce_interface msg =
     do { (msg1, _) \<leftarrow> bio_get_uint32 msg;
          (msg2, p, len) \<leftarrow> bio_get_string16 msg1;
          same \<leftarrow> (if unat len \<noteq> length svcmgr_id then Some False
                   else memcmp16 (Some svcmgr_id) (at16 msg2 p) (length svcmgr_id));
          if same then Some (msg2, True) else do { _ \<leftarrow> str8 (at16 msg2 p); Some (msg2, False) } }"

text \<open>The three requests; the result is the state, the reply and the status.\<close>

type_synonym svc_result = "(svc_state \<times> binder_io \<times> int) option"

definition reply_zero :: "svc_state \<Rightarrow> binder_io \<Rightarrow> svc_result" where
  "reply_zero bs reply = do { r \<leftarrow> bio_put_uint32 reply 0; Some (bs, r, 0) }"

definition svcmgr_find :: "aids \<Rightarrow> binder_abi \<Rightarrow> svc_state \<Rightarrow> u32 \<Rightarrow> binder_io \<Rightarrow> binder_io \<Rightarrow> svc_result" where
  "svcmgr_find aid abi bs uid msg reply =
     do { (msg1, p, len) \<leftarrow> bio_get_string16 msg;
          ptr \<leftarrow> do_find_service aid bs (at16 msg1 p) len uid;
          if ptr = 0 then reply_zero bs reply
          else do { r \<leftarrow> bio_put_ref abi reply ptr; Some (bs, r, 0) } }"

definition svcmgr_add ::
    "aids \<Rightarrow> binder_abi \<Rightarrow> malloc_fn \<Rightarrow> svc_state \<Rightarrow> u32 \<Rightarrow> binder_io \<Rightarrow> binder_io \<Rightarrow> svc_result" where
  "svcmgr_add aid abi mal bs uid msg reply =
     do { (msg1, p, len) \<leftarrow> bio_get_string16 msg;
          (msg2, ptr) \<leftarrow> bio_get_ref abi msg1;
          (msg3, allow) \<leftarrow> bio_get_uint32 msg2;
          (bs1, res) \<leftarrow> do_add_service aid mal bs (at16 msg1 p) len ptr uid (allow \<noteq> 0);
          if res \<noteq> 0 then Some (bs1, reply, -1) else reply_zero bs1 reply }"

definition svcmgr_list :: "svc_state \<Rightarrow> binder_io \<Rightarrow> binder_io \<Rightarrow> svc_result" where
  "svcmgr_list bs msg reply =
     do { (msg1, n) \<leftarrow> bio_get_uint32 msg;
          case drop (unat n) (svclist bs) of
            [] \<Rightarrow> Some (bs, reply, -1)
          | si # _ \<Rightarrow> do { r \<leftarrow> bio_put_string16 reply (Some (si_name si)); Some (bs, r, 0) } }"

definition svcmgr_handler ::
    "aids \<Rightarrow> binder_abi \<Rightarrow> malloc_fn \<Rightarrow> svc_state \<Rightarrow> binder_txn \<Rightarrow> binder_io \<Rightarrow> binder_io \<Rightarrow> svc_result" where
  "svcmgr_handler aid abi mal bs txn msg reply =
     (if tx_target txn \<noteq> svcmgr_handle then Some (bs, reply, -1)
      else do {
        (msg1, ok) \<leftarrow> enforce_interface msg;
        if \<not> ok then Some (bs, reply, -1)
        else if tx_code txn = SVC_MGR_GET_SERVICE \<or> tx_code txn = SVC_MGR_CHECK_SERVICE
        then svcmgr_find aid abi bs (tx_sender_euid txn) msg1 reply
        else if tx_code txn = SVC_MGR_ADD_SERVICE
        then svcmgr_add aid abi mal bs (tx_sender_euid txn) msg1 reply
        else if tx_code txn = SVC_MGR_LIST_SERVICES
        then svcmgr_list bs msg1 reply
        else Some (bs, reply, -1) })"

section \<open>The process\<close>

text \<open>
  \<open>main\<close>: whether \<open>malloc\<close>, \<open>open\<close> and \<open>mmap\<close>
  worked, the result of becoming the context manager, then the driver's answers.
  A failed \<open>binder_open\<close> returns NULL, which the next call dereferences.
\<close>

definition no_services :: svc_state where
  "no_services = \<lparr>bs_cmds = [], svclist = []\<rparr>"

definition svcmgr_main ::
    "aids \<Rightarrow> binder_abi \<Rightarrow> malloc_fn \<Rightarrow> driver \<Rightarrow> bool \<Rightarrow> int \<Rightarrow> bool \<Rightarrow> int \<Rightarrow> (int \<times> u32 list) list \<Rightarrow> (svc_state \<times> int) option" where
  "svcmgr_main aid abi mal drv malloc_ok fd map_ok ctx io =
     (if \<not> snd (binder_open malloc_ok fd map_ok) then None
      else if ctx \<noteq> 0 then Some (no_services, -1)
      else do { s \<leftarrow> binder_loop abi drv (svcmgr_handler aid abi mal) svc_death io no_services;
                Some (s, 0) })"

end
