(* ===== verification/ServiceProps.thy ===== *)
theory ServiceProps
  imports BinderIoProps BinderLoop ServiceManager
begin

text \<open>
  Correctness of the service manager: the registry implements a finite map from
  names to handles, the references it takes are balanced, only authorised users
  change it, and requests written with the \<open>bio_put\<close> functions are
  served as the callers mean them.
\<close>

section \<open>The registry as a map\<close>

definition si_key :: "svcinfo \<Rightarrow> u16 list" where
  "si_key si = take (unat (si_len si)) (si_name si)"

definition entry_ok :: "svcinfo \<Rightarrow> bool" where
  "entry_ok si \<longleftrightarrow> 0 < si_len si \<and> si_len si \<le> 127 \<and> length (si_name si) = unat (si_len si) + 1
     \<and> si_name si ! unat (si_len si) = 0"

definition registry_ok :: "svcinfo list \<Rightarrow> bool" where
  "registry_ok l \<longleftrightarrow> (\<forall>si\<in>set l. entry_ok si) \<and> distinct (map si_addr l) \<and> distinct (map si_key l)"

text \<open>The handle of each name, 0 when its owner died, and whether isolated processes may have it.\<close>

definition services :: "svc_state \<Rightarrow> u16 list \<rightharpoonup> u32 \<times> bool" where
  "services s = map_of (map (\<lambda>si. (si_key si, si_ptr si, allow_isolated si)) (svclist s))"

lemma entry_key_length: "entry_ok si \<Longrightarrow> length (si_key si) = unat (si_len si)"
  by (simp add: entry_ok_def si_key_def)

lemma find_in_spec:
  assumes "\<forall>si\<in>set l. entry_ok si" and "unat len \<le> length cs"
  shows "find_in (Some cs) len l = Some (find (\<lambda>si. si_key si = take (unat len) cs) l)"
  using assms(1)
proof (induction l)
  case (Cons si l)
  have ok: "entry_ok si" using Cons.prems by simp
  show ?case
  proof (cases "len = si_len si")
    case True
    then have "memcmp16 (Some cs) (Some (si_name si)) (unat len) = Some (si_key si = take (unat len) cs)"
      using ok assms(2) by (auto simp: memcmp16_def si_key_def entry_ok_def)
    then show ?thesis using Cons True by auto
  next
    case False
    then have "length (si_key si) \<noteq> length (take (unat len) cs)"
      using entry_key_length [OF ok] assms(2) by (simp add: word_unat_eq_iff)
    then have "si_key si \<noteq> take (unat len) cs" by metis
    then show ?thesis using Cons False by auto
  qed
qed simp

lemma find_key_services:
  assumes "registry_ok l"
  shows "find (\<lambda>si. si_key si = k) l = None \<longleftrightarrow> map_of (map (\<lambda>si. (si_key si, si_ptr si, allow_isolated si)) l) k = None"
    and "find (\<lambda>si. si_key si = k) l = Some si \<Longrightarrow>
      map_of (map (\<lambda>si. (si_key si, si_ptr si, allow_isolated si)) l) k = Some (si_ptr si, allow_isolated si)"
  by (induction l) (auto split: if_splits)

section \<open>Assigning through a pointer\<close>

lemma set_ptr_split:
  assumes "svclist s = xs @ si # ys" and "distinct (map si_addr (svclist s))"
  shows "svclist (set_ptr (si_addr si) p s) = xs @ si\<lparr>si_ptr := p\<rparr> # ys"
proof -
  have "map (\<lambda>t. if si_addr t = si_addr si then t\<lparr>si_ptr := p\<rparr> else t) zs = zs" if "si_addr si \<notin> si_addr ` set zs" for zs
    using that by (induction zs) auto
  then show ?thesis using assms by (auto simp: set_ptr_def)
qed

lemma key_upd [simp]: "si_key (si\<lparr>si_ptr := p\<rparr>) = si_key si" "entry_ok (si\<lparr>si_ptr := p\<rparr>) = entry_ok si"
  by (simp_all add: si_key_def entry_ok_def)

lemma cmds_simps [simp]:
  "bs_cmds (set_ptr a p s) = bs_cmds s" "svclist (binder_release s q) = svclist s"
  "svclist (binder_acquire s q) = svclist s" "svclist (binder_link_to_death s q d) = svclist s"
  "svclist (link_svc s q d) = svclist s"
  "bs_cmds (binder_release s q) = bs_cmds s @ [BcRelease q]"
  "bs_cmds (link_svc s q a) = bs_cmds s @ [BcAcquire q, BcRequestDeath q (a + death_offset)]"
  by (simp_all add: set_ptr_def binder_release_def binder_acquire_def binder_link_to_death_def binder_write_def link_svc_def)

lemma count_list_snoc [simp]: "count_list (xs @ [y]) x = count_list xs x + (if x = y then 1 else 0)"
  by (induction xs) auto

lemma count_list_app: "count_list (xs @ ys) x = count_list xs x + count_list ys x"
  by (induction xs) auto

section \<open>The invariant\<close>

text \<open>
  Every handle in the registry holds exactly one reference: the acquires sent to
  the driver are the releases and the live entries.
\<close>

definition refs_balanced :: "svc_state \<Rightarrow> bool" where
  "refs_balanced s \<longleftrightarrow> (\<forall>p. p \<noteq> 0 \<longrightarrow> count_list (bs_cmds s) (BcAcquire p)
     = count_list (bs_cmds s) (BcRelease p) + count_list (map si_ptr (svclist s)) p)"

definition svc_ok :: "svc_state \<Rightarrow> bool" where
  "svc_ok s \<longleftrightarrow> registry_ok (svclist s) \<and> refs_balanced s"

lemma entry_name_str8: "entry_ok si \<Longrightarrow> \<exists>t. str8 (Some (si_name si)) = Some t"
proof -
  have *: "0 \<in> set cs \<Longrightarrow> \<exists>t. str8_loop cs k = Some t" for cs k
    by (induction cs k rule: str8_loop.induct) (auto split: nat.splits)
  assume "entry_ok si"
  then have "0 \<in> set (si_name si)" unfolding entry_ok_def by (metis less_add_one nth_mem)
  then show ?thesis using * by (simp add: str8_def)
qed

lemma registry_split:
  assumes "registry_ok (xs @ si # ys)"
  shows "registry_ok (xs @ si\<lparr>si_ptr := p\<rparr> # ys)"
  using assms by (auto simp: registry_ok_def)

lemma svcinfo_death_split:
  assumes "svc_ok s" and "svclist s = xs @ si # ys" and "si_ptr si \<noteq> 0"
  shows "\<exists>s'. svcinfo_death s si = Some s' \<and> svclist s' = xs @ si\<lparr>si_ptr := 0\<rparr> # ys
    \<and> bs_cmds s' = bs_cmds s @ [BcRelease (si_ptr si)]"
proof -
  have "entry_ok si" "distinct (map si_addr (svclist s))"
    using assms by (auto simp: svc_ok_def registry_ok_def)
  then show ?thesis
    using assms entry_name_str8 [of si] set_ptr_split [of "binder_release s (si_ptr si)" xs si ys 0]
    by (auto simp: svcinfo_death_def)
qed

lemma svcinfo_death_ok:
  assumes "svc_ok s" and "si \<in> set (svclist s)"
  shows "\<exists>s'. svcinfo_death s si = Some s' \<and> svc_ok s'"
proof (cases "si_ptr si = 0")
  case True
  have "entry_ok si" using assms by (auto simp: svc_ok_def registry_ok_def)
  then show ?thesis using assms True entry_name_str8 [of si] by (auto simp: svcinfo_death_def)
next
  case False
  obtain xs ys where l: "svclist s = xs @ si # ys" using assms(2) by (auto simp: in_set_conv_decomp)
  obtain s' where s': "svcinfo_death s si = Some s'" "svclist s' = xs @ si\<lparr>si_ptr := 0\<rparr> # ys"
    "bs_cmds s' = bs_cmds s @ [BcRelease (si_ptr si)]"
    using svcinfo_death_split [OF assms(1) l False] by blast
  have "registry_ok (svclist s')" using assms(1) registry_split unfolding s'(2) svc_ok_def l by blast
  moreover have "refs_balanced s'"
    using assms(1) False by (auto simp: svc_ok_def refs_balanced_def s' l count_list_app)
  ultimately show ?thesis using s'(1) by (simp add: svc_ok_def)
qed

section \<open>Who may register\<close>

definition cstring :: "u16 list \<Rightarrow> u16 list" where
  "cstring cs = takeWhile (\<lambda>c. c \<noteq> 0) cs"

definition may_register :: "aids \<Rightarrow> u32 \<Rightarrow> u16 list \<Rightarrow> bool" where
  "may_register aid uid name \<longleftrightarrow> uid = 0 \<or> uid = AID_SYSTEM aid
     \<or> (\<exists>n. (uid, n) \<in> set (allowed aid) \<and> widen n = name)"

lemma str16eq_loop_True: "str16eq_loop cs b = Some True \<Longrightarrow> 0 \<notin> set b \<Longrightarrow> cstring cs = b"
  by (induction cs b rule: str16eq_loop.induct) (auto simp: cstring_def split: if_splits)

lemma str16eq_loop_total:
  "0 \<in> set cs \<Longrightarrow> 0 \<notin> set b \<Longrightarrow> str16eq_loop cs b = Some (cstring cs = b)"
  by (induction cs b rule: str16eq_loop.induct) (auto simp: cstring_def split: if_splits)

lemma allowed_no_zero: "(u, n) \<in> set (allowed aid) \<Longrightarrow> 0 \<notin> set (widen n)"
  by (auto simp: allowed_def widen_def)

lemma allowed_loop_True:
  assumes "allowed_loop uid (Some cs) tab = Some True" and "\<And>u n. (u, n) \<in> set tab \<Longrightarrow> 0 \<notin> set (widen n)"
  shows "\<exists>n. (uid, n) \<in> set tab \<and> widen n = cstring cs"
  using assms
proof (induction tab)
  case (Cons x tab)
  obtain u n where x: "x = (u, n)" by (cases x)
  have n: "0 \<notin> set (widen n)" by (rule Cons.prems(2) [of u]) (simp add: x)
  have IH: "allowed_loop uid (Some cs) tab = Some True \<Longrightarrow> ?case"
    using Cons.IH Cons.prems(2) by auto
  show ?case
  proof (cases "uid = u \<and> str16eq (Some cs) n = Some True")
    case True
    then have "cstring cs = widen n" using str16eq_loop_True [OF _ n] by (simp add: str16eq_def)
    then show ?thesis using True by (auto simp: x)
  next
    case False
    then show ?thesis using Cons.prems(1) IH by (auto simp: x bind_eq_Some_conv split: if_splits)
  qed
qed simp

lemma allowed_loop_total:
  assumes "0 \<in> set cs" and "\<And>u n. (u, n) \<in> set tab \<Longrightarrow> 0 \<notin> set (widen n)"
  shows "allowed_loop uid (Some cs) tab = Some (\<exists>n. (uid, n) \<in> set tab \<and> widen n = cstring cs)"
  using assms(2)
proof (induction tab)
  case (Cons x tab)
  obtain u n where x: "x = (u, n)" by (cases x)
  have n: "0 \<notin> set (widen n)" by (rule Cons.prems [of u]) (simp add: x)
  have "str16eq (Some cs) n = Some (cstring cs = widen n)"
    using str16eq_loop_total [OF assms(1) n] by (simp add: str16eq_def)
  moreover have "allowed_loop uid (Some cs) tab = Some (\<exists>n. (uid, n) \<in> set tab \<and> widen n = cstring cs)"
    using Cons by auto
  ultimately show ?case by (auto simp: x)
qed simp

lemma svc_can_register_total:
  "0 \<in> set cs \<Longrightarrow> svc_can_register aid uid (Some cs) = Some (may_register aid uid (cstring cs))"
  using allowed_loop_total [of cs "allowed aid"] allowed_no_zero
  by (auto simp: svc_can_register_def may_register_def)

lemma svc_can_register_True:
  "svc_can_register aid uid (Some cs) = Some True \<Longrightarrow> may_register aid uid (cstring cs)"
  using allowed_loop_True [of uid cs "allowed aid"] allowed_no_zero
  by (auto simp: svc_can_register_def may_register_def split: if_splits)

lemma svc_can_register_NULL:
  "svc_can_register aid uid None = Some True \<Longrightarrow> uid = 0 \<or> uid = AID_SYSTEM aid"
proof -
  have "allowed_loop uid None tab \<noteq> Some True" for tab
    by (induction tab) (auto simp: str16eq_def split: if_splits)
  then show "svc_can_register aid uid None = Some True \<Longrightarrow> ?thesis"
    by (auto simp: svc_can_register_def split: if_splits)
qed

section \<open>Adding\<close>

text \<open>What the C library promises of \<open>malloc\<close>: a block not in use.\<close>

definition malloc_fresh :: "malloc_fn \<Rightarrow> bool" where
  "malloc_fresh mal \<longleftrightarrow> (\<forall>used n a. mal used n = Some a \<longrightarrow> a \<notin> set used)"

text \<open>Replacing the owner of a registered name.\<close>

lemma override_ok:
  assumes "svc_ok s" and l: "svclist s = xs @ si # ys" and "p \<noteq> 0" and q: "si_ptr si \<noteq> 0 \<Longrightarrow> \<exists>t. str8 c = Some t"
  shows "\<exists>s1. (if si_ptr si \<noteq> 0 then do { _ \<leftarrow> str8 c; svcinfo_death s si } else Some s) = Some s1
    \<and> svclist (link_svc (set_ptr (si_addr si) p s1) p (si_addr si)) = xs @ si\<lparr>si_ptr := p\<rparr> # ys
    \<and> svc_ok (link_svc (set_ptr (si_addr si) p s1) p (si_addr si))"
proof -
  have d: "distinct (map si_addr (svclist s))" using assms(1) by (simp add: svc_ok_def registry_ok_def)
  obtain s1 q where s1: "(if si_ptr si \<noteq> 0 then do { _ \<leftarrow> str8 c; svcinfo_death s si } else Some s) = Some s1"
    "svclist s1 = xs @ si\<lparr>si_ptr := 0\<rparr> # ys"
    "bs_cmds s1 = bs_cmds s @ (if si_ptr si \<noteq> 0 then [BcRelease (si_ptr si)] else [])"
  proof (cases "si_ptr si = 0")
    case True
    then have "svclist s = xs @ si\<lparr>si_ptr := 0\<rparr> # ys" using l by simp
    then show ?thesis using True by (intro that [of s]) auto
  next
    case False
    then show ?thesis using svcinfo_death_split [OF assms(1) l False] q [OF False] by (auto intro: that)
  qed
  have "distinct (map si_addr (svclist s1))" using d l s1(2) by auto
  from set_ptr_split [OF s1(2) this, of p]
  have s2: "svclist (set_ptr (si_addr si) p s1) = xs @ si\<lparr>si_ptr := p\<rparr> # ys" by simp
  have "registry_ok (xs @ si\<lparr>si_ptr := p\<rparr> # ys)"
    using assms(1) registry_split [of xs si ys p] by (simp add: svc_ok_def l)
  moreover have "refs_balanced (link_svc (set_ptr (si_addr si) p s1) p (si_addr si))"
    using assms(1) by (auto simp: svc_ok_def refs_balanced_def s1(3) s2 l count_list_app)
  ultimately show ?thesis using s1(1) s2 by (simp add: svc_ok_def)
qed

text \<open>A new entry in front of the list.\<close>

lemma new_entry_ok:
  assumes "svc_ok s" and "entry_ok si" and "si_addr si \<notin> set (map si_addr (svclist s))"
    and "si_key si \<notin> set (map si_key (svclist s))" and "si_ptr si \<noteq> 0"
  shows "svc_ok (link_svc (s\<lparr>svclist := si # svclist s\<rparr>) (si_ptr si) a)"
  using assms by (auto simp: svc_ok_def registry_ok_def refs_balanced_def count_list_app link_svc_def
      binder_acquire_def binder_link_to_death_def binder_write_def)

lemma find_Some_split:
  assumes "find P l = Some x"
  shows "\<exists>xs ys. l = xs @ x # ys" and "P x"
  using assms by (auto simp: find_Some_iff in_set_conv_decomp [symmetric])

lemma find_distinct: "distinct (map f (xs @ x # ys)) \<Longrightarrow> find (\<lambda>t. f t = f x) (xs @ x # ys) = Some x"
  by (induction xs) auto

lemma find_key_None: "find (\<lambda>si. si_key si = k) l = None \<longleftrightarrow> k \<notin> set (map si_key l)"
  by (auto simp: find_None_iff)

lemma new_svc_Some:
  assumes "unat len < length cs" and "0 < len" and "len \<le> 127"
  shows "\<exists>si. new_svc a p (Some cs) len allow = Some si \<and> entry_ok si \<and> si_addr si = a \<and> si_ptr si = p
    \<and> allow_isolated si = allow \<and> si_key si = take (unat len) cs"
  using assms by (auto simp: new_svc_def entry_ok_def si_key_def take_update_cancel)

lemma services_override:
  assumes "registry_ok (xs @ si # ys)"
  shows "map_of (map (\<lambda>si. (si_key si, si_ptr si, allow_isolated si)) (xs @ si\<lparr>si_ptr := p\<rparr> # ys))
    = (map_of (map (\<lambda>si. (si_key si, si_ptr si, allow_isolated si)) (xs @ si # ys)))(si_key si \<mapsto> (p, allow_isolated si))"
proof -
  have "map_of (map (\<lambda>si. (si_key si, si_ptr si, allow_isolated si)) xs) (si_key si) = None"
    using assms by (auto simp: registry_ok_def map_of_eq_None_iff image_image)
  then show ?thesis by (auto simp: map_add_def fun_eq_iff split: option.splits)
qed

text \<open>The abstract effect: a name keeps the permission it was first registered with.\<close>

definition reg_add :: "u16 list \<Rightarrow> u32 \<Rightarrow> bool \<Rightarrow> (u16 list \<rightharpoonup> u32 \<times> bool) \<Rightarrow> (u16 list \<rightharpoonup> u32 \<times> bool)" where
  "reg_add k p allow m = m(k \<mapsto> (p, case m k of None \<Rightarrow> allow | Some (_, a) \<Rightarrow> a))"

lemma add_found:
  assumes "svc_ok s" and "find (\<lambda>si. si_key si = k) (svclist s) = Some si" and "p \<noteq> 0" and "si_ptr si \<noteq> 0 \<Longrightarrow> \<exists>t. str8 c = Some t"
  shows "\<exists>s1. (if si_ptr si \<noteq> 0 then do { _ \<leftarrow> str8 c; svcinfo_death s si } else Some s) = Some s1
    \<and> svc_ok (link_svc (set_ptr (si_addr si) p s1) p (si_addr si))
    \<and> services (link_svc (set_ptr (si_addr si) p s1) p (si_addr si)) = reg_add k p allow (services s)"
proof -
  obtain xs ys where l: "svclist s = xs @ si # ys" and k: "si_key si = k"
    using find_Some_split [OF assms(2)] by auto
  have ok: "registry_ok (svclist s)" using assms(1) by (simp add: svc_ok_def)
  have "services s k = Some (si_ptr si, allow_isolated si)"
    unfolding services_def by (rule find_key_services(2) [OF ok assms(2)])
  then show ?thesis
    using override_ok [OF assms(1) l assms(3,4)] services_override [of xs si ys p] ok
    by (auto simp: reg_add_def services_def l k)
qed

lemma add_missing:
  assumes "svc_ok s" and "malloc_fresh mal" and "find (\<lambda>si. si_key si = take (unat len) cs) (svclist s) = None"
    and "p \<noteq> 0" and len: "unat len < length cs" "0 < len" "len \<le> 127"
    and a: "mal (map si_addr (svclist s)) n = Some a"
  shows "\<exists>si. new_svc a p (Some cs) len allow = Some si \<and> svc_ok (link_svc (s\<lparr>svclist := si # svclist s\<rparr>) p a)
    \<and> services (link_svc (s\<lparr>svclist := si # svclist s\<rparr>) p a) = reg_add (take (unat len) cs) p allow (services s)"
proof -
  obtain si where si: "new_svc a p (Some cs) len allow = Some si" "entry_ok si" "si_addr si = a" "si_ptr si = p"
    "allow_isolated si = allow" "si_key si = take (unat len) cs"
    using new_svc_Some [OF len] by blast
  have "a \<notin> set (map si_addr (svclist s))" using assms(2) a unfolding malloc_fresh_def by blast
  then have "svc_ok (link_svc (s\<lparr>svclist := si # svclist s\<rparr>) p a)"
    using new_entry_ok [OF assms(1) si(2)] assms(3,4) si by (simp add: find_key_None)
  moreover have "services s (take (unat len) cs) = None"
    using find_key_services(1) [of "svclist s"] assms(1,3) by (simp add: services_def svc_ok_def)
  ultimately show ?thesis using si by (simp add: services_def reg_add_def)
qed

lemma zero_at_end: "unat len < length cs \<Longrightarrow> cs ! unat len = 0 \<Longrightarrow> 0 \<in> set cs"
  by (metis nth_mem)

lemma str8_total: "0 \<in> set cs \<Longrightarrow> \<exists>t. str8 (Some cs) = Some t"
proof -
  have "0 \<in> set cs \<Longrightarrow> \<exists>t. str8_loop cs k = Some t" for k
    by (induction cs k rule: str8_loop.induct) (auto split: nat.splits)
  then show "0 \<in> set cs \<Longrightarrow> ?thesis" by (simp add: str8_def)
qed

lemma find_in_found:
  assumes "\<forall>si\<in>set l. entry_ok si" and "find_in c len l = Some (Some si)"
  shows "\<exists>cs. c = Some cs \<and> unat len \<le> length cs"
  using assms
  by (induction l) (auto simp: memcmp16_def bind_eq_Some_conv split: if_splits)

lemma do_add_cases:
  assumes "do_add_service aid mal s c len ptr uid allow = Some (s', r)"
  obtains (refused) "s' = s" "r = -1"
  | (found) si s1 where "ptr \<noteq> 0" "0 < len" "len \<le> 127" "svc_can_register aid uid c = Some True"
      "find_svc s c len = Some (Some si)" "r = 0" "si_ptr si \<noteq> 0 \<Longrightarrow> \<exists>t. str8 c = Some t"
      "(if si_ptr si \<noteq> 0 then do { _ \<leftarrow> str8 c; svcinfo_death s si } else Some s) = Some s1"
      "s' = link_svc (set_ptr (si_addr si) ptr s1) ptr (si_addr si)"
  | (missing) si a where "ptr \<noteq> 0" "0 < len" "len \<le> 127" "svc_can_register aid uid c = Some True"
      "find_svc s c len = Some None" "r = 0" "mal (map si_addr (svclist s)) (24 + (len + 1) * 2) = Some a"
      "new_svc a ptr c len allow = Some si" "s' = link_svc (s\<lparr>svclist := si # svclist s\<rparr>) ptr a"
proof -
  show thesis
  proof (cases "ptr = 0 \<or> len = 0 \<or> len > 127")
    case True
    then show thesis using assms refused by (simp add: do_add_service_def)
  next
    case False
    note body = assms [unfolded do_add_service_def if_not_P [OF False]]
    have g: "ptr \<noteq> 0" "0 < len" "len \<le> 127" using False by (metis not_less word_neq_0_conv)+
    obtain can where can: "svc_can_register aid uid c = Some can"
      using body by (cases "svc_can_register aid uid c") auto
    show thesis
    proof (cases can)
      case False
      then show thesis using body can refused by (cases "str8 c") auto
    next
      case True
      obtain f where f: "find_svc s c len = Some f"
        using body can True by (cases "find_svc s c len") auto
      note rest = body [unfolded can f bind.bind_lunit True, simplified]
      show thesis
      proof (cases f)
        case None
        then show thesis
          using rest refused missing [OF g] can f True
          by (auto simp: bind_eq_Some_conv simp del: distrib_right_numeral split: option.splits)
      next
        case (Some si)
        then show thesis
          using rest found [OF g, of si] can f True by (auto simp: bind_eq_Some_conv split: if_splits)
      qed
    qed
  qed
qed

lemma add_keeps:
  assumes "svc_ok s" and "malloc_fresh mal" and "do_add_service aid mal s c len ptr uid allow = Some (s', r)"
  shows "(s' = s \<and> r = -1) \<or> (r = 0 \<and> svc_ok s' \<and> (\<exists>cs. c = Some cs \<and> unat len \<le> length cs \<and> 0 < len
    \<and> may_register aid uid (cstring cs) \<and> services s' = reg_add (take (unat len) cs) ptr allow (services s)))"
  using assms(3)
proof (cases rule: do_add_cases)
  case (found si s1)
  have ok: "\<forall>si\<in>set (svclist s). entry_ok si" using assms(1) by (simp add: svc_ok_def registry_ok_def)
  obtain cs where cs: "c = Some cs" "unat len \<le> length cs"
    using find_in_found [OF ok found(5) [unfolded find_svc_def]] by blast
  have "find (\<lambda>si. si_key si = take (unat len) cs) (svclist s) = Some si"
    using find_in_spec [OF ok cs(2)] found(5) by (simp add: find_svc_def cs(1))
  from add_found [OF assms(1) this found(1,7), of allow] show ?thesis
    using cs found svc_can_register_True by auto
next
  case (missing si a)
  have ok: "\<forall>si\<in>set (svclist s). entry_ok si" using assms(1) by (simp add: svc_ok_def registry_ok_def)
  obtain cs where cs: "c = Some cs" "unat len < length cs"
    using missing(8) by (auto simp: new_svc_def bind_eq_Some_conv split: if_splits)
  have "find (\<lambda>si. si_key si = take (unat len) cs) (svclist s) = None"
    using find_in_spec [OF ok, of len cs] missing(5) cs by (simp add: find_svc_def)
  from add_missing [OF assms(1,2) this missing(1) cs(2) missing(2,3,7), of allow] show ?thesis
    using cs missing svc_can_register_True by auto
qed simp

section \<open>Looking up\<close>

definition isolated :: "aids \<Rightarrow> u32 \<Rightarrow> bool" where
  "isolated aid uid \<longleftrightarrow> AID_ISOLATED_START aid \<le> uid mod AID_USER aid \<and> uid mod AID_USER aid \<le> AID_ISOLATED_END aid"

definition reg_lookup :: "aids \<Rightarrow> u32 \<Rightarrow> u16 list \<Rightarrow> (u16 list \<rightharpoonup> u32 \<times> bool) \<Rightarrow> u32" where
  "reg_lookup aid uid k m =
     (case m k of None \<Rightarrow> 0 | Some (p, a) \<Rightarrow> if isolated aid uid \<and> \<not> a then 0 else p)"

lemma lookup_spec:
  assumes "registry_ok (svclist s)" and "unat len \<le> length cs"
  shows "do_find_service aid s (Some cs) len uid = Some (reg_lookup aid uid (take (unat len) cs) (services s))"
proof -
  have "\<forall>si\<in>set (svclist s). entry_ok si" using assms(1) by (simp add: registry_ok_def)
  from find_in_spec [OF this assms(2)]
  have f: "find_svc s (Some cs) len = Some (find (\<lambda>si. si_key si = take (unat len) cs) (svclist s))"
    by (simp add: find_svc_def)
  show ?thesis
    using find_key_services [OF assms(1), of "take (unat len) cs"]
    by (cases "find (\<lambda>si. si_key si = take (unat len) cs) (svclist s)")
      (auto simp: do_find_service_def f services_def reg_lookup_def isolated_def Let_def)
qed

section \<open>Requests\<close>

lemma handler_cases:
  assumes "svcmgr_handler aid abi mal s txn msg reply = Some (s', reply', r)"
  obtains (same) "s' = s"
  | (add) msg1 msg2 p len msg3 ptr msg4 allow res where "tx_target txn = svcmgr_handle" "tx_code txn = SVC_MGR_ADD_SERVICE"
      "enforce_interface msg = Some (msg1, True)" "bio_get_string16 msg1 = Some (msg2, p, len)"
      "bio_get_ref abi msg2 = Some (msg3, ptr)" "bio_get_uint32 msg3 = Some (msg4, allow)"
      "do_add_service aid mal s (at16 msg2 p) len ptr (tx_sender_euid txn) (allow \<noteq> 0) = Some (s', res)"
      "r = res"
proof -
  have f: "s' = s" if "svcmgr_find aid abi s u m reply = Some (s', reply', r)" for u m
    using that by (auto simp: svcmgr_find_def reply_zero_def bind_eq_Some_conv split: if_splits)
  have l: "s' = s" if lst: "svcmgr_list s m reply = Some (s', reply', r)" for m
  proof -
    obtain m1 n where "bio_get_uint32 m = Some (m1, n)"
      using lst by (auto simp: svcmgr_list_def bind_eq_Some_conv)
    then show ?thesis
      using lst by (cases "drop (unat n) (svclist s)") (auto simp: svcmgr_list_def bind_eq_Some_conv)
  qed
  have neg: "res = 0 \<or> res = -1" if "do_add_service aid mal s c n q u b = Some (x, res)" for c n q u b x res
    using that by (cases rule: do_add_cases) auto
  have "s' = s \<or> (\<exists>msg1. tx_target txn = svcmgr_handle \<and> tx_code txn = SVC_MGR_ADD_SERVICE
      \<and> enforce_interface msg = Some (msg1, True) \<and> svcmgr_add aid abi mal s (tx_sender_euid txn) msg1 reply = Some (s', reply', r))"
    using assms f l by (auto simp: svcmgr_handler_def bind_eq_Some_conv split: if_splits)
  then show thesis
  proof (elim disjE exE conjE)
    fix msg1
    assume h: "tx_target txn = svcmgr_handle" "tx_code txn = SVC_MGR_ADD_SERVICE" "enforce_interface msg = Some (msg1, True)"
      and a: "svcmgr_add aid abi mal s (tx_sender_euid txn) msg1 reply = Some (s', reply', r)"
    obtain msg2 p len msg3 ptr msg4 allow s1 res where
      g: "bio_get_string16 msg1 = Some (msg2, p, len)" "bio_get_ref abi msg2 = Some (msg3, ptr)"
        "bio_get_uint32 msg3 = Some (msg4, allow)"
        "do_add_service aid mal s (at16 msg2 p) len ptr (tx_sender_euid txn) (allow \<noteq> 0) = Some (s1, res)"
      and e: "(if res \<noteq> 0 then Some (s1, reply, -1) else reply_zero s1 reply) = Some (s', reply', r)"
      using a by (auto simp: svcmgr_add_def bind_eq_Some_conv simp del: if_split)
    have "s1 = s' \<and> r = res"
      using e neg [OF g(4)] by (auto simp: reply_zero_def bind_eq_Some_conv split: if_splits)
    then show thesis using add [OF h g(1-3)] g(4) by simp
  qed (rule same)
qed

lemma svc_death_ok: "svc_ok s \<Longrightarrow> svc_death c s = Some s' \<Longrightarrow> svc_ok s'"
proof -
  assume ok: "svc_ok s" and d: "svc_death c s = Some s'"
  obtain si where si: "find (\<lambda>si. si_addr si + death_offset = c) (svclist s) = Some si" "svcinfo_death s si = Some s'"
    using d by (auto simp: svc_death_def split: option.splits)
  have "si \<in> set (svclist s)" using si(1) by (auto simp: find_Some_iff)
  from svcinfo_death_ok [OF ok this] si(2) show ?thesis by simp
qed

lemma svc_ok_other_cmds:
  assumes "svc_ok s" and "svclist s' = svclist s" and "bs_cmds s' = bs_cmds s @ cs"
    and "\<forall>p. BcAcquire p \<notin> set cs \<and> BcRelease p \<notin> set cs"
  shows "svc_ok s'"
proof -
  have "count_list cs (BcAcquire p) = 0" "count_list cs (BcRelease p) = 0" for p
    using assms(4) by (simp_all add: count_list_0_iff)
  then show ?thesis using assms(1) by (simp add: svc_ok_def refs_balanced_def assms(2,3) count_list_app)
qed

interpretation svc: handler_contract abi "\<lambda>s. malloc_fresh mal \<longrightarrow> svc_ok s" "svcmgr_handler aid abi mal" svc_death
proof
  fix s txn msg reply s' reply' r
  assume inv: "malloc_fresh mal \<longrightarrow> svc_ok s" and h: "svcmgr_handler aid abi mal s txn msg reply = Some (s', reply', r)"
  show "malloc_fresh mal \<longrightarrow> svc_ok s'"
    using h
  proof (cases rule: handler_cases)
    case (add msg1 msg2 p len msg3 ptr msg4 allow res)
    then show ?thesis using add_keeps [OF _ _ add(7)] inv by auto
  qed (use inv in simp)
next
  fix s c s'
  assume "malloc_fresh mal \<longrightarrow> svc_ok s" "svc_death c s = Some s'"
  then show "malloc_fresh mal \<longrightarrow> svc_ok s'" using svc_death_ok by blast
next
  fix s reply b r
  assume "malloc_fresh mal \<longrightarrow> svc_ok s"
  then show "malloc_fresh mal \<longrightarrow> svc_ok (binder_send_reply abi s reply b r)"
    by (auto intro: svc_ok_other_cmds simp: binder_send_reply_def binder_write_def)
next
  fix s :: svc_state
  assume "malloc_fresh mal \<longrightarrow> svc_ok s"
  then show "malloc_fresh mal \<longrightarrow> svc_ok (binder_write s [BcEnterLooper])"
    by (auto intro: svc_ok_other_cmds simp: binder_write_def)
qed

lemma no_services_ok [simp]: "svc_ok no_services"
  by (simp add: svc_ok_def no_services_def registry_ok_def refs_balanced_def)

text \<open>
  A name that a check of the zero-terminated string against \<open>n\<close>
  lets through: it is cut off inside \<open>n\<close> or goes on behind the
  terminator.
\<close>

definition name_covers :: "u16 list \<Rightarrow> u16 list \<Rightarrow> bool" where
  "name_covers n key \<longleftrightarrow> take (length key) n = key \<or> take (length n + 1) key = n @ [0]"

lemma cstring_covers:
  assumes "k \<le> length cs"
  shows "name_covers (cstring cs) (take k cs)"
proof (cases "k \<le> length (cstring cs)")
  case True
  have "take k cs = take k (cstring cs @ dropWhile (\<lambda>c. c \<noteq> 0) cs)" by (simp add: cstring_def)
  then show ?thesis using True assms by (simp add: name_covers_def min_absorb2)
next
  case False
  let ?d = "dropWhile (\<lambda>c. c \<noteq> 0) cs"
  have cs: "cs = cstring cs @ ?d" by (simp add: cstring_def)
  have "length cs = length (cstring cs) + length ?d" using cs by (metis length_append)
  then have "length ?d \<noteq> 0" using False assms by linarith
  then have ne: "?d \<noteq> []" by (metis list.size(3))
  then obtain r where d: "?d = 0 # r" using hd_dropWhile [OF ne] by (cases ?d) auto
  have "take (length (cstring cs) + 1) cs = cstring cs @ [0]" by (subst cs) (simp add: d)
  then show ?thesis using False by (simp add: name_covers_def min_absorb1)
qed

lemma add_total:
  assumes "svc_ok s" and "malloc_fresh mal" and "unat len < length cs" and "cs ! unat len = 0"
  shows "\<exists>s' r. do_add_service aid mal s (Some cs) len ptr uid allow = Some (s', r) \<and>
    (if ptr = 0 \<or> len = 0 \<or> len > 127 \<or> \<not> may_register aid uid (cstring cs)
        \<or> services s (take (unat len) cs) = None \<and> mal (map si_addr (svclist s)) (24 + (len + 1) * 2) = None
     then s' = s \<and> r = -1
     else r = 0 \<and> svc_ok s' \<and> services s' = reg_add (take (unat len) cs) ptr allow (services s))"
proof -
  have z: "0 \<in> set cs" using assms(3,4) by (rule zero_at_end)
  obtain t where t: "str8 (Some cs) = Some t" using str8_total [OF z] by blast
  have ok: "registry_ok (svclist s)" using assms(1) by (simp add: svc_ok_def)
  let ?k = "take (unat len) cs"
  have find: "find_svc s (Some cs) len = Some (find (\<lambda>si. si_key si = ?k) (svclist s))"
    using find_in_spec [of "svclist s" len cs] ok assms(3) by (simp add: find_svc_def registry_ok_def)
  consider (bad) "ptr = 0 \<or> len = 0 \<or> len > 127 \<or> \<not> may_register aid uid (cstring cs)"
    | (good) "ptr \<noteq> 0" "0 < len" "len \<le> 127" "may_register aid uid (cstring cs)"
    by (metis not_less word_neq_0_conv)
  then show ?thesis
  proof cases
    case bad
    then show ?thesis using svc_can_register_total [OF z] t by (auto simp: do_add_service_def)
  next
    case good
    show ?thesis
    proof (cases "find (\<lambda>si. si_key si = ?k) (svclist s)")
      case None
      then have n: "services s ?k = None" using find_key_services(1) [OF ok] by (simp add: services_def)
      show ?thesis
      proof (cases "mal (map si_addr (svclist s)) (24 + (len + 1) * 2)")
        case None
        then show ?thesis
          using good n find \<open>find _ _ = None\<close> svc_can_register_total [OF z] t
          by (simp add: do_add_service_def del: distrib_right_numeral)
      next
        case (Some a)
        from add_missing [OF assms(1,2) \<open>find _ _ = None\<close> good(1) assms(3) good(2,3) Some, of allow]
        show ?thesis
          using good find \<open>find _ _ = None\<close> svc_can_register_total [OF z] Some
          by (auto simp: do_add_service_def simp del: distrib_right_numeral)
      qed
    next
      case (Some si)
      then have "services s ?k \<noteq> None" using find_key_services(2) [OF ok] by (simp add: services_def)
      moreover obtain s1 where "(if si_ptr si \<noteq> 0 then do { _ \<leftarrow> str8 (Some cs); svcinfo_death s si } else Some s) = Some s1"
        "svc_ok (link_svc (set_ptr (si_addr si) ptr s1) ptr (si_addr si))"
        "services (link_svc (set_ptr (si_addr si) ptr s1) ptr (si_addr si)) = reg_add ?k ptr allow (services s)"
        using add_found [OF assms(1) Some good(1), of "Some cs" allow] t by blast
      ultimately show ?thesis
        using good find Some svc_can_register_total [OF z] by (auto simp: do_add_service_def)
    qed
  qed
qed


section \<open>Concrete instances\<close>

definition aid_0 :: aids where
  "aid_0 = \<lparr>AID_SYSTEM = 1000, AID_MEDIA = 1013, AID_DRM = 1019, AID_NFC = 1027, AID_BLUETOOTH = 1002, AID_RADIO = 1001,
     AID_KEYSTORE = 1017, AID_USER = 100000, AID_ISOLATED_START = 99000, AID_ISOLATED_END = 99999\<rparr>"

definition mal_0 :: malloc_fn where
  "mal_0 used n = find (\<lambda>a. a \<notin> set used) [0x1000, 0x2000, 0x3000]"

lemma mal_0_fresh [simp]: "malloc_fresh mal_0"
  by (auto simp: malloc_fresh_def mal_0_def find_Some_iff split: if_splits)

section \<open>Properties\<close>

text \<open>
  C7. Adding a service implements the update of a finite map. For a name in a
  zero-terminated string, \<open>do_add_service\<close> returns; it refuses with -1
  and changes nothing when the handle is null, the length is not 1 to 127, the
  user may not register the name, or memory for a new entry is exhausted; in
  every other case it returns 0, the registry is the old one with the name bound
  to the new handle (an existing name keeps its permission for isolated
  processes) and the invariant of names, addresses and references holds again.
\<close>

theorem add_service_refines:
  assumes "svc_ok s" and "malloc_fresh mal" and "unat len < length cs" and "cs ! unat len = 0"
  shows "\<exists>s' r. do_add_service aid mal s (Some cs) len ptr uid allow = Some (s', r) \<and>
    (if ptr = 0 \<or> len = 0 \<or> len > 127 \<or> \<not> may_register aid uid (cstring cs)
        \<or> services s (take (unat len) cs) = None \<and> mal (map si_addr (svclist s)) (24 + (len + 1) * 2) = None
     then s' = s \<and> r = -1
     else r = 0 \<and> svc_ok s' \<and> services s' = reg_add (take (unat len) cs) ptr allow (services s))"
  using assms by (rule add_total)

theorem add_service_refines_witness:
  "\<exists>s'. do_add_service aid_0 mal_0 no_services (Some (widen ''nfc'' @ [0])) 3 7 1027 False = Some (s', 0)
    \<and> services s' (widen ''nfc'') = Some (7, False)"
proof -
  have l: "length (widen ''nfc'' @ [0]) = 4" "(widen ''nfc'' @ [0]) ! unat (3 :: u32) = 0"
    "cstring (widen ''nfc'' @ [0]) = widen ''nfc''" "take (unat (3 :: u32)) (widen ''nfc'' @ [0]) = widen ''nfc''"
    by (simp_all add: widen_def cstring_def)
  have "may_register aid_0 1027 (widen ''nfc'')"
    by (auto simp: may_register_def aid_0_def allowed_def intro!: exI [of _ "''nfc''"])
  moreover have "services no_services = Map.empty" "mal_0 (map si_addr (svclist no_services)) n \<noteq> None" for n
    by (simp_all add: services_def no_services_def mal_0_def)
  ultimately show ?thesis
    using add_service_refines [OF no_services_ok mal_0_fresh, of 3 "widen ''nfc'' @ [0]" aid_0 7 1027 False] l
    by (auto simp: reg_add_def)
qed

text \<open>
  Looking a name up returns the handle the registry binds it to. With the
  registry invariant and a string that is long enough, \<open>do_find_service\<close>
  returns the handle of exactly that name, and the null handle when the name is
  not registered, when its owner has died, or when the caller is an isolated
  process and the service was registered without permission for them.
\<close>

theorem find_service_refines:
  assumes "svc_ok s" and "unat len \<le> length cs"
  shows "do_find_service aid s (Some cs) len uid =
    Some (case services s (take (unat len) cs) of
            None \<Rightarrow> 0
          | Some (ptr, allow) \<Rightarrow>
              if AID_ISOLATED_START aid \<le> uid mod AID_USER aid \<and> uid mod AID_USER aid \<le> AID_ISOLATED_END aid \<and> \<not> allow
              then 0 else ptr)"
  using lookup_spec [of s len cs aid uid] assms
  by (auto simp: svc_ok_def reg_lookup_def isolated_def split: option.splits)

definition one_service :: svc_state where
  "one_service = \<lparr>bs_cmds = [BcAcquire 7], svclist = [\<lparr>si_addr = 0x1000, si_ptr = 7, allow_isolated = False,
     si_len = 3, si_name = widen ''nfc'' @ [0]\<rparr>]\<rparr>"

lemma one_service_ok [simp]: "svc_ok one_service"
  by (simp add: svc_ok_def one_service_def registry_ok_def entry_ok_def refs_balanced_def widen_def)

theorem find_service_refines_witness:
  "do_find_service aid_0 one_service (Some (widen ''nfc'')) 3 10001 = Some 7
   \<and> do_find_service aid_0 one_service (Some (widen ''nfc'')) 3 99001 = Some 0"
proof -
  have k: "services one_service (widen ''nfc'') = Some (7, False)" "length (widen ''nfc'') = 3"
    by (simp_all add: services_def one_service_def si_key_def widen_def)
  show ?thesis
    using find_service_refines [OF one_service_ok, of 3 "widen ''nfc''" aid_0 10001]
      find_service_refines [OF one_service_ok, of 3 "widen ''nfc''" aid_0 99001]
    by (simp add: k aid_0_def)
qed

text \<open>
  C21. The registry is consistent and its references are balanced in every run
  of the service manager. Whatever the driver delivers, if \<open>main\<close> gets
  to its end the names are distinct, 1 to 127 characters long and terminated,
  the entries are distinct blocks, and for every handle the acquires sent to the
  driver are the releases plus the entries that hold it.
\<close>

theorem registry_invariant:
  assumes "malloc_fresh mal" and "svcmgr_main aid abi mal drv malloc_ok fd map_ok ctx io = Some (s, rc)"
  shows "svc_ok s"
proof -
  have "svc_ok s" if "binder_loop abi drv (svcmgr_handler aid abi mal) svc_death io no_services = Some s"
    using svc.binder_loop_keeps [OF _ that] assms(1) by simp
  then show ?thesis
    using assms(2) by (auto simp: svcmgr_main_def bind_eq_Some_conv split: if_splits)
qed

theorem registry_invariant_witness:
  "svcmgr_main aid_0 abi_0 mal_0 drv_0 True 3 True 0 [(0, [0]), (-1, [])]
     = Some (\<lparr>bs_cmds = [BcEnterLooper], svclist = []\<rparr>, 0) \<and> svc_ok \<lparr>bs_cmds = [BcEnterLooper], svclist = []\<rparr>"
proof -
  have "svcmgr_main aid_0 abi_0 mal_0 drv_0 True 3 True 0 [(0, [0]), (-1, [])]
     = Some (\<lparr>bs_cmds = [BcEnterLooper], svclist = []\<rparr>, 0)"
    by (simp add: svcmgr_main_def binder_open_def binder_loop_def binder_write_def no_services_def binder_parse_def
        parse_loop.simps abi_0_def)
  from registry_invariant [OF mal_0_fresh this] this show ?thesis by simp
qed

text \<open>
  C20. Only authorised users change the registry. If a transaction changes the
  binding of any name, it is an \<open>ADD_SERVICE\<close> request to the service
  manager that succeeded, no other name changes, and its sender is root, the
  system user, or one to whom the table grants a name that covers the new one:
  the registered name is equal to it, is cut off inside it, or continues it behind
  a zero character.
\<close>

theorem registration_authorised:
  assumes "svc_ok s" and "malloc_fresh mal"
    and "svcmgr_handler aid abi mal s txn msg reply = Some (s', reply', r)" and "services s' key \<noteq> services s key"
  shows "tx_target txn = 0 \<and> tx_code txn = 3 \<and> r = 0 \<and> (\<forall>k. k \<noteq> key \<longrightarrow> services s' k = services s k)
    \<and> (tx_sender_euid txn = 0 \<or> tx_sender_euid txn = AID_SYSTEM aid
       \<or> (\<exists>n. (tx_sender_euid txn, n) \<in> set (allowed aid) \<and> name_covers (widen n) key))"
  using assms(3)
proof (cases rule: handler_cases)
  case same
  then show ?thesis using assms(4) by simp
next
  case (add msg1 msg2 p len msg3 ptr msg4 allow res)
  obtain cs where cs: "unat len \<le> length cs" "may_register aid (tx_sender_euid txn) (cstring cs)"
    "services s' = reg_add (take (unat len) cs) ptr (allow \<noteq> 0) (services s)" and r: "r = 0"
    using add_keeps [OF assms(1,2) add(7)] add(8) assms(4) by auto
  have key: "key = take (unat len) cs" using assms(4) by (auto simp: cs(3) reg_add_def split: if_splits)
  show ?thesis
    using cstring_covers [OF cs(1)] cs(2) r add(1,2)
    by (auto simp: key cs(3) reg_add_def may_register_def svcmgr_handle_def SVC_MGR_ADD_SERVICE_def)
qed

text \<open>A request of the NFC user to register \<open>nfc\<close> with handle 7.\<close>

definition nfc_msg :: binder_io where
  "nfc_msg = \<lparr>bio_mem = le32 0 @ le32 26 @ le16s (svcmgr_id @ [0, 0]) @ le32 3 @ le16s (widen ''nfc'' @ [0])
       @ object_bytes abi_0 (BINDER_TYPE_HANDLE abi_0) 7 @ le32 0,
     bio_pos = 0, data_avail = 96, bio_otab = [76], bio_opos = 0, offs_avail = 1, bio_flags = 1\<rparr>"

definition nfc_txn :: binder_txn where
  "nfc_txn = \<lparr>tx_target = 0, tx_cookie = 0, tx_code = 3, tx_flags = 0, tx_sender_pid = 100, tx_sender_euid = 1027,
     tx_data_size = 96, tx_offs_size = 4, tx_data = 0, tx_offs = 0\<rparr>"

lemma nfc_run:
  "map_option (\<lambda>(s, reply, r). (services s (widen ''nfc''), r))
     (svcmgr_handler aid_0 abi_0 mal_0 no_services nfc_txn nfc_msg (bio_init (replicate 240 0) (replicate 4 0) 256 4))
   = Some (Some (7, False), 0)"
  by code_simp

theorem registration_authorised_witness:
  "\<exists>s' reply' r. svcmgr_handler aid_0 abi_0 mal_0 no_services nfc_txn nfc_msg (bio_init (replicate 240 0) (replicate 4 0) 256 4)
      = Some (s', reply', r) \<and> services s' (widen ''nfc'') \<noteq> services no_services (widen ''nfc'')
      \<and> (\<exists>n. (1027, n) \<in> set (allowed aid_0) \<and> name_covers (widen n) (widen ''nfc''))"
proof -
  obtain s' reply' r where h: "svcmgr_handler aid_0 abi_0 mal_0 no_services nfc_txn nfc_msg
      (bio_init (replicate 240 0) (replicate 4 0) 256 4) = Some (s', reply', r)"
    and k: "services s' (widen ''nfc'') = Some (7, False)"
    using nfc_run by auto
  have n: "services s' (widen ''nfc'') \<noteq> services no_services (widen ''nfc'')"
    by (simp add: k) (simp add: services_def no_services_def)
  from registration_authorised [OF no_services_ok mal_0_fresh h n] h n show ?thesis
    by (simp add: nfc_txn_def aid_0_def)
qed

end
