(* ===== verification/ServiceRequests.thy ===== *)
theory ServiceRequests
  imports ServiceProps
begin

text \<open>
  Requests to the service manager end to end: the message a client writes, its
  delivery, the handler and the reply.
\<close>

section \<open>Messages on the way\<close>

text \<open>What the receiver of the message \<open>w\<close> gets.\<close>

definition delivered :: "binder_io \<Rightarrow> binder_txn \<Rightarrow> bool" where
  "delivered w txn \<longleftrightarrow> tx_data_size txn = bio_pos w \<and> tx_offs_size txn = bio_opos w * 4"

definition received :: "binder_io \<Rightarrow> binder_txn \<Rightarrow> binder_io" where
  "received w txn = bio_init_from_txn (bio_sent w) (bio_sent_offs w) txn"

lemma received_reads:
  assumes "bio_ok w" and "delivered w txn"
  shows "bio_ok (received w txn)" and "reads_from (received w txn) w" and "bio_pos (received w txn) = 0"
proof -
  have p: "unat (bio_pos w) \<le> length (bio_mem w)" "length (bio_mem w) < 2 ^ 32"
    and o: "unat (bio_opos w) \<le> length (bio_otab w)" "length (bio_otab w) < 2 ^ 30"
    using assms(1) by (auto simp: bio_ok_def)
  have "unat (bio_opos w * 4) = unat (bio_opos w) * 4"
    using o by (subst unat_mult_lem [THEN iffD1]) auto
  then have q: "unat (bio_opos w * 4 div 4) = unat (bio_opos w)" by (simp add: unat_div)
  show "bio_ok (received w txn)" "reads_from (received w txn) w" "bio_pos (received w txn) = 0"
    using assms(2) p o q
    by (auto simp: received_def bio_ok_def reads_from_def delivered_def bio_init_from_txn_def bio_sent_def bio_sent_offs_def)
qed

text \<open>The requests are sequences of items.\<close>

definition add_request :: "binder_abi \<Rightarrow> binder_io \<Rightarrow> u32 \<Rightarrow> u16 list \<Rightarrow> u32 \<Rightarrow> u32 \<Rightarrow> binder_io option" where
  "add_request abi w policy name ptr allow =
     do { w1 \<leftarrow> bio_put_uint32 w policy;
          w2 \<leftarrow> bio_put_string16 w1 (Some (svcmgr_id @ [0]));
          w3 \<leftarrow> bio_put_string16 w2 (Some (name @ [0]));
          w4 \<leftarrow> bio_put_ref abi w3 ptr;
          bio_put_uint32 w4 allow }"

definition find_request :: "binder_io \<Rightarrow> u32 \<Rightarrow> u16 list \<Rightarrow> binder_io option" where
  "find_request w policy name =
     do { w1 \<leftarrow> bio_put_uint32 w policy;
          w2 \<leftarrow> bio_put_string16 w1 (Some (svcmgr_id @ [0]));
          bio_put_string16 w2 (Some (name @ [0])) }"

interpretation ref_word: parcel_seq "\<lambda>p. p \<noteq> 0" "bio_put_ref abi" "bio_get_ref abi" "\<lambda>_. True" bio_put_uint32 bio_get_uint32
  for abi
  by unfold_locales

interpretation name_ref: parcel_seq string_ok put_chars get_chars
  "\<lambda>v. fst v \<noteq> 0 \<and> True" "put_pair (bio_put_ref abi) bio_put_uint32" "get_pair (bio_get_ref abi) bio_get_uint32"
  for abi
  by unfold_locales

interpretation two_names: parcel_seq string_ok put_chars get_chars string_ok put_chars get_chars
  by unfold_locales

interpretation add_body: parcel_seq string_ok put_chars get_chars
  "\<lambda>v. string_ok (fst v) \<and> fst (snd v) \<noteq> 0 \<and> True"
  "put_pair put_chars (put_pair (bio_put_ref abi) bio_put_uint32)" "get_pair get_chars (get_pair (bio_get_ref abi) bio_get_uint32)"
  for abi
  by unfold_locales

interpretation add_msg: parcel_seq "\<lambda>_. True" bio_put_uint32 bio_get_uint32
  "\<lambda>v. string_ok (fst v) \<and> string_ok (fst (snd v)) \<and> fst (snd (snd v)) \<noteq> 0 \<and> True"
  "put_pair put_chars (put_pair put_chars (put_pair (bio_put_ref abi) bio_put_uint32))"
  "get_pair get_chars (get_pair get_chars (get_pair (bio_get_ref abi) bio_get_uint32))"
  for abi
  by unfold_locales

interpretation find_msg: parcel_seq "\<lambda>_. True" bio_put_uint32 bio_get_uint32
  "\<lambda>v. string_ok (fst v) \<and> string_ok (snd v)" "put_pair put_chars put_chars" "get_pair get_chars get_chars"
  by unfold_locales

lemma svcmgr_id_ok [simp]: "string_ok svcmgr_id" "length svcmgr_id = 26"
  by (simp_all add: string_ok_def svcmgr_id_def widen_def)

text \<open>Reading back the two requests.\<close>

lemma add_request_read:
  assumes "bio_ok w" "bio_pos w = 0" and "string_ok name" and "ptr \<noteq> 0"
    and "add_request abi w policy name ptr allow = Some w'" and "fits w'" and "delivered w' txn"
  shows "\<exists>r1 r2 r3 r4 r5. bio_get_uint32 (received w' txn) = Some (r1, policy) \<and> get_chars r1 = Some (r2, svcmgr_id)
    \<and> get_chars r2 = Some (r3, name) \<and> bio_get_ref abi r3 = Some (r4, ptr) \<and> bio_get_uint32 r4 = Some (r5, allow)"
proof -
  let ?v = "(policy, svcmgr_id, name, ptr, allow)"
  have p: "put_pair bio_put_uint32 (put_pair put_chars (put_pair put_chars (put_pair (bio_put_ref abi) bio_put_uint32))) w ?v
      = Some w'"
    using assms(5) by (simp add: add_request_def put_pair_def put_chars_def)
  have v: "True \<and> string_ok (fst (snd ?v)) \<and> string_ok (fst (snd (snd ?v))) \<and> fst (snd (snd (snd ?v))) \<noteq> 0 \<and> True"
    using assms(3,4) by simp
  have ok: "bio_ok w'" by (rule add_msg.pair.put_Some(1) [OF v assms(1) p])
  note rr = received_reads [OF ok assms(7)]
  have pos: "bio_pos (received w' txn) = bio_pos w" using rr(3) assms(2) by simp
  show ?thesis
    using add_msg.pair.get_put [OF v assms(1) p assms(6) rr(1,2) pos]
    by (auto simp: get_pair_def bind_eq_Some_conv)
qed

lemma find_request_read:
  assumes "bio_ok w" "bio_pos w = 0" and "string_ok name"
    and "find_request w policy name = Some w'" and "fits w'" and "delivered w' txn"
  shows "\<exists>r1 r2 r3. bio_get_uint32 (received w' txn) = Some (r1, policy) \<and> get_chars r1 = Some (r2, svcmgr_id)
    \<and> get_chars r2 = Some (r3, name)"
proof -
  let ?v = "(policy, svcmgr_id, name)"
  have p: "put_pair bio_put_uint32 (put_pair put_chars put_chars) w ?v = Some w'"
    using assms(4) by (simp add: find_request_def put_pair_def put_chars_def)
  have v: "True \<and> string_ok (fst (snd ?v)) \<and> string_ok (snd (snd ?v))"
    using assms(3) by simp
  have ok: "bio_ok w'" by (rule find_msg.pair.put_Some(1) [OF v assms(1) p])
  note rr = received_reads [OF ok assms(6)]
  have pos: "bio_pos (received w' txn) = bio_pos w" using rr(3) assms(2) by simp
  show ?thesis
    using find_msg.pair.get_put [OF v assms(1) p assms(5) rr(1,2) pos]
    by (auto simp: get_pair_def bind_eq_Some_conv)
qed

section \<open>The handler on a message\<close>

lemma get_chars_string16:
  assumes "get_chars r = Some (r', v)"
  shows "\<exists>p len rest. bio_get_string16 r = Some (r', p, len) \<and> unat len = length v \<and> at16 r' p = Some (v @ 0 # rest)"
proof -
  obtain p len cs where g: "bio_get_string16 r = Some (r', p, len)" "at16 r' p = Some cs"
    and l: "unat len < length cs" "cs ! unat len = 0" "v = take (unat len) cs"
    using assms by (auto simp: get_chars_def bind_eq_Some_conv split: if_splits)
  have "cs = v @ 0 # drop (Suc (unat len)) cs" using id_take_nth_drop [OF l(1)] l(2,3) by simp
  moreover have "unat len = length v" using l by simp
  ultimately show ?thesis using g by metis
qed

lemma enforce_ok:
  assumes "bio_get_uint32 r = Some (r1, policy)" and "get_chars r1 = Some (r2, svcmgr_id)"
  shows "enforce_interface r = Some (r2, True)"
proof -
  obtain p len rest where s: "bio_get_string16 r1 = Some (r2, p, len)" "unat len = length svcmgr_id"
    "at16 r2 p = Some (svcmgr_id @ 0 # rest)"
    using get_chars_string16 [OF assms(2)] by blast
  then show ?thesis by (simp add: enforce_interface_def assms(1) memcmp16_def)
qed

text \<open>The reply buffer of the parser: 256 bytes with four offsets.\<close>

definition reply_buf :: "bytes \<Rightarrow> u32 list \<Rightarrow> binder_io" where
  "reply_buf mem otab = bio_init mem otab 256 4"

lemma reply_buf_ok:
  assumes "length mem = 240" and "length otab = 4"
  shows "bio_ok (reply_buf mem otab)" and "data_avail (reply_buf mem otab) = 240" and "offs_avail (reply_buf mem otab) = 4"
    and "bio_pos (reply_buf mem otab) = 0" and "fits (reply_buf mem otab)"
  using assms by (simp_all add: reply_buf_def bio_init_def bio_ok_def fits_def)

lemma reply_zero_ok:
  assumes "length mem = 240" and "length otab = 4"
  shows "\<exists>r. reply_zero s (reply_buf mem otab) = Some (s, r, 0)"
  using word_item.put_ok [OF TrueI reply_buf_ok(1) [OF assms], of 0] by (auto simp: reply_zero_def)

lemma reply_ref_ok:
  assumes "length mem = 240" and "length otab = 4" and "ptr \<noteq> 0"
  shows "\<exists>r. bio_put_ref abi (reply_buf mem otab) ptr = Some r \<and> fits r
    \<and> (\<forall>txn. delivered r txn \<longrightarrow> (\<exists>r'. bio_get_ref abi (received r txn) = Some (r', ptr)))"
proof -
  note b = reply_buf_ok [OF assms(1,2)]
  let ?w = "reply_buf mem otab" and ?bs = "object_bytes abi (BINDER_TYPE_HANDLE abi) ptr"
  obtain w1 where w1: "put_bytes ?w 16 ?bs = Some w1" "bio_ok w1" "bio_put_ref abi ?w ptr = Some (push_offset (bio_pos ?w) w1)"
    "offs_avail w1 \<noteq> 0"
    using put_ref_hit [OF assms(3) b(1), of abi] b(2,3) by auto
  have "bio_flags w1 = bio_flags ?w" using put_bytes_hit [OF b(1), of ?bs 16] b(2) w1(1) by simp
  then have f: "fits (push_offset (bio_pos ?w) w1)" using b(5) by (simp add: fits_def push_offset_def)
  have ok: "bio_ok (push_offset (bio_pos ?w) w1)" using push_offset_ok(1) [OF w1(2,4)] .
  have "\<exists>r'. bio_get_ref abi (received (push_offset (bio_pos ?w) w1) txn) = Some (r', ptr)"
    if "delivered (push_offset (bio_pos ?w) w1) txn" for txn
  proof -
    note rr = received_reads [OF ok that]
    show ?thesis using ref_item.get_put [OF assms(3) b(1) w1(3) f rr(1,2)] rr(3) b(4) by auto
  qed
  then show ?thesis using w1(3) f by blast
qed

lemma cstring_end: "0 \<notin> set v \<Longrightarrow> cstring (v @ 0 # r) = v"
  by (induction v) (auto simp: cstring_def)

lemma add_served:
  assumes "svc_ok s" and "malloc_fresh mal" and "string_ok name" "0 < length name" "length name \<le> 127" and "ptr \<noteq> 0"
    and "may_register aid (tx_sender_euid txn) name"
    and "services s name \<noteq> None \<or> (\<forall>n. mal (map si_addr (svclist s)) n \<noteq> None)"
    and "bio_ok w" "bio_pos w = 0" and "add_request abi w policy name ptr allow = Some w'" "fits w'"
    and "delivered w' txn" "tx_target txn = 0" "tx_code txn = SVC_MGR_ADD_SERVICE"
    and "length mem = 240" "length otab = 4"
  shows "\<exists>s' r. svcmgr_handler aid abi mal s txn (received w' txn) (reply_buf mem otab) = Some (s', r, 0)
    \<and> svc_ok s' \<and> services s' = reg_add name ptr (allow \<noteq> 0) (services s)"
proof -
  obtain r1 r2 r3 r4 r5 where g: "bio_get_uint32 (received w' txn) = Some (r1, policy)" "get_chars r1 = Some (r2, svcmgr_id)"
    "get_chars r2 = Some (r3, name)" "bio_get_ref abi r3 = Some (r4, ptr)" "bio_get_uint32 r4 = Some (r5, allow)"
    using add_request_read [OF assms(9,10,3,6,11,12,13)] by blast
  obtain p len rest where s: "bio_get_string16 r2 = Some (r3, p, len)" "unat len = length name"
    "at16 r3 p = Some (name @ 0 # rest)"
    using get_chars_string16 [OF g(3)] by blast
  have c: "cstring (name @ 0 # rest) = name" using assms(3) by (simp add: string_ok_def cstring_end)
  have l: "len \<noteq> 0" "\<not> len > 127" using s(2) assms(4,5) by (auto simp: word_less_nat_alt)
  obtain s' where s': "do_add_service aid mal s (Some (name @ 0 # rest)) len ptr (tx_sender_euid txn) (allow \<noteq> 0) = Some (s', 0)"
    "svc_ok s'" "services s' = reg_add name ptr (allow \<noteq> 0) (services s)"
    using add_total [OF assms(1,2), of len "name @ 0 # rest" aid ptr "tx_sender_euid txn" "allow \<noteq> 0"] s(2) l c assms(6-8)
    by auto
  obtain r where "reply_zero s' (reply_buf mem otab) = Some (s', r, 0)" using reply_zero_ok [OF assms(16,17)] by blast
  then show ?thesis
    using s' assms(14,15) enforce_ok [OF g(1,2)]
    by (simp add: svcmgr_handler_def svcmgr_handle_def SVC_MGR_ADD_SERVICE_def SVC_MGR_GET_SERVICE_def
        SVC_MGR_CHECK_SERVICE_def svcmgr_add_def s(1,3) g(4,5))
qed

lemma find_served:
  assumes "svc_ok s" and "string_ok name"
    and "bio_ok w" "bio_pos w = 0" and "find_request w policy name = Some w'" "fits w'"
    and "delivered w' txn" "tx_target txn = 0" "tx_code txn = SVC_MGR_GET_SERVICE \<or> tx_code txn = SVC_MGR_CHECK_SERVICE"
    and "length mem = 240" "length otab = 4" and "reg_lookup aid (tx_sender_euid txn) name (services s) = ptr" "ptr \<noteq> 0"
  shows "\<exists>r. svcmgr_handler aid abi mal s txn (received w' txn) (reply_buf mem otab) = Some (s, r, 0)
    \<and> (\<forall>txn'. delivered r txn' \<longrightarrow> (\<exists>r'. bio_get_ref abi (received r txn') = Some (r', ptr)))"
proof -
  obtain r1 r2 r3 where g: "bio_get_uint32 (received w' txn) = Some (r1, policy)" "get_chars r1 = Some (r2, svcmgr_id)"
    "get_chars r2 = Some (r3, name)"
    using find_request_read [OF assms(3,4,2,5,6,7)] by blast
  obtain p len rest where s: "bio_get_string16 r2 = Some (r3, p, len)" "unat len = length name"
    "at16 r3 p = Some (name @ 0 # rest)"
    using get_chars_string16 [OF g(3)] by blast
  have ok: "registry_ok (svclist s)" using assms(1) by (simp add: svc_ok_def)
  have f: "do_find_service aid s (Some (name @ 0 # rest)) len (tx_sender_euid txn) = Some ptr"
    using lookup_spec [OF ok, of len "name @ 0 # rest" aid "tx_sender_euid txn"] s(2) assms(12) by simp
  obtain r where r: "bio_put_ref abi (reply_buf mem otab) ptr = Some r"
    "\<forall>txn. delivered r txn \<longrightarrow> (\<exists>r'. bio_get_ref abi (received r txn) = Some (r', ptr))"
    using reply_ref_ok [OF assms(10,11,13)] by blast
  show ?thesis
    using r(2) assms(8,9,13) enforce_ok [OF g(1,2)]
    by (auto simp: svcmgr_handler_def svcmgr_handle_def svcmgr_find_def s(1,3) f r(1))
qed

section \<open>Properties\<close>

text \<open>
  C6. A registered service is found under its name. A client writes an
  \<open>ADD_SERVICE\<close> request for a name of 1 to 127 characters and a non-null
  handle with the \<open>bio_put\<close> functions into a buffer that is large enough,
  from a user who may register the name; the handler accepts it. A
  \<open>GET_SERVICE\<close> or \<open>CHECK_SERVICE\<close> request for the same name, written
  likewise by a process that is not isolated, is then answered with status 0 and a
  reply from which \<open>bio_get_ref\<close> reads exactly that handle.
\<close>

theorem added_service_is_found:
  assumes "svc_ok s" and "malloc_fresh mal" and "0 \<notin> set name" "0 < length name" "length name \<le> 127" and "ptr \<noteq> 0"
    and "may_register aid (tx_sender_euid txa) name" and "\<forall>n. mal (map si_addr (svclist s)) n \<noteq> None"
    and "bio_ok wa" "bio_pos wa = 0" and "add_request abi wa policya name ptr allow = Some wa'" "fits wa'"
    and "delivered wa' txa" "tx_target txa = 0" "tx_code txa = SVC_MGR_ADD_SERVICE"
    and "bio_ok wg" "bio_pos wg = 0" and "find_request wg policyf name = Some wg'" "fits wg'"
    and "delivered wg' txf" "tx_target txf = 0" "tx_code txf = SVC_MGR_GET_SERVICE \<or> tx_code txf = SVC_MGR_CHECK_SERVICE"
    and "\<not> isolated aid (tx_sender_euid txf)"
    and "length mem = 240" "length otab = 4"
  shows "\<exists>s' ra rf. svcmgr_handler aid abi mal s txa (received wa' txa) (bio_init mem otab 256 4) = Some (s', ra, 0)
    \<and> svcmgr_handler aid abi mal s' txf (received wg' txf) (bio_init mem otab 256 4) = Some (s', rf, 0)
    \<and> (\<forall>txr. delivered rf txr \<longrightarrow> (\<exists>rr. bio_get_ref abi (received rf txr) = Some (rr, ptr)))"
proof -
  have n: "string_ok name" using assms(3,5) by (simp add: string_ok_def)
  obtain s' ra where a: "svcmgr_handler aid abi mal s txa (received wa' txa) (reply_buf mem otab) = Some (s', ra, 0)"
    "svc_ok s'" "services s' = reg_add name ptr (allow \<noteq> 0) (services s)"
    using add_served [OF assms(1,2) n assms(4-7) disjI2 [OF assms(8)] assms(9-15,24,25)] by blast
  have "reg_lookup aid (tx_sender_euid txf) name (services s') = ptr"
    using assms(23) by (simp add: a(3) reg_add_def reg_lookup_def)
  from find_served [OF a(2) n assms(16-22,24,25) this assms(6)] a(1) show ?thesis
    unfolding reply_buf_def by blast
qed

theorem added_service_is_found_witness:
  "\<exists>wa' wg' s' ra rf.
     add_request abi_0 (bio_init (replicate 240 0) (replicate 4 0) 256 4) 0 (widen ''nfc'') 7 0 = Some wa'
   \<and> find_request (bio_init (replicate 240 0) (replicate 4 0) 256 4) 0 (widen ''nfc'') = Some wg'
   \<and> svcmgr_handler aid_0 abi_0 mal_0 no_services nfc_txn (received wa' nfc_txn) (bio_init (replicate 240 0) (replicate 4 0) 256 4)
       = Some (s', ra, 0)
   \<and> svcmgr_handler aid_0 abi_0 mal_0 s' (nfc_txn\<lparr>tx_code := 1, tx_data_size := 76, tx_offs_size := 0\<rparr>)
       (received wg' (nfc_txn\<lparr>tx_code := 1, tx_data_size := 76, tx_offs_size := 0\<rparr>))
       (bio_init (replicate 240 0) (replicate 4 0) 256 4) = Some (s', rf, 0)
   \<and> (\<forall>txr. delivered rf txr \<longrightarrow> (\<exists>rr. bio_get_ref abi_0 (received rf txr) = Some (rr, 7)))"
proof -
  let ?w = "bio_init (replicate 240 0) (replicate 4 0) 256 4" and ?tg = "nfc_txn\<lparr>tx_code := 1, tx_data_size := 76, tx_offs_size := 0\<rparr>"
  have w: "bio_ok ?w" "bio_pos ?w = 0" using reply_buf_ok(1,4) [of "replicate 240 0" "replicate 4 0"] by (simp_all add: reply_buf_def)
  have "map_option (\<lambda>w. (fits w, bio_pos w, bio_opos w)) (add_request abi_0 ?w 0 (widen ''nfc'') 7 0) = Some (True, 96, 1)"
    by code_simp
  then obtain wa' where wa: "add_request abi_0 ?w 0 (widen ''nfc'') 7 0 = Some wa'" "fits wa'" "delivered wa' nfc_txn"
    by (auto simp: delivered_def nfc_txn_def)
  have "map_option (\<lambda>w. (fits w, bio_pos w, bio_opos w)) (find_request ?w 0 (widen ''nfc'')) = Some (True, 76, 0)"
    by code_simp
  then obtain wg' where wg: "find_request ?w 0 (widen ''nfc'') = Some wg'" "fits wg'" "delivered wg' ?tg"
    by (auto simp: delivered_def)
  have m: "may_register aid_0 (tx_sender_euid nfc_txn) (widen ''nfc'')"
    by (auto simp: may_register_def aid_0_def allowed_def nfc_txn_def intro!: exI [of _ "''nfc''"])
  have c: "\<not> isolated aid_0 (tx_sender_euid ?tg)" "tx_target nfc_txn = 0" "tx_code nfc_txn = SVC_MGR_ADD_SERVICE"
    "tx_target ?tg = 0" "tx_code ?tg = SVC_MGR_GET_SERVICE \<or> tx_code ?tg = SVC_MGR_CHECK_SERVICE"
    "\<forall>n. mal_0 (map si_addr (svclist no_services)) n \<noteq> None"
    "0 \<notin> set (widen ''nfc'')" "0 < length (widen ''nfc'')" "length (widen ''nfc'') \<le> 127"
    by (simp_all add: isolated_def aid_0_def nfc_txn_def SVC_MGR_ADD_SERVICE_def SVC_MGR_GET_SERVICE_def no_services_def mal_0_def widen_def)
  show ?thesis
    using added_service_is_found [OF no_services_ok mal_0_fresh c(7-9) _ m c(6) w wa c(2,3) w wg c(4,5,1),
        of "replicate 240 0" "replicate 4 0"] wa(1) wg(1)
    by simp
qed

text \<open>
  A late death notice removes the wrong owner. When a registered name gets a
  new owner, the death notice of the old owner still carries the address of the
  same entry, so if the driver delivers it after the change the service manager
  releases the new owner's handle and the name is no longer found.
\<close>

theorem late_death_removes_new_owner:
  assumes "svc_ok s" and "malloc_fresh mal" and "si \<in> set (svclist s)" and "si_ptr si \<noteq> 0"
    and "unat len \<le> length cs" and "take (unat len) cs = si_key si"
    and "do_add_service aid mal s (Some cs) len ptr uid allow = Some (s', 0)"
  shows "\<exists>s''. services s' (si_key si) = Some (ptr, allow_isolated si)
    \<and> svc_death (si_addr si + death_offset) s' = Some s'' \<and> services s'' (si_key si) = Some (0, allow_isolated si)
    \<and> bs_cmds s'' = bs_cmds s' @ [BcRelease ptr]"
proof -
  obtain xs ys where l: "svclist s = xs @ si # ys" using assms(3) by (auto simp: in_set_conv_decomp)
  have ok: "registry_ok (svclist s)" using assms(1) by (simp add: svc_ok_def)
  have "find (\<lambda>t. si_key t = si_key si) (svclist s) = Some si"
    unfolding l by (rule find_distinct) (use ok in \<open>simp add: l registry_ok_def\<close>)
  then have f: "find_svc s (Some cs) len = Some (Some si)"
    using find_in_spec [of "svclist s" len cs] ok assms(5,6) by (simp add: find_svc_def registry_ok_def)
  obtain t where ptr: "ptr \<noteq> 0" and "svclist s' = xs @ si\<lparr>si_ptr := ptr\<rparr> # ys" and ok': "svc_ok s'"
    using assms(7)
  proof (cases rule: do_add_cases)
    case (found si' s1)
    then have "si' = si" using f by simp
    then show ?thesis using override_ok [OF assms(1) l found(1,7)] found that by auto
  qed (use f in auto)
  then have l': "svclist s' = xs @ si\<lparr>si_ptr := ptr\<rparr> # ys" by simp
  have reg': "registry_ok (xs @ si\<lparr>si_ptr := ptr\<rparr> # ys)" using ok' by (simp add: svc_ok_def l')
  have d: "find (\<lambda>t. si_addr t + death_offset = si_addr si + death_offset) (svclist s') = Some (si\<lparr>si_ptr := ptr\<rparr>)"
    using find_distinct [of si_addr xs "si\<lparr>si_ptr := ptr\<rparr>" ys] reg' by (simp add: l' registry_ok_def)
  obtain s'' where s'': "svcinfo_death s' (si\<lparr>si_ptr := ptr\<rparr>) = Some s''"
    "svclist s'' = xs @ si\<lparr>si_ptr := 0\<rparr> # ys" "bs_cmds s'' = bs_cmds s' @ [BcRelease ptr]"
    using svcinfo_death_split [OF ok' l'] ptr by auto
  have "services t (si_key si) = Some (q, allow_isolated si)" if "svclist t = xs @ si\<lparr>si_ptr := q\<rparr> # ys" for t q
    unfolding services_def that services_override [OF ok [unfolded l]] by simp
  moreover have "svc_death (si_addr si + death_offset) s' = Some s''"
    unfolding svc_death_def d using s''(1) by simp
  ultimately show ?thesis using l' s''(2,3) by blast
qed

text \<open>
  A truncated request stops the service manager. A message that has
  the strict-mode word and a string length of 26 but no characters, sent to the
  service manager with any request code, makes the handler compare memory at a
  NULL pointer.
\<close>

theorem truncated_header_faults:
  assumes "tx_target txn = 0" and "tx_data_size txn = 8"
  shows "svcmgr_handler aid abi mal s txn (bio_init_from_txn (le32 policy @ le32 26) offs txn) reply = None"
proof -
  let ?m = "bio_init_from_txn (le32 policy @ le32 26) offs txn"
  have 1: "bio_get_uint32 ?m = Some (?m\<lparr>bio_pos := 4, data_avail := 4\<rparr>, policy)"
    using assms(2) load32_at [of 0 "le32 policy @ le32 26" policy]
    by (simp add: bio_get_uint32_def bio_get_def bio_init_from_txn_def Let_def)
  have 2: "bio_get_uint32 (?m\<lparr>bio_pos := 4, data_avail := 4\<rparr>) = Some (?m\<lparr>bio_pos := 8, data_avail := 0\<rparr>, 26)"
    using load32_at [of 4 "le32 policy @ le32 26" 26]
    by (simp add: bio_get_uint32_def bio_get_def bio_init_from_txn_def Let_def)
  have "round4 ((26 + 1) * 2) = 56" by (simp add: round4_def)
  then have "\<exists>m'. bio_get_string16 (?m\<lparr>bio_pos := 4, data_avail := 4\<rparr>) = Some (m', None, 26)"
    by (simp add: bio_get_string16_def 2 bio_get_def Let_def)
  then have "enforce_interface ?m = None"
    by (auto simp: enforce_interface_def 1 memcmp16_def at16_def)
  then show ?thesis using assms(1) by (simp add: svcmgr_handler_def svcmgr_handle_def)
qed

theorem late_death_removes_new_owner_witness:
  "\<exists>s' s''. do_add_service aid_0 mal_0 one_service (Some (widen ''nfc'' @ [0])) 3 9 1027 False = Some (s', 0)
    \<and> services s' (widen ''nfc'') = Some (9, False)
    \<and> svc_death 0x1008 s' = Some s'' \<and> services s'' (widen ''nfc'') = Some (0, False)"
proof -
  let ?si = "\<lparr>si_addr = 0x1000, si_ptr = 7, allow_isolated = False, si_len = 3, si_name = widen ''nfc'' @ [0]\<rparr>"
  have "map_option snd (do_add_service aid_0 mal_0 one_service (Some (widen ''nfc'' @ [0])) 3 9 1027 False) = Some 0"
    by code_simp
  then obtain s' where a: "do_add_service aid_0 mal_0 one_service (Some (widen ''nfc'' @ [0])) 3 9 1027 False = Some (s', 0)"
    by auto
  have i: "?si \<in> set (svclist one_service)" "si_ptr ?si \<noteq> 0" "unat (3 :: u32) \<le> length (widen ''nfc'' @ [0])"
    "take (unat (3 :: u32)) (widen ''nfc'' @ [0]) = si_key ?si" "si_key ?si = widen ''nfc''"
    by (simp_all add: one_service_def si_key_def widen_def)
  show ?thesis
    using late_death_removes_new_owner [OF one_service_ok mal_0_fresh i(1-4) a] a i(5)
    by (auto simp: death_offset_def)
qed

theorem truncated_header_faults_witness:
  "svcmgr_handler aid_0 abi_0 mal_0 one_service (nfc_txn\<lparr>tx_data_size := 8\<rparr>)
     (bio_init_from_txn (le32 0 @ le32 26) [] (nfc_txn\<lparr>tx_data_size := 8\<rparr>)) zero_bio = None"
  by (rule truncated_header_faults) (simp_all add: nfc_txn_def)

end
