(* ===== verification/KernelBuf.thy ===== *)
theory KernelBuf
  imports Prelude "HOL-Library.Tree"
begin

text \<open>
  The buffer allocator of the binder driver
  (\<open>patches/kernel/binder.c\<close>, \<open>binder_buffer_size\<close> to
  \<open>binder_free_buf\<close>).

  A process has one area of kernel memory, divided into buffers without gaps:
  each starts with a \<open>struct binder_buffer\<close> of 40 bytes and reaches to the
  next one. The list \<open>buffers\<close> has them by address; free ones are also in
  a tree by size, the others in a tree by address. Physical pages are attached
  only where a header or the data of an allocated buffer lies. Addresses and the
  sizes of buffers are integers (the area does not reach the end of the address
  space); the sizes of a request are 32-bit words and wrap as in the source.

  A \<open>BUG_ON\<close> that fires, and the release of a page that is not there, is
  the value \<open>None\<close>.
\<close>

section \<open>State\<close>

record buf =
  b_addr :: int
  b_free :: bool
  b_async :: bool
  b_txn :: bool
  b_data_size :: u32
  b_offs_size :: u32

record bufspace =
  buf_base :: int
  buf_len :: int
  user_buffer_offset :: int
  buffers :: "buf list"
  free_buffers :: "int tree"
  allocated_buffers :: "int tree"
  free_async_space :: u32
  pages :: "bool list"
  has_vma :: bool
  mm_ok :: bool

text \<open>
  \<open>has_vma\<close> is \<open>proc->vma != NULL\<close>; \<open>mm_ok\<close> says that the task
  still has its address space and it is the one of the area.

  The kernel's red-black trees are outside the repository: rebalancing after a
  node has been linked, and removal of a node.
\<close>

record rb_ops =
  rb_insert_color :: "int tree \<Rightarrow> int tree"
  rb_erase :: "int \<Rightarrow> int tree \<Rightarrow> int tree"

text \<open>So is the page allocator; how far the attempt at a page address gets:\<close>

datatype page_result = PageMapped | NoPage | NoKernelMapping | NoUserMapping

type_synonym page_fn = "int \<Rightarrow> page_result"

definition hdr_size :: int where "hdr_size = 40"
definition PAGE_SIZE :: int where "PAGE_SIZE = 4096"

definition page_floor :: "int \<Rightarrow> int" where "page_floor a = a div PAGE_SIZE * PAGE_SIZE"
definition PAGE_ALIGN :: "int \<Rightarrow> int" where "PAGE_ALIGN a = page_floor (a + (PAGE_SIZE - 1))"

definition b_data :: "int \<Rightarrow> int" where "b_data a = a + hdr_size"

section \<open>Sizes\<close>

fun size_in :: "int \<Rightarrow> buf list \<Rightarrow> int \<Rightarrow> int option" where
  "size_in e [] a = None"
| "size_in e (b # bs) a =
     (if b_addr b = a then Some ((case bs of [] \<Rightarrow> e | c # _ \<Rightarrow> b_addr c) - b_data a) else size_in e bs a)"

definition binder_buffer_size :: "bufspace \<Rightarrow> int \<Rightarrow> int option" where
  "binder_buffer_size s a = size_in (buf_base s + buf_len s) (buffers s) a"

definition buf_at :: "bufspace \<Rightarrow> int \<Rightarrow> buf option" where
  "buf_at s a = find (\<lambda>b. b_addr b = a) (buffers s)"

definition is_free :: "bufspace \<Rightarrow> int \<Rightarrow> bool" where
  "is_free s a \<longleftrightarrow> (case buf_at s a of None \<Rightarrow> False | Some b \<Rightarrow> b_free b)"

definition set_buf :: "int \<Rightarrow> (buf \<Rightarrow> buf) \<Rightarrow> bufspace \<Rightarrow> bufspace" where
  "set_buf a f s = s\<lparr>buffers := map (\<lambda>b. if b_addr b = a then f b else b) (buffers s)\<rparr>"

section \<open>The two trees\<close>

fun link_free :: "bufspace \<Rightarrow> int \<Rightarrow> int \<Rightarrow> int tree \<Rightarrow> int tree option" where
  "link_free s new_size a Leaf = Some (Node Leaf a Leaf)"
| "link_free s new_size a (Node l x r) =
     (if \<not> is_free s x then None
      else do { buffer_size \<leftarrow> binder_buffer_size s x;
                if new_size < buffer_size
                then do { l' \<leftarrow> link_free s new_size a l; Some (Node l' x r) }
                else do { r' \<leftarrow> link_free s new_size a r; Some (Node l x r') } })"

definition binder_insert_free_buffer :: "rb_ops \<Rightarrow> bufspace \<Rightarrow> int \<Rightarrow> bufspace option" where
  "binder_insert_free_buffer rb s a =
     (if \<not> is_free s a then None
      else do { new_size \<leftarrow> binder_buffer_size s a;
                t \<leftarrow> link_free s new_size a (free_buffers s);
                Some (s\<lparr>free_buffers := rb_insert_color rb t\<rparr>) })"

fun link_allocated :: "bufspace \<Rightarrow> int \<Rightarrow> int tree \<Rightarrow> int tree option" where
  "link_allocated s a Leaf = Some (Node Leaf a Leaf)"
| "link_allocated s a (Node l x r) =
     (if is_free s x then None
      else if a < x then do { l' \<leftarrow> link_allocated s a l; Some (Node l' x r) }
      else if a > x then do { r' \<leftarrow> link_allocated s a r; Some (Node l x r') }
      else None)"

definition binder_insert_allocated_buffer :: "rb_ops \<Rightarrow> bufspace \<Rightarrow> int \<Rightarrow> bufspace option" where
  "binder_insert_allocated_buffer rb s a =
     (if is_free s a then None
      else do { t \<leftarrow> link_allocated s a (allocated_buffers s);
                Some (s\<lparr>allocated_buffers := rb_insert_color rb t\<rparr>) })"

fun lookup_allocated :: "bufspace \<Rightarrow> int \<Rightarrow> int tree \<Rightarrow> int option option" where
  "lookup_allocated s a Leaf = Some None"
| "lookup_allocated s a (Node l x r) =
     (if is_free s x then None
      else if a < x then lookup_allocated s a l
      else if a > x then lookup_allocated s a r
      else Some (Some x))"

definition binder_buffer_lookup :: "bufspace \<Rightarrow> int \<Rightarrow> int option option" where
  "binder_buffer_lookup s user_ptr =
     lookup_allocated s (user_ptr - user_buffer_offset s - hdr_size) (allocated_buffers s)"

section \<open>Pages\<close>

text \<open>The loops over page addresses, upwards and downwards.\<close>

function page_addrs :: "int \<Rightarrow> int \<Rightarrow> int list" where
  "page_addrs a e = (if a < e then a # page_addrs (a + PAGE_SIZE) e else [])"
  by pat_completeness auto

termination
  by (relation "measure (\<lambda>(a, e). nat (e - a))") (auto simp: PAGE_SIZE_def)

function page_addrs_down :: "int \<Rightarrow> int \<Rightarrow> int list" where
  "page_addrs_down a s = (if a \<ge> s then a # page_addrs_down (a - PAGE_SIZE) s else [])"
  by pat_completeness auto

termination
  by (relation "measure (\<lambda>(a, s). nat (a - s + 1))") (auto simp: PAGE_SIZE_def)

declare page_addrs.simps [simp del] page_addrs_down.simps [simp del]

definition page_index :: "bufspace \<Rightarrow> int \<Rightarrow> int" where
  "page_index s a = (a - buf_base s) div PAGE_SIZE"

definition page_at :: "bufspace \<Rightarrow> int \<Rightarrow> bool option" where
  "page_at s a =
     (let i = page_index s a in if 0 \<le> i \<and> nat i < length (pages s) then Some (pages s ! nat i) else None)"

definition set_page :: "int \<Rightarrow> bool \<Rightarrow> bufspace \<Rightarrow> bufspace" where
  "set_page a v s = s\<lparr>pages := (pages s)[nat (page_index s a) := v]\<rparr>"

fun drop_pages :: "int list \<Rightarrow> bufspace \<Rightarrow> bufspace option" where
  "drop_pages [] s = Some s"
| "drop_pages (a # as) s = (if page_at s a = Some True then drop_pages as (set_page a False s) else None)"

text \<open>
  A failure at a page address undoes what was done for it and then runs down to
  \<open>start\<close>.
\<close>

fun take_pages :: "page_fn \<Rightarrow> int \<Rightarrow> int list \<Rightarrow> bufspace \<Rightarrow> (bufspace \<times> int) option" where
  "take_pages pf start [] s = Some (s, 0)"
| "take_pages pf start (a # as) s =
     (if page_at s a \<noteq> Some False then None
      else if pf a = PageMapped then take_pages pf start as (set_page a True s)
      else do { s1 \<leftarrow> drop_pages (page_addrs_down (a - PAGE_SIZE) start) s; Some (s1, -ENOMEM) })"

definition binder_update_page_range ::
    "page_fn \<Rightarrow> bufspace \<Rightarrow> bool \<Rightarrow> int \<Rightarrow> int \<Rightarrow> bool \<Rightarrow> (bufspace \<times> int) option" where
  "binder_update_page_range pf s allocate start e vma_arg =
     (if e \<le> start then Some (s, 0)
      else
        let vma = (vma_arg \<or> mm_ok s \<and> has_vma s) in
        if \<not> allocate then do { s1 \<leftarrow> drop_pages (page_addrs_down (e - PAGE_SIZE) start) s; Some (s1, -ENOMEM) }
        else if \<not> vma then Some (s, -ENOMEM)
        else take_pages pf start (page_addrs start e) s)"

section \<open>Allocating\<close>

text \<open>The best fit seen so far, and whether the search stopped at an exact one.\<close>

fun best_fit :: "bufspace \<Rightarrow> int \<Rightarrow> int tree \<Rightarrow> int option \<Rightarrow> (int option \<times> bool) option" where
  "best_fit s rsize Leaf best = Some (best, False)"
| "best_fit s rsize (Node l x r) best =
     (if \<not> is_free s x then None
      else do { buffer_size \<leftarrow> binder_buffer_size s x;
                if rsize < buffer_size then best_fit s rsize l (Some x)
                else if rsize > buffer_size then best_fit s rsize r best
                else Some (Some x, True) })"

fun list_add_after :: "int \<Rightarrow> buf \<Rightarrow> buf list \<Rightarrow> buf list" where
  "list_add_after a n [] = []"
| "list_add_after a n (b # bs) = (if b_addr b = a then b # n # bs else b # list_add_after a n bs)"

text \<open>
  The header of a new free buffer; of its fields only \<open>free\<close> is set, and the
  others are not read before the buffer is allocated.
\<close>

definition new_free :: "int \<Rightarrow> buf" where
  "new_free a = \<lparr>b_addr = a, b_free = True, b_async = False, b_txn = False, b_data_size = 0, b_offs_size = 0\<rparr>"

definition request_size :: "u32 \<Rightarrow> u32 \<Rightarrow> u32" where
  "request_size data_size offsets_size = round4 data_size + round4 offsets_size"

text \<open>Taking the buffer out of the free tree and splitting it, once its pages are there.\<close>

definition take_buffer ::
    "rb_ops \<Rightarrow> bufspace \<Rightarrow> int \<Rightarrow> int \<Rightarrow> int \<Rightarrow> u32 \<Rightarrow> u32 \<Rightarrow> u32 \<Rightarrow> bool \<Rightarrow> bufspace option" where
  "take_buffer rb s1 a rsize buffer_size wsize data_size offsets_size is_async =
     do { let s2 = set_buf a (\<lambda>b. b\<lparr>b_free := False\<rparr>) (s1\<lparr>free_buffers := rb_erase rb a (free_buffers s1)\<rparr>);
          s3 \<leftarrow> binder_insert_allocated_buffer rb s2 a;
          s4 \<leftarrow> (if buffer_size \<noteq> rsize
                 then binder_insert_free_buffer rb
                        (s3\<lparr>buffers := list_add_after a (new_free (b_data a + rsize)) (buffers s3)\<rparr>) (b_data a + rsize)
                 else Some s3);
          let s5 = set_buf a (\<lambda>b. b\<lparr>b_data_size := data_size, b_offs_size := offsets_size, b_async := is_async\<rparr>) s4;
          Some (if is_async then s5\<lparr>free_async_space := free_async_space s5 - (wsize + 40)\<rparr> else s5) }"

definition binder_alloc_buf ::
    "rb_ops \<Rightarrow> page_fn \<Rightarrow> bufspace \<Rightarrow> u32 \<Rightarrow> u32 \<Rightarrow> bool \<Rightarrow> (bufspace \<times> int option) option" where
  "binder_alloc_buf rb pf s data_size offsets_size is_async =
     (if \<not> has_vma s then Some (s, None)
      else
        let wsize = request_size data_size offsets_size; rsize = uint wsize in
        if wsize < data_size \<or> wsize < offsets_size then Some (s, None)
        else if is_async \<and> free_async_space s < wsize + 40 then Some (s, None)
        else do {
          (best, exact) \<leftarrow> best_fit s rsize (free_buffers s) None;
          case best of
            None \<Rightarrow> Some (s, None)
          | Some a \<Rightarrow>
              do { old_size \<leftarrow> binder_buffer_size s a;
                   let has_page_addr = page_floor (b_data a + old_size);
                   let buffer_size = (if exact then old_size
                                      else if rsize + hdr_size + 4 \<ge> old_size then rsize else rsize + hdr_size);
                   let end_page_addr = min (PAGE_ALIGN (b_data a + buffer_size)) has_page_addr;
                   (s1, ret) \<leftarrow> binder_update_page_range pf s True (PAGE_ALIGN (b_data a)) end_page_addr False;
                   if ret \<noteq> 0 then Some (s1, None)
                   else do { s2 \<leftarrow> take_buffer rb s1 a rsize buffer_size wsize data_size offsets_size is_async;
                             Some (s2, Some a) } } })"

section \<open>Freeing\<close>

definition buffer_start_page :: "int \<Rightarrow> int" where "buffer_start_page a = page_floor a"
definition buffer_end_page :: "int \<Rightarrow> int" where "buffer_end_page a = page_floor (a + hdr_size - 1)"

text \<open>The neighbours of a buffer in the list, and taking it out.\<close>

fun prev_buf :: "int \<Rightarrow> buf list \<Rightarrow> buf option" where
  "prev_buf a (b # c # bs) = (if b_addr c = a then Some b else prev_buf a (c # bs))"
| "prev_buf a _ = None"

fun next_buf :: "int \<Rightarrow> buf list \<Rightarrow> buf option" where
  "next_buf a (b # c # bs) = (if b_addr b = a then Some c else next_buf a (c # bs))"
| "next_buf a _ = None"

definition list_del :: "int \<Rightarrow> buf list \<Rightarrow> buf list" where
  "list_del a bs = filter (\<lambda>b. b_addr b \<noteq> a) bs"

definition binder_delete_free_buffer :: "page_fn \<Rightarrow> bufspace \<Rightarrow> int \<Rightarrow> bufspace option" where
  "binder_delete_free_buffer pf s a =
     (case prev_buf a (buffers s) of
        None \<Rightarrow> None
      | Some prev \<Rightarrow>
          if \<not> b_free prev then None
          else
            let p_end = buffer_end_page (b_addr prev);
                shares_prev = (p_end = buffer_start_page a);
                start1 = (\<not> shares_prev);
                end1 = (\<not> (shares_prev \<and> p_end = buffer_end_page a));
                (free_page_start, free_page_end) =
                  (case next_buf a (buffers s) of
                     None \<Rightarrow> (start1, end1)
                   | Some n \<Rightarrow>
                       if buffer_start_page (b_addr n) = buffer_end_page a
                       then (if buffer_start_page (b_addr n) = buffer_start_page a then False else start1, False)
                       else (start1, end1));
                s1 = s\<lparr>buffers := list_del a (buffers s)\<rparr>
            in if free_page_start \<or> free_page_end
               then map_option fst
                 (binder_update_page_range pf s1 False
                    (if free_page_start then buffer_start_page a else buffer_end_page a)
                    ((if free_page_end then buffer_end_page a else buffer_start_page a) + PAGE_SIZE) False)
               else Some s1)"

definition merge_next :: "rb_ops \<Rightarrow> page_fn \<Rightarrow> bufspace \<Rightarrow> int \<Rightarrow> bufspace option" where
  "merge_next rb pf s a =
     (case next_buf a (buffers s) of
        Some n \<Rightarrow>
          if b_free n
          then binder_delete_free_buffer pf (s\<lparr>free_buffers := rb_erase rb (b_addr n) (free_buffers s)\<rparr>) (b_addr n)
          else Some s
      | None \<Rightarrow> Some s)"

definition merge_prev :: "rb_ops \<Rightarrow> page_fn \<Rightarrow> bufspace \<Rightarrow> int \<Rightarrow> (bufspace \<times> int) option" where
  "merge_prev rb pf s a =
     (case prev_buf a (buffers s) of
        Some p \<Rightarrow>
          if b_free p
          then do { s1 \<leftarrow> binder_delete_free_buffer pf s a;
                    Some (s1\<lparr>free_buffers := rb_erase rb (b_addr p) (free_buffers s1)\<rparr>, b_addr p) }
          else Some (s, a)
      | None \<Rightarrow> Some (s, a))"

definition binder_free_buf :: "rb_ops \<Rightarrow> page_fn \<Rightarrow> bufspace \<Rightarrow> int \<Rightarrow> bufspace option" where
  "binder_free_buf rb pf s a =
     do { buffer_size \<leftarrow> binder_buffer_size s a;
          b \<leftarrow> buf_at s a;
          let wsize = request_size (b_data_size b) (b_offs_size b);
          if b_free b \<or> uint wsize > buffer_size \<or> b_txn b \<or> a < buf_base s \<or> a > buf_base s + buf_len s then None
          else do {
            let s1 = (if b_async b then s\<lparr>free_async_space := free_async_space s + (wsize + 40)\<rparr> else s);
            (s2, _) \<leftarrow> binder_update_page_range pf s1 False (PAGE_ALIGN (b_data a)) (page_floor (b_data a + buffer_size)) False;
            let s3 = set_buf a (\<lambda>b. b\<lparr>b_free := True\<rparr>) (s2\<lparr>allocated_buffers := rb_erase rb a (allocated_buffers s2)\<rparr>);
            s4 \<leftarrow> merge_next rb pf s3 a;
            (s5, a') \<leftarrow> merge_prev rb pf s4 a;
            binder_insert_free_buffer rb s5 a' } }"

section \<open>Mapping the area\<close>

text \<open>
  \<open>buf_base\<close> is 0 while \<open>proc->buffer\<close> is NULL. The arguments are
  whether the caller is the process itself, whether the flags of the mapping are
  forbidden, its ends, the result of \<open>get_vm_area\<close> and whether the page
  array could be allocated. The loop for aliasing caches is not entered on
  this target.
\<close>

definition SZ_4M :: int where "SZ_4M = 0x400000"

definition binder_mmap ::
    "rb_ops \<Rightarrow> page_fn \<Rightarrow> bool \<Rightarrow> bool \<Rightarrow> int \<Rightarrow> int \<Rightarrow> int option \<Rightarrow> bool \<Rightarrow> bufspace \<Rightarrow> (bufspace \<times> int) option" where
  "binder_mmap rb pf own forbidden vm_start vm_end area pages_ok s =
     (if \<not> own then Some (s, -EINVAL)
      else
        let len = (if vm_end - vm_start > SZ_4M then SZ_4M else vm_end - vm_start) in
        if forbidden then Some (s, -EPERM)
        else if buf_base s \<noteq> 0 then Some (s, -EBUSY)
        else case area of
            None \<Rightarrow> Some (s, -ENOMEM)
          | Some addr \<Rightarrow>
              let s1 = s\<lparr>buf_base := addr, user_buffer_offset := vm_start - addr\<rparr> in
              if \<not> pages_ok then Some (s1\<lparr>buf_base := 0\<rparr>, -ENOMEM)
              else do {
                let s2 = s1\<lparr>pages := replicate (nat (len div PAGE_SIZE)) False, buf_len := len\<rparr>;
                (s3, ret) \<leftarrow> binder_update_page_range pf s2 True addr (addr + PAGE_SIZE) True;
                if ret \<noteq> 0 then Some (s3\<lparr>pages := [], buf_base := 0\<rparr>, -ENOMEM)
                else do {
                  s4 \<leftarrow> binder_insert_free_buffer rb (s3\<lparr>buffers := [new_free addr]\<rparr>) addr;
                  Some (s4\<lparr>free_async_space := of_int (len div 2), has_vma := True, mm_ok := True\<rparr>, 0) } })"

definition binder_vma_close :: "bufspace \<Rightarrow> bufspace" where
  "binder_vma_close s = s\<lparr>has_vma := False, mm_ok := False\<rparr>"

end
