(* ===== verification/KernelBufTrees.thy ===== *)
theory KernelBufTrees
  imports KernelBuf "HOL-Library.Multiset" "HOL-Library.Tree_Multiset"
begin

text \<open>
  The two search trees of the buffer allocator as their in-order sequences: what
  insertion, lookup and the search for the best fit do to them.
\<close>

section \<open>What the kernel's trees promise\<close>

definition rb_ok :: "rb_ops \<Rightarrow> bool" where
  "rb_ok rb \<longleftrightarrow> (\<forall>t. inorder (rb_insert_color rb t) = inorder t)
     \<and> (\<forall>a t. distinct (inorder t) \<longrightarrow> a \<in> set (inorder t) \<longrightarrow> inorder (rb_erase rb a t) = remove1 a (inorder t))"

lemma rb_okD:
  assumes "rb_ok rb"
  shows "inorder (rb_insert_color rb t) = inorder t"
    and "distinct (inorder t) \<Longrightarrow> a \<in> set (inorder t) \<Longrightarrow> inorder (rb_erase rb a t) = remove1 a (inorder t)"
  using assms by (auto simp: rb_ok_def)

section \<open>Searching the trees\<close>

lemma link_free_spec:
  assumes "\<forall>x\<in>set (inorder t). is_free s x \<and> binder_buffer_size s x = Some (f x)" and "sorted (map f (inorder t))"
  shows "\<exists>t' xs ys. link_free s n a t = Some t' \<and> inorder t = xs @ ys \<and> inorder t' = xs @ a # ys
    \<and> (\<forall>x\<in>set xs. f x \<le> n) \<and> (\<forall>y\<in>set ys. n < f y)"
  using assms
proof (induction t)
  case (Node l x r)
  have x: "is_free s x" "binder_buffer_size s x = Some (f x)" using Node.prems(1) by auto
  have le: "\<forall>y\<in>set (inorder l). f y \<le> f x" "\<forall>y\<in>set (inorder r). f x \<le> f y"
    using Node.prems(2) by (auto simp: sorted_append)
  show ?case
  proof (cases "n < f x")
    case True
    obtain t' xs ys where IH: "link_free s n a l = Some t'" "inorder l = xs @ ys" "inorder t' = xs @ a # ys"
      "\<forall>x\<in>set xs. f x \<le> n" "\<forall>y\<in>set ys. n < f y"
      using Node.IH(1) Node.prems by (auto simp: sorted_append)
    have "\<forall>y\<in>set (ys @ x # inorder r). n < f y" using IH(5) True le(2) by (auto intro: less_le_trans)
    then show ?thesis
      using x True IH by (intro exI [of _ "Node t' x r"] exI [of _ xs] exI [of _ "ys @ x # inorder r"]) auto
  next
    case False
    obtain t' xs ys where IH: "link_free s n a r = Some t'" "inorder r = xs @ ys" "inorder t' = xs @ a # ys"
      "\<forall>x\<in>set xs. f x \<le> n" "\<forall>y\<in>set ys. n < f y"
      using Node.IH(2) Node.prems by (auto simp: sorted_append)
    have "\<forall>y\<in>set (inorder l @ x # xs). f y \<le> n" using IH(4) False le(1) by (auto intro: order_trans)
    then show ?thesis
      using x False IH by (intro exI [of _ "Node l x t'"] exI [of _ "inorder l @ x # xs"] exI [of _ ys]) auto
  qed
qed simp

lemma link_allocated_spec:
  assumes "\<forall>x\<in>set (inorder t). \<not> is_free s x" and "sorted (inorder t)" and "a \<notin> set (inorder t)"
  shows "\<exists>t' xs ys. link_allocated s a t = Some t' \<and> inorder t = xs @ ys \<and> inorder t' = xs @ a # ys
    \<and> (\<forall>x\<in>set xs. x < a) \<and> (\<forall>y\<in>set ys. a < y)"
  using assms
proof (induction t)
  case (Node l x r)
  have le: "\<forall>y\<in>set (inorder l). y \<le> x" "\<forall>y\<in>set (inorder r). x \<le> y"
    using Node.prems(2) by (auto simp: sorted_append)
  consider "a < x" | "x < a" using Node.prems(3) by force
  then show ?case
  proof cases
    case 1
    obtain t' xs ys where IH: "link_allocated s a l = Some t'" "inorder l = xs @ ys" "inorder t' = xs @ a # ys"
      "\<forall>x\<in>set xs. x < a" "\<forall>y\<in>set ys. a < y"
      using Node.IH(1) Node.prems by (auto simp: sorted_append)
    have "\<forall>y\<in>set (ys @ x # inorder r). a < y" using IH(5) 1 le(2) by (auto intro: less_le_trans)
    then show ?thesis
      using Node.prems(1) 1 IH by (intro exI [of _ "Node t' x r"] exI [of _ xs] exI [of _ "ys @ x # inorder r"]) auto
  next
    case 2
    obtain t' xs ys where IH: "link_allocated s a r = Some t'" "inorder r = xs @ ys" "inorder t' = xs @ a # ys"
      "\<forall>x\<in>set xs. x < a" "\<forall>y\<in>set ys. a < y"
      using Node.IH(2) Node.prems by (auto simp: sorted_append)
    have "\<forall>y\<in>set (inorder l @ x # xs). y < a" using IH(4) 2 le(1) by (auto intro: le_less_trans)
    then show ?thesis
      using Node.prems(1) 2 IH by (intro exI [of _ "Node l x t'"] exI [of _ "inorder l @ x # xs"] exI [of _ ys]) auto
  qed
qed simp

lemma lookup_allocated_spec:
  assumes "\<forall>x\<in>set (inorder t). \<not> is_free s x" and "sorted (inorder t)"
  shows "lookup_allocated s a t = Some (if a \<in> set (inorder t) then Some a else None)"
  using assms
proof (induction t)
  case (Node l x r)
  have le: "\<forall>y\<in>set (inorder l). y \<le> x" "\<forall>y\<in>set (inorder r). x \<le> y"
    using Node.prems(2) by (auto simp: sorted_append)
  have IH: "lookup_allocated s a l = Some (if a \<in> set (inorder l) then Some a else None)"
    "lookup_allocated s a r = Some (if a \<in> set (inorder r) then Some a else None)"
    using Node by (simp_all add: sorted_append)
  show ?case using Node.prems(1) le by (auto simp: IH)
qed simp

text \<open>The search for a best fit finds a smallest buffer that is large enough.\<close>

lemma best_fit_both:
  assumes "\<forall>x\<in>set (inorder t). is_free s x \<and> binder_buffer_size s x = Some (f x)" and "sorted (map f (inorder t))"
  shows "if \<forall>x\<in>set (inorder t). f x < n then best_fit s n t best = Some (best, False)
    else \<exists>a. best_fit s n t best = Some (Some a, f a = n) \<and> a \<in> set (inorder t) \<and> n \<le> f a
      \<and> (\<forall>y\<in>set (inorder t). n \<le> f y \<longrightarrow> f a \<le> f y)"
  using assms
proof (induction t arbitrary: best)
  case (Node l x r)
  have x: "is_free s x" "binder_buffer_size s x = Some (f x)" using Node.prems by auto
  have le: "\<forall>y\<in>set (inorder l). f y \<le> f x" "\<forall>y\<in>set (inorder r). f x \<le> f y"
    using Node.prems(2) by (auto simp: sorted_append)
  have sub: "\<forall>x\<in>set (inorder l). is_free s x \<and> binder_buffer_size s x = Some (f x)" "sorted (map f (inorder l))"
    "\<forall>x\<in>set (inorder r). is_free s x \<and> binder_buffer_size s x = Some (f x)" "sorted (map f (inorder r))"
    using Node.prems by (auto simp: sorted_append)
  note IHl = Node.IH(1) [OF sub(1,2)] and IHr = Node.IH(2) [OF sub(3,4)]
  consider "n < f x" "\<forall>y\<in>set (inorder l). f y < n" | "n < f x" "\<not> (\<forall>y\<in>set (inorder l). f y < n)"
    | "f x < n" "\<forall>y\<in>set (inorder r). f y < n" | "f x < n" "\<not> (\<forall>y\<in>set (inorder r). f y < n)" | "n = f x"
    by (meson linorder_cases)
  then show ?case
  proof cases
    case 1
    then show ?thesis using IHl [of "Some x"] x le by (auto dest: leD)
  next
    case 2
    obtain a where "best_fit s n l (Some x) = Some (Some a, f a = n)" "a \<in> set (inorder l)" "n \<le> f a"
      "\<forall>y\<in>set (inorder l). n \<le> f y \<longrightarrow> f a \<le> f y"
      using IHl [of "Some x"] unfolding if_not_P [OF 2(2)] by blast
    then show ?thesis using 2(1) x le by (auto intro: order_trans)
  next
    case 3
    then have "\<forall>y\<in>set (inorder l). f y < n" using le(1) by (auto intro: le_less_trans)
    then show ?thesis using 3 IHr [of best] x by auto
  next
    case 4
    obtain a where a: "best_fit s n r best = Some (Some a, f a = n)" "a \<in> set (inorder r)" "n \<le> f a"
      "\<forall>y\<in>set (inorder r). n \<le> f y \<longrightarrow> f a \<le> f y"
      using IHr [of best] unfolding if_not_P [OF 4(2)] by blast
    have "\<forall>y\<in>set (inorder l). f y < n" using 4(1) le(1) by (auto intro: le_less_trans)
    then have "\<forall>y\<in>set (inorder l). \<not> n \<le> f y" by auto
    moreover have "\<not> (\<forall>y\<in>set (inorder (Node l x r)). f y < n)" using 4(2) by auto
    ultimately show ?thesis using 4(1) x a by auto
  next
    case 5
    then show ?thesis using x by auto
  qed
qed simp

lemma best_fit_spec:
  assumes "\<forall>x\<in>set (inorder t). is_free s x \<and> binder_buffer_size s x = Some (f x)" and "sorted (map f (inorder t))"
  shows "\<forall>x\<in>set (inorder t). f x < n \<Longrightarrow> best_fit s n t best = Some (best, False)"
    and "\<not> (\<forall>x\<in>set (inorder t). f x < n) \<Longrightarrow> \<exists>a. best_fit s n t best = Some (Some a, f a = n)
      \<and> a \<in> set (inorder t) \<and> n \<le> f a \<and> (\<forall>y\<in>set (inorder t). n \<le> f y \<longrightarrow> f a \<le> f y)"
  using best_fit_both [OF assms, of n best] by (simp_all only: if_P if_not_P if_False)

section \<open>An instance\<close>

text \<open>Trees without rebalancing meet the contract of the kernel's trees.\<close>

fun del_max :: "int tree \<Rightarrow> int tree \<times> int" where
  "del_max Leaf = (Leaf, 0)"
| "del_max (Node l x r) = (if r = Leaf then (l, x) else (let (r', m) = del_max r in (Node l x r', m)))"

fun bst_erase :: "int \<Rightarrow> int tree \<Rightarrow> int tree" where
  "bst_erase a Leaf = Leaf"
| "bst_erase a (Node l x r) =
     (if x = a then (if l = Leaf then r else (let (l', m) = del_max l in Node l' m r))
      else if a \<in> set (inorder l) then Node (bst_erase a l) x r else Node l x (bst_erase a r))"

definition plain_trees :: rb_ops where
  "plain_trees = \<lparr>rb_insert_color = (\<lambda>t. t), rb_erase = bst_erase\<rparr>"

lemma del_max_inorder: "t \<noteq> Leaf \<Longrightarrow> inorder (fst (del_max t)) @ [snd (del_max t)] = inorder t"
  by (induction t) (auto simp: Let_def split: prod.splits)

lemma bst_erase_inorder: "distinct (inorder t) \<Longrightarrow> a \<in> set (inorder t) \<Longrightarrow> inorder (bst_erase a t) = remove1 a (inorder t)"
proof (induction t)
  case (Node l x r)
  have "l \<noteq> Leaf \<Longrightarrow> inorder (fst (del_max l)) @ [snd (del_max l)] = inorder l" by (rule del_max_inorder)
  then have top: "inorder (bst_erase a (Node l x r)) = inorder l @ inorder r" if "x = a"
    using that by (cases "del_max l") (auto simp: Let_def)
  show ?case
  proof (cases "x = a")
    case True
    then show ?thesis using top Node.prems by (simp add: remove1_append)
  next
    case False
    then show ?thesis using Node by (auto simp: remove1_append)
  qed
qed simp

lemma plain_trees_ok: "rb_ok plain_trees"
  by (simp add: rb_ok_def plain_trees_def bst_erase_inorder)

end
