(* ===== verification/KernelBufPages.thy ===== *)
theory KernelBufPages
  imports KernelBufTrees
begin

text \<open>
  The pages of the area: what a call of \<open>binder_update_page_range\<close> does to
  the page array, success and failure.
\<close>

section \<open>Page addresses\<close>

definition is_page :: "bufspace \<Rightarrow> int \<Rightarrow> bool" where
  "is_page s p \<longleftrightarrow> (\<exists>i < length (pages s). p = buf_base s + PAGE_SIZE * int i)"

text \<open>Attaching or releasing the pages whose addresses satisfy a predicate.\<close>

definition pages_plus :: "(int \<Rightarrow> bool) \<Rightarrow> bufspace \<Rightarrow> bufspace" where
  "pages_plus P s = s\<lparr>pages := map (\<lambda>i. pages s ! i \<or> P (buf_base s + PAGE_SIZE * int i)) [0..<length (pages s)]\<rparr>"

definition pages_minus :: "(int \<Rightarrow> bool) \<Rightarrow> bufspace \<Rightarrow> bufspace" where
  "pages_minus P s = s\<lparr>pages := map (\<lambda>i. pages s ! i \<and> \<not> P (buf_base s + PAGE_SIZE * int i)) [0..<length (pages s)]\<rparr>"

lemma page_simps [simp]:
  "buf_base (pages_plus P s) = buf_base s" "length (pages (pages_plus P s)) = length (pages s)"
  "buf_base (pages_minus P s) = buf_base s" "length (pages (pages_minus P s)) = length (pages s)"
  "buf_base (set_page a v s) = buf_base s" "length (pages (set_page a v s)) = length (pages s)"
  "is_page (pages_plus P s) p = is_page s p" "is_page (pages_minus P s) p = is_page s p" "is_page (set_page a v s) p = is_page s p"
  by (simp_all add: pages_plus_def pages_minus_def set_page_def is_page_def)

lemma page_at_index:
  assumes "i < length (pages s)"
  shows "page_at s (buf_base s + PAGE_SIZE * int i) = Some (pages s ! i)"
    and "set_page (buf_base s + PAGE_SIZE * int i) v s = s\<lparr>pages := (pages s)[i := v]\<rparr>"
  using assms by (simp_all add: page_at_def page_index_def set_page_def PAGE_SIZE_def)

lemma pages_eqI:
  assumes "length ps = length qs" and "\<And>i. i < length ps \<Longrightarrow> ps ! i = qs ! i"
  shows "s\<lparr>pages := ps\<rparr> = s\<lparr>pages := qs\<rparr>"
  using nth_equalityI [OF assms] by simp

lemma set_page_plus:
  assumes "is_page s a"
  shows "set_page a True (pages_plus P s) = pages_plus (\<lambda>p. P p \<or> p = a) s"
proof -
  obtain i where i: "i < length (pages s)" "a = buf_base s + PAGE_SIZE * int i" using assms by (auto simp: is_page_def)
  show ?thesis
    unfolding i(2) using page_at_index(2) [of i "pages_plus P s" True] i(1)
    by (simp add: pages_plus_def) (rule pages_eqI; auto simp: nth_list_update PAGE_SIZE_def)
qed

lemma set_page_minus:
  assumes "is_page s a"
  shows "set_page a False (pages_minus P s) = pages_minus (\<lambda>p. P p \<or> p = a) s"
proof -
  obtain i where i: "i < length (pages s)" "a = buf_base s + PAGE_SIZE * int i" using assms by (auto simp: is_page_def)
  show ?thesis
    unfolding i(2) using page_at_index(2) [of i "pages_minus P s" False] i(1)
    by (simp add: pages_minus_def) (rule pages_eqI; auto simp: nth_list_update PAGE_SIZE_def)
qed

lemma page_at_plus: "is_page s a \<Longrightarrow> page_at (pages_plus P s) a = map_option (\<lambda>v. v \<or> P a) (page_at s a)"
  using page_at_index(1) by (fastforce simp: is_page_def pages_plus_def page_at_def page_index_def PAGE_SIZE_def)

lemma page_at_minus: "is_page s a \<Longrightarrow> page_at (pages_minus P s) a = map_option (\<lambda>v. v \<and> \<not> P a) (page_at s a)"
  using page_at_index(1) by (fastforce simp: is_page_def pages_minus_def page_at_def page_index_def PAGE_SIZE_def)

lemma pages_cong:
  assumes "\<And>p. is_page s p \<Longrightarrow> P p = Q p"
  shows "pages_plus P s = pages_plus Q s" and "pages_minus P s = pages_minus Q s"
proof -
  have "P (buf_base s + PAGE_SIZE * int i) = Q (buf_base s + PAGE_SIZE * int i)" if "i < length (pages s)" for i
    using that by (intro assms) (auto simp: is_page_def)
  then show "pages_plus P s = pages_plus Q s" "pages_minus P s = pages_minus Q s"
    unfolding pages_plus_def pages_minus_def by (auto intro!: pages_eqI)
qed

lemma pages_none [simp]: "pages_plus (\<lambda>_. False) s = s" "pages_minus (\<lambda>_. False) s = s"
  by (simp_all add: pages_plus_def pages_minus_def map_nth)

lemma pages_minus_plus:
  assumes "\<And>p. is_page s p \<Longrightarrow> P p \<Longrightarrow> page_at s p = Some False"
  shows "pages_minus P (pages_plus P s) = s"
proof -
  have "\<not> pages s ! i" if "i < length (pages s)" "P (buf_base s + PAGE_SIZE * int i)" for i
    using assms [of "buf_base s + PAGE_SIZE * int i"] page_at_index(1) [OF that(1)] that by (auto simp: is_page_def)
  then have "s\<lparr>pages := map (\<lambda>i. pages s ! i) [0..<length (pages s)]\<rparr> = pages_minus P (pages_plus P s)"
    by (simp add: pages_minus_def pages_plus_def) (rule pages_eqI; auto)
  then show ?thesis by (simp add: map_nth)
qed

section \<open>The loops\<close>

text \<open>Two page addresses of the area are a multiple of the page size apart.\<close>

lemma is_page_less:
  assumes "is_page s p" and "is_page s q" and "p < q"
  shows "p + PAGE_SIZE \<le> q"
proof -
  obtain i j where "p = buf_base s + PAGE_SIZE * int i" "q = buf_base s + PAGE_SIZE * int j"
    using assms by (auto simp: is_page_def)
  moreover have "i < j" using calculation assms(3) by (auto simp: PAGE_SIZE_def)
  ultimately show ?thesis by (simp add: PAGE_SIZE_def)
qed

lemma is_page_step:
  assumes "is_page s p" and "is_page s q" and "p < q"
  shows "is_page s (p + PAGE_SIZE)" and "is_page s (q - PAGE_SIZE)"
proof -
  obtain i j where i: "p = buf_base s + PAGE_SIZE * int i" "i < length (pages s)"
    and j: "q = buf_base s + PAGE_SIZE * int j" "j < length (pages s)"
    using assms by (auto simp: is_page_def)
  have "i < j" using i j assms(3) by (auto simp: PAGE_SIZE_def)
  then show "is_page s (p + PAGE_SIZE)"
    unfolding is_page_def using i j by (intro exI [of _ "Suc i"]) (simp add: algebra_simps)
  show "is_page s (q - PAGE_SIZE)"
    unfolding is_page_def using \<open>i < j\<close> j by (intro exI [of _ "j - 1"]) (simp add: algebra_simps of_nat_diff)
qed

text \<open>Releasing from \<open>a\<close> down to \<open>start\<close>.\<close>

lemma drop_pages_down:
  assumes "start \<le> a \<Longrightarrow> is_page s a" and "is_page s start"
    and "\<And>p. is_page s p \<Longrightarrow> start \<le> p \<Longrightarrow> p \<le> a \<Longrightarrow> page_at s p = Some True"
    and "\<And>p. is_page s p \<Longrightarrow> start \<le> p \<Longrightarrow> p \<le> a \<Longrightarrow> \<not> P p"
  shows "drop_pages (page_addrs_down a start) (pages_minus P s) = Some (pages_minus (\<lambda>p. P p \<or> start \<le> p \<and> p \<le> a) s)"
  using assms
proof (induction a start arbitrary: P rule: page_addrs_down.induct)
  case (1 a start)
  show ?case
  proof (cases "start \<le> a")
    case False
    then show ?thesis by (subst page_addrs_down.simps) (auto intro: pages_cong)
  next
    case True
    have a: "is_page s a" using 1 True by simp
    have at: "page_at (pages_minus P s) a = Some True"
      using 1(4) [OF a True] 1(5) [OF a True] by (simp add: page_at_minus [OF a])
    have "drop_pages (page_addrs_down (a - PAGE_SIZE) start) (pages_minus (\<lambda>p. P p \<or> p = a) s)
        = Some (pages_minus (\<lambda>p. (P p \<or> p = a) \<or> start \<le> p \<and> p \<le> a - PAGE_SIZE) s)"
    proof (rule "1.IH")
      show "is_page s (a - PAGE_SIZE)" if "start \<le> a - PAGE_SIZE"
        using is_page_step(2) [OF 1(3) a] that by (simp add: PAGE_SIZE_def)
    qed (use 1 True in \<open>auto simp: PAGE_SIZE_def\<close>)
    moreover have "pages_minus (\<lambda>p. (P p \<or> p = a) \<or> start \<le> p \<and> p \<le> a - PAGE_SIZE) s
        = pages_minus (\<lambda>p. P p \<or> start \<le> p \<and> p \<le> a) s"
    proof (rule pages_cong)
      fix p assume p: "is_page s p"
      have "p \<le> a - PAGE_SIZE" if "p < a" using is_page_less [OF p a that] by simp
      then show "((P p \<or> p = a) \<or> start \<le> p \<and> p \<le> a - PAGE_SIZE) = (P p \<or> start \<le> p \<and> p \<le> a)"
        using True by (auto simp: PAGE_SIZE_def)
    qed
    ultimately show ?thesis
      using True at by (subst page_addrs_down.simps) (simp add: set_page_minus [OF a])
  qed
qed

text \<open>The error path releases exactly what had been attached before.\<close>

lemma undo_pages:
  assumes a: "is_page s a" and start: "is_page s start"
    and "\<And>p. is_page s p \<Longrightarrow> start \<le> p \<Longrightarrow> p < a \<Longrightarrow> page_at s p = Some False"
  shows "drop_pages (page_addrs_down (a - PAGE_SIZE) start) (pages_plus (\<lambda>p. start \<le> p \<and> p < a) s) = Some s"
proof -
  let ?P = "\<lambda>p. start \<le> p \<and> p < a"
  have "drop_pages (page_addrs_down (a - PAGE_SIZE) start) (pages_minus (\<lambda>_. False) (pages_plus ?P s))
      = Some (pages_minus (\<lambda>p. False \<or> start \<le> p \<and> p \<le> a - PAGE_SIZE) (pages_plus ?P s))"
  proof (rule drop_pages_down)
    show "is_page (pages_plus ?P s) (a - PAGE_SIZE)" if "start \<le> a - PAGE_SIZE"
      using is_page_step(2) [OF start a] that by (simp add: PAGE_SIZE_def)
    show "page_at (pages_plus ?P s) p = Some True"
      if "is_page (pages_plus ?P s) p" "start \<le> p" "p \<le> a - PAGE_SIZE" for p
      using that assms(3) [of p] by (simp add: page_at_plus PAGE_SIZE_def)
  qed (use start in simp_all)
  moreover have "pages_minus (\<lambda>p. start \<le> p \<and> p \<le> a - PAGE_SIZE) (pages_plus ?P s) = pages_minus ?P (pages_plus ?P s)"
  proof (rule pages_cong)
    fix p assume "is_page (pages_plus ?P s) p"
    then have "p \<le> a - PAGE_SIZE" if "p < a" using is_page_less [OF _ a that] by simp
    then show "(start \<le> p \<and> p \<le> a - PAGE_SIZE) = (start \<le> p \<and> p < a)" by (auto simp: PAGE_SIZE_def)
  qed
  moreover have "pages_minus ?P (pages_plus ?P s) = s" using assms(3) by (intro pages_minus_plus) auto
  ultimately show ?thesis by simp
qed

text \<open>Attaching from \<open>a\<close> up to \<open>e\<close>: everything, or nothing if a page fails.\<close>

lemma take_pages_up:
  assumes "a < e \<Longrightarrow> is_page s a" and "is_page s start" and "start \<le> a"
    and "\<And>p. start \<le> p \<Longrightarrow> p < e \<Longrightarrow> (p - start) mod PAGE_SIZE = 0 \<Longrightarrow> is_page s p"
    and "\<And>p. is_page s p \<Longrightarrow> start \<le> p \<Longrightarrow> p < e \<Longrightarrow> page_at s p = Some False"
    and "(a - start) mod PAGE_SIZE = 0"
  shows "take_pages pf start (page_addrs a e) (pages_plus (\<lambda>p. start \<le> p \<and> p < a) s) =
    Some (if \<forall>p. is_page s p \<and> a \<le> p \<and> p < e \<longrightarrow> pf p = PageMapped then (pages_plus (\<lambda>p. start \<le> p \<and> p < max a e) s, 0)
          else (s, -ENOMEM))"
  using assms
proof (induction a e rule: page_addrs.induct)
  case (1 a e)
  show ?case
  proof (cases "a < e")
    case False
    then show ?thesis by (subst page_addrs.simps) (auto simp: max_def)
  next
    case True
    have a: "is_page s a" using 1(2) True by simp
    have at: "page_at (pages_plus (\<lambda>p. start \<le> p \<and> p < a) s) a = Some False"
      using 1(6) [OF a 1(4) True] by (simp add: page_at_plus [OF a])
    show ?thesis
    proof (cases "pf a = PageMapped")
      case m: True
      have "pages_plus (\<lambda>p. (start \<le> p \<and> p < a) \<or> p = a) s = pages_plus (\<lambda>p. start \<le> p \<and> p < a + PAGE_SIZE) s"
      proof (rule pages_cong)
        fix p assume p: "is_page s p"
        have "a + PAGE_SIZE \<le> p" if "a < p" using is_page_less [OF a p that] .
        then show "((start \<le> p \<and> p < a) \<or> p = a) = (start \<le> p \<and> p < a + PAGE_SIZE)"
          using 1(4) by (cases "a < p") (auto simp: PAGE_SIZE_def)
      qed
      moreover have "take_pages pf start (page_addrs (a + PAGE_SIZE) e) (pages_plus (\<lambda>p. start \<le> p \<and> p < a + PAGE_SIZE) s) =
        Some (if \<forall>p. is_page s p \<and> a + PAGE_SIZE \<le> p \<and> p < e \<longrightarrow> pf p = PageMapped
              then (pages_plus (\<lambda>p. start \<le> p \<and> p < max (a + PAGE_SIZE) e) s, 0) else (s, -ENOMEM))"
      proof (rule "1.IH" [OF True _ 1(3)])
        have "(a + PAGE_SIZE - start) mod PAGE_SIZE = 0" using 1(7) by (simp add: mod_add_self2 add.commute add_diff_eq [symmetric])
        then show "(a + PAGE_SIZE - start) mod PAGE_SIZE = 0" "a + PAGE_SIZE < e \<Longrightarrow> is_page s (a + PAGE_SIZE)"
          using 1(4,5) by (auto simp: PAGE_SIZE_def)
      qed (use 1(4-6) in \<open>auto simp: PAGE_SIZE_def\<close>)
      moreover have "(\<forall>p. is_page s p \<and> a + PAGE_SIZE \<le> p \<and> p < e \<longrightarrow> pf p = PageMapped)
          = (\<forall>p. is_page s p \<and> a \<le> p \<and> p < e \<longrightarrow> pf p = PageMapped)"
        using m is_page_less [OF a] by (auto simp: PAGE_SIZE_def le_less)
      moreover have "pages_plus (\<lambda>p. start \<le> p \<and> p < max (a + PAGE_SIZE) e) s = pages_plus (\<lambda>p. start \<le> p \<and> p < max a e) s"
      proof (rule pages_cong)
        fix p assume p: "is_page s p"
        have "a + PAGE_SIZE \<le> p" if "a < p" using is_page_less [OF a p that] .
        then show "(start \<le> p \<and> p < max (a + PAGE_SIZE) e) = (start \<le> p \<and> p < max a e)"
          using True by (cases "a < p") (auto simp: PAGE_SIZE_def max_def)
      qed
      ultimately show ?thesis
        using True m at by (subst page_addrs.simps) (simp add: set_page_plus [OF a])
    next
      case f: False
      have "drop_pages (page_addrs_down (a - PAGE_SIZE) start) (pages_plus (\<lambda>p. start \<le> p \<and> p < a) s) = Some s"
        using 1(6) True by (intro undo_pages [OF a 1(3)]) auto
      then show ?thesis
        using True f at a by (subst page_addrs.simps) auto
    qed
  qed
qed

section \<open>The whole call\<close>

text \<open>A page boundary of the area, its end included.\<close>

definition on_page :: "bufspace \<Rightarrow> int \<Rightarrow> bool" where
  "on_page s x \<longleftrightarrow> (\<exists>j \<le> length (pages s). x = buf_base s + PAGE_SIZE * int j)"

lemma on_page_cases:
  assumes "on_page s start" and "on_page s e" and "start < e"
  shows "is_page s start" and "is_page s (e - PAGE_SIZE)"
    and "\<And>p. start \<le> p \<Longrightarrow> p < e \<Longrightarrow> (p - start) mod PAGE_SIZE = 0 \<Longrightarrow> is_page s p"
    and "\<And>p. is_page s p \<Longrightarrow> (p \<le> e - PAGE_SIZE) = (p < e)"
proof -
  obtain i j where i: "start = buf_base s + PAGE_SIZE * int i" and j: "e = buf_base s + PAGE_SIZE * int j" "j \<le> length (pages s)"
    using assms by (auto simp: on_page_def)
  have ij: "i < j" using i j assms(3) by (auto simp: PAGE_SIZE_def)
  show "is_page s start" unfolding is_page_def using i ij j by (intro exI [of _ i]) auto
  show "is_page s (e - PAGE_SIZE)"
    unfolding is_page_def using ij j by (intro exI [of _ "j - 1"]) (auto simp: algebra_simps of_nat_diff)
  show "is_page s p" if p: "start \<le> p" "p < e" "(p - start) mod PAGE_SIZE = 0" for p
  proof -
    obtain k where "p - start = PAGE_SIZE * k" using p(3) by (auto simp: mod_eq_0_iff_dvd dvd_def)
    then have k: "p = start + PAGE_SIZE * k" by simp
    have "0 \<le> k" "int i + k < int j" using p(1,2) k i j(1) by (auto simp: PAGE_SIZE_def)
    then show ?thesis
      unfolding is_page_def using k i j(2) by (intro exI [of _ "i + nat k"]) (auto simp: algebra_simps)
  qed
  show "(p \<le> e - PAGE_SIZE) = (p < e)" if pg: "is_page s p" for p
  proof -
    obtain k where "p = buf_base s + PAGE_SIZE * int k" using pg by (auto simp: is_page_def)
    then show ?thesis using j(1) by (auto simp: PAGE_SIZE_def)
  qed
qed

lemma update_pages_alloc:
  assumes "start < e \<Longrightarrow> on_page s start \<and> on_page s e"
    and "\<And>p. is_page s p \<Longrightarrow> start \<le> p \<Longrightarrow> p < e \<Longrightarrow> page_at s p = Some False"
  shows "binder_update_page_range pf s True start e v =
    Some (if e \<le> start then (s, 0)
          else if (v \<or> mm_ok s \<and> has_vma s) \<and> (\<forall>p. is_page s p \<and> start \<le> p \<and> p < e \<longrightarrow> pf p = PageMapped)
          then (pages_plus (\<lambda>p. start \<le> p \<and> p < e) s, 0) else (s, -ENOMEM))"
proof (cases "start < e")
  case True
  note on = on_page_cases [of s start e]
  have o: "on_page s start" "on_page s e" using assms(1) True by auto
  have "take_pages pf start (page_addrs start e) (pages_plus (\<lambda>p. start \<le> p \<and> p < start) s) =
    Some (if \<forall>p. is_page s p \<and> start \<le> p \<and> p < e \<longrightarrow> pf p = PageMapped
          then (pages_plus (\<lambda>p. start \<le> p \<and> p < max start e) s, 0) else (s, -ENOMEM))"
    by (rule take_pages_up) (use on [OF o True] assms(2) in auto)
  moreover have "pages_plus (\<lambda>p. start \<le> p \<and> p < start) s = s"
    using pages_cong(1) [of s "\<lambda>p. start \<le> p \<and> p < start" "\<lambda>_. False"] by simp
  ultimately show ?thesis using True by (auto simp: binder_update_page_range_def Let_def max_def)
qed (simp add: binder_update_page_range_def)

lemma update_pages_free:
  assumes "start < e \<Longrightarrow> on_page s start \<and> on_page s e"
    and "\<And>p. is_page s p \<Longrightarrow> start \<le> p \<Longrightarrow> p < e \<Longrightarrow> page_at s p = Some True"
  shows "map_option fst (binder_update_page_range pf s False start e v) = Some (pages_minus (\<lambda>p. start \<le> p \<and> p < e) s)"
proof (cases "start < e")
  case True
  have o: "on_page s start" "on_page s e" using assms(1) True by auto
  note on = on_page_cases [OF o True]
  have "drop_pages (page_addrs_down (e - PAGE_SIZE) start) (pages_minus (\<lambda>_. False) s)
      = Some (pages_minus (\<lambda>p. False \<or> start \<le> p \<and> p \<le> e - PAGE_SIZE) s)"
    by (rule drop_pages_down) (use on assms(2) in auto)
  moreover have "pages_minus (\<lambda>p. False \<or> start \<le> p \<and> p \<le> e - PAGE_SIZE) s = pages_minus (\<lambda>p. start \<le> p \<and> p < e) s"
    using on(4) by (intro pages_cong) auto
  ultimately show ?thesis using True by (simp add: binder_update_page_range_def Let_def)
next
  case False
  then have "pages_minus (\<lambda>p. start \<le> p \<and> p < e) s = s"
    using pages_cong(2) [of s "\<lambda>p. start \<le> p \<and> p < e" "\<lambda>_. False"] by simp
  then show ?thesis using False by (simp add: binder_update_page_range_def)
qed

end
