(* ===== verification/KernelBufLayout.thy ===== *)
theory KernelBufLayout
  imports KernelBufPages
begin

text \<open>
  The invariant of the buffer area: the buffers follow each other without
  overlap, free neighbours are merged, an allocated buffer holds its request, the
  trees hold exactly the free and the allocated buffers in order, and a page is
  attached exactly if a header or allocated data lies on it.
\<close>

section \<open>The area\<close>

text \<open>Where the buffer before \<open>bs\<close> ends, and whether a free buffer follows it.\<close>

definition nxt :: "int \<Rightarrow> buf list \<Rightarrow> int" where
  "nxt e bs = (case bs of [] \<Rightarrow> e | c # _ \<Rightarrow> b_addr c)"

definition nxt_free :: "bool \<Rightarrow> buf list \<Rightarrow> bool" where
  "nxt_free f bs = (case bs of [] \<Rightarrow> f | c # _ \<Rightarrow> b_free c)"

definition b_need :: "buf \<Rightarrow> int" where
  "b_need b = (if b_free b then 0 else uint (request_size (b_data_size b) (b_offs_size b)))"

fun area :: "int \<Rightarrow> bool \<Rightarrow> buf list \<Rightarrow> bool" where
  "area e f [] = True"
| "area e f (b # bs) \<longleftrightarrow> b_data (b_addr b) + b_need b \<le> nxt e bs \<and> \<not> (b_free b \<and> nxt_free f bs) \<and> area e f bs"

text \<open>Whether a header or allocated data lies on the page at \<open>p\<close>.\<close>

fun needed :: "int \<Rightarrow> buf list \<Rightarrow> int \<Rightarrow> bool" where
  "needed e [] p = False"
| "needed e (b # bs) p \<longleftrightarrow>
     (p < (if b_free b then b_data (b_addr b) else nxt e bs) \<and> b_addr b < p + PAGE_SIZE) \<or> needed e bs p"

lemma nxt_simps [simp]: "nxt e [] = e" "nxt e (c # cs) = b_addr c" "nxt_free f [] = f" "nxt_free f (c # cs) = b_free c"
  by (simp_all add: nxt_def nxt_free_def)

lemma nxt_append [simp]: "nxt e (xs @ c # ys) = nxt (b_addr c) xs" "nxt_free f (xs @ c # ys) = nxt_free (b_free c) xs"
  by (cases xs; simp)+

lemma area_append: "area e f (xs @ c # ys) \<longleftrightarrow> area (b_addr c) (b_free c) xs \<and> area e f (c # ys)"
  by (induction xs) auto

lemma needed_append: "needed e (xs @ c # ys) p \<longleftrightarrow> needed (b_addr c) xs p \<or> needed e (c # ys) p"
  by (induction xs) auto

lemma b_need_ge: "0 \<le> b_need b"
  by (simp add: b_need_def)

text \<open>The spacing alone, without the merging of free neighbours.\<close>

fun spaced :: "int \<Rightarrow> buf list \<Rightarrow> bool" where
  "spaced e [] = True"
| "spaced e (b # bs) \<longleftrightarrow> b_data (b_addr b) \<le> nxt e bs \<and> spaced e bs"

lemma spaced_append: "spaced e (xs @ c # ys) \<longleftrightarrow> spaced (b_addr c) xs \<and> spaced e (c # ys)"
  by (induction xs) auto

lemma area_spaced: "area e f bs \<Longrightarrow> spaced e bs"
proof (induction bs)
  case (Cons b bs)
  then show ?case using b_need_ge [of b] by auto
qed simp

lemma spaced_nxt_le: "spaced e bs \<Longrightarrow> nxt e bs \<le> e"
  by (induction bs) (auto simp: b_data_def hdr_size_def)

lemma spaced_bounds_both: "spaced e bs \<Longrightarrow> b \<in> set bs \<Longrightarrow> nxt e bs \<le> b_addr b \<and> b_data (b_addr b) \<le> e"
proof (induction bs)
  case (Cons c bs)
  have "nxt e bs \<le> e" using Cons.prems(1) spaced_nxt_le [of e bs] by auto
  then show ?case using Cons by (auto simp: b_data_def hdr_size_def)
qed simp

lemma spaced_sorted: "spaced e bs \<Longrightarrow> sorted_wrt (<) (map b_addr bs)"
proof (induction bs)
  case (Cons b bs)
  have "b_addr b < b_addr x" if "x \<in> set bs" for x
    using spaced_bounds_both [of e bs x] that Cons.prems by (auto simp: b_data_def hdr_size_def)
  then show ?case using Cons by auto
qed simp

lemma spaced_distinct: "spaced e bs \<Longrightarrow> distinct (map b_addr bs)"
  using spaced_sorted by (metis strict_sorted_iff)

lemma area_nxt_le: "area e f bs \<Longrightarrow> nxt e bs \<le> e"
  by (rule spaced_nxt_le [OF area_spaced])

lemma area_bounds:
  assumes "area e f bs" and "b \<in> set bs"
  shows "nxt e bs \<le> b_addr b" and "b_data (b_addr b) \<le> e"
  using spaced_bounds_both [OF area_spaced [OF assms(1)] assms(2)] by simp_all

lemmas area_sorted = spaced_sorted [OF area_spaced]
lemmas area_distinct = spaced_distinct [OF area_spaced]

lemma area_weaken: "area e True bs \<Longrightarrow> area e False bs"
proof (induction bs)
  case (Cons b bs)
  then show ?case by (cases bs) auto
qed simp

lemma size_in_split:
  assumes "distinct (map b_addr (xs @ b # ys))"
  shows "size_in e (xs @ b # ys) (b_addr b) = Some (nxt e ys - b_data (b_addr b))"
  using assms by (induction xs) (auto simp: nxt_def)

section \<open>The invariant\<close>

definition area_end :: "bufspace \<Rightarrow> int" where
  "area_end s = buf_base s + buf_len s"

definition size_at :: "bufspace \<Rightarrow> int \<Rightarrow> int" where
  "size_at s a = the (binder_buffer_size s a)"

definition trees_ok :: "bufspace \<Rightarrow> bool" where
  "trees_ok s \<longleftrightarrow> mset (inorder (free_buffers s)) = mset (map b_addr (filter b_free (buffers s)))
     \<and> sorted (map (size_at s) (inorder (free_buffers s)))
     \<and> inorder (allocated_buffers s) = map b_addr (filter (\<lambda>b. \<not> b_free b) (buffers s))"

definition layout_ok :: "bufspace \<Rightarrow> bool" where
  "layout_ok s \<longleftrightarrow> buffers s \<noteq> [] \<and> nxt (area_end s) (buffers s) = buf_base s \<and> area (area_end s) False (buffers s)"

definition pages_ok :: "bufspace \<Rightarrow> bool" where
  "pages_ok s \<longleftrightarrow> buf_base s mod PAGE_SIZE = 0 \<and> buf_len s = PAGE_SIZE * int (length (pages s))
     \<and> (\<forall>p. is_page s p \<longrightarrow> page_at s p = Some (needed (area_end s) (buffers s) p))"

text \<open>Half of the area is for asynchronous transactions; the rest of it is what they do not use.\<close>

definition async_used :: "buf list \<Rightarrow> int" where
  "async_used bs = sum_list (map (\<lambda>b. if \<not> b_free b \<and> b_async b then b_need b + hdr_size else 0) bs)"

definition async_ok :: "bufspace \<Rightarrow> bool" where
  "async_ok s \<longleftrightarrow> uint (free_async_space s) + async_used (buffers s) = buf_len s div 2 \<and> buf_len s \<le> SZ_4M"

definition bufs_ok :: "bufspace \<Rightarrow> bool" where
  "bufs_ok s \<longleftrightarrow> layout_ok s \<and> trees_ok s \<and> pages_ok s \<and> async_ok s"

lemma dist_split:
  assumes "distinct (map b_addr (buffers s))" and "buffers s = xs @ b # ys"
  shows "buf_at s (b_addr b) = Some b" and "binder_buffer_size s (b_addr b) = Some (nxt (area_end s) ys - b_data (b_addr b))"
    and "is_free s (b_addr b) = b_free b" and "size_at s (b_addr b) = nxt (area_end s) ys - b_data (b_addr b)"
proof -
  have d: "distinct (map b_addr (xs @ b # ys))" using assms by simp
  have f: "find (\<lambda>t. b_addr t = b_addr b) (xs @ b # ys) = Some b" using d by (induction xs) auto
  show 1: "buf_at s (b_addr b) = Some b" using f assms(2) by (simp add: buf_at_def)
  show 2: "binder_buffer_size s (b_addr b) = Some (nxt (area_end s) ys - b_data (b_addr b))"
    using size_in_split [OF d] assms(2) by (simp add: binder_buffer_size_def area_end_def)
  show "is_free s (b_addr b) = b_free b" using 1 by (simp add: is_free_def)
  show "size_at s (b_addr b) = nxt (area_end s) ys - b_data (b_addr b)" using 2 by (simp add: size_at_def)
qed

lemma dist_member:
  assumes "distinct (map b_addr (buffers s))" and "b \<in> set (buffers s)"
  shows "buf_at s (b_addr b) = Some b" and "is_free s (b_addr b) = b_free b"
    and "binder_buffer_size s (b_addr b) = Some (size_at s (b_addr b))"
proof -
  obtain xs ys where "buffers s = xs @ b # ys" using assms(2) by (auto simp: in_set_conv_decomp)
  note d = dist_split [OF assms(1) this]
  show "buf_at s (b_addr b) = Some b" "is_free s (b_addr b) = b_free b"
    "binder_buffer_size s (b_addr b) = Some (size_at s (b_addr b))"
    using d by simp_all
qed

lemma layout_distinct: "layout_ok s \<Longrightarrow> distinct (map b_addr (buffers s))"
  using area_distinct by (auto simp: layout_ok_def)

lemma layout_split:
  assumes "layout_ok s" and "buffers s = xs @ b # ys"
  shows "buf_at s (b_addr b) = Some b" and "binder_buffer_size s (b_addr b) = Some (nxt (area_end s) ys - b_data (b_addr b))"
    and "is_free s (b_addr b) = b_free b" and "size_at s (b_addr b) = nxt (area_end s) ys - b_data (b_addr b)"
    and "area (b_addr b) (b_free b) xs" and "area (area_end s) False (b # ys)"
proof -
  have ar: "area (area_end s) False (xs @ b # ys)" using assms by (simp add: layout_ok_def)
  show "area (b_addr b) (b_free b) xs" "area (area_end s) False (b # ys)" using ar by (simp_all only: area_append)
qed (rule dist_split [OF layout_distinct [OF assms(1)] assms(2)])+

lemma free_tree_set: "trees_ok s \<Longrightarrow> set (inorder (free_buffers s)) = b_addr ` {b \<in> set (buffers s). b_free b}"
proof -
  assume "trees_ok s"
  then have "set_mset (mset (inorder (free_buffers s))) = set_mset (mset (map b_addr (filter b_free (buffers s))))"
    by (simp only: trees_ok_def)
  then show ?thesis by auto
qed

lemma free_tree_facts:
  assumes "layout_ok s" and "trees_ok s"
  shows "\<forall>x\<in>set (inorder (free_buffers s)). is_free s x \<and> binder_buffer_size s x = Some (size_at s x)"
    and "distinct (inorder (free_buffers s))"
proof -
  note d = layout_distinct [OF assms(1)]
  show "\<forall>x\<in>set (inorder (free_buffers s)). is_free s x \<and> binder_buffer_size s x = Some (size_at s x)"
    using free_tree_set [OF assms(2)] dist_member [OF d] by auto
  have "distinct (map b_addr (filter b_free (buffers s)))" using d by (rule distinct_map_filter)
  then show "distinct (inorder (free_buffers s))"
    using assms(2) mset_eq_imp_distinct_iff unfolding trees_ok_def by blast
qed

section \<open>Inserting into the trees\<close>

text \<open>Everything but \<open>c\<close> is in the tree already.\<close>

lemma insert_free_ok:
  assumes "rb_ok rb" and d: "distinct (map b_addr (buffers s))" and l: "buffers s = us @ c # vs" and "b_free c"
    and m: "mset (inorder (free_buffers s)) = mset (map b_addr (filter b_free (us @ vs)))"
    and "sorted (map (size_at s) (inorder (free_buffers s)))"
  shows "\<exists>t. binder_insert_free_buffer rb s (b_addr c) = Some (s\<lparr>free_buffers := t\<rparr>)
    \<and> mset (inorder t) = mset (map b_addr (filter b_free (buffers s))) \<and> sorted (map (size_at s) (inorder t))"
proof -
  have "set (inorder (free_buffers s)) = set (map b_addr (filter b_free (us @ vs)))"
    using m by (metis set_mset_mset)
  then have f: "\<forall>x\<in>set (inorder (free_buffers s)). is_free s x \<and> binder_buffer_size s x = Some (size_at s x)"
    using dist_member [OF d] by (auto simp: l)
  obtain t xs ys where t: "link_free s (size_at s (b_addr c)) (b_addr c) (free_buffers s) = Some t"
    "inorder (free_buffers s) = xs @ ys" "inorder t = xs @ b_addr c # ys"
    "\<forall>x\<in>set xs. size_at s x \<le> size_at s (b_addr c)" "\<forall>y\<in>set ys. size_at s (b_addr c) < size_at s y"
    using link_free_spec [OF f assms(6)] by blast
  have c: "is_free s (b_addr c)" "binder_buffer_size s (b_addr c) = Some (size_at s (b_addr c))"
    using dist_member [OF d, of c] assms(4) by (auto simp: l)
  have "mset (inorder t) = mset (map b_addr (filter b_free (buffers s)))"
    using m assms(4) unfolding t(2,3) l by simp
  moreover have "sorted (map (size_at s) (inorder t))"
    using assms(6) t(4,5) unfolding t(2,3) by (auto simp: sorted_append intro: less_imp_le)
  moreover have "binder_insert_free_buffer rb s (b_addr c) = Some (s\<lparr>free_buffers := rb_insert_color rb t\<rparr>)"
    using c t(1) by (simp add: binder_insert_free_buffer_def)
  ultimately show ?thesis
    by (intro exI [of _ "rb_insert_color rb t"]) (simp only: rb_okD(1) [OF assms(1)])
qed

lemma split_unique:
  fixes a :: int
  assumes "us @ vs = xs @ ys" "\<forall>u\<in>set us. u < a" "\<forall>v\<in>set vs. a < v" "\<forall>x\<in>set xs. x < a" "\<forall>y\<in>set ys. a < y"
  shows "us = xs \<and> vs = ys"
proof -
  have "takeWhile (\<lambda>z. z < a) (us @ vs) = us" "takeWhile (\<lambda>z. z < a) (xs @ ys) = xs"
    using assms(2-5) by (cases vs; cases ys; auto simp: takeWhile_append)+
  then show ?thesis using assms(1) by auto
qed

lemma insert_allocated_ok:
  assumes "rb_ok rb" and srt: "sorted_wrt (<) (map b_addr (buffers s))" and l: "buffers s = us @ c # vs" and "\<not> b_free c"
    and m: "inorder (allocated_buffers s) = map b_addr (filter (\<lambda>b. \<not> b_free b) (us @ vs))"
  shows "\<exists>t. binder_insert_allocated_buffer rb s (b_addr c) = Some (s\<lparr>allocated_buffers := t\<rparr>)
    \<and> inorder t = map b_addr (filter (\<lambda>b. \<not> b_free b) (buffers s))"
proof -
  have d: "distinct (map b_addr (buffers s))" using srt by (metis strict_sorted_iff)
  have f: "\<forall>x\<in>set (inorder (allocated_buffers s)). \<not> is_free s x"
    using dist_member(2) [OF d] by (auto simp: m l)
  let ?A = "\<lambda>xs. map b_addr (filter (\<lambda>b. \<not> b_free b) xs)"
  have lt: "\<forall>x\<in>set (?A us). x < b_addr c" "\<forall>y\<in>set (?A vs). b_addr c < y"
    using srt by (auto simp: l sorted_wrt_append)
  have so: "sorted_wrt (<) (?A us @ ?A vs)"
    using srt by (auto simp: l sorted_wrt_append sorted_wrt_map intro: sorted_wrt_filter)
  have "sorted (inorder (allocated_buffers s))" using so strict_sorted_iff by (auto simp: m)
  moreover have "b_addr c \<notin> set (inorder (allocated_buffers s))" using lt by (auto simp: m)
  ultimately obtain t xs ys where t: "link_allocated s (b_addr c) (allocated_buffers s) = Some t"
    "inorder (allocated_buffers s) = xs @ ys" "inorder t = xs @ b_addr c # ys" "\<forall>x\<in>set xs. x < b_addr c" "\<forall>y\<in>set ys. b_addr c < y"
    using link_allocated_spec [OF f] by blast
  have "xs = ?A us \<and> ys = ?A vs"
    using t(2,4,5) lt by (intro split_unique [of _ _ _ _ "b_addr c"]) (auto simp: m)
  moreover have "\<not> is_free s (b_addr c)" using dist_member(2) [OF d, of c] assms(4) by (auto simp: l)
  ultimately show ?thesis
    using t(1,3) assms(4) rb_okD(1) [OF assms(1)] by (auto simp: binder_insert_allocated_buffer_def l)
qed

text \<open>The size of a buffer depends only on where the next one starts.\<close>

lemma size_in_replace:
  assumes "b_addr b' = b_addr b" and "x \<in> set xs \<union> set ys"
    and "distinct (map b_addr (xs @ b # ys))" and "distinct (map b_addr (xs @ b' # ms @ ys))"
  shows "size_in e (xs @ b' # ms @ ys) (b_addr x) = size_in e (xs @ b # ys) (b_addr x)"
proof -
  consider us vs where "xs = us @ x # vs" | us vs where "ys = us @ x # vs"
    using assms(2) by (auto simp: in_set_conv_decomp)
  then show ?thesis
  proof cases
    case 1
    then show ?thesis
      using size_in_split [of us x "vs @ b # ys" e] size_in_split [of us x "vs @ b' # ms @ ys" e] assms(1,3,4)
      by simp
  next
    case 2
    then show ?thesis
      using size_in_split [of "xs @ b # us" x vs e] size_in_split [of "xs @ b' # ms @ us" x vs e] assms(3,4) by simp
  qed
qed

end
