(* ===== verification/KernelBufAlloc.thy ===== *)
theory KernelBufAlloc
  imports KernelBufLayout
begin

text \<open>Allocation: the pages it attaches, the split, and the invariant.\<close>

section \<open>Page arithmetic\<close>

abbreviation page_aligned :: "int \<Rightarrow> bool" where
  "page_aligned p \<equiv> p mod PAGE_SIZE = 0"

lemma aligned_dvd: "page_aligned p \<longleftrightarrow> (\<exists>k. p = PAGE_SIZE * k)"
  by (auto simp: mod_eq_0_iff_dvd dvd_def)

lemma floor_aligned [simp]: "page_aligned (page_floor x)" "page_aligned (PAGE_ALIGN x)"
  by (simp_all add: page_floor_def PAGE_ALIGN_def)

lemma floor_bounds: "page_floor x \<le> x" "x < page_floor x + PAGE_SIZE" "x \<le> PAGE_ALIGN x" "PAGE_ALIGN x < x + PAGE_SIZE"
  by (simp_all add: page_floor_def PAGE_ALIGN_def PAGE_SIZE_def)

lemma aligned_less: "page_aligned p \<Longrightarrow> page_aligned q \<Longrightarrow> p < q \<longleftrightarrow> p + PAGE_SIZE \<le> q"
  unfolding aligned_dvd by (auto simp: PAGE_SIZE_def)

lemma less_floor: "page_aligned p \<Longrightarrow> p < page_floor x \<longleftrightarrow> p + PAGE_SIZE \<le> x"
  using aligned_less [of p "page_floor x"] floor_bounds(1,2) [of x] aligned_less [of "page_floor x" p]
  by (auto simp: not_less)

lemma align_le: "page_aligned p \<Longrightarrow> PAGE_ALIGN x \<le> p \<longleftrightarrow> x \<le> p"
  using aligned_less [of p "PAGE_ALIGN x"] floor_bounds(3,4) [of x] floor_aligned(2) [of x] by linarith

lemma less_align: "page_aligned p \<Longrightarrow> p < PAGE_ALIGN x \<longleftrightarrow> p < x"
  using align_le [of p x] by linarith

lemma is_page_aligned: "pages_ok s \<Longrightarrow> is_page s p \<Longrightarrow> page_aligned p"
  by (auto simp: pages_ok_def is_page_def)

lemma on_page_aligned:
  assumes "pages_ok s" and "page_aligned x" and "buf_base s \<le> x" and "x \<le> area_end s"
  shows "on_page s x"
proof -
  obtain b where b: "buf_base s = PAGE_SIZE * b" using assms(1) by (auto simp: pages_ok_def aligned_dvd)
  obtain k where k: "x = PAGE_SIZE * k" using assms(2) by (auto simp: aligned_dvd)
  have "area_end s = buf_base s + PAGE_SIZE * int (length (pages s))" using assms(1) by (simp add: pages_ok_def area_end_def)
  then have "b \<le> k" "k - b \<le> int (length (pages s))" using assms(3,4) b k by (auto simp: PAGE_SIZE_def)
  then show ?thesis
    unfolding on_page_def using b k by (intro exI [of _ "nat (k - b)"]) (auto simp: algebra_simps)
qed

lemma area_end_aligned: "pages_ok s \<Longrightarrow> page_aligned (area_end s)"
  by (auto simp: pages_ok_def area_end_def)

section \<open>Pages needed by the neighbours\<close>

lemma needed_head:
  assumes "spaced e ys" and "ys \<noteq> []" and "p \<le> nxt e ys" and "nxt e ys < p + PAGE_SIZE"
  shows "needed e ys p"
  using assms by (cases ys) (auto simp: b_data_def hdr_size_def)

lemma needed_lower: "spaced e ys \<Longrightarrow> needed e ys p \<Longrightarrow> nxt e ys < p + PAGE_SIZE"
  by (induction ys) (auto simp: b_data_def hdr_size_def)

lemma needed_upper: "spaced e xs \<Longrightarrow> needed e xs p \<Longrightarrow> p < e"
proof (induction xs)
  case (Cons c cs)
  then show ?case using spaced_nxt_le [of e cs] by (auto split: if_splits)
qed simp

text \<open>A page that reaches over the end of the buffer lies on the next header.\<close>

lemma needed_next:
  assumes "spaced e ys" and "page_aligned e" and "page_aligned p" and "p < nxt e ys" and "nxt e ys < p + PAGE_SIZE"
  shows "needed e ys p"
proof (cases "ys = []")
  case True
  then show ?thesis using aligned_less [OF assms(3,2)] assms(4,5) by simp
next
  case False
  then show ?thesis using needed_head [OF assms(1)] assms(4,5) by simp
qed

lemma needed_whole:
  assumes "area e f (b # ys)" and "page_aligned e" and "page_aligned p" and "b_free b" and "n \<le> nxt e ys - b_data (b_addr b)"
    and "nxt e ys - b_data (b_addr b) \<le> n + hdr_size + 4" and "\<not> b_free b'" and "b_addr b' = b_addr b"
  shows "needed e (b' # ys) p \<longleftrightarrow> needed e (b # ys) p
    \<or> b_data (b_addr b) \<le> p \<and> p < b_data (b_addr b) + n \<and> p + PAGE_SIZE \<le> nxt e ys"
proof -
  have ar: "spaced e ys" and d: "b_data (b_addr b) \<le> nxt e ys" using area_spaced [OF assms(1)] by auto
  have n: "p < nxt e ys \<Longrightarrow> nxt e ys < p + PAGE_SIZE \<Longrightarrow> needed e ys p" by (rule needed_next [OF ar assms(2,3)])
  show ?thesis
    using n d assms(4-8) by (cases "nxt e ys < p + PAGE_SIZE") (auto simp: b_data_def hdr_size_def PAGE_SIZE_def not_less)
qed

lemma needed_split:
  assumes "area e f (b # ys)" and "page_aligned e" and "page_aligned p" and "b_free b" and "0 \<le> n"
    and "n + hdr_size \<le> nxt e ys - b_data (b_addr b)" and "\<not> b_free b'" and "b_addr b' = b_addr b"
    and "b_free c" and "b_addr c = b_data (b_addr b) + n"
  shows "needed e (b' # c # ys) p \<longleftrightarrow> needed e (b # ys) p
    \<or> b_data (b_addr b) \<le> p \<and> p < b_data (b_addr b) + (n + hdr_size) \<and> p + PAGE_SIZE \<le> nxt e ys"
proof -
  have ar: "spaced e ys" and d: "b_data (b_addr b) \<le> nxt e ys" using area_spaced [OF assms(1)] by auto
  have n: "p < nxt e ys \<Longrightarrow> nxt e ys < p + PAGE_SIZE \<Longrightarrow> needed e ys p" by (rule needed_next [OF ar assms(2,3)])
  show ?thesis
    using n d assms(4-10) by (cases "nxt e ys < p + PAGE_SIZE") (auto simp: b_data_def hdr_size_def PAGE_SIZE_def not_less)
qed

lemma not_needed_inside:
  assumes "spaced e (xs @ b # ys)" and "b_free b" and "b_data (b_addr b) \<le> p" and "p + PAGE_SIZE \<le> nxt e ys"
  shows "\<not> needed e (xs @ b # ys) p"
proof -
  have "spaced (b_addr b) xs" "spaced e (b # ys)" using assms(1) by (simp_all only: spaced_append)
  then show ?thesis
    using needed_upper [of "b_addr b" xs p] needed_lower [of e ys p] assms(2-4)
    by (auto simp: needed_append b_data_def hdr_size_def)
qed

section \<open>Taking a buffer\<close>

lemma set_buf_split:
  assumes "distinct (map b_addr (xs @ b # ys))" and "buffers s = xs @ b # ys"
  shows "set_buf (b_addr b) f s = s\<lparr>buffers := xs @ f b # ys\<rparr>"
proof -
  have "map (\<lambda>c. if b_addr c = b_addr b then f c else c) zs = zs" if "b_addr b \<notin> b_addr ` set zs" for zs
    using that by (induction zs) auto
  then show ?thesis using assms by (auto simp: set_buf_def)
qed

lemma list_add_split: "b_addr b \<notin> b_addr ` set xs \<Longrightarrow> list_add_after (b_addr b) n (xs @ b # ys) = xs @ b # n # ys"
  by (induction xs) auto

lemma strict_distinct: "sorted_wrt (<) (l :: int list) \<Longrightarrow> distinct l"
  by (simp add: strict_sorted_iff)

lemma size_in_cong: "map b_addr l = map b_addr l' \<Longrightarrow> size_in e l a = size_in e l' a"
proof (induction l arbitrary: l')
  case (Cons b l)
  then obtain b' k where l': "l' = b' # k" "b_addr b = b_addr b'" "map b_addr l = map b_addr k" by auto
  then have "(case l of [] \<Rightarrow> e | c # _ \<Rightarrow> b_addr c) = (case k of [] \<Rightarrow> e | c # _ \<Rightarrow> b_addr c)"
    by (cases l; cases k) auto
  then show ?case using Cons.IH [OF l'(3)] l' by auto
qed simp

lemma size_at_cong: "map b_addr (buffers s) = map b_addr (buffers s') \<Longrightarrow> area_end s = area_end s' \<Longrightarrow> size_at s = size_at s'"
  by (rule ext) (simp add: size_at_def binder_buffer_size_def area_end_def size_in_cong [of "buffers s" "buffers s'"])

text \<open>The list after the allocation of \<open>b\<close>, with or without a new free buffer behind it.\<close>

definition given :: "buf \<Rightarrow> u32 \<Rightarrow> u32 \<Rightarrow> bool \<Rightarrow> buf" where
  "given b d n async = b\<lparr>b_free := False, b_data_size := d, b_offs_size := n, b_async := async\<rparr>"

definition rest_buf :: "buf \<Rightarrow> int \<Rightarrow> int \<Rightarrow> buf list" where
  "rest_buf b n bs = (if bs = n then [] else [new_free (b_data (b_addr b) + n)])"

lemma given_simps [simp]: "b_addr (given b d n i) = b_addr b" "\<not> b_free (given b d n i)"
  "b_async (given b d n i) = i" "b_need (given b d n i) = uint (request_size d n)"
  by (simp_all add: given_def b_need_def)

lemma new_free_simps [simp]: "b_addr (new_free a) = a" "b_free (new_free a)" "b_need (new_free a) = 0"
  by (simp_all add: new_free_def b_need_def)

lemma area_given:
  assumes "area e f (xs @ b # ys)" and "b_free b" and "uint (request_size d o') = n"
    and "bs = n \<and> n \<le> nxt e ys - b_data (b_addr b) \<or> bs = n + hdr_size \<and> n + hdr_size \<le> nxt e ys - b_data (b_addr b)"
  shows "area e f (xs @ given b d o' i # rest_buf b n bs @ ys)"
proof -
  have "area (b_addr b) True xs" "area e f (b # ys)" using assms(1,2) by (simp_all only: area_append)
  then have "area (b_addr b) False xs" "area e f ys" "\<not> nxt_free f ys" using assms(2) area_weaken by auto
  then show ?thesis
    using assms(3,4) by (auto simp: area_append rest_buf_def b_data_def hdr_size_def)
qed

lemma erase_free:
  assumes "rb_ok rb" and "layout_ok s" and "trees_ok s" and "buffers s = xs @ b # ys" and "b_free b"
  shows "inorder (rb_erase rb (b_addr b) (free_buffers s)) = remove1 (b_addr b) (inorder (free_buffers s))"
    and "mset (inorder (rb_erase rb (b_addr b) (free_buffers s))) = mset (map b_addr (filter b_free (xs @ ys)))"
    and "sorted (map (size_at s) (inorder (rb_erase rb (b_addr b) (free_buffers s))))"
proof -
  have "b_addr b \<in> set (inorder (free_buffers s))" using free_tree_set [OF assms(3)] assms(4,5) by auto
  then show 1: "inorder (rb_erase rb (b_addr b) (free_buffers s)) = remove1 (b_addr b) (inorder (free_buffers s))"
    using rb_okD(2) [OF assms(1) free_tree_facts(2) [OF assms(2,3)]] by blast
  have m: "mset (inorder (free_buffers s)) = mset (map b_addr (filter b_free (xs @ b # ys)))"
    and so: "sorted (map (size_at s) (inorder (free_buffers s)))"
    using assms(3,4) by (simp_all only: trees_ok_def)
  show "mset (inorder (rb_erase rb (b_addr b) (free_buffers s))) = mset (map b_addr (filter b_free (xs @ ys)))"
    unfolding 1 mset_remove1 m using assms(5) by simp
  show "sorted (map (size_at s) (inorder (rb_erase rb (b_addr b) (free_buffers s))))"
    unfolding 1 by (rule sorted_map_remove1 [OF so])
qed

lemma size_at_split:
  assumes "layout_ok s" and "buffers s = xs @ b # ys" and "area (area_end s) False (xs @ b' # ms @ ys)"
    and "b_addr b' = b_addr b" and "buffers s' = xs @ b' # ms @ ys" and "area_end s' = area_end s" and "x \<in> set xs \<union> set ys"
  shows "size_at s' (b_addr x) = size_at s (b_addr x)"
proof -
  have "distinct (map b_addr (xs @ b # ys))" using layout_distinct [OF assms(1)] assms(2) by simp
  moreover have "distinct (map b_addr (xs @ b' # ms @ ys))" by (rule area_distinct [OF assms(3)])
  ultimately have "size_in (area_end s) (xs @ b' # ms @ ys) (b_addr x) = size_in (area_end s) (xs @ b # ys) (b_addr x)"
    by (intro size_in_replace assms)
  then show ?thesis using assms(2,5,6) by (simp add: size_at_def binder_buffer_size_def area_end_def [symmetric])
qed

lemma sorted_map_cong: "sorted (map f l) \<Longrightarrow> \<forall>x\<in>set l. f x = g x \<Longrightarrow> sorted (map g l)"
  using map_cong [OF refl, of l f g] by simp

lemma insert_rest:
  assumes "rb_ok rb" and d: "distinct (map b_addr (buffers s))" and l: "buffers s = xs @ b0 # rest_buf b n bs @ ys" and "\<not> b_free b0"
    and m: "mset (inorder (free_buffers s)) = mset (map b_addr (filter b_free (xs @ ys)))"
    and so: "sorted (map (size_at s) (inorder (free_buffers s)))"
  shows "\<exists>F. (if bs \<noteq> n then binder_insert_free_buffer rb s (b_data (b_addr b) + n) else Some s) = Some (s\<lparr>free_buffers := F\<rparr>)
    \<and> mset (inorder F) = mset (map b_addr (filter b_free (buffers s))) \<and> sorted (map (size_at s) (inorder F))"
proof (cases "bs = n")
  case True
  have "mset (inorder (free_buffers s)) = mset (map b_addr (filter b_free (buffers s)))"
    unfolding m l using assms(4) True by (simp add: rest_buf_def)
  then show ?thesis using so True by (intro exI [of _ "free_buffers s"]) simp
next
  case False
  let ?c = "new_free (b_data (b_addr b) + n)"
  have l': "buffers s = (xs @ [b0]) @ ?c # ys" using l False by (simp add: rest_buf_def)
  have m': "mset (inorder (free_buffers s)) = mset (map b_addr (filter b_free ((xs @ [b0]) @ ys)))"
    unfolding m using assms(4) by simp
  obtain F where "binder_insert_free_buffer rb s (b_addr ?c) = Some (s\<lparr>free_buffers := F\<rparr>)"
    "mset (inorder F) = mset (map b_addr (filter b_free (buffers s)))" "sorted (map (size_at s) (inorder F))"
    using insert_free_ok [OF assms(1) d l' _ m' so] by auto
  then show ?thesis using False by (intro exI [of _ F]) simp
qed

lemma take_buffer_ok:
  assumes rb: "rb_ok rb" and ok: "layout_ok s" "trees_ok s" and l: "buffers s = xs @ b # ys" and free: "b_free b"
    and n: "uint w = n" "w = request_size d o'"
    and bs: "bs = n \<and> n \<le> nxt (area_end s) ys - b_data (b_addr b) \<or> bs = n + hdr_size \<and> n + hdr_size \<le> nxt (area_end s) ys - b_data (b_addr b)"
  shows "\<exists>F A. take_buffer rb s (b_addr b) n bs w d o' async = Some (s\<lparr>buffers := xs @ given b d o' async # rest_buf b n bs @ ys,
      free_buffers := F, allocated_buffers := A, free_async_space := free_async_space s - (if async then w + 40 else 0)\<rparr>)
    \<and> trees_ok (s\<lparr>buffers := xs @ given b d o' async # rest_buf b n bs @ ys, free_buffers := F, allocated_buffers := A\<rparr>)"
proof -
  let ?b0 = "b\<lparr>b_free := False\<rparr>" and ?F = "rb_erase rb (b_addr b) (free_buffers s)" and ?L = "xs @ given b d o' async # rest_buf b n bs @ ys"
  have ar: "area (area_end s) False ?L"
    using area_given [of "area_end s" False xs b ys d o' n bs] ok(1) l free n bs by (auto simp: layout_ok_def)
  have srt: "sorted_wrt (<) (map b_addr ?L)" by (rule area_sorted [OF ar])
  have addrs: "map b_addr ?L = map b_addr (xs @ ?b0 # rest_buf b n bs @ ys)" by simp
  have d0: "distinct (map b_addr (xs @ b # ys))" using layout_distinct [OF ok(1)] l by simp
  have srt0: "sorted_wrt (<) (map b_addr (xs @ ?b0 # ys))" using area_sorted [of _ _ "buffers s"] ok(1) l by (auto simp: layout_ok_def)
  define s2 where "s2 = s\<lparr>free_buffers := ?F, buffers := xs @ ?b0 # ys\<rparr>"
  have s2: "set_buf (b_addr b) (\<lambda>b. b\<lparr>b_free := False\<rparr>) (s\<lparr>free_buffers := ?F\<rparr>) = s2"
    using set_buf_split [OF d0, of "s\<lparr>free_buffers := ?F\<rparr>"] l by (simp add: s2_def)
  obtain A where A: "binder_insert_allocated_buffer rb s2 (b_addr ?b0) = Some (s2\<lparr>allocated_buffers := A\<rparr>)"
    "inorder A = map b_addr (filter (\<lambda>b. \<not> b_free b) (xs @ ?b0 # ys))"
    using insert_allocated_ok [OF rb, of s2 xs ?b0 ys] srt0 ok(2) l free by (auto simp: s2_def trees_ok_def)
  have A': "inorder A = map b_addr (filter (\<lambda>b. \<not> b_free b) ?L)" using A(2) by (simp add: rest_buf_def)
  define s3 where "s3 = s2\<lparr>allocated_buffers := A, buffers := xs @ ?b0 # rest_buf b n bs @ ys\<rparr>"
  have sz: "size_at s3 (b_addr x) = size_at s (b_addr x)" if "x \<in> set xs \<union> set ys" for x
  proof -
    have "area (area_end s) False (xs @ ?b0\<lparr>b_data_size := d, b_offs_size := o', b_async := async\<rparr> # rest_buf b n bs @ ys)"
      using ar by (simp add: given_def)
    from size_at_split [OF ok(1) l this, of "s3\<lparr>buffers := ?L\<rparr>" x] that
    have "size_at (s3\<lparr>buffers := ?L\<rparr>) (b_addr x) = size_at s (b_addr x)"
      by (simp add: s3_def s2_def area_end_def given_def)
    then show ?thesis using size_at_cong [of "s3\<lparr>buffers := ?L\<rparr>" s3] by (simp add: s3_def area_end_def)
  qed
  note er = erase_free [OF rb ok l free]
  have "set (inorder ?F) = set (map b_addr (filter b_free (xs @ ys)))"
    using er(2) by (metis set_mset_mset)
  then have so: "sorted (map (size_at s3) (inorder ?F))"
    by (intro sorted_map_cong [OF er(3)]) (use sz in auto)
  have m3: "mset (inorder (free_buffers s3)) = mset (map b_addr (filter b_free (xs @ ys)))" using er(2) by (simp add: s3_def s2_def)
  have so3: "sorted (map (size_at s3) (inorder (free_buffers s3)))" using so by (simp add: s3_def s2_def)
  have d3: "distinct (map b_addr (buffers s3))" using strict_distinct [OF srt [unfolded addrs]] by (simp add: s3_def)
  have l3: "buffers s3 = xs @ ?b0 # rest_buf b n bs @ ys" by (simp add: s3_def)
  obtain F where F: "(if bs \<noteq> n then binder_insert_free_buffer rb s3 (b_data (b_addr b) + n) else Some s3) = Some (s3\<lparr>free_buffers := F\<rparr>)"
    "mset (inorder F) = mset (map b_addr (filter b_free (buffers s3)))" "sorted (map (size_at s3) (inorder F))"
    using insert_rest [OF rb d3 l3 _ m3 so3] by auto
  have F2: "mset (inorder F) = mset (map b_addr (filter b_free ?L))" using F(2) by (simp add: l3)
  let ?ins = "if bs \<noteq> n then binder_insert_free_buffer rb ((s2\<lparr>allocated_buffers := A\<rparr>)\<lparr>buffers := list_add_after (b_addr b)
      (new_free (b_data (b_addr b) + n)) (buffers (s2\<lparr>allocated_buffers := A\<rparr>))\<rparr>) (b_data (b_addr b) + n) else Some (s2\<lparr>allocated_buffers := A\<rparr>)"
  have "(s2\<lparr>allocated_buffers := A\<rparr>)\<lparr>buffers := list_add_after (b_addr b) (new_free (b_data (b_addr b) + n)) (buffers (s2\<lparr>allocated_buffers := A\<rparr>))\<rparr> = s3"
    if "bs \<noteq> n"
    using that d0 list_add_split [of ?b0 xs "new_free (b_data (b_addr b) + n)" ys] by (simp add: s3_def s2_def rest_buf_def)
  moreover have "s2\<lparr>allocated_buffers := A\<rparr> = s3" if "bs = n" using that by (simp add: s3_def s2_def rest_buf_def)
  ultimately have ins: "?ins = Some (s3\<lparr>free_buffers := F\<rparr>)" using F(1) by (cases "bs = n") simp_all
  have e3: "set_buf (b_addr b) (\<lambda>b. b\<lparr>b_data_size := d, b_offs_size := o', b_async := i\<rparr>) (s3\<lparr>free_buffers := F\<rparr>)
      = s3\<lparr>free_buffers := F, buffers := xs @ given b d o' i # rest_buf b n bs @ ys\<rparr>" for i
  proof -
    have "distinct (map b_addr (xs @ ?b0 # rest_buf b n bs @ ys))" by (rule strict_distinct [OF srt [unfolded addrs]])
    from set_buf_split [OF this, of "s3\<lparr>free_buffers := F\<rparr>"] show ?thesis by (simp add: s3_def given_def)
  qed
  have "take_buffer rb s (b_addr b) n bs w d o' async = Some (s\<lparr>buffers := ?L,
      free_buffers := F, allocated_buffers := A, free_async_space := free_async_space s - (if async then w + 40 else 0)\<rparr>)"
    using A(1) unfolding take_buffer_def Let_def s2 by (simp add: ins e3) (simp add: s3_def s2_def)
  moreover have "trees_ok (s\<lparr>buffers := ?L, free_buffers := F, allocated_buffers := A\<rparr>)"
    using F2 F(3) A' size_at_cong [of "s\<lparr>buffers := ?L, free_buffers := F, allocated_buffers := A\<rparr>" s3]
    unfolding trees_ok_def by (simp add: s3_def s2_def area_end_def)
  ultimately show ?thesis by blast
qed

section \<open>The request\<close>

text \<open>The two comparisons after the addition catch every wrap-around.\<close>

lemma unat_lt32: "unat (x :: u32) < 2 ^ 32"
  using unsigned_less [of x, where 'a = nat] by simp

lemma round4_max: "unat (round4 x) \<le> 2 ^ 32 - 4"
proof -
  have "unat (round4 x) = unat (x + 3) div 4 * 4" unfolding round4_def unat_and_not3 by (rule refl)
  moreover have "unat (x + 3) div 4 \<le> (2 ^ 32 - 1) div 4"
    using unat_lt32 [of "x + 3"] by (intro div_le_mono) simp
  ultimately show ?thesis by simp
qed

lemma round4_wraps: "\<not> unat x \<le> 2 ^ 32 - 4 \<Longrightarrow> round4 x = 0"
proof -
  assume a: "\<not> unat x \<le> 2 ^ 32 - 4"
  define r where "r = unat x + 3 - 2 ^ 32"
  have r: "unat x + 3 = r + 2 ^ 32" "r < 4" using a unat_lt32 [of x] by (simp_all add: r_def)
  have "unat (x + 3) = (unat x + 3) mod 2 ^ 32" by (simp add: unat_word_ariths(1))
  then have "unat (x + 3) < 4" unfolding r(1) using r(2) by simp
  then have "unat (round4 x) = 0" unfolding round4_def unat_and_not3 by simp
  then show "round4 x = 0" by (simp add: unat_eq_0)
qed

lemma request_size_exact:
  assumes "\<not> (request_size d o' < d \<or> request_size d o' < o')"
  shows "unat (request_size d o') = (unat d + 3) div 4 * 4 + (unat o' + 3) div 4 * 4"
proof -
  let ?w = "request_size d o'"
  have ge: "unat d \<le> unat ?w" "unat o' \<le> unat ?w" using assms by (auto simp: word_less_nat_alt)
  have d: "unat d \<le> 2 ^ 32 - 4"
  proof (rule ccontr)
    assume n: "\<not> ?thesis"
    then have "unat ?w = unat (round4 o')" using round4_wraps by (simp add: request_size_def)
    then show False using n round4_max [of o'] ge(1) by linarith
  qed
  have o: "unat o' \<le> 2 ^ 32 - 4"
  proof (rule ccontr)
    assume n: "\<not> ?thesis"
    then have "unat ?w = unat (round4 d)" using round4_wraps by (simp add: request_size_def)
    then show False using n round4_max [of d] ge(2) by linarith
  qed
  have a: "unat (round4 d) = (unat d + 3) div 4 * 4" "unat (round4 d) < unat d + 4"
    using round4_le [OF d] by linarith+
  have b: "unat (round4 o') = (unat o' + 3) div 4 * 4" using round4_le [OF o] .
  have w: "unat ?w = (unat (round4 d) + unat (round4 o')) mod 2 ^ 32"
    by (simp add: request_size_def unat_word_ariths(1))
  have "unat (round4 d) + unat (round4 o') < 2 ^ 32"
  proof (rule ccontr)
    assume n: "\<not> ?thesis"
    then have "unat ?w = unat (round4 d) + unat (round4 o') - 2 ^ 32"
      using w round4_max [of d] round4_max [of o'] by (simp add: mod_if)
    then show False using round4_max [of o'] a(2) ge(1) n by (simp; arith)
  qed
  then show ?thesis using w a(1) b by simp
qed

section \<open>Allocation keeps the invariant\<close>

lemma state_simps [simp]:
  "area_end (s\<lparr>pages := ps\<rparr>) = area_end s" "buffers (pages_plus P s) = buffers s" "area_end (pages_plus P s) = area_end s"
  "size_at (pages_plus P s) = size_at s" "layout_ok (pages_plus P s) = layout_ok s" "trees_ok (pages_plus P s) = trees_ok s"
  "buf_len (pages_plus P s) = buf_len s" "free_async_space (pages_plus P s) = free_async_space s"
  by (simp_all add: area_end_def pages_plus_def layout_ok_def trees_ok_def size_at_def [abs_def] binder_buffer_size_def)

lemma page_at_other [simp]:
  "page_at (s\<lparr>buffers := l, free_buffers := F, allocated_buffers := A, free_async_space := q\<rparr>) p = page_at s p"
  "is_page (s\<lparr>buffers := l, free_buffers := F, allocated_buffers := A, free_async_space := q\<rparr>) p = is_page s p"
  by (simp_all add: page_at_def page_index_def is_page_def Let_def)

lemma async_used_append [simp]: "async_used (xs @ ys) = async_used xs + async_used ys"
  by (simp add: async_used_def)

text \<open>The pages the allocation of \<open>bs\<close> bytes from \<open>b\<close> attaches.\<close>

definition fresh_page :: "buf \<Rightarrow> int \<Rightarrow> int \<Rightarrow> int \<Rightarrow> bool" where
  "fresh_page b bs e p \<longleftrightarrow> PAGE_ALIGN (b_data (b_addr b)) \<le> p \<and> p < min (PAGE_ALIGN (b_data (b_addr b) + bs)) (page_floor e)"

lemma fresh_page_iff:
  "page_aligned p \<Longrightarrow> fresh_page b bs e p \<longleftrightarrow> b_data (b_addr b) \<le> p \<and> p < b_data (b_addr b) + bs \<and> p + PAGE_SIZE \<le> e"
  by (simp add: fresh_page_def align_le less_align less_floor)

lemma needed_given:
  assumes ar: "area e f (xs @ b # ys)" and "page_aligned e" and p: "page_aligned p" and "b_free b" and n: "0 \<le> n"
    and "bs = n \<and> n \<le> nxt e ys - b_data (b_addr b) \<and> nxt e ys - b_data (b_addr b) \<le> n + hdr_size + 4
      \<or> bs = n + hdr_size \<and> n + hdr_size \<le> nxt e ys - b_data (b_addr b)"
  shows "needed e (xs @ given b d o' i # rest_buf b n bs @ ys) p \<longleftrightarrow> needed e (xs @ b # ys) p \<or> fresh_page b bs (nxt e ys) p"
proof -
  have ar': "area e f (b # ys)" using ar by (simp only: area_append)
  have "needed e (given b d o' i # rest_buf b n bs @ ys) p \<longleftrightarrow> needed e (b # ys) p \<or> fresh_page b bs (nxt e ys) p"
    using assms(6)
  proof (elim disjE conjE)
    assume a: "bs = n" "n \<le> nxt e ys - b_data (b_addr b)" "nxt e ys - b_data (b_addr b) \<le> n + hdr_size + 4"
    show ?thesis
      using needed_whole [OF ar' assms(2) p assms(4) a(2,3), of "given b d o' i"] a(1)
      unfolding fresh_page_iff [OF p] by (simp add: rest_buf_def)
  next
    assume a: "bs = n + hdr_size" "n + hdr_size \<le> nxt e ys - b_data (b_addr b)"
    show ?thesis
      using needed_split [OF ar' assms(2) p assms(4) n a(2), of "given b d o' i" "new_free (b_data (b_addr b) + n)"] a(1)
      unfolding fresh_page_iff [OF p] by (simp add: rest_buf_def hdr_size_def)
  qed
  then show ?thesis by (simp only: needed_append given_simps) blast
qed

text \<open>How many bytes are taken from a buffer of size \<open>g\<close> for a request of \<open>n\<close>.\<close>

definition cut :: "int \<Rightarrow> int \<Rightarrow> int" where
  "cut n g = (if n + hdr_size + 4 \<ge> g then n else n + hdr_size)"

lemma cut_cases:
  "n \<le> g \<Longrightarrow> cut n g = n \<and> n \<le> g \<and> g \<le> n + hdr_size + 4 \<or> cut n g = n + hdr_size \<and> n + hdr_size \<le> g"
  by (auto simp: cut_def)

lemma async_given:
  assumes "async_ok s" and "buffers s = xs @ b # ys" and "b_free b" and "uint w = n" and "w = request_size d o'"
    and "n \<le> buf_len s" and "async \<Longrightarrow> \<not> free_async_space s < w + 40"
  shows "uint (free_async_space s - (if async then w + 40 else 0)) + async_used (xs @ given b d o' async # rest_buf b n bs @ ys)
    = buf_len s div 2"
proof -
  have used: "async_used (xs @ given b d o' async # rest_buf b n bs @ ys) = async_used (buffers s) + (if async then n + hdr_size else 0)"
    using assms(2-5) by (simp add: async_used_def rest_buf_def)
  show ?thesis
  proof (cases async)
    case True
    have "n + 40 < 2 ^ 32" using assms(1,6) by (simp add: async_ok_def SZ_4M_def)
    moreover have "0 \<le> n" using assms(4) by auto
    ultimately have u: "uint (w + 40) = n + 40" using assms(4) by (simp add: uint_word_ariths(1))
    have "w + 40 \<le> free_async_space s" using assms(7) True by simp
    then have "uint (free_async_space s - (w + 40)) = uint (free_async_space s) - (n + 40)"
      using u by (simp add: uint_minus_simple_alt)
    then show ?thesis using assms(1) True used by (simp add: async_ok_def hdr_size_def)
  qed (use assms(1) used in \<open>simp add: async_ok_def\<close>)
qed

text \<open>What no allocation and no release changes.\<close>

definition same_area :: "bufspace \<Rightarrow> bufspace \<Rightarrow> bool" where
  "same_area s' s \<longleftrightarrow> buf_base s' = buf_base s \<and> buf_len s' = buf_len s \<and> user_buffer_offset s' = user_buffer_offset s
     \<and> has_vma s' = has_vma s \<and> mm_ok s' = mm_ok s"

lemma alloc_step:
  assumes rb: "rb_ok rb" and ok: "bufs_ok s" and l: "buffers s = xs @ b # ys" and free: "b_free b"
    and w: "uint w = n" "w = request_size d o'" and g: "g = nxt (area_end s) ys - b_data (b_addr b)" "n \<le> g"
    and async: "async \<Longrightarrow> \<not> free_async_space s < w + 40"
  shows "\<exists>s'. take_buffer rb (pages_plus (fresh_page b (cut n g) (nxt (area_end s) ys)) s) (b_addr b) n (cut n g) w d o' async = Some s'
    \<and> bufs_ok s' \<and> same_area s' s \<and> buffers s' = xs @ given b d o' async # rest_buf b n (cut n g) @ ys"
proof -
  let ?e = "area_end s" and ?L = "xs @ given b d o' async # rest_buf b n (cut n g) @ ys"
  let ?s1 = "pages_plus (fresh_page b (cut n g) (nxt ?e ys)) s"
  have oks: "layout_ok s" "trees_ok s" "pages_ok s" "async_ok s" using ok by (simp_all add: bufs_ok_def)
  have ar: "area ?e False (xs @ b # ys)" using oks(1) l by (simp add: layout_ok_def)
  note c = cut_cases [OF g(2), unfolded g(1), folded g(1)]
  obtain F A where t: "take_buffer rb ?s1 (b_addr b) n (cut n g) w d o' async = Some (?s1\<lparr>buffers := ?L, free_buffers := F,
      allocated_buffers := A, free_async_space := free_async_space ?s1 - (if async then w + 40 else 0)\<rparr>)"
    and tr: "trees_ok (?s1\<lparr>buffers := ?L, free_buffers := F, allocated_buffers := A\<rparr>)"
    using take_buffer_ok [OF rb, of ?s1 xs b ys w n d o' "cut n g" async] oks(1,2) l free w c g(1) by auto
  let ?s' = "?s1\<lparr>buffers := ?L, free_buffers := F, allocated_buffers := A, free_async_space := free_async_space ?s1 - (if async then w + 40 else 0)\<rparr>"
  have "0 \<le> n" using w(1) by auto
  have "trees_ok ?s'" using tr by (simp add: trees_ok_def size_at_def [abs_def] binder_buffer_size_def)
  moreover have "layout_ok ?s'"
  proof -
    have "nxt ?e ?L = nxt ?e (xs @ b # ys)" by simp
    then show ?thesis
      using area_given [OF ar free, of d o' n "cut n g" async] w c g(1) oks(1) l by (auto simp: layout_ok_def area_end_def)
  qed
  moreover have "async_ok ?s'"
  proof -
    have "nxt ?e ys \<le> ?e" "buf_base s \<le> b_addr b"
      using area_nxt_le [of ?e False ys] ar area_bounds(1) [of ?e False "buffers s" b] oks(1) l by (auto simp: area_append layout_ok_def)
    then have "n \<le> buf_len s" using g by (simp add: b_data_def hdr_size_def area_end_def)
    then show ?thesis using async_given [OF oks(4) l free w _ async] oks(4) by (simp add: async_ok_def)
  qed
  moreover have "pages_ok ?s'"
  proof -
    have "page_at ?s' p = Some (needed ?e ?L p)" if "is_page s p" for p
    proof -
      have al: "page_aligned p" using is_page_aligned [OF oks(3) that] .
      have "page_at s p = Some (needed ?e (xs @ b # ys) p)" using oks(3) that l by (simp add: pages_ok_def)
      then show ?thesis
        using needed_given [OF ar area_end_aligned [OF oks(3)] al free \<open>0 \<le> n\<close>, of "cut n g" d o' async] c g(1)
        by (simp add: page_at_plus [OF that])
    qed
    then show ?thesis using oks(3) by (simp add: pages_ok_def area_end_def)
  qed
  ultimately show ?thesis using t by (simp add: bufs_ok_def same_area_def pages_plus_def)
qed

lemma alloc_pages:
  fixes bs :: int
  assumes ok: "bufs_ok s" and l: "buffers s = xs @ b # ys" and free: "b_free b"
  defines "start \<equiv> PAGE_ALIGN (b_data (b_addr b))" and "last_page \<equiv> min (PAGE_ALIGN (b_data (b_addr b) + bs)) (page_floor (nxt (area_end s) ys))"
  shows "\<exists>r. binder_update_page_range pf s True start last_page False = Some r
    \<and> (r = (pages_plus (fresh_page b bs (nxt (area_end s) ys)) s, 0) \<or> r = (s, -ENOMEM))
    \<and> (has_vma s \<and> mm_ok s \<and> (\<forall>p. pf p = PageMapped) \<longrightarrow> snd r = 0)"
proof -
  let ?e = "area_end s"
  have oks: "layout_ok s" "pages_ok s" using ok by (simp_all add: bufs_ok_def)
  have ar: "area ?e False (xs @ b # ys)" using oks(1) l by (simp add: layout_ok_def)
  have bnd: "nxt ?e ys \<le> ?e" "buf_base s \<le> b_addr b"
    using area_nxt_le [of ?e False ys] ar area_bounds(1) [of ?e False "buffers s" b] oks(1) l by (auto simp: area_append layout_ok_def)
  have P: "(\<lambda>p. start \<le> p \<and> p < last_page) = fresh_page b bs (nxt ?e ys)"
    by (simp add: fresh_page_def fun_eq_iff start_def last_page_def)
  have on: "on_page s start \<and> on_page s last_page" if "start < last_page"
  proof -
    have "last_page \<le> nxt ?e ys" using floor_bounds(1) [of "nxt ?e ys"] by (simp add: last_page_def)
    moreover have "b_data (b_addr b) \<le> start" using floor_bounds(3) by (simp add: start_def)
    moreover have "page_aligned start" "page_aligned last_page" by (simp_all add: start_def last_page_def min_def)
    ultimately show ?thesis
      using that bnd by (auto intro!: on_page_aligned [OF oks(2)] simp: b_data_def hdr_size_def)
  qed
  have no: "page_at s p = Some False" if "is_page s p" "start \<le> p" "p < last_page" for p
  proof -
    have "fresh_page b bs (nxt ?e ys) p" using that(2,3) by (simp add: fresh_page_def start_def last_page_def)
    then have "\<not> needed ?e (xs @ b # ys) p"
      using not_needed_inside [OF area_spaced [OF ar] free] fresh_page_iff [OF is_page_aligned [OF oks(2) that(1)]] by blast
    then show ?thesis using oks(2) that(1) l by (simp add: pages_ok_def)
  qed
  have none: "pages_plus (fresh_page b bs (nxt ?e ys)) s = s" if "\<not> start < last_page"
    using that pages_cong(1) [of s "fresh_page b bs (nxt ?e ys)" "\<lambda>_. False"] by (simp flip: P)
  show ?thesis
    using update_pages_alloc [OF on no, of pf False] none unfolding P by auto
qed

text \<open>Which buffers are free, and their sizes.\<close>

definition free_sizes :: "bufspace \<Rightarrow> int set" where
  "free_sizes s = {size_at s (b_addr b) | b. b \<in> set (buffers s) \<and> b_free b}"

lemma best_fit_buf:
  assumes "layout_ok s" and "trees_ok s"
  shows "\<forall>g\<in>free_sizes s. g < n \<Longrightarrow> best_fit s n (free_buffers s) None = Some (None, False)"
    and "\<not> (\<forall>g\<in>free_sizes s. g < n) \<Longrightarrow> \<exists>xs b ys. buffers s = xs @ b # ys \<and> b_free b
      \<and> best_fit s n (free_buffers s) None = Some (Some (b_addr b), size_at s (b_addr b) = n)
      \<and> n \<le> size_at s (b_addr b) \<and> (\<forall>g\<in>free_sizes s. n \<le> g \<longrightarrow> size_at s (b_addr b) \<le> g)"
proof -
  note f = free_tree_facts(1) [OF assms]
  have so: "sorted (map (size_at s) (inorder (free_buffers s)))" using assms(2) unfolding trees_ok_def by blast
  have set: "size_at s ` set (inorder (free_buffers s)) = free_sizes s"
    unfolding free_tree_set [OF assms(2)] by (auto simp: free_sizes_def)
  show "best_fit s n (free_buffers s) None = Some (None, False)" if "\<forall>g\<in>free_sizes s. g < n"
    using best_fit_spec(1) [OF f so, of n] that unfolding set [symmetric] by blast
  assume "\<not> (\<forall>g\<in>free_sizes s. g < n)"
  then have "\<not> (\<forall>x\<in>set (inorder (free_buffers s)). size_at s x < n)" unfolding set [symmetric] by blast
  then obtain a where a: "best_fit s n (free_buffers s) None = Some (Some a, size_at s a = n)"
    "a \<in> set (inorder (free_buffers s))" "n \<le> size_at s a"
    "\<forall>y\<in>set (inorder (free_buffers s)). n \<le> size_at s y \<longrightarrow> size_at s a \<le> size_at s y"
    using best_fit_spec(2) [OF f so] by blast
  obtain b where b: "b \<in> set (buffers s)" "b_free b" "a = b_addr b" using a(2) free_tree_set [OF assms(2)] by auto
  obtain xs ys where "buffers s = xs @ b # ys" using b(1) by (auto simp: in_set_conv_decomp)
  moreover have "\<forall>g\<in>free_sizes s. n \<le> g \<longrightarrow> size_at s a \<le> g" using a(4) unfolding set [symmetric] by blast
  ultimately show "\<exists>xs b ys. buffers s = xs @ b # ys \<and> b_free b
      \<and> best_fit s n (free_buffers s) None = Some (Some (b_addr b), size_at s (b_addr b) = n)
      \<and> n \<le> size_at s (b_addr b) \<and> (\<forall>g\<in>free_sizes s. n \<le> g \<longrightarrow> size_at s (b_addr b) \<le> g)"
    using a b by blast
qed

text \<open>What an allocation may do to the list: it takes a smallest sufficient free buffer and cuts it.\<close>

definition allocated_from :: "bufspace \<Rightarrow> u32 \<Rightarrow> u32 \<Rightarrow> bool \<Rightarrow> int \<Rightarrow> bufspace \<Rightarrow> bool" where
  "allocated_from s d o' async a s' \<longleftrightarrow> (\<exists>xs b ys n. n = uint (request_size d o') \<and> buffers s = xs @ b # ys \<and> b_free b \<and> a = b_addr b
     \<and> n \<le> size_at s a \<and> (\<forall>g\<in>free_sizes s. n \<le> g \<longrightarrow> size_at s a \<le> g)
     \<and> buffers s' = xs @ given b d o' async # rest_buf b n (cut n (size_at s a)) @ ys)"

text \<open>When it must succeed: a sane request, enough room, and pages to be had.\<close>

definition can_alloc :: "page_fn \<Rightarrow> bufspace \<Rightarrow> u32 \<Rightarrow> u32 \<Rightarrow> bool \<Rightarrow> bool" where
  "can_alloc pf s d o' async \<longleftrightarrow> has_vma s \<and> mm_ok s \<and> (\<forall>p. pf p = PageMapped)
     \<and> d \<le> request_size d o' \<and> o' \<le> request_size d o' \<and> (async \<longrightarrow> request_size d o' + 40 \<le> free_async_space s)
     \<and> (\<exists>g\<in>free_sizes s. uint (request_size d o') \<le> g)"

lemma alloc_spec:
  assumes "rb_ok rb" and "bufs_ok s"
  shows "\<exists>s' r. binder_alloc_buf rb pf s d o' async = Some (s', r) \<and> bufs_ok s' \<and> same_area s' s
    \<and> (case r of None \<Rightarrow> s' = s | Some a \<Rightarrow> allocated_from s d o' async a s')
    \<and> (can_alloc pf s d o' async \<longrightarrow> r \<noteq> None)"
proof -
  let ?w = "request_size d o'" and ?n = "uint (request_size d o')"
  have oks: "layout_ok s" "trees_ok s" using assms(2) by (simp_all add: bufs_ok_def)
  consider (bad) "\<not> has_vma s \<or> ?w < d \<or> ?w < o' \<or> async \<and> free_async_space s < ?w + 40 \<or> (\<forall>g\<in>free_sizes s. g < ?n)"
    | (good) "has_vma s" "\<not> (?w < d \<or> ?w < o')" "\<not> (async \<and> free_async_space s < ?w + 40)" "\<not> (\<forall>g\<in>free_sizes s. g < ?n)"
    by blast
  then show ?thesis
  proof cases
    case bad
    then have "binder_alloc_buf rb pf s d o' async = Some (s, None)"
      using best_fit_buf(1) [OF oks, of ?n] by (auto simp: binder_alloc_buf_def Let_def)
    moreover have "\<not> can_alloc pf s d o' async" using bad by (force simp: can_alloc_def)
    ultimately show ?thesis using assms(2) by (simp add: same_area_def)
  next
    case good
    obtain xs b ys where b: "buffers s = xs @ b # ys" "b_free b"
      "best_fit s ?n (free_buffers s) None = Some (Some (b_addr b), size_at s (b_addr b) = ?n)"
      "?n \<le> size_at s (b_addr b)" "\<forall>g\<in>free_sizes s. ?n \<le> g \<longrightarrow> size_at s (b_addr b) \<le> g"
      using best_fit_buf(2) [OF oks good(4)] by blast
    define g where "g = size_at s (b_addr b)"
    have sz: "binder_buffer_size s (b_addr b) = Some g" "g = nxt (area_end s) ys - b_data (b_addr b)"
      using layout_split [OF oks(1) b(1)] by (simp_all add: g_def)
    have cutg: "(if g = ?n then g else if ?n + hdr_size + 4 \<ge> g then ?n else ?n + hdr_size) = cut ?n g"
      by (simp add: cut_def hdr_size_def)
    obtain r where r: "binder_update_page_range pf s True (PAGE_ALIGN (b_data (b_addr b)))
        (min (PAGE_ALIGN (b_data (b_addr b) + cut ?n g)) (page_floor (b_data (b_addr b) + g))) False = Some r"
      "r = (pages_plus (fresh_page b (cut ?n g) (nxt (area_end s) ys)) s, 0) \<or> r = (s, -ENOMEM)"
      "can_alloc pf s d o' async \<longrightarrow> snd r = 0"
      using alloc_pages [OF assms(2) b(1,2), of pf "cut ?n g"] sz(2) by (auto simp: can_alloc_def)
    have eq: "binder_alloc_buf rb pf s d o' async = (if snd r \<noteq> 0 then Some (fst r, None)
        else do { s2 \<leftarrow> take_buffer rb (fst r) (b_addr b) ?n (cut ?n g) ?w d o' async; Some (s2, Some (b_addr b)) })"
      using good(1-3) r(1) by (cases r) (auto simp: binder_alloc_buf_def Let_def b(3) sz(1) cutg simp flip: g_def)
    obtain s' where s': "take_buffer rb (pages_plus (fresh_page b (cut ?n g) (nxt (area_end s) ys)) s) (b_addr b) ?n (cut ?n g) ?w d o' async = Some s'"
      "bufs_ok s'" "buffers s' = xs @ given b d o' async # rest_buf b ?n (cut ?n g) @ ys" "same_area s' s"
      using alloc_step [OF assms b(1,2) refl refl sz(2) b(4) [folded g_def], of async] good(3) by blast
    have "allocated_from s d o' async (b_addr b) s'"
      unfolding allocated_from_def using b s'(3) by (intro exI [of _ xs] exI [of _ b] exI [of _ ys] exI [of _ ?n]) (simp add: g_def)
    then show ?thesis using r(2,3) eq s' assms(2) by (auto simp: same_area_def)
  qed
qed

end
