(* ===== verification/KernelBufFree.thy ===== *)
theory KernelBufFree
  imports KernelBufAlloc
begin

text \<open>Freeing: the pages it releases, the merging with free neighbours, and the invariant.\<close>

section \<open>Pages of a header\<close>

text \<open>A header lies on its first and its last page, which may be the same.\<close>

lemma header_pages:
  assumes "page_aligned q"
  shows "q < b_data a \<and> a < q + PAGE_SIZE \<longleftrightarrow> q = buffer_start_page a \<or> q = buffer_end_page a"
proof -
  let ?s = "buffer_start_page a" and ?e = "buffer_end_page a"
  have al: "page_aligned ?s" "page_aligned ?e" by (simp_all add: buffer_start_page_def buffer_end_page_def)
  have s: "?s \<le> a" "a < ?s + PAGE_SIZE" using floor_bounds by (simp_all add: buffer_start_page_def)
  have e: "?e \<le> a + hdr_size - 1" "a + hdr_size - 1 < ?e + PAGE_SIZE"
    using floor_bounds(1,2) [of "a + hdr_size - 1"] by (simp_all add: buffer_end_page_def)
  show ?thesis
    using aligned_less [OF assms al(1)] aligned_less [OF al(1) assms] aligned_less [OF assms al(2)] aligned_less [OF al(2) assms]
      aligned_less [OF al(1,2)] s e
    by (auto simp: b_data_def hdr_size_def PAGE_SIZE_def)
qed

lemma page_floor_eq: "page_aligned q \<Longrightarrow> q \<le> x \<Longrightarrow> x < q + PAGE_SIZE \<Longrightarrow> page_floor x = q"
  using aligned_less [of q "page_floor x"] aligned_less [of "page_floor x" q] floor_bounds(1,2) [of x] by fastforce

lemma floor_mono: "x \<le> y \<Longrightarrow> page_floor x \<le> page_floor y"
  by (simp add: page_floor_def PAGE_SIZE_def zdiv_mono1)

lemma header_pages_order: "buffer_start_page a \<le> buffer_end_page a"
  "buffer_end_page a = buffer_start_page a \<or> buffer_end_page a = buffer_start_page a + PAGE_SIZE"
proof -
  let ?s = "buffer_start_page a" and ?e = "buffer_end_page a"
  show le: "?s \<le> ?e" unfolding buffer_start_page_def buffer_end_page_def by (rule floor_mono) (simp add: hdr_size_def)
  have al: "page_aligned ?s" "page_aligned ?e" "page_aligned (?s + PAGE_SIZE)"
    by (simp_all add: buffer_start_page_def buffer_end_page_def)
  have "a < ?s + PAGE_SIZE" "?e \<le> a + hdr_size - 1"
    using floor_bounds(2) [of a] floor_bounds(1) [of "a + hdr_size - 1"] by (simp_all add: buffer_start_page_def buffer_end_page_def)
  then show "?e = ?s \<or> ?e = ?s + PAGE_SIZE"
    using le aligned_less [OF al(1,2)] aligned_less [OF al(3,2)] by (auto simp: hdr_size_def PAGE_SIZE_def)
qed

section \<open>Removing a free buffer behind a free one\<close>

text \<open>Whether the page \<open>q\<close> of the header \<open>c\<close> is used by a neighbour too.\<close>

definition shared :: "buf \<Rightarrow> buf list \<Rightarrow> int \<Rightarrow> bool" where
  "shared p vs q \<longleftrightarrow> buffer_end_page (b_addr p) = q \<or> (vs \<noteq> [] \<and> buffer_start_page (b_addr (hd vs)) = q)"

lemma needed_without:
  assumes sp: "spaced e (us @ p # c # vs)" and q: "page_aligned q" and free: "b_free p" "b_free c"
  shows "needed e (us @ p # vs) q \<longleftrightarrow> needed e (us @ p # c # vs) q
    \<and> \<not> ((q = buffer_start_page (b_addr c) \<or> q = buffer_end_page (b_addr c)) \<and> \<not> shared p vs q)"
proof -
  have s: "spaced (b_addr p) us" "b_data (b_addr p) \<le> b_addr c" "b_data (b_addr c) \<le> nxt e vs" "spaced e vs"
    using sp by (auto simp: spaced_append)
  let ?h = "\<lambda>b. q < b_data (b_addr b) \<and> b_addr b < q + PAGE_SIZE"
  have new: "needed e (us @ p # vs) q \<longleftrightarrow> needed (b_addr p) us q \<or> ?h p \<or> needed e vs q"
    and old: "needed e (us @ p # c # vs) q \<longleftrightarrow> needed (b_addr p) us q \<or> ?h p \<or> ?h c \<or> needed e vs q"
    using free by (auto simp: needed_append)
  have up: "needed (b_addr p) us q \<Longrightarrow> q < b_addr p" using needed_upper [OF s(1)] .
  have low: "needed e vs q \<Longrightarrow> nxt e vs < q + PAGE_SIZE" using needed_lower [OF s(4)] .
  have sh: "shared p vs q \<longleftrightarrow> needed (b_addr p) us q \<or> ?h p \<or> needed e vs q" if hc: "?h c"
  proof
    assume "shared p vs q"
    then consider "buffer_end_page (b_addr p) = q" | "vs \<noteq> []" "buffer_start_page (b_addr (hd vs)) = q"
      by (auto simp: shared_def)
    then show "needed (b_addr p) us q \<or> ?h p \<or> needed e vs q"
    proof cases
      case 1
      then show ?thesis using header_pages [OF q] by blast
    next
      case 2
      then have "nxt e vs = b_addr (hd vs)" by (cases vs) auto
      then have "q \<le> nxt e vs" "nxt e vs < q + PAGE_SIZE"
        using floor_bounds(1,2) [of "nxt e vs"] 2(2) by (simp_all add: buffer_start_page_def)
      then show ?thesis using needed_head [OF s(4) 2(1)] by blast
    qed
  next
    have c: "b_addr c < q + PAGE_SIZE" "q < b_data (b_addr c)" using hc by auto
    assume "needed (b_addr p) us q \<or> ?h p \<or> needed e vs q"
    then consider "q < b_data (b_addr p)" | "needed e vs q" using up by (auto simp: b_data_def hdr_size_def)
    then show "shared p vs q"
    proof cases
      case 1
      then have "buffer_end_page (b_addr p) = q"
        using c(1) s(2) q by (auto simp: buffer_end_page_def b_data_def hdr_size_def intro!: page_floor_eq)
      then show ?thesis by (simp add: shared_def)
    next
      case 2
      then have "vs \<noteq> []" by auto
      then have "nxt e vs = b_addr (hd vs)" by (cases vs) auto
      then have "buffer_start_page (b_addr (hd vs)) = q"
        using low [OF 2] c(2) s(3) q by (auto simp: buffer_start_page_def intro!: page_floor_eq)
      then show ?thesis using \<open>vs \<noteq> []\<close> by (simp add: shared_def)
    qed
  qed
  show ?thesis using sh unfolding new old header_pages [OF q, of "b_addr c", symmetric] by blast
qed

lemma neighbours:
  assumes "distinct (map b_addr (us @ p # c # vs))"
  shows "prev_buf (b_addr c) (us @ p # c # vs) = Some p"
    and "next_buf (b_addr c) (us @ p # c # vs) = (case vs of [] \<Rightarrow> None | n # _ \<Rightarrow> Some n)"
    and "list_del (b_addr c) (us @ p # c # vs) = us @ p # vs"
proof -
  show "prev_buf (b_addr c) (us @ p # c # vs) = Some p"
    using assms
  proof (induction us)
    case (Cons u us)
    then show ?case by (cases us) auto
  qed simp
  show "next_buf (b_addr c) (us @ p # c # vs) = (case vs of [] \<Rightarrow> None | n # _ \<Rightarrow> Some n)"
    using assms
  proof (induction us)
    case Nil
    then show ?case by (cases vs) auto
  next
    case (Cons u us)
    then show ?case by (cases us) auto
  qed
  have f: "filter (\<lambda>b. b_addr b \<noteq> b_addr c) zs = zs" if "b_addr c \<notin> b_addr ` set zs" for zs
    using that by (induction zs) auto
  show "list_del (b_addr c) (us @ p # c # vs) = us @ p # vs"
    using f [of us] f [of vs] assms by (auto simp: list_del_def)
qed

text \<open>The two flags of the code say which pages of the header are not shared.\<close>

lemma delete_flags:
  assumes "b_data (b_addr p) \<le> b_addr c" and "\<And>n ns. vs = n # ns \<Longrightarrow> b_data (b_addr c) \<le> b_addr n"
  defines "S \<equiv> buffer_start_page (b_addr c)" and "E \<equiv> buffer_end_page (b_addr c)" and "pe \<equiv> buffer_end_page (b_addr p)"
  shows "(case (case vs of [] \<Rightarrow> None | n # _ \<Rightarrow> Some n) of None \<Rightarrow> (\<not> pe = S, \<not> (pe = S \<and> pe = E))
     | Some n \<Rightarrow> if buffer_start_page (b_addr n) = E then (if buffer_start_page (b_addr n) = S then False else \<not> pe = S, False)
                else (\<not> pe = S, \<not> (pe = S \<and> pe = E))) = (\<not> shared p vs S, \<not> shared p vs E)"
proof -
  have "pe \<le> S" using assms(1) unfolding pe_def S_def buffer_end_page_def buffer_start_page_def
    by (intro floor_mono) (simp add: b_data_def)
  moreover have "S \<le> E" unfolding S_def E_def by (rule header_pages_order)
  moreover have "E \<le> buffer_start_page (b_addr n)" if "vs = n # ns" for n ns
    using assms(2) [OF that] unfolding E_def buffer_end_page_def buffer_start_page_def by (intro floor_mono) (simp add: b_data_def)
  ultimately show ?thesis
    by (cases vs) (fastforce simp: shared_def simp flip: pe_def)+
qed

text \<open>The range it passes on covers exactly them.\<close>

lemma delete_range:
  assumes "page_aligned q" and "fs \<or> fe" and "S = E \<Longrightarrow> fs = fe"
    and "S = buffer_start_page a" and "E = buffer_end_page a"
  shows "(if fs then S else E) \<le> q \<and> q < (if fe then E else S) + PAGE_SIZE \<longleftrightarrow> (q = S \<and> fs) \<or> (q = E \<and> fe)"
proof -
  have al: "page_aligned S" "page_aligned E" by (simp_all add: assms(4,5) buffer_start_page_def buffer_end_page_def)
  show ?thesis
    using assms(2,3) header_pages_order(2) [of a] aligned_less [OF al(1) assms(1)] aligned_less [OF al(2) assms(1)]
      aligned_less [OF assms(1) al(1)] aligned_less [OF assms(1) al(2)]
    unfolding assms(4,5) [symmetric] by (auto simp: PAGE_SIZE_def)
qed

lemma pages_ok_cong:
  assumes "pages_ok s" and "buf_base s' = buf_base s" and "buf_len s' = buf_len s" and "length (pages s') = length (pages s)"
    and "\<And>p. is_page s p \<Longrightarrow> page_aligned p \<Longrightarrow> page_at s' p = Some (needed (area_end s) (buffers s') p)"
  shows "pages_ok s'"
  using assms is_page_aligned [OF assms(1)] by (auto simp: pages_ok_def is_page_def area_end_def)

lemma page_at_buffers [simp]: "page_at (s\<lparr>buffers := l\<rparr>) q = page_at s q"
  by (simp add: page_at_def page_index_def Let_def)

lemma minus_buffers: "buffers (pages_minus P s) = buffers s"
  by (simp add: pages_minus_def)

text \<open>Releasing a range of pages that the new list \<open>l\<close> does not need.\<close>

lemma release_range:
  assumes ok: "pages_ok s" and on: "lo < hi \<Longrightarrow> on_page s lo \<and> on_page s hi"
    and need: "\<And>q. page_aligned q \<Longrightarrow> needed (area_end s) l q \<longleftrightarrow> needed (area_end s) (buffers s) q \<and> \<not> (lo \<le> q \<and> q < hi)"
    and old: "\<And>q. page_aligned q \<Longrightarrow> lo \<le> q \<Longrightarrow> q < hi \<Longrightarrow> needed (area_end s) (buffers s) q"
  shows "\<exists>ps. map_option fst (binder_update_page_range pf (s\<lparr>buffers := l\<rparr>) False lo hi False) = Some (s\<lparr>buffers := l, pages := ps\<rparr>)
    \<and> pages_ok (s\<lparr>buffers := l, pages := ps\<rparr>)"
proof -
  let ?s1 = "s\<lparr>buffers := l\<rparr>"
  have pa: "page_at ?s1 q = Some (needed (area_end s) (buffers s) q)" "page_aligned q" if "is_page s q" for q
    using ok that is_page_aligned [OF ok that] by (auto simp: pages_ok_def)
  have ip: "is_page ?s1 q = is_page s q" "on_page ?s1 q = on_page s q" for q by (simp_all add: is_page_def on_page_def)
  have "map_option fst (binder_update_page_range pf ?s1 False lo hi False) = Some (pages_minus (\<lambda>q. lo \<le> q \<and> q < hi) ?s1)"
    by (rule update_pages_free) (use on pa old ip in auto)
  moreover have "pages_ok (pages_minus (\<lambda>q. lo \<le> q \<and> q < hi) ?s1)"
  proof (rule pages_ok_cong [OF ok])
    show "page_at (pages_minus (\<lambda>q. lo \<le> q \<and> q < hi) ?s1) q
        = Some (needed (area_end s) (buffers (pages_minus (\<lambda>q. lo \<le> q \<and> q < hi) ?s1)) q)" if "is_page s q" "page_aligned q" for q
      using need [OF that(2)] pa(1) [OF that(1)] page_at_minus [of ?s1 q] that(1) ip by (simp add: minus_buffers)
  qed (simp_all add: pages_minus_def)
  ultimately show ?thesis by (auto simp: pages_minus_def)
qed

lemma delete_free_ok:
  assumes ok: "pages_ok s" and l: "buffers s = us @ p # c # vs" and sp: "spaced (area_end s) (buffers s)"
    and base: "nxt (area_end s) (buffers s) = buf_base s" and free: "b_free p" "b_free c"
  shows "\<exists>ps. binder_delete_free_buffer pf s (b_addr c) = Some (s\<lparr>buffers := us @ p # vs, pages := ps\<rparr>)
    \<and> pages_ok (s\<lparr>buffers := us @ p # vs, pages := ps\<rparr>)"
proof -
  let ?S = "buffer_start_page (b_addr c)" and ?E = "buffer_end_page (b_addr c)" and ?e = "area_end s"
  let ?fs = "\<not> shared p vs ?S" and ?fe = "\<not> shared p vs ?E" and ?s1 = "s\<lparr>buffers := us @ p # vs\<rparr>"
  define lo where "lo = (if ?fs then ?S else ?E)"
  define hi where "hi = (if ?fe then ?E else ?S) + PAGE_SIZE"
  have d: "distinct (map b_addr (us @ p # c # vs))" using spaced_distinct [OF sp] l by simp
  have sp': "b_data (b_addr p) \<le> b_addr c" "b_data (b_addr c) \<le> nxt ?e vs" "spaced ?e vs"
    using sp by (auto simp: l spaced_append)
  have bnd: "buf_base s \<le> b_addr c" "b_data (b_addr c) \<le> ?e"
    using spaced_bounds_both [OF sp, of c] base by (auto simp: l)
  have eq: "binder_delete_free_buffer pf s (b_addr c) = (if ?fs \<or> ?fe
      then map_option fst (binder_update_page_range pf ?s1 False lo hi False) else Some ?s1)"
  proof -
    have nx: "b_data (b_addr c) \<le> b_addr n" if "vs = n # ns" for n ns using sp'(2) that by simp
    show ?thesis
      by (simp only: binder_delete_free_buffer_def l Let_def neighbours [OF d] option.case delete_flags [OF sp'(1) nx]
          prod.case lo_def hi_def free not_True_eq_False if_False)
  qed
  have rng: "lo \<le> q \<and> q < hi \<longleftrightarrow> (q = ?S \<or> q = ?E) \<and> \<not> shared p vs q" if "page_aligned q" "?fs \<or> ?fe" for q
    using delete_range [OF that, of ?S ?E "b_addr c"] by (auto simp: lo_def hi_def)
  have need: "needed ?e (us @ p # vs) q \<longleftrightarrow> needed ?e (us @ p # c # vs) q \<and> \<not> ((q = ?S \<or> q = ?E) \<and> \<not> shared p vs q)"
    if "page_aligned q" for q
    using needed_without [OF sp [unfolded l] that free] .
  have old: "page_at s q = Some (needed ?e (us @ p # c # vs) q)" if "is_page s q" for q
    using ok that l by (simp add: pages_ok_def)
  have on: "on_page s lo \<and> on_page s hi"
  proof -
    have al: "page_aligned lo" "page_aligned hi" by (simp_all add: lo_def hi_def buffer_start_page_def buffer_end_page_def)
    have "buf_base s \<le> ?S"
      using ok bnd(1) floor_mono [of "buf_base s" "b_addr c"] page_floor_eq [of "buf_base s" "buf_base s"]
      by (simp add: pages_ok_def buffer_start_page_def PAGE_SIZE_def)
    moreover have "?E + PAGE_SIZE \<le> ?e"
    proof -
      have "?E < ?e" using floor_bounds(1) [of "b_addr c + hdr_size - 1"] bnd(2) by (simp add: buffer_end_page_def b_data_def)
      then show ?thesis using aligned_less [of ?E ?e] area_end_aligned [OF ok] by (simp add: buffer_end_page_def)
    qed
    ultimately show ?thesis
      using al header_pages_order(1) [of "b_addr c"]
      by (auto intro!: on_page_aligned [OF ok] simp: lo_def hi_def PAGE_SIZE_def)
  qed
  show ?thesis
  proof (cases "?fs \<or> ?fe")
    case False
    have "pages_ok ?s1"
      by (rule pages_ok_cong [OF ok]) (use False need old in auto)
    then show ?thesis unfolding eq using False by (intro exI [of _ "pages s"]) simp
  next
    case True
    have "\<exists>ps. map_option fst (binder_update_page_range pf ?s1 False lo hi False) = Some (?s1\<lparr>pages := ps\<rparr>)
        \<and> pages_ok (?s1\<lparr>pages := ps\<rparr>)"
    proof (rule release_range [OF ok])
      fix q assume q: "page_aligned q"
      show "needed ?e (us @ p # vs) q \<longleftrightarrow> needed ?e (buffers s) q \<and> \<not> (lo \<le> q \<and> q < hi)"
        using need [OF q] rng [OF q True] l by simp
      assume "lo \<le> q" "q < hi"
      then have "q = ?S \<or> q = ?E" using rng [OF q True] by blast
      then show "needed ?e (buffers s) q"
        using free header_pages [OF q, of "b_addr c"] by (simp add: l needed_append)
    qed (use on in simp)
    then show ?thesis unfolding eq using True by simp
  qed
qed

section \<open>Merging\<close>

text \<open>The free buffer \<open>c\<close> is in the list but not in the tree yet, and its neighbours may be free.\<close>

definition pending :: "bufspace \<Rightarrow> buf list \<Rightarrow> buf \<Rightarrow> buf list \<Rightarrow> bool" where
  "pending s us c vs \<longleftrightarrow> buffers s = us @ c # vs \<and> b_free c \<and> pages_ok s
     \<and> spaced (area_end s) (buffers s) \<and> nxt (area_end s) (buffers s) = buf_base s
     \<and> mset (inorder (free_buffers s)) = mset (map b_addr (filter b_free (us @ vs)))
     \<and> sorted (map (size_at s) (inorder (free_buffers s)))
     \<and> inorder (allocated_buffers s) = map b_addr (filter (\<lambda>b. \<not> b_free b) (us @ vs))"

lemma pendingD:
  assumes "pending s us c vs"
  shows "buffers s = us @ c # vs" "b_free c" "pages_ok s" "spaced (area_end s) (us @ c # vs)"
    "nxt (area_end s) (us @ c # vs) = buf_base s" "mset (inorder (free_buffers s)) = mset (map b_addr (filter b_free (us @ vs)))"
    "sorted (map (size_at s) (inorder (free_buffers s)))"
    "inorder (allocated_buffers s) = map b_addr (filter (\<lambda>b. \<not> b_free b) (us @ vs))"
    "distinct (map b_addr (us @ c # vs))"
  using assms spaced_distinct [of "area_end s" "us @ c # vs"] unfolding pending_def by metis+

text \<open>Two free buffers become one: the other is taken from the tree, and \<open>x\<close> stays of the two.\<close>

lemma erase_pending:
  assumes rb: "rb_ok rb" and d: "distinct (map b_addr (us @ p # c # vs))" and free: "b_free p" "b_free c"
    and ab: "(a = c \<and> k = p) \<or> (a = p \<and> k = c)"
    and l: "buffers s = us @ p # c # vs" "buffers s' = us @ p # vs" "area_end s' = area_end s"
    and F: "mset (inorder F) = mset (map b_addr (filter b_free (us @ a # vs)))" "sorted (map (size_at s) (inorder F))"
  shows "mset (inorder (rb_erase rb (b_addr a) F)) = mset (map b_addr (filter b_free (us @ vs)))"
    and "sorted (map (size_at s') (inorder (rb_erase rb (b_addr a) F)))"
proof -
  have fa: "b_free a" using free ab by auto
  have "distinct (map b_addr (us @ a # vs))" using d ab by auto
  then have "distinct (map b_addr (filter b_free (us @ a # vs)))" by (rule distinct_map_filter)
  then have di: "distinct (inorder F)" using F(1) mset_eq_imp_distinct_iff by blast
  have st: "set (inorder F) = set (map b_addr (filter b_free (us @ a # vs)))" using F(1) by (metis set_mset_mset)
  have "b_addr a \<in> set (inorder F)" unfolding st using fa by simp
  then have r: "inorder (rb_erase rb (b_addr a) F) = remove1 (b_addr a) (inorder F)" using rb_okD(2) [OF rb di] by blast
  show m: "mset (inorder (rb_erase rb (b_addr a) F)) = mset (map b_addr (filter b_free (us @ vs)))"
    unfolding r mset_remove1 F(1) using fa by simp
  have so: "sorted (map (size_at s) (inorder (rb_erase rb (b_addr a) F)))"
    unfolding r by (rule sorted_map_remove1 [OF F(2)])
  have d2: "distinct (map b_addr (us @ p # vs))" using d by auto
  have "size_at s x = size_at s' x" if x: "x \<in> set (inorder (rb_erase rb (b_addr a) F))" for x
  proof -
    have "x \<in> set (map b_addr (filter b_free (us @ vs)))" using x m by (metis set_mset_mset)
    then obtain b where b: "x = b_addr b" "b \<in> set us \<union> set vs" by auto
    show ?thesis
      using size_in_replace [OF refl b(2) d2, of "[c]" "area_end s"] d l b(1)
      by (simp add: size_at_def binder_buffer_size_def flip: area_end_def)
  qed
  then show "sorted (map (size_at s') (inorder (rb_erase rb (b_addr a) F)))"
    using sorted_map_cong [OF so] by blast
qed

definition drop_free :: "buf list \<Rightarrow> buf list" where
  "drop_free ys = (case ys of n # ns \<Rightarrow> if b_free n then ns else ys | [] \<Rightarrow> [])"

lemma state_frame [simp]:
  "area_end (s\<lparr>buffers := l\<rparr>) = area_end s" "area_end (s\<lparr>free_buffers := F\<rparr>) = area_end s"
  "area_end (s\<lparr>free_async_space := w\<rparr>) = area_end s" "area_end (s\<lparr>allocated_buffers := F\<rparr>) = area_end s"
  "pages_ok (s\<lparr>free_buffers := F\<rparr>) = pages_ok s" "pages_ok (s\<lparr>allocated_buffers := F\<rparr>) = pages_ok s"
  "pages_ok (s\<lparr>free_async_space := w\<rparr>) = pages_ok s"
  by (simp_all add: area_end_def pages_ok_def is_page_def page_at_def page_index_def Let_def)

lemma pages_ok_trees [simp]:
  "pages_ok (s\<lparr>buffers := l, free_buffers := F, pages := ps\<rparr>) = pages_ok (s\<lparr>buffers := l, pages := ps\<rparr>)"
  "pages_ok (s\<lparr>free_buffers := F, buffers := l, pages := ps\<rparr>) = pages_ok (s\<lparr>buffers := l, pages := ps\<rparr>)"
  by (simp_all add: area_end_def pages_ok_def is_page_def page_at_def page_index_def Let_def)

lemma spaced_without: "spaced e (us @ p # c # vs) \<Longrightarrow> spaced e (us @ p # vs)"
  by (auto simp: spaced_append b_data_def hdr_size_def)

lemma merge_next_ok:
  assumes rb: "rb_ok rb" and p: "pending s us c vs"
  shows "\<exists>F ps. merge_next rb pf s (b_addr c) = Some (s\<lparr>buffers := us @ c # drop_free vs, free_buffers := F, pages := ps\<rparr>)
    \<and> pending (s\<lparr>buffers := us @ c # drop_free vs, free_buffers := F, pages := ps\<rparr>) us c (drop_free vs)"
proof -
  note pd = pendingD [OF p]
  have nb: "next_buf (b_addr c) (us @ c # vs) = (case vs of [] \<Rightarrow> None | n # _ \<Rightarrow> Some n)"
    using pd(9)
  proof (induction us)
    case Nil
    then show ?case by (cases vs) auto
  next
    case (Cons u us)
    then show ?case by (cases us) auto
  qed
  consider (none) "drop_free vs = vs" "merge_next rb pf s (b_addr c) = Some s" | (del) n ns where "vs = n # ns" "b_free n"
    using nb by (cases "nxt_free False vs"; cases vs) (simp_all add: drop_free_def merge_next_def pd(1))
  then show ?thesis
  proof cases
    case none
    have s: "s\<lparr>buffers := us @ c # drop_free vs, free_buffers := free_buffers s, pages := pages s\<rparr> = s" using pd(1) none by simp
    show ?thesis by (intro exI [of _ "free_buffers s"] exI [of _ "pages s"]) (use none p s in simp)
  next
    case del
    define F where "F = rb_erase rb (b_addr n) (free_buffers s)"
    have vs: "drop_free vs = ns" using del by (simp add: drop_free_def)
    obtain ps where ps: "binder_delete_free_buffer pf (s\<lparr>free_buffers := F\<rparr>) (b_addr n) = Some (s\<lparr>free_buffers := F, buffers := us @ c # ns, pages := ps\<rparr>)"
      "pages_ok (s\<lparr>free_buffers := F, buffers := us @ c # ns, pages := ps\<rparr>)"
      using delete_free_ok [of "s\<lparr>free_buffers := F\<rparr>" us c n ns pf] pd(1-5) del by auto
    let ?s = "s\<lparr>buffers := us @ c # ns, free_buffers := F, pages := ps\<rparr>"
    have "merge_next rb pf s (b_addr c) = Some ?s" using ps(1) nb del by (simp add: merge_next_def pd(1) F_def)
    moreover have "mset (inorder F) = mset (map b_addr (filter b_free (us @ ns)))" "sorted (map (size_at ?s) (inorder F))"
      by (rule erase_pending [OF rb _ pd(2) del(2), of us ns n c s ?s "free_buffers s", folded F_def]; use pd del in \<open>simp add: area_end_def\<close>)+
    moreover have "spaced (area_end s) (us @ c # ns)" using spaced_without pd(4) del(1) by blast
    ultimately show ?thesis
      unfolding vs using ps(2) pd del
      by (intro exI [of _ F] exI [of _ ps]) (simp add: pending_def area_end_def [of ?s] flip: area_end_def [of s])
  qed
qed

lemma prev_first: "a \<notin> b_addr ` set bs \<Longrightarrow> prev_buf a (b # bs) = None"
  by (induction bs arbitrary: b) auto

lemma merge_prev_ok:
  assumes rb: "rb_ok rb" and p: "pending s us c vs"
  shows "\<exists>L F ps us' c'. merge_prev rb pf s (b_addr c) = Some (s\<lparr>buffers := L, free_buffers := F, pages := ps\<rparr>, b_addr c')
    \<and> pending (s\<lparr>buffers := L, free_buffers := F, pages := ps\<rparr>) us' c' vs
    \<and> (if us \<noteq> [] \<and> b_free (last us) then us = us' @ [c'] else us' = us \<and> c' = c)"
proof -
  note pd = pendingD [OF p]
  consider (first) "us = []" | (mid) us' q where "us = us' @ [q]" by (cases us rule: rev_cases) auto
  then consider (none) "\<not> (us \<noteq> [] \<and> b_free (last us))" "merge_prev rb pf s (b_addr c) = Some (s, b_addr c)"
    | (del) us' q where "us = us' @ [q]" "b_free q"
  proof cases
    case first
    then show ?thesis using that(1) prev_first [of "b_addr c" vs c] pd(9) by (simp add: merge_prev_def pd(1))
  next
    case mid
    have "prev_buf (b_addr c) (us @ c # vs) = Some q" using neighbours(1) [of us' q c vs] pd(9) mid by simp
    then show ?thesis using that mid by (cases "b_free q") (simp_all add: merge_prev_def pd(1))
  qed
  then show ?thesis
  proof cases
    case none
    show ?thesis
      by (intro exI [of _ "buffers s"] exI [of _ "free_buffers s"] exI [of _ "pages s"] exI [of _ us] exI [of _ c])
        (use none p in auto)
  next
    case del
    define F where "F = rb_erase rb (b_addr q) (free_buffers s)"
    have pb: "prev_buf (b_addr c) (us @ c # vs) = Some q" using neighbours(1) [of us' q c vs] pd(9) del by simp
    obtain ps where ps: "binder_delete_free_buffer pf s (b_addr c) = Some (s\<lparr>buffers := us' @ q # vs, pages := ps\<rparr>)"
      "pages_ok (s\<lparr>buffers := us' @ q # vs, pages := ps\<rparr>)"
      using delete_free_ok [of s us' q c vs pf] pd(1-5) del by auto
    let ?s = "s\<lparr>buffers := us' @ q # vs, free_buffers := F, pages := ps\<rparr>"
    have "merge_prev rb pf s (b_addr c) = Some (?s, b_addr q)"
      using ps(1) pb del by (simp add: merge_prev_def pd(1) F_def)
    moreover have "mset (inorder F) = mset (map b_addr (filter b_free (us' @ vs)))" "sorted (map (size_at ?s) (inorder F))"
      by (rule erase_pending [OF rb _ del(2) pd(2), of us' vs q c s ?s "free_buffers s", folded F_def]; use pd del in \<open>simp add: area_end_def\<close>)+
    moreover have "spaced (area_end s) (us' @ q # vs)" using spaced_without pd(4) del(1) by simp
    moreover have "pending ?s us' q vs"
      using calculation ps(2) pd del by (simp add: pending_def area_end_def [of ?s] flip: area_end_def [of s])
    ultimately show ?thesis
      using del by (intro exI [of _ "us' @ q # vs"] exI [of _ F] exI [of _ ps] exI [of _ us'] exI [of _ q]) simp
  qed
qed

text \<open>Linking the merged buffer into the tree.\<close>

lemma insert_pending:
  assumes rb: "rb_ok rb" and p: "pending s us c vs"
  shows "\<exists>t. binder_insert_free_buffer rb s (b_addr c) = Some (s\<lparr>free_buffers := t\<rparr>)
    \<and> trees_ok (s\<lparr>free_buffers := t\<rparr>)"
proof -
  note pd = pendingD [OF p]
  have d: "distinct (map b_addr (buffers s))" using pd(1,9) by simp
  obtain t where t: "binder_insert_free_buffer rb s (b_addr c) = Some (s\<lparr>free_buffers := t\<rparr>)"
    "mset (inorder t) = mset (map b_addr (filter b_free (buffers s)))" "sorted (map (size_at s) (inorder t))"
    using insert_free_ok [OF rb d pd(1,2,6,7)] by blast
  have "size_at (s\<lparr>free_buffers := t\<rparr>) = size_at s" by (simp add: size_at_def [abs_def] binder_buffer_size_def)
  then have "trees_ok (s\<lparr>free_buffers := t\<rparr>)" using t(2,3) pd(1,2,8) by (simp add: trees_ok_def)
  then show ?thesis using t(1) by blast
qed

section \<open>Freeing a buffer\<close>

definition merged :: "buf list \<Rightarrow> buf \<Rightarrow> buf list \<Rightarrow> buf list" where
  "merged xs b ys = (if xs \<noteq> [] \<and> b_free (last xs) then xs @ drop_free ys else xs @ b\<lparr>b_free := True\<rparr> # drop_free ys)"

lemma area_after:
  assumes "area e False (b # ys)"
  shows "area e False (drop_free ys)" "b_addr b \<le> nxt e (drop_free ys)" "\<not> nxt_free False (drop_free ys)"
    "b_data (b_addr b) \<le> nxt e (drop_free ys)"
proof -
  have "b_data (b_addr b) \<le> nxt e ys" "area e False ys" using assms b_need_ge [of b] by auto
  then show "area e False (drop_free ys)" "b_addr b \<le> nxt e (drop_free ys)" "\<not> nxt_free False (drop_free ys)"
    "b_data (b_addr b) \<le> nxt e (drop_free ys)"
    by (auto simp: drop_free_def b_data_def hdr_size_def b_need_def split: list.split)
qed

lemma area_strengthen: "area e False (xs @ [p]) \<Longrightarrow> \<not> b_free p \<Longrightarrow> area e True (xs @ [p])"
  by (induction xs) auto

lemma area_merged:
  assumes "area e False (xs @ b # ys)" and "\<not> b_free b"
  shows "area e False (merged xs b ys)"
proof -
  have a: "area (b_addr b) False xs" "area e False (b # ys)" using assms by (simp_all add: area_append)
  note t = area_after [OF a(2)]
  show ?thesis
  proof (cases xs rule: rev_cases)
    case Nil
    then show ?thesis using t by (simp add: merged_def b_need_def)
  next
    case (snoc us p)
    show ?thesis
    proof (cases "b_free p")
      case True
      then show ?thesis using a(1) t snoc by (auto simp: merged_def area_append b_need_def)
    next
      case False
      have "area (b_addr b) True xs" using area_strengthen a(1) snoc False by blast
      then show ?thesis using t snoc False by (simp add: merged_def area_append b_need_def)
    qed
  qed
qed

lemma async_merged:
  assumes "\<not> b_free b"
  shows "async_used (merged xs b ys) = async_used (xs @ b # ys) - (if b_async b then b_need b + hdr_size else 0)"
proof -
  have "async_used (drop_free ys) = async_used ys" by (auto simp: async_used_def drop_free_def split: list.split)
  then show ?thesis using assms by (auto simp: merged_def async_used_def)
qed

lemma async_freed:
  assumes "async_ok s" and "buffers s = xs @ b # ys" and "\<not> b_free b" and "b_need b \<le> buf_len s"
  shows "uint (if b_async b then free_async_space s + (request_size (b_data_size b) (b_offs_size b) + 40) else free_async_space s)
    + async_used (merged xs b ys) = buf_len s div 2"
proof (cases "b_async b")
  case True
  let ?w = "request_size (b_data_size b) (b_offs_size b)"
  have n: "uint ?w = b_need b" using assms(3) by (simp add: b_need_def)
  have len: "buf_len s \<le> 0x400000" using assms(1) by (simp add: async_ok_def SZ_4M_def)
  have bal: "uint (free_async_space s) + async_used (buffers s) = buf_len s div 2" using assms(1) by (simp add: async_ok_def)
  have ge: "0 \<le> async_used zs" for zs
    by (induction zs) (auto simp: async_used_def b_need_ge hdr_size_def)
  have le: "b_need b + hdr_size \<le> async_used (buffers s)"
    using assms(2,3) True ge [of xs] ge [of ys] by (simp add: async_used_def)
  have u: "uint (?w + 40) = b_need b + 40"
    using n assms(4) len b_need_ge [of b] by (simp add: uint_word_ariths(1))
  have "uint (free_async_space s) + (b_need b + 40) < 2 ^ 32" using bal le len by (simp add: hdr_size_def)
  then have "uint (free_async_space s + (?w + 40)) = uint (free_async_space s) + (b_need b + 40)"
    using u b_need_ge [of b] by (simp add: uint_word_ariths(1))
  then show ?thesis using True bal assms(2,3) by (simp add: async_merged hdr_size_def)
qed (use assms in \<open>simp add: async_merged async_ok_def\<close>)

text \<open>The pages between the header and the next buffer are what the code releases first.\<close>

lemma needed_freed:
  assumes sp: "spaced e (xs @ b # ys)" and e: "page_aligned e" and p: "page_aligned p" and "\<not> b_free b"
    and b1: "b_free b1" "b_addr b1 = b_addr b"
  shows "needed e (xs @ b1 # ys) p \<longleftrightarrow> needed e (xs @ b # ys) p
      \<and> \<not> (PAGE_ALIGN (b_data (b_addr b)) \<le> p \<and> p < page_floor (nxt e ys))"
    and "PAGE_ALIGN (b_data (b_addr b)) \<le> p \<Longrightarrow> p < page_floor (nxt e ys) \<Longrightarrow> needed e (xs @ b # ys) p"
proof -
  let ?in = "b_data (b_addr b) \<le> p \<and> p + PAGE_SIZE \<le> nxt e ys"
  have s: "spaced e ys" "b_data (b_addr b) \<le> nxt e ys" using sp by (auto simp: spaced_append)
  have rng: "PAGE_ALIGN (b_data (b_addr b)) \<le> p \<and> p < page_floor (nxt e ys) \<longleftrightarrow> ?in"
    using align_le [OF p] less_floor [OF p] by simp
  have no: "\<not> needed e (xs @ b1 # ys) p" if ?in
    using not_needed_inside [of e xs b1 ys p] that sp b1 by (simp add: spaced_append)
  have nx: "p < nxt e ys \<Longrightarrow> nxt e ys < p + PAGE_SIZE \<Longrightarrow> needed e ys p" by (rule needed_next [OF s(1) e p])
  have old: "needed e (xs @ b # ys) p \<longleftrightarrow> needed (b_addr b) xs p \<or> (p < nxt e ys \<and> b_addr b < p + PAGE_SIZE) \<or> needed e ys p"
    and new: "needed e (xs @ b1 # ys) p \<longleftrightarrow> needed (b_addr b) xs p \<or> (p < b_data (b_addr b) \<and> b_addr b < p + PAGE_SIZE) \<or> needed e ys p"
    using assms(4) b1 by (simp_all add: needed_append)
  have up: "?in \<Longrightarrow> needed e (xs @ b # ys) p"
    unfolding old by (auto simp: b_data_def hdr_size_def PAGE_SIZE_def)
  then show "PAGE_ALIGN (b_data (b_addr b)) \<le> p \<Longrightarrow> p < page_floor (nxt e ys) \<Longrightarrow> needed e (xs @ b # ys) p"
    using rng by blast
  show "needed e (xs @ b1 # ys) p \<longleftrightarrow> needed e (xs @ b # ys) p
      \<and> \<not> (PAGE_ALIGN (b_data (b_addr b)) \<le> p \<and> p < page_floor (nxt e ys))"
    unfolding rng
  proof (cases ?in)
    case False
    then show "needed e (xs @ b1 # ys) p \<longleftrightarrow> needed e (xs @ b # ys) p \<and> \<not> ?in"
      using nx s(2) unfolding old new by (auto simp: not_le)
  qed (use no in blast)
qed

lemma erase_allocated:
  assumes rb: "rb_ok rb" and srt: "sorted_wrt (<) (map b_addr (xs @ b # ys))" and "\<not> b_free b"
    and A: "inorder A = map b_addr (filter (\<lambda>b. \<not> b_free b) (xs @ b # ys))"
  shows "inorder (rb_erase rb (b_addr b) A) = map b_addr (filter (\<lambda>b. \<not> b_free b) (xs @ ys))"
proof -
  have d: "distinct (map b_addr (xs @ b # ys))" by (rule strict_distinct [OF srt])
  then have "distinct (inorder A)" unfolding A by (rule distinct_map_filter)
  moreover have "b_addr b \<in> set (inorder A)" unfolding A using assms(3) by simp
  ultimately have "inorder (rb_erase rb (b_addr b) A) = remove1 (b_addr b) (inorder A)" by (rule rb_okD(2) [OF rb])
  moreover have "b_addr b \<notin> set (map b_addr (filter (\<lambda>b. \<not> b_free b) xs))" using d by auto
  ultimately show ?thesis using assms(3) by (simp add: A remove1_append)
qed

text \<open>The state after the pages are released and the buffer is out of the tree of allocated ones.\<close>

lemma release_pages_ok:
  assumes rb: "rb_ok rb" and ok: "layout_ok s" "trees_ok s" "pages_ok s" and l: "buffers s = xs @ b # ys" and b: "\<not> b_free b"
  defines "b1 \<equiv> b\<lparr>b_free := True\<rparr>"
  shows "\<exists>ps r A. binder_update_page_range pf s False (PAGE_ALIGN (b_data (b_addr b))) (page_floor (nxt (area_end s) ys)) False
      = Some (s\<lparr>pages := ps\<rparr>, r)
    \<and> rb_erase rb (b_addr b) (allocated_buffers s) = A
    \<and> pending (s\<lparr>pages := ps, allocated_buffers := A, buffers := xs @ b1 # ys\<rparr>) xs b1 ys"
proof -
  let ?lo = "PAGE_ALIGN (b_data (b_addr b))" and ?e = "area_end s" and ?A = "rb_erase rb (b_addr b) (allocated_buffers s)"
  let ?hi = "page_floor (nxt ?e ys)"
  let ?P = "\<lambda>q. ?lo \<le> q \<and> q < ?hi"
  have ar: "area ?e False (xs @ b # ys)" using ok(1) l by (simp add: layout_ok_def)
  note sp = area_spaced [OF ar]
  note need = needed_freed [OF sp area_end_aligned [OF ok(3)] _ b, of _ b1]
  have b1: "b_free b1" "b_addr b1 = b_addr b" by (simp_all add: b1_def)
  have at: "page_at s q = Some (needed ?e (xs @ b # ys) q)" if "is_page s q" for q
    using ok(3) that l by (simp add: pages_ok_def)
  have on: "on_page s ?lo \<and> on_page s ?hi" if lt: "?lo < ?hi"
  proof -
    have "buf_base s \<le> b_addr b" "nxt ?e ys \<le> ?e"
      using area_bounds(1) [OF ar, of b] ok(1) l area_nxt_le [of ?e False ys] ar by (auto simp: layout_ok_def area_append)
    then show ?thesis
      using lt floor_bounds(1) [of "nxt ?e ys"] floor_bounds(3) [of "b_data (b_addr b)"]
      by (auto intro!: on_page_aligned [OF ok(3)] simp: b_data_def hdr_size_def)
  qed
  have upd: "map_option fst (binder_update_page_range pf s False ?lo ?hi False) = Some (pages_minus ?P s)"
  proof (rule update_pages_free [OF on])
    fix q assume q: "is_page s q" "?lo \<le> q" "q < ?hi"
    then show "page_at s q = Some True"
      using at [OF q(1)] need(2) [OF is_page_aligned [OF ok(3) q(1)] b1] by simp
  qed
  define ps where "ps = pages (pages_minus ?P s)"
  have pm: "pages_minus ?P s = s\<lparr>pages := ps\<rparr>" by (simp add: ps_def pages_minus_def)
  then obtain r where r: "binder_update_page_range pf s False ?lo ?hi False = Some (s\<lparr>pages := ps\<rparr>, r)"
    using upd by auto
  let ?s = "s\<lparr>pages := ps, allocated_buffers := ?A, buffers := xs @ b1 # ys\<rparr>"
  have "pages_ok ?s"
  proof (rule pages_ok_cong [OF ok(3)])
    fix q assume q: "is_page s q" "page_aligned q"
    have "page_at ?s q = page_at (pages_minus ?P s) q" unfolding pm by (simp add: page_at_def page_index_def Let_def)
    then show "page_at ?s q = Some (needed ?e (buffers ?s) q)"
      using page_at_minus [OF q(1), of ?P] at [OF q(1)] need(1) [OF q(2) b1] by simp
  qed (simp_all add: ps_def pages_minus_def)
  moreover have "size_at ?s = size_at s" by (rule size_at_cong) (simp_all add: l b1 area_end_def)
  moreover have "inorder ?A = map b_addr (filter (\<lambda>b. \<not> b_free b) (xs @ ys))"
    using erase_allocated [OF rb area_sorted [OF ar] b] ok(2) l by (simp add: trees_ok_def)
  moreover have "mset (inorder (free_buffers s)) = mset (map b_addr (filter b_free (xs @ ys)))"
    using ok(2) b l unfolding trees_ok_def by simp
  moreover have "sorted (map (size_at s) (inorder (free_buffers s)))" using ok(2) unfolding trees_ok_def by blast
  ultimately have "pending ?s xs b1 ys"
    using sp b1 ok(1) l by (simp add: pending_def spaced_append layout_ok_def area_end_def)
  then show ?thesis using r by blast
qed

text \<open>Both merges and the insertion.\<close>

lemma merge_ok:
  assumes rb: "rb_ok rb" and p: "pending s xs c ys"
  shows "\<exists>L F ps. (do { s4 \<leftarrow> merge_next rb pf s (b_addr c); (s5, a') \<leftarrow> merge_prev rb pf s4 (b_addr c);
        binder_insert_free_buffer rb s5 a' }) = Some (s\<lparr>buffers := L, free_buffers := F, pages := ps\<rparr>)
    \<and> L = (if xs \<noteq> [] \<and> b_free (last xs) then xs @ drop_free ys else xs @ c # drop_free ys)
    \<and> trees_ok (s\<lparr>buffers := L, free_buffers := F, pages := ps\<rparr>) \<and> pages_ok (s\<lparr>buffers := L, pages := ps\<rparr>)
    \<and> L \<noteq> [] \<and> nxt (area_end s) L = buf_base s"
proof -
  obtain F qs where m: "merge_next rb pf s (b_addr c) = Some (s\<lparr>buffers := xs @ c # drop_free ys, free_buffers := F, pages := qs\<rparr>)"
    and p4: "pending (s\<lparr>buffers := xs @ c # drop_free ys, free_buffers := F, pages := qs\<rparr>) xs c (drop_free ys)"
    using merge_next_ok [OF rb p, of pf] by auto
  define s4 where "s4 = s\<lparr>buffers := xs @ c # drop_free ys, free_buffers := F, pages := qs\<rparr>"
  obtain L G rs us d where n: "merge_prev rb pf s4 (b_addr c) = Some (s4\<lparr>buffers := L, free_buffers := G, pages := rs\<rparr>, b_addr d)"
    and p5: "pending (s4\<lparr>buffers := L, free_buffers := G, pages := rs\<rparr>) us d (drop_free ys)"
    and c: "if xs \<noteq> [] \<and> b_free (last xs) then xs = us @ [d] else us = xs \<and> d = c"
    using merge_prev_ok [OF rb p4 [folded s4_def], of pf] by blast
  define s5 where "s5 = s4\<lparr>buffers := L, free_buffers := G, pages := rs\<rparr>"
  note p5 = p5 [folded s5_def]
  obtain t where t: "binder_insert_free_buffer rb s5 (b_addr d) = Some (s5\<lparr>free_buffers := t\<rparr>)" "trees_ok (s5\<lparr>free_buffers := t\<rparr>)"
    using insert_pending [OF rb p5] by blast
  have L: "L = us @ d # drop_free ys" using pendingD(1) [OF p5] by (simp add: s5_def)
  have eq: "s5\<lparr>free_buffers := t\<rparr> = s\<lparr>buffers := L, free_buffers := t, pages := rs\<rparr>" by (simp add: s5_def s4_def)
  have s5: "s5 = s\<lparr>buffers := L, free_buffers := G, pages := rs\<rparr>" by (simp add: s5_def s4_def)
  have e: "area_end s5 = area_end s" "buf_base s5 = buf_base s" by (simp_all add: s5 area_end_def)
  show ?thesis
  proof (intro exI conjI)
    show "(do { s4 \<leftarrow> merge_next rb pf s (b_addr c); (s5, a') \<leftarrow> merge_prev rb pf s4 (b_addr c); binder_insert_free_buffer rb s5 a' })
        = Some (s\<lparr>buffers := L, free_buffers := t, pages := rs\<rparr>)"
      using m n t(1) unfolding eq by (simp flip: s4_def s5_def)
    show "L = (if xs \<noteq> [] \<and> b_free (last xs) then xs @ drop_free ys else xs @ c # drop_free ys)"
      using c L by (auto split: if_splits)
    show "trees_ok (s\<lparr>buffers := L, free_buffers := t, pages := rs\<rparr>)" using t(2) unfolding eq .
    show "pages_ok (s\<lparr>buffers := L, pages := rs\<rparr>)" using pendingD(3) [OF p5] unfolding s5 by simp
    show "L \<noteq> []" "nxt (area_end s) L = buf_base s" using pendingD(5) [OF p5] L e by simp_all
  qed
qed

lemma free_spec:
  assumes rb: "rb_ok rb" and ok: "bufs_ok s" and l: "buffers s = xs @ b # ys" and b: "\<not> b_free b" "\<not> b_txn b"
  shows "\<exists>s'. binder_free_buf rb pf s (b_addr b) = Some s' \<and> bufs_ok s' \<and> same_area s' s \<and> buffers s' = merged xs b ys"
proof -
  let ?e = "area_end s" and ?w = "request_size (b_data_size b) (b_offs_size b)" and ?b1 = "b\<lparr>b_free := True\<rparr>"
  let ?fa = "if b_async b then free_async_space s + (?w + 40) else free_async_space s"
  have oks: "layout_ok s" "trees_ok s" "pages_ok s" "async_ok s" using ok by (simp_all add: bufs_ok_def)
  have ar: "area ?e False (xs @ b # ys)" using oks(1) l by (simp add: layout_ok_def)
  note sp = layout_split [OF oks(1) l]
  define s1 where "s1 = s\<lparr>free_async_space := ?fa\<rparr>"
  have s1: "(if b_async b then s\<lparr>free_async_space := free_async_space s + (?w + 40)\<rparr> else s) = s1" by (simp add: s1_def)
  have ok1: "layout_ok s1" "trees_ok s1" "pages_ok s1" "buffers s1 = xs @ b # ys" "area_end s1 = ?e"
    using oks l by (simp_all add: s1_def layout_ok_def trees_ok_def size_at_def [abs_def] binder_buffer_size_def)
  obtain ps r A where r: "binder_update_page_range pf s1 False (PAGE_ALIGN (b_data (b_addr b))) (page_floor (nxt ?e ys)) False
      = Some (s1\<lparr>pages := ps\<rparr>, r)" "rb_erase rb (b_addr b) (allocated_buffers s1) = A"
    and p: "pending (s1\<lparr>pages := ps, allocated_buffers := A, buffers := xs @ ?b1 # ys\<rparr>) xs ?b1 ys"
    using release_pages_ok [OF rb ok1(1-4) b(1), of pf] ok1(5) by auto
  define s3 where "s3 = s1\<lparr>pages := ps, allocated_buffers := A, buffers := xs @ ?b1 # ys\<rparr>"
  have s3: "set_buf (b_addr b) (\<lambda>b. b\<lparr>b_free := True\<rparr>) (s1\<lparr>pages := ps, allocated_buffers := A\<rparr>) = s3"
    using set_buf_split [OF area_distinct [OF ar], of "s1\<lparr>pages := ps, allocated_buffers := A\<rparr>"] ok1(4) by (simp add: s3_def)
  have s3e: "area_end s3 = ?e" "buf_base s3 = buf_base s" by (simp_all add: s3_def s1_def area_end_def)
  obtain F qs where m: "(do { s4 \<leftarrow> merge_next rb pf s3 (b_addr b); (s5, a') \<leftarrow> merge_prev rb pf s4 (b_addr b);
        binder_insert_free_buffer rb s5 a' }) = Some (s3\<lparr>buffers := merged xs b ys, free_buffers := F, pages := qs\<rparr>)"
    and ok3: "trees_ok (s3\<lparr>buffers := merged xs b ys, free_buffers := F, pages := qs\<rparr>)"
      "pages_ok (s3\<lparr>buffers := merged xs b ys, pages := qs\<rparr>)" "merged xs b ys \<noteq> []" "nxt ?e (merged xs b ys) = buf_base s"
    using merge_ok [OF rb p [folded s3_def], of pf] unfolding merged_def [symmetric] s3e by auto
  let ?s = "s3\<lparr>buffers := merged xs b ys, free_buffers := F, pages := qs\<rparr>"
  have fr: "free_async_space ?s = ?fa" "buf_len ?s = buf_len s" "area_end ?s = ?e" "buf_base ?s = buf_base s"
    by (simp_all add: s3_def s1_def area_end_def)
  have need: "uint ?w \<le> nxt ?e ys - b_data (b_addr b)" using sp(6) b(1) by (simp add: b_need_def)
  have bnd: "buf_base s \<le> b_addr b" "b_addr b + hdr_size \<le> ?e" "nxt ?e ys \<le> ?e"
    using area_bounds [OF ar, of b] oks(1) l area_nxt_le [of ?e False ys] ar by (auto simp: layout_ok_def area_append b_data_def)
  have "binder_free_buf rb pf s (b_addr b) = Some ?s"
    using sp(1,2) b need bnd r(1) m
    by (simp add: binder_free_buf_def Let_def s1 r(2) s3 hdr_size_def area_end_def)
  moreover have "layout_ok ?s" using area_merged [OF ar b(1)] ok3(3,4) fr by (simp add: layout_ok_def)
  moreover have "async_ok ?s"
  proof -
    have "b_need b \<le> buf_len s" using need bnd b(1) by (simp add: b_need_def b_data_def hdr_size_def area_end_def)
    then show ?thesis using async_freed [OF oks(4) l b(1)] fr oks(4) by (simp add: async_ok_def)
  qed
  moreover have "same_area ?s s" by (simp add: same_area_def s3_def s1_def)
  ultimately show ?thesis using ok3(1,2) by (auto simp: bufs_ok_def)
qed

end
