(* ===== verification/KernelBufProps.thy ===== *)
theory KernelBufProps
  imports KernelBufFree
begin

text \<open>
  The life of a buffer area: from the opened, unmapped state through mapping,
  allocation, use by a transaction and freeing. The invariant holds throughout, so
  that no \<open>BUG_ON\<close> of the allocator fires.
\<close>

section \<open>Mapping\<close>

lemma vma_frame:
  "pages_ok (s\<lparr>has_vma := v\<rparr>) = pages_ok s" "pages_ok (s\<lparr>mm_ok := v\<rparr>) = pages_ok s"
  "layout_ok (s\<lparr>has_vma := v\<rparr>) = layout_ok s" "layout_ok (s\<lparr>mm_ok := v\<rparr>) = layout_ok s"
  "trees_ok (s\<lparr>has_vma := v\<rparr>) = trees_ok s" "trees_ok (s\<lparr>mm_ok := v\<rparr>) = trees_ok s"
  "async_ok (s\<lparr>has_vma := v\<rparr>) = async_ok s" "async_ok (s\<lparr>mm_ok := v\<rparr>) = async_ok s"
  by (simp_all add: pages_ok_def is_page_def page_at_def page_index_def area_end_def Let_def layout_ok_def
      trees_ok_def size_at_def [abs_def] binder_buffer_size_def async_ok_def)

text \<open>The state of a process that has not mapped its area; \<open>binder_open\<close> allocates it zeroed.\<close>

definition unmapped :: "bufspace \<Rightarrow> bool" where
  "unmapped s \<longleftrightarrow> buf_base s = 0 \<and> free_buffers s = Leaf \<and> allocated_buffers s = Leaf \<and> \<not> has_vma s"

definition zero_space :: bufspace where
  "zero_space = \<lparr>buf_base = 0, buf_len = 0, user_buffer_offset = 0, buffers = [], free_buffers = Leaf, allocated_buffers = Leaf,
     free_async_space = 0, pages = [], has_vma = False, mm_ok = False\<rparr>"

text \<open>What the memory manager gives: page-aligned, not empty, and not at address 0.\<close>

definition map_args :: "int \<Rightarrow> int \<Rightarrow> int option \<Rightarrow> bool" where
  "map_args vm_start vm_end vm_area \<longleftrightarrow> page_aligned vm_start \<and> page_aligned vm_end \<and> vm_start < vm_end
     \<and> (\<forall>a. vm_area = Some a \<longrightarrow> page_aligned a \<and> 0 < a)"

lemma map_len:
  assumes "map_args vs ve ar" and "len = (if ve - vs > SZ_4M then SZ_4M else ve - vs)"
  shows "page_aligned len" "PAGE_SIZE \<le> len" "len \<le> SZ_4M" "int (nat (len div PAGE_SIZE)) * PAGE_SIZE = len"
proof -
  obtain i j where "vs = PAGE_SIZE * i" "ve = PAGE_SIZE * j" "vs < ve"
    using assms(1) unfolding map_args_def aligned_dvd by blast
  then have ij: "vs = PAGE_SIZE * i" "ve = PAGE_SIZE * j" "i < j" by (simp_all add: PAGE_SIZE_def)
  have v: "ve - vs = PAGE_SIZE * (j - i)" using ij by (simp add: right_diff_distrib)
  show al: "page_aligned len" using v assms(2) by (auto simp: SZ_4M_def PAGE_SIZE_def)
  show ge: "PAGE_SIZE \<le> len" and "len \<le> SZ_4M" using v ij(3) assms(2) by (auto simp: SZ_4M_def PAGE_SIZE_def)
  show "int (nat (len div PAGE_SIZE)) * PAGE_SIZE = len"
    using al ge by (auto simp: PAGE_SIZE_def)
qed

lemma first_page:
  assumes al: "page_aligned a" and b: "buf_base s = a" "buf_len s = PAGE_SIZE * int (length (pages s))" "pages s \<noteq> []"
    and none: "pages s = replicate k False"
  shows "on_page s a" "on_page s (a + PAGE_SIZE)" "\<And>p. is_page s p \<Longrightarrow> page_at s p = Some False"
    and "pages_ok ((pages_plus (\<lambda>p. a \<le> p \<and> p < a + PAGE_SIZE) s)\<lparr>buffers := [new_free a]\<rparr>)"
proof -
  show "on_page s a" unfolding on_page_def using b by (intro exI [of _ 0]) simp
  show "on_page s (a + PAGE_SIZE)" unfolding on_page_def using b by (intro exI [of _ 1]) (cases "pages s"; simp)
  show no: "page_at s p = Some False" if "is_page s p" for p
    using that none by (auto simp: is_page_def page_at_def page_index_def PAGE_SIZE_def Let_def)
  let ?s = "(pages_plus (\<lambda>p. a \<le> p \<and> p < a + PAGE_SIZE) s)\<lparr>buffers := [new_free a]\<rparr>"
  have fr: "buf_base ?s = a" "buf_len ?s = buf_len s" "length (pages ?s) = length (pages s)" "area_end ?s = area_end s"
    by (simp_all add: pages_plus_def b)
  have ip: "is_page ?s p = is_page s p" for p by (simp add: is_page_def fr b)
  have "page_at ?s p = Some (needed (area_end ?s) (buffers ?s) p)" if p: "is_page s p" for p
  proof -
    have "a \<le> p" "page_aligned p" using p b(1) al by (auto simp: is_page_def PAGE_SIZE_def)
    then have "p < a + PAGE_SIZE \<longleftrightarrow> p < b_data a"
      using aligned_less [OF al, of p] by (auto simp: b_data_def hdr_size_def PAGE_SIZE_def)
    then show ?thesis using page_at_plus [OF p] no [OF p] \<open>a \<le> p\<close> by (auto simp: PAGE_SIZE_def)
  qed
  then show "pages_ok ?s" using al b(2) fr by (simp add: pages_ok_def ip)
qed

text \<open>The first free buffer covers the area.\<close>

lemma map_finish:
  assumes rb: "rb_ok rb" and p: "pages_ok s" and len: "PAGE_SIZE \<le> buf_len s" "buf_len s \<le> SZ_4M"
    and fr: "buffers s = [new_free (buf_base s)]" "free_buffers s = Leaf" "allocated_buffers s = Leaf"
  shows "\<exists>t. binder_insert_free_buffer rb s (buf_base s) = Some (s\<lparr>free_buffers := t\<rparr>)
    \<and> bufs_ok (s\<lparr>free_buffers := t, free_async_space := of_int (buf_len s div 2), has_vma := True, mm_ok := True\<rparr>)"
proof -
  have pe: "pending s [] (new_free (buf_base s)) []"
    using assms by (simp add: pending_def area_end_def b_data_def hdr_size_def PAGE_SIZE_def)
  obtain t where t: "binder_insert_free_buffer rb s (buf_base s) = Some (s\<lparr>free_buffers := t\<rparr>)" "trees_ok (s\<lparr>free_buffers := t\<rparr>)"
    using insert_pending [OF rb pe] by auto
  let ?s = "s\<lparr>free_buffers := t, free_async_space := of_int (buf_len s div 2), has_vma := True, mm_ok := True\<rparr>"
  have "uint (of_int (buf_len s div 2) :: u32) = buf_len s div 2"
    using len by (simp add: SZ_4M_def PAGE_SIZE_def unsigned_of_int take_bit_int_eq_self)
  then have "async_ok ?s" using fr len by (simp add: async_ok_def async_used_def)
  moreover have "layout_ok ?s" using fr len by (simp add: layout_ok_def area_end_def b_data_def hdr_size_def PAGE_SIZE_def)
  moreover have "trees_ok ?s" using t(2) by (simp add: trees_ok_def size_at_def [abs_def] binder_buffer_size_def)
  moreover have "pages_ok ?s" using p by (simp add: vma_frame)
  ultimately show ?thesis using t(1) by (auto simp: bufs_ok_def)
qed

lemma mmap_fresh:
  assumes rb: "rb_ok rb" and un: "unmapped s" and args: "map_args vs ve vm_area"
  shows "\<exists>s' ret. binder_mmap rb pf own forbidden vs ve vm_area pg s = Some (s', ret)
    \<and> (if ret = 0 then buf_base s' \<noteq> 0 \<and> bufs_ok s' else unmapped s')"
proof (cases "own \<and> \<not> forbidden \<and> vm_area \<noteq> None \<and> pg")
  case False
  then have "binder_mmap rb pf own forbidden vs ve vm_area pg s =
      Some (if own \<and> \<not> forbidden \<and> vm_area \<noteq> None then s\<lparr>buf_base := 0, user_buffer_offset := vs - the vm_area\<rparr> else s,
        if \<not> own then -EINVAL else if forbidden then -EPERM else -ENOMEM)"
    using un by (cases vm_area) (auto simp: binder_mmap_def unmapped_def Let_def)
  then show ?thesis using un by (auto simp: unmapped_def)
next
  case True
  then obtain a where area: "vm_area = Some a" by auto
  define len where "len = (if ve - vs > SZ_4M then SZ_4M else ve - vs)"
  note ml = map_len [OF args len_def]
  have a: "page_aligned a" "0 < a" using args area by (simp_all add: map_args_def)
  define k where "k = nat (len div PAGE_SIZE)"
  define s2 where "s2 = s\<lparr>buf_base := a, user_buffer_offset := vs - a, pages := replicate k False, buf_len := len\<rparr>"
  have "k \<noteq> 0" using ml(2,4) by (auto simp: k_def PAGE_SIZE_def)
  then have fp: "buf_base s2 = a" "buf_len s2 = PAGE_SIZE * int (length (pages s2))" "pages s2 \<noteq> []" "pages s2 = replicate k False"
    using ml(4) by (simp_all add: s2_def k_def mult.commute)
  note f = first_page [OF a(1) fp]
  define s3 where "s3 = (pages_plus (\<lambda>p. a \<le> p \<and> p < a + PAGE_SIZE) s2)\<lparr>buffers := [new_free a]\<rparr>"
  define ok where "ok \<longleftrightarrow> (\<forall>p. is_page s2 p \<and> a \<le> p \<and> p < a + PAGE_SIZE \<longrightarrow> pf p = PageMapped)"
  have upd: "binder_update_page_range pf s2 True a (a + PAGE_SIZE) True
      = Some (if ok then (pages_plus (\<lambda>p. a \<le> p \<and> p < a + PAGE_SIZE) s2, 0) else (s2, -ENOMEM))"
    using update_pages_alloc [of a "a + PAGE_SIZE" s2 pf True] f by (simp add: PAGE_SIZE_def ok_def)
  have eq: "binder_mmap rb pf own forbidden vs ve vm_area pg s = (if ok
      then do { s4 \<leftarrow> binder_insert_free_buffer rb s3 a;
                Some (s4\<lparr>free_async_space := of_int (len div 2), has_vma := True, mm_ok := True\<rparr>, 0) }
      else Some (s2\<lparr>pages := [], buf_base := 0\<rparr>, -ENOMEM))"
    using True un upd
    by (simp add: binder_mmap_def area unmapped_def Let_def s3_def flip: len_def k_def s2_def)
  show ?thesis
  proof (cases ok)
    case False
    then show ?thesis using eq un by (auto simp: unmapped_def s2_def)
  next
    case True
    have fr: "buffers s3 = [new_free (buf_base s3)]" "free_buffers s3 = Leaf" "allocated_buffers s3 = Leaf"
      "buf_base s3 = a" "buf_len s3 = len"
      using un by (simp_all add: s3_def pages_plus_def s2_def unmapped_def)
    show ?thesis
      using map_finish [OF rb f(4) [folded s3_def]] fr ml(2,3) eq True a(2) by auto
  qed
qed

section \<open>Reachable states\<close>

text \<open>
  A transaction takes the buffer it was given and lets go of it before it is freed
  (\<open>buffer->transaction\<close>).
\<close>

definition set_txn :: "int \<Rightarrow> bool \<Rightarrow> bufspace \<Rightarrow> bufspace" where
  "set_txn a v s = set_buf a (\<lambda>b. b\<lparr>b_txn := v\<rparr>) s"

inductive buf_reach :: "rb_ops \<Rightarrow> bufspace \<Rightarrow> bool" for rb where
  opened: "buf_reach rb zero_space"
| mapped: "buf_reach rb s \<Longrightarrow> map_args vs ve vm_area \<Longrightarrow> binder_mmap rb pf own forbidden vs ve vm_area pg s = Some (s', ret)
    \<Longrightarrow> buf_reach rb s'"
| allocated: "buf_reach rb s \<Longrightarrow> binder_alloc_buf rb pf s d o' async = Some (s', r) \<Longrightarrow> buf_reach rb s'"
| used: "buf_reach rb s \<Longrightarrow> buf_reach rb (set_txn a v s)"
| freed: "buf_reach rb s \<Longrightarrow> b \<in> set (buffers s) \<Longrightarrow> buf_base s \<noteq> 0 \<Longrightarrow> \<not> b_free b \<Longrightarrow> \<not> b_txn b
    \<Longrightarrow> binder_free_buf rb pf s (b_addr b) = Some s' \<Longrightarrow> buf_reach rb s'"
| closed: "buf_reach rb s \<Longrightarrow> buf_reach rb (binder_vma_close s)"

definition space_ok :: "bufspace \<Rightarrow> bool" where
  "space_ok s \<longleftrightarrow> (if buf_base s = 0 then unmapped s else bufs_ok s)"

lemma map_same:
  assumes "map f l' = map f l" and "\<And>x y. f x = f y \<Longrightarrow> g x = g y"
  shows "map g l' = map g l"
  using assms(1)
proof (induction l' arbitrary: l)
  case (Cons x xs)
  then obtain y ys where l: "l = y # ys" "f x = f y" "map f xs = map f ys" by auto
  then show ?case using assms(2) [of x y] Cons.IH [OF l(3)] by simp
qed simp

text \<open>The invariant does not look at \<open>buffer->transaction\<close>.\<close>

definition b_key :: "buf \<Rightarrow> int \<times> bool \<times> bool \<times> u32 \<times> u32" where
  "b_key b = (b_addr b, b_free b, b_async b, b_data_size b, b_offs_size b)"

lemma area_key: "map b_key l' = map b_key l \<Longrightarrow> area e f l' = area e f l"
proof (induction l' arbitrary: l)
  case (Cons x xs)
  obtain y ys where l: "l = y # ys" "b_key x = b_key y" "map b_key xs = map b_key ys" using Cons.prems by auto
  have "nxt e xs = nxt e ys" "nxt_free f xs = nxt_free f ys" using l(3) by (cases xs; cases ys; simp add: b_key_def)+
  then show ?case using Cons.IH [OF l(3)] l(1,2) by (simp add: b_key_def b_need_def)
qed simp

text \<open>Which pages are needed only depends on where the buffers are and which are free.\<close>

definition b_place :: "buf \<Rightarrow> int \<times> bool" where
  "b_place b = (b_addr b, b_free b)"

lemma needed_place: "map b_place l' = map b_place l \<Longrightarrow> needed e l' p = needed e l p"
proof (induction l' arbitrary: l)
  case (Cons x xs)
  obtain y ys where l: "l = y # ys" "b_place x = b_place y" "map b_place xs = map b_place ys" using Cons.prems by auto
  have "nxt e xs = nxt e ys" using l(3) by (cases xs; cases ys; simp add: b_place_def)
  then show ?case using Cons.IH [OF l(3)] l(1,2) by (simp add: b_place_def)
qed simp

lemma key_place: "map b_key l' = map b_key l \<Longrightarrow> map b_place l' = map b_place l"
  by (erule map_same) (simp add: b_key_def b_place_def)

lemma filter_key: "map b_key l' = map b_key l \<Longrightarrow> map b_addr (filter b_free l') = map b_addr (filter b_free l)
    \<and> map b_addr (filter (\<lambda>b. \<not> b_free b) l') = map b_addr (filter (\<lambda>b. \<not> b_free b) l)"
proof (induction l' arbitrary: l)
  case (Cons x xs)
  obtain y ys where l: "l = y # ys" "b_key x = b_key y" "map b_key xs = map b_key ys" using Cons.prems by auto
  then show ?case using Cons.IH [OF l(3)] by (simp add: b_key_def)
qed simp

lemma bufs_ok_key:
  assumes "bufs_ok s" and k: "map b_key l = map b_key (buffers s)"
  shows "bufs_ok (s\<lparr>buffers := l\<rparr>)"
proof -
  have addr: "map b_addr l = map b_addr (buffers s)" by (rule map_same [OF k]) (simp add: b_key_def)
  have nx: "nxt e l = nxt e (buffers s)" for e using addr by (cases l; cases "buffers s"; simp)
  have "map (\<lambda>b. if \<not> b_free b \<and> b_async b then b_need b + hdr_size else 0) l
      = map (\<lambda>b. if \<not> b_free b \<and> b_async b then b_need b + hdr_size else 0) (buffers s)"
    by (rule map_same [OF k]) (simp add: b_key_def b_need_def)
  then have "async_used l = async_used (buffers s)" unfolding async_used_def by (rule arg_cong)
  moreover have "size_at (s\<lparr>buffers := l\<rparr>) = size_at s" by (rule size_at_cong) (simp_all add: addr)
  moreover have "l \<noteq> [] \<longleftrightarrow> buffers s \<noteq> []" using addr by auto
  ultimately show ?thesis
    using assms(1) filter_key [OF k] area_key [OF k] needed_place [OF key_place [OF k]] nx
    unfolding bufs_ok_def layout_ok_def trees_ok_def pages_ok_def async_ok_def
    by (simp add: is_page_def)
qed

lemma set_txn_ok: "space_ok s \<Longrightarrow> space_ok (set_txn a v s)"
proof -
  assume ok: "space_ok s"
  let ?l = "map (\<lambda>b. if b_addr b = a then b\<lparr>b_txn := v\<rparr> else b) (buffers s)"
  have "map b_key ?l = map b_key (buffers s)" by (simp add: b_key_def)
  then show ?thesis
    using ok bufs_ok_key [of s ?l] by (auto simp: space_ok_def set_txn_def set_buf_def unmapped_def)
qed

lemma alloc_space:
  assumes "rb_ok rb" and "space_ok s" and "binder_alloc_buf rb pf s d o' async = Some (s', r)"
  shows "space_ok s'"
proof (cases "buf_base s = 0")
  case True
  then show ?thesis using assms by (simp add: space_ok_def unmapped_def binder_alloc_buf_def)
next
  case False
  then have "bufs_ok s" using assms(2) by (simp add: space_ok_def)
  from alloc_spec [OF assms(1) this, of pf d o' async] show ?thesis
    using assms(3) False by (auto simp: space_ok_def same_area_def)
qed

lemma mmap_space:
  assumes "rb_ok rb" and "space_ok s" and "map_args vs ve vm_area"
    and "binder_mmap rb pf own forbidden vs ve vm_area pg s = Some (s', ret)"
  shows "space_ok s'"
proof (cases "buf_base s = 0")
  case True
  then have "unmapped s" using assms(2) by (simp add: space_ok_def)
  from mmap_fresh [OF assms(1) this assms(3), of pf own forbidden pg] show ?thesis
    using assms(4) by (auto simp: space_ok_def unmapped_def split: if_splits)
next
  case False
  then have "s' = s" using assms(4) by (auto simp: binder_mmap_def Let_def split: if_splits)
  then show ?thesis using assms(2) by simp
qed

lemma free_space:
  assumes "rb_ok rb" and "space_ok s" and "b \<in> set (buffers s)" "buf_base s \<noteq> 0" "\<not> b_free b" "\<not> b_txn b"
    and "binder_free_buf rb pf s (b_addr b) = Some s'"
  shows "space_ok s'"
proof -
  obtain xs ys where l: "buffers s = xs @ b # ys" using assms(3) by (auto simp: in_set_conv_decomp)
  have ok: "bufs_ok s" using assms(2,4) by (simp add: space_ok_def)
  from free_spec [OF assms(1) ok l assms(5,6), of pf] show ?thesis
    using assms(4,7) by (auto simp: space_ok_def same_area_def)
qed

lemma close_space: "space_ok s \<Longrightarrow> space_ok (binder_vma_close s)"
  by (auto simp: space_ok_def binder_vma_close_def unmapped_def bufs_ok_def vma_frame)

lemma set_txn_bufs:
  assumes "bufs_ok s" and "buffers s = xs @ b # ys"
  shows "bufs_ok (set_txn (b_addr b) v s)" and "set_txn (b_addr b) v s = s\<lparr>buffers := xs @ b\<lparr>b_txn := v\<rparr> # ys\<rparr>"
proof -
  have d: "distinct (map b_addr (xs @ b # ys))" using layout_distinct [of s] assms by (simp add: bufs_ok_def)
  show eq: "set_txn (b_addr b) v s = s\<lparr>buffers := xs @ b\<lparr>b_txn := v\<rparr> # ys\<rparr>"
    unfolding set_txn_def by (rule set_buf_split [OF d assms(2)])
  show "bufs_ok (set_txn (b_addr b) v s)"
    unfolding eq by (rule bufs_ok_key [OF assms(1)]) (simp add: assms(2) b_key_def)
qed

text \<open>The pages and the quota are determined by the buffers.\<close>

lemma pages_determined:
  assumes "pages_ok s" and "pages_ok s'" and "same_area s' s" and "map b_place (buffers s') = map b_place (buffers s)"
  shows "pages s' = pages s"
proof (rule nth_equalityI)
  show len: "length (pages s') = length (pages s)" using assms(1-3) by (simp add: pages_ok_def same_area_def PAGE_SIZE_def)
  fix i assume i: "i < length (pages s')"
  let ?p = "buf_base s + PAGE_SIZE * int i"
  have ip: "is_page s ?p" "is_page s' ?p" using i len assms(3) by (auto simp: is_page_def same_area_def)
  have at: "page_at t (buf_base t + PAGE_SIZE * int i) = Some (pages t ! i)" if "i < length (pages t)" for t
    using that by (simp add: page_at_def page_index_def PAGE_SIZE_def Let_def)
  have "page_at s' ?p = page_at s ?p"
    using ip assms(1-3) needed_place [OF assms(4)] len by (simp add: pages_ok_def area_end_def same_area_def)
  then show "pages s' ! i = pages s ! i"
    using at [of s] at [of s'] i len assms(3) by (simp add: same_area_def)
qed

lemma area_last: "area e True (us @ [p]) \<Longrightarrow> \<not> b_free p"
  by (induction us) auto

lemma merged_given:
  assumes "area e False (xs @ b # ys)" and "b_free b"
  shows "merged xs c (rest_buf b n bs @ ys) = xs @ c\<lparr>b_free := True\<rparr> # ys"
proof -
  have a: "area (b_addr b) True xs" "\<not> nxt_free False ys" using assms by (simp_all add: area_append)
  have "\<not> (xs \<noteq> [] \<and> b_free (last xs))"
    using a(1) area_last by (cases xs rule: rev_cases) auto
  moreover have "drop_free (rest_buf b n bs @ ys) = ys"
    using a(2) by (cases ys) (auto simp: drop_free_def rest_buf_def)
  ultimately show ?thesis by (simp add: merged_def)
qed

text \<open>
  C18. Freeing a buffer right after its allocation, as the error path of a
  transaction does, restores the area: the same buffers in the same places, the
  same attached pages, and the same asynchronous quota.
\<close>

theorem alloc_free_roundtrip:
  assumes rb: "rb_ok rb" and ok: "bufs_ok s" and al: "binder_alloc_buf rb pf s d o' async = Some (s', Some a)"
  shows "\<exists>s''. binder_free_buf rb pf' (set_txn a False s') a = Some s'' \<and> bufs_ok s'' \<and> same_area s'' s
    \<and> map b_place (buffers s'') = map b_place (buffers s)
    \<and> pages s'' = pages s \<and> free_async_space s'' = free_async_space s"
proof -
  have ok': "bufs_ok s'" and sa: "same_area s' s" and fr: "allocated_from s d o' async a s'"
    using alloc_spec [OF rb ok, of pf d o' async] al by auto
  then obtain xs b ys R where l: "buffers s = xs @ b # ys" "b_free b" "a = b_addr b"
    and R: "R = rest_buf b (uint (request_size d o')) (cut (uint (request_size d o')) (size_at s a))"
    and l': "buffers s' = xs @ given b d o' async # R @ ys"
    by (auto simp: allocated_from_def)
  let ?g = "(given b d o' async)\<lparr>b_txn := False\<rparr>"
  have ar: "area (area_end s) False (xs @ b # ys)" using ok l by (simp add: bufs_ok_def layout_ok_def)
  have t: "bufs_ok (set_txn a False s')" "set_txn a False s' = s'\<lparr>buffers := xs @ ?g # R @ ys\<rparr>"
    using set_txn_bufs [OF ok' l', of False] l(3) by simp_all
  obtain s'' where s'': "binder_free_buf rb pf' (set_txn a False s') a = Some s''" "bufs_ok s''" "same_area s'' (set_txn a False s')"
    "buffers s'' = merged xs ?g (R @ ys)"
    using free_spec [OF rb t(1), of xs ?g "R @ ys" pf'] t(2) l(3) by (auto simp: given_def)
  have b'': "buffers s'' = xs @ ?g\<lparr>b_free := True\<rparr> # ys" using s''(4) merged_given [OF ar l(2)] R by simp
  have pl: "map b_place (buffers s'') = map b_place (buffers s)" using b'' l by (simp add: b_place_def given_def)
  have sa'': "same_area s'' s" using s''(3) sa t(2) by (simp add: same_area_def)
  have "async_used (buffers s'') = async_used (buffers s)" using b'' l by (simp add: async_used_def)
  then have "uint (free_async_space s'') = uint (free_async_space s)"
    using ok s''(2) sa'' by (simp add: bufs_ok_def async_ok_def same_area_def)
  then have "free_async_space s'' = free_async_space s" by (simp add: word_uint_eq_iff)
  moreover have "pages s'' = pages s" using pages_determined [OF _ _ sa'' pl] ok s''(2) by (simp add: bufs_ok_def)
  ultimately show ?thesis using s''(1,2) sa'' pl by auto
qed

text \<open>
  The lookup of a user pointer never stops the kernel and finds a buffer
  exactly if the pointer is the user address of the data of an allocated buffer;
  then it is that buffer.
\<close>

theorem buffer_lookup_exact:
  assumes "bufs_ok s"
  shows "binder_buffer_lookup s p = Some (if \<exists>b\<in>set (buffers s). \<not> b_free b \<and> p = b_data (b_addr b) + user_buffer_offset s
      then Some (p - user_buffer_offset s - hdr_size) else None)"
proof -
  have oks: "layout_ok s" "trees_ok s" using assms by (simp_all add: bufs_ok_def)
  let ?A = "map b_addr (filter (\<lambda>b. \<not> b_free b) (buffers s))"
  have A: "inorder (allocated_buffers s) = ?A" using oks(2) by (simp add: trees_ok_def)
  have "sorted_wrt (<) (map b_addr (buffers s))" using oks(1) area_sorted by (auto simp: layout_ok_def)
  then have "sorted_wrt (<) ?A" by (simp add: sorted_wrt_map sorted_wrt_filter)
  then have "sorted (inorder (allocated_buffers s))" unfolding A by (simp add: strict_sorted_iff)
  moreover have "\<forall>x\<in>set (inorder (allocated_buffers s)). \<not> is_free s x"
    unfolding A using dist_member(2) [OF layout_distinct [OF oks(1)]] by auto
  ultimately have "lookup_allocated s (p - user_buffer_offset s - hdr_size) (allocated_buffers s)
      = Some (if p - user_buffer_offset s - hdr_size \<in> set ?A then Some (p - user_buffer_offset s - hdr_size) else None)"
    using lookup_allocated_spec A by metis
  moreover have "p - user_buffer_offset s - hdr_size \<in> set ?A
      \<longleftrightarrow> (\<exists>b\<in>set (buffers s). \<not> b_free b \<and> p = b_data (b_addr b) + user_buffer_offset s)"
    by (auto simp: b_data_def)
  ultimately show ?thesis unfolding binder_buffer_lookup_def by simp
qed

text \<open>
  C8. In every state that a process reaches by mapping its area and by
  allocating, using, freeing and unmapping in any order, whatever the page allocator
  answers, the buffers tile the area without overlap, no two free buffers are
  neighbours, every allocated buffer holds its request, the two trees index exactly
  the free and the allocated buffers in order, a page is attached exactly where a
  header or allocated data lies, and the asynchronous quota is balanced.
\<close>

theorem buffer_area_invariant:
  assumes "rb_ok rb" and "buf_reach rb s"
  shows "space_ok s"
  using assms(2)
proof (induction rule: buf_reach.induct)
  case opened
  then show ?case by (simp add: space_ok_def unmapped_def zero_space_def)
next
  case (mapped s vs ve vm_area pf own forbidden pg s' ret)
  then show ?case using mmap_space [OF assms(1)] by blast
next
  case (allocated s pf d o' async s' r)
  then show ?case using alloc_space [OF assms(1)] by blast
next
  case (used s a v)
  then show ?case by (intro set_txn_ok)
next
  case (freed s b pf s')
  then show ?case using free_space [OF assms(1)] by blast
next
  case (closed s)
  then show ?case by (intro close_space)
qed

text \<open>
  C9. An allocation never stops the kernel. It fails without any effect, or it
  takes a smallest free buffer that fits, at its address, gives it to the request
  and, if more than a header and 4 bytes is left over, cuts a new free buffer off
  behind it; all other buffers stay. With pages to be had it fails only for a
  request that wraps, exceeds the asynchronous quota or fits no free buffer.
\<close>

theorem alloc_best_fit:
  assumes "rb_ok rb" and "bufs_ok s"
  shows "\<exists>s' r. binder_alloc_buf rb pf s d o' async = Some (s', r) \<and> bufs_ok s' \<and> same_area s' s
    \<and> (case r of None \<Rightarrow> s' = s | Some a \<Rightarrow> allocated_from s d o' async a s')
    \<and> (can_alloc pf s d o' async \<longrightarrow> r \<noteq> None)"
  by (rule alloc_spec [OF assms])

text \<open>
  C10. Freeing an allocated buffer that no transaction uses never stops the
  kernel: it keeps the invariant and leaves the buffer list with the buffer free
  and merged with its free neighbours.
\<close>

theorem free_merges:
  assumes "rb_ok rb" and "bufs_ok s" and "buffers s = xs @ b # ys" and "\<not> b_free b" and "\<not> b_txn b"
  shows "\<exists>s'. binder_free_buf rb pf s (b_addr b) = Some s' \<and> bufs_ok s' \<and> same_area s' s \<and> buffers s' = merged xs b ys"
  by (rule free_spec [OF assms])

lemma round_up_le: "x \<le> (x + 3) div 4 * (4 :: int)"
  by presburger

text \<open>
  C36. A successful allocation holds what was asked for: the data, rounded up to
  words, and the offsets behind it fit into the buffer, although the 32-bit sum of
  the sizes can wrap; and the buffer lies in the area.
\<close>

theorem alloc_fits:
  assumes rb: "rb_ok rb" and ok: "bufs_ok s" and al: "binder_alloc_buf rb pf s d o' async = Some (s', Some a)"
  shows "(uint d + 3) div 4 * 4 + uint o' \<le> size_at s' a \<and> buf_base s \<le> a \<and> b_data a + size_at s' a \<le> buf_base s + buf_len s"
proof -
  have w: "\<not> (request_size d o' < d \<or> request_size d o' < o')" using al by (auto simp: binder_alloc_buf_def Let_def split: if_splits)
  have sz: "uint (request_size d o') = (uint d + 3) div 4 * 4 + (uint o' + 3) div 4 * 4"
    using arg_cong [OF request_size_exact [OF w], of int] by (simp add: zdiv_int)
  have ok': "bufs_ok s'" and sa: "same_area s' s" and fr: "allocated_from s d o' async a s'"
    using alloc_spec [OF rb ok, of pf d o' async] al by auto
  then obtain xs b zs where l: "buffers s' = xs @ given b d o' async # zs" "a = b_addr b" by (auto simp: allocated_from_def)
  have lay: "layout_ok s'" using ok' by (simp add: bufs_ok_def)
  note sp = layout_split [OF lay l(1)]
  have ar: "area (area_end s') False (buffers s')" and base: "nxt (area_end s') (buffers s') = buf_base s'"
    using lay by (simp_all add: layout_ok_def)
  have "uint (request_size d o') \<le> size_at s' a" using sp(4,6) l(2) by simp
  moreover have "buf_base s' \<le> a" using area_bounds(1) [OF ar, of "given b d o' async"] base l by simp
  moreover have "nxt (area_end s') zs \<le> area_end s'" using area_nxt_le sp(6) by auto
  ultimately show ?thesis
    using sz sp(4) l(2) sa round_up_le [of "uint o'"] by (simp add: area_end_def same_area_def)
qed

section \<open>An instance\<close>

text \<open>An area of four pages with one small and one large buffer in use.\<close>

definition demo0 :: bufspace where
  "demo0 = \<lparr>buf_base = 32768, buf_len = 16384, user_buffer_offset = -28672, buffers = [new_free 32768],
     free_buffers = Node Leaf 32768 Leaf, allocated_buffers = Leaf, free_async_space = 8192,
     pages = [True, False, False, False], has_vma = True, mm_ok = True\<rparr>"

definition demo_buf :: buf where
  "demo_buf = \<lparr>b_addr = 32768, b_free = False, b_async = True, b_txn = False, b_data_size = 5001, b_offs_size = 8\<rparr>"

definition demo1 :: bufspace where
  "demo1 = \<lparr>buf_base = 32768, buf_len = 16384, user_buffer_offset = -28672, buffers = [demo_buf, new_free 37820],
     free_buffers = Node Leaf 37820 Leaf, allocated_buffers = Node Leaf 32768 Leaf, free_async_space = 3140,
     pages = [True, True, False, False], has_vma = True, mm_ok = True\<rparr>"

definition all_mapped :: page_fn where "all_mapped = (\<lambda>_. PageMapped)"

lemma demo_mmap: "binder_mmap plain_trees all_mapped True False 4096 20480 (Some 32768) True zero_space = Some (demo0, 0)"
  by code_simp

lemma demo_alloc: "binder_alloc_buf plain_trees all_mapped demo0 5001 8 True = Some (demo1, Some 32768)"
  by code_simp

lemma demo0_ok: "bufs_ok demo0"
proof -
  have "unmapped zero_space" "map_args 4096 20480 (Some 32768)"
    by (simp_all add: unmapped_def zero_space_def map_args_def PAGE_SIZE_def)
  from mmap_fresh [OF plain_trees_ok this, of all_mapped True False True] show ?thesis by (simp add: demo_mmap)
qed

lemma demo1_ok: "bufs_ok demo1"
  using alloc_spec [OF plain_trees_ok demo0_ok, of all_mapped 5001 8 True] by (simp add: demo_alloc)

lemma demo_reach: "buf_reach plain_trees demo1"
proof -
  have "map_args 4096 20480 (Some 32768)" by (simp add: map_args_def PAGE_SIZE_def)
  then have "buf_reach plain_trees demo0" by (rule buf_reach.mapped [OF buf_reach.opened _ demo_mmap])
  then show ?thesis by (rule buf_reach.allocated [OF _ demo_alloc])
qed

theorem buffer_area_invariant_witness: "buf_reach plain_trees demo1 \<and> space_ok demo1"
  using buffer_area_invariant [OF plain_trees_ok demo_reach] demo_reach by simp

theorem alloc_best_fit_witness:
  "bufs_ok demo0 \<and> can_alloc all_mapped demo0 5001 8 True \<and> allocated_from demo0 5001 8 True 32768 demo1"
proof -
  have r: "request_size 5001 8 = 5012" by code_simp
  have "size_at demo0 32768 = 16344" by code_simp
  then have "16344 \<in> free_sizes demo0" by (force simp: free_sizes_def demo0_def)
  then have "can_alloc all_mapped demo0 5001 8 True"
    unfolding can_alloc_def r by (auto simp: demo0_def all_mapped_def intro!: bexI [of _ 16344])
  then show ?thesis
    using alloc_best_fit [OF plain_trees_ok demo0_ok, of all_mapped 5001 8 True] demo0_ok by (simp add: demo_alloc)
qed

theorem free_merges_witness:
  "\<exists>s'. binder_free_buf plain_trees all_mapped demo1 32768 = Some s' \<and> bufs_ok s' \<and> map b_place (buffers s') = [(32768, True)]"
  using free_merges [OF plain_trees_ok demo1_ok, of "[]" demo_buf "[new_free 37820]" all_mapped]
  by (auto simp: demo1_def demo_buf_def merged_def drop_free_def b_place_def)

theorem alloc_free_roundtrip_witness:
  "\<exists>s''. binder_free_buf plain_trees all_mapped (set_txn 32768 False demo1) 32768 = Some s''
    \<and> pages s'' = [True, False, False, False] \<and> free_async_space s'' = 8192"
  using alloc_free_roundtrip [OF plain_trees_ok demo0_ok demo_alloc, of all_mapped] by (auto simp: demo0_def)

theorem buffer_lookup_exact_witness:
  "binder_buffer_lookup demo1 4136 = Some (Some 32768) \<and> binder_buffer_lookup demo1 4140 = Some None"
  using buffer_lookup_exact [OF demo1_ok, of 4136] buffer_lookup_exact [OF demo1_ok, of 4140]
  by (simp add: demo1_def demo_buf_def b_data_def hdr_size_def)

theorem alloc_fits_witness: "5004 + 8 \<le> size_at demo1 32768"
  using alloc_fits [OF plain_trees_ok demo0_ok demo_alloc] by simp

end
