(* ===== verification/KernelDrv.thy ===== *)
theory KernelDrv
  imports KernelBuf
begin

text \<open>
  The state of the binder driver (\<open>patches/kernel/binder.c\<close>) beyond the
  buffers, and its nodes and references (\<open>binder_get_node\<close> to
  \<open>binder_dec_ref\<close>).

  Every structure the driver allocates lives in a map from addresses; a freed one
  is not in the map, and an access to it is \<open>None\<close>. A red-black tree is a
  tree of addresses, ordered by a field of the structures. Descriptors and counts
  are integers: there are fewer structures than addresses. A work item is on at
  most one list; \<open>d_work\<close> has all lists in one sequence, each item with the
  list it is on. Every operation runs under the driver's lock. Counters that only
  the debug files show, debug ids and log lines are left out, and waking a thread
  has no effect on the state.
\<close>

section \<open>Data\<close>

datatype work = WNode int | WTxn int | WComplete int | WDeath int

datatype list_id = ThreadTodo int | ProcTodo int | NodeAsync int | Delivered int

text \<open>\<open>NO_DEATH_WORK\<close> is the 0 that \<open>kzalloc\<close> leaves in the type of a new notification.\<close>

datatype death_work = NO_DEATH_WORK | DEAD_BINDER | DEAD_BINDER_AND_CLEAR | CLEAR_DEATH_NOTIFICATION

datatype br = BR_OK | BR_ERROR | BR_NOOP | BR_SPAWN_LOOPER | BR_TRANSACTION | BR_REPLY | BR_TRANSACTION_COMPLETE
  | BR_DEAD_REPLY | BR_FAILED_REPLY | BR_INCREFS | BR_ACQUIRE | BR_RELEASE | BR_DECREFS
  | BR_DEAD_BINDER | BR_CLEAR_DEATH_NOTIFICATION_DONE

record bnode =
  nd_proc :: "int option"
  nd_refs :: "int list"
  internal_strong_refs :: int
  local_weak_refs :: int
  local_strong_refs :: int
  nd_ptr :: u32
  nd_cookie :: u32
  has_strong_ref :: bool
  pending_strong_ref :: bool
  has_weak_ref :: bool
  pending_weak_ref :: bool
  has_async_transaction :: bool
  accept_fds :: bool
  min_priority :: int

record bref =
  rf_proc :: int
  rf_node :: int
  rf_desc :: int
  rf_strong :: int
  rf_weak :: int
  rf_death :: "int option"

record bdeath =
  dt_cookie :: u32
  dt_type :: death_work

record btxn =
  tx_from :: "int option"
  tx_from_parent :: "int option"
  tx_to_proc :: "int option"
  tx_to_thread :: "int option"
  tx_to_parent :: "int option"
  need_reply :: bool
  tx_buffer :: "int option"
  tx_code :: u32
  tx_flags :: u32
  tx_priority :: int
  saved_priority :: int
  sender_euid :: u32

record bthread =
  th_proc :: int
  th_pid :: int
  lp_registered :: bool
  lp_entered :: bool
  lp_exited :: bool
  lp_invalid :: bool
  lp_waiting :: bool
  lp_need_return :: bool
  transaction_stack :: "int option"
  return_error :: br
  return_error2 :: br
  th_nice :: int

text \<open>
  The fields of \<open>struct binder_buffer\<close> that the allocator does not touch, its
  data and its offsets.
\<close>

record buf_use =
  allow_user_free :: bool
  bu_txn :: "int option"
  bu_target :: "int option"
  bu_data :: bytes
  bu_offs :: "u32 list"

record bproc =
  p_threads :: "int tree"
  p_nodes :: "int tree"
  p_refs_by_desc :: "int tree"
  p_refs_by_node :: "int tree"
  p_pid :: int
  p_euid :: u32
  p_files :: "(int \<rightharpoonup> int) option"
  p_space :: bufspace
  p_bufs :: "int \<Rightarrow> buf_use"
  max_threads :: int
  requested_threads :: int
  requested_threads_started :: int
  ready_threads :: int
  default_priority :: int

record drv =
  d_procs :: "int \<rightharpoonup> bproc"
  d_threads :: "int \<rightharpoonup> bthread"
  d_nodes :: "int \<rightharpoonup> bnode"
  d_refs :: "int \<rightharpoonup> bref"
  d_deaths :: "int \<rightharpoonup> bdeath"
  d_txns :: "int \<rightharpoonup> btxn"
  d_completes :: "int set"
  d_work :: "(list_id \<times> work) list"
  dead_nodes :: "int list"
  context_mgr_node :: "int option"
  context_mgr_uid :: "u32 option"

text \<open>\<open>kzalloc\<close>: the address of a new structure, or none when memory is short.\<close>

type_synonym kz_fn = "drv \<Rightarrow> int option"

definition put_proc :: "int \<Rightarrow> bproc \<Rightarrow> drv \<Rightarrow> drv" where "put_proc a x s = s\<lparr>d_procs := (d_procs s)(a \<mapsto> x)\<rparr>"
definition put_thread :: "int \<Rightarrow> bthread \<Rightarrow> drv \<Rightarrow> drv" where "put_thread a x s = s\<lparr>d_threads := (d_threads s)(a \<mapsto> x)\<rparr>"
definition put_node :: "int \<Rightarrow> bnode \<Rightarrow> drv \<Rightarrow> drv" where "put_node a x s = s\<lparr>d_nodes := (d_nodes s)(a \<mapsto> x)\<rparr>"
definition put_ref :: "int \<Rightarrow> bref \<Rightarrow> drv \<Rightarrow> drv" where "put_ref a x s = s\<lparr>d_refs := (d_refs s)(a \<mapsto> x)\<rparr>"
definition put_death :: "int \<Rightarrow> bdeath \<Rightarrow> drv \<Rightarrow> drv" where "put_death a x s = s\<lparr>d_deaths := (d_deaths s)(a \<mapsto> x)\<rparr>"
definition put_txn :: "int \<Rightarrow> btxn \<Rightarrow> drv \<Rightarrow> drv" where "put_txn a x s = s\<lparr>d_txns := (d_txns s)(a \<mapsto> x)\<rparr>"

section \<open>Work lists\<close>

definition work_on :: "list_id \<Rightarrow> drv \<Rightarrow> work list" where
  "work_on l s = map snd (filter (\<lambda>e. fst e = l) (d_work s))"

text \<open>\<open>!list_empty(&w->entry)\<close>\<close>

definition queued :: "work \<Rightarrow> drv \<Rightarrow> bool" where
  "queued w s \<longleftrightarrow> w \<in> set (map snd (d_work s))"

definition list_add_tail :: "work \<Rightarrow> list_id \<Rightarrow> drv \<Rightarrow> drv" where
  "list_add_tail w l s = s\<lparr>d_work := d_work s @ [(l, w)]\<rparr>"

definition list_add_head :: "work \<Rightarrow> list_id \<Rightarrow> drv \<Rightarrow> drv" where
  "list_add_head w l s = s\<lparr>d_work := (l, w) # d_work s\<rparr>"

definition list_del_work :: "work \<Rightarrow> drv \<Rightarrow> drv" where
  "list_del_work w s = s\<lparr>d_work := filter (\<lambda>e. snd e \<noteq> w) (d_work s)\<rparr>"

section \<open>Search trees\<close>

text \<open>\<open>key\<close> reads the field a tree is ordered by; \<open>None\<close> is a freed structure in the tree.\<close>

fun tree_find :: "('a :: linorder) \<Rightarrow> (int \<Rightarrow> 'a option) \<Rightarrow> int tree \<Rightarrow> int option option" where
  "tree_find k key Leaf = Some None"
| "tree_find k key (Node l x r) =
     do { kx \<leftarrow> key x;
          if k < kx then tree_find k key l else if k > kx then tree_find k key r else Some (Some x) }"

text \<open>Linking a node where the search ended; an equal key is \<open>BUG()\<close>, or was excluded by the search.\<close>

fun tree_link :: "('a :: linorder) \<Rightarrow> (int \<Rightarrow> 'a option) \<Rightarrow> int \<Rightarrow> int tree \<Rightarrow> int tree option" where
  "tree_link k key a Leaf = Some (Node Leaf a Leaf)"
| "tree_link k key a (Node l x r) =
     do { kx \<leftarrow> key x;
          if k < kx then do { l' \<leftarrow> tree_link k key a l; Some (Node l' x r) }
          else if k > kx then do { r' \<leftarrow> tree_link k key a r; Some (Node l x r') }
          else None }"

definition key_ptr :: "drv \<Rightarrow> int \<Rightarrow> u32 option" where "key_ptr s a = map_option nd_ptr (d_nodes s a)"
definition key_desc :: "drv \<Rightarrow> int \<Rightarrow> int option" where "key_desc s a = map_option rf_desc (d_refs s a)"
definition key_node :: "drv \<Rightarrow> int \<Rightarrow> int option" where "key_node s a = map_option rf_node (d_refs s a)"

section \<open>Nodes\<close>

definition binder_get_node :: "drv \<Rightarrow> int \<Rightarrow> u32 \<Rightarrow> int option option" where
  "binder_get_node s p ptr = do { pr \<leftarrow> d_procs s p; tree_find ptr (key_ptr s) (p_nodes pr) }"

definition new_node :: "int \<Rightarrow> u32 \<Rightarrow> u32 \<Rightarrow> bnode" where
  "new_node p ptr cookie = \<lparr>nd_proc = Some p, nd_refs = [], internal_strong_refs = 0, local_weak_refs = 0,
     local_strong_refs = 0, nd_ptr = ptr, nd_cookie = cookie, has_strong_ref = False, pending_strong_ref = False,
     has_weak_ref = False, pending_weak_ref = False, has_async_transaction = False, accept_fds = False, min_priority = 0\<rparr>"

definition binder_new_node :: "rb_ops \<Rightarrow> kz_fn \<Rightarrow> drv \<Rightarrow> int \<Rightarrow> u32 \<Rightarrow> u32 \<Rightarrow> (drv \<times> int option) option" where
  "binder_new_node rb kz s p ptr cookie =
     do { pr \<leftarrow> d_procs s p;
          found \<leftarrow> tree_find ptr (key_ptr s) (p_nodes pr);
          if found \<noteq> None then Some (s, None)
          else case kz s of
              None \<Rightarrow> Some (s, None)
            | Some a \<Rightarrow>
                do { t \<leftarrow> tree_link ptr (key_ptr s) a (p_nodes pr);
                     Some (put_node a (new_node p ptr cookie) (put_proc p (pr\<lparr>p_nodes := rb_insert_color rb t\<rparr>) s), Some a) } }"

definition binder_inc_node :: "drv \<Rightarrow> int \<Rightarrow> bool \<Rightarrow> bool \<Rightarrow> list_id option \<Rightarrow> (drv \<times> int) option" where
  "binder_inc_node s a strong internal target_list =
     do { n \<leftarrow> d_nodes s a;
          if strong
          then
            if internal \<and> target_list = None \<and> internal_strong_refs n = 0
               \<and> \<not> (context_mgr_node s = Some a \<and> has_strong_ref n)
            then Some (s, -EINVAL)
            else
              let s1 = put_node a (if internal then n\<lparr>internal_strong_refs := internal_strong_refs n + 1\<rparr>
                                   else n\<lparr>local_strong_refs := local_strong_refs n + 1\<rparr>) s
              in Some (case target_list of
                         None \<Rightarrow> s1
                       | Some l \<Rightarrow> if \<not> has_strong_ref n then list_add_tail (WNode a) l (list_del_work (WNode a) s1) else s1, 0)
          else
            let s1 = (if \<not> internal then put_node a (n\<lparr>local_weak_refs := local_weak_refs n + 1\<rparr>) s else s)
            in if \<not> has_weak_ref n \<and> \<not> queued (WNode a) s1
               then (case target_list of None \<Rightarrow> Some (s1, -EINVAL) | Some l \<Rightarrow> Some (list_add_tail (WNode a) l s1, 0))
               else Some (s1, 0) }"

definition free_node :: "int \<Rightarrow> drv \<Rightarrow> drv" where
  "free_node a s = s\<lparr>d_nodes := (d_nodes s)(a := None)\<rparr>"

text \<open>It always returns 0, so only the state is kept.\<close>

definition binder_dec_node :: "rb_ops \<Rightarrow> drv \<Rightarrow> int \<Rightarrow> bool \<Rightarrow> bool \<Rightarrow> drv option" where
  "binder_dec_node rb s a strong internal =
     do { n \<leftarrow> d_nodes s a;
          let n1 = (if strong then (if internal then n\<lparr>internal_strong_refs := internal_strong_refs n - 1\<rparr>
                                    else n\<lparr>local_strong_refs := local_strong_refs n - 1\<rparr>)
                    else if internal then n else n\<lparr>local_weak_refs := local_weak_refs n - 1\<rparr>);
          let s1 = put_node a n1 s;
          if (if strong then local_strong_refs n1 \<noteq> 0 \<or> internal_strong_refs n1 \<noteq> 0
              else local_weak_refs n1 \<noteq> 0 \<or> nd_refs n1 \<noteq> [])
          then Some s1
          else case nd_proc n1 of
              Some p \<Rightarrow>
                if has_strong_ref n1 \<or> has_weak_ref n1
                then Some (if queued (WNode a) s1 then s1 else list_add_tail (WNode a) (ProcTodo p) s1)
                else if nd_refs n1 = [] \<and> local_strong_refs n1 = 0 \<and> local_weak_refs n1 = 0
                then do { pr \<leftarrow> d_procs s1 p;
                          Some (free_node a (put_proc p (pr\<lparr>p_nodes := rb_erase rb a (p_nodes pr)\<rparr>) (list_del_work (WNode a) s1))) }
                else Some s1
            | None \<Rightarrow>
                if nd_refs n1 = [] \<and> local_strong_refs n1 = 0 \<and> local_weak_refs n1 = 0
                then let s2 = list_del_work (WNode a) s1
                     in Some (free_node a (s2\<lparr>dead_nodes := remove1 a (dead_nodes s2)\<rparr>))
                else Some s1 }"

section \<open>References\<close>

definition binder_get_ref :: "drv \<Rightarrow> int \<Rightarrow> int \<Rightarrow> int option option" where
  "binder_get_ref s p desc = do { pr \<leftarrow> d_procs s p; tree_find desc (key_desc s) (p_refs_by_desc pr) }"

text \<open>The loop over the references by descriptor, from the first on.\<close>

fun next_desc :: "(int \<Rightarrow> int option) \<Rightarrow> int \<Rightarrow> int list \<Rightarrow> int option" where
  "next_desc key d [] = Some d"
| "next_desc key d (x # xs) = do { k \<leftarrow> key x; if k > d then Some d else next_desc key (k + 1) xs }"

definition binder_get_ref_for_node :: "rb_ops \<Rightarrow> kz_fn \<Rightarrow> drv \<Rightarrow> int \<Rightarrow> int \<Rightarrow> (drv \<times> int option) option" where
  "binder_get_ref_for_node rb kz s p node =
     do { pr \<leftarrow> d_procs s p;
          found \<leftarrow> tree_find node (key_node s) (p_refs_by_node pr);
          case found of
            Some r \<Rightarrow> Some (s, Some r)
          | None \<Rightarrow>
              (case kz s of
                 None \<Rightarrow> Some (s, None)
               | Some a \<Rightarrow>
                   do { tn \<leftarrow> tree_link node (key_node s) a (p_refs_by_node pr);
                        d \<leftarrow> next_desc (key_desc s) (if context_mgr_node s = Some node then 0 else 1) (inorder (p_refs_by_desc pr));
                        td \<leftarrow> tree_link d (key_desc s) a (p_refs_by_desc pr);
                        n \<leftarrow> d_nodes s node;
                        let s1 = put_proc p (pr\<lparr>p_refs_by_node := rb_insert_color rb tn, p_refs_by_desc := rb_insert_color rb td\<rparr>) s;
                        let s2 = put_ref a \<lparr>rf_proc = p, rf_node = node, rf_desc = d, rf_strong = 0, rf_weak = 0, rf_death = None\<rparr> s1;
                        Some (put_node node (n\<lparr>nd_refs := a # nd_refs n\<rparr>) s2, Some a) }) }"

definition drop_death :: "int option \<Rightarrow> drv \<Rightarrow> drv" where
  "drop_death d s = (case d of None \<Rightarrow> s
     | Some a \<Rightarrow> let s1 = list_del_work (WDeath a) s in s1\<lparr>d_deaths := (d_deaths s1)(a := None)\<rparr>)"

definition binder_delete_ref :: "rb_ops \<Rightarrow> drv \<Rightarrow> int \<Rightarrow> drv option" where
  "binder_delete_ref rb s r =
     do { rf \<leftarrow> d_refs s r;
          pr \<leftarrow> d_procs s (rf_proc rf);
          let s1 = put_proc (rf_proc rf) (pr\<lparr>p_refs_by_desc := rb_erase rb r (p_refs_by_desc pr),
                                            p_refs_by_node := rb_erase rb r (p_refs_by_node pr)\<rparr>) s;
          s2 \<leftarrow> (if rf_strong rf \<noteq> 0 then binder_dec_node rb s1 (rf_node rf) True True else Some s1);
          n \<leftarrow> d_nodes s2 (rf_node rf);
          s3 \<leftarrow> binder_dec_node rb (put_node (rf_node rf) (n\<lparr>nd_refs := remove1 r (nd_refs n)\<rparr>) s2) (rf_node rf) False True;
          let s4 = drop_death (rf_death rf) s3;
          Some (s4\<lparr>d_refs := (d_refs s4)(r := None)\<rparr>) }"

text \<open>The counts of a reference are C integers of 32 bits, which wrap.\<close>

definition wrap_int :: "int \<Rightarrow> int" where
  "wrap_int x = (x + 2147483648) mod 4294967296 - 2147483648"

definition binder_inc_ref :: "drv \<Rightarrow> int \<Rightarrow> bool \<Rightarrow> list_id option \<Rightarrow> (drv \<times> int) option" where
  "binder_inc_ref s r strong target_list =
     do { rf \<leftarrow> d_refs s r;
          if strong
          then do { (s1, ret) \<leftarrow> (if rf_strong rf = 0 then binder_inc_node s (rf_node rf) True True target_list else Some (s, 0));
                    if ret \<noteq> 0 then Some (s1, ret)
                    else Some (put_ref r (rf\<lparr>rf_strong := wrap_int (rf_strong rf + 1)\<rparr>) s1, 0) }
          else do { (s1, ret) \<leftarrow> (if rf_weak rf = 0 then binder_inc_node s (rf_node rf) False True target_list else Some (s, 0));
                    if ret \<noteq> 0 then Some (s1, ret)
                    else Some (put_ref r (rf\<lparr>rf_weak := wrap_int (rf_weak rf + 1)\<rparr>) s1, 0) } }"

definition binder_dec_ref :: "rb_ops \<Rightarrow> drv \<Rightarrow> int \<Rightarrow> bool \<Rightarrow> (drv \<times> int) option" where
  "binder_dec_ref rb s r strong =
     do { rf \<leftarrow> d_refs s r;
          if (if strong then rf_strong rf = 0 else rf_weak rf = 0) then Some (s, -EINVAL)
          else do {
            let rf1 = (if strong then rf\<lparr>rf_strong := wrap_int (rf_strong rf - 1)\<rparr> else rf\<lparr>rf_weak := wrap_int (rf_weak rf - 1)\<rparr>);
            s1 \<leftarrow> (if strong \<and> rf_strong rf1 = 0 then binder_dec_node rb (put_ref r rf1 s) (rf_node rf) True True
                   else Some (put_ref r rf1 s));
            if rf_strong rf1 = 0 \<and> rf_weak rf1 = 0
            then do { s2 \<leftarrow> binder_delete_ref rb s1 r; Some (s2, 0) }
            else Some (s1, 0) } }"

end
