(* ===== verification/KernelTrees.thy ===== *)
theory KernelTrees
  imports KernelDrv KernelBufTrees
begin

text \<open>
  The driver's indexes. A tree ordered by a field of the structures it holds is an
  index of the set of their addresses: lookups are exact, and linking and erasing
  add and remove one address.
\<close>

definition index_of :: "(int \<Rightarrow> ('a :: linorder) option) \<Rightarrow> int set \<Rightarrow> int tree \<Rightarrow> bool" where
  "index_of key S t \<longleftrightarrow> set (inorder t) = S \<and> (\<forall>x\<in>S. key x \<noteq> None) \<and> sorted_wrt (<) (map (the \<circ> key) (inorder t))"

lemma index_node:
  "index_of key S (Node l x r) \<longleftrightarrow> (\<exists>L R. S = insert x (L \<union> R) \<and> index_of key L l \<and> index_of key R r \<and> key x \<noteq> None
     \<and> (\<forall>y\<in>L. the (key y) < the (key x)) \<and> (\<forall>y\<in>R. the (key x) < the (key y)))"
proof
  assume ix: "index_of key S (Node l x r)"
  show "\<exists>L R. S = insert x (L \<union> R) \<and> index_of key L l \<and> index_of key R r \<and> key x \<noteq> None
     \<and> (\<forall>y\<in>L. the (key y) < the (key x)) \<and> (\<forall>y\<in>R. the (key x) < the (key y))"
    by (rule exI [of _ "set (inorder l)"], rule exI [of _ "set (inorder r)"])
      (use ix in \<open>auto simp: index_of_def sorted_wrt_append\<close>)
next
  assume "\<exists>L R. S = insert x (L \<union> R) \<and> index_of key L l \<and> index_of key R r \<and> key x \<noteq> None
     \<and> (\<forall>y\<in>L. the (key y) < the (key x)) \<and> (\<forall>y\<in>R. the (key x) < the (key y))"
  then show "index_of key S (Node l x r)"
    by (auto simp: index_of_def sorted_wrt_append intro: less_trans)
qed

lemma index_nodeE:
  assumes "index_of key S (Node l x r)"
  obtains L R kx where "S = insert x (L \<union> R)" "index_of key L l" "index_of key R r" "key x = Some kx"
    "\<forall>y\<in>L. the (key y) < kx" "\<forall>y\<in>R. kx < the (key y)"
  using assms unfolding index_node by fastforce

lemma index_leaf: "index_of key S Leaf \<longleftrightarrow> S = {}"
  by (auto simp: index_of_def)

lemma index_distinct: "index_of key S t \<Longrightarrow> distinct (inorder t)"
proof -
  assume "index_of key S t"
  then have "distinct (map (the \<circ> key) (inorder t))" by (simp add: index_of_def strict_sorted_iff)
  then show ?thesis by (simp add: distinct_map)
qed

lemma index_key_inj: "index_of key S t \<Longrightarrow> x \<in> S \<Longrightarrow> y \<in> S \<Longrightarrow> key x = key y \<Longrightarrow> x = y"
proof -
  assume i: "index_of key S t" and xy: "x \<in> S" "y \<in> S" "key x = key y"
  have "distinct (map (the \<circ> key) (inorder t))" using i by (simp add: index_of_def strict_sorted_iff)
  then have "inj_on (the \<circ> key) (set (inorder t))" by (simp add: distinct_map)
  moreover have "x \<in> set (inorder t)" "y \<in> set (inorder t)" using i xy by (simp_all add: index_of_def)
  ultimately show ?thesis using xy(3) by (metis comp_apply inj_onD)
qed

text \<open>A lookup finds the one structure with the key, if there is one.\<close>

lemma tree_find_cases:
  assumes "index_of key S t"
  shows "(\<exists>x\<in>S. key x = Some k \<and> tree_find k key t = Some (Some x))
    \<or> ((\<forall>x\<in>S. key x \<noteq> Some k) \<and> tree_find k key t = Some None)"
  using assms
proof (induction t arbitrary: S)
  case Leaf
  then show ?case by (simp add: index_leaf)
next
  case (Node l x r)
  from Node.prems(1) obtain L R kx where S: "S = insert x (L \<union> R)" "index_of key L l" "index_of key R r" "key x = Some kx"
    "\<forall>y\<in>L. the (key y) < kx" "\<forall>y\<in>R. kx < the (key y)" by (rule index_nodeE)
  consider "k < kx" | "k > kx" | "k = kx" by fastforce
  then show ?case
  proof cases
    case 1
    have "\<forall>y\<in>R. key y \<noteq> Some k" using S(6) 1 by fastforce
    then show ?thesis using Node.IH(1) [OF S(2)] 1 S(1,4) by auto
  next
    case 2
    have "\<forall>y\<in>L. key y \<noteq> Some k" using S(5) 2 by fastforce
    then show ?thesis using Node.IH(2) [OF S(3)] 2 S(1,4) by auto
  next
    case 3
    then show ?thesis using S(1,4) by auto
  qed
qed

lemma index_cong:
  assumes "index_of key S t" and "\<And>x. x \<in> S \<Longrightarrow> key' x = key x"
  shows "index_of key' S t"
proof -
  have "map (the \<circ> key') (inorder t) = map (the \<circ> key) (inorder t)"
    using assms by (auto simp: index_of_def)
  then show ?thesis using assms unfolding index_of_def by metis
qed

lemma tree_link_index:
  assumes "index_of key S t" and "\<forall>x\<in>S. key x \<noteq> Some k" and "a \<notin> S" and key': "key' = key(a \<mapsto> k)"
  shows "\<exists>t'. tree_link k key a t = Some t' \<and> index_of key' (insert a S) t'"
  using assms(1-3)
proof (induction t arbitrary: S)
  case Leaf
  then show ?case by (simp add: index_leaf index_of_def key')
next
  case (Node l x r)
  from Node.prems(1) obtain L R kx where S: "S = insert x (L \<union> R)" "index_of key L l" "index_of key R r" "key x = Some kx"
    "\<forall>y\<in>L. the (key y) < kx" "\<forall>y\<in>R. kx < the (key y)" by (rule index_nodeE)
  have out: "a \<noteq> x" "a \<notin> L" "a \<notin> R" "k \<noteq> kx" using Node.prems(2,3) S(1,4) by auto
  have k': "key' x = Some kx" "key' a = Some k" "\<And>y. y \<noteq> a \<Longrightarrow> key' y = key y" using out S(4) by (simp_all add: key')
  have lr: "\<forall>y\<in>L. the (key' y) < kx" "\<forall>y\<in>R. kx < the (key' y)" using S(5,6) out k'(3) by metis+
  have il: "index_of key' L l" "index_of key' R r" using index_cong [OF S(2)] index_cong [OF S(3)] k'(3) out by metis+
  consider "k < kx" | "k > kx" using out(4) by fastforce
  then show ?case
  proof cases
    case 1
    obtain l' where l': "tree_link k key a l = Some l'" "index_of key' (insert a L) l'"
      using Node.IH(1) [OF S(2)] Node.prems(2) S(1) out by auto
    have "index_of key' (insert a S) (Node l' x r)"
      unfolding index_node using l'(2) il(2) lr k'(1,2) 1 S(1) by (intro exI [of _ "insert a L"] exI [of _ R]) auto
    then show ?thesis using l'(1) 1 S(4) by simp
  next
    case 2
    obtain r' where r': "tree_link k key a r = Some r'" "index_of key' (insert a R) r'"
      using Node.IH(2) [OF S(3)] Node.prems(2) S(1) out by auto
    have "index_of key' (insert a S) (Node l x r')"
      unfolding index_node using r'(2) il(1) lr k'(1,2) 2 S(1) by (intro exI [of _ L] exI [of _ "insert a R"]) auto
    then show ?thesis using r'(1) 2 S(4) by (auto dest: less_asym)
  qed
qed

lemma index_color: "rb_ok rb \<Longrightarrow> index_of key S (rb_insert_color rb t) = index_of key S t"
  using rb_okD(1) [of rb t] by (simp add: index_of_def)

lemma index_erase:
  assumes "rb_ok rb" and "index_of key S t" and "a \<in> S"
  shows "index_of key (S - {a}) (rb_erase rb a t)"
proof -
  have a: "a \<in> set (inorder t)" "set (inorder t) = S" using assms(2,3) by (auto simp: index_of_def)
  have d: "distinct (inorder t)" by (rule index_distinct [OF assms(2)])
  have i: "inorder (rb_erase rb a t) = remove1 a (inorder t)" using rb_okD(2) [OF assms(1) d a(1)] .
  have "sorted_wrt (<) (map (the \<circ> key) (remove1 a (inorder t)))"
  proof -
    have "remove1 a (inorder t) = filter (\<lambda>x. x \<noteq> a) (inorder t)" using d by (auto simp: distinct_remove1_removeAll removeAll_filter_not_eq intro: filter_cong)
    then show ?thesis using assms(2) by (auto simp: index_of_def sorted_wrt_map intro: sorted_wrt_filter)
  qed
  then show ?thesis using assms(2) d a(2) unfolding index_of_def i by auto
qed

text \<open>The loop for a new descriptor returns the smallest unused one.\<close>

lemma next_desc_least:
  assumes "sorted_wrt (<) (map (the \<circ> key) xs)" and "\<forall>x\<in>set xs. key x \<noteq> None" and "\<forall>x\<in>set xs. d \<le> the (key x) + 1"
  shows "\<exists>d'. next_desc key d xs = Some d' \<and> d \<le> d' \<and> (\<forall>x\<in>set xs. key x \<noteq> Some d')
    \<and> (\<forall>e. d \<le> e \<and> e < d' \<longrightarrow> (\<exists>x\<in>set xs. key x = Some e))"
  using assms
proof (induction xs arbitrary: d)
  case (Cons x xs)
  obtain k where k: "key x = Some k" using Cons.prems(2) by auto
  have gt: "\<forall>y\<in>set xs. k < the (key y)" using Cons.prems(1) k by auto
  show ?case
  proof (cases "k > d")
    case True
    have "\<forall>y\<in>set (x # xs). key y \<noteq> Some d" using gt True k by fastforce
    then show ?thesis using True k by simp
  next
    case False
    have dk: "d \<le> k + 1" using Cons.prems(3) k by auto
    have ge: "\<forall>x\<in>set xs. k + 1 \<le> the (key x) + 1" using gt by fastforce
    obtain d' where d': "next_desc key (k + 1) xs = Some d'" "k + 1 \<le> d'" "\<forall>x\<in>set xs. key x \<noteq> Some d'"
      "\<forall>e. k + 1 \<le> e \<and> e < d' \<longrightarrow> (\<exists>x\<in>set xs. key x = Some e)"
      using Cons.IH [OF _ _ ge] Cons.prems(1,2) by auto
    have "\<exists>x\<in>set (x # xs). key x = Some e" if "d \<le> e" "e < d'" for e
      using d'(4) that k False by (cases "k + 1 \<le> e") auto
    then show ?thesis using d' k False dk by auto
  qed
qed simp

end
