(* ===== verification/KernelGraph.thy ===== *)
theory KernelGraph
  imports KernelTrees
begin

text \<open>
  The graph of nodes and references: its invariant, and that every operation on
  nodes and references keeps it. It says that nothing that is in use has been
  freed, that the indexes are exact, and that the counts of a node are the
  references to it.
\<close>

section \<open>The invariant\<close>

definition refs_to :: "drv \<Rightarrow> int \<Rightarrow> int set" where
  "refs_to s a = {r. \<exists>rf. d_refs s r = Some rf \<and> rf_node rf = a}"

definition proc_refs :: "drv \<Rightarrow> int \<Rightarrow> int set" where
  "proc_refs s p = {r. \<exists>rf. d_refs s r = Some rf \<and> rf_proc rf = p}"

definition proc_nodes :: "drv \<Rightarrow> int \<Rightarrow> int set" where
  "proc_nodes s p = {a. \<exists>n. d_nodes s a = Some n \<and> nd_proc n = Some p}"

definition strong_in :: "drv \<Rightarrow> int \<Rightarrow> bool" where
  "strong_in s r \<longleftrightarrow> (\<exists>rf. d_refs s r = Some rf \<and> 0 < rf_strong rf)"

text \<open>
  The local counts cover an acknowledgement that is due from the owner and the
  references of the context manager itself.
\<close>

definition counts_ok :: "drv \<Rightarrow> int \<Rightarrow> bnode \<Rightarrow> bool" where
  "counts_ok s a n \<longleftrightarrow> (if nd_proc n = None then 0 \<le> local_strong_refs n \<and> 0 \<le> local_weak_refs n
     else of_bool (pending_strong_ref n) + of_bool (context_mgr_node s = Some a) \<le> local_strong_refs n
       \<and> of_bool (pending_weak_ref n) + of_bool (context_mgr_node s = Some a) \<le> local_weak_refs n)"

definition node_ok :: "drv \<Rightarrow> int \<Rightarrow> bnode \<Rightarrow> bool" where
  "node_ok s a n \<longleftrightarrow> distinct (nd_refs n) \<and> set (nd_refs n) = refs_to s a
     \<and> internal_strong_refs n = int (length (filter (strong_in s) (nd_refs n))) \<and> counts_ok s a n
     \<and> (case nd_proc n of Some p \<Rightarrow> d_procs s p \<noteq> None | None \<Rightarrow> a \<in> set (dead_nodes s) \<and> context_mgr_node s \<noteq> Some a)"

text \<open>A notification is set off by the death of the node only.\<close>

definition death_ok :: "drv \<Rightarrow> bref \<Rightarrow> bool" where
  "death_ok s rf \<longleftrightarrow> (\<forall>d. rf_death rf = Some d \<longrightarrow> (\<exists>dt. d_deaths s d = Some dt
     \<and> (dt_type dt = NO_DEATH_WORK \<and> \<not> queued (WDeath d) s
        \<or> dt_type dt = DEAD_BINDER \<and> map_option nd_proc (d_nodes s (rf_node rf)) = Some None)))"

definition ref_ok :: "drv \<Rightarrow> bref \<Rightarrow> bool" where
  "ref_ok s rf \<longleftrightarrow> d_procs s (rf_proc rf) \<noteq> None \<and> d_nodes s (rf_node rf) \<noteq> None
     \<and> 0 \<le> rf_strong rf \<and> 0 \<le> rf_weak rf \<and> 0 \<le> rf_desc rf \<and> death_ok s rf"

definition proc_ok :: "drv \<Rightarrow> int \<Rightarrow> bproc \<Rightarrow> bool" where
  "proc_ok s p pr \<longleftrightarrow> index_of (key_ptr s) (proc_nodes s p) (p_nodes pr)
     \<and> index_of (key_desc s) (proc_refs s p) (p_refs_by_desc pr) \<and> index_of (key_node s) (proc_refs s p) (p_refs_by_node pr)"

definition deaths_ok :: "drv \<Rightarrow> bool" where
  "deaths_ok s \<longleftrightarrow> (\<forall>r r' rf rf' d. d_refs s r = Some rf \<longrightarrow> d_refs s r' = Some rf' \<longrightarrow> rf_death rf = Some d
     \<longrightarrow> rf_death rf' = Some d \<longrightarrow> r = r')"

text \<open>A node is queued at its owner only, which its list tells.\<close>

fun list_proc :: "drv \<Rightarrow> list_id \<Rightarrow> int option" where
  "list_proc s (ThreadTodo t) = map_option th_proc (d_threads s t)"
| "list_proc s (ProcTodo p) = Some p"
| "list_proc s _ = None"

definition owned :: "drv \<Rightarrow> list_id \<Rightarrow> int \<Rightarrow> bool" where
  "owned s l a \<longleftrightarrow> (\<exists>n p. d_nodes s a = Some n \<and> nd_proc n = Some p \<and> list_proc s l = Some p)"

definition work_ok :: "drv \<Rightarrow> bool" where
  "work_ok s \<longleftrightarrow> distinct (map snd (d_work s)) \<and> (\<forall>l a. (l, WNode a) \<in> set (d_work s) \<longrightarrow> owned s l a)
     \<and> (\<forall>d. queued (WDeath d) s \<longrightarrow> d_deaths s d \<noteq> None)"

definition roots_ok :: "drv \<Rightarrow> bool" where
  "roots_ok s \<longleftrightarrow> (\<forall>a. context_mgr_node s = Some a \<longrightarrow> d_nodes s a \<noteq> None) \<and> distinct (dead_nodes s)
     \<and> (\<forall>a\<in>set (dead_nodes s). \<exists>n. d_nodes s a = Some n \<and> nd_proc n = None)"

definition graph_ok :: "drv \<Rightarrow> bool" where
  "graph_ok s \<longleftrightarrow> (\<forall>a n. d_nodes s a = Some n \<longrightarrow> node_ok s a n) \<and> (\<forall>r rf. d_refs s r = Some rf \<longrightarrow> ref_ok s rf)
     \<and> (\<forall>p pr. d_procs s p = Some pr \<longrightarrow> proc_ok s p pr) \<and> deaths_ok s \<and> work_ok s \<and> roots_ok s"

lemma graph_okD:
  assumes "graph_ok s"
  shows "d_nodes s a = Some n \<Longrightarrow> node_ok s a n" "d_refs s r = Some rf \<Longrightarrow> ref_ok s rf"
    "d_procs s p = Some pr \<Longrightarrow> proc_ok s p pr" "deaths_ok s" "work_ok s" "roots_ok s"
  using assms by (auto simp: graph_ok_def)

section \<open>Changing one thing\<close>

lemma put_node_simps [simp]:
  "refs_to (put_node a n s) = refs_to s" "proc_refs (put_node a n s) = proc_refs s" "strong_in (put_node a n s) = strong_in s"
  "d_procs (put_node a n s) = d_procs s" "d_refs (put_node a n s) = d_refs s" "d_deaths (put_node a n s) = d_deaths s"
  "d_work (put_node a n s) = d_work s" "dead_nodes (put_node a n s) = dead_nodes s"
  "context_mgr_node (put_node a n s) = context_mgr_node s" "key_desc (put_node a n s) = key_desc s"
  "key_node (put_node a n s) = key_node s" "d_nodes (put_node a n s) = (d_nodes s)(a \<mapsto> n)"
  "d_threads (put_node a n s) = d_threads s" "d_txns (put_node a n s) = d_txns s" "queued w (put_node a n s) = queued w s"
  by (auto simp: put_node_def refs_to_def proc_refs_def strong_in_def key_desc_def key_node_def queued_def fun_eq_iff)

lemma put_ref_simps [simp]:
  "d_procs (put_ref r x s) = d_procs s" "d_nodes (put_ref r x s) = d_nodes s" "d_deaths (put_ref r x s) = d_deaths s"
  "d_work (put_ref r x s) = d_work s" "dead_nodes (put_ref r x s) = dead_nodes s"
  "context_mgr_node (put_ref r x s) = context_mgr_node s" "d_refs (put_ref r x s) = (d_refs s)(r \<mapsto> x)"
  "d_threads (put_ref r x s) = d_threads s" "d_txns (put_ref r x s) = d_txns s" "queued w (put_ref r x s) = queued w s"
  by (auto simp: put_ref_def queued_def)

lemma put_proc_simps [simp]:
  "d_refs (put_proc p x s) = d_refs s" "d_nodes (put_proc p x s) = d_nodes s" "d_deaths (put_proc p x s) = d_deaths s"
  "d_work (put_proc p x s) = d_work s" "dead_nodes (put_proc p x s) = dead_nodes s"
  "context_mgr_node (put_proc p x s) = context_mgr_node s" "d_procs (put_proc p x s) = (d_procs s)(p \<mapsto> x)"
  "d_threads (put_proc p x s) = d_threads s" "d_txns (put_proc p x s) = d_txns s" "queued w (put_proc p x s) = queued w s"
  by (auto simp: put_proc_def queued_def)

text \<open>The invariant depends on the fields it names only.\<close>

lemma list_proc_cong: "d_threads s' = d_threads s \<Longrightarrow> list_proc s' l = list_proc s l"
  by (cases l) simp_all

lemma owned_cong:
  assumes "d_threads s' = d_threads s" and "map_option nd_proc (d_nodes s' a) = map_option nd_proc (d_nodes s a)"
  shows "owned s' l a = owned s l a"
proof -
  have "owned x l a \<longleftrightarrow> (\<exists>p. map_option nd_proc (d_nodes x a) = Some (Some p) \<and> list_proc x l = Some p)" for x
    by (auto simp: owned_def)
  then show ?thesis by (simp only: assms(2) list_proc_cong [OF assms(1)])
qed

lemma work_ok_cong:
  assumes "work_ok s" "d_threads s' = d_threads s" "d_work s' = d_work s" "\<And>d. queued (WDeath d) s \<Longrightarrow> d_deaths s d \<noteq> None \<Longrightarrow> d_deaths s' d \<noteq> None"
    and "\<And>a. queued (WNode a) s \<Longrightarrow> map_option nd_proc (d_nodes s' a) = map_option nd_proc (d_nodes s a)"
  shows "work_ok s'"
proof -
  have "owned s' l a" if e: "(l, WNode a) \<in> set (d_work s)" for l a
  proof -
    have "queued (WNode a) s" using image_eqI [OF _ e, of "WNode a" snd] by (simp add: queued_def)
    then show ?thesis using owned_cong [OF assms(2) assms(5)] assms(1) e by (simp add: work_ok_def)
  qed
  then show ?thesis using assms(1,3,4) by (simp add: work_ok_def queued_def)
qed

lemma queued_node:
  assumes "work_ok s" and "queued (WNode a) s"
  obtains l n p where "(l, WNode a) \<in> set (d_work s)" "d_nodes s a = Some n" "nd_proc n = Some p" "list_proc s l = Some p"
  using assms unfolding work_ok_def queued_def owned_def by fastforce

lemma node_ok_cong:
  assumes "d_refs s' = d_refs s" "context_mgr_node s' = context_mgr_node s" "set (dead_nodes s') = set (dead_nodes s)"
    and "\<And>p. d_procs s' p = None \<longleftrightarrow> d_procs s p = None"
  shows "node_ok s' a n = node_ok s a n"
proof -
  have "refs_to s' a = refs_to s a" "strong_in s' = strong_in s" "counts_ok s' a n = counts_ok s a n"
    using assms by (auto simp: refs_to_def strong_in_def counts_ok_def)
  then show ?thesis using assms by (auto simp: node_ok_def split: option.splits)
qed

lemma ref_ok_mono:
  assumes "ref_ok s rf" and "d_procs s (rf_proc rf) \<noteq> None \<Longrightarrow> d_procs s' (rf_proc rf) \<noteq> None"
    and "map_option nd_proc (d_nodes s' (rf_node rf)) = map_option nd_proc (d_nodes s (rf_node rf))"
    and "\<And>d. rf_death rf = Some d \<Longrightarrow> d_deaths s' d = d_deaths s d" and "\<And>d. rf_death rf = Some d \<Longrightarrow> queued (WDeath d) s' \<Longrightarrow> queued (WDeath d) s"
  shows "ref_ok s' rf"
proof -
  have "d_nodes s' (rf_node rf) \<noteq> None" using assms(1,3) by (metis option.map_disc_iff ref_ok_def)
  moreover have "death_ok s' rf" using assms(1,3-5) unfolding ref_ok_def death_ok_def by metis
  ultimately show ?thesis using assms(1,2) by (simp add: ref_ok_def)
qed

lemma graph_ok_work:
  assumes "graph_ok s" and "distinct (map snd W)" and "\<And>l a. (l, WNode a) \<in> set W \<Longrightarrow> owned s l a"
    and "\<And>d. WDeath d \<in> set (map snd W) \<Longrightarrow> queued (WDeath d) s"
  shows "graph_ok (s\<lparr>d_work := W\<rparr>)"
proof -
  let ?s = "s\<lparr>d_work := W\<rparr>"
  have "proc_nodes ?s = proc_nodes s" "proc_refs ?s = proc_refs s" "key_ptr ?s = key_ptr s" "key_desc ?s = key_desc s" "key_node ?s = key_node s"
    by (auto simp: proc_nodes_def proc_refs_def key_ptr_def key_desc_def key_node_def fun_eq_iff)
  then have "proc_ok ?s p pr = proc_ok s p pr" for p pr by (simp add: proc_ok_def)
  moreover have "owned ?s l a = owned s l a" for l a by (rule owned_cong) simp_all
  then have "work_ok ?s" using assms(2-4) graph_okD(5) [OF assms(1)] by (auto simp: work_ok_def queued_def)
  moreover have "deaths_ok ?s" "roots_ok ?s" using graph_okD [OF assms(1)] by (auto simp: deaths_ok_def roots_ok_def)
  moreover have "node_ok ?s a n = node_ok s a n" for a n by (rule node_ok_cong) simp_all
  moreover have "ref_ok ?s rf" if "ref_ok s rf" for rf
    by (rule ref_ok_mono [OF that]) (use assms(4) in \<open>auto simp: queued_def\<close>)
  ultimately show ?thesis using assms(1) by (auto simp: graph_ok_def)
qed

lemma graph_ok_put_node:
  assumes ok: "graph_ok s" and n: "d_nodes s a = Some n" and same: "nd_proc n' = nd_proc n" "nd_ptr n' = nd_ptr n"
    and n': "node_ok s a n'"
  shows "graph_ok (put_node a n' s)"
proof -
  let ?s = "put_node a n' s"
  have "proc_nodes ?s p = proc_nodes s p" for p using n same by (auto simp: proc_nodes_def)
  moreover have "key_ptr ?s = key_ptr s" using n same by (auto simp: key_ptr_def fun_eq_iff)
  ultimately have "proc_ok ?s p pr = proc_ok s p pr" for p pr by (simp add: proc_ok_def)
  moreover have "work_ok ?s" by (rule work_ok_cong [OF graph_okD(5) [OF ok]]) (use n same in auto)
  moreover have "deaths_ok ?s" "roots_ok ?s"
    using graph_okD(4,6) [OF ok] n same by (auto simp: deaths_ok_def roots_ok_def)
  moreover have "node_ok ?s b m = node_ok s b m" for b m by (rule node_ok_cong) auto
  moreover have "ref_ok ?s rf" if "ref_ok s rf" for rf by (rule ref_ok_mono [OF that]) (use n same in auto)
  ultimately show ?thesis using ok n' by (auto simp: graph_ok_def)
qed

section \<open>Freeing a node\<close>

lemma del_work_simps [simp]:
  "d_nodes (list_del_work w s) = d_nodes s" "d_refs (list_del_work w s) = d_refs s" "d_procs (list_del_work w s) = d_procs s"
  "d_deaths (list_del_work w s) = d_deaths s" "dead_nodes (list_del_work w s) = dead_nodes s"
  "context_mgr_node (list_del_work w s) = context_mgr_node s" "d_threads (list_del_work w s) = d_threads s"
  "queued v (list_del_work w s) \<longleftrightarrow> queued v s \<and> v \<noteq> w"
  by (auto simp: list_del_work_def queued_def)

lemma add_tail_simps [simp]:
  "d_nodes (list_add_tail w l s) = d_nodes s" "d_refs (list_add_tail w l s) = d_refs s" "d_procs (list_add_tail w l s) = d_procs s"
  "d_deaths (list_add_tail w l s) = d_deaths s" "dead_nodes (list_add_tail w l s) = dead_nodes s"
  "context_mgr_node (list_add_tail w l s) = context_mgr_node s" "d_threads (list_add_tail w l s) = d_threads s"
  "queued v (list_add_tail w l s) \<longleftrightarrow> queued v s \<or> v = w"
  by (auto simp: list_add_tail_def queued_def)

lemma graph_ok_del_work: "graph_ok s \<Longrightarrow> graph_ok (list_del_work w s)"
  unfolding list_del_work_def
  by (rule graph_ok_work) (auto simp: graph_ok_def work_ok_def queued_def distinct_map intro: inj_on_subset)

lemma graph_ok_add_tail:
  assumes "graph_ok s" and "\<not> queued w s" and "\<And>a. w = WNode a \<Longrightarrow> owned s l a" and "\<And>d. w \<noteq> WDeath d"
  shows "graph_ok (list_add_tail w l s)"
  unfolding list_add_tail_def
  by (rule graph_ok_work) (use assms in \<open>auto simp: graph_ok_def work_ok_def queued_def\<close>)

text \<open>A node that nothing refers to, with its index or the list of dead nodes.\<close>

lemma unreferenced:
  assumes "graph_ok s" and "d_nodes s a = Some n" and "nd_refs n = []" and "d_refs s r = Some rf"
  shows "rf_node rf \<noteq> a"
  using graph_okD(1) [OF assms(1,2)] assms(3,4) by (auto simp: node_ok_def refs_to_def)

lemma graph_ok_free_live:
  assumes rb: "rb_ok rb" and ok: "graph_ok s" and n: "d_nodes s a = Some n" "nd_refs n = []" and q: "\<not> queued (WNode a) s"
    and ctx: "context_mgr_node s \<noteq> Some a"
    and p: "nd_proc n = Some p" "d_procs s p = Some pr"
  shows "graph_ok (free_node a (put_proc p (pr\<lparr>p_nodes := rb_erase rb a (p_nodes pr)\<rparr>) s))"
proof -
  note g = graph_okD [OF ok] and none = unreferenced [OF ok n]
  define s' where "s' = free_node a (put_proc p (pr\<lparr>p_nodes := rb_erase rb a (p_nodes pr)\<rparr>) s)"
  have s': "d_nodes s' = (d_nodes s)(a := None)" "d_refs s' = d_refs s" "d_deaths s' = d_deaths s" "d_work s' = d_work s"
    "dead_nodes s' = dead_nodes s" "context_mgr_node s' = context_mgr_node s"
    "d_procs s' = (d_procs s)(p \<mapsto> pr\<lparr>p_nodes := rb_erase rb a (p_nodes pr)\<rparr>)" "d_threads s' = d_threads s"
    by (simp_all add: s'_def free_node_def)
  have sets: "proc_refs s' = proc_refs s" "key_desc s' = key_desc s" "key_node s' = key_node s" "\<And>q. proc_nodes s' q = proc_nodes s q - {a}"
    using s' by (auto simp: proc_refs_def key_desc_def key_node_def proc_nodes_def fun_eq_iff)
  have key: "key_ptr s' x = key_ptr s x" if "x \<noteq> a" for x using s' that by (simp add: key_ptr_def)
  have "proc_ok s' q x" if x: "d_procs s' q = Some x" for q x
  proof (cases "q = p")
    case True
    have ix: "index_of (key_ptr s) (proc_nodes s p) (p_nodes pr)" using g(3) [OF p(2)] by (simp add: proc_ok_def)
    have "a \<in> proc_nodes s p" using n p by (simp add: proc_nodes_def)
    then have "index_of (key_ptr s') (proc_nodes s p - {a}) (rb_erase rb a (p_nodes pr))"
      using index_cong [OF index_erase [OF rb ix]] key by blast
    then show ?thesis using g(3) [OF p(2)] x True s' sets by (auto simp: proc_ok_def)
  next
    case False
    have "proc_nodes s q - {a} = proc_nodes s q" using n p False by (auto simp: proc_nodes_def)
    moreover have "index_of (key_ptr s') (proc_nodes s q) (p_nodes x)"
      using index_cong [of "key_ptr s" "proc_nodes s q" "p_nodes x" "key_ptr s'"] g(3) [of q x] x False s' key calculation
      by (auto simp: proc_ok_def)
    ultimately show ?thesis using g(3) [of q x] x False s' sets by (auto simp: proc_ok_def)
  qed
  moreover have "work_ok s'" by (rule work_ok_cong [OF g(5)]) (use s' q in auto)
  moreover have "deaths_ok s'" "roots_ok s'" using g(4,6) ctx p n s' by (auto simp: deaths_ok_def roots_ok_def)
  moreover have "node_ok s' b m = node_ok s b m" for b m by (rule node_ok_cong) (use s' p in auto)
  moreover have "ref_ok s' rf" if "d_refs s r = Some rf" for r rf
    by (rule ref_ok_mono [OF g(2) [OF that]]) (use none [OF that] s' in \<open>auto simp: queued_def\<close>)
  ultimately show ?thesis
    unfolding s'_def [symmetric] using g(1) s' by (auto simp: graph_ok_def split: if_splits)
qed

lemma graph_ok_free_dead:
  assumes ok: "graph_ok s" and n: "d_nodes s a = Some n" "nd_refs n = []" and q: "\<not> queued (WNode a) s"
    and ctx: "context_mgr_node s \<noteq> Some a"
    and p: "nd_proc n = None"
  shows "graph_ok (free_node a (s\<lparr>dead_nodes := remove1 a (dead_nodes s)\<rparr>))"
proof -
  note g = graph_okD [OF ok] and none = unreferenced [OF ok n]
  have dead: "b \<noteq> a" if "b \<in> set (remove1 a (dead_nodes s))" for b
    using that g(6) by (auto simp: roots_ok_def)
  define s' where "s' = free_node a (s\<lparr>dead_nodes := remove1 a (dead_nodes s)\<rparr>)"
  have s': "d_nodes s' = (d_nodes s)(a := None)" "d_refs s' = d_refs s" "d_deaths s' = d_deaths s" "d_work s' = d_work s"
    "dead_nodes s' = remove1 a (dead_nodes s)" "context_mgr_node s' = context_mgr_node s" "d_procs s' = d_procs s" "d_threads s' = d_threads s"
    by (simp_all add: s'_def free_node_def)
  have "proc_refs s' = proc_refs s" "key_desc s' = key_desc s" "key_node s' = key_node s" "proc_nodes s' = proc_nodes s"
    using s' n p by (auto simp: proc_refs_def key_desc_def key_node_def proc_nodes_def fun_eq_iff)
  moreover have "index_of (key_ptr s') (proc_nodes s q) t = index_of (key_ptr s) (proc_nodes s q) t" for q t
  proof -
    have "key_ptr s' x = key_ptr s x" if "x \<in> proc_nodes s q" for x
      using that n p s' by (auto simp: key_ptr_def proc_nodes_def)
    then show ?thesis using index_cong [of _ "proc_nodes s q" t] by metis
  qed
  ultimately have "proc_ok s' q x = proc_ok s q x" for q x by (simp add: proc_ok_def)
  moreover have "work_ok s'" by (rule work_ok_cong [OF g(5)]) (use s' q in auto)
  moreover have "deaths_ok s'" "roots_ok s'" using g(4,6) ctx p n s' dead by (auto simp: deaths_ok_def roots_ok_def)
  moreover have "node_ok s' b m" if "d_nodes s b = Some m" "b \<noteq> a" for b m
  proof -
    have "refs_to s' b = refs_to s b" "strong_in s' = strong_in s" "counts_ok s' b m = counts_ok s b m"
      using s' by (auto simp: refs_to_def strong_in_def counts_ok_def)
    then show ?thesis using g(1) [OF that(1)] that(2) s' by (auto simp: node_ok_def split: option.splits)
  qed
  moreover have "ref_ok s' rf" if "d_refs s r = Some rf" for r rf
    by (rule ref_ok_mono [OF g(2) [OF that]]) (use none [OF that] s' in \<open>auto simp: queued_def\<close>)
  ultimately show ?thesis
    unfolding s'_def [symmetric] using g(3) s' by (auto simp: graph_ok_def split: if_splits)
qed

section \<open>Operations on nodes\<close>

text \<open>
  Every decrement ends in the same check: the node is told to its owner, freed, or
  kept. It is enough that the node is in order with the decremented count.
\<close>

lemma dec_node_ok:
  assumes rb: "rb_ok rb" and n: "d_nodes s a = Some n"
    and n1: "n1 = (if strong then (if internal then n\<lparr>internal_strong_refs := internal_strong_refs n - 1\<rparr>
        else n\<lparr>local_strong_refs := local_strong_refs n - 1\<rparr>) else if internal then n else n\<lparr>local_weak_refs := local_weak_refs n - 1\<rparr>)"
    and ok: "graph_ok (put_node a n1 s)"
  shows "\<exists>s'. binder_dec_node rb s a strong internal = Some s' \<and> graph_ok s' \<and> d_refs s' = d_refs s \<and> d_deaths s' = d_deaths s
    \<and> (nd_refs n \<noteq> [] \<longrightarrow> d_nodes s' = (d_nodes s)(a \<mapsto> n1))"
proof -
  let ?s1 = "put_node a n1 s"
  have n1n: "nd_refs n1 = nd_refs n" "nd_proc n1 = nd_proc n" unfolding n1 by simp_all
  have nk: "node_ok ?s1 a n1" using graph_okD(1) [OF ok] by simp
  define busy where "busy \<longleftrightarrow> (if strong then local_strong_refs n1 \<noteq> 0 \<or> internal_strong_refs n1 \<noteq> 0 else local_weak_refs n1 \<noteq> 0 \<or> nd_refs n1 \<noteq> [])"
  define unused where "unused \<longleftrightarrow> nd_refs n1 = [] \<and> local_strong_refs n1 = 0 \<and> local_weak_refs n1 = 0"
  have eq: "binder_dec_node rb s a strong internal = (if busy then Some ?s1 else case nd_proc n of
      Some p \<Rightarrow> if has_strong_ref n1 \<or> has_weak_ref n1
        then Some (if queued (WNode a) s then ?s1 else list_add_tail (WNode a) (ProcTodo p) ?s1)
        else if unused then do { pr \<leftarrow> d_procs s p;
          Some (free_node a (put_proc p (pr\<lparr>p_nodes := rb_erase rb a (p_nodes pr)\<rparr>) (list_del_work (WNode a) ?s1))) } else Some ?s1
    | None \<Rightarrow> if unused then Some (free_node a ((list_del_work (WNode a) ?s1)\<lparr>dead_nodes := remove1 a (dead_nodes s)\<rparr>)) else Some ?s1)"
    unfolding binder_dec_node_def n Option.bind.simps n1 [symmetric] Let_def busy_def unused_def
    by (simp only: n1n put_node_simps del_work_simps)
  have ok2: "graph_ok (list_del_work (WNode a) ?s1)" by (rule graph_ok_del_work [OF ok])
  have ctx: "context_mgr_node s \<noteq> Some a" if unused using nk that by (auto simp: unused_def node_ok_def counts_ok_def of_bool_def split: option.splits if_splits)
  have told: "graph_ok (if queued (WNode a) s then ?s1 else list_add_tail (WNode a) (ProcTodo p) ?s1)" if "nd_proc n = Some p" for p
    using ok that n1n by (auto intro!: graph_ok_add_tail [OF ok] simp: owned_def)
  show ?thesis
  proof (cases "busy \<or> \<not> unused")
    case True
    then show ?thesis using eq told ok by (auto split: option.splits)
  next
    case False
    then have u: unused "\<not> busy" by auto
    have "nd_refs n = []" using u n1n by (simp add: unused_def)
    moreover have "\<exists>s'. binder_dec_node rb s a strong internal = Some s' \<and> graph_ok s' \<and> d_refs s' = d_refs s \<and> d_deaths s' = d_deaths s"
    proof (cases "nd_proc n")
      case None
      then show ?thesis
        using eq u graph_ok_free_dead [OF ok2, of a n1] ctx n1n by (simp add: unused_def free_node_def)
    next
      case (Some p)
      obtain pr where pr: "d_procs s p = Some pr" using nk Some n1n by (auto simp: node_ok_def)
      have "graph_ok (free_node a (put_proc p (pr\<lparr>p_nodes := rb_erase rb a (p_nodes pr)\<rparr>) (list_del_work (WNode a) ?s1)))"
        using graph_ok_free_live [OF rb ok2, of a n1 p pr] ctx u n1n Some pr by (simp add: unused_def)
      then show ?thesis using eq u Some pr told by (auto simp: free_node_def)
    qed
    ultimately show ?thesis by simp
  qed
qed

text \<open>Local counts, kept by buffers and by objects on their way.\<close>

definition spare :: "drv \<Rightarrow> int \<Rightarrow> bool \<Rightarrow> bool" where
  "spare s a strong \<longleftrightarrow> (\<exists>n. d_nodes s a = Some n
     \<and> (if nd_proc n = None then 0 < (if strong then local_strong_refs n else local_weak_refs n)
        else if strong then of_bool (pending_strong_ref n) + of_bool (context_mgr_node s = Some a) < local_strong_refs n
        else of_bool (pending_weak_ref n) + of_bool (context_mgr_node s = Some a) < local_weak_refs n))"

lemma dec_local_ok:
  assumes rb: "rb_ok rb" and ok: "graph_ok s" and sp: "spare s a strong"
  shows "\<exists>s'. binder_dec_node rb s a strong False = Some s' \<and> graph_ok s'"
proof -
  obtain n where n: "d_nodes s a = Some n" using sp by (auto simp: spare_def)
  let ?n1 = "if strong then n\<lparr>local_strong_refs := local_strong_refs n - 1\<rparr> else n\<lparr>local_weak_refs := local_weak_refs n - 1\<rparr>"
  have "node_ok s a ?n1" using graph_okD(1) [OF ok n] sp n by (auto simp: node_ok_def spare_def counts_ok_def split: if_splits)
  then have "graph_ok (put_node a ?n1 s)" by (intro graph_ok_put_node [OF ok n]) simp_all
  then show ?thesis using dec_node_ok [OF rb n, of ?n1 strong False] by auto
qed

lemma inc_local_ok:
  assumes ok: "graph_ok s" and n: "d_nodes s a = Some n" and own: "\<And>k. l = Some k \<Longrightarrow> owned s k a"
  shows "\<exists>s' r. binder_inc_node s a strong False l = Some (s', r) \<and> graph_ok s'"
proof -
  let ?n1 = "if strong then n\<lparr>local_strong_refs := local_strong_refs n + 1\<rparr> else n\<lparr>local_weak_refs := local_weak_refs n + 1\<rparr>"
  have "node_ok s a ?n1" using graph_okD(1) [OF ok n] by (auto simp: node_ok_def counts_ok_def split: if_splits)
  then have g: "graph_ok (put_node a ?n1 s)" by (intro graph_ok_put_node [OF ok n]) simp_all
  have ow: "owned (put_node a ?n1 s) k a" "owned (list_del_work (WNode a) (put_node a ?n1 s)) k a" if "l = Some k" for k
    using own [OF that] n owned_cong [of "put_node a ?n1 s" s a k] owned_cong [of "list_del_work (WNode a) (put_node a ?n1 s)" s a k] by auto
  have "graph_ok (list_add_tail (WNode a) k (list_del_work (WNode a) (put_node a ?n1 s)))" if "l = Some k" for k
    by (rule graph_ok_add_tail [OF graph_ok_del_work [OF g]]) (use ow that in auto)
  moreover have "graph_ok (list_add_tail (WNode a) k (put_node a ?n1 s))" if "\<not> queued (WNode a) s" "l = Some k" for k
    by (rule graph_ok_add_tail [OF g]) (use ow that in auto)
  ultimately show ?thesis
    using g n by (cases strong; cases l) (auto simp: binder_inc_node_def Let_def)
qed

text \<open>What an internal increment leaves: the count goes up and the node may be told to its owner.\<close>

definition work_grown :: "drv \<Rightarrow> list_id option \<Rightarrow> int \<Rightarrow> (list_id \<times> work) list \<Rightarrow> bool" where
  "work_grown s l a W \<longleftrightarrow> (distinct (map snd (d_work s)) \<longrightarrow> distinct (map snd W))
     \<and> set W \<subseteq> {(k, WNode a) | k. l = Some k} \<union> set (d_work s)"

lemma work_grown_simps [simp]:
  "work_grown s l a (d_work s)" "work_grown s (Some k) a (filter (\<lambda>e. snd e \<noteq> WNode a) (d_work s) @ [(k, WNode a)])"
  "\<not> queued (WNode a) s \<Longrightarrow> work_grown s (Some k) a (d_work s @ [(k, WNode a)])"
  by (auto simp: work_grown_def queued_def distinct_map_filter)

lemma inc_internal_strong:
  assumes n: "d_nodes s a = Some n"
  shows "binder_inc_node s a True True l = Some (s, -EINVAL) \<or> (\<exists>W. work_grown s l a W
    \<and> binder_inc_node s a True True l = Some ((put_node a (n\<lparr>internal_strong_refs := internal_strong_refs n + 1\<rparr>) s)\<lparr>d_work := W\<rparr>, 0))"
proof -
  define s1 where "s1 = put_node a (n\<lparr>internal_strong_refs := internal_strong_refs n + 1\<rparr>) s"
  let ?bad = "l = None \<and> internal_strong_refs n = 0 \<and> \<not> (context_mgr_node s = Some a \<and> has_strong_ref n)"
  define W where "W = (case l of None \<Rightarrow> d_work s | Some k \<Rightarrow> if has_strong_ref n then d_work s
      else filter (\<lambda>e. snd e \<noteq> WNode a) (d_work s) @ [(k, WNode a)])"
  have "d_work s1 = d_work s" by (simp add: s1_def)
  then have "(case l of None \<Rightarrow> s1 | Some l \<Rightarrow> if \<not> has_strong_ref n then list_add_tail (WNode a) l (list_del_work (WNode a) s1) else s1)
      = s1\<lparr>d_work := W\<rparr>"
    by (simp add: W_def list_add_tail_def list_del_work_def split: option.split)
  then have "binder_inc_node s a True True l = (if ?bad then Some (s, -EINVAL) else Some (s1\<lparr>d_work := W\<rparr>, 0))"
    by (simp add: binder_inc_node_def n Let_def flip: s1_def)
  moreover have "work_grown s l a W" by (simp add: W_def split: option.split)
  ultimately show ?thesis unfolding s1_def by auto
qed

lemma inc_internal_weak:
  assumes n: "d_nodes s a = Some n"
  shows "binder_inc_node s a False True l = Some (s, -EINVAL)
    \<or> (\<exists>W. work_grown s l a W \<and> binder_inc_node s a False True l = Some (s\<lparr>d_work := W\<rparr>, 0))"
proof -
  have eq: "binder_inc_node s a False True l = (if has_weak_ref n \<or> queued (WNode a) s then Some (s\<lparr>d_work := d_work s\<rparr>, 0)
      else case l of None \<Rightarrow> Some (s, -EINVAL) | Some k \<Rightarrow> Some (s\<lparr>d_work := d_work s @ [(k, WNode a)]\<rparr>, 0))"
    by (simp add: binder_inc_node_def n Let_def list_add_tail_def split: option.split)
  show ?thesis
  proof (cases "has_weak_ref n \<or> queued (WNode a) s")
    case True
    have "binder_inc_node s a False True l = Some (s\<lparr>d_work := d_work s\<rparr>, 0)" unfolding eq by (simp only: if_P [OF True])
    then show ?thesis using work_grown_simps(1) by blast
  next
    case False
    then have q: "\<not> queued (WNode a) s" by blast
    show ?thesis
    proof (cases l)
      case None
      then show ?thesis unfolding eq by (simp only: if_not_P [OF False] option.case simp_thms)
    next
      case (Some k)
      then have "binder_inc_node s a False True l = Some (s\<lparr>d_work := d_work s @ [(k, WNode a)]\<rparr>, 0)"
        unfolding eq by (simp only: if_not_P [OF False] option.case)
      then show ?thesis using work_grown_simps(3) [OF q] Some by blast
    qed
  qed
qed

section \<open>Operations on references\<close>

lemma graph_ok_grown:
  assumes "graph_ok s" and "work_grown s0 l a W" and "d_work s0 = d_work s" and "\<And>k. l = Some k \<Longrightarrow> owned s k a"
  shows "graph_ok (s\<lparr>d_work := W\<rparr>)"
proof (rule graph_ok_work [OF assms(1)])
  have W: "set W \<subseteq> {(k, WNode a) | k. l = Some k} \<union> set (d_work s)" using assms(2,3) by (simp add: work_grown_def)
  show "distinct (map snd W)" using assms(2,3) graph_okD(5) [OF assms(1)] by (simp add: work_grown_def work_ok_def)
  show "owned s k b" if "(k, WNode b) \<in> set W" for k b using W that assms(4) graph_okD(5) [OF assms(1)] by (auto simp: work_ok_def)
  fix d assume "WDeath d \<in> set (map snd W)"
  then obtain k where "(k, WDeath d) \<in> set W" by auto
  then have "(k, WDeath d) \<in> set (d_work s)" using W by auto
  then show "queued (WDeath d) s" by (force simp: queued_def)
qed

lemma count_change:
  assumes "distinct xs" and "r \<in> set xs" and "\<And>x. x \<noteq> r \<Longrightarrow> Q x = P x"
  shows "int (length (filter Q xs)) = int (length (filter P xs)) + of_bool (Q r) - of_bool (P r)"
  using assms(1,2)
proof (induction xs)
  case (Cons x xs)
  show ?case
  proof (cases "x = r")
    case True
    have "Q y = P y" if "y \<in> set xs" for y using Cons.prems(1) True assms(3) [of y] that by auto
    then have "filter Q xs = filter P xs" by (intro filter_cong) auto
    then show ?thesis using True by simp
  next
    case False
    then show ?thesis using Cons assms(3) [of x] by auto
  qed
qed simp

text \<open>A reference whose counts change, with its node.\<close>

lemma graph_ok_put_ref:
  assumes ok: "graph_ok s" and rf: "d_refs s r = Some rf" "rf_proc rf' = rf_proc rf" "rf_node rf' = rf_node rf" "rf_desc rf' = rf_desc rf"
      "rf_death rf' = rf_death rf" "0 \<le> rf_strong rf'" "0 \<le> rf_weak rf'"
    and n: "d_nodes s (rf_node rf) = Some n"
    and k: "k = internal_strong_refs n + of_bool (0 < rf_strong rf') - of_bool (0 < rf_strong rf)"
  shows "graph_ok (put_node (rf_node rf) (n\<lparr>internal_strong_refs := k\<rparr>) (put_ref r rf' s))"
proof -
  let ?n = "n\<lparr>internal_strong_refs := k\<rparr>" and ?a = "rf_node rf"
  define s' where "s' = put_node ?a ?n (put_ref r rf' s)"
  note g = graph_okD [OF ok]
  have s': "d_nodes s' = (d_nodes s)(?a \<mapsto> ?n)" "d_refs s' = (d_refs s)(r \<mapsto> rf')" "d_procs s' = d_procs s" "d_deaths s' = d_deaths s"
    "d_work s' = d_work s" "dead_nodes s' = dead_nodes s" "context_mgr_node s' = context_mgr_node s" "d_threads s' = d_threads s"
    by (simp_all add: s'_def)
  have same: "refs_to s' = refs_to s" "proc_refs s' = proc_refs s" "proc_nodes s' = proc_nodes s"
    "key_ptr s' = key_ptr s" "key_desc s' = key_desc s" "key_node s' = key_node s"
    using s' rf(1-4) n by (auto simp: refs_to_def proc_refs_def proc_nodes_def key_ptr_def key_desc_def key_node_def fun_eq_iff)
  have st: "strong_in s' r = (0 < rf_strong rf')" "strong_in s r = (0 < rf_strong rf)" "\<And>x. x \<noteq> r \<Longrightarrow> strong_in s' x = strong_in s x"
    using s' rf(1) by (auto simp: strong_in_def)
  have cnt: "counts_ok s' b m = counts_ok s b m" for b m using s' by (simp add: counts_ok_def)
  have "node_ok s' b m" if m: "d_nodes s' b = Some m" for b m
  proof (cases "b = ?a")
    case True
    have nk: "node_ok s ?a n" by (rule g(1) [OF n])
    have "r \<in> set (nd_refs n)" using nk rf(1) by (auto simp: node_ok_def refs_to_def)
    then have "k = int (length (filter (strong_in s') (nd_refs n)))"
      using nk count_change [of "nd_refs n" r "strong_in s'" "strong_in s"] st k by (simp add: node_ok_def)
    then show ?thesis
      using nk m True s' same cnt by (auto simp: node_ok_def counts_ok_def split: option.splits)
  next
    case False
    have nk: "node_ok s b m" using g(1) m False s' by simp
    have "x \<noteq> r" if "x \<in> set (nd_refs m)" for x using nk that rf(1) False by (auto simp: node_ok_def refs_to_def)
    then have "filter (strong_in s') (nd_refs m) = filter (strong_in s) (nd_refs m)" using st(3) by (intro filter_cong) auto
    then show ?thesis using nk s' same cnt by (auto simp: node_ok_def split: option.splits)
  qed
  moreover have "ref_ok s' x" if x: "d_refs s' q = Some x" for q x
  proof (cases "q = r")
    case True
    have "ref_ok s' rf" by (rule ref_ok_mono [OF g(2) [OF rf(1)]]) (use s' n in \<open>auto simp: queued_def\<close>)
    then show ?thesis using x True s' rf(2-7) by (auto simp: ref_ok_def death_ok_def)
  next
    case False
    then have "ref_ok s x" using g(2) x s' by simp
    then show ?thesis by (rule ref_ok_mono) (use s' n in \<open>auto simp: queued_def\<close>)
  qed
  moreover have "proc_ok s' p pr = proc_ok s p pr" for p pr by (simp add: proc_ok_def same)
  moreover have "deaths_ok s'"
    using g(4) rf(1,5) unfolding deaths_ok_def s' by (smt (verit, best) fun_upd_apply option.inject)
  moreover have "work_ok s'" by (rule work_ok_cong [OF g(5)]) (use s' n in auto)
  moreover have "roots_ok s'" using g(6) s' n by (auto simp: roots_ok_def)
  ultimately show ?thesis unfolding s'_def [symmetric] using g(3) s' by (simp add: graph_ok_def)
qed

lemma live_node:
  assumes "graph_ok s" and "d_refs s r = Some rf"
  obtains n where "d_nodes s (rf_node rf) = Some n" "r \<in> set (nd_refs n)" "node_ok s (rf_node rf) n" "0 \<le> rf_strong rf" "0 \<le> rf_weak rf"
proof -
  have rk: "ref_ok s rf" by (rule graph_okD(2) [OF assms])
  then obtain n where n: "d_nodes s (rf_node rf) = Some n" by (auto simp: ref_ok_def)
  then have nk: "node_ok s (rf_node rf) n" using graph_okD(1) [OF assms(1)] by blast
  then have "r \<in> set (nd_refs n)" using assms(2) by (auto simp: node_ok_def refs_to_def)
  then show ?thesis using that n nk rk by (auto simp: ref_ok_def)
qed

lemma work_put_ref: "put_ref r x (s\<lparr>d_work := W\<rparr>) = (put_ref r x s)\<lparr>d_work := W\<rparr>"
  "put_ref r x (put_node a n s) = put_node a n (put_ref r x s)"
  by (simp_all add: put_ref_def put_node_def)

lemma wrap_int_same: "-2147483648 \<le> x \<Longrightarrow> x < 2147483648 \<Longrightarrow> wrap_int x = x"
  by (simp add: wrap_int_def mod_pos_pos_trivial)

lemma wrap_int_le: "0 \<le> x \<Longrightarrow> wrap_int x \<le> x"
  using zmod_le_nonneg_dividend [of "x + 2147483648" 4294967296] by (simp add: wrap_int_def)

lemma inc_ref_ok:
  assumes ok: "graph_ok s" and rf: "d_refs s r = Some rf" and fit: "rf_strong rf + 1 < 2 ^ 31" "rf_weak rf + 1 < 2 ^ 31"
    and own: "\<And>k. l = Some k \<Longrightarrow> owned s k (rf_node rf)"
  shows "\<exists>s' ret. binder_inc_ref s r strong l = Some (s', ret) \<and> graph_ok s'"
proof -
  obtain n where n: "d_nodes s (rf_node rf) = Some n" and ge: "0 \<le> rf_strong rf" "0 \<le> rf_weak rf" by (rule live_node [OF ok rf])
  have w: "wrap_int (rf_strong rf + 1) = rf_strong rf + 1" "wrap_int (rf_weak rf + 1) = rf_weak rf + 1"
    using ge fit by (simp_all add: wrap_int_same)
  let ?rf = "if strong then rf\<lparr>rf_strong := rf_strong rf + 1\<rparr> else rf\<lparr>rf_weak := rf_weak rf + 1\<rparr>"
  define k where "k = internal_strong_refs n + of_bool (0 < rf_strong ?rf) - of_bool (0 < rf_strong rf)"
  have g: "graph_ok (put_node (rf_node rf) (n\<lparr>internal_strong_refs := k\<rparr>) (put_ref r ?rf s))"
    by (rule graph_ok_put_ref [OF ok rf _ _ _ _ _ _ n k_def]) (use ge in auto)
  have nn: "n\<lparr>internal_strong_refs := internal_strong_refs n\<rparr> = n" by simp
  have same: "put_node (rf_node rf) n (put_ref r x s) = put_ref r x s" for x
    using n by (simp add: put_node_def put_ref_def fun_upd_idem)
  have fin: "graph_ok ((put_node (rf_node rf) (n\<lparr>internal_strong_refs := k\<rparr>) (put_ref r ?rf s))\<lparr>d_work := W\<rparr>)"
    if "work_grown s l (rf_node rf) W" for W
  proof (rule graph_ok_grown [OF g that])
    show "owned (put_node (rf_node rf) (n\<lparr>internal_strong_refs := k\<rparr>) (put_ref r ?rf s)) j (rf_node rf)" if "l = Some j" for j
      using own [OF that] by (rule owned_cong [THEN iffD2, rotated -1]) (simp_all add: n)
  qed simp
  show ?thesis
  proof (cases strong)
    case True
    consider "rf_strong rf \<noteq> 0" | "rf_strong rf = 0" by blast
    then show ?thesis
    proof cases
      case 1
      then have "k = internal_strong_refs n" using ge True by (simp add: k_def)
      then show ?thesis using g rf True 1 nn same w by (simp add: binder_inc_ref_def)
    next
      case 2
      have k: "k = internal_strong_refs n + 1" using 2 True by (simp add: k_def)
      show ?thesis
        using inc_internal_strong [OF n, of l] fin rf True 2 ok w by (auto simp: binder_inc_ref_def work_put_ref k)
    qed
  next
    case False
    have k: "k = internal_strong_refs n" using False by (simp add: k_def)
    show ?thesis
      using inc_internal_weak [OF n, of l] fin g rf False ok nn same w
      by (cases "rf_weak rf = 0") (auto simp: binder_inc_ref_def work_put_ref k)
  qed
qed

text \<open>A reference without counts is deleted; its node is told, freed or kept.\<close>

lemma dec_node_frame:
  "binder_dec_node rb (s\<lparr>d_refs := R\<rparr>) a strong internal = map_option (\<lambda>t. t\<lparr>d_refs := R\<rparr>) (binder_dec_node rb s a strong internal)"
  by (cases "d_nodes s a"; cases "d_procs s (the (nd_proc (the (d_nodes s a))))")
    (auto simp: binder_dec_node_def Let_def put_node_def put_proc_def free_node_def list_del_work_def list_add_tail_def queued_def
      split: option.splits)

lemma dec_node_refs: "binder_dec_node rb s a strong internal = Some t \<Longrightarrow> d_refs t = d_refs s"
  by (auto simp: binder_dec_node_def Let_def free_node_def split: option.splits if_splits elim!: bind_eq_Some_conv [THEN iffD1, elim_format])

definition without_ref :: "rb_ops \<Rightarrow> drv \<Rightarrow> int \<Rightarrow> bref \<Rightarrow> bproc \<Rightarrow> bnode \<Rightarrow> drv" where
  "without_ref rb s r rf pr n = (put_node (rf_node rf) (n\<lparr>nd_refs := remove1 r (nd_refs n)\<rparr>)
     (put_proc (rf_proc rf) (pr\<lparr>p_refs_by_desc := rb_erase rb r (p_refs_by_desc pr), p_refs_by_node := rb_erase rb r (p_refs_by_node pr)\<rparr>) s))
     \<lparr>d_refs := (d_refs s)(r := None)\<rparr>"

lemma graph_ok_without_ref:
  assumes rb: "rb_ok rb" and ok: "graph_ok s" and rf: "d_refs s r = Some rf" "rf_strong rf = 0"
    and pr: "d_procs s (rf_proc rf) = Some pr" and n: "d_nodes s (rf_node rf) = Some n"
  shows "graph_ok (without_ref rb s r rf pr n)"
proof -
  let ?n = "n\<lparr>nd_refs := remove1 r (nd_refs n)\<rparr>" and ?a = "rf_node rf" and ?p = "rf_proc rf"
  let ?pr = "pr\<lparr>p_refs_by_desc := rb_erase rb r (p_refs_by_desc pr), p_refs_by_node := rb_erase rb r (p_refs_by_node pr)\<rparr>"
  define s' where "s' = without_ref rb s r rf pr n"
  note g = graph_okD [OF ok]
  have s': "d_nodes s' = (d_nodes s)(?a \<mapsto> ?n)" "d_refs s' = (d_refs s)(r := None)" "d_procs s' = (d_procs s)(?p \<mapsto> ?pr)"
    "d_deaths s' = d_deaths s" "d_work s' = d_work s" "dead_nodes s' = dead_nodes s" "context_mgr_node s' = context_mgr_node s"
    "d_threads s' = d_threads s"
    by (simp_all add: s'_def without_ref_def)
  have sets: "\<And>b. refs_to s' b = refs_to s b - {r}" "\<And>q. proc_refs s' q = proc_refs s q - {r}" "proc_nodes s' = proc_nodes s" "key_ptr s' = key_ptr s"
    using s' n by (auto simp: refs_to_def proc_refs_def proc_nodes_def key_ptr_def fun_eq_iff)
  have keys: "key_desc s' x = key_desc s x" "key_node s' x = key_node s x" if "x \<noteq> r" for x
    using s' that by (simp_all add: key_desc_def key_node_def)
  have st: "strong_in s' = strong_in s" using s' rf by (auto simp: strong_in_def fun_eq_iff)
  have cnt: "counts_ok s' b (m\<lparr>nd_refs := l\<rparr>) = counts_ok s b m" "counts_ok s' b m = counts_ok s b m" for b m l
    using s' by (simp_all add: counts_ok_def)
  have "node_ok s' b m" if m: "d_nodes s' b = Some m" for b m
  proof (cases "b = ?a")
    case True
    have nk: "node_ok s ?a n" by (rule g(1) [OF n])
    have "filter (strong_in s) (remove1 r (nd_refs n)) = filter (strong_in s) (nd_refs n)"
      using rf by (simp add: filter_remove1 remove1_idem strong_in_def)
    then show ?thesis
      using nk m True s' sets st cnt by (auto simp: node_ok_def split: option.splits)
  next
    case False
    have nk: "node_ok s b m" using g(1) m False s' by simp
    have "r \<notin> refs_to s b" using rf(1) False by (auto simp: refs_to_def)
    then show ?thesis using nk s' sets st cnt by (auto simp: node_ok_def split: option.splits)
  qed
  moreover have "proc_ok s' q x" if x: "d_procs s' q = Some x" for q x
  proof (cases "q = ?p")
    case True
    have pk: "proc_ok s ?p pr" by (rule g(3) [OF pr])
    have r: "r \<in> proc_refs s ?p" using rf(1) by (simp add: proc_refs_def)
    have "index_of (key_desc s') (proc_refs s ?p - {r}) (rb_erase rb r (p_refs_by_desc pr))"
      by (rule index_cong [OF index_erase [OF rb _ r]]) (use pk keys in \<open>auto simp: proc_ok_def\<close>)
    moreover have "index_of (key_node s') (proc_refs s ?p - {r}) (rb_erase rb r (p_refs_by_node pr))"
      by (rule index_cong [OF index_erase [OF rb _ r]]) (use pk keys in \<open>auto simp: proc_ok_def\<close>)
    ultimately show ?thesis using pk x True s' sets by (auto simp: proc_ok_def)
  next
    case False
    have pk: "proc_ok s q x" using g(3) x False s' by simp
    have r: "r \<notin> proc_refs s q" using rf(1) False by (auto simp: proc_refs_def)
    have "index_of (key_desc s') (proc_refs s q) (p_refs_by_desc x)"
      using index_cong [of "key_desc s" _ _ "key_desc s'"] pk keys(1) r unfolding proc_ok_def by metis
    moreover have "index_of (key_node s') (proc_refs s q) (p_refs_by_node x)"
      using index_cong [of "key_node s" _ _ "key_node s'"] pk keys(2) r unfolding proc_ok_def by metis
    ultimately show ?thesis using pk r sets by (simp add: proc_ok_def)
  qed
  moreover have "ref_ok s' x" if x: "d_refs s' q = Some x" for q x
  proof -
    have "ref_ok s x" using g(2) [of q x] x s' by (simp split: if_splits)
    then show ?thesis by (rule ref_ok_mono) (use s' n in \<open>auto simp: queued_def\<close>)
  qed
  moreover have "work_ok s'" by (rule work_ok_cong [OF g(5)]) (use s' n in auto)
  moreover have "deaths_ok s'" "roots_ok s'" using g(4,6) s' n by (auto simp: deaths_ok_def roots_ok_def)
  ultimately show ?thesis unfolding s'_def [symmetric] by (simp add: graph_ok_def)
qed

lemma drop_death_ok:
  assumes ok: "graph_ok s" and free: "\<And>r rf. d_refs s r = Some rf \<Longrightarrow> d = None \<or> rf_death rf \<noteq> d"
  shows "graph_ok (drop_death d s)"
proof (cases d)
  case (Some a)
  let ?s = "list_del_work (WDeath a) s"
  define s' where "s' = ?s\<lparr>d_deaths := (d_deaths s)(a := None)\<rparr>"
  have g: "graph_ok ?s" by (rule graph_ok_del_work [OF ok])
  have "refs_to s' = refs_to ?s" "proc_refs s' = proc_refs ?s" "proc_nodes s' = proc_nodes ?s" "key_ptr s' = key_ptr ?s"
    "key_desc s' = key_desc ?s" "key_node s' = key_node ?s"
    by (auto simp: s'_def refs_to_def proc_refs_def proc_nodes_def key_ptr_def key_desc_def key_node_def fun_eq_iff)
  then have "proc_ok s' p pr = proc_ok ?s p pr" for p pr by (simp add: proc_ok_def)
  moreover have "node_ok s' b m = node_ok ?s b m" for b m by (rule node_ok_cong) (simp_all add: s'_def)
  moreover have "ref_ok s' rf" if "d_refs s r = Some rf" for r rf
    by (rule ref_ok_mono [OF graph_okD(2) [OF ok that]]) (use free [OF that] Some in \<open>auto simp: s'_def list_del_work_def queued_def\<close>)
  moreover have "work_ok s'" by (rule work_ok_cong [OF graph_okD(5) [OF g]]) (auto simp: s'_def)
  moreover have "deaths_ok s'" "roots_ok s'" using graph_okD(4,6) [OF g] by (auto simp: deaths_ok_def roots_ok_def s'_def)
  ultimately have "graph_ok s'" using graph_okD(1,3) [OF g] unfolding graph_ok_def s'_def by simp
  then show ?thesis by (simp add: drop_death_def Some Let_def s'_def)
qed (use ok in \<open>simp add: drop_death_def\<close>)

lemma delete_ref_ok:
  assumes rb: "rb_ok rb" and ok: "graph_ok s" and rf: "d_refs s r = Some rf" "rf_strong rf = 0"
  shows "\<exists>s'. binder_delete_ref rb s r = Some s' \<and> graph_ok s' \<and> d_refs s' = (d_refs s)(r := None)"
proof -
  obtain n where n: "d_nodes s (rf_node rf) = Some n" "r \<in> set (nd_refs n)" by (rule live_node [OF ok rf(1)])
  obtain pr where pr: "d_procs s (rf_proc rf) = Some pr" using graph_okD(2) [OF ok rf(1)] by (auto simp: ref_ok_def)
  let ?R = "(d_refs s)(r := None)" and ?n = "n\<lparr>nd_refs := remove1 r (nd_refs n)\<rparr>" and ?a = "rf_node rf"
  define s1 where "s1 = put_proc (rf_proc rf) (pr\<lparr>p_refs_by_desc := rb_erase rb r (p_refs_by_desc pr), p_refs_by_node := rb_erase rb r (p_refs_by_node pr)\<rparr>) s"
  define s2 where "s2 = put_node ?a ?n s1"
  have w: "s2\<lparr>d_refs := ?R\<rparr> = without_ref rb s r rf pr n" by (simp add: s2_def s1_def without_ref_def)
  have "graph_ok (without_ref rb s r rf pr n)" by (rule graph_ok_without_ref [OF rb ok rf pr n(1)])
  moreover have "put_node ?a ?n (without_ref rb s r rf pr n) = without_ref rb s r rf pr n"
    by (simp add: without_ref_def put_node_def)
  ultimately obtain s3 where s3: "binder_dec_node rb (s2\<lparr>d_refs := ?R\<rparr>) ?a False True = Some s3" "graph_ok s3" "d_refs s3 = ?R" "d_deaths s3 = d_deaths s"
    using dec_node_ok [OF rb, of "without_ref rb s r rf pr n" ?a ?n ?n False True] unfolding w by (auto simp: without_ref_def)
  obtain t where t: "binder_dec_node rb s2 ?a False True = Some t" "s3 = t\<lparr>d_refs := ?R\<rparr>"
    using s3(1) unfolding dec_node_frame by auto
  have "d_refs t = d_refs s"
    using dec_node_refs [OF t(1)] by (simp add: s2_def s1_def)
  have comm: "(drop_death (rf_death rf) t)\<lparr>d_refs := (d_refs (drop_death (rf_death rf) t))(r := None)\<rparr> = drop_death (rf_death rf) s3"
    using t(2) \<open>d_refs t = d_refs s\<close> by (simp add: drop_death_def list_del_work_def split: option.split)
  have "binder_delete_ref rb s r = Some (drop_death (rf_death rf) s3)"
    using rf pr n(1) t(1) comm by (simp add: binder_delete_ref_def Let_def s2_def s1_def)
  moreover have "graph_ok (drop_death (rf_death rf) s3)"
  proof (rule drop_death_ok [OF s3(2)])
    fix q x assume x: "d_refs s3 q = Some x"
    then have "d_refs s q = Some x" "q \<noteq> r" using s3(3) by (auto split: if_splits)
    then show "rf_death rf = None \<or> rf_death x \<noteq> rf_death rf"
      using graph_okD(4) [OF ok] rf(1) unfolding deaths_ok_def by (metis option.exhaust)
  qed
  moreover have "d_refs (drop_death (rf_death rf) s3) = ?R" using s3(3) by (simp add: drop_death_def Let_def split: option.split)
  ultimately show ?thesis by blast
qed

lemma dec_ref_ok:
  assumes rb: "rb_ok rb" and ok: "graph_ok s" and rf: "d_refs s r = Some rf" and fit: "rf_strong rf < 2 ^ 31" "rf_weak rf < 2 ^ 31"
  shows "\<exists>s' ret. binder_dec_ref rb s r strong = Some (s', ret) \<and> graph_ok s'"
proof (cases "if strong then rf_strong rf = 0 else rf_weak rf = 0")
  case True
  then show ?thesis using rf ok by (auto simp: binder_dec_ref_def)
next
  case False
  obtain n where n: "d_nodes s (rf_node rf) = Some n" "r \<in> set (nd_refs n)" and ge: "0 \<le> rf_strong rf" "0 \<le> rf_weak rf"
    by (rule live_node [OF ok rf])
  have w: "wrap_int (rf_strong rf - 1) = rf_strong rf - 1" "wrap_int (rf_weak rf - 1) = rf_weak rf - 1"
    using ge fit by (simp_all add: wrap_int_same)
  let ?a = "rf_node rf"
  define rf1 where "rf1 = (if strong then rf\<lparr>rf_strong := rf_strong rf - 1\<rparr> else rf\<lparr>rf_weak := rf_weak rf - 1\<rparr>)"
  define k where "k = internal_strong_refs n + of_bool (0 < rf_strong rf1) - of_bool (0 < rf_strong rf)"
  have g: "graph_ok (put_node ?a (n\<lparr>internal_strong_refs := k\<rparr>) (put_ref r rf1 s))"
    by (rule graph_ok_put_ref [OF ok rf _ _ _ _ _ _ n(1) k_def]) (use ge False in \<open>auto simp: rf1_def\<close>)
  have "\<exists>s1. (if strong \<and> rf_strong rf1 = 0 then binder_dec_node rb (put_ref r rf1 s) ?a True True else Some (put_ref r rf1 s)) = Some s1
    \<and> graph_ok s1 \<and> d_refs s1 r = Some rf1"
  proof (cases "strong \<and> rf_strong rf1 = 0")
    case True
    then have k: "k = internal_strong_refs n - 1" using False by (auto simp: k_def rf1_def split: if_splits)
    show ?thesis using dec_node_ok [OF rb, of "put_ref r rf1 s" ?a n _ True True] n(1) g True k by auto
  next
    case notzero: False
    then have "k = internal_strong_refs n" using ge False by (auto simp: k_def rf1_def)
    then have "put_node ?a (n\<lparr>internal_strong_refs := k\<rparr>) (put_ref r rf1 s) = put_ref r rf1 s"
      using n(1) by (simp add: put_node_def put_ref_def fun_upd_idem)
    then show ?thesis unfolding if_not_P [OF notzero] using g by (intro exI [of _ "put_ref r rf1 s"]) simp
  qed
  then obtain s1 where s1: "(if strong \<and> rf_strong rf1 = 0 then binder_dec_node rb (put_ref r rf1 s) ?a True True else Some (put_ref r rf1 s)) = Some s1"
    "graph_ok s1" "d_refs s1 r = Some rf1" by blast
  have "\<exists>s' ret. (if rf_strong rf1 = 0 \<and> rf_weak rf1 = 0 then do { s2 \<leftarrow> binder_delete_ref rb s1 r; Some (s2, 0) } else Some (s1, 0)) = Some (s', ret :: int)
      \<and> graph_ok s'"
    using delete_ref_ok [OF rb s1(2,3)] s1(2) by (cases "rf_strong rf1 = 0 \<and> rf_weak rf1 = 0") auto
  then show ?thesis
    unfolding binder_dec_ref_def rf Option.bind.simps if_not_P [OF False] Let_def w rf1_def [symmetric] s1(1) .
qed

section \<open>Changes outside the graph\<close>

definition proc_trees :: "bproc \<Rightarrow> int tree \<times> int tree \<times> int tree" where
  "proc_trees pr = (p_nodes pr, p_refs_by_desc pr, p_refs_by_node pr)"

definition same_graph :: "drv \<Rightarrow> drv \<Rightarrow> bool" where
  "same_graph s s' \<longleftrightarrow> d_nodes s' = d_nodes s \<and> d_refs s' = d_refs s \<and> d_deaths s' = d_deaths s \<and> dead_nodes s' = dead_nodes s
     \<and> context_mgr_node s' = context_mgr_node s \<and> (\<forall>t. map_option th_proc (d_threads s' t) = map_option th_proc (d_threads s t))
     \<and> (\<forall>p. map_option proc_trees (d_procs s' p) = map_option proc_trees (d_procs s p))"

lemma graph_ok_same:
  assumes ok: "graph_ok s" and same: "same_graph s s'" and dis: "distinct (map snd (d_work s'))"
    and sub: "\<And>l a. (l, WNode a) \<in> set (d_work s') \<Longrightarrow> owned s l a" "\<And>d. queued (WDeath d) s' \<Longrightarrow> queued (WDeath d) s"
  shows "graph_ok s'"
proof -
  note g = graph_okD [OF ok]
  have f: "d_nodes s' = d_nodes s" "d_refs s' = d_refs s" "d_deaths s' = d_deaths s" "dead_nodes s' = dead_nodes s" "context_mgr_node s' = context_mgr_node s"
    using same by (simp_all add: same_graph_def)
  have tr: "map_option proc_trees (d_procs s' p) = map_option proc_trees (d_procs s p)" for p using same by (simp add: same_graph_def)
  have pn: "d_procs s' p = None \<longleftrightarrow> d_procs s p = None" for p using tr [of p] by (cases "d_procs s p") auto
  have sets: "proc_nodes s' = proc_nodes s" "proc_refs s' = proc_refs s" "key_ptr s' = key_ptr s" "key_desc s' = key_desc s" "key_node s' = key_node s"
    using f by (auto simp: proc_nodes_def proc_refs_def key_ptr_def key_desc_def key_node_def fun_eq_iff)
  have "proc_ok s' p pr" if x: "d_procs s' p = Some pr" for p pr
  proof -
    obtain q where "d_procs s p = Some q" "proc_trees q = proc_trees pr" using tr [of p] x by (cases "d_procs s p") auto
    then show ?thesis using g(3) [of p q] sets by (simp add: proc_ok_def proc_trees_def)
  qed
  moreover have "node_ok s' a n = node_ok s a n" for a n by (rule node_ok_cong) (simp_all add: f pn)
  moreover have "ref_ok s' rf" if "ref_ok s rf" for rf by (rule ref_ok_mono [OF that]) (use f pn sub(2) in auto)
  moreover have lp: "list_proc s' l = list_proc s l" for l using same by (cases l) (simp_all add: same_graph_def)
  have "owned s' l a = owned s l a" for l a by (simp add: owned_def f lp)
  then have "work_ok s'" using dis sub g(5) f by (auto simp: work_ok_def)
  moreover have "deaths_ok s'" "roots_ok s'" using g(4,6) f by (auto simp: deaths_ok_def roots_ok_def)
  ultimately show ?thesis using g(1,2) f by (simp add: graph_ok_def)
qed

lemma graph_ok_frame:
  assumes "graph_ok s" and "same_graph s s'" and "d_work s' = d_work s"
  shows "graph_ok s'"
  by (rule graph_ok_same [OF assms(1,2)]) (use assms(3) graph_okD(5) [OF assms(1)] in \<open>auto simp: work_ok_def queued_def\<close>)

section \<open>New nodes and references\<close>

text \<open>\<open>kzalloc\<close> returns memory that is not in use.\<close>

definition kz_fresh :: "kz_fn \<Rightarrow> bool" where
  "kz_fresh kz \<longleftrightarrow> (\<forall>s a. kz s = Some a \<longrightarrow> d_nodes s a = None \<and> d_refs s a = None \<and> d_deaths s a = None
     \<and> WNode a \<notin> set (map snd (d_work s)) \<and> context_mgr_node s \<noteq> Some a \<and> a \<notin> set (dead_nodes s))"

lemma graph_ok_new_node:
  assumes rb: "rb_ok rb" and ok: "graph_ok s" and pr: "d_procs s p = Some pr" and a: "d_nodes s a = None"
    and ix: "index_of ((key_ptr s)(a \<mapsto> ptr)) (insert a (proc_nodes s p)) t"
  shows "graph_ok (put_node a (new_node p ptr cookie) (put_proc p (pr\<lparr>p_nodes := rb_insert_color rb t\<rparr>) s))"
proof -
  define s' where "s' = put_node a (new_node p ptr cookie) (put_proc p (pr\<lparr>p_nodes := rb_insert_color rb t\<rparr>) s)"
  note g = graph_okD [OF ok]
  have s': "d_nodes s' = (d_nodes s)(a \<mapsto> new_node p ptr cookie)" "d_refs s' = d_refs s" "d_deaths s' = d_deaths s" "d_work s' = d_work s"
    "dead_nodes s' = dead_nodes s" "context_mgr_node s' = context_mgr_node s"
    "d_procs s' = (d_procs s)(p \<mapsto> pr\<lparr>p_nodes := rb_insert_color rb t\<rparr>)" "d_threads s' = d_threads s"
    by (simp_all add: s'_def)
  have sets: "refs_to s' = refs_to s" "proc_refs s' = proc_refs s" "key_desc s' = key_desc s" "key_node s' = key_node s"
    "key_ptr s' = (key_ptr s)(a \<mapsto> ptr)" "\<And>q. proc_nodes s' q = (if q = p then insert a (proc_nodes s q) else proc_nodes s q)"
    using s' a by (auto simp: refs_to_def proc_refs_def key_desc_def key_node_def key_ptr_def proc_nodes_def fun_eq_iff new_node_def)
  have "rf_node rf \<noteq> a" if "d_refs s x = Some rf" for x rf using g(2) [OF that] a by (auto simp: ref_ok_def)
  then have fresh: "refs_to s a = {}" by (auto simp: refs_to_def)
  have "node_ok s' b m" if m: "d_nodes s' b = Some m" for b m
  proof (cases "b = a")
    case True
    then show ?thesis using m s' sets fresh a g(6) by (auto simp: node_ok_def counts_ok_def new_node_def roots_ok_def)
  next
    case False
    then have "node_ok s b m" using g(1) m s' by simp
    moreover have "node_ok s' b m = node_ok s b m" by (rule node_ok_cong) (use s' pr in auto)
    ultimately show ?thesis by simp
  qed
  moreover have "proc_ok s' q x" if x: "d_procs s' q = Some x" for q x
  proof (cases "q = p")
    case True
    then show ?thesis using g(3) [OF pr] x s' sets ix by (auto simp: proc_ok_def index_color [OF rb])
  next
    case False
    then have pk: "proc_ok s q x" using g(3) x s' by simp
    have "a \<notin> proc_nodes s q" using a by (auto simp: proc_nodes_def)
    then have "index_of ((key_ptr s)(a \<mapsto> ptr)) (proc_nodes s q) (p_nodes x)"
      using index_cong [of "key_ptr s" _ _ "(key_ptr s)(a \<mapsto> ptr)"] pk unfolding proc_ok_def by (metis fun_upd_apply)
    then show ?thesis using pk sets False by (simp add: proc_ok_def)
  qed
  moreover have "ref_ok s' x" if x: "d_refs s q = Some x" for q x
  proof (rule ref_ok_mono [OF g(2) [OF x]])
    show "map_option nd_proc (d_nodes s' (rf_node x)) = map_option nd_proc (d_nodes s (rf_node x))"
      using s' a g(2) [OF x] by (auto simp: ref_ok_def)
  qed (use s' in \<open>auto simp: queued_def\<close>)
  moreover have "\<not> queued (WNode a) s" using queued_node [OF g(5), of a] a by fastforce
  then have "work_ok s'" by (intro work_ok_cong [OF g(5)]) (use s' in auto)
  moreover have "deaths_ok s'" "roots_ok s'" using g(4,6) s' a by (auto simp: deaths_ok_def roots_ok_def)
  ultimately show ?thesis unfolding s'_def [symmetric] using s' by (simp add: graph_ok_def)
qed

lemma new_node_ok:
  assumes rb: "rb_ok rb" and kz: "kz_fresh kz" and ok: "graph_ok s" and pr: "d_procs s p = Some pr"
  shows "\<exists>s' r. binder_new_node rb kz s p ptr cookie = Some (s', r) \<and> graph_ok s'
    \<and> (\<forall>a. r = Some a \<longrightarrow> d_nodes s a = None \<and> d_nodes s' = (d_nodes s)(a \<mapsto> new_node p ptr cookie))"
proof -
  have ix: "index_of (key_ptr s) (proc_nodes s p) (p_nodes pr)" using graph_okD(3) [OF ok pr] by (simp add: proc_ok_def)
  consider (old) x where "tree_find ptr (key_ptr s) (p_nodes pr) = Some (Some x)"
    | (new) "tree_find ptr (key_ptr s) (p_nodes pr) = Some None" "\<forall>x\<in>proc_nodes s p. key_ptr s x \<noteq> Some ptr"
    using tree_find_cases [OF ix, of ptr] by blast
  then show ?thesis
  proof cases
    case old
    then show ?thesis using pr ok by (simp add: binder_new_node_def)
  next
    case new
    show ?thesis
    proof (cases "kz s")
      case None
      then show ?thesis using new pr ok by (simp add: binder_new_node_def)
    next
      case (Some a)
      then have a: "d_nodes s a = None" using kz by (auto simp: kz_fresh_def)
      then have "a \<notin> proc_nodes s p" by (auto simp: proc_nodes_def)
      then obtain t where t: "tree_link ptr (key_ptr s) a (p_nodes pr) = Some t"
        "index_of ((key_ptr s)(a \<mapsto> ptr)) (insert a (proc_nodes s p)) t"
        using tree_link_index [OF ix new(2) _ refl] by blast
      have "graph_ok (put_node a (new_node p ptr cookie) (put_proc p (pr\<lparr>p_nodes := rb_insert_color rb t\<rparr>) s))"
        by (rule graph_ok_new_node [OF rb ok pr a t(2)])
      then show ?thesis using new Some pr t(1) a by (simp add: binder_new_node_def)
    qed
  qed
qed

definition new_ref :: "int \<Rightarrow> int \<Rightarrow> int \<Rightarrow> bref" where
  "new_ref p node d = \<lparr>rf_proc = p, rf_node = node, rf_desc = d, rf_strong = 0, rf_weak = 0, rf_death = None\<rparr>"

definition with_ref :: "rb_ops \<Rightarrow> drv \<Rightarrow> int \<Rightarrow> int \<Rightarrow> int \<Rightarrow> int \<Rightarrow> bproc \<Rightarrow> bnode \<Rightarrow> int tree \<Rightarrow> int tree \<Rightarrow> drv" where
  "with_ref rb s p node d a pr n tn td = put_node node (n\<lparr>nd_refs := a # nd_refs n\<rparr>) (put_ref a (new_ref p node d)
     (put_proc p (pr\<lparr>p_refs_by_node := rb_insert_color rb tn, p_refs_by_desc := rb_insert_color rb td\<rparr>) s))"

lemma graph_ok_with_ref:
  assumes rb: "rb_ok rb" and ok: "graph_ok s" and pr: "d_procs s p = Some pr" and n: "d_nodes s node = Some n" and a: "d_refs s a = None"
    and ixn: "index_of ((key_node s)(a \<mapsto> node)) (insert a (proc_refs s p)) tn"
    and ixd: "index_of ((key_desc s)(a \<mapsto> d)) (insert a (proc_refs s p)) td" and d: "0 \<le> d"
  shows "graph_ok (with_ref rb s p node d a pr n tn td)"
proof -
  let ?n = "n\<lparr>nd_refs := a # nd_refs n\<rparr>"
  define s' where "s' = with_ref rb s p node d a pr n tn td"
  note g = graph_okD [OF ok]
  have s': "d_nodes s' = (d_nodes s)(node \<mapsto> ?n)" "d_refs s' = (d_refs s)(a \<mapsto> new_ref p node d)" "d_deaths s' = d_deaths s" "d_work s' = d_work s"
    "dead_nodes s' = dead_nodes s" "context_mgr_node s' = context_mgr_node s"
    "d_procs s' = (d_procs s)(p \<mapsto> pr\<lparr>p_refs_by_node := rb_insert_color rb tn, p_refs_by_desc := rb_insert_color rb td\<rparr>)"
    "d_threads s' = d_threads s"
    by (simp_all add: s'_def with_ref_def)
  have sets: "\<And>b. refs_to s' b = (if b = node then insert a (refs_to s b) else refs_to s b)"
    "\<And>q. proc_refs s' q = (if q = p then insert a (proc_refs s q) else proc_refs s q)" "proc_nodes s' = proc_nodes s"
    "key_ptr s' = key_ptr s" "key_desc s' = (key_desc s)(a \<mapsto> d)" "key_node s' = (key_node s)(a \<mapsto> node)"
    using s' a n by (auto simp: refs_to_def proc_refs_def proc_nodes_def key_desc_def key_node_def key_ptr_def fun_eq_iff new_ref_def)
  have st: "strong_in s' = strong_in s" using s' a by (auto simp: strong_in_def new_ref_def fun_eq_iff)
  have cnt: "counts_ok s' b (m\<lparr>nd_refs := l\<rparr>) = counts_ok s b m" "counts_ok s' b m = counts_ok s b m" for b m l
    using s' by (simp_all add: counts_ok_def)
  have out: "a \<notin> refs_to s b" "a \<notin> proc_refs s q" "\<not> strong_in s a" for b q using a by (auto simp: refs_to_def proc_refs_def strong_in_def)
  have "node_ok s' b m" if m: "d_nodes s' b = Some m" for b m
  proof (cases "b = node")
    case True
    then show ?thesis
      using g(1) [OF n] m s' sets st cnt out by (auto simp: node_ok_def split: option.splits)
  next
    case False
    then have "node_ok s b m" using g(1) m s' by simp
    then show ?thesis using s' sets st cnt False by (auto simp: node_ok_def split: option.splits)
  qed
  moreover have "proc_ok s' q x" if x: "d_procs s' q = Some x" for q x
  proof (cases "q = p")
    case True
    then show ?thesis using g(3) [OF pr] x s' sets ixn ixd by (auto simp: proc_ok_def index_color [OF rb])
  next
    case False
    then have pk: "proc_ok s q x" using g(3) x s' by simp
    have "index_of ((key_desc s)(a \<mapsto> d)) (proc_refs s q) (p_refs_by_desc x)"
      using index_cong [of "key_desc s" _ _ "(key_desc s)(a \<mapsto> d)"] pk out(2) unfolding proc_ok_def by (metis fun_upd_apply)
    moreover have "index_of ((key_node s)(a \<mapsto> node)) (proc_refs s q) (p_refs_by_node x)"
      using index_cong [of "key_node s" _ _ "(key_node s)(a \<mapsto> node)"] pk out(2) unfolding proc_ok_def by (metis fun_upd_apply)
    ultimately show ?thesis using pk sets False by (simp add: proc_ok_def)
  qed
  moreover have "ref_ok s' x" if x: "d_refs s' q = Some x" for q x
  proof (cases "q = a")
    case True
    then show ?thesis using x s' pr n d by (auto simp: ref_ok_def death_ok_def new_ref_def)
  next
    case False
    then have "ref_ok s x" using g(2) x s' by simp
    then show ?thesis by (rule ref_ok_mono) (use s' n in \<open>auto simp: queued_def\<close>)
  qed
  moreover have "work_ok s'" by (rule work_ok_cong [OF g(5)]) (use s' n in auto)
  moreover have "deaths_ok s'" "roots_ok s'" using g(4,6) s' n by (auto simp: deaths_ok_def roots_ok_def new_ref_def)
  ultimately show ?thesis unfolding s'_def [symmetric] by (simp add: graph_ok_def)
qed

text \<open>
  A process gets at most one reference to a node, and a new one has the smallest
  unused descriptor, from 0 for the context manager and from 1 for other nodes.
\<close>

definition least_unused :: "int \<Rightarrow> int set \<Rightarrow> int \<Rightarrow> bool" where
  "least_unused b D d \<longleftrightarrow> b \<le> d \<and> d \<notin> D \<and> (\<forall>e. b \<le> e \<and> e < d \<longrightarrow> e \<in> D)"

definition descs :: "drv \<Rightarrow> int \<Rightarrow> int set" where
  "descs s p = {rf_desc rf | r rf. d_refs s r = Some rf \<and> rf_proc rf = p}"

lemma desc_used: "e \<in> descs s p \<longleftrightarrow> (\<exists>x\<in>proc_refs s p. key_desc s x = Some e)"
proof
  assume "e \<in> descs s p"
  then obtain r rf where "d_refs s r = Some rf" "rf_proc rf = p" "rf_desc rf = e" by (auto simp: descs_def)
  then show "\<exists>x\<in>proc_refs s p. key_desc s x = Some e" by (intro bexI [of _ r]) (auto simp: proc_refs_def key_desc_def)
next
  assume "\<exists>x\<in>proc_refs s p. key_desc s x = Some e"
  then obtain r rf where "d_refs s r = Some rf" "rf_proc rf = p" "rf_desc rf = e" by (auto simp: proc_refs_def key_desc_def)
  then show "e \<in> descs s p" unfolding descs_def by blast
qed

lemma next_desc_ok:
  assumes ok: "graph_ok s" and pr: "d_procs s p = Some pr" and b: "b \<le> 1"
  shows "\<exists>d. next_desc (key_desc s) b (inorder (p_refs_by_desc pr)) = Some d \<and> least_unused b (descs s p) d"
proof -
  have ix: "index_of (key_desc s) (proc_refs s p) (p_refs_by_desc pr)" using graph_okD(3) [OF ok pr] by (simp add: proc_ok_def)
  then have st: "set (inorder (p_refs_by_desc pr)) = proc_refs s p" and some: "\<forall>x\<in>proc_refs s p. key_desc s x \<noteq> None"
    and so: "sorted_wrt (<) (map (the \<circ> key_desc s) (inorder (p_refs_by_desc pr)))"
    unfolding index_of_def by blast+
  have "b \<le> the (key_desc s x) + 1" if "x \<in> proc_refs s p" for x
    using that graph_okD(2) [OF ok] b by (fastforce simp: proc_refs_def key_desc_def ref_ok_def)
  then have le: "\<forall>x\<in>set (inorder (p_refs_by_desc pr)). b \<le> the (key_desc s x) + 1" unfolding st by blast
  show ?thesis
    using next_desc_least [OF so _ le] some unfolding st least_unused_def desc_used by metis
qed

lemma get_ref_for_node_ok:
  assumes rb: "rb_ok rb" and kz: "kz_fresh kz" and ok: "graph_ok s" and pr: "d_procs s p = Some pr" and n: "d_nodes s node = Some n"
  shows "\<exists>s' r. binder_get_ref_for_node rb kz s p node = Some (s', r) \<and> graph_ok s' \<and> (r = None \<longrightarrow> s' = s)
    \<and> (\<forall>a. r = Some a \<longrightarrow> (\<exists>rf. d_refs s' a = Some rf \<and> rf_proc rf = p \<and> rf_node rf = node
        \<and> (if d_refs s a = None then least_unused (if context_mgr_node s = Some node then 0 else 1) (descs s p) (rf_desc rf) else s' = s)))"
proof -
  have ixs: "index_of (key_node s) (proc_refs s p) (p_refs_by_node pr)" "index_of (key_desc s) (proc_refs s p) (p_refs_by_desc pr)"
    using graph_okD(3) [OF ok pr] by (simp_all add: proc_ok_def)
  define b where "b = (if context_mgr_node s = Some node then 0 else 1 :: int)"
  consider (old) x where "x \<in> proc_refs s p" "key_node s x = Some node" "tree_find node (key_node s) (p_refs_by_node pr) = Some (Some x)"
    | (new) "tree_find node (key_node s) (p_refs_by_node pr) = Some None" "\<forall>x\<in>proc_refs s p. key_node s x \<noteq> Some node"
    using tree_find_cases [OF ixs(1), of node] by blast
  then show ?thesis
  proof cases
    case old
    then obtain rf where "d_refs s x = Some rf" "rf_proc rf = p" "rf_node rf = node" by (auto simp: proc_refs_def key_node_def)
    then show ?thesis using old(3) pr ok by (simp add: binder_get_ref_for_node_def)
  next
    case new
    show ?thesis
    proof (cases "kz s")
      case None
      then show ?thesis using new pr ok by (simp add: binder_get_ref_for_node_def)
    next
      case (Some a)
      then have a: "d_refs s a = None" using kz by (auto simp: kz_fresh_def)
      then have out: "a \<notin> proc_refs s p" by (auto simp: proc_refs_def)
      have "b \<le> 1" by (simp add: b_def)
      then obtain d where d: "next_desc (key_desc s) b (inorder (p_refs_by_desc pr)) = Some d" "least_unused b (descs s p) d"
        using next_desc_ok [OF ok pr] by blast
      then have unused: "\<forall>x\<in>proc_refs s p. key_desc s x \<noteq> Some d" and d0: "0 \<le> d"
        unfolding least_unused_def desc_used b_def by (auto split: if_splits)
      obtain tn where tn: "tree_link node (key_node s) a (p_refs_by_node pr) = Some tn"
        "index_of ((key_node s)(a \<mapsto> node)) (insert a (proc_refs s p)) tn"
        using tree_link_index [OF ixs(1) new(2) out refl] by blast
      obtain td where td: "tree_link d (key_desc s) a (p_refs_by_desc pr) = Some td"
        "index_of ((key_desc s)(a \<mapsto> d)) (insert a (proc_refs s p)) td"
        using tree_link_index [OF ixs(2) unused out refl] by blast
      have "binder_get_ref_for_node rb kz s p node = Some (with_ref rb s p node d a pr n tn td, Some a)"
        unfolding binder_get_ref_for_node_def b_def [symmetric]
        using pr new(1) Some tn(1) d(1) td(1) n by (simp add: with_ref_def new_ref_def Let_def)
      moreover have "graph_ok (with_ref rb s p node d a pr n tn td)"
        by (rule graph_ok_with_ref [OF rb ok pr n a tn(2) td(2) d0])
      moreover have "d_refs (with_ref rb s p node d a pr n tn td) a = Some (new_ref p node d)" by (simp add: with_ref_def)
      ultimately show ?thesis using a d(2) unfolding b_def [symmetric] by (simp add: new_ref_def)
    qed
  qed
qed

end
