(* ===== verification/KernelRead.thy ===== *)
theory KernelRead
  imports KernelGraph
begin

text \<open>
  \<open>binder_thread_read\<close> (\<open>patches/kernel/binder.c\<close>): what the driver
  hands to a thread that reads, how it waits for work, and how it asks for more
  threads.

  The read buffer is a map from offsets in bytes to the words stored there; a
  store that faults leaves it alone. A command code is a constructor of
  \<open>br\<close>. The buffer does not wrap around the end of the address space.
  While a thread waits it does not hold the driver's lock: what the other threads
  do meanwhile is a list of functions on the state. The checks of
  \<open>binder_stop_on_user_error\<close>, a debugging aid that is off, are left out.
\<close>

section \<open>Code outside the driver\<close>

text \<open>
  The functions of the kernel that the driver calls, and the flags of its
  interface, which are in a header outside the repository. A process and a thread
  are named by the address of the driver's structure for them. The security hooks
  are true where they allow what is asked; \<open>fget\<close> looks up a file of the
  thread that runs, \<open>alloc_fd\<close> finds a free number in a table of files or
  returns a negative error. \<open>debug_user_refs\<close> is the bit
  \<open>BINDER_DEBUG_USER_REFS\<close> of \<open>binder_debug_mask\<close>, which is clear unless
  the administrator sets it.
\<close>

record kext =
  k_rb :: rb_ops
  k_kz :: kz_fn
  k_page :: page_fn
  debug_user_refs :: bool
  can_nice :: "int \<Rightarrow> int \<Rightarrow> bool"
  rlimit_nice :: "int \<Rightarrow> int"
  security_transaction :: "int \<Rightarrow> int \<Rightarrow> bool"
  security_transfer_binder :: "int \<Rightarrow> int \<Rightarrow> bool"
  security_transfer_file :: "int \<Rightarrow> int \<Rightarrow> int \<Rightarrow> bool"
  fget :: "int \<Rightarrow> u32 \<Rightarrow> int option"
  alloc_fd :: "int \<Rightarrow> (int \<rightharpoonup> int) \<Rightarrow> int"
  TF_ONE_WAY :: u32
  TF_ACCEPT_FDS :: u32
  BINDER_TYPE_BINDER :: u32
  BINDER_TYPE_WEAK_BINDER :: u32
  BINDER_TYPE_HANDLE :: u32
  BINDER_TYPE_WEAK_HANDLE :: u32
  BINDER_TYPE_FD :: u32
  FLAT_BINDER_FLAG_PRIORITY_MASK :: u32
  FLAT_BINDER_FLAG_ACCEPTS_FDS :: u32

definition one_way :: "'a kext_scheme \<Rightarrow> u32 \<Rightarrow> bool" where
  "one_way K flags \<longleftrightarrow> flags AND TF_ONE_WAY K \<noteq> 0"

definition binder_set_nice :: "'a kext_scheme \<Rightarrow> int \<Rightarrow> int \<Rightarrow> drv \<Rightarrow> drv option" where
  "binder_set_nice K th nice s =
     do { t \<leftarrow> d_threads s th;
          Some (put_thread th (t\<lparr>th_nice := if can_nice K th nice then nice else rlimit_nice K th\<rparr>) s) }"

section \<open>The read buffer\<close>

datatype uword = UBr br | UWord u32

type_synonym ubuf = "nat \<rightharpoonup> uword"

record rd =
  rd_s :: drv
  rd_mem :: ubuf
  rd_ptr :: nat

fun put_words :: "(nat \<Rightarrow> bool) \<Rightarrow> uword list \<Rightarrow> rd \<Rightarrow> rd \<times> bool" where
  "put_words uok [] x = (x, True)"
| "put_words uok (w # ws) x =
     (if uok (rd_ptr x)
      then put_words uok ws (x\<lparr>rd_mem := (rd_mem x)(rd_ptr x \<mapsto> w), rd_ptr := rd_ptr x + 4\<rparr>)
      else (x, False))"

datatype rdout = Continue rd | Finish rd | Retry rd | Fault rd

section \<open>One work item\<close>

definition node_strong :: "bnode \<Rightarrow> bool" where
  "node_strong n \<longleftrightarrow> internal_strong_refs n \<noteq> 0 \<or> local_strong_refs n \<noteq> 0"

definition node_weak :: "bnode \<Rightarrow> bool" where
  "node_weak n \<longleftrightarrow> nd_refs n \<noteq> [] \<or> local_weak_refs n \<noteq> 0 \<or> node_strong n"

definition node_command :: "bnode \<Rightarrow> (br \<times> bnode) option" where
  "node_command n =
     (if node_weak n \<and> \<not> has_weak_ref n
      then Some (BR_INCREFS, n\<lparr>has_weak_ref := True, pending_weak_ref := True, local_weak_refs := local_weak_refs n + 1\<rparr>)
      else if node_strong n \<and> \<not> has_strong_ref n
      then Some (BR_ACQUIRE, n\<lparr>has_strong_ref := True, pending_strong_ref := True, local_strong_refs := local_strong_refs n + 1\<rparr>)
      else if \<not> node_strong n \<and> has_strong_ref n then Some (BR_RELEASE, n\<lparr>has_strong_ref := False\<rparr>)
      else if \<not> node_weak n \<and> has_weak_ref n then Some (BR_DECREFS, n\<lparr>has_weak_ref := False\<rparr>)
      else None)"

definition read_node :: "'a kext_scheme \<Rightarrow> (nat \<Rightarrow> bool) \<Rightarrow> int \<Rightarrow> int \<Rightarrow> rd \<Rightarrow> rdout option" where
  "read_node K uok p a x =
     do { n \<leftarrow> d_nodes (rd_s x) a;
          case node_command n of
            Some (cmd, n') \<Rightarrow>
              (let (y, ok) = put_words uok [UBr cmd, UWord (nd_ptr n), UWord (nd_cookie n)] (x\<lparr>rd_s := put_node a n' (rd_s x)\<rparr>)
               in Some (if ok then Continue y else Fault y))
          | None \<Rightarrow>
              (let s1 = list_del_work (WNode a) (rd_s x)
               in if \<not> node_weak n \<and> \<not> node_strong n
                  then do { pr \<leftarrow> d_procs s1 p;
                            Some (Continue (x\<lparr>rd_s := free_node a (put_proc p (pr\<lparr>p_nodes := rb_erase (k_rb K) a (p_nodes pr)\<rparr>) s1)\<rparr>)) }
                  else Some (Continue (x\<lparr>rd_s := s1\<rparr>))) }"

text \<open>A completion that is no longer allocated is not read, unlinked or freed again.\<close>

definition read_complete :: "(nat \<Rightarrow> bool) \<Rightarrow> int \<Rightarrow> rd \<Rightarrow> rdout option" where
  "read_complete uok c x =
     (if c \<notin> d_completes (rd_s x) then None
      else let (y, ok) = put_words uok [UBr BR_TRANSACTION_COMPLETE] x;
               s1 = list_del_work (WComplete c) (rd_s y)
           in Some (if ok then Continue (y\<lparr>rd_s := s1\<lparr>d_completes := d_completes s1 - {c}\<rparr>\<rparr>) else Fault y))"

definition read_death :: "(nat \<Rightarrow> bool) \<Rightarrow> int \<Rightarrow> int \<Rightarrow> rd \<Rightarrow> rdout option" where
  "read_death uok p d x =
     do { dt \<leftarrow> d_deaths (rd_s x) d;
          let clear = (dt_type dt = CLEAR_DEATH_NOTIFICATION);
          let cmd = (if clear then BR_CLEAR_DEATH_NOTIFICATION_DONE else BR_DEAD_BINDER);
          let (y, ok) = put_words uok [UBr cmd, UWord (dt_cookie dt)] x;
          let s1 = list_del_work (WDeath d) (rd_s y);
          Some (if \<not> ok then Fault y
                else if clear then Continue (y\<lparr>rd_s := s1\<lparr>d_deaths := (d_deaths s1)(d := None)\<rparr>\<rparr>)
                else Finish (y\<lparr>rd_s := list_add_head (WDeath d) (Delivered p) s1\<rparr>)) }"

section \<open>Transactions\<close>

text \<open>\<open>buffer->transaction = t\<close>; the allocator checks it too.\<close>

definition set_buf_txn :: "int \<Rightarrow> int option \<Rightarrow> bproc \<Rightarrow> bproc" where
  "set_buf_txn b t pr = pr\<lparr>p_space := set_buf b (\<lambda>x. x\<lparr>b_txn := (t \<noteq> None)\<rparr>) (p_space pr),
     p_bufs := (p_bufs pr)(b := (p_bufs pr b)\<lparr>bu_txn := t\<rparr>)\<rparr>"

definition ALIGN4 :: "u32 \<Rightarrow> u32" where "ALIGN4 w = (w + 3) AND NOT 3"

definition txn_data :: "'a kext_scheme \<Rightarrow> drv \<Rightarrow> bproc \<Rightarrow> btxn \<Rightarrow> buf \<Rightarrow> (u32 \<times> u32) \<Rightarrow> u32 list option" where
  "txn_data K s pr t b target =
     do { pid \<leftarrow> (case tx_from t of None \<Rightarrow> Some 0
            | Some f \<Rightarrow> do { ft \<leftarrow> d_threads s f; fp \<leftarrow> d_procs s (th_proc ft); Some (of_int (p_pid fp)) });
          let buffer = (of_int (b_data (b_addr b) + user_buffer_offset (p_space pr)) :: u32);
          Some [fst target, snd target, tx_code t, tx_flags t, pid, sender_euid t, b_data_size b, b_offs_size b,
                buffer, buffer + ALIGN4 (b_data_size b)] }"

text \<open>The nice value of the thread while it runs a call on a node.\<close>

definition take_priority :: "'a kext_scheme \<Rightarrow> int \<Rightarrow> btxn \<Rightarrow> bnode \<Rightarrow> drv \<Rightarrow> drv option" where
  "take_priority K th t n s =
     do { x \<leftarrow> d_threads s th;
          if tx_priority t < min_priority n \<and> \<not> one_way K (tx_flags t) then binder_set_nice K th (tx_priority t) s
          else if \<not> one_way K (tx_flags t) \<or> th_nice x > min_priority n then binder_set_nice K th (min_priority n) s
          else Some s }"

definition read_txn_target :: "'a kext_scheme \<Rightarrow> int \<Rightarrow> int \<Rightarrow> btxn \<Rightarrow> int option \<Rightarrow> drv \<Rightarrow> (drv \<times> br \<times> u32 \<times> u32) option" where
  "read_txn_target K th ta t target s =
     (case target of
        Some a \<Rightarrow> do { n \<leftarrow> d_nodes s a;
                       x \<leftarrow> d_threads s th;
                       s1 \<leftarrow> take_priority K th t n (put_txn ta (t\<lparr>saved_priority := th_nice x\<rparr>) s);
                       Some (s1, BR_TRANSACTION, nd_ptr n, nd_cookie n) }
      | None \<Rightarrow> Some (s, BR_REPLY, 0, 0))"

definition read_txn_done :: "'a kext_scheme \<Rightarrow> int \<Rightarrow> int \<Rightarrow> int \<Rightarrow> int \<Rightarrow> br \<Rightarrow> drv \<Rightarrow> drv option" where
  "read_txn_done K p th ta b cmd s =
     do { t \<leftarrow> d_txns s ta;
          x \<leftarrow> d_threads s th;
          pr \<leftarrow> d_procs s p;
          let s1 = list_del_work (WTxn ta) s;
          let pr1 = pr\<lparr>p_bufs := (p_bufs pr)(b := (p_bufs pr b)\<lparr>allow_user_free := True\<rparr>)\<rparr>;
          Some (if cmd = BR_TRANSACTION \<and> \<not> one_way K (tx_flags t)
                then put_thread th (x\<lparr>transaction_stack := Some ta\<rparr>)
                       (put_txn ta (t\<lparr>tx_to_parent := transaction_stack x, tx_to_thread := Some th\<rparr>) (put_proc p pr1 s1))
                else let s2 = put_proc p (set_buf_txn b None pr1) s1 in s2\<lparr>d_txns := (d_txns s2)(ta := None)\<rparr>) }"

definition read_txn :: "'a kext_scheme \<Rightarrow> (nat \<Rightarrow> bool) \<Rightarrow> int \<Rightarrow> int \<Rightarrow> int \<Rightarrow> rd \<Rightarrow> rdout option" where
  "read_txn K uok p th ta x =
     do { t \<leftarrow> d_txns (rd_s x) ta;
          b \<leftarrow> tx_buffer t;
          pr \<leftarrow> d_procs (rd_s x) p;
          bf \<leftarrow> buf_at (p_space pr) b;
          (s1, cmd, target) \<leftarrow> read_txn_target K th ta t (bu_target (p_bufs pr b)) (rd_s x);
          tr \<leftarrow> txn_data K s1 pr t bf target;
          let (y, ok) = put_words uok (UBr cmd # map UWord tr) (x\<lparr>rd_s := s1\<rparr>);
          if \<not> ok then Some (Fault y)
          else do { s2 \<leftarrow> read_txn_done K p th ta b cmd (rd_s y); Some (Finish (y\<lparr>rd_s := s2\<rparr>)) } }"

section \<open>The work loop\<close>

definition next_work :: "int \<Rightarrow> int \<Rightarrow> bool \<Rightarrow> drv \<Rightarrow> work option" where
  "next_work p th wait_for_proc_work s =
     (case work_on (ThreadTodo th) s of
        w # _ \<Rightarrow> Some w
      | [] \<Rightarrow> if wait_for_proc_work then (case work_on (ProcTodo p) s of w # _ \<Rightarrow> Some w | [] \<Rightarrow> None) else None)"

text \<open>The test for room is unsigned: it also passes when the read starts behind the end.\<close>

definition room_left :: "nat \<Rightarrow> nat \<Rightarrow> u32" where
  "room_left sz ptr = of_int (int sz - int ptr)"

definition read_step :: "'a kext_scheme \<Rightarrow> (nat \<Rightarrow> bool) \<Rightarrow> int \<Rightarrow> int \<Rightarrow> nat \<Rightarrow> bool \<Rightarrow> rd \<Rightarrow> rdout option" where
  "read_step K uok p th sz wait_for_proc_work x =
     (case next_work p th wait_for_proc_work (rd_s x) of
        None \<Rightarrow> do { t \<leftarrow> d_threads (rd_s x) th;
                     Some (if rd_ptr x = 0 \<and> \<not> lp_need_return t then Retry x else Finish x) }
      | Some w \<Rightarrow>
          if room_left sz (rd_ptr x) < 40 + 4 then Some (Finish x)
          else (case w of
                  WTxn t \<Rightarrow> read_txn K uok p th t x
                | WComplete c \<Rightarrow> read_complete uok c x
                | WNode a \<Rightarrow> read_node K uok p a x
                | WDeath d \<Rightarrow> read_death uok p d x))"

section \<open>The loop ends\<close>

text \<open>
  A step that continues removes a work item, or tells an owner about one of the two
  flags of a node that differ from its counts. Counts below 0 do not occur; the
  measure covers them because the loop ends then too.
\<close>

definition flags_due :: "bnode \<Rightarrow> nat" where
  "flags_due n = (if has_weak_ref n = node_weak n then 0 else 1) + (if has_strong_ref n = node_strong n then 0 else 1)
     + 2 * nat (- local_weak_refs n) + 2 * nat (- local_strong_refs n)"

definition work_cost :: "drv \<Rightarrow> list_id \<times> work \<Rightarrow> nat" where
  "work_cost s e = 1 + (case snd e of WNode a \<Rightarrow> (case d_nodes s a of Some n \<Rightarrow> flags_due n | None \<Rightarrow> 0) | _ \<Rightarrow> 0)"

definition todo_cost :: "drv \<Rightarrow> nat" where "todo_cost s = sum_list (map (work_cost s) (d_work s))"

lemma put_words_frame: "put_words uok ws x = (y, ok) \<Longrightarrow> rd_s y = rd_s x"
  by (induction uok ws x rule: put_words.induct) (auto split: if_splits)

lemma next_work_on:
  assumes "next_work p th wp s = Some w"
  obtains l where "w \<in> set (work_on l s)" "l = ThreadTodo th \<or> wp \<and> l = ProcTodo p"
proof (cases "work_on (ThreadTodo th) s")
  case Nil
  then show ?thesis using assms that [of "ProcTodo p"] by (auto simp: next_work_def split: if_splits list.splits)
qed (use assms that [of "ThreadTodo th"] in \<open>auto simp: next_work_def\<close>)

lemma work_on_iff: "w \<in> set (work_on l s) \<longleftrightarrow> (l, w) \<in> set (d_work s)"
  by (auto simp: work_on_def) force

lemma next_work_queued: "next_work p th wp s = Some w \<Longrightarrow> queued w s"
  by (elim next_work_on) (force simp: work_on_iff queued_def)

lemma sum_list_mono_strict:
  fixes f g :: "'a \<Rightarrow> nat"
  assumes "x \<in> set xs" and "f x < g x" and "\<And>y. f y \<le> g y"
  shows "sum_list (map f xs) < sum_list (map g xs)"
  using assms(1)
proof (induction xs)
  case (Cons y ys)
  have "sum_list (map f ys) \<le> sum_list (map g ys)" by (rule sum_list_mono) (rule assms(3))
  then show ?case using Cons assms(2) assms(3) [of y] by (cases "x = y") (auto simp: add_less_le_mono add_le_less_mono)
qed simp

lemma cost_del:
  assumes "queued w s" and "\<And>a. WNode a \<noteq> w \<Longrightarrow> d_nodes s' a = d_nodes s a"
    and "d_work s' = filter (\<lambda>e. snd e \<noteq> w) (d_work s)"
  shows "todo_cost s' < todo_cost s"
proof -
  have same: "work_cost s' e = work_cost s e" if "snd e \<noteq> w" for e
    using assms(2) that by (auto simp: work_cost_def split: work.split)
  have "sum_list (map (work_cost s') (filter (\<lambda>e. snd e \<noteq> w) W)) + length (filter (\<lambda>e. snd e = w) W) \<le> sum_list (map (work_cost s) W)" for W
  proof (induction W)
    case (Cons e W)
    then show ?case using same [of e] by (auto simp: work_cost_def [of s])
  qed simp
  moreover have "0 < length (filter (\<lambda>e. snd e = w) (d_work s))" using assms(1) by (auto simp: queued_def filter_empty_conv)
  ultimately show ?thesis unfolding todo_cost_def assms(3) by (meson less_add_same_cancel1 order_less_le_trans)
qed

lemma command_cases:
  assumes "node_command n = Some (cmd, n')"
  obtains (incref) "node_weak n" "\<not> has_weak_ref n" "cmd = BR_INCREFS"
      "n' = n\<lparr>has_weak_ref := True, pending_weak_ref := True, local_weak_refs := local_weak_refs n + 1\<rparr>"
    | (acquire) "node_strong n" "\<not> has_strong_ref n" "has_weak_ref n" "node_weak n" "cmd = BR_ACQUIRE"
      "n' = n\<lparr>has_strong_ref := True, pending_strong_ref := True, local_strong_refs := local_strong_refs n + 1\<rparr>"
    | (release) "\<not> node_strong n" "has_strong_ref n" "cmd = BR_RELEASE" "n' = n\<lparr>has_strong_ref := False\<rparr>"
    | (decref) "\<not> node_weak n" "has_weak_ref n" "cmd = BR_DECREFS" "n' = n\<lparr>has_weak_ref := False\<rparr>"
proof -
  have sw: "node_strong n \<Longrightarrow> node_weak n" by (simp add: node_weak_def)
  consider "node_weak n \<and> \<not> has_weak_ref n" | "\<not> (node_weak n \<and> \<not> has_weak_ref n)" "node_strong n \<and> \<not> has_strong_ref n"
    | "\<not> (node_weak n \<and> \<not> has_weak_ref n)" "\<not> (node_strong n \<and> \<not> has_strong_ref n)" "\<not> node_strong n \<and> has_strong_ref n"
    | "\<not> (node_weak n \<and> \<not> has_weak_ref n)" "\<not> (node_strong n \<and> \<not> has_strong_ref n)" "\<not> (\<not> node_strong n \<and> has_strong_ref n)"
    by argo
  then show thesis
  proof cases
    case 1
    show thesis by (rule that(1)) (use 1 assms in \<open>auto simp: node_command_def\<close>)
  next
    case 2
    show thesis by (rule that(2)) (use 2 sw assms in \<open>auto simp: node_command_def\<close>)
  next
    case 3
    show thesis by (rule that(3)) (use 3 assms in \<open>auto simp: node_command_def\<close>)
  next
    case 4
    have "\<not> node_weak n \<and> has_weak_ref n" using 4 assms by (auto simp: node_command_def split: if_splits)
    then show thesis by (intro that(4)) (use 4 assms in \<open>auto simp: node_command_def\<close>)
  qed
qed

lemma command_cost: "node_command n = Some (cmd, n') \<Longrightarrow> flags_due n' < flags_due n"
proof -
  assume c: "node_command n = Some (cmd, n')"
  from c show ?thesis
  proof (cases rule: command_cases)
    case incref
    have "node_weak n'" if "0 \<le> local_weak_refs n" using that by (simp add: incref(4) node_weak_def)
    moreover have "node_strong n' = node_strong n" by (simp add: incref(4) node_strong_def)
    ultimately show ?thesis using incref by (cases "0 \<le> local_weak_refs n") (auto simp: flags_due_def)
  next
    case acquire
    have "node_strong n' \<and> node_weak n'" if "0 \<le> local_strong_refs n" using that by (simp add: acquire(6) node_weak_def node_strong_def)
    then show ?thesis using acquire by (cases "0 \<le> local_strong_refs n") (auto simp: flags_due_def)
  next
    case release
    have "node_strong n' = node_strong n" "node_weak n' = node_weak n" by (simp_all add: release(4) node_weak_def node_strong_def)
    then show ?thesis using release by (simp add: flags_due_def)
  next
    case decref
    have "node_strong n' = node_strong n" "node_weak n' = node_weak n" by (simp_all add: decref(4) node_weak_def node_strong_def)
    then show ?thesis using decref by (simp add: flags_due_def)
  qed
qed

lemma cost_node:
  assumes "queued (WNode a) s" and "d_nodes s a = Some n" and "flags_due n' < flags_due n"
  shows "todo_cost (put_node a n' s) < todo_cost s"
proof -
  let ?s = "put_node a n' s"
  have le: "work_cost ?s e \<le> work_cost s e" for e using assms(2,3) by (auto simp: work_cost_def split: work.split)
  obtain l where l: "(l, WNode a) \<in> set (d_work s)" using assms(1) by (auto simp: queued_def)
  have "work_cost ?s (l, WNode a) < work_cost s (l, WNode a)" using assms(2,3) by (simp add: work_cost_def)
  then show ?thesis unfolding todo_cost_def using l le sum_list_mono_strict [of _ "d_work s" "work_cost ?s" "work_cost s"] by auto
qed

lemma read_step_cost:
  assumes "read_step K uok p th sz wp x = Some (Continue y)"
  shows "todo_cost (rd_s y) < todo_cost (rd_s x)"
proof -
  obtain w where w: "next_work p th wp (rd_s x) = Some w" using assms by (auto simp: read_step_def split: option.splits if_splits Option.bind_splits)
  then have q: "queued w (rd_s x)" by (rule next_work_queued)
  have body: "(case w of WTxn t \<Rightarrow> read_txn K uok p th t x | WComplete c \<Rightarrow> read_complete uok c x
      | WNode a \<Rightarrow> read_node K uok p a x | WDeath d \<Rightarrow> read_death uok p d x) = Some (Continue y)"
    using assms w by (auto simp: read_step_def split: if_splits)
  show ?thesis
  proof (cases w)
    case (WTxn t)
    then show ?thesis using body by (auto simp: read_txn_def split: if_splits prod.splits Option.bind_splits)
  next
    case (WComplete c)
    then show ?thesis using body q put_words_frame
      by (intro cost_del [of w]) (auto simp: read_complete_def Let_def list_del_work_def split: if_splits prod.splits)
  next
    case (WDeath d)
    then show ?thesis using body q put_words_frame
      by (intro cost_del [of w]) (auto simp: read_death_def Let_def list_del_work_def
        split: if_splits prod.splits Option.bind_splits)
  next
    case (WNode a)
    then obtain n where n: "d_nodes (rd_s x) a = Some n" using body by (auto simp: read_node_def split: Option.bind_splits)
    show ?thesis
    proof (cases "node_command n")
      case None
      then show ?thesis using body q WNode n
        by (intro cost_del [of w]) (auto simp: read_node_def Let_def list_del_work_def put_proc_def free_node_def
          split: if_splits Option.bind_splits)
    next
      case (Some c)
      obtain cmd n' where c: "node_command n = Some (cmd, n')" using Some by (cases c) auto
      then have "rd_s y = put_node a n' (rd_s x)" using body WNode n put_words_frame
        by (auto simp: read_node_def Let_def split: if_splits prod.splits)
      then show ?thesis using cost_node [OF _ n command_cost [OF c]] q WNode by simp
    qed
  qed
qed

function read_loop :: "'a kext_scheme \<Rightarrow> (nat \<Rightarrow> bool) \<Rightarrow> int \<Rightarrow> int \<Rightarrow> nat \<Rightarrow> bool \<Rightarrow> rd \<Rightarrow> rdout option" where
  "read_loop K uok p th sz wp x =
     (case read_step K uok p th sz wp x of
        Some (Continue y) \<Rightarrow> read_loop K uok p th sz wp y
      | r \<Rightarrow> r)"
  by pat_completeness auto

termination
  by (relation "measure (\<lambda>(K, uok, p, th, sz, wp, x). todo_cost (rd_s x))") (auto intro: read_step_cost)

declare read_loop.simps [simp del]

section \<open>Waiting\<close>

definition binder_has_proc_work :: "int \<Rightarrow> int \<Rightarrow> drv \<Rightarrow> bool" where
  "binder_has_proc_work p th s \<longleftrightarrow> work_on (ProcTodo p) s \<noteq> []
     \<or> (case d_threads s th of Some t \<Rightarrow> lp_need_return t | None \<Rightarrow> False)"

definition binder_has_thread_work :: "int \<Rightarrow> drv \<Rightarrow> bool" where
  "binder_has_thread_work th s \<longleftrightarrow> work_on (ThreadTodo th) s \<noteq> []
     \<or> (case d_threads s th of Some t \<Rightarrow> return_error t \<noteq> BR_OK \<or> lp_need_return t | None \<Rightarrow> False)"

text \<open>
  One entry of \<open>env\<close> is what the other threads do before the condition is
  looked at, whether a signal is pending then, and what they do between the end of
  the wait and the lock. With the list at its end nobody interferes any more. No
  result means that the thread sleeps.
\<close>

abbreviation (input) ERESTARTSYS :: int where "ERESTARTSYS \<equiv> 512"

type_synonym interference = "(drv \<Rightarrow> drv) \<times> bool \<times> (drv \<Rightarrow> drv)"

fun wait_work :: "(drv \<Rightarrow> bool) \<Rightarrow> bool \<Rightarrow> interference list \<Rightarrow> drv \<Rightarrow> drv \<times> (int \<times> interference list) option" where
  "wait_work has non_block [] s =
     (s, if has s then Some (0, []) else if non_block then Some (-EAGAIN, []) else None)"
| "wait_work has non_block ((before, signal, after) # env) s =
     (let s1 = before s in
      if has s1 then (after s1, Some (0, env))
      else if non_block then (after s1, Some (-EAGAIN, env))
      else if signal then (after s1, Some (-ERESTARTSYS, env))
      else wait_work has non_block env s1)"

definition begin_wait :: "'a kext_scheme \<Rightarrow> int \<Rightarrow> int \<Rightarrow> bool \<Rightarrow> drv \<Rightarrow> drv option" where
  "begin_wait K p th wait_for_proc_work s =
     do { t \<leftarrow> d_threads s th;
          pr \<leftarrow> d_procs s p;
          let s1 = put_thread th (t\<lparr>lp_waiting := True\<rparr>) s;
          if wait_for_proc_work
          then binder_set_nice K th (default_priority pr) (put_proc p (pr\<lparr>ready_threads := ready_threads pr + 1\<rparr>) s1)
          else Some s1 }"

definition end_wait :: "int \<Rightarrow> int \<Rightarrow> bool \<Rightarrow> drv \<Rightarrow> drv option" where
  "end_wait p th wait_for_proc_work s =
     do { t \<leftarrow> d_threads s th;
          pr \<leftarrow> d_procs s p;
          let s1 = (if wait_for_proc_work then put_proc p (pr\<lparr>ready_threads := ready_threads pr - 1\<rparr>) s else s);
          Some (put_thread th (t\<lparr>lp_waiting := False\<rparr>) s1) }"

section \<open>A read\<close>

text \<open>Errors of the last write come first; \<open>Continue\<close> if there is none.\<close>

definition put_error :: "(nat \<Rightarrow> bool) \<Rightarrow> int \<Rightarrow> bthread \<Rightarrow> rd \<Rightarrow> rdout" where
  "put_error uok th t x =
     (let (y, ok) = put_words uok [UBr (return_error t)] x
      in if ok then Finish (y\<lparr>rd_s := put_thread th (t\<lparr>return_error := BR_OK\<rparr>) (rd_s y)\<rparr>) else Fault y)"

definition read_errors :: "(nat \<Rightarrow> bool) \<Rightarrow> nat \<Rightarrow> int \<Rightarrow> rd \<Rightarrow> rdout option" where
  "read_errors uok sz th x =
     do { t \<leftarrow> d_threads (rd_s x) th;
          if return_error t = BR_OK \<or> sz \<le> rd_ptr x then Some (Continue x)
          else if return_error2 t = BR_OK then Some (put_error uok th t x)
          else
            let (y, ok) = put_words uok [UBr (return_error2 t)] x;
                t1 = t\<lparr>return_error2 := BR_OK\<rparr>
            in Some (if \<not> ok then Fault y else if rd_ptr y = sz then Finish y
                     else put_error uok th t1 (y\<lparr>rd_s := put_thread th t1 (rd_s y)\<rparr>)) }"

text \<open>What a read comes to: state, buffer, \<open>*consumed\<close> and the result.\<close>

datatype read_res = Returned drv ubuf nat int | Sleeping drv | OutOfAttempts

definition read_finish :: "(nat \<Rightarrow> bool) \<Rightarrow> int \<Rightarrow> int \<Rightarrow> rd \<Rightarrow> read_res option" where
  "read_finish uok p th x =
     do { t \<leftarrow> d_threads (rd_s x) th;
          pr \<leftarrow> d_procs (rd_s x) p;
          if requested_threads pr + ready_threads pr = 0 \<and> requested_threads_started pr < max_threads pr
             \<and> (lp_registered t \<or> lp_entered t)
          then let s1 = put_proc p (pr\<lparr>requested_threads := requested_threads pr + 1\<rparr>) (rd_s x)
               in Some (if uok 0 then Returned s1 ((rd_mem x)(0 \<mapsto> UBr BR_SPAWN_LOOPER)) (rd_ptr x) 0
                        else Returned s1 (rd_mem x) (rd_ptr x) (-EFAULT))
          else Some (Returned (rd_s x) (rd_mem x) (rd_ptr x) 0) }"

fun read_tries ::
    "'a kext_scheme \<Rightarrow> (nat \<Rightarrow> bool) \<Rightarrow> int \<Rightarrow> int \<Rightarrow> nat \<Rightarrow> nat \<Rightarrow> bool \<Rightarrow> nat \<Rightarrow> interference list \<Rightarrow> rd \<Rightarrow> read_res option" where
  "read_tries K uok p th sz consumed non_block 0 env x = Some OutOfAttempts"
| "read_tries K uok p th sz consumed non_block (Suc n) env x =
     do { t \<leftarrow> d_threads (rd_s x) th;
          let wait_for_proc_work = (transaction_stack t = None \<and> work_on (ThreadTodo th) (rd_s x) = []);
          r \<leftarrow> read_errors uok sz th x;
          case r of
            Fault y \<Rightarrow> Some (Returned (rd_s y) (rd_mem y) consumed (-EFAULT))
          | Finish y \<Rightarrow> read_finish uok p th y
          | _ \<Rightarrow>
              do { s1 \<leftarrow> begin_wait K p th wait_for_proc_work (rd_s x);
                   case wait_work (if wait_for_proc_work then binder_has_proc_work p th else binder_has_thread_work th) non_block env s1 of
                     (s2, None) \<Rightarrow> Some (Sleeping s2)
                   | (s2, Some (ret, env')) \<Rightarrow>
                       do { s3 \<leftarrow> end_wait p th wait_for_proc_work s2;
                            if ret \<noteq> 0 then Some (Returned s3 (rd_mem x) consumed ret)
                            else do { out \<leftarrow> read_loop K uok p th sz wait_for_proc_work (x\<lparr>rd_s := s3\<rparr>);
                                      case out of
                                        Finish y \<Rightarrow> read_finish uok p th y
                                      | Fault y \<Rightarrow> Some (Returned (rd_s y) (rd_mem y) consumed (-EFAULT))
                                      | Retry y \<Rightarrow> read_tries K uok p th sz consumed non_block n env' y
                                      | Continue y \<Rightarrow> None } } } }"

text \<open>
  Each turn of the outer loop takes one entry of \<open>env\<close>, and three more are
  enough once the others are quiet.
\<close>

definition binder_thread_read ::
    "'a kext_scheme \<Rightarrow> (nat \<Rightarrow> bool) \<Rightarrow> int \<Rightarrow> int \<Rightarrow> nat \<Rightarrow> nat \<Rightarrow> bool \<Rightarrow> interference list \<Rightarrow> ubuf \<Rightarrow> drv \<Rightarrow> read_res option" where
  "binder_thread_read K uok p th sz consumed non_block env mem s =
     read_tries K uok p th sz consumed non_block (length env + 3) env \<lparr>rd_s = s, rd_mem = mem, rd_ptr = consumed\<rparr>"

end
