(* ===== verification/KernelReadProps.thy ===== *)
theory KernelReadProps
  imports KernelRead
begin

text \<open>
  What a read promises: it returns or sleeps and never spins, it keeps the graph of
  nodes and references in order, and it delivers the first transaction that waits.
\<close>

section \<open>A read returns or sleeps\<close>

lemma put_words_ptr: "put_words uok ws x = (y, ok) \<Longrightarrow> rd_ptr x \<le> rd_ptr y"
  by (induction uok ws x rule: put_words.induct) (fastforce split: if_splits)+

declare put_words.simps [simp del]

lemma read_step_frame:
  assumes "read_step K uok p th sz wp x = Some (Continue y)"
  shows "d_threads (rd_s y) = d_threads (rd_s x)" "rd_ptr x \<le> rd_ptr y"
proof -
  obtain w where w: "next_work p th wp (rd_s x) = Some w" using assms by (auto simp: read_step_def split: option.splits if_splits Option.bind_splits)
  have body: "(case w of WTxn t \<Rightarrow> read_txn K uok p th t x | WComplete c \<Rightarrow> read_complete uok c x
      | WNode a \<Rightarrow> read_node K uok p a x | WDeath d \<Rightarrow> read_death uok p d x) = Some (Continue y)"
    using assms w by (auto simp: read_step_def split: if_splits)
  have "d_threads (rd_s y) = d_threads (rd_s x) \<and> rd_ptr x \<le> rd_ptr y"
  proof (cases w)
    case (WTxn t)
    then show ?thesis using body by (auto simp: read_txn_def split: if_splits prod.splits Option.bind_splits)
  next
    case (WComplete c)
    then show ?thesis using body put_words_frame put_words_ptr
      by (fastforce simp: read_complete_def Let_def list_del_work_def split: if_splits prod.splits)
  next
    case (WDeath d)
    then show ?thesis using body put_words_frame put_words_ptr
      by (fastforce simp: read_death_def Let_def list_del_work_def split: if_splits prod.splits Option.bind_splits)
  next
    case (WNode a)
    then show ?thesis using body put_words_frame put_words_ptr
      by (fastforce simp: read_node_def Let_def list_del_work_def free_node_def split: if_splits option.splits prod.splits Option.bind_splits)
  qed
  then show "d_threads (rd_s y) = d_threads (rd_s x)" "rd_ptr x \<le> rd_ptr y" by simp_all
qed

text \<open>When the loop asks for another turn it wrote nothing and left no work that it may take.\<close>

definition idle :: "int \<Rightarrow> int \<Rightarrow> bool \<Rightarrow> rd \<Rightarrow> bool" where
  "idle p th wp x \<longleftrightarrow> rd_ptr x = 0 \<and> work_on (ThreadTodo th) (rd_s x) = [] \<and> (wp \<longrightarrow> work_on (ProcTodo p) (rd_s x) = [])
     \<and> (\<exists>t. d_threads (rd_s x) th = Some t \<and> \<not> lp_need_return t)"

lemma read_loop_retry:
  assumes "read_loop K uok p th sz wp x = Some (Retry y)"
  shows "idle p th wp y \<and> d_threads (rd_s y) = d_threads (rd_s x)"
  using assms
proof (induction K uok p th sz wp x rule: read_loop.induct)
  case (1 K uok p th sz wp x)
  show ?case
  proof (cases "\<exists>z. read_step K uok p th sz wp x = Some (Continue z)")
    case True
    then obtain z where z: "read_step K uok p th sz wp x = Some (Continue z)" by blast
    then show ?thesis using 1 read_step_frame(1) [OF z] by (simp add: read_loop.simps [of K uok p th sz wp x])
  next
    case False
    then have r: "read_step K uok p th sz wp x = Some (Retry y)"
      using 1 by (auto simp: read_loop.simps [of K uok p th sz wp x] split: option.splits rdout.splits)
    have "next_work p th wp (rd_s x) = None"
    proof (rule ccontr)
      assume "next_work p th wp (rd_s x) \<noteq> None"
      then obtain w where "next_work p th wp (rd_s x) = Some w" by blast
      then show False using r
        by (cases w) (auto simp: read_step_def read_txn_def read_node_def read_complete_def read_death_def Let_def
          split: if_splits option.splits prod.splits Option.bind_splits)
    qed
    moreover from this have "y = x" "idle p th wp x"
      using r by (auto simp: read_step_def idle_def next_work_def split: if_splits list.splits Option.bind_splits)
    ultimately show ?thesis by simp
  qed
qed

lemma read_loop_continue: "read_loop K uok p th sz wp x \<noteq> Some (Continue y)"
proof (induction K uok p th sz wp x rule: read_loop.induct)
  case (1 K uok p th sz wp x)
  then show ?case by (auto simp: read_loop.simps [of K uok p th sz wp x] split: option.splits rdout.splits)
qed

fun returned :: "read_res \<Rightarrow> bool" where
  "returned (Returned s mem c ret) = True"
| "returned _ = False"

lemma read_finish_returned: "read_finish uok p th x = Some r \<Longrightarrow> returned r"
  by (auto simp: read_finish_def Let_def split: if_splits Option.bind_splits)

definition turn_waits :: "int \<Rightarrow> rd \<Rightarrow> bool" where
  "turn_waits th x \<longleftrightarrow> (\<exists>t. d_threads (rd_s x) th = Some t \<and> transaction_stack t = None) \<and> work_on (ThreadTodo th) (rd_s x) = []"

text \<open>An attempt that does not return sleeps, or has found work and is followed by another one.\<close>

lemma attempt_cases:
  assumes "read_tries K uok p th sz consumed nb (Suc n) env x = Some r" and "\<not> returned r"
  obtains (sleep) has s1 s2 where "wait_work has nb env s1 = (s2, None)" "r = Sleeping s2"
  | (again) s1 s2 s3 env' y where "begin_wait K p th (turn_waits th x) (rd_s x) = Some s1"
    "wait_work (if turn_waits th x then binder_has_proc_work p th else binder_has_thread_work th) nb env s1 = (s2, Some (0, env'))"
    "end_wait p th (turn_waits th x) s2 = Some s3"
    "read_loop K uok p th sz (turn_waits th x) (x\<lparr>rd_s := s3\<rparr>) = Some (Retry y)"
    "read_tries K uok p th sz consumed nb n env' y = Some r"
    "read_errors uok sz th x = Some (Continue x)"
proof -
  obtain t where t: "d_threads (rd_s x) th = Some t" using assms(1) by (auto split: Option.bind_splits)
  have w: "(transaction_stack t = None \<and> work_on (ThreadTodo th) (rd_s x) = []) = turn_waits th x" by (simp add: turn_waits_def t)
  define q where "q = read_errors uok sz th x"
  have "q = None \<Longrightarrow> False" using assms t by (simp add: q_def Let_def)
  moreover have "q \<noteq> Some (Fault y)" "q \<noteq> Some (Finish y)" for y
    using assms t read_finish_returned by (auto simp: q_def Let_def)
  moreover have "q \<noteq> Some (Retry y)" "q = Some (Continue y) \<Longrightarrow> y = x" for y
    by (auto simp: q_def read_errors_def put_error_def Let_def split: if_splits prod.splits Option.bind_splits)
  ultimately have r: "read_errors uok sz th x = Some (Continue x)" by (metis q_def option.exhaust rdout.exhaust)
  define has where "has = (if turn_waits th x then binder_has_proc_work p th else binder_has_thread_work th)"
  obtain s1 where s1: "begin_wait K p th (turn_waits th x) (rd_s x) = Some s1"
    using assms t r w by (auto simp: Let_def split: Option.bind_splits)
  obtain s2 e where s2: "wait_work has nb env s1 = (s2, e)" by fastforce
  from assms(1) have body: "(case (s2, e) of (s2, None) \<Rightarrow> Some (Sleeping s2)
      | (s2, Some (ret, env')) \<Rightarrow> do { s3 \<leftarrow> end_wait p th (turn_waits th x) s2;
          if ret \<noteq> 0 then Some (Returned s3 (rd_mem x) consumed ret)
          else do { out \<leftarrow> read_loop K uok p th sz (turn_waits th x) (x\<lparr>rd_s := s3\<rparr>);
            case out of Finish y \<Rightarrow> read_finish uok p th y
            | Fault y \<Rightarrow> Some (Returned (rd_s y) (rd_mem y) consumed (-EFAULT))
            | Retry y \<Rightarrow> read_tries K uok p th sz consumed nb n env' y | Continue y \<Rightarrow> None } }) = Some r"
    by (simp only: read_tries.simps t Option.bind.simps w Let_def r rdout.case s1 has_def [symmetric] s2)
  show thesis
  proof (cases e)
    case None
    then show thesis using sleep s2 body by simp
  next
    case (Some f)
    then obtain env' s3 out where o: "e = Some (0, env')" "end_wait p th (turn_waits th x) s2 = Some s3"
        "read_loop K uok p th sz (turn_waits th x) (x\<lparr>rd_s := s3\<rparr>) = Some out"
      using body assms(2) by (auto split: if_splits Option.bind_splits prod.splits)
    then obtain y where "out = Retry y" "read_tries K uok p th sz consumed nb n env' y = Some r"
      using body assms(2) read_finish_returned by (auto split: rdout.splits)
    then show thesis using again s1 s2 o r unfolding has_def by blast
  qed
qed

lemma spin_step:
  assumes "read_tries K uok p th sz consumed nb (Suc n) env x = Some OutOfAttempts"
  obtains s1 s2 s3 env' y where "begin_wait K p th (turn_waits th x) (rd_s x) = Some s1"
    "wait_work (if turn_waits th x then binder_has_proc_work p th else binder_has_thread_work th) nb env s1 = (s2, Some (0, env'))"
    "end_wait p th (turn_waits th x) s2 = Some s3"
    "read_loop K uok p th sz (turn_waits th x) (x\<lparr>rd_s := s3\<rparr>) = Some (Retry y)"
    "read_tries K uok p th sz consumed nb n env' y = Some OutOfAttempts"
    "read_errors uok sz th x = Some (Continue x)"
  using assms by (rule attempt_cases) simp_all

lemma wait_env: "wait_work has nb env s = (s', Some (r, env')) \<Longrightarrow> env = [] \<and> env' = [] \<or> length env' < length env"
  by (induction has nb env s rule: wait_work.induct) (fastforce simp: Let_def split: if_splits)+

lemma wait_quiet: "wait_work has nb [] s = (s', Some (0, env')) \<Longrightarrow> has s \<and> s' = s"
  by (auto split: if_splits)

lemma work_on_put [simp]: "work_on l (put_thread a x s) = work_on l s" "work_on l (put_proc b y s) = work_on l s"
  by (simp_all add: work_on_def put_thread_def put_proc_def)

lemma put_thread_simps [simp]:
  "d_threads (put_thread a x s) = (d_threads s)(a \<mapsto> x)" "d_procs (put_thread a x s) = d_procs s" "d_nodes (put_thread a x s) = d_nodes s"
  "d_refs (put_thread a x s) = d_refs s" "d_deaths (put_thread a x s) = d_deaths s" "d_work (put_thread a x s) = d_work s"
  "d_txns (put_thread a x s) = d_txns s" "dead_nodes (put_thread a x s) = dead_nodes s" "context_mgr_node (put_thread a x s) = context_mgr_node s"
  by (simp_all add: put_thread_def)

lemma begin_wait_frame:
  assumes "begin_wait K p th wp s = Some s1"
  shows "work_on l s1 = work_on l s"
    "\<exists>t k. d_threads s th = Some t \<and> d_threads s1 = (d_threads s)(th \<mapsto> t\<lparr>lp_waiting := True, th_nice := k\<rparr>)"
proof -
  obtain t where t: "d_threads s th = Some t" using assms by (auto simp: begin_wait_def split: Option.bind_splits)
  show "\<exists>t k. d_threads s th = Some t \<and> d_threads s1 = (d_threads s)(th \<mapsto> t\<lparr>lp_waiting := True, th_nice := k\<rparr>)"
  proof (cases wp)
    case True
    then show ?thesis using assms t by (auto simp: begin_wait_def binder_set_nice_def Let_def split: if_splits Option.bind_splits)
  next
    case False
    then have "d_threads s1 = (d_threads s)(th \<mapsto> t\<lparr>lp_waiting := True, th_nice := th_nice t\<rparr>)"
      using assms t by (auto simp: begin_wait_def Let_def split: Option.bind_splits)
    then show ?thesis using t by blast
  qed
qed (use assms in \<open>auto simp: begin_wait_def binder_set_nice_def Let_def split: if_splits Option.bind_splits\<close>)

lemma end_wait_frame:
  assumes "end_wait p th wp s = Some s1"
  shows "work_on l s1 = work_on l s" "\<exists>t. d_threads s th = Some t \<and> d_threads s1 = (d_threads s)(th \<mapsto> t\<lparr>lp_waiting := False\<rparr>)"
  using assms by (auto simp: end_wait_def Let_def split: if_splits Option.bind_splits)

lemma idle_mono: "idle p th wp x \<Longrightarrow> (wp' \<longrightarrow> wp) \<Longrightarrow> idle p th wp' x"
  by (auto simp: idle_def)

lemma spin_idle:
  assumes "idle p th (turn_waits th x) x" and "0 < sz"
  shows "read_tries K uok p th sz consumed nb (Suc n) [] x \<noteq> Some OutOfAttempts"
proof
  assume "read_tries K uok p th sz consumed nb (Suc n) [] x = Some OutOfAttempts"
  then obtain s1 s2 env' where b: "begin_wait K p th (turn_waits th x) (rd_s x) = Some s1"
    "wait_work (if turn_waits th x then binder_has_proc_work p th else binder_has_thread_work th) nb [] s1 = (s2, Some (0, env'))"
    "read_errors uok sz th x = Some (Continue x)" by (rule spin_step) blast
  obtain t where t: "d_threads (rd_s x) th = Some t" "\<not> lp_need_return t" using assms(1) by (auto simp: idle_def)
  have t1: "\<exists>u. d_threads s1 th = Some u \<and> \<not> lp_need_return u \<and> return_error u = return_error t"
    using begin_wait_frame(2) [OF b(1)] t by auto
  have "return_error t = BR_OK"
    using b(3) t assms by (auto simp: read_errors_def idle_def put_error_def Let_def split: if_splits prod.splits)
  then show False
    using wait_quiet [OF b(2)] assms(1) t1 begin_wait_frame(1) [OF b(1)]
    by (auto simp: idle_def binder_has_proc_work_def binder_has_thread_work_def split: if_splits)
qed

lemma turn_stack:
  assumes "begin_wait K p th wp (rd_s x) = Some s1" "end_wait p th wp s1 = Some s3" "d_threads (rd_s y) = d_threads s3"
    and "work_on (ThreadTodo th) (rd_s x) = []"
  shows "turn_waits th y \<longrightarrow> turn_waits th x"
  using begin_wait_frame(2) [OF assms(1)] end_wait_frame(2) [OF assms(2)] assms(3,4) by (auto simp: turn_waits_def)

lemma spin_quiet:
  assumes "idle p th False x" and "0 < sz"
  shows "read_tries K uok p th sz consumed nb (Suc (Suc n)) [] x \<noteq> Some OutOfAttempts"
proof
  assume "read_tries K uok p th sz consumed nb (Suc (Suc n)) [] x = Some OutOfAttempts"
  then obtain s1 s2 s3 env' y where b: "begin_wait K p th (turn_waits th x) (rd_s x) = Some s1"
    "wait_work (if turn_waits th x then binder_has_proc_work p th else binder_has_thread_work th) nb [] s1 = (s2, Some (0, env'))"
    "end_wait p th (turn_waits th x) s2 = Some s3"
    "read_loop K uok p th sz (turn_waits th x) (x\<lparr>rd_s := s3\<rparr>) = Some (Retry y)"
    "read_tries K uok p th sz consumed nb (Suc n) env' y = Some OutOfAttempts" by (rule spin_step) blast
  have e: "env' = []" "s2 = s1" using wait_env [OF b(2)] wait_quiet [OF b(2)] by auto
  have i: "idle p th (turn_waits th x) y" "d_threads (rd_s y) = d_threads s3" using read_loop_retry [OF b(4)] by simp_all
  have "turn_waits th y \<longrightarrow> turn_waits th x"
    by (rule turn_stack [OF b(1) b(3) [unfolded e(2)] i(2)]) (use assms in \<open>simp add: idle_def\<close>)
  then have "idle p th (turn_waits th y) y" by (rule idle_mono [OF i(1)])
  then show False using spin_idle [OF _ assms(2)] b(5) e by blast
qed

lemma no_spin:
  assumes "length env + 3 \<le> n" and "0 < sz"
  shows "read_tries K uok p th sz consumed nb n env x \<noteq> Some OutOfAttempts"
  using assms(1)
proof (induction env arbitrary: n x rule: length_induct)
  case (1 env)
  obtain m where m: "n = Suc m" using "1.prems" by (cases n) auto
  show ?case
  proof
    assume "read_tries K uok p th sz consumed nb n env x = Some OutOfAttempts"
    then obtain s1 s2 s3 env' y where b: "wait_work (if turn_waits th x then binder_has_proc_work p th else binder_has_thread_work th) nb env s1 = (s2, Some (0, env'))"
      "read_loop K uok p th sz (turn_waits th x) (x\<lparr>rd_s := s3\<rparr>) = Some (Retry y)"
      "read_tries K uok p th sz consumed nb m env' y = Some OutOfAttempts" unfolding m by (rule spin_step) blast
    consider "env = []" "env' = []" | "length env' < length env" using wait_env [OF b(1)] by blast
    then show False
    proof cases
      case 1
      obtain k where "m = Suc (Suc k)" using m "1.prems" by (metis Suc_le_D Suc_le_mono add_leD2 numeral_3_eq_3)
      moreover have "idle p th False y" using read_loop_retry [OF b(2)] by (auto intro: idle_mono)
      ultimately show False using spin_quiet [OF _ assms(2)] b(3) 1 by blast
    next
      case 2
      then show False using "1.IH" "1.prems" m b(3) by auto
    qed
  qed
qed

lemma wait_no_block: "snd (wait_work has True env s) \<noteq> None"
  by (cases env) (auto simp: Let_def split: if_splits)

lemma no_sleep:
  assumes nb
  shows "read_tries K uok p th sz consumed nb n env x \<noteq> Some (Sleeping s')"
proof (induction n arbitrary: env x)
  case (Suc n)
  show ?case
  proof
    assume "read_tries K uok p th sz consumed nb (Suc n) env x = Some (Sleeping s')"
    then show False
    proof (rule attempt_cases)
      fix has s1 s2 assume "wait_work has nb env s1 = (s2, None)"
      then show False using wait_no_block [of has env s1] assms by simp
    qed (use Suc in auto)
  qed
qed simp

text \<open>
  C17. A read with room for at least one byte never spins: whatever the other
  threads do while it waits, it takes at most three turns after they are quiet, and
  then it has returned or sleeps. A read that must not block returns.
\<close>

theorem read_never_spins:
  assumes "0 < sz"
  shows "binder_thread_read K uok p th sz consumed non_block env mem s \<noteq> Some OutOfAttempts
    \<and> (non_block \<longrightarrow> binder_thread_read K uok p th sz consumed non_block env mem s \<noteq> Some (Sleeping s'))"
  unfolding binder_thread_read_def by (intro conjI impI no_spin [OF order_refl assms] no_sleep)

section \<open>A read is safe\<close>

text \<open>
  A transaction that waits for process \<open>p\<close> has its buffer there; the buffer
  holds a strong count of its target node; the sender has not gone.
\<close>

definition deliverable :: "drv \<Rightarrow> int \<Rightarrow> int \<Rightarrow> bool" where
  "deliverable s p t \<longleftrightarrow> (\<exists>tx b pr. d_txns s t = Some tx \<and> tx_buffer tx = Some b \<and> d_procs s p = Some pr \<and> buf_at (p_space pr) b \<noteq> None
     \<and> (\<forall>a. bu_target (p_bufs pr b) = Some a \<longrightarrow> spare s a True)
     \<and> (\<forall>f. tx_from tx = Some f \<longrightarrow> (\<exists>ft. d_threads s f = Some ft \<and> d_procs s (th_proc ft) \<noteq> None)))"

text \<open>A completion that is queued is allocated; together with the graph this is what a read relies on of all lists.\<close>

definition completes_ok :: "drv \<Rightarrow> bool" where
  "completes_ok s \<longleftrightarrow> (\<forall>c. queued (WComplete c) s \<longrightarrow> c \<in> d_completes s)"

definition memory_ok :: "drv \<Rightarrow> bool" where
  "memory_ok s \<longleftrightarrow> graph_ok s \<and> completes_ok s"

lemma completes_frame:
  assumes "completes_ok s" and "d_completes s' = d_completes s"
    and "\<And>l c. (l, WComplete c) \<in> set (d_work s') \<Longrightarrow> (l, WComplete c) \<in> set (d_work s)"
  shows "completes_ok s'"
  using assms unfolding completes_ok_def queued_def by fastforce

lemma completes_simps [simp]:
  "d_completes (put_proc p pr s) = d_completes s" "d_completes (put_thread th t s) = d_completes s" "d_completes (put_node a n s) = d_completes s"
  "d_completes (put_txn ta tx s) = d_completes s" "d_completes (list_del_work w s) = d_completes s" "d_completes (free_node a s) = d_completes s"
  "d_completes (list_add_head w l s) = d_completes s"
  by (simp_all add: put_proc_def put_thread_def put_node_def put_txn_def list_del_work_def free_node_def list_add_head_def)

definition read_ok :: "int \<Rightarrow> int \<Rightarrow> drv \<Rightarrow> bool" where
  "read_ok p th s \<longleftrightarrow> memory_ok s \<and> d_procs s p \<noteq> None \<and> list_proc s (ThreadTodo th) = Some p
     \<and> (\<forall>t. (ThreadTodo th, WTxn t) \<in> set (d_work s) \<or> (ProcTodo p, WTxn t) \<in> set (d_work s) \<longrightarrow> deliverable s p t)"

lemma command_counts:
  assumes "node_command n = Some (cmd, n')"
  shows "nd_proc n' = nd_proc n" "nd_ptr n' = nd_ptr n" "nd_refs n' = nd_refs n" "internal_strong_refs n' = internal_strong_refs n"
    "of_bool (pending_strong_ref n) + k < local_strong_refs n \<Longrightarrow> of_bool (pending_strong_ref n') + k < local_strong_refs n'"
    "counts_ok s a n \<Longrightarrow> counts_ok s a n'"
  using assms by (cases rule: command_cases; auto simp: counts_ok_def of_bool_def split: if_splits)+

lemma spare_cong: "d_nodes s' b = d_nodes s b \<Longrightarrow> context_mgr_node s' = context_mgr_node s \<Longrightarrow> spare s' b st = spare s b st"
  unfolding spare_def by simp

lemma spare_command:
  assumes c: "node_command n = Some (cmd, n')" and n: "d_nodes s a = Some n" and b: "spare s b True"
  shows "spare (put_node a n' s) b True"
proof (cases "b = a")
  case True
  then show ?thesis
  proof (cases "nd_proc n")
    case None
    then show ?thesis using True b n c command_counts(1) [OF c] by (cases rule: command_cases [OF c]) (auto simp: spare_def)
  next
    case (Some p)
    then show ?thesis using True b n command_counts(1,5) [OF c] by (auto simp: spare_def)
  qed
next
  case False
  then show ?thesis using b spare_cong [of "put_node a n' s" b s True] by simp
qed

lemma read_node_safe:
  assumes rb: "rb_ok (k_rb K)" and ok: "graph_ok (rd_s x)" and q: "(l, WNode a) \<in> set (d_work (rd_s x))" "list_proc (rd_s x) l = Some p"
  shows "\<exists>r y. read_node K uok p a x = Some r \<and> (r = Continue y \<or> r = Fault y) \<and> graph_ok (rd_s y)
    \<and> (\<forall>b. spare (rd_s x) b True \<longrightarrow> spare (rd_s y) b True)
    \<and> (\<exists>pr t. d_procs (rd_s x) p = Some pr \<and> d_procs (rd_s y) = (d_procs (rd_s x))(p \<mapsto> pr\<lparr>p_nodes := t\<rparr>))
    \<and> d_threads (rd_s y) = d_threads (rd_s x) \<and> d_txns (rd_s y) = d_txns (rd_s x) \<and> set (d_work (rd_s y)) \<subseteq> set (d_work (rd_s x))
    \<and> d_completes (rd_s y) = d_completes (rd_s x)"
proof -
  let ?s = "rd_s x"
  obtain n where n: "d_nodes ?s a = Some n" "nd_proc n = Some p"
  proof -
    have "owned ?s l a" using graph_okD(5) [OF ok] q(1) by (simp add: work_ok_def)
    then show ?thesis using that q(2) by (auto simp: owned_def)
  qed
  have nk: "node_ok ?s a n" by (rule graph_okD(1) [OF ok n(1)])
  obtain pr where pr: "d_procs ?s p = Some pr" using nk n by (auto simp: node_ok_def)
  have same: "\<exists>t. d_procs ?s = (d_procs ?s)(p \<mapsto> pr\<lparr>p_nodes := t\<rparr>)" by (rule exI [of _ "p_nodes pr"]) (use pr in auto)
  show ?thesis
  proof (cases "node_command n")
    case (Some c)
    then obtain cmd n' where c: "node_command n = Some (cmd, n')" by (cases c) auto
    obtain y w where y: "put_words uok [UBr cmd, UWord (nd_ptr n), UWord (nd_cookie n)] (x\<lparr>rd_s := put_node a n' ?s\<rparr>) = (y, w)" by fastforce
    have ys: "rd_s y = put_node a n' ?s" using put_words_frame [OF y] by simp
    have "graph_ok (put_node a n' ?s)"
      by (rule graph_ok_put_node [OF ok n(1)]) (use command_counts [OF c] nk in \<open>auto simp: node_ok_def\<close>)
    then show ?thesis
      using n y ys c spare_command [OF c n(1)] pr same
      by (intro exI [of _ "if w then Continue y else Fault y"] exI [of _ y]) (auto simp: read_node_def)
  next
    case None
    let ?s1 = "list_del_work (WNode a) ?s"
    have g: "graph_ok ?s1" by (rule graph_ok_del_work [OF ok])
    have sp: "spare ?s1 b True = spare ?s b True" for b by (rule spare_cong) simp_all
    have sub: "set (d_work ?s1) \<subseteq> set (d_work ?s)" by (auto simp: list_del_work_def)
    have txns: "d_txns ?s1 = d_txns ?s" by (simp add: list_del_work_def)
    show ?thesis
    proof (cases "\<not> node_weak n \<and> \<not> node_strong n")
      case True
      let ?pr = "pr\<lparr>p_nodes := rb_erase (k_rb K) a (p_nodes pr)\<rparr>"
      define y where "y = x\<lparr>rd_s := free_node a (put_proc p ?pr ?s1)\<rparr>"
      have zero: "nd_refs n = []" "local_strong_refs n = 0" using True by (simp_all add: node_weak_def node_strong_def)
      have ctx: "context_mgr_node ?s \<noteq> Some a" using nk zero n(2) by (auto simp: node_ok_def counts_ok_def of_bool_def split: if_splits)
      have "graph_ok (rd_s y)" unfolding y_def
        using graph_ok_free_live [OF rb g, of a n p pr] n zero ctx pr by simp
      moreover have "spare (rd_s y) b True" if "spare ?s b True" for b
      proof -
        have "b \<noteq> a" using that n zero by (auto simp: spare_def of_bool_def split: if_splits)
        then show ?thesis using that spare_cong [of "rd_s y" b ?s True] by (simp add: y_def free_node_def)
      qed
      moreover have "read_node K uok p a x = Some (Continue y)" using n None True pr by (simp add: read_node_def y_def)
      ultimately show ?thesis
        using pr sub txns by (intro exI [of _ "Continue y"] exI [of _ y]) (auto simp: y_def free_node_def put_proc_def)
    next
      case False
      then have "read_node K uok p a x = Some (Continue (x\<lparr>rd_s := ?s1\<rparr>))" using n None by (auto simp: read_node_def Let_def)
      then show ?thesis using g sp sub txns pr same
        by (intro exI [of _ "Continue (x\<lparr>rd_s := ?s1\<rparr>)"] exI [of _ "x\<lparr>rd_s := ?s1\<rparr>"]) auto
    qed
  qed
qed

lemma read_death_safe:
  assumes ok: "graph_ok (rd_s x)" and q: "queued (WDeath d) (rd_s x)"
  shows "\<exists>r y. read_death uok p d x = Some r \<and> (r = Continue y \<or> r = Finish y \<or> r = Fault y) \<and> graph_ok (rd_s y)
    \<and> d_nodes (rd_s y) = d_nodes (rd_s x) \<and> context_mgr_node (rd_s y) = context_mgr_node (rd_s x)
    \<and> d_procs (rd_s y) = d_procs (rd_s x) \<and> d_threads (rd_s y) = d_threads (rd_s x) \<and> d_txns (rd_s y) = d_txns (rd_s x)
    \<and> (\<forall>l t. (l, WTxn t) \<in> set (d_work (rd_s y)) \<longrightarrow> (l, WTxn t) \<in> set (d_work (rd_s x)))
    \<and> (\<forall>l c. (l, WComplete c) \<in> set (d_work (rd_s y)) \<longrightarrow> (l, WComplete c) \<in> set (d_work (rd_s x))) \<and> d_completes (rd_s y) = d_completes (rd_s x)"
proof -
  let ?s = "rd_s x"
  obtain dt where dt: "d_deaths ?s d = Some dt" using graph_okD(5) [OF ok] q by (auto simp: work_ok_def)
  define cl where "cl \<longleftrightarrow> dt_type dt = CLEAR_DEATH_NOTIFICATION"
  obtain y w where y: "put_words uok [UBr (if cl then BR_CLEAR_DEATH_NOTIFICATION_DONE else BR_DEAD_BINDER), UWord (dt_cookie dt)] x = (y, w)" by fastforce
  have ys: "rd_s y = ?s" by (rule put_words_frame [OF y])
  let ?del = "list_del_work (WDeath d) ?s"
  define s1 where "s1 = (if cl then drop_death (Some d) ?s else list_add_head (WDeath d) (Delivered p) ?del)"
  have eq: "read_death uok p d x = Some (if \<not> w then Fault y else if cl then Continue (y\<lparr>rd_s := s1\<rparr>) else Finish (y\<lparr>rd_s := s1\<rparr>))"
    using dt y ys by (simp add: read_death_def cl_def [symmetric] s1_def drop_death_def Let_def)
  have g: "graph_ok s1"
  proof (cases cl)
    case True
    have "rf_death rf \<noteq> Some d" if "d_refs ?s r = Some rf" for r rf
      using graph_okD(2) [OF ok that] dt True by (auto simp: ref_ok_def death_ok_def cl_def)
    then show ?thesis using drop_death_ok [OF ok, of "Some d"] True by (simp add: s1_def)
  next
    case False
    have del: "graph_ok ?del" by (rule graph_ok_del_work [OF ok])
    have "distinct (map snd (d_work ?del))" using graph_okD(5) [OF del] by (simp add: work_ok_def)
    moreover have "WDeath d \<notin> set (map snd (d_work ?del))" by (auto simp: list_del_work_def)
    ultimately show ?thesis
      using False q graph_okD(5) [OF ok]
      by (intro graph_ok_same [OF ok]) (auto simp: s1_def same_graph_def list_add_head_def list_del_work_def work_ok_def queued_def)
  qed
  have fr: "d_nodes s1 = d_nodes ?s" "context_mgr_node s1 = context_mgr_node ?s" "d_procs s1 = d_procs ?s" "d_threads s1 = d_threads ?s" "d_txns s1 = d_txns ?s"
    "(l, WTxn t) \<in> set (d_work s1) \<Longrightarrow> (l, WTxn t) \<in> set (d_work ?s)" "(l, WComplete c) \<in> set (d_work s1) \<Longrightarrow> (l, WComplete c) \<in> set (d_work ?s)"
    "d_completes s1 = d_completes ?s" for l t c
    by (auto simp: s1_def drop_death_def list_add_head_def list_del_work_def Let_def split: if_splits)
  show ?thesis
  proof (cases w)
    case True
    show ?thesis unfolding eq using True g fr
      by (intro exI [of _ "if cl then Continue (y\<lparr>rd_s := s1\<rparr>) else Finish (y\<lparr>rd_s := s1\<rparr>)"] exI [of _ "y\<lparr>rd_s := s1\<rparr>"]) auto
  next
    case False
    then show ?thesis unfolding eq using ok ys by (intro exI [of _ "Fault y"] exI [of _ y]) auto
  qed
qed

lemma read_complete_safe:
  assumes ok: "graph_ok (rd_s x)" and cs: "completes_ok (rd_s x)" and q: "queued (WComplete c) (rd_s x)"
  shows "\<exists>r y. read_complete uok c x = Some r \<and> (r = Continue y \<or> r = Fault y) \<and> graph_ok (rd_s y) \<and> completes_ok (rd_s y)
    \<and> d_nodes (rd_s y) = d_nodes (rd_s x) \<and> context_mgr_node (rd_s y) = context_mgr_node (rd_s x)
    \<and> d_procs (rd_s y) = d_procs (rd_s x) \<and> d_threads (rd_s y) = d_threads (rd_s x) \<and> d_txns (rd_s y) = d_txns (rd_s x)
    \<and> set (d_work (rd_s y)) \<subseteq> set (d_work (rd_s x))"
proof -
  obtain y w where y: "put_words uok [UBr BR_TRANSACTION_COMPLETE] x = (y, w)" by fastforce
  have ys: "rd_s y = rd_s x" by (rule put_words_frame [OF y])
  let ?s1 = "list_del_work (WComplete c) (rd_s x)"
  define z where "z = (if w then y\<lparr>rd_s := ?s1\<lparr>d_completes := d_completes ?s1 - {c}\<rparr>\<rparr> else y)"
  have "c \<in> d_completes (rd_s x)" using cs q by (simp add: completes_ok_def)
  then have eq: "read_complete uok c x = Some (if w then Continue z else Fault z)" using y ys by (simp add: read_complete_def Let_def z_def)
  have "graph_ok (?s1\<lparr>d_completes := d_completes ?s1 - {c}\<rparr>)"
    by (rule graph_ok_frame [OF graph_ok_del_work [OF ok]]) (simp_all add: same_graph_def)
  then have "graph_ok (rd_s z)" using ok ys by (simp add: z_def)
  moreover have "completes_ok (rd_s z)" using cs ys by (auto simp: z_def completes_ok_def queued_def list_del_work_def)
  ultimately show ?thesis using eq ys by (intro exI [of _ "if w then Continue z else Fault z"] exI [of _ z]) (auto simp: z_def list_del_work_def)
qed

lemma put_txn_simps [simp]:
  "d_txns (put_txn a x s) = (d_txns s)(a \<mapsto> x)" "d_procs (put_txn a x s) = d_procs s" "d_nodes (put_txn a x s) = d_nodes s"
  "d_refs (put_txn a x s) = d_refs s" "d_deaths (put_txn a x s) = d_deaths s" "d_work (put_txn a x s) = d_work s"
  "d_threads (put_txn a x s) = d_threads s" "dead_nodes (put_txn a x s) = dead_nodes s" "context_mgr_node (put_txn a x s) = context_mgr_node s"
  by (simp_all add: put_txn_def)

lemma same_graph_refl: "same_graph s s"
  by (simp add: same_graph_def)

lemma same_graph_trans: "same_graph s t \<Longrightarrow> same_graph t u \<Longrightarrow> same_graph s u"
  by (simp add: same_graph_def)

lemma same_graph_puts:
  "same_graph s (put_txn a x s)" "d_threads s th = Some t \<Longrightarrow> th_proc t' = th_proc t \<Longrightarrow> same_graph s (put_thread th t' s)"
  "d_procs s p = Some pr \<Longrightarrow> proc_trees pr' = proc_trees pr \<Longrightarrow> same_graph s (put_proc p pr' s)"
  by (simp_all add: same_graph_def)

lemma set_nice_frame:
  assumes "d_threads s th = Some t"
  shows "\<exists>s'. binder_set_nice K th k s = Some s' \<and> same_graph s s' \<and> d_work s' = d_work s \<and> d_procs s' = d_procs s \<and> d_txns s' = d_txns s \<and> d_completes s' = d_completes s
    \<and> (\<exists>j. d_threads s' = (d_threads s)(th \<mapsto> t\<lparr>th_nice := j\<rparr>))"
  using assms by (auto simp: binder_set_nice_def intro!: same_graph_puts)

lemma take_priority_frame:
  assumes "d_threads s th = Some t"
  shows "\<exists>s'. take_priority K th tx n s = Some s' \<and> same_graph s s' \<and> d_work s' = d_work s \<and> d_procs s' = d_procs s \<and> d_txns s' = d_txns s \<and> d_completes s' = d_completes s
    \<and> (\<exists>j. d_threads s' = (d_threads s)(th \<mapsto> t\<lparr>th_nice := j\<rparr>))"
proof -
  have "\<exists>j. d_threads s = (d_threads s)(th \<mapsto> t\<lparr>th_nice := j\<rparr>)" using assms by (intro exI [of _ "th_nice t"]) auto
  then show ?thesis
    using assms set_nice_frame [OF assms, of K] by (auto simp: take_priority_def same_graph_refl)
qed

lemma read_target_frame:
  assumes x: "d_threads s th = Some t" and tx: "d_txns s ta = Some tx" and a: "\<And>a. target = Some a \<Longrightarrow> d_nodes s a \<noteq> None"
  shows "\<exists>s' cmd w. read_txn_target K th ta tx target s = Some (s', cmd, w) \<and> same_graph s s' \<and> d_work s' = d_work s \<and> d_procs s' = d_procs s
    \<and> (\<exists>j. d_txns s' = (d_txns s)(ta \<mapsto> tx\<lparr>saved_priority := j\<rparr>)) \<and> (\<exists>j. d_threads s' = (d_threads s)(th \<mapsto> t\<lparr>th_nice := j\<rparr>))
    \<and> d_completes s' = d_completes s"
proof (cases target)
  case None
  have "\<exists>j. d_threads s = (d_threads s)(th \<mapsto> t\<lparr>th_nice := j\<rparr>)" using x by (intro exI [of _ "th_nice t"]) auto
  moreover have "\<exists>j. d_txns s = (d_txns s)(ta \<mapsto> tx\<lparr>saved_priority := j\<rparr>)" using tx by (intro exI [of _ "saved_priority tx"]) auto
  ultimately show ?thesis using None by (simp add: read_txn_target_def same_graph_refl)
next
  case (Some b)
  then obtain n where n: "d_nodes s b = Some n" using a by blast
  let ?s1 = "put_txn ta (tx\<lparr>saved_priority := th_nice t\<rparr>) s"
  obtain s' where s': "take_priority K th tx n ?s1 = Some s'" "same_graph ?s1 s'" "d_work s' = d_work s" "d_procs s' = d_procs s"
    "d_txns s' = (d_txns s)(ta \<mapsto> tx\<lparr>saved_priority := th_nice t\<rparr>)" "\<exists>j. d_threads s' = (d_threads s)(th \<mapsto> t\<lparr>th_nice := j\<rparr>)" "d_completes s' = d_completes s"
    using take_priority_frame [of ?s1 th t K tx n] x by auto
  have "same_graph s s'" by (rule same_graph_trans [OF same_graph_puts(1) s'(2)])
  then show ?thesis using Some n x s' by (auto simp: read_txn_target_def)
qed

lemma set_buf_txn_trees [simp]: "proc_trees (set_buf_txn b t pr) = proc_trees pr"
  by (simp add: set_buf_txn_def proc_trees_def)

definition alive :: "int \<Rightarrow> int \<Rightarrow> drv \<Rightarrow> bool" where
  "alive p th s \<longleftrightarrow> d_threads s th \<noteq> None \<and> d_procs s p \<noteq> None"

lemma read_ok_alive: "read_ok p th s \<Longrightarrow> alive p th s"
  by (auto simp: read_ok_def alive_def)

lemma read_done_frame:
  assumes "d_threads s th = Some t" "d_txns s ta = Some tx" "d_procs s p = Some pr" and ok: "graph_ok s"
  shows "\<exists>s'. read_txn_done K p th ta b cmd s = Some s' \<and> graph_ok s' \<and> alive p th s' \<and> (completes_ok s \<longrightarrow> completes_ok s')"
proof -
  let ?s1 = "list_del_work (WTxn ta) s"
  have ok1: "graph_ok ?s1" by (rule graph_ok_del_work [OF ok])
  obtain s' where s': "read_txn_done K p th ta b cmd s = Some s'" using assms by (simp add: read_txn_done_def Let_def)
  have f: "same_graph ?s1 s'" "d_work s' = d_work ?s1" "alive p th s'" "d_completes s' = d_completes s"
    using s' assms unfolding read_txn_done_def
    by (auto simp: Let_def same_graph_def alive_def proc_trees_def set_buf_txn_def split: if_splits)
  have "completes_ok s'" if "completes_ok s" by (rule completes_frame [OF that f(4)]) (simp add: f(2) list_del_work_def)
  then show ?thesis using s' f graph_ok_frame [OF ok1] by blast
qed

lemma read_txn_safe:
  assumes ok: "graph_ok (rd_s x)" and cs: "completes_ok (rd_s x)" and d: "deliverable (rd_s x) p ta" and th: "d_threads (rd_s x) th \<noteq> None"
  shows "\<exists>r y. read_txn K uok p th ta x = Some r \<and> (r = Finish y \<or> r = Fault y) \<and> memory_ok (rd_s y) \<and> alive p th (rd_s y)"
proof -
  let ?s = "rd_s x"
  obtain tx b pr bf where tx: "d_txns ?s ta = Some tx" "tx_buffer tx = Some b" "d_procs ?s p = Some pr" "buf_at (p_space pr) b = Some bf"
    and target: "\<And>a. bu_target (p_bufs pr b) = Some a \<Longrightarrow> d_nodes ?s a \<noteq> None"
    and sender: "\<And>f. tx_from tx = Some f \<Longrightarrow> \<exists>ft. d_threads ?s f = Some ft \<and> d_procs ?s (th_proc ft) \<noteq> None"
    using d unfolding deliverable_def spare_def by (metis (no_types, lifting) option.exhaust option.distinct(1))
  obtain t where t: "d_threads ?s th = Some t" using th by blast
  obtain s1 cmd w j k where s1: "read_txn_target K th ta tx (bu_target (p_bufs pr b)) ?s = Some (s1, cmd, w)" "same_graph ?s s1" "d_work s1 = d_work ?s"
    "d_procs s1 = d_procs ?s" "d_txns s1 = (d_txns ?s)(ta \<mapsto> tx\<lparr>saved_priority := j\<rparr>)" "d_threads s1 = (d_threads ?s)(th \<mapsto> t\<lparr>th_nice := k\<rparr>)" "d_completes s1 = d_completes ?s"
    using read_target_frame [OF t tx(1) target] by metis
  have g1: "graph_ok s1" by (rule graph_ok_frame [OF ok s1(2,3)])
  have c1: "completes_ok s1" by (rule completes_frame [OF cs s1(7)]) (simp add: s1(3))
  have "\<exists>tr. txn_data K s1 pr tx bf w = Some tr"
  proof (cases "tx_from tx")
    case (Some f)
    obtain ft where ft: "d_threads ?s f = Some ft" "d_procs ?s (th_proc ft) \<noteq> None" using sender [OF Some] by blast
    have "\<exists>gt. d_threads s1 f = Some gt \<and> th_proc gt = th_proc ft" using ft s1(6) t by (cases "f = th") auto
    then show ?thesis using Some ft s1(4) by (auto simp: txn_data_def Let_def)
  qed (simp add: txn_data_def Let_def)
  then obtain tr where tr: "txn_data K s1 pr tx bf w = Some tr" by blast
  obtain y ok' where y: "put_words uok (UBr cmd # map UWord tr) (x\<lparr>rd_s := s1\<rparr>) = (y, ok')" by fastforce
  have ys: "rd_s y = s1" using put_words_frame [OF y] by simp
  have al: "alive p th s1" using s1(4,6) tx(3) by (simp add: alive_def)
  obtain s2 where s2: "read_txn_done K p th ta b cmd s1 = Some s2" "memory_ok s2" "alive p th s2"
    using read_done_frame [OF _ _ _ g1, of th _ ta _ p pr K b cmd] s1(4-6) tx(3) c1 by (auto simp: memory_ok_def)
  have "read_txn K uok p th ta x = Some (if ok' then Finish (y\<lparr>rd_s := s2\<rparr>) else Fault y)"
    using tx s1(1) tr y ys s2(1) by (simp add: read_txn_def)
  then show ?thesis using s2(2,3) g1 c1 al ys by (cases ok') (auto simp: memory_ok_def)
qed

lemma read_ok_step:
  assumes rk: "read_ok p th s" and g: "memory_ok s'" and f: "d_threads s' = d_threads s" "d_txns s' = d_txns s"
    and w: "\<And>l t. (l, WTxn t) \<in> set (d_work s') \<Longrightarrow> (l, WTxn t) \<in> set (d_work s)"
    and pr: "d_procs s p = Some pr" "d_procs s' = (d_procs s)(p \<mapsto> pr\<lparr>p_nodes := x\<rparr>)"
    and sp: "\<And>b. spare s b True \<Longrightarrow> spare s' b True"
  shows "read_ok p th s'"
proof -
  have some: "d_procs s' q \<noteq> None \<longleftrightarrow> d_procs s q \<noteq> None" for q using pr by auto
  have bufs: "d_procs s' p = Some (pr\<lparr>p_nodes := x\<rparr>)" using pr(2) by simp
  have "deliverable s' p t" if "deliverable s p t" for t
    using that sp pr(1) bufs unfolding deliverable_def f some by fastforce
  then show ?thesis using rk g w pr f(1) unfolding read_ok_def by auto
qed

lemma read_step_safe:
  assumes rb: "rb_ok (k_rb K)" and rk: "read_ok p th (rd_s x)"
  shows "\<exists>r y. read_step K uok p th sz wp x = Some r \<and> (r = Continue y \<or> r = Finish y \<or> r = Retry y \<or> r = Fault y) \<and> memory_ok (rd_s y) \<and> alive p th (rd_s y)
    \<and> (r = Continue y \<or> r = Retry y \<longrightarrow> read_ok p th (rd_s y))"
proof -
  let ?s = "rd_s x"
  have mem: "memory_ok ?s" and th: "d_threads ?s th \<noteq> None" and lp: "list_proc ?s (ThreadTodo th) = Some p"
    using rk by (auto simp: read_ok_def)
  have ok: "graph_ok ?s" and cs: "completes_ok ?s" using mem by (simp_all add: memory_ok_def)
  obtain pr where pr: "d_procs ?s p = Some pr" using rk by (auto simp: read_ok_def)
  have same: "\<exists>t. d_procs ?s = (d_procs ?s)(p \<mapsto> pr\<lparr>p_nodes := t\<rparr>)" by (rule exI [of _ "p_nodes pr"]) (use pr in auto)
  show ?thesis
  proof (cases "next_work p th wp ?s")
    case None
    then show ?thesis using mem th rk read_ok_alive [OF rk] by (auto simp: read_step_def)
  next
    case (Some w)
    obtain l where l: "(l, w) \<in> set (d_work ?s)" "l = ThreadTodo th \<or> l = ProcTodo p"
      using next_work_on [OF Some] unfolding work_on_iff by blast
    have lpl: "list_proc ?s l = Some p" using l(2) lp by auto
    have q: "queued w ?s" by (rule next_work_queued [OF Some])
    have small: "read_step K uok p th sz wp x = Some (Finish x)" if "room_left sz (rd_ptr x) < 40 + 4"
      using that Some by (simp add: read_step_def)
    have big: "read_step K uok p th sz wp x = (case w of WTxn t \<Rightarrow> read_txn K uok p th t x
        | WComplete c \<Rightarrow> read_complete uok c x | WNode a \<Rightarrow> read_node K uok p a x | WDeath d \<Rightarrow> read_death uok p d x)"
      if "\<not> room_left sz (rd_ptr x) < 40 + 4" using that Some by (simp add: read_step_def)
    show ?thesis
    proof (cases "room_left sz (rd_ptr x) < 40 + 4")
      case True
      then show ?thesis using small mem read_ok_alive [OF rk] by blast
    next
      case False
      note big = big [OF False]
      show ?thesis
      proof (cases w)
        case (WTxn t)
        then have "deliverable ?s p t" using rk l by (auto simp: read_ok_def)
        then obtain r y where "read_txn K uok p th t x = Some r" "r = Finish y \<or> r = Fault y" "memory_ok (rd_s y)" "alive p th (rd_s y)"
          using read_txn_safe [OF ok cs _ th] by metis
        then show ?thesis using big WTxn by auto
      next
        case (WComplete c)
        obtain r y where y: "read_complete uok c x = Some r" "r = Continue y \<or> r = Fault y" "memory_ok (rd_s y)"
          "d_nodes (rd_s y) = d_nodes ?s" "context_mgr_node (rd_s y) = context_mgr_node ?s" "d_procs (rd_s y) = d_procs ?s"
          "d_threads (rd_s y) = d_threads ?s" "d_txns (rd_s y) = d_txns ?s" "set (d_work (rd_s y)) \<subseteq> set (d_work ?s)"
          using read_complete_safe [OF ok cs q [unfolded WComplete], of uok] unfolding memory_ok_def by metis
        obtain t where "d_procs (rd_s y) = (d_procs ?s)(p \<mapsto> pr\<lparr>p_nodes := t\<rparr>)" using same y(6) by auto
        then have "read_ok p th (rd_s y)" using spare_cong [of "rd_s y" _ ?s True] y by (intro read_ok_step [OF rk y(3) y(7,8) _ pr]) auto
        then show ?thesis using big WComplete y(1-3) read_ok_alive by auto
      next
        case (WDeath d)
        obtain r y where y: "read_death uok p d x = Some r" "r = Continue y \<or> r = Finish y \<or> r = Fault y" "graph_ok (rd_s y)"
          "d_nodes (rd_s y) = d_nodes ?s" "context_mgr_node (rd_s y) = context_mgr_node ?s" "d_procs (rd_s y) = d_procs ?s"
          "d_threads (rd_s y) = d_threads ?s" "d_txns (rd_s y) = d_txns ?s"
          "\<And>l t. (l, WTxn t) \<in> set (d_work (rd_s y)) \<Longrightarrow> (l, WTxn t) \<in> set (d_work ?s)"
          "\<And>l c. (l, WComplete c) \<in> set (d_work (rd_s y)) \<Longrightarrow> (l, WComplete c) \<in> set (d_work ?s)" "d_completes (rd_s y) = d_completes ?s"
          using read_death_safe [OF ok, of d uok p] q WDeath by metis
        have m: "memory_ok (rd_s y)" using y(3) completes_frame [OF cs y(11,10)] by (simp add: memory_ok_def)
        obtain t where "d_procs (rd_s y) = (d_procs ?s)(p \<mapsto> pr\<lparr>p_nodes := t\<rparr>)" using same y(6) by auto
        then have "read_ok p th (rd_s y)" using spare_cong [of "rd_s y" _ ?s True] y by (intro read_ok_step [OF rk m y(7,8) _ pr]) auto
        then show ?thesis using big WDeath y(1,2) m read_ok_alive by auto
      next
        case (WNode a)
        obtain r y u where y: "read_node K uok p a x = Some r" "r = Continue y \<or> r = Fault y" "graph_ok (rd_s y)"
          "\<And>b. spare ?s b True \<Longrightarrow> spare (rd_s y) b True" "d_procs (rd_s y) = (d_procs ?s)(p \<mapsto> pr\<lparr>p_nodes := u\<rparr>)"
          "d_threads (rd_s y) = d_threads ?s" "d_txns (rd_s y) = d_txns ?s" "set (d_work (rd_s y)) \<subseteq> set (d_work ?s)" "d_completes (rd_s y) = d_completes ?s"
          using read_node_safe [OF rb ok l(1) [unfolded WNode] lpl, of uok] pr by fastforce
        have m: "memory_ok (rd_s y)" using y(3,8) completes_frame [OF cs y(9)] by (auto simp: memory_ok_def)
        have "read_ok p th (rd_s y)" using y by (intro read_ok_step [OF rk m y(6,7) _ pr y(5)]) auto
        then show ?thesis using big WNode y(1,2) m read_ok_alive by auto
      qed
    qed
  qed
qed

lemma read_loop_safe:
  assumes rb: "rb_ok (k_rb K)" and rk: "read_ok p th (rd_s x)"
  shows "\<exists>r y. read_loop K uok p th sz wp x = Some r \<and> (r = Finish y \<or> r = Retry y \<or> r = Fault y) \<and> memory_ok (rd_s y) \<and> alive p th (rd_s y)
    \<and> (r = Retry y \<longrightarrow> read_ok p th (rd_s y))"
  using assms
proof (induction K uok p th sz wp x rule: read_loop.induct)
  case (1 K uok p th sz wp x)
  obtain r y where r: "read_step K uok p th sz wp x = Some r" "r = Continue y \<or> r = Finish y \<or> r = Retry y \<or> r = Fault y" "memory_ok (rd_s y)"
    "r = Continue y \<or> r = Retry y \<longrightarrow> read_ok p th (rd_s y)" "alive p th (rd_s y)"
    using read_step_safe [OF "1.prems"] by metis
  show ?case
  proof (cases "r = Continue y")
    case True
    then show ?thesis using "1.IH" r "1.prems"(1) by (simp add: read_loop.simps [of K uok p th sz wp x])
  next
    case False
    then have "read_loop K uok p th sz wp x = Some r" using r(1,2) by (auto simp: read_loop.simps [of K uok p th sz wp x])
    then show ?thesis using r False by blast
  qed
qed

lemma read_ok_frame:
  assumes rk: "read_ok p th s" and same: "same_graph s s'" and f: "d_work s' = d_work s" "d_txns s' = d_txns s" "d_completes s' = d_completes s"
    and pr: "d_procs s p = Some pr" "d_procs s' p = Some pr'" "p_space pr' = p_space pr" "p_bufs pr' = p_bufs pr"
  shows "read_ok p th s'"
proof -
  have th: "map_option th_proc (d_threads s' f) = map_option th_proc (d_threads s f)" for f using same by (simp add: same_graph_def)
  have ps: "d_procs s' q \<noteq> None \<longleftrightarrow> d_procs s q \<noteq> None" for q
    using same unfolding same_graph_def by (metis option.map_disc_iff)
  have sp: "spare s' b True = spare s b True" for b by (rule spare_cong) (use same in \<open>simp_all add: same_graph_def\<close>)
  have sender: "\<exists>gt. d_threads s' f = Some gt \<and> d_procs s' (th_proc gt) \<noteq> None" if "d_threads s f = Some ft" "d_procs s (th_proc ft) \<noteq> None" for f ft
    using th [of f] that ps by (cases "d_threads s' f") auto
  have "deliverable s' p t" if "deliverable s p t" for t
    using that pr sp sender unfolding deliverable_def f by fastforce
  moreover have "list_proc s' (ThreadTodo th) = Some p" using th [of th] rk by (simp add: read_ok_def)
  moreover have "memory_ok s'" using rk graph_ok_frame [OF _ same f(1)] completes_frame [OF _ f(3)] f(1) by (auto simp: read_ok_def memory_ok_def)
  ultimately show ?thesis using rk pr(2) f unfolding read_ok_def by auto
qed

lemma begin_wait_safe:
  assumes rk: "read_ok p th s"
  shows "\<exists>s'. begin_wait K p th wp s = Some s' \<and> read_ok p th s'"
proof -
  obtain t pr where t: "d_threads s th = Some t" "d_procs s p = Some pr" using rk by (auto simp: read_ok_def)
  obtain s' where s': "begin_wait K p th wp s = Some s'" using t by (cases wp) (simp_all add: begin_wait_def binder_set_nice_def Let_def)
  have "same_graph s s'" "d_work s' = d_work s" "d_txns s' = d_txns s" "d_completes s' = d_completes s" "\<exists>pr'. d_procs s' p = Some pr' \<and> p_space pr' = p_space pr \<and> p_bufs pr' = p_bufs pr"
    using s' t by (auto simp: begin_wait_def binder_set_nice_def Let_def same_graph_def proc_trees_def split: if_splits)
  then show ?thesis using s' read_ok_frame [OF rk] t(2) by blast
qed

lemma end_wait_safe:
  assumes rk: "read_ok p th s"
  shows "\<exists>s'. end_wait p th wp s = Some s' \<and> read_ok p th s'"
proof -
  obtain t pr where t: "d_threads s th = Some t" "d_procs s p = Some pr" using rk by (auto simp: read_ok_def)
  obtain s' where s': "end_wait p th wp s = Some s'" using t by (simp add: end_wait_def Let_def)
  have "same_graph s s'" "d_work s' = d_work s" "d_txns s' = d_txns s" "d_completes s' = d_completes s" "\<exists>pr'. d_procs s' p = Some pr' \<and> p_space pr' = p_space pr \<and> p_bufs pr' = p_bufs pr"
    using s' t by (auto simp: end_wait_def Let_def same_graph_def proc_trees_def split: if_splits)
  then show ?thesis using s' read_ok_frame [OF rk] t(2) by blast
qed

lemma read_errors_safe:
  assumes rk: "read_ok p th (rd_s x)"
  shows "\<exists>r y. read_errors uok sz th x = Some r \<and> (r = Continue x \<or> r = Finish y \<or> r = Fault y) \<and> read_ok p th (rd_s y)"
proof -
  obtain t where t: "d_threads (rd_s x) th = Some t" and pr: "\<exists>pr. d_procs (rd_s x) p = Some pr" using rk by (auto simp: read_ok_def)
  have put: "read_ok p th (put_thread th t' s)" if a: "read_ok p th s" "d_threads s th = Some u" "th_proc t' = th_proc u" for s t' u
  proof -
    obtain pr where "d_procs s p = Some pr" using a(1) by (auto simp: read_ok_def)
    then show ?thesis using read_ok_frame [OF a(1) same_graph_puts(2) [OF a(2,3)]] by simp
  qed
  have err: "\<exists>r y. put_error uok th u z = r \<and> (r = Finish y \<or> r = Fault y) \<and> read_ok p th (rd_s y)"
    if z: "read_ok p th (rd_s z)" "d_threads (rd_s z) th = Some u" for u z
  proof -
    obtain y w where y: "put_words uok [UBr (return_error u)] z = (y, w)" by fastforce
    then show ?thesis using put_words_frame [OF y] put [OF z] z by (cases w) (auto simp: put_error_def)
  qed
  consider "return_error t = BR_OK \<or> sz \<le> rd_ptr x" | "\<not> (return_error t = BR_OK \<or> sz \<le> rd_ptr x)" "return_error2 t = BR_OK"
    | "\<not> (return_error t = BR_OK \<or> sz \<le> rd_ptr x)" "return_error2 t \<noteq> BR_OK" by blast
  then show ?thesis
  proof cases
    case 1
    then show ?thesis using t rk by (auto simp: read_errors_def)
  next
    case 2
    then show ?thesis using t err [OF rk t] by (auto simp: read_errors_def)
  next
    case 3
    let ?t1 = "t\<lparr>return_error2 := BR_OK\<rparr>"
    obtain y w where y: "put_words uok [UBr (return_error2 t)] x = (y, w)" by fastforce
    have ys: "rd_s y = rd_s x" by (rule put_words_frame [OF y])
    let ?z = "y\<lparr>rd_s := put_thread th ?t1 (rd_s y)\<rparr>"
    have "read_ok p th (rd_s ?z)" using put [OF rk t, of ?t1] ys by simp
    then obtain r v where v: "put_error uok th ?t1 ?z = r" "r = Finish v \<or> r = Fault v" "read_ok p th (rd_s v)" using err [of ?z ?t1] by auto
    have "read_errors uok sz th x = Some (if \<not> w then Fault y else if rd_ptr y = sz then Finish y else r)"
      using 3 t y v(1) by (auto simp: read_errors_def Let_def)
    then show ?thesis using v rk ys by (cases w; cases "rd_ptr y = sz") auto
  qed
qed

lemma wait_work_inv:
  assumes "P s" and "\<forall>(f, _, g)\<in>set env. \<forall>s. P s \<longrightarrow> P (f s) \<and> P (g s)" and "wait_work has nb env s = (s', r)"
  shows "P s' \<and> (\<forall>e env'. r = Some (e, env') \<longrightarrow> set env' \<subseteq> set env)"
  using assms
proof (induction has nb env s rule: wait_work.induct)
  case (2 has nb before signal after env s)
  have P: "P (before s)" "P (after (before s))" using "2.prems"(1,2) by auto
  show ?case
  proof (cases "has (before s) \<or> nb \<or> signal")
    case True
    then show ?thesis using "2.prems"(3) P by (auto simp: Let_def split: if_splits)
  next
    case False
    then have "P s' \<and> (\<forall>e env'. r = Some (e, env') \<longrightarrow> set env' \<subseteq> set env)" using "2.IH" [OF refl] "2.prems" P by (auto simp: Let_def)
    then show ?thesis by auto
  qed
qed (auto split: if_splits)

lemma read_finish_safe:
  assumes "memory_ok (rd_s x)" and "alive p th (rd_s x)"
  shows "\<exists>s' mem' c e. read_finish uok p th x = Some (Returned s' mem' c e) \<and> memory_ok s'"
proof -
  obtain t pr where t: "d_threads (rd_s x) th = Some t" "d_procs (rd_s x) p = Some pr" using assms(2) by (auto simp: alive_def)
  have ok: "graph_ok (rd_s x)" "completes_ok (rd_s x)" using assms(1) by (simp_all add: memory_ok_def)
  have "graph_ok (put_proc p (pr\<lparr>requested_threads := requested_threads pr + 1\<rparr>) (rd_s x))"
    by (rule graph_ok_frame [OF ok(1) same_graph_puts(3) [OF t(2)]]) (simp_all add: proc_trees_def)
  moreover have "completes_ok (put_proc p (pr\<lparr>requested_threads := requested_threads pr + 1\<rparr>) (rd_s x))"
    by (rule completes_frame [OF ok(2)]) simp_all
  ultimately have "memory_ok (put_proc p (pr\<lparr>requested_threads := requested_threads pr + 1\<rparr>) (rd_s x))" by (simp add: memory_ok_def)
  then show ?thesis using t assms(1) by (auto simp: read_finish_def Let_def)
qed

definition keeps :: "(drv \<Rightarrow> bool) \<Rightarrow> interference list \<Rightarrow> bool" where
  "keeps P env \<longleftrightarrow> (\<forall>(f, _, g)\<in>set env. \<forall>s. P s \<longrightarrow> P (f s) \<and> P (g s))"

fun res_ok :: "read_res \<Rightarrow> bool" where
  "res_ok (Returned s mem c ret) = memory_ok s"
| "res_ok (Sleeping s) = memory_ok s"
| "res_ok OutOfAttempts = True"

lemma read_tries_safe:
  assumes rb: "rb_ok (k_rb K)" and "read_ok p th (rd_s x)" and "keeps (read_ok p th) env"
  shows "\<exists>r. read_tries K uok p th sz consumed nb n env x = Some r \<and> res_ok r"
  using assms(2,3)
proof (induction n arbitrary: env x)
  case (Suc n)
  obtain t where t: "d_threads (rd_s x) th = Some t" using Suc.prems(1) by (auto simp: read_ok_def)
  define wp where "wp \<longleftrightarrow> transaction_stack t = None \<and> work_on (ThreadTodo th) (rd_s x) = []"
  obtain q y where q: "read_errors uok sz th x = Some q" "q = Continue x \<or> q = Finish y \<or> q = Fault y" "read_ok p th (rd_s y)"
    using read_errors_safe [OF Suc.prems(1)] by metis
  have fin: "\<exists>r. read_finish uok p th z = Some r \<and> res_ok r" if "memory_ok (rd_s z)" "alive p th (rd_s z)" for z
    using read_finish_safe [OF that] by fastforce
  show ?case
  proof (cases "q = Continue x")
    case False
    then show ?thesis using q t fin [of y] read_ok_alive [of p th] by (auto simp: Let_def read_ok_def)
  next
    case True
    define has where "has = (if wp then binder_has_proc_work p th else binder_has_thread_work th)"
    obtain s1 where s1: "begin_wait K p th wp (rd_s x) = Some s1" "read_ok p th s1" using begin_wait_safe [OF Suc.prems(1)] by blast
    obtain s2 e where s2: "wait_work has nb env s1 = (s2, e)" by fastforce
    have w: "read_ok p th s2 \<and> (\<forall>ret env'. e = Some (ret, env') \<longrightarrow> set env' \<subseteq> set env)"
      by (rule wait_work_inv [where P = "read_ok p th", OF s1(2) _ s2]) (use Suc.prems(2) in \<open>simp add: keeps_def\<close>)
    have eq: "read_tries K uok p th sz consumed nb (Suc n) env x = (case (s2, e) of (s2, None) \<Rightarrow> Some (Sleeping s2)
      | (s2, Some (ret, env')) \<Rightarrow> do { s3 \<leftarrow> end_wait p th wp s2;
          if ret \<noteq> 0 then Some (Returned s3 (rd_mem x) consumed ret)
          else do { out \<leftarrow> read_loop K uok p th sz wp (x\<lparr>rd_s := s3\<rparr>);
            case out of Finish y \<Rightarrow> read_finish uok p th y
            | Fault y \<Rightarrow> Some (Returned (rd_s y) (rd_mem y) consumed (-EFAULT))
            | Retry y \<Rightarrow> read_tries K uok p th sz consumed nb n env' y | Continue y \<Rightarrow> None } })"
      by (simp only: read_tries.simps t Option.bind.simps wp_def [symmetric] Let_def q(1) True rdout.case s1(1) has_def [symmetric] s2)
    show ?thesis
    proof (cases e)
      case None
      then show ?thesis using eq w by (simp add: read_ok_def)
    next
      case (Some f)
      obtain ret env' where f: "f = (ret, env')" by fastforce
      obtain s3 where s3: "end_wait p th wp s2 = Some s3" "read_ok p th s3" using end_wait_safe w by blast
      have "set env' \<subseteq> set env" using w Some f by simp
      then have k: "keeps (read_ok p th) env'" using Suc.prems(2) unfolding keeps_def by blast
      have "read_ok p th (rd_s (x\<lparr>rd_s := s3\<rparr>))" using s3(2) by simp
      from read_loop_safe [OF rb this] obtain r z where r: "read_loop K uok p th sz wp (x\<lparr>rd_s := s3\<rparr>) = Some r" "r = Finish z \<or> r = Retry z \<or> r = Fault z" "memory_ok (rd_s z)"
        "alive p th (rd_s z)" "r = Retry z \<longrightarrow> read_ok p th (rd_s z)"
        by blast
      show ?thesis
      proof (cases "ret = 0")
        case True
        have "read_tries K uok p th sz consumed nb (Suc n) env x = (case r of Finish y \<Rightarrow> read_finish uok p th y
            | Fault y \<Rightarrow> Some (Returned (rd_s y) (rd_mem y) consumed (-EFAULT))
            | Retry y \<Rightarrow> read_tries K uok p th sz consumed nb n env' y | Continue y \<Rightarrow> None)"
          unfolding eq Some f using s3(1) True r(1) by simp
        then show ?thesis using r(2-5) Suc.IH [OF _ k, of z] fin [of z] by auto
      next
        case False
        then show ?thesis unfolding eq Some f using s3 by (simp add: read_ok_def)
      qed
    qed
  qed
qed simp

text \<open>
  C13. A read touches no freed memory and fails no assertion, and it leaves the
  graph of nodes and references and the queued completions in order
  (\<open>memory_ok\<close>), if they are in order at the start, the transactions that wait
  for the reader have their buffers, and the other threads keep this while the
  reader waits.
\<close>

theorem read_safe:
  assumes "rb_ok (k_rb K)" and "read_ok p th s" and "keeps (read_ok p th) env"
  shows "\<exists>r. binder_thread_read K uok p th sz consumed non_block env mem s = Some r \<and> res_ok r"
  unfolding binder_thread_read_def by (rule read_tries_safe) (use assms in simp_all)

section \<open>What is delivered\<close>

definition buffer_words :: "ubuf \<Rightarrow> nat \<Rightarrow> uword option list" where
  "buffer_words mem n = map (\<lambda>i. mem (4 * i)) [0..<n]"

lemma put_words_true:
  "\<exists>m. put_words (\<lambda>_. True) ws x = (x\<lparr>rd_mem := m, rd_ptr := rd_ptr x + 4 * length ws\<rparr>, True)
    \<and> (\<forall>i<length ws. m (rd_ptr x + 4 * i) = Some (ws ! i)) \<and> (\<forall>j<rd_ptr x. m j = rd_mem x j)"
proof (induction ws arbitrary: x)
  case Nil
  show ?case by (intro exI [of _ "rd_mem x"]) (simp add: put_words.simps)
next
  case (Cons w ws)
  let ?y = "x\<lparr>rd_mem := (rd_mem x)(rd_ptr x \<mapsto> w), rd_ptr := rd_ptr x + 4\<rparr>"
  obtain m where m: "put_words (\<lambda>_. True) ws ?y = (?y\<lparr>rd_mem := m, rd_ptr := rd_ptr x + 4 + 4 * length ws\<rparr>, True)"
    "\<forall>i<length ws. m (rd_ptr x + 4 + 4 * i) = Some (ws ! i)" "\<forall>j<rd_ptr x + 4. m j = ((rd_mem x)(rd_ptr x \<mapsto> w)) j"
    using Cons.IH [of ?y] by auto
  have "m (rd_ptr x + 4 * i) = Some ((w # ws) ! i)" if "i < length (w # ws)" for i
    using m(2,3) that by (cases i) (auto simp: algebra_simps)
  then show ?case using m by (intro exI [of _ m]) (simp add: put_words.simps)
qed

text \<open>A call that is first on the reader's list, and the words that describe it.\<close>

record call =
  c_txn :: btxn
  c_buf :: buf
  c_node :: bnode
  c_pid :: u32

definition call_on :: "'a kext_scheme \<Rightarrow> list_id \<Rightarrow> drv \<Rightarrow> int \<Rightarrow> int \<Rightarrow> call \<Rightarrow> bool" where
  "call_on K l s p ta c \<longleftrightarrow> (\<exists>ws pr b a f ft fp. work_on l s = WTxn ta # ws \<and> d_txns s ta = Some (c_txn c)
     \<and> tx_buffer (c_txn c) = Some b \<and> d_procs s p = Some pr \<and> buf_at (p_space pr) b = Some (c_buf c)
     \<and> bu_target (p_bufs pr b) = Some a \<and> d_nodes s a = Some (c_node c) \<and> \<not> one_way K (tx_flags (c_txn c))
     \<and> tx_from (c_txn c) = Some f \<and> d_threads s f = Some ft \<and> d_procs s (th_proc ft) = Some fp \<and> c_pid c = of_int (p_pid fp))"

text \<open>The list a thread reads from: its own, or that of its process when it has nothing else to do.\<close>

definition reads_from :: "drv \<Rightarrow> int \<Rightarrow> int \<Rightarrow> list_id \<Rightarrow> bool" where
  "reads_from s p th l \<longleftrightarrow> l = ThreadTodo th
     \<or> l = ProcTodo p \<and> work_on (ThreadTodo th) s = [] \<and> (\<exists>t. d_threads s th = Some t \<and> transaction_stack t = None)"

definition call_words :: "bproc \<Rightarrow> call \<Rightarrow> u32 list" where
  "call_words pr c =
     (let data = of_int (b_addr (c_buf c) + hdr_size + user_buffer_offset (p_space pr))
      in [nd_ptr (c_node c), nd_cookie (c_node c), tx_code (c_txn c), tx_flags (c_txn c), c_pid c, sender_euid (c_txn c),
          b_data_size (c_buf c), b_offs_size (c_buf c), data, data + ALIGN4 (b_data_size (c_buf c))])"

definition wants_looper :: "bproc \<Rightarrow> bthread \<Rightarrow> bool" where
  "wants_looper pr t \<longleftrightarrow> requested_threads pr + ready_threads pr = 0 \<and> requested_threads_started pr < max_threads pr
     \<and> (lp_registered t \<or> lp_entered t)"

lemma read_txn_call:
  assumes c: "call_on K l s p ta c" and pr: "d_procs s p = Some pr" and t: "d_threads s th = Some t"
  shows "\<exists>s' m. read_txn K (\<lambda>_. True) p th ta \<lparr>rd_s = s, rd_mem = mem, rd_ptr = 0\<rparr>
      = Some (Finish \<lparr>rd_s = s', rd_mem = m, rd_ptr = 44\<rparr>)
    \<and> buffer_words m 11 = map Some (UBr BR_TRANSACTION # map UWord (call_words pr c)) \<and> \<not> queued (WTxn ta) s'
    \<and> (\<exists>j. d_threads s' = (d_threads s)(th \<mapsto> t\<lparr>th_nice := j, transaction_stack := Some ta\<rparr>))
    \<and> (\<exists>i. d_txns s' ta = Some ((c_txn c)\<lparr>saved_priority := i, tx_to_parent := transaction_stack t, tx_to_thread := Some th\<rparr>))
    \<and> (\<exists>b bufs. tx_buffer (c_txn c) = Some b \<and> d_procs s' p = Some (pr\<lparr>p_bufs := bufs\<rparr>) \<and> allow_user_free (bufs b)
        \<and> bu_data (bufs b) = bu_data (p_bufs pr b))"
proof -
  obtain b a f ft fp where x: "d_txns s ta = Some (c_txn c)" "tx_buffer (c_txn c) = Some b" "buf_at (p_space pr) b = Some (c_buf c)"
    "bu_target (p_bufs pr b) = Some a" "d_nodes s a = Some (c_node c)" "\<not> one_way K (tx_flags (c_txn c))"
    "tx_from (c_txn c) = Some f" "d_threads s f = Some ft" "d_procs s (th_proc ft) = Some fp" "c_pid c = of_int (p_pid fp)"
    using c pr by (auto simp: call_on_def)
  let ?s0 = "put_txn ta ((c_txn c)\<lparr>saved_priority := th_nice t\<rparr>) s"
  obtain s1 j where s1: "take_priority K th (c_txn c) (c_node c) ?s0 = Some s1" "d_work s1 = d_work s" "d_procs s1 = d_procs s"
    "d_txns s1 = (d_txns s)(ta \<mapsto> (c_txn c)\<lparr>saved_priority := th_nice t\<rparr>)" "d_threads s1 = (d_threads s)(th \<mapsto> t\<lparr>th_nice := j\<rparr>)"
    using take_priority_frame [of ?s0 th t K "c_txn c" "c_node c"] t by auto
  have target: "read_txn_target K th ta (c_txn c) (Some a) s = Some (s1, BR_TRANSACTION, nd_ptr (c_node c), nd_cookie (c_node c))"
    using x(5) t s1(1) by (simp add: read_txn_target_def)
  obtain gt where gt: "d_threads s1 f = Some gt" "th_proc gt = th_proc ft" using s1(5) x(8) t by (cases "f = th") auto
  have addr: "b_addr (c_buf c) = b" using x(3) by (auto simp: buf_at_def find_Some_iff)
  have tr: "txn_data K s1 pr (c_txn c) (c_buf c) (nd_ptr (c_node c), nd_cookie (c_node c)) = Some (call_words pr c)"
    using x gt s1(3) by (simp add: txn_data_def call_words_def b_data_def Let_def)
  define ws where "ws = UBr BR_TRANSACTION # map UWord (call_words pr c)"
  have len: "length ws = 11" by (simp add: ws_def call_words_def Let_def)
  obtain m where m: "put_words (\<lambda>_. True) ws \<lparr>rd_s = s1, rd_mem = mem, rd_ptr = 0\<rparr> = (\<lparr>rd_s = s1, rd_mem = m, rd_ptr = 44\<rparr>, True)"
    "\<forall>i<11. m (4 * i) = Some (ws ! i)"
    using put_words_true [of ws "\<lparr>rd_s = s1, rd_mem = mem, rd_ptr = 0\<rparr>"] unfolding len by auto
  have words: "buffer_words m 11 = map Some ws"
    by (rule nth_equalityI) (use m(2) len in \<open>simp_all add: buffer_words_def\<close>)
  let ?bufs = "(p_bufs pr)(b := (p_bufs pr b)\<lparr>allow_user_free := True\<rparr>)"
  define s2 where "s2 = put_thread th (t\<lparr>th_nice := j, transaction_stack := Some ta\<rparr>)
    (put_txn ta ((c_txn c)\<lparr>saved_priority := th_nice t, tx_to_parent := transaction_stack t, tx_to_thread := Some th\<rparr>)
      (put_proc p (pr\<lparr>p_bufs := ?bufs\<rparr>) (list_del_work (WTxn ta) s1)))"
  have dn: "read_txn_done K p th ta b BR_TRANSACTION s1 = Some s2"
    using s1 pr x(6) by (simp add: read_txn_done_def s2_def Let_def)
  have "read_txn K (\<lambda>_. True) p th ta \<lparr>rd_s = s, rd_mem = mem, rd_ptr = 0\<rparr> = Some (Finish \<lparr>rd_s = s2, rd_mem = m, rd_ptr = 44\<rparr>)"
    unfolding read_txn_def using x(1-4) pr target tr m(1) dn by (simp add: ws_def [symmetric])
  moreover have "\<not> queued (WTxn ta) s2" by (auto simp: s2_def queued_def list_del_work_def)
  moreover have "d_threads s2 = (d_threads s)(th \<mapsto> t\<lparr>th_nice := j, transaction_stack := Some ta\<rparr>)" using s1(5) by (simp add: s2_def)
  moreover have "\<exists>i. d_txns s2 ta = Some ((c_txn c)\<lparr>saved_priority := i, tx_to_parent := transaction_stack t, tx_to_thread := Some th\<rparr>)"
    by (intro exI [of _ "th_nice t"]) (simp add: s2_def)
  moreover have "d_procs s2 p = Some (pr\<lparr>p_bufs := ?bufs\<rparr>)" "allow_user_free (?bufs b)" "bu_data (?bufs b) = bu_data (p_bufs pr b)" by (simp_all add: s2_def)
  ultimately show ?thesis using words x(2) unfolding ws_def by blast
qed

lemma wait_around:
  assumes "d_threads s th = Some t" and "d_procs s p = Some pr"
  shows "\<exists>s1 s3 k. begin_wait K p th wp s = Some s1 \<and> end_wait p th wp s1 = Some s3 \<and> d_work s1 = d_work s \<and> d_work s3 = d_work s
    \<and> d_txns s3 = d_txns s \<and> d_nodes s3 = d_nodes s \<and> d_procs s3 = d_procs s
    \<and> d_threads s3 = (d_threads s)(th \<mapsto> t\<lparr>th_nice := k, lp_waiting := False\<rparr>)"
proof (cases wp)
  case True
  then show ?thesis using assms
    by (auto simp: begin_wait_def end_wait_def binder_set_nice_def Let_def fun_upd_idem intro!: exI)
next
  case False
  have "(d_threads s)(th \<mapsto> t\<lparr>lp_waiting := False\<rparr>) = (d_threads s)(th \<mapsto> t\<lparr>th_nice := th_nice t, lp_waiting := False\<rparr>)" by simp
  then show ?thesis using False assms
    by (intro exI [of _ "put_thread th (t\<lparr>lp_waiting := True\<rparr>) s"]
      exI [of _ "put_thread th (t\<lparr>lp_waiting := False\<rparr>) (put_thread th (t\<lparr>lp_waiting := True\<rparr>) s)"] exI [of _ "th_nice t"])
      (simp add: begin_wait_def end_wait_def Let_def)
qed

lemma call_on_cong:
  assumes "call_on K l s p ta c" "d_work s' = d_work s" "d_txns s' = d_txns s" "d_nodes s' = d_nodes s" "d_procs s' = d_procs s"
    and "d_threads s th = Some t" "d_threads s' = (d_threads s)(th \<mapsto> u)" "th_proc u = th_proc t"
  shows "call_on K l s' p ta c"
proof -
  have "\<exists>gt. d_threads s' f = Some gt \<and> th_proc gt = th_proc ft" if "d_threads s f = Some ft" for f ft
    using that assms(6-8) by (cases "f = th") auto
  moreover have "work_on l s' = work_on l s" using assms(2) by (simp add: work_on_def)
  ultimately show ?thesis using assms(1) unfolding call_on_def assms(3-5) by metis
qed

lemma read_first_call:
  assumes c: "call_on K l s p ta c" and l: "reads_from s p th l" and pr: "d_procs s p = Some pr" and t: "d_threads s th = Some t" "return_error t = BR_OK"
    and sz: "44 \<le> sz" "sz < 2 ^ 32"
  shows "\<exists>s' m. binder_thread_read K (\<lambda>_. True) p th sz 0 nb [] mem s
      = read_finish (\<lambda>_. True) p th \<lparr>rd_s = s', rd_mem = m, rd_ptr = 44\<rparr>
    \<and> buffer_words m 11 = map Some (UBr BR_TRANSACTION # map UWord (call_words pr c)) \<and> \<not> queued (WTxn ta) s'
    \<and> (\<exists>j. d_threads s' = (d_threads s)(th \<mapsto> t\<lparr>lp_waiting := False, th_nice := j, transaction_stack := Some ta\<rparr>))
    \<and> (\<exists>i. d_txns s' ta = Some ((c_txn c)\<lparr>saved_priority := i, tx_to_parent := transaction_stack t, tx_to_thread := Some th\<rparr>))
    \<and> (\<exists>b bufs. tx_buffer (c_txn c) = Some b \<and> d_procs s' p = Some (pr\<lparr>p_bufs := bufs\<rparr>) \<and> allow_user_free (bufs b)
        \<and> bu_data (bufs b) = bu_data (p_bufs pr b))"
proof -
  define wp where "wp = (transaction_stack t = None \<and> work_on (ThreadTodo th) s = [])"
  obtain s1 s3 k where w: "begin_wait K p th wp s = Some s1" "end_wait p th wp s1 = Some s3" "d_work s1 = d_work s" "d_work s3 = d_work s"
    "d_txns s3 = d_txns s" "d_nodes s3 = d_nodes s" "d_procs s3 = d_procs s" "d_threads s3 = (d_threads s)(th \<mapsto> t\<lparr>th_nice := k, lp_waiting := False\<rparr>)"
    using wait_around [OF t(1) pr, of K wp] by auto
  have c3: "call_on K l s3 p ta c" by (rule call_on_cong [OF c w(4-7) t(1) w(8)]) simp
  obtain s' m j i b bufs where x: "read_txn K (\<lambda>_. True) p th ta \<lparr>rd_s = s3, rd_mem = mem, rd_ptr = 0\<rparr> = Some (Finish \<lparr>rd_s = s', rd_mem = m, rd_ptr = 44\<rparr>)"
    "buffer_words m 11 = map Some (UBr BR_TRANSACTION # map UWord (call_words pr c))" "\<not> queued (WTxn ta) s'"
    "d_threads s' = (d_threads s)(th \<mapsto> t\<lparr>lp_waiting := False, th_nice := j, transaction_stack := Some ta\<rparr>)"
    "d_txns s' ta = Some ((c_txn c)\<lparr>saved_priority := i, tx_to_parent := transaction_stack t, tx_to_thread := Some th\<rparr>)"
    "tx_buffer (c_txn c) = Some b" "d_procs s' p = Some (pr\<lparr>p_bufs := bufs\<rparr>)" "allow_user_free (bufs b)" "bu_data (bufs b) = bu_data (p_bufs pr b)"
    using read_txn_call [OF c3, of pr th "t\<lparr>th_nice := k, lp_waiting := False\<rparr>" mem] pr w(7,8) by auto
  obtain ws where ws: "work_on l s = WTxn ta # ws" using c by (auto simp: call_on_def)
  have same: "work_on i s1 = work_on i s" "work_on i s3 = work_on i s" for i using w(3,4) by (simp_all add: work_on_def)
  have nw: "next_work p th wp s3 = Some (WTxn ta)" and has: "(if wp then binder_has_proc_work p th else binder_has_thread_work th) s1"
    using l ws t(1) unfolding reads_from_def by (auto simp: next_work_def wp_def same binder_has_proc_work_def binder_has_thread_work_def)
  have room: "\<not> room_left sz 0 < 40 + 4" using sz by (simp add: room_left_def word_less_nat_alt unat_of_nat)
  have step: "read_loop K (\<lambda>_. True) p th sz wp \<lparr>rd_s = s3, rd_mem = mem, rd_ptr = 0\<rparr> = Some (Finish \<lparr>rd_s = s', rd_mem = m, rd_ptr = 44\<rparr>)"
    using room x(1) nw by (simp add: read_step_def read_loop.simps)
  have "wait_work (if wp then binder_has_proc_work p th else binder_has_thread_work th) nb [] s1 = (s1, Some (0, []))" using has by simp
  then have "binder_thread_read K (\<lambda>_. True) p th sz 0 nb [] mem s = read_finish (\<lambda>_. True) p th \<lparr>rd_s = s', rd_mem = m, rd_ptr = 44\<rparr>"
    using t w(1,2) step
    by (simp add: binder_thread_read_def numeral_3_eq_3 read_errors_def Let_def wp_def [symmetric])
  then show ?thesis using x by blast
qed

lemma read_call:
  assumes "call_on K l s p ta c" and "reads_from s p th l" and "d_procs s p = Some pr" and "d_threads s th = Some t" and "return_error t = BR_OK"
    and "44 \<le> sz" and "sz < 2 ^ 32" and "\<not> wants_looper pr t"
  obtains s' m i j b bufs where "binder_thread_read K (\<lambda>_. True) p th sz 0 nb [] mem s = Some (Returned s' m 44 0)"
    "buffer_words m 11 = map Some (UBr BR_TRANSACTION # map UWord (call_words pr c))" "\<not> queued (WTxn ta) s'"
    "d_threads s' = (d_threads s)(th \<mapsto> t\<lparr>lp_waiting := False, th_nice := j, transaction_stack := Some ta\<rparr>)" "d_txns s' ta = Some ((c_txn c)\<lparr>saved_priority := i, tx_to_parent := transaction_stack t, tx_to_thread := Some th\<rparr>)"
    "tx_buffer (c_txn c) = Some b" "d_procs s' p = Some (pr\<lparr>p_bufs := bufs\<rparr>)" "allow_user_free (bufs b)" "bu_data (bufs b) = bu_data (p_bufs pr b)"
proof -
  obtain s' m i j b bufs where x: "binder_thread_read K (\<lambda>_. True) p th sz 0 nb [] mem s
      = read_finish (\<lambda>_. True) p th \<lparr>rd_s = s', rd_mem = m, rd_ptr = 44\<rparr>"
    "buffer_words m 11 = map Some (UBr BR_TRANSACTION # map UWord (call_words pr c))" "\<not> queued (WTxn ta) s'"
    "d_threads s' = (d_threads s)(th \<mapsto> t\<lparr>lp_waiting := False, th_nice := j, transaction_stack := Some ta\<rparr>)" "d_txns s' ta = Some ((c_txn c)\<lparr>saved_priority := i, tx_to_parent := transaction_stack t, tx_to_thread := Some th\<rparr>)"
    "tx_buffer (c_txn c) = Some b" "d_procs s' p = Some (pr\<lparr>p_bufs := bufs\<rparr>)" "allow_user_free (bufs b)" "bu_data (bufs b) = bu_data (p_bufs pr b)"
    using read_first_call [OF assms(1-7), of nb mem] by blast
  have "read_finish (\<lambda>_. True) p th \<lparr>rd_s = s', rd_mem = m, rd_ptr = 44\<rparr> = Some (Returned s' m 44 0)"
    using x(4,7) assms(8) by (auto simp: read_finish_def wants_looper_def)
  then show ?thesis using x by (intro that [of s' m j i b bufs]) simp_all
qed

text \<open>
  C12. A call that is first on the reader's list is delivered: the buffer starts with
  \<open>BR_TRANSACTION\<close> and the ten words that describe the call, 44 bytes are
  consumed, the call is on top of the thread's stack above the one that was there,
  and the thread may free the call's buffer. The thread must have no pending error
  and read at least 44 bytes, and the driver must not be asking for a new thread
  (\<open>wants_looper\<close>): with such a request \<open>BR_TRANSACTION\<close> is
  overwritten, as \<open>spawn_request_overwrites_call\<close> below shows.
\<close>

theorem read_delivers_call:
  assumes "call_on K l s p ta c" and "reads_from s p th l" and "d_procs s p = Some pr" and "d_threads s th = Some t" and "return_error t = BR_OK"
    and "44 \<le> sz" and "sz < 2 ^ 32" and "\<not> wants_looper pr t"
  shows "\<exists>s' m. binder_thread_read K (\<lambda>_. True) p th sz 0 non_block [] mem s = Some (Returned s' m 44 0)
    \<and> buffer_words m 11 = map Some (UBr BR_TRANSACTION # map UWord (call_words pr c)) \<and> \<not> queued (WTxn ta) s'
    \<and> (\<exists>t'. d_threads s' th = Some t' \<and> transaction_stack t' = Some ta)
    \<and> (\<exists>tx. d_txns s' ta = Some tx \<and> tx_to_thread tx = Some th \<and> tx_to_parent tx = transaction_stack t)
    \<and> (\<exists>b pr'. tx_buffer (c_txn c) = Some b \<and> d_procs s' p = Some pr' \<and> allow_user_free (p_bufs pr' b))"
  by (rule read_call [OF assms, of non_block mem]) auto

text \<open>
  C39. When the driver also asks for a new thread, the code of that request is
  stored over the command: the reader gets \<open>BR_SPAWN_LOOPER\<close> followed by the
  ten words of a call whose \<open>BR_TRANSACTION\<close> is lost, although the driver
  counts the call as delivered to the thread. The request belongs into a word of
  its own, which the \<open>BR_NOOP\<close> at the start of the buffer used to be.
\<close>

theorem spawn_request_overwrites_call:
  assumes "call_on K l s p ta c" and "reads_from s p th l" and "d_procs s p = Some pr" and "d_threads s th = Some t" and "return_error t = BR_OK"
    and "44 \<le> sz" and "sz < 2 ^ 32" and "wants_looper pr t"
  shows "\<exists>s' m. binder_thread_read K (\<lambda>_. True) p th sz 0 non_block [] mem s = Some (Returned s' m 44 0)
    \<and> buffer_words m 11 = map Some (UBr BR_SPAWN_LOOPER # map UWord (call_words pr c))
    \<and> (\<exists>t'. d_threads s' th = Some t' \<and> transaction_stack t' = Some ta)"
proof -
  obtain s' m j bufs where x: "binder_thread_read K (\<lambda>_. True) p th sz 0 non_block [] mem s
      = read_finish (\<lambda>_. True) p th \<lparr>rd_s = s', rd_mem = m, rd_ptr = 44\<rparr>"
    "buffer_words m 11 = map Some (UBr BR_TRANSACTION # map UWord (call_words pr c))"
    "d_threads s' = (d_threads s)(th \<mapsto> t\<lparr>lp_waiting := False, th_nice := j, transaction_stack := Some ta\<rparr>)"
    "d_procs s' p = Some (pr\<lparr>p_bufs := bufs\<rparr>)"
    using read_first_call [OF assms(1-7), of non_block mem] by blast
  let ?s = "put_proc p (pr\<lparr>p_bufs := bufs, requested_threads := requested_threads pr + 1\<rparr>) s'" and ?m = "m(0 \<mapsto> UBr BR_SPAWN_LOOPER)"
  have "read_finish (\<lambda>_. True) p th \<lparr>rd_s = s', rd_mem = m, rd_ptr = 44\<rparr> = Some (Returned ?s ?m 44 0)"
    using x(3,4) assms(8) by (simp add: read_finish_def wants_looper_def)
  moreover have "buffer_words ?m 11 = map Some (UBr BR_SPAWN_LOOPER # map UWord (call_words pr c))"
  proof -
    have split: "buffer_words n 11 = n 0 # map (\<lambda>i. n (4 * i)) [1..<11]" for n
      by (simp add: buffer_words_def upt_conv_Cons)
    have e: "map (\<lambda>i. ?m (4 * i)) [1..<11] = map (\<lambda>i. m (4 * i)) [1..<11]" by (rule map_cong) auto
    have "map (\<lambda>i. m (4 * i)) [1..<11] = map Some (map UWord (call_words pr c))" using x(2) unfolding split by simp
    then show ?thesis unfolding split e by simp
  qed
  ultimately show ?thesis using x(1,3) by auto
qed

section \<open>An instance\<close>

text \<open>
  Process 100 owns node 300, which process 101 refers to by handle 1. Thread 201 of
  process 101 has called the node; the call is first for thread 200 of process 100.
\<close>

definition demo_ext :: kext where
  "demo_ext = \<lparr>k_rb = plain_trees, k_kz = (\<lambda>_. None), k_page = (\<lambda>_. NoPage), debug_user_refs = False, can_nice = (\<lambda>_ _. True), rlimit_nice = (\<lambda>_. 0),
     security_transaction = (\<lambda>_ _. True), security_transfer_binder = (\<lambda>_ _. True), security_transfer_file = (\<lambda>_ _ _. True),
     fget = (\<lambda>_ _. None), alloc_fd = (\<lambda>_ _. -1), TF_ONE_WAY = 1, TF_ACCEPT_FDS = 16,
     BINDER_TYPE_BINDER = 1, BINDER_TYPE_WEAK_BINDER = 2, BINDER_TYPE_HANDLE = 3, BINDER_TYPE_WEAK_HANDLE = 4, BINDER_TYPE_FD = 5,
     FLAT_BINDER_FLAG_PRIORITY_MASK = 0xff, FLAT_BINDER_FLAG_ACCEPTS_FDS = 0x100\<rparr>"

definition demo_space :: bufspace where
  "demo_space = \<lparr>buf_base = 32768, buf_len = 4096, user_buffer_offset = 8192,
     buffers = [\<lparr>b_addr = 32768, b_free = False, b_async = False, b_txn = True, b_data_size = 18, b_offs_size = 4\<rparr>],
     free_buffers = Leaf, allocated_buffers = Node Leaf 32768 Leaf, free_async_space = 2048, pages = [True], has_vma = True, mm_ok = True\<rparr>"

definition demo_proc :: "int \<Rightarrow> int tree \<Rightarrow> int tree \<Rightarrow> bproc" where
  "demo_proc pid nodes refs = \<lparr>p_threads = Node Leaf (pid + 190) Leaf, p_nodes = nodes, p_refs_by_desc = refs, p_refs_by_node = refs, p_pid = pid,
     p_euid = 1000, p_files = None, p_space = demo_space, p_bufs = (\<lambda>_. \<lparr>allow_user_free = False, bu_txn = Some 400, bu_target = Some 300,
     bu_data = [], bu_offs = []\<rparr>), max_threads = 15, requested_threads = 0, requested_threads_started = 0, ready_threads = 1, default_priority = 0\<rparr>"

definition demo_thread :: "int \<Rightarrow> int option \<Rightarrow> bthread" where
  "demo_thread p stack = \<lparr>th_proc = p, th_pid = p - 90, lp_registered = False, lp_entered = True, lp_exited = False, lp_invalid = False, lp_waiting = False,
     lp_need_return = False, transaction_stack = stack, return_error = BR_OK, return_error2 = BR_OK, th_nice = 0\<rparr>"

definition demo_txn :: btxn where
  "demo_txn = \<lparr>tx_from = Some 201, tx_from_parent = None, tx_to_proc = Some 100, tx_to_thread = Some 200, tx_to_parent = None, need_reply = True,
     tx_buffer = Some 32768, tx_code = 3, tx_flags = 0, tx_priority = 0, saved_priority = 0, sender_euid = 1000\<rparr>"

definition demo_node :: bnode where
  "demo_node = (new_node 100 7 8)\<lparr>nd_refs := [500], internal_strong_refs := 1, local_strong_refs := 1, has_strong_ref := True, has_weak_ref := True\<rparr>"

definition demo_drv :: drv where
  "demo_drv = \<lparr>d_procs = [100 \<mapsto> demo_proc 10 (Node Leaf 300 Leaf) Leaf, 101 \<mapsto> demo_proc 11 Leaf (Node Leaf 500 Leaf)],
     d_threads = [200 \<mapsto> demo_thread 100 None, 201 \<mapsto> demo_thread 101 (Some 400)], d_nodes = [300 \<mapsto> demo_node],
     d_refs = [500 \<mapsto> \<lparr>rf_proc = 101, rf_node = 300, rf_desc = 1, rf_strong = 1, rf_weak = 0, rf_death = None\<rparr>], d_deaths = Map.empty,
     d_txns = [400 \<mapsto> demo_txn], d_completes = {}, d_work = [(ThreadTodo 200, WTxn 400)], dead_nodes = [], context_mgr_node = None, context_mgr_uid = None\<rparr>"

lemma demo_maps:
  "d_nodes demo_drv = [300 \<mapsto> demo_node]"
  "d_refs demo_drv = [500 \<mapsto> \<lparr>rf_proc = 101, rf_node = 300, rf_desc = 1, rf_strong = 1, rf_weak = 0, rf_death = None\<rparr>]"
  "d_procs demo_drv = [100 \<mapsto> demo_proc 10 (Node Leaf 300 Leaf) Leaf, 101 \<mapsto> demo_proc 11 Leaf (Node Leaf 500 Leaf)]"
  "d_threads demo_drv = [200 \<mapsto> demo_thread 100 None, 201 \<mapsto> demo_thread 101 (Some 400)]"
  "d_deaths demo_drv = Map.empty" "d_work demo_drv = [(ThreadTodo 200, WTxn 400)]" "dead_nodes demo_drv = []" "context_mgr_node demo_drv = None"
  "d_txns demo_drv = [400 \<mapsto> demo_txn]"
  by (simp_all add: demo_drv_def)

lemma demo_sets:
  "refs_to demo_drv a = (if a = 300 then {500} else {})" "proc_refs demo_drv p = (if p = 101 then {500} else {})"
  "proc_nodes demo_drv p = (if p = 100 then {300} else {})" "strong_in demo_drv r = (r = 500)"
  by (auto simp: demo_maps refs_to_def proc_refs_def proc_nodes_def strong_in_def demo_node_def new_node_def split: if_splits)

lemma demo_graph: "graph_ok demo_drv"
proof -
  have "node_ok demo_drv a n" if "d_nodes demo_drv a = Some n" for a n
    using that by (auto simp: node_ok_def counts_ok_def demo_sets demo_maps demo_node_def new_node_def split: if_splits)
  moreover have "ref_ok demo_drv rf" if "d_refs demo_drv r = Some rf" for r rf
    using that by (auto simp: ref_ok_def death_ok_def demo_maps split: if_splits)
  moreover have "proc_ok demo_drv p pr" if "d_procs demo_drv p = Some pr" for p pr
    using that by (auto simp: proc_ok_def index_of_def demo_sets demo_maps demo_proc_def key_ptr_def key_desc_def key_node_def split: if_splits)
  moreover have "deaths_ok demo_drv" "work_ok demo_drv" "roots_ok demo_drv"
    by (auto simp: deaths_ok_def work_ok_def roots_ok_def demo_maps queued_def)
  ultimately show ?thesis by (simp add: graph_ok_def)
qed

lemma demo_read: "read_ok 100 200 demo_drv"
  using demo_graph by (auto simp: read_ok_def demo_maps demo_thread_def deliverable_def demo_txn_def demo_proc_def demo_space_def buf_at_def
    spare_def demo_node_def new_node_def memory_ok_def completes_ok_def queued_def)

definition demo_call :: call where
  "demo_call = \<lparr>c_txn = demo_txn, c_buf = \<lparr>b_addr = 32768, b_free = False, b_async = False, b_txn = True, b_data_size = 18, b_offs_size = 4\<rparr>,
     c_node = demo_node, c_pid = 11\<rparr>"

lemma demo_call_on: "call_on demo_ext (ThreadTodo 200) demo_drv 100 400 demo_call" and demo_reads: "reads_from demo_drv 100 200 (ThreadTodo 200)"
  unfolding call_on_def reads_from_def by (auto simp: demo_maps demo_call_def work_on_def demo_txn_def demo_proc_def demo_space_def buf_at_def one_way_def
    demo_ext_def demo_thread_def)

theorem read_never_spins_witness:
  "binder_thread_read demo_ext (\<lambda>_. True) 100 201 256 0 True [] Map.empty demo_drv \<noteq> Some OutOfAttempts
    \<and> (\<forall>s'. binder_thread_read demo_ext (\<lambda>_. True) 100 201 256 0 True [] Map.empty demo_drv \<noteq> Some (Sleeping s'))"
  using read_never_spins [of 256 demo_ext "\<lambda>_. True" 100 201 0 True "[]" Map.empty demo_drv] by simp

theorem read_safe_witness:
  "\<exists>r. binder_thread_read demo_ext (\<lambda>_. True) 100 200 256 0 False [] Map.empty demo_drv = Some r \<and> res_ok r"
  using read_safe [of demo_ext 100 200 demo_drv "[]"] plain_trees_ok demo_read by (simp add: demo_ext_def keeps_def)

theorem read_delivers_call_witness:
  "\<exists>s' m. binder_thread_read demo_ext (\<lambda>_. True) 100 200 256 0 False [] Map.empty demo_drv = Some (Returned s' m 44 0)
    \<and> buffer_words m 11 = map Some (UBr BR_TRANSACTION # map UWord [7, 8, 3, 0, 11, 1000, 18, 4, 41000, 41020])"
proof -
  have w: "call_words (demo_proc 10 (Node Leaf 300 Leaf) Leaf) demo_call = [7, 8, 3, 0, 11, 1000, 18, 4, 41000, 41020]"
    by (simp add: call_words_def demo_call_def demo_node_def new_node_def demo_txn_def demo_proc_def demo_space_def hdr_size_def ALIGN4_def)
  show ?thesis
    using read_delivers_call [OF demo_call_on demo_reads, of "demo_proc 10 (Node Leaf 300 Leaf) Leaf" "demo_thread 100 None" 256 False Map.empty]
    unfolding w by (simp add: demo_maps demo_thread_def demo_proc_def wants_looper_def) blast
qed

text \<open>The same call when no thread of the process is ready.\<close>

definition busy_drv :: drv where
  "busy_drv = put_proc 100 ((demo_proc 10 (Node Leaf 300 Leaf) Leaf)\<lparr>ready_threads := 0\<rparr>) demo_drv"

lemma busy_call_on: "call_on demo_ext (ThreadTodo 200) busy_drv 100 400 demo_call" and busy_reads: "reads_from busy_drv 100 200 (ThreadTodo 200)"
  unfolding call_on_def reads_from_def by (auto simp: busy_drv_def demo_maps demo_call_def demo_txn_def demo_proc_def demo_space_def buf_at_def one_way_def
    demo_ext_def demo_thread_def) (simp_all add: work_on_def demo_maps)

theorem spawn_request_overwrites_call_witness:
  "\<exists>s' m. binder_thread_read demo_ext (\<lambda>_. True) 100 200 256 0 False [] Map.empty busy_drv = Some (Returned s' m 44 0)
    \<and> m 0 = Some (UBr BR_SPAWN_LOOPER)"
proof -
  let ?pr = "(demo_proc 10 (Node Leaf 300 Leaf) Leaf)\<lparr>ready_threads := 0\<rparr>"
  obtain s' m where "binder_thread_read demo_ext (\<lambda>_. True) 100 200 256 0 False [] Map.empty busy_drv = Some (Returned s' m 44 0)"
    "buffer_words m 11 = map Some (UBr BR_SPAWN_LOOPER # map UWord (call_words ?pr demo_call))"
    using spawn_request_overwrites_call [OF busy_call_on busy_reads, of ?pr "demo_thread 100 None" 256 False Map.empty]
    by (auto simp: busy_drv_def demo_maps demo_thread_def demo_proc_def wants_looper_def)
  then show ?thesis by (intro exI [of _ s'] exI [of _ m]) (simp add: buffer_words_def upt_conv_Cons)
qed

end
