(* ===== verification/KernelTxn.thy ===== *)
theory KernelTxn
  imports KernelRead
begin

text \<open>
  Transactions (\<open>binder_pop_transaction\<close> to \<open>binder_transaction\<close> of
  \<open>patches/kernel/binder.c\<close>): a call or a reply is copied into a buffer of
  the target, the objects in it are translated, and the work is queued. A buffer
  belongs to the process \<open>to_proc\<close> of its transaction; user memory is a map
  from addresses to bytes where a missing byte is a fault.
\<close>

section \<open>Ending a transaction\<close>

definition clear_buf_txn :: "btxn \<Rightarrow> drv \<Rightarrow> drv option" where
  "clear_buf_txn tx s =
     (case tx_buffer tx of
        None \<Rightarrow> Some s
      | Some b \<Rightarrow> do { p \<leftarrow> tx_to_proc tx; pr \<leftarrow> d_procs s p; Some (put_proc p (set_buf_txn b None pr) s) })"

definition free_txn :: "int \<Rightarrow> drv \<Rightarrow> drv" where
  "free_txn t s = s\<lparr>d_txns := (d_txns s)(t := None)\<rparr>"

definition binder_pop_transaction :: "int option \<Rightarrow> int \<Rightarrow> drv \<Rightarrow> drv option" where
  "binder_pop_transaction target_thread t s =
     do { tx \<leftarrow> d_txns s t;
          s1 \<leftarrow> (case target_thread of
                  None \<Rightarrow> Some s
                | Some f \<Rightarrow> do { ft \<leftarrow> d_threads s f;
                                 if transaction_stack ft \<noteq> Some t \<or> tx_from tx \<noteq> Some f then None
                                 else Some (put_thread f (ft\<lparr>transaction_stack := tx_from_parent tx\<rparr>) s) });
          s2 \<leftarrow> clear_buf_txn tx s1;
          Some (free_txn t s2) }"

text \<open>The error goes to the sender, or to whoever waits for a sender that is gone.\<close>

partial_function (option) send_failed :: "int \<Rightarrow> br \<Rightarrow> drv \<Rightarrow> drv option" where
  "send_failed t error_code s =
     do { tx \<leftarrow> d_txns s t;
          case tx_from tx of
            Some f \<Rightarrow>
              do { ft \<leftarrow> d_threads s f;
                   let ft1 = (if return_error ft \<noteq> BR_OK \<and> return_error2 ft = BR_OK
                              then ft\<lparr>return_error2 := return_error ft, return_error := BR_OK\<rparr> else ft);
                   let s1 = put_thread f ft1 s;
                   if return_error ft1 = BR_OK
                   then do { s2 \<leftarrow> binder_pop_transaction (Some f) t s1;
                             ft2 \<leftarrow> d_threads s2 f;
                             Some (put_thread f (ft2\<lparr>return_error := error_code\<rparr>) s2) }
                   else Some s1 }
          | None \<Rightarrow>
              do { s1 \<leftarrow> binder_pop_transaction None t s;
                   case tx_from_parent tx of
                     None \<Rightarrow> Some s1
                   | Some n \<Rightarrow> send_failed n error_code s1 } }"

definition binder_send_failed_reply :: "'a kext_scheme \<Rightarrow> int \<Rightarrow> br \<Rightarrow> drv \<Rightarrow> drv option" where
  "binder_send_failed_reply K t error_code s =
     do { tx \<leftarrow> d_txns s t;
          if one_way K (tx_flags tx) then None else send_failed t error_code s }"

section \<open>Objects in a buffer\<close>

text \<open>\<open>struct flat_binder_object\<close>: type, flags, pointer or handle, cookie.\<close>

definition obj_size :: u32 where "obj_size = 16"

definition bad_offset :: "u32 \<Rightarrow> u32 \<Rightarrow> bool" where
  "bad_offset data_size off \<longleftrightarrow> off > data_size - obj_size \<or> data_size < obj_size \<or> off AND 3 \<noteq> 0"

record flat_obj =
  fo_type :: u32
  fo_flags :: u32
  fo_ptr :: u32
  fo_cookie :: u32

definition get_obj :: "bytes \<Rightarrow> u32 \<Rightarrow> flat_obj option" where
  "get_obj data off =
     do { ty \<leftarrow> load32 data (unat off); fl \<leftarrow> load32 data (unat off + 4);
          pt \<leftarrow> load32 data (unat off + 8); ck \<leftarrow> load32 data (unat off + 12);
          Some \<lparr>fo_type = ty, fo_flags = fl, fo_ptr = pt, fo_cookie = ck\<rparr> }"

definition put_obj :: "bytes \<Rightarrow> u32 \<Rightarrow> flat_obj \<Rightarrow> bytes option" where
  "put_obj data off fo = store_bytes data (unat off) (le32 (fo_type fo) @ le32 (fo_flags fo) @ le32 (fo_ptr fo) @ le32 (fo_cookie fo))"

definition task_close_fd :: "int \<Rightarrow> u32 \<Rightarrow> drv \<Rightarrow> drv option" where
  "task_close_fd p fd s =
     do { pr \<leftarrow> d_procs s p;
          case p_files pr of
            None \<Rightarrow> Some s
          | Some files \<Rightarrow> Some (put_proc p (pr\<lparr>p_files := Some (files(uint fd := None))\<rparr>) s) }"

definition release_obj :: "'a kext_scheme \<Rightarrow> int \<Rightarrow> bool \<Rightarrow> flat_obj \<Rightarrow> drv \<Rightarrow> drv option" where
  "release_obj K p failed fo s =
     (if fo_type fo = BINDER_TYPE_BINDER K \<or> fo_type fo = BINDER_TYPE_WEAK_BINDER K
      then do { node \<leftarrow> binder_get_node s p (fo_ptr fo);
                case node of None \<Rightarrow> Some s | Some a \<Rightarrow> binder_dec_node (k_rb K) s a (fo_type fo = BINDER_TYPE_BINDER K) False }
      else if fo_type fo = BINDER_TYPE_HANDLE K \<or> fo_type fo = BINDER_TYPE_WEAK_HANDLE K
      then do { ref \<leftarrow> binder_get_ref s p (uint (fo_ptr fo));
                case ref of
                  None \<Rightarrow> Some s
                | Some r \<Rightarrow> do { (s1, _) \<leftarrow> binder_dec_ref (k_rb K) s r (fo_type fo = BINDER_TYPE_HANDLE K); Some s1 } }
      else if fo_type fo = BINDER_TYPE_FD K
      then (if failed then task_close_fd p (fo_ptr fo) s else Some s)
      else Some s)"

fun release_objs :: "'a kext_scheme \<Rightarrow> int \<Rightarrow> bool \<Rightarrow> u32 \<Rightarrow> bytes \<Rightarrow> u32 list \<Rightarrow> drv \<Rightarrow> drv option" where
  "release_objs K p failed data_size data [] s = Some s"
| "release_objs K p failed data_size data (off # offs) s =
     (if bad_offset data_size off then release_objs K p failed data_size data offs s
      else do { fo \<leftarrow> get_obj data off;
                s1 \<leftarrow> release_obj K p failed fo s;
                release_objs K p failed data_size data offs s1 })"

text \<open>\<open>failed_at\<close> is the index of the offset at which a transaction failed.\<close>

definition binder_transaction_buffer_release :: "'a kext_scheme \<Rightarrow> int \<Rightarrow> int \<Rightarrow> nat option \<Rightarrow> drv \<Rightarrow> drv option" where
  "binder_transaction_buffer_release K p b failed_at s =
     do { pr \<leftarrow> d_procs s p;
          bf \<leftarrow> buf_at (p_space pr) b;
          let use = p_bufs pr b;
          s1 \<leftarrow> (case bu_target use of None \<Rightarrow> Some s | Some a \<Rightarrow> binder_dec_node (k_rb K) s a True False);
          let offs = (case failed_at of None \<Rightarrow> bu_offs use | Some i \<Rightarrow> take i (bu_offs use));
          release_objs K p (failed_at \<noteq> None) (b_data_size bf) (bu_data use) offs s1 }"

section \<open>The target of a transaction\<close>

record txn_in =
  ti_handle :: u32
  ti_code :: u32
  ti_flags :: u32
  ti_data_size :: u32
  ti_offs_size :: u32
  ti_data :: u32
  ti_offs :: u32

record target =
  g_proc :: int
  g_thread :: "int option"
  g_node :: "int option"
  g_reply :: "int option"

text \<open>A failure has the code to return and the call it was a reply to, if any.\<close>

type_synonym failure = "br \<times> int option"

definition reply_target :: "'a kext_scheme \<Rightarrow> int \<Rightarrow> drv \<Rightarrow> (drv \<times> (failure + target)) option" where
  "reply_target K th s =
     do { t \<leftarrow> d_threads s th;
          case transaction_stack t of
            None \<Rightarrow> Some (s, Inl (BR_FAILED_REPLY, None))
          | Some i \<Rightarrow>
              do { tx \<leftarrow> d_txns s i;
                   s1 \<leftarrow> binder_set_nice K th (saved_priority tx) s;
                   if tx_to_thread tx \<noteq> Some th then Some (s1, Inl (BR_FAILED_REPLY, None))
                   else do {
                     t1 \<leftarrow> d_threads s1 th;
                     let s2 = put_thread th (t1\<lparr>transaction_stack := tx_to_parent tx\<rparr>) s1;
                     case tx_from tx of
                       None \<Rightarrow> Some (s2, Inl (BR_DEAD_REPLY, Some i))
                     | Some f \<Rightarrow>
                         do { ft \<leftarrow> d_threads s2 f;
                              if transaction_stack ft \<noteq> Some i then Some (s2, Inl (BR_FAILED_REPLY, None))
                              else Some (s2, Inr \<lparr>g_proc = th_proc ft, g_thread = Some f, g_node = None, g_reply = Some i\<rparr>) } } } }"

text \<open>The last thread of the target on the way up the stack of calls.\<close>

partial_function (option) stack_thread :: "drv \<Rightarrow> int \<Rightarrow> int option \<Rightarrow> int option \<Rightarrow> int option option" where
  "stack_thread s p tmp found =
     (case tmp of
        None \<Rightarrow> Some found
      | Some t \<Rightarrow>
          do { tx \<leftarrow> d_txns s t;
               found' \<leftarrow> (case tx_from tx of
                            None \<Rightarrow> Some found
                          | Some f \<Rightarrow> do { ft \<leftarrow> d_threads s f; Some (if th_proc ft = p then Some f else found) });
               stack_thread s p (tx_from_parent tx) found' })"

definition call_target :: "'a kext_scheme \<Rightarrow> int \<Rightarrow> int \<Rightarrow> txn_in \<Rightarrow> drv \<Rightarrow> (failure + target) option" where
  "call_target K p th tr s =
     do { node \<leftarrow> (if ti_handle tr \<noteq> 0
                   then do { ref \<leftarrow> binder_get_ref s p (uint (ti_handle tr));
                             case ref of
                               None \<Rightarrow> Some (Inl (BR_FAILED_REPLY, None))
                             | Some r \<Rightarrow> do { rf \<leftarrow> d_refs s r; Some (Inr (rf_node rf)) } }
                   else Some (case context_mgr_node s of None \<Rightarrow> Inl (BR_DEAD_REPLY, None) | Some a \<Rightarrow> Inr a));
          case node of
            Inl e \<Rightarrow> Some (Inl e)
          | Inr a \<Rightarrow>
              do { n \<leftarrow> d_nodes s a;
                   t \<leftarrow> d_threads s th;
                   case nd_proc n of
                     None \<Rightarrow> Some (Inl (BR_DEAD_REPLY, None))
                   | Some q \<Rightarrow>
                       if \<not> security_transaction K p q then Some (Inl (BR_FAILED_REPLY, None))
                       else if one_way K (ti_flags tr) \<or> transaction_stack t = None
                       then Some (Inr \<lparr>g_proc = q, g_thread = None, g_node = Some a, g_reply = None\<rparr>)
                       else do { tmp \<leftarrow> transaction_stack t;
                                 tx \<leftarrow> d_txns s tmp;
                                 if tx_to_thread tx \<noteq> Some th then Some (Inl (BR_FAILED_REPLY, None))
                                 else do { f \<leftarrow> stack_thread s q (Some tmp) None;
                                           Some (Inr \<lparr>g_proc = q, g_thread = f, g_node = Some a, g_reply = None\<rparr>) } } } }"

section \<open>Translating objects\<close>

text \<open>
  The translated object, or none when the transaction fails. The results of the
  increments are not looked at.
\<close>

definition translate_binder :: "'a kext_scheme \<Rightarrow> int \<Rightarrow> int \<Rightarrow> int \<Rightarrow> flat_obj \<Rightarrow> drv \<Rightarrow> (drv \<times> flat_obj option) option" where
  "translate_binder K p th q fo s =
     do { found \<leftarrow> binder_get_node s p (fo_ptr fo);
          (s1, node) \<leftarrow> (case found of
              Some a \<Rightarrow> Some (s, Some a)
            | None \<Rightarrow> do { (s0, made) \<leftarrow> binder_new_node (k_rb K) (k_kz K) s p (fo_ptr fo) (fo_cookie fo);
                           case made of
                             None \<Rightarrow> Some (s0, None)
                           | Some a \<Rightarrow> do { n \<leftarrow> d_nodes s0 a;
                                            Some (put_node a (n\<lparr>min_priority := uint (fo_flags fo AND FLAT_BINDER_FLAG_PRIORITY_MASK K) mod 256,
                                                     accept_fds := (fo_flags fo AND FLAT_BINDER_FLAG_ACCEPTS_FDS K \<noteq> 0)\<rparr>) s0, Some a) } });
          case node of
            None \<Rightarrow> Some (s1, None)
          | Some a \<Rightarrow>
              do { n \<leftarrow> d_nodes s1 a;
                   if fo_cookie fo \<noteq> nd_cookie n then Some (s1, None)
                   else if \<not> security_transfer_binder K p q then Some (s1, None)
                   else do {
                     (s2, ref) \<leftarrow> binder_get_ref_for_node (k_rb K) (k_kz K) s1 q a;
                     case ref of
                       None \<Rightarrow> Some (s2, None)
                     | Some r \<Rightarrow>
                         do { rf \<leftarrow> d_refs s2 r;
                              let strong = (fo_type fo = BINDER_TYPE_BINDER K);
                              (s3, _) \<leftarrow> binder_inc_ref s2 r strong (Some (ThreadTodo th));
                              Some (s3, Some (fo\<lparr>fo_type := if strong then BINDER_TYPE_HANDLE K else BINDER_TYPE_WEAK_HANDLE K,
                                                 fo_ptr := of_int (rf_desc rf)\<rparr>)) } } } }"

definition translate_handle :: "'a kext_scheme \<Rightarrow> int \<Rightarrow> int \<Rightarrow> flat_obj \<Rightarrow> drv \<Rightarrow> (drv \<times> flat_obj option) option" where
  "translate_handle K p q fo s =
     do { ref \<leftarrow> binder_get_ref s p (uint (fo_ptr fo));
          case ref of
            None \<Rightarrow> Some (s, None)
          | Some r \<Rightarrow>
              if \<not> security_transfer_binder K p q then Some (s, None)
              else do {
                rf \<leftarrow> d_refs s r;
                n \<leftarrow> d_nodes s (rf_node rf);
                let strong = (fo_type fo = BINDER_TYPE_HANDLE K);
                if nd_proc n = Some q
                then do { (s1, _) \<leftarrow> binder_inc_node s (rf_node rf) strong False None;
                          Some (s1, Some (fo\<lparr>fo_type := if strong then BINDER_TYPE_BINDER K else BINDER_TYPE_WEAK_BINDER K,
                                             fo_ptr := nd_ptr n, fo_cookie := nd_cookie n\<rparr>)) }
                else do {
                  (s1, made) \<leftarrow> binder_get_ref_for_node (k_rb K) (k_kz K) s q (rf_node rf);
                  case made of
                    None \<Rightarrow> Some (s1, None)
                  | Some r' \<Rightarrow>
                      do { rf' \<leftarrow> d_refs s1 r';
                           (s2, _) \<leftarrow> binder_inc_ref s1 r' strong None;
                           Some (s2, Some (fo\<lparr>fo_ptr := of_int (rf_desc rf')\<rparr>)) } } } }"

abbreviation (input) ESRCH :: int where "ESRCH \<equiv> 3"

definition task_get_unused_fd_flags :: "'a kext_scheme \<Rightarrow> int \<Rightarrow> bproc \<Rightarrow> int" where
  "task_get_unused_fd_flags K q pr = (case p_files pr of None \<Rightarrow> -ESRCH | Some files \<Rightarrow> alloc_fd K q files)"

definition task_fd_install :: "int \<Rightarrow> int \<Rightarrow> bproc \<Rightarrow> bproc" where
  "task_fd_install fd file pr = pr\<lparr>p_files := map_option (\<lambda>files. files(fd \<mapsto> file)) (p_files pr)\<rparr>"

definition translate_fd :: "'a kext_scheme \<Rightarrow> int \<Rightarrow> int \<Rightarrow> target \<Rightarrow> flat_obj \<Rightarrow> drv \<Rightarrow> (drv \<times> flat_obj option) option" where
  "translate_fd K p th g fo s =
     do { allowed \<leftarrow> (case g_reply g of
              Some i \<Rightarrow> do { tx \<leftarrow> d_txns s i; Some (tx_flags tx AND TF_ACCEPT_FDS K \<noteq> 0) }
            | None \<Rightarrow> do { a \<leftarrow> g_node g; n \<leftarrow> d_nodes s a; Some (accept_fds n) });
          pr \<leftarrow> d_procs s (g_proc g);
          if \<not> allowed then Some (s, None)
          else case fget K th (fo_ptr fo) of
              None \<Rightarrow> Some (s, None)
            | Some file \<Rightarrow>
                if \<not> security_transfer_file K p (g_proc g) file then Some (s, None)
                else let fd = task_get_unused_fd_flags K (g_proc g) pr in
                  if fd < 0 then Some (s, None)
                  else Some (put_proc (g_proc g) (task_fd_install fd file pr) s, Some (fo\<lparr>fo_ptr := of_int fd\<rparr>)) }"

definition translate_obj :: "'a kext_scheme \<Rightarrow> int \<Rightarrow> int \<Rightarrow> target \<Rightarrow> flat_obj \<Rightarrow> drv \<Rightarrow> (drv \<times> flat_obj option) option" where
  "translate_obj K p th g fo s =
     (if fo_type fo = BINDER_TYPE_BINDER K \<or> fo_type fo = BINDER_TYPE_WEAK_BINDER K then translate_binder K p th (g_proc g) fo s
      else if fo_type fo = BINDER_TYPE_HANDLE K \<or> fo_type fo = BINDER_TYPE_WEAK_HANDLE K then translate_handle K p (g_proc g) fo s
      else if fo_type fo = BINDER_TYPE_FD K then translate_fd K p th g fo s
      else Some (s, None))"

definition set_buf_data :: "int \<Rightarrow> int \<Rightarrow> bytes \<Rightarrow> drv \<Rightarrow> drv option" where
  "set_buf_data q b data s =
     do { pr \<leftarrow> d_procs s q; Some (put_proc q (pr\<lparr>p_bufs := (p_bufs pr)(b := (p_bufs pr b)\<lparr>bu_data := data\<rparr>)\<rparr>) s) }"

text \<open>The loop over the offsets; the result is the index of the object that failed, if one did.\<close>

fun translate_objs :: "'a kext_scheme \<Rightarrow> int \<Rightarrow> int \<Rightarrow> target \<Rightarrow> int \<Rightarrow> u32 \<Rightarrow> nat \<Rightarrow> u32 list \<Rightarrow> drv \<Rightarrow> (drv \<times> nat option) option" where
  "translate_objs K p th g b data_size i [] s = Some (s, None)"
| "translate_objs K p th g b data_size i (off # offs) s =
     (if bad_offset data_size off then Some (s, Some i)
      else do { pr \<leftarrow> d_procs s (g_proc g);
                fo \<leftarrow> get_obj (bu_data (p_bufs pr b)) off;
                (s1, res) \<leftarrow> translate_obj K p th g fo s;
                case res of
                  None \<Rightarrow> Some (s1, Some i)
                | Some fo' \<Rightarrow> do { data \<leftarrow> put_obj (bu_data (p_bufs pr b)) off fo';
                                   s2 \<leftarrow> set_buf_data (g_proc g) b data s1;
                                   translate_objs K p th g b data_size (i + 1) offs s2 } })"

section \<open>A transaction\<close>

fun get_bytes :: "(u32 \<Rightarrow> u8 option) \<Rightarrow> u32 \<Rightarrow> nat \<Rightarrow> bytes option" where
  "get_bytes um a 0 = Some []"
| "get_bytes um a (Suc n) = do { c \<leftarrow> um a; cs \<leftarrow> get_bytes um (a + 1) n; Some (c # cs) }"

fun words_of :: "bytes \<Rightarrow> u32 list" where
  "words_of (a # b # c # d # cs) = mk32 a b c d # words_of cs"
| "words_of _ = []"

text \<open>Where a failed transaction ends: the reply to a call fails the call.\<close>

definition fail_transaction :: "'a kext_scheme \<Rightarrow> int \<Rightarrow> failure \<Rightarrow> drv \<Rightarrow> drv option" where
  "fail_transaction K th e s =
     do { t \<leftarrow> d_threads s th;
          if return_error t \<noteq> BR_OK then None
          else case snd e of
              Some i \<Rightarrow> binder_send_failed_reply K i (fst e) (put_thread th (t\<lparr>return_error := BR_TRANSACTION_COMPLETE\<rparr>) s)
            | None \<Rightarrow> Some (put_thread th (t\<lparr>return_error := fst e\<rparr>) s) }"

text \<open>The error path once the buffer exists: give back what the objects took, then the buffer.\<close>

definition undo_transaction :: "'a kext_scheme \<Rightarrow> int \<Rightarrow> int \<Rightarrow> nat \<Rightarrow> drv \<Rightarrow> drv option" where
  "undo_transaction K q b i s =
     do { s1 \<leftarrow> binder_transaction_buffer_release K q b (Some i) s;
          pr \<leftarrow> d_procs s1 q;
          let pr1 = set_buf_txn b None pr;
          sp \<leftarrow> binder_free_buf (k_rb K) (k_page K) (p_space pr1) b;
          Some (put_proc q (pr1\<lparr>p_space := sp\<rparr>) s1) }"

definition queue_transaction :: "'a kext_scheme \<Rightarrow> int \<Rightarrow> bool \<Rightarrow> target \<Rightarrow> int \<Rightarrow> int \<Rightarrow> drv \<Rightarrow> drv option" where
  "queue_transaction K th reply g t c s =
     do { tx \<leftarrow> d_txns s t;
          b \<leftarrow> tx_buffer tx;
          pr \<leftarrow> d_procs s (g_proc g);
          bf \<leftarrow> buf_at (p_space pr) b;
          let list = (case g_thread g of Some f \<Rightarrow> ThreadTodo f | None \<Rightarrow> ProcTodo (g_proc g));
          (s1, l) \<leftarrow>
            (if reply
             then (if b_async bf then None
                   else do { i \<leftarrow> g_reply g; s1 \<leftarrow> binder_pop_transaction (g_thread g) i s; Some (s1, list) })
             else if \<not> one_way K (tx_flags tx)
             then (if b_async bf then None
                   else do { x \<leftarrow> d_threads s th;
                             Some (put_thread th (x\<lparr>transaction_stack := Some t\<rparr>)
                                     (put_txn t (tx\<lparr>need_reply := True, tx_from_parent := transaction_stack x\<rparr>) s), list) })
             else (if \<not> b_async bf then None
                   else do { a \<leftarrow> g_node g;
                             n \<leftarrow> d_nodes s a;
                             Some (if has_async_transaction n then (s, NodeAsync a)
                                   else (put_node a (n\<lparr>has_async_transaction := True\<rparr>) s, list)) }));
          Some (list_add_tail (WComplete c) (ThreadTodo th) (list_add_tail (WTxn t) l s1)) }"

definition fill_buffer :: "'a kext_scheme \<Rightarrow> (u32 \<Rightarrow> u8 option) \<Rightarrow> int \<Rightarrow> int \<Rightarrow> txn_in \<Rightarrow> target \<Rightarrow> int \<Rightarrow> drv \<Rightarrow> (drv \<times> nat option) option" where
  "fill_buffer K um p th tr g b s =
     (case get_bytes um (ti_data tr) (unat (ti_data_size tr)) of
        None \<Rightarrow> Some (s, Some 0)
      | Some data \<Rightarrow>
          do { s1 \<leftarrow> set_buf_data (g_proc g) b data s;
               case get_bytes um (ti_offs tr) (unat (ti_offs_size tr)) of
                 None \<Rightarrow> Some (s1, Some 0)
               | Some os \<Rightarrow>
                   do { pr \<leftarrow> d_procs s1 (g_proc g);
                        let s2 = put_proc (g_proc g) (pr\<lparr>p_bufs := (p_bufs pr)(b := (p_bufs pr b)\<lparr>bu_offs := words_of os\<rparr>)\<rparr>) s1;
                        if ti_offs_size tr AND 3 \<noteq> 0 then Some (s2, Some 0)
                        else translate_objs K p th g b (ti_data_size tr) 0 (words_of os) s2 } })"

definition new_txn :: "'a kext_scheme \<Rightarrow> int \<Rightarrow> bthread \<Rightarrow> u32 \<Rightarrow> bool \<Rightarrow> txn_in \<Rightarrow> target \<Rightarrow> btxn" where
  "new_txn K th t euid reply tr g = \<lparr>tx_from = (if \<not> reply \<and> \<not> one_way K (ti_flags tr) then Some th else None), tx_from_parent = None,
     tx_to_proc = Some (g_proc g), tx_to_thread = g_thread g, tx_to_parent = None, need_reply = False, tx_buffer = None,
     tx_code = ti_code tr, tx_flags = ti_flags tr, tx_priority = th_nice t, saved_priority = 0, sender_euid = euid\<rparr>"

definition send_transaction :: "'a kext_scheme \<Rightarrow> (u32 \<Rightarrow> u8 option) \<Rightarrow> int \<Rightarrow> int \<Rightarrow> txn_in \<Rightarrow> bool \<Rightarrow> target \<Rightarrow> int \<Rightarrow> int \<Rightarrow> drv \<Rightarrow> drv option" where
  "send_transaction K um p th tr reply g t c s =
     do { pr \<leftarrow> d_procs s (g_proc g);
          let is_async = (\<not> reply \<and> one_way K (ti_flags tr));
          (sp, buffer) \<leftarrow> binder_alloc_buf (k_rb K) (k_page K) (p_space pr) (ti_data_size tr) (ti_offs_size tr) is_async;
          let discard = (\<lambda>x. (free_txn t x)\<lparr>d_completes := d_completes x - {c}\<rparr>);
          case buffer of
            None \<Rightarrow> fail_transaction K th (BR_FAILED_REPLY, g_reply g) (discard (put_proc (g_proc g) (pr\<lparr>p_space := sp\<rparr>) s))
          | Some b \<Rightarrow>
              do { tx \<leftarrow> d_txns s t;
                   let use = \<lparr>allow_user_free = False, bu_txn = Some t, bu_target = g_node g, bu_data = [], bu_offs = []\<rparr>;
                   let pr1 = set_buf_txn b (Some t) (pr\<lparr>p_space := sp, p_bufs := (p_bufs pr)(b := use)\<rparr>);
                   let s1 = put_proc (g_proc g) pr1 (put_txn t (tx\<lparr>tx_buffer := Some b\<rparr>) s);
                   (s2, _) \<leftarrow> (case g_node g of None \<Rightarrow> Some (s1, 0) | Some a \<Rightarrow> binder_inc_node s1 a True False None);
                   (s3, failed) \<leftarrow> fill_buffer K um p th tr g b s2;
                   case failed of
                     Some i \<Rightarrow> do { s4 \<leftarrow> undo_transaction K (g_proc g) b i s3; fail_transaction K th (BR_FAILED_REPLY, g_reply g) (discard s4) }
                   | None \<Rightarrow> queue_transaction K th reply g t c s3 } }"

definition binder_transaction :: "'a kext_scheme \<Rightarrow> (u32 \<Rightarrow> u8 option) \<Rightarrow> int \<Rightarrow> int \<Rightarrow> txn_in \<Rightarrow> bool \<Rightarrow> drv \<Rightarrow> drv option" where
  "binder_transaction K um p th tr reply s =
     do { (s1, g) \<leftarrow> (if reply then reply_target K th s else map_option (\<lambda>g. (s, g)) (call_target K p th tr s));
          case g of
            Inl e \<Rightarrow> fail_transaction K th e s1
          | Inr g \<Rightarrow>
              (case k_kz K s1 of
                 None \<Rightarrow> fail_transaction K th (BR_FAILED_REPLY, g_reply g) s1
               | Some t \<Rightarrow>
                   do { x \<leftarrow> d_threads s1 th;
                        pr \<leftarrow> d_procs s1 p;
                        let s2 = put_txn t (new_txn K th x (p_euid pr) reply tr g) s1;
                        case k_kz K s2 of
                          None \<Rightarrow> fail_transaction K th (BR_FAILED_REPLY, g_reply g) (free_txn t s2)
                        | Some c \<Rightarrow> send_transaction K um p th tr reply g t c (s2\<lparr>d_completes := insert c (d_completes s2)\<rparr>) }) }"

end
