(* ===== verification/KernelWrite.thy ===== *)
theory KernelWrite
  imports KernelTxn
begin

text \<open>
  \<open>binder_thread_write\<close> (\<open>patches/kernel/binder.c\<close>): the commands a
  thread sends to the driver. The write buffer is user memory; a word that cannot
  be read ends the write with \<open>-EFAULT\<close>. Messages to the kernel log,
  statistics and tracing are left out, except where they read memory that the command
  may have freed.
\<close>

section \<open>Commands\<close>

datatype bc = BC_INCREFS | BC_ACQUIRE | BC_RELEASE | BC_DECREFS | BC_INCREFS_DONE | BC_ACQUIRE_DONE
  | BC_ATTEMPT_ACQUIRE | BC_ACQUIRE_RESULT | BC_FREE_BUFFER | BC_TRANSACTION | BC_REPLY | BC_REGISTER_LOOPER | BC_ENTER_LOOPER
  | BC_EXIT_LOOPER | BC_REQUEST_DEATH_NOTIFICATION | BC_CLEAR_DEATH_NOTIFICATION | BC_DEAD_BINDER_DONE

definition all_bc :: "bc list" where
  "all_bc = [BC_INCREFS, BC_ACQUIRE, BC_RELEASE, BC_DECREFS, BC_INCREFS_DONE, BC_ACQUIRE_DONE, BC_ATTEMPT_ACQUIRE, BC_ACQUIRE_RESULT,
     BC_FREE_BUFFER, BC_TRANSACTION, BC_REPLY, BC_REGISTER_LOOPER, BC_ENTER_LOOPER, BC_EXIT_LOOPER, BC_REQUEST_DEATH_NOTIFICATION,
     BC_CLEAR_DEATH_NOTIFICATION, BC_DEAD_BINDER_DONE]"

text \<open>The codes are in a header outside the repository; \<open>None\<close> is the default branch.\<close>

definition bc_of :: "(bc \<Rightarrow> u32) \<Rightarrow> u32 \<Rightarrow> bc option" where
  "bc_of code w = find (\<lambda>c. code c = w) all_bc"

definition get_word :: "(u32 \<Rightarrow> u8 option) \<Rightarrow> u32 \<Rightarrow> u32 option" where
  "get_word um a = do { c0 \<leftarrow> um a; c1 \<leftarrow> um (a + 1); c2 \<leftarrow> um (a + 2); c3 \<leftarrow> um (a + 3); Some (mk32 c0 c1 c2 c3) }"

section \<open>Counts of references and nodes\<close>

text \<open>The debug output behind a command reads the reference and its node, or the node, once more.\<close>

definition debug_ref :: "'a kext_scheme \<Rightarrow> int \<Rightarrow> drv \<Rightarrow> drv option" where
  "debug_ref K r s = (if debug_user_refs K then do { rf \<leftarrow> d_refs s r; n \<leftarrow> d_nodes s (rf_node rf); Some s } else Some s)"

definition debug_node :: "'a kext_scheme \<Rightarrow> int \<Rightarrow> drv \<Rightarrow> drv option" where
  "debug_node K a s = (if debug_user_refs K then do { n \<leftarrow> d_nodes s a; Some s } else Some s)"

definition write_ref :: "'a kext_scheme \<Rightarrow> int \<Rightarrow> bc \<Rightarrow> u32 \<Rightarrow> drv \<Rightarrow> drv option" where
  "write_ref K p cmd handle s =
     do { (s1, ref) \<leftarrow>
            (if handle = 0 \<and> context_mgr_node s \<noteq> None \<and> (cmd = BC_INCREFS \<or> cmd = BC_ACQUIRE)
             then do { a \<leftarrow> context_mgr_node s;
                       (s1, ref) \<leftarrow> binder_get_ref_for_node (k_rb K) (k_kz K) s p a;
                       r \<leftarrow> ref;
                       Some (s1, Some r) }
             else do { ref \<leftarrow> binder_get_ref s p (uint handle); Some (s, ref) });
          case ref of
            None \<Rightarrow> Some s1
          | Some r \<Rightarrow>
              do { (s2, _) \<leftarrow> (if cmd = BC_INCREFS then binder_inc_ref s1 r False None
                              else if cmd = BC_ACQUIRE then binder_inc_ref s1 r True None
                              else if cmd = BC_RELEASE then binder_dec_ref (k_rb K) s1 r True
                              else binder_dec_ref (k_rb K) s1 r False);
                   debug_ref K r s2 } }"

definition write_node_done :: "'a kext_scheme \<Rightarrow> int \<Rightarrow> bool \<Rightarrow> u32 \<Rightarrow> u32 \<Rightarrow> drv \<Rightarrow> drv option" where
  "write_node_done K p strong node_ptr cookie s =
     do { node \<leftarrow> binder_get_node s p node_ptr;
          case node of
            None \<Rightarrow> Some s
          | Some a \<Rightarrow>
              do { n \<leftarrow> d_nodes s a;
                   if cookie \<noteq> nd_cookie n then Some s
                   else if strong
                   then (if \<not> pending_strong_ref n then Some s
                         else do { s1 \<leftarrow> binder_dec_node (k_rb K) (put_node a (n\<lparr>pending_strong_ref := False\<rparr>) s) a True False;
                                   debug_node K a s1 })
                   else (if \<not> pending_weak_ref n then Some s
                         else do { s1 \<leftarrow> binder_dec_node (k_rb K) (put_node a (n\<lparr>pending_weak_ref := False\<rparr>) s) a False False;
                                   debug_node K a s1 }) } }"

section \<open>Freeing a buffer\<close>

definition next_async :: "int \<Rightarrow> int \<Rightarrow> drv \<Rightarrow> drv option" where
  "next_async th a s =
     do { n \<leftarrow> d_nodes s a;
          if \<not> has_async_transaction n then None
          else case work_on (NodeAsync a) s of
              [] \<Rightarrow> Some (put_node a (n\<lparr>has_async_transaction := False\<rparr>) s)
            | w # _ \<Rightarrow> Some (list_add_tail w (ThreadTodo th) (list_del_work w s)) }"

definition write_free_buffer :: "'a kext_scheme \<Rightarrow> int \<Rightarrow> int \<Rightarrow> u32 \<Rightarrow> drv \<Rightarrow> drv option" where
  "write_free_buffer K p th data_ptr s =
     do { pr \<leftarrow> d_procs s p;
          found \<leftarrow> binder_buffer_lookup (p_space pr) (uint data_ptr);
          case found of
            None \<Rightarrow> Some s
          | Some b \<Rightarrow>
              let use = p_bufs pr b in
              if \<not> allow_user_free use then Some s
              else do {
                bf \<leftarrow> buf_at (p_space pr) b;
                s1 \<leftarrow> (case bu_txn use of
                         None \<Rightarrow> Some s
                       | Some t \<Rightarrow> do { tx \<leftarrow> d_txns s t;
                                        Some (put_proc p (set_buf_txn b None pr) (put_txn t (tx\<lparr>tx_buffer := None\<rparr>) s)) });
                s2 \<leftarrow> (if b_async bf then (case bu_target use of None \<Rightarrow> Some s1 | Some a \<Rightarrow> next_async th a s1) else Some s1);
                s3 \<leftarrow> binder_transaction_buffer_release K p b None s2;
                pr3 \<leftarrow> d_procs s3 p;
                sp \<leftarrow> binder_free_buf (k_rb K) (k_page K) (p_space pr3) b;
                Some (put_proc p (pr3\<lparr>p_space := sp\<rparr>) s3) } }"

section \<open>Looper threads\<close>

definition write_looper :: "int \<Rightarrow> int \<Rightarrow> bc \<Rightarrow> drv \<Rightarrow> drv option" where
  "write_looper p th cmd s =
     do { t \<leftarrow> d_threads s th;
          pr \<leftarrow> d_procs s p;
          if cmd = BC_REGISTER_LOOPER
          then
            if lp_entered t then Some (put_thread th (t\<lparr>lp_invalid := True, lp_registered := True\<rparr>) s)
            else if requested_threads pr = 0 then Some (put_thread th (t\<lparr>lp_invalid := True, lp_registered := True\<rparr>) s)
            else Some (put_thread th (t\<lparr>lp_registered := True\<rparr>)
                   (put_proc p (pr\<lparr>requested_threads := requested_threads pr - 1,
                                   requested_threads_started := requested_threads_started pr + 1\<rparr>) s))
          else if cmd = BC_ENTER_LOOPER
          then Some (put_thread th (if lp_registered t then t\<lparr>lp_invalid := True, lp_entered := True\<rparr> else t\<lparr>lp_entered := True\<rparr>) s)
          else Some (put_thread th (t\<lparr>lp_exited := True\<rparr>) s) }"

section \<open>Death notifications\<close>

definition death_list :: "int \<Rightarrow> int \<Rightarrow> bthread \<Rightarrow> list_id" where
  "death_list p th t = (if lp_registered t \<or> lp_entered t then ThreadTodo th else ProcTodo p)"

definition request_death :: "'a kext_scheme \<Rightarrow> int \<Rightarrow> int \<Rightarrow> int \<Rightarrow> u32 \<Rightarrow> drv \<Rightarrow> drv option" where
  "request_death K p th r cookie s =
     do { rf \<leftarrow> d_refs s r;
          t \<leftarrow> d_threads s th;
          if rf_death rf \<noteq> None then Some s
          else case k_kz K s of
              None \<Rightarrow> Some (put_thread th (t\<lparr>return_error := BR_ERROR\<rparr>) s)
            | Some d \<Rightarrow>
                do { n \<leftarrow> d_nodes s (rf_node rf);
                     let s1 = put_ref r (rf\<lparr>rf_death := Some d\<rparr>) (put_death d \<lparr>dt_cookie = cookie, dt_type = NO_DEATH_WORK\<rparr> s);
                     Some (if nd_proc n = None
                           then list_add_tail (WDeath d) (death_list p th t) (put_death d \<lparr>dt_cookie = cookie, dt_type = DEAD_BINDER\<rparr> s1)
                           else s1) } }"

definition clear_death :: "int \<Rightarrow> int \<Rightarrow> int \<Rightarrow> u32 \<Rightarrow> drv \<Rightarrow> drv option" where
  "clear_death p th r cookie s =
     do { rf \<leftarrow> d_refs s r;
          t \<leftarrow> d_threads s th;
          case rf_death rf of
            None \<Rightarrow> Some s
          | Some d \<Rightarrow>
              do { dt \<leftarrow> d_deaths s d;
                   if dt_cookie dt \<noteq> cookie then Some s
                   else
                     let s1 = put_ref r (rf\<lparr>rf_death := None\<rparr>) s in
                     if \<not> queued (WDeath d) s
                     then Some (list_add_tail (WDeath d) (death_list p th t) (put_death d (dt\<lparr>dt_type := CLEAR_DEATH_NOTIFICATION\<rparr>) s1))
                     else if dt_type dt \<noteq> DEAD_BINDER then None
                     else Some (put_death d (dt\<lparr>dt_type := DEAD_BINDER_AND_CLEAR\<rparr>) s1) } }"

definition write_death :: "'a kext_scheme \<Rightarrow> int \<Rightarrow> int \<Rightarrow> bool \<Rightarrow> u32 \<Rightarrow> u32 \<Rightarrow> drv \<Rightarrow> drv option" where
  "write_death K p th request handle cookie s =
     do { ref \<leftarrow> binder_get_ref s p (uint handle);
          case ref of
            None \<Rightarrow> Some s
          | Some r \<Rightarrow> if request then request_death K p th r cookie s else clear_death p th r cookie s }"

text \<open>The search of the list of delivered notifications for a cookie.\<close>

fun find_death :: "drv \<Rightarrow> u32 \<Rightarrow> work list \<Rightarrow> int option option" where
  "find_death s cookie [] = Some None"
| "find_death s cookie (WDeath d # ws) =
     do { dt \<leftarrow> d_deaths s d; if dt_cookie dt = cookie then Some (Some d) else find_death s cookie ws }"
| "find_death s cookie (w # ws) = None"

definition write_death_done :: "int \<Rightarrow> int \<Rightarrow> u32 \<Rightarrow> drv \<Rightarrow> drv option" where
  "write_death_done p th cookie s =
     do { found \<leftarrow> find_death s cookie (work_on (Delivered p) s);
          t \<leftarrow> d_threads s th;
          case found of
            None \<Rightarrow> Some s
          | Some d \<Rightarrow>
              do { dt \<leftarrow> d_deaths s d;
                   let s1 = list_del_work (WDeath d) s;
                   Some (if dt_type dt = DEAD_BINDER_AND_CLEAR
                         then list_add_tail (WDeath d) (death_list p th t) (put_death d (dt\<lparr>dt_type := CLEAR_DEATH_NOTIFICATION\<rparr>) s1)
                         else s1) } }"

section \<open>The write loop\<close>

definition get_txn :: "(u32 \<Rightarrow> u8 option) \<Rightarrow> u32 \<Rightarrow> txn_in option" where
  "get_txn um a =
     do { cs \<leftarrow> get_bytes um a 40;
          let w = words_of cs;
          Some \<lparr>ti_handle = w ! 0, ti_code = w ! 2, ti_flags = w ! 3, ti_data_size = w ! 6, ti_offs_size = w ! 7, ti_data = w ! 8, ti_offs = w ! 9\<rparr> }"

text \<open>A command that ends the write, or the number of bytes of its arguments.\<close>

definition write_command :: "'a kext_scheme \<Rightarrow> (u32 \<Rightarrow> u8 option) \<Rightarrow> int \<Rightarrow> int \<Rightarrow> bc \<Rightarrow> u32 \<Rightarrow> drv \<Rightarrow> (drv \<times> (int + nat)) option" where
  "write_command K um p th cmd a s =
     (if cmd \<in> {BC_INCREFS, BC_ACQUIRE, BC_RELEASE, BC_DECREFS}
      then (case get_word um a of
              None \<Rightarrow> Some (s, Inl (-EFAULT))
            | Some handle \<Rightarrow> do { s1 \<leftarrow> write_ref K p cmd handle s; Some (s1, Inr 4) })
      else if cmd \<in> {BC_INCREFS_DONE, BC_ACQUIRE_DONE}
      then (case (get_word um a, get_word um (a + 4)) of
              (Some node_ptr, Some cookie) \<Rightarrow>
                do { s1 \<leftarrow> write_node_done K p (cmd = BC_ACQUIRE_DONE) node_ptr cookie s; Some (s1, Inr 8) }
            | _ \<Rightarrow> Some (s, Inl (-EFAULT)))
      else if cmd \<in> {BC_ATTEMPT_ACQUIRE, BC_ACQUIRE_RESULT} then Some (s, Inl (-EINVAL))
      else if cmd = BC_FREE_BUFFER
      then (case get_word um a of
              None \<Rightarrow> Some (s, Inl (-EFAULT))
            | Some data_ptr \<Rightarrow> do { s1 \<leftarrow> write_free_buffer K p th data_ptr s; Some (s1, Inr 4) })
      else if cmd \<in> {BC_TRANSACTION, BC_REPLY}
      then (case get_txn um a of
              None \<Rightarrow> Some (s, Inl (-EFAULT))
            | Some tr \<Rightarrow> do { s1 \<leftarrow> binder_transaction K um p th tr (cmd = BC_REPLY) s; Some (s1, Inr 40) })
      else if cmd \<in> {BC_REGISTER_LOOPER, BC_ENTER_LOOPER, BC_EXIT_LOOPER}
      then do { s1 \<leftarrow> write_looper p th cmd s; Some (s1, Inr 0) }
      else if cmd \<in> {BC_REQUEST_DEATH_NOTIFICATION, BC_CLEAR_DEATH_NOTIFICATION}
      then (case (get_word um a, get_word um (a + 4)) of
              (Some handle, Some cookie) \<Rightarrow>
                do { s1 \<leftarrow> write_death K p th (cmd = BC_REQUEST_DEATH_NOTIFICATION) handle cookie s; Some (s1, Inr 8) }
            | _ \<Rightarrow> Some (s, Inl (-EFAULT)))
      else (case get_word um a of
              None \<Rightarrow> Some (s, Inl (-EFAULT))
            | Some cookie \<Rightarrow> do { s1 \<leftarrow> write_death_done p th cookie s; Some (s1, Inr 4) }))"

function binder_thread_write ::
    "'a kext_scheme \<Rightarrow> (bc \<Rightarrow> u32) \<Rightarrow> (u32 \<Rightarrow> u8 option) \<Rightarrow> int \<Rightarrow> int \<Rightarrow> u32 \<Rightarrow> nat \<Rightarrow> nat \<Rightarrow> drv \<Rightarrow> (drv \<times> nat \<times> int) option" where
  "binder_thread_write K code um p th buffer sz consumed s =
     do { t \<leftarrow> d_threads s th;
          if \<not> (consumed < sz \<and> return_error t = BR_OK) then Some (s, consumed, 0)
          else case get_word um (buffer + of_nat consumed) of
              None \<Rightarrow> Some (s, consumed, -EFAULT)
            | Some w \<Rightarrow>
                (case bc_of code w of
                   None \<Rightarrow> Some (s, consumed, -EINVAL)
                 | Some cmd \<Rightarrow>
                     do { (s1, r) \<leftarrow> write_command K um p th cmd (buffer + of_nat consumed + 4) s;
                          case r of
                            Inl e \<Rightarrow> Some (s1, consumed, e)
                          | Inr n \<Rightarrow> binder_thread_write K code um p th buffer sz (consumed + 4 + n) s1 }) }"
  by pat_completeness auto

termination
  by (relation "measure (\<lambda>(K, code, um, p, th, buffer, sz, consumed, s). sz - consumed)") auto

declare binder_thread_write.simps [simp del]

end
