(* ===== verification/KernelCtl.thy ===== *)
theory KernelCtl
  imports KernelWrite "HOL-Library.AList"
begin

text \<open>
  Threads, control calls and the end of processes (\<open>binder_release_work\<close> to
  \<open>binder_deferred_release\<close> of \<open>patches/kernel/binder.c\<close>).
\<close>

section \<open>Threads\<close>

definition key_pid :: "drv \<Rightarrow> int \<Rightarrow> int option" where "key_pid s a = map_option th_pid (d_threads s a)"

definition new_thread :: "int \<Rightarrow> int \<Rightarrow> int \<Rightarrow> bthread" where
  "new_thread p pid nice = \<lparr>th_proc = p, th_pid = pid, lp_registered = False, lp_entered = False, lp_exited = False, lp_invalid = False,
     lp_waiting = False, lp_need_return = True, transaction_stack = None, return_error = BR_OK, return_error2 = BR_OK, th_nice = nice\<rparr>"

text \<open>\<open>pid\<close> and \<open>nice\<close> are those of the task that runs.\<close>

definition binder_get_thread :: "'a kext_scheme \<Rightarrow> int \<Rightarrow> int \<Rightarrow> int \<Rightarrow> drv \<Rightarrow> (drv \<times> int option) option" where
  "binder_get_thread K p pid nice s =
     do { pr \<leftarrow> d_procs s p;
          found \<leftarrow> tree_find pid (key_pid s) (p_threads pr);
          case found of
            Some th \<Rightarrow> Some (s, Some th)
          | None \<Rightarrow>
              (case k_kz K s of
                 None \<Rightarrow> Some (s, None)
               | Some th \<Rightarrow>
                   do { t \<leftarrow> tree_link pid (key_pid s) th (p_threads pr);
                        Some (put_thread th (new_thread p pid nice) (put_proc p (pr\<lparr>p_threads := rb_insert_color (k_rb K) t\<rparr>) s), Some th) }) }"

text \<open>
  The work of a list that goes away. Nothing is added to the list meanwhile, so
  the loop takes the items that are on it at the start.
\<close>

definition release_item :: "'a kext_scheme \<Rightarrow> work \<Rightarrow> drv \<Rightarrow> drv option" where
  "release_item K w s =
     (case w of
        WTxn t \<Rightarrow>
          do { tx \<leftarrow> d_txns s t;
               b \<leftarrow> tx_buffer tx;
               p \<leftarrow> tx_to_proc tx;
               pr \<leftarrow> d_procs s p;
               if bu_target (p_bufs pr b) \<noteq> None \<and> \<not> one_way K (tx_flags tx) then binder_send_failed_reply K t BR_DEAD_REPLY s
               else do { s1 \<leftarrow> clear_buf_txn tx s; Some (free_txn t s1) } }
      | WComplete c \<Rightarrow> if c \<in> d_completes s then Some (s\<lparr>d_completes := d_completes s - {c}\<rparr>) else None
      | WDeath d \<Rightarrow>
          do { dt \<leftarrow> d_deaths s d;
               Some (if dt_type dt = DEAD_BINDER_AND_CLEAR \<or> dt_type dt = CLEAR_DEATH_NOTIFICATION
                     then s\<lparr>d_deaths := (d_deaths s)(d := None)\<rparr> else s) }
      | WNode a \<Rightarrow> Some s)"

fun release_items :: "'a kext_scheme \<Rightarrow> work list \<Rightarrow> drv \<Rightarrow> drv option" where
  "release_items K [] s = Some s"
| "release_items K (w # ws) s = do { s1 \<leftarrow> release_item K w (list_del_work w s); release_items K ws s1 }"

definition binder_release_work :: "'a kext_scheme \<Rightarrow> list_id \<Rightarrow> drv \<Rightarrow> drv option" where
  "binder_release_work K l s = release_items K (work_on l s) s"

text \<open>The calls on the stack of a thread that goes away lose their receiver or their sender.\<close>

partial_function (option) drop_stack :: "int \<Rightarrow> int option \<Rightarrow> drv \<Rightarrow> drv option" where
  "drop_stack th t s =
     (case t of
        None \<Rightarrow> Some s
      | Some i \<Rightarrow>
          do { tx \<leftarrow> d_txns s i;
               if tx_to_thread tx = Some th
               then do { s1 \<leftarrow> clear_buf_txn tx s;
                         drop_stack th (tx_to_parent tx)
                           (put_txn i (tx\<lparr>tx_to_proc := None, tx_to_thread := None, tx_buffer := None\<rparr>) s1) }
               else if tx_from tx = Some th
               then drop_stack th (tx_from_parent tx) (put_txn i (tx\<lparr>tx_from := None\<rparr>) s)
               else None })"

definition binder_free_thread :: "'a kext_scheme \<Rightarrow> int \<Rightarrow> int \<Rightarrow> drv \<Rightarrow> drv option" where
  "binder_free_thread K p th s =
     do { pr \<leftarrow> d_procs s p;
          t \<leftarrow> d_threads s th;
          let s1 = put_proc p (pr\<lparr>p_threads := rb_erase (k_rb K) th (p_threads pr)\<rparr>) s;
          send_reply \<leftarrow> (case transaction_stack t of
                           None \<Rightarrow> Some None
                         | Some i \<Rightarrow> do { tx \<leftarrow> d_txns s i; Some (if tx_to_thread tx = Some th then Some i else None) });
          s2 \<leftarrow> drop_stack th (transaction_stack t) s1;
          s3 \<leftarrow> (case send_reply of None \<Rightarrow> Some s2 | Some i \<Rightarrow> binder_send_failed_reply K i BR_DEAD_REPLY s2);
          s4 \<leftarrow> binder_release_work K (ThreadTodo th) s3;
          Some (s4\<lparr>d_threads := (d_threads s4)(th := None)\<rparr>) }"

text \<open>The first look of \<open>poll\<close>: whether there is work to read.\<close>

definition binder_poll :: "'a kext_scheme \<Rightarrow> int \<Rightarrow> int \<Rightarrow> int \<Rightarrow> drv \<Rightarrow> (drv \<times> bool) option" where
  "binder_poll K p pid nice s =
     do { (s1, thread) \<leftarrow> binder_get_thread K p pid nice s;
          th \<leftarrow> thread;
          t \<leftarrow> d_threads s1 th;
          let wait_for_proc_work = (transaction_stack t = None \<and> work_on (ThreadTodo th) s1 = [] \<and> return_error t = BR_OK);
          Some (s1, if wait_for_proc_work then binder_has_proc_work p th s1 else binder_has_thread_work th s1) }"

section \<open>Control calls\<close>

definition set_ctx_node :: "'a kext_scheme \<Rightarrow> int \<Rightarrow> drv \<Rightarrow> (drv \<times> int) option" where
  "set_ctx_node K p s =
     do { (s1, made) \<leftarrow> binder_new_node (k_rb K) (k_kz K) s p 0 0;
          case made of
            None \<Rightarrow> Some (s1, -ENOMEM)
          | Some a \<Rightarrow>
              do { n \<leftarrow> d_nodes s1 a;
                   Some ((put_node a (n\<lparr>local_weak_refs := local_weak_refs n + 1, local_strong_refs := local_strong_refs n + 1,
                            has_strong_ref := True, has_weak_ref := True\<rparr>) s1)\<lparr>context_mgr_node := Some a\<rparr>, 0) } }"

text \<open>\<open>sec\<close> is the result of the security hook, \<open>euid\<close> the caller's user.\<close>

definition binder_ioctl_set_ctx_mgr :: "'a kext_scheme \<Rightarrow> int \<Rightarrow> int \<Rightarrow> u32 \<Rightarrow> drv \<Rightarrow> (drv \<times> int) option" where
  "binder_ioctl_set_ctx_mgr K p sec euid s =
     (if context_mgr_node s \<noteq> None then Some (s, -EBUSY)
      else if sec < 0 then Some (s, sec)
      else
        case context_mgr_uid s of
          Some u \<Rightarrow> if u \<noteq> euid then Some (s, -EPERM) else set_ctx_node K p s
        | None \<Rightarrow> set_ctx_node K p (s\<lparr>context_mgr_uid := Some euid\<rparr>))"

record write_read =
  write_size :: nat
  write_consumed :: nat
  write_buffer :: u32
  read_size :: nat
  read_consumed :: nat

text \<open>What a call comes to: state, the structure as it is copied back, the read buffer and the result.\<close>

datatype ioctl_res = IoDone drv write_read ubuf int | IoSleeps drv

text \<open>
  \<open>size_ok\<close> says whether the size in the command is right; \<open>bwr\<close> is
  none when the structure cannot be read; \<open>out_ok\<close> says whether it can be
  written back.
\<close>

definition binder_ioctl_write_read ::
    "'a kext_scheme \<Rightarrow> (bc \<Rightarrow> u32) \<Rightarrow> (u32 \<Rightarrow> u8 option) \<Rightarrow> (nat \<Rightarrow> bool) \<Rightarrow> int \<Rightarrow> int \<Rightarrow> bool \<Rightarrow> interference list \<Rightarrow> ubuf
       \<Rightarrow> bool \<Rightarrow> bool \<Rightarrow> write_read option \<Rightarrow> write_read \<Rightarrow> drv \<Rightarrow> ioctl_res option" where
  "binder_ioctl_write_read K code um uok p th non_block env mem size_ok out_ok bwr_in user s =
     (if \<not> size_ok then Some (IoDone s user mem (-EINVAL))
      else case bwr_in of
          None \<Rightarrow> Some (IoDone s user mem (-EFAULT))
        | Some bwr \<Rightarrow>
            do { (s1, consumed, ret) \<leftarrow> (if write_size bwr > 0
                   then binder_thread_write K code um p th (write_buffer bwr) (write_size bwr) (write_consumed bwr) s
                   else Some (s, write_consumed bwr, 0));
                 let bwr1 = bwr\<lparr>write_consumed := consumed\<rparr>;
                 let finish = (\<lambda>x b m e. Some (if out_ok then IoDone x b m e else IoDone x user m (-EFAULT)));
                 if ret < 0 then finish s1 (bwr1\<lparr>read_consumed := 0\<rparr>) mem ret
                 else if read_size bwr = 0 then finish s1 bwr1 mem 0
                 else do {
                   r \<leftarrow> binder_thread_read K uok p th (read_size bwr) (read_consumed bwr) non_block env mem s1;
                   case r of
                     Returned s2 mem' c e \<Rightarrow> finish s2 (bwr1\<lparr>read_consumed := c\<rparr>) mem' e
                   | Sleeping s2 \<Rightarrow> Some (IoSleeps s2)
                   | OutOfAttempts \<Rightarrow> None } })"

datatype ioctl_cmd = BINDER_WRITE_READ bool bool "write_read option" write_read | BINDER_SET_MAX_THREADS "int option" | BINDER_SET_CONTEXT_MGR int u32
  | BINDER_THREAD_EXIT | BINDER_VERSION bool bool | OTHER_IOCTL

definition no_bwr :: write_read where
  "no_bwr = \<lparr>write_size = 0, write_consumed = 0, write_buffer = 0, read_size = 0, read_consumed = 0\<rparr>"

definition ioctl_body ::
    "'a kext_scheme \<Rightarrow> (bc \<Rightarrow> u32) \<Rightarrow> (u32 \<Rightarrow> u8 option) \<Rightarrow> (nat \<Rightarrow> bool) \<Rightarrow> int \<Rightarrow> int \<Rightarrow> bool \<Rightarrow> interference list \<Rightarrow> ubuf \<Rightarrow> ioctl_cmd \<Rightarrow> drv
       \<Rightarrow> ioctl_res option" where
  "ioctl_body K code um uok p th non_block env mem cmd s =
     (case cmd of
        BINDER_WRITE_READ size_ok out_ok bwr user \<Rightarrow>
          binder_ioctl_write_read K code um uok p th non_block env mem size_ok out_ok bwr user s
      | BINDER_SET_MAX_THREADS n \<Rightarrow>
          do { pr \<leftarrow> d_procs s p;
               Some (case n of None \<Rightarrow> IoDone s no_bwr mem (-EINVAL)
                     | Some k \<Rightarrow> IoDone (put_proc p (pr\<lparr>max_threads := k\<rparr>) s) no_bwr mem 0) }
      | BINDER_SET_CONTEXT_MGR sec euid \<Rightarrow>
          do { (s1, ret) \<leftarrow> binder_ioctl_set_ctx_mgr K p sec euid s; Some (IoDone s1 no_bwr mem ret) }
      | BINDER_THREAD_EXIT \<Rightarrow> do { s1 \<leftarrow> binder_free_thread K p th s; Some (IoDone s1 no_bwr mem 0) }
      | BINDER_VERSION size_ok out_ok \<Rightarrow> Some (IoDone s no_bwr mem (if size_ok \<and> out_ok then 0 else -EINVAL))
      | OTHER_IOCTL \<Rightarrow> Some (IoDone s no_bwr mem (-EINVAL)))"

definition binder_ioctl ::
    "'a kext_scheme \<Rightarrow> (bc \<Rightarrow> u32) \<Rightarrow> (u32 \<Rightarrow> u8 option) \<Rightarrow> (nat \<Rightarrow> bool) \<Rightarrow> int \<Rightarrow> int \<Rightarrow> int \<Rightarrow> bool \<Rightarrow> interference list \<Rightarrow> ubuf \<Rightarrow> ioctl_cmd \<Rightarrow> drv
       \<Rightarrow> ioctl_res option" where
  "binder_ioctl K code um uok p pid nice non_block env mem cmd s =
     do { (s1, thread) \<leftarrow> binder_get_thread K p pid nice s;
          case thread of
            None \<Rightarrow> Some (IoDone s1 no_bwr mem (-ENOMEM))
          | Some th \<Rightarrow>
              do { r \<leftarrow> ioctl_body K code um uok p th non_block env mem cmd s1;
                   case r of
                     IoSleeps s2 \<Rightarrow> Some r
                   | IoDone s2 b m ret \<Rightarrow>
                       if cmd = BINDER_THREAD_EXIT then Some r
                       else do { t \<leftarrow> d_threads s2 th; Some (IoDone (put_thread th (t\<lparr>lp_need_return := False\<rparr>) s2) b m ret) } } }"

section \<open>Processes\<close>

definition new_proc :: "int \<Rightarrow> u32 \<Rightarrow> int \<Rightarrow> bufspace \<Rightarrow> bproc" where
  "new_proc pid euid nice sp = \<lparr>p_threads = Leaf, p_nodes = Leaf, p_refs_by_desc = Leaf, p_refs_by_node = Leaf, p_pid = pid, p_euid = euid,
     p_files = None, p_space = sp, p_bufs = (\<lambda>_. \<lparr>allow_user_free = False, bu_txn = None, bu_target = None, bu_data = [], bu_offs = []\<rparr>),
     max_threads = 0, requested_threads = 0, requested_threads_started = 0, ready_threads = 0, default_priority = nice\<rparr>"

text \<open>\<open>sp\<close> is the area of a process that has mapped nothing.\<close>

definition binder_open :: "'a kext_scheme \<Rightarrow> int \<Rightarrow> u32 \<Rightarrow> int \<Rightarrow> bufspace \<Rightarrow> drv \<Rightarrow> drv \<times> int" where
  "binder_open K pid euid nice sp s =
     (case k_kz K s of None \<Rightarrow> (s, -ENOMEM) | Some p \<Rightarrow> (put_proc p (new_proc pid euid nice sp) s, 0))"

fun flush_threads :: "int list \<Rightarrow> drv \<Rightarrow> drv option" where
  "flush_threads [] s = Some s"
| "flush_threads (th # ths) s = do { t \<leftarrow> d_threads s th; flush_threads ths (put_thread th (t\<lparr>lp_need_return := True\<rparr>) s) }"

definition binder_deferred_flush :: "int \<Rightarrow> drv \<Rightarrow> drv option" where
  "binder_deferred_flush p s = do { pr \<leftarrow> d_procs s p; flush_threads (inorder (p_threads pr)) s }"

text \<open>Everyone who refers to a node that dies is told.\<close>

fun notify_deaths :: "int list \<Rightarrow> drv \<Rightarrow> drv option" where
  "notify_deaths [] s = Some s"
| "notify_deaths (r # rs) s =
     do { rf \<leftarrow> d_refs s r;
          case rf_death rf of
            None \<Rightarrow> notify_deaths rs s
          | Some d \<Rightarrow>
              do { dt \<leftarrow> d_deaths s d;
                   if queued (WDeath d) s then None
                   else notify_deaths rs (list_add_tail (WDeath d) (ProcTodo (rf_proc rf)) (put_death d (dt\<lparr>dt_type := DEAD_BINDER\<rparr>) s)) } }"

definition binder_node_release :: "'a kext_scheme \<Rightarrow> int \<Rightarrow> drv \<Rightarrow> drv option" where
  "binder_node_release K a s =
     do { s1 \<leftarrow> binder_release_work K (NodeAsync a) (list_del_work (WNode a) s);
          n \<leftarrow> d_nodes s1 a;
          if nd_refs n = [] then Some (free_node a s1)
          else
            let s2 = put_node a (n\<lparr>nd_proc := None, local_strong_refs := 0, local_weak_refs := 0\<rparr>) s1
            in notify_deaths (nd_refs n) (s2\<lparr>dead_nodes := a # dead_nodes s2\<rparr>) }"

fun free_threads :: "'a kext_scheme \<Rightarrow> int \<Rightarrow> int list \<Rightarrow> drv \<Rightarrow> drv option" where
  "free_threads K p [] s = Some s"
| "free_threads K p (th # ths) s = do { s1 \<leftarrow> binder_free_thread K p th s; free_threads K p ths s1 }"

fun release_nodes :: "'a kext_scheme \<Rightarrow> int \<Rightarrow> int list \<Rightarrow> drv \<Rightarrow> drv option" where
  "release_nodes K p [] s = Some s"
| "release_nodes K p (a # as) s =
     do { pr \<leftarrow> d_procs s p;
          s1 \<leftarrow> binder_node_release K a (put_proc p (pr\<lparr>p_nodes := rb_erase (k_rb K) a (p_nodes pr)\<rparr>) s);
          release_nodes K p as s1 }"

fun delete_refs :: "'a kext_scheme \<Rightarrow> int list \<Rightarrow> drv \<Rightarrow> drv option" where
  "delete_refs K [] s = Some s"
| "delete_refs K (r # rs) s = do { s1 \<leftarrow> binder_delete_ref (k_rb K) s r; delete_refs K rs s1 }"

fun free_bufs :: "'a kext_scheme \<Rightarrow> int \<Rightarrow> int list \<Rightarrow> drv \<Rightarrow> drv option" where
  "free_bufs K p [] s = Some s"
| "free_bufs K p (b # bs) s =
     do { pr \<leftarrow> d_procs s p;
          s1 \<leftarrow> (case bu_txn (p_bufs pr b) of
                  None \<Rightarrow> Some s
                | Some t \<Rightarrow> do { tx \<leftarrow> d_txns s t;
                                 Some (put_proc p (set_buf_txn b None pr) (put_txn t (tx\<lparr>tx_buffer := None\<rparr>) s)) });
          pr1 \<leftarrow> d_procs s1 p;
          sp \<leftarrow> binder_free_buf (k_rb K) (k_page K) (p_space pr1) b;
          free_bufs K p bs (put_proc p (pr1\<lparr>p_space := sp\<rparr>) s1) }"

text \<open>
  Each loop empties a tree; it takes the addresses in the order the tree has them
  when the loop starts.
\<close>

definition binder_deferred_release :: "'a kext_scheme \<Rightarrow> int \<Rightarrow> drv \<Rightarrow> drv option" where
  "binder_deferred_release K p s =
     do { pr \<leftarrow> d_procs s p;
          if has_vma (p_space pr) \<or> p_files pr \<noteq> None then None
          else do {
            gone \<leftarrow> (case context_mgr_node s of
                      None \<Rightarrow> Some False
                    | Some a \<Rightarrow> do { n \<leftarrow> d_nodes s a; Some (nd_proc n = Some p) });
            let s1 = (if gone then s\<lparr>context_mgr_node := None\<rparr> else s);
            s2 \<leftarrow> free_threads K p (inorder (p_threads pr)) s1;
            pr2 \<leftarrow> d_procs s2 p;
            s3 \<leftarrow> release_nodes K p (inorder (p_nodes pr2)) s2;
            pr3 \<leftarrow> d_procs s3 p;
            s4 \<leftarrow> delete_refs K (inorder (p_refs_by_desc pr3)) s3;
            s5 \<leftarrow> binder_release_work K (ProcTodo p) s4;
            s6 \<leftarrow> binder_release_work K (Delivered p) s5;
            pr6 \<leftarrow> d_procs s6 p;
            s7 \<leftarrow> free_bufs K p (inorder (allocated_buffers (p_space pr6))) s6;
            Some (s7\<lparr>d_procs := (d_procs s7)(p := None)\<rparr>) } }"

section \<open>Mapping and deferred work\<close>

text \<open>\<open>files\<close> is the descriptor table of the task that maps; it is kept once the mapping is in place.\<close>

definition map_files :: "(int \<rightharpoonup> int) \<Rightarrow> int \<Rightarrow> bufspace \<times> int \<Rightarrow> drv \<Rightarrow> (drv \<times> int) option" where
  "map_files files p res s =
     do { pr \<leftarrow> d_procs s p;
          let pr1 = pr\<lparr>p_space := fst res\<rparr>;
          Some (put_proc p (if snd res = 0 then pr1\<lparr>p_files := Some files\<rparr> else pr1) s, snd res) }"

text \<open>What is to be done for a process later; the list has the processes for which something is to be done.\<close>

record deferred =
  put_files :: bool
  df_flush :: bool
  df_release :: bool

definition binder_defer_work :: "int \<Rightarrow> deferred \<Rightarrow> (int \<times> deferred) list \<Rightarrow> (int \<times> deferred) list" where
  "binder_defer_work p w l =
     (case map_of l p of
        None \<Rightarrow> (p, w) # l
      | Some v \<Rightarrow> AList.update p \<lparr>put_files = put_files v \<or> put_files w, df_flush = df_flush v \<or> df_flush w,
                                   df_release = df_release v \<or> df_release w\<rparr> l)"

definition binder_flush :: "int \<Rightarrow> (int \<times> deferred) list \<Rightarrow> (int \<times> deferred) list" where
  "binder_flush p = binder_defer_work p \<lparr>put_files = False, df_flush = True, df_release = False\<rparr>"

definition binder_close_file :: "int \<Rightarrow> (int \<times> deferred) list \<Rightarrow> (int \<times> deferred) list" where
  "binder_close_file p = binder_defer_work p \<lparr>put_files = False, df_flush = False, df_release = True\<rparr>"

definition close_vma :: "int \<Rightarrow> drv \<Rightarrow> (int \<times> deferred) list \<Rightarrow> (drv \<times> (int \<times> deferred) list) option" where
  "close_vma p s l =
     do { pr \<leftarrow> d_procs s p;
          Some (put_proc p (pr\<lparr>p_space := binder_vma_close (p_space pr)\<rparr>) s,
                binder_defer_work p \<lparr>put_files = True, df_flush = False, df_release = False\<rparr> l) }"

definition deferred_item :: "'a kext_scheme \<Rightarrow> int \<Rightarrow> deferred \<Rightarrow> drv \<Rightarrow> drv option" where
  "deferred_item K p w s =
     do { s1 \<leftarrow> (if put_files w then do { pr \<leftarrow> d_procs s p; Some (put_proc p (pr\<lparr>p_files := None\<rparr>) s) } else Some s);
          s2 \<leftarrow> (if df_flush w then binder_deferred_flush p s1 else Some s1);
          if df_release w then binder_deferred_release K p s2 else Some s2 }"

text \<open>The worker empties the list.\<close>

fun binder_deferred_func :: "'a kext_scheme \<Rightarrow> (int \<times> deferred) list \<Rightarrow> drv \<Rightarrow> drv option" where
  "binder_deferred_func K [] s = Some s"
| "binder_deferred_func K ((p, w) # l) s = do { s1 \<leftarrow> deferred_item K p w s; binder_deferred_func K l s1 }"

end
