(* ===== verification/KernelTxnProps.thy ===== *)
theory KernelTxnProps
  imports KernelReadProps KernelCtl KernelBufProps
begin

text \<open>
  Messages from end to end: what a transaction leaves in the target process, that
  a reader there gets it with the bytes of the sender, and what goes wrong with
  offsets that repeat.
\<close>

section \<open>A buffer for a message\<close>

lemma buf_at_split:
  assumes "b_addr b \<notin> b_addr ` set xs" and "buffers s = xs @ b # ys"
  shows "buf_at s (b_addr b) = Some b"
proof -
  have "find (\<lambda>x. b_addr x = b_addr b) (xs @ b # ys) = Some b" using assms(1) by (induction xs) auto
  then show ?thesis by (simp add: buf_at_def assms(2))
qed

lemma alloc_buf_at:
  assumes "rb_ok rb" and "bufs_ok s" and "can_alloc pf s d o' async"
  shows "\<exists>s' b bf. binder_alloc_buf rb pf s d o' async = Some (s', Some b) \<and> bufs_ok s' \<and> same_area s' s
    \<and> buf_at s' b = Some bf \<and> b_addr bf = b \<and> b_data_size bf = d \<and> b_offs_size bf = o' \<and> b_async bf = async"
proof -
  obtain s' b where a: "binder_alloc_buf rb pf s d o' async = Some (s', Some b)" "bufs_ok s'" "same_area s' s" "allocated_from s d o' async b s'"
    using alloc_spec [OF assms(1,2), of pf d o' async] assms(3) by auto
  then obtain xs f zs where l: "buffers s' = xs @ given f d o' async # zs" "b = b_addr f" by (auto simp: allocated_from_def)
  have "distinct (map b_addr (buffers s'))" using layout_distinct a(2) by (simp add: bufs_ok_def)
  then have "buf_at s' b = Some (given f d o' async)"
    using buf_at_split [of "given f d o' async" xs s' zs] l by auto
  then show ?thesis using a l(2) by (auto simp: given_def)
qed

lemma buf_at_set: "(\<And>x. b_addr (f x) = b_addr x) \<Longrightarrow> buf_at (set_buf b f s) b = map_option f (buf_at s b)"
proof -
  assume f: "\<And>x. b_addr (f x) = b_addr x"
  have "find (\<lambda>x. b_addr x = b) (map (\<lambda>x. if b_addr x = b then f x else x) l) = map_option f (find (\<lambda>x. b_addr x = b) l)" for l
    by (induction l) (auto simp: f)
  then show ?thesis by (simp add: buf_at_def set_buf_def)
qed

lemma work_simps [simp]:
  "d_work (list_add_tail w l s) = d_work s @ [(l, w)]" "d_txns (list_add_tail w l s) = d_txns s"
  "d_threads (list_add_tail w l s) = d_threads s" "d_procs (list_add_tail w l s) = d_procs s" "d_nodes (list_add_tail w l s) = d_nodes s"
  by (simp_all add: list_add_tail_def)

lemma put_proc_again:
  "put_proc p x (put_proc p y s) = put_proc p x s" "put_proc p x (put_node a n (put_proc p y s)) = put_proc p x (put_node a n s)"
  by (simp_all add: put_proc_def put_node_def)

section \<open>A call is queued\<close>

text \<open>
  A call with data \<open>data\<close> and no objects from thread \<open>th\<close> of process
  \<open>p\<close> to \<open>g\<close>, when there is memory and room: \<open>t\<close> and \<open>c\<close>
  are the addresses of the transaction and of its completion.
\<close>

definition plain_call ::
    "'a kext_scheme \<Rightarrow> (u32 \<Rightarrow> u8 option) \<Rightarrow> int \<Rightarrow> int \<Rightarrow> txn_in \<Rightarrow> target \<Rightarrow> drv \<Rightarrow> int \<Rightarrow> int \<Rightarrow> bytes \<Rightarrow> bool" where
  "plain_call K um p th tr g s t c data \<longleftrightarrow> call_target K p th tr s = Some (Inr g) \<and> \<not> one_way K (ti_flags tr) \<and> ti_offs_size tr = 0
     \<and> get_bytes um (ti_data tr) (unat (ti_data_size tr)) = Some data \<and> k_kz K s = Some t \<and> (\<forall>x. k_kz K (put_txn t x s) = Some c)
     \<and> (\<exists>pr. d_procs s (g_proc g) = Some pr \<and> bufs_ok (p_space pr) \<and> can_alloc (k_page K) (p_space pr) (ti_data_size tr) 0 False)
     \<and> d_procs s p \<noteq> None"

definition todo_of :: "target \<Rightarrow> list_id" where
  "todo_of g = (case g_thread g of Some f \<Rightarrow> ThreadTodo f | None \<Rightarrow> ProcTodo (g_proc g))"

lemma call_target_node:
  assumes "call_target K p th tr s = Some (Inr g)"
  shows "\<exists>a n. g_node g = Some a \<and> d_nodes s a = Some n \<and> nd_proc n = Some (g_proc g) \<and> g_reply g = None" "d_threads s th \<noteq> None"
  using assms by (auto simp: call_target_def split: if_splits option.splits sum.splits Option.bind_splits)

lemma call_queued:
  assumes rb: "rb_ok (k_rb K)" and pc: "plain_call K um p th tr g s t c data" and x: "d_threads s th = Some x"
    and pq: "d_procs s (g_proc g) = Some pq" and pr: "d_procs s p = Some pr" and n: "g_node g = Some a" "d_nodes s a = Some n"
  shows "\<exists>s' b bf pq'. binder_transaction K um p th tr False s = Some s'
    \<and> d_work s' = d_work s @ [(todo_of g, WTxn t), (ThreadTodo th, WComplete c)]
    \<and> d_threads s' = (d_threads s)(th \<mapsto> x\<lparr>transaction_stack := Some t\<rparr>)
    \<and> d_nodes s' = (d_nodes s)(a \<mapsto> n\<lparr>local_strong_refs := local_strong_refs n + 1\<rparr>)
    \<and> d_procs s' = (d_procs s)(g_proc g \<mapsto> pq') \<and> pq' = pq\<lparr>p_space := p_space pq', p_bufs := p_bufs pq'\<rparr>
    \<and> same_area (p_space pq') (p_space pq) \<and> buf_at (p_space pq') b = Some bf \<and> b_addr bf = b
    \<and> b_data_size bf = ti_data_size tr \<and> b_offs_size bf = 0
    \<and> bu_data (p_bufs pq' b) = data \<and> bu_target (p_bufs pq' b) = Some a \<and> bu_txn (p_bufs pq' b) = Some t
    \<and> d_txns s' t = Some ((new_txn K th x (p_euid pr) False tr g)\<lparr>tx_buffer := Some b, need_reply := True, tx_from_parent := transaction_stack x\<rparr>)"
proof -
  let ?q = "g_proc g" and ?T = "new_txn K th x (p_euid pr) False tr g"
  have tg: "call_target K p th tr s = Some (Inr g)" and ow: "\<not> one_way K (ti_flags tr)" "ti_offs_size tr = 0"
    and da: "get_bytes um (ti_data tr) (unat (ti_data_size tr)) = Some data" and kz: "k_kz K s = Some t" "\<And>y. k_kz K (put_txn t y s) = Some c"
    and room: "bufs_ok (p_space pq)" "can_alloc (k_page K) (p_space pq) (ti_data_size tr) 0 False"
    using pc pq by (auto simp: plain_call_def)
  obtain sp b bf where al: "binder_alloc_buf (k_rb K) (k_page K) (p_space pq) (ti_data_size tr) 0 False = Some (sp, Some b)"
    "same_area sp (p_space pq)" "buf_at sp b = Some bf" "b_addr bf = b" "b_data_size bf = ti_data_size tr" "b_offs_size bf = 0" "\<not> b_async bf"
    using alloc_buf_at [OF rb room] by auto
  define s2 where "s2 = (put_txn t ?T s)\<lparr>d_completes := insert c (d_completes (put_txn t ?T s))\<rparr>"
  have start: "binder_transaction K um p th tr False s = send_transaction K um p th tr False g t c s2"
    using tg kz x pr by (simp add: binder_transaction_def s2_def Let_def)
  define bf' where "bf' = bf\<lparr>b_txn := True\<rparr>"
  define sp' where "sp' = set_buf b (\<lambda>y. y\<lparr>b_txn := True\<rparr>) sp"
  have sp': "buf_at sp' b = Some bf'" "same_area sp' (p_space pq)"
    using buf_at_set [of "\<lambda>y. y\<lparr>b_txn := True\<rparr>" b sp] al(2,3) by (simp_all add: sp'_def bf'_def same_area_def set_buf_def area_end_def)
  define pq1 where "pq1 = pq\<lparr>p_space := sp', p_bufs := (p_bufs pq)(b := \<lparr>allow_user_free = False, bu_txn = Some t, bu_target = Some a, bu_data = data, bu_offs = []\<rparr>)\<rparr>"
  define s3 where "s3 = put_proc ?q pq1 (put_node a (n\<lparr>local_strong_refs := local_strong_refs n + 1\<rparr>) (put_txn t (?T\<lparr>tx_buffer := Some b\<rparr>) s2))"
  have "send_transaction K um p th tr False g t c s2 = queue_transaction K th False g t c s3"
    using al(1) pq n ow da
    by (simp add: send_transaction_def fill_buffer_def set_buf_data_def binder_inc_node_def set_buf_txn_def s2_def s3_def Let_def pq1_def sp'_def put_proc_again)
  moreover define s4 where "s4 = list_add_tail (WComplete c) (ThreadTodo th) (list_add_tail (WTxn t) (todo_of g)
      (put_thread th (x\<lparr>transaction_stack := Some t\<rparr>) (put_txn t (?T\<lparr>tx_buffer := Some b, need_reply := True, tx_from_parent := transaction_stack x\<rparr>) s3)))"
  have "queue_transaction K th False g t c s3 = Some s4"
    using sp'(1) x al(7) ow(1)
    by (simp add: queue_transaction_def todo_of_def s4_def s3_def s2_def pq1_def Let_def bf'_def new_txn_def)
  ultimately have run: "binder_transaction K um p th tr False s = Some s4" using start by simp
  have "d_work s4 = d_work s @ [(todo_of g, WTxn t), (ThreadTodo th, WComplete c)]"
    "d_threads s4 = (d_threads s)(th \<mapsto> x\<lparr>transaction_stack := Some t\<rparr>)"
    "d_nodes s4 = (d_nodes s)(a \<mapsto> n\<lparr>local_strong_refs := local_strong_refs n + 1\<rparr>)" "d_procs s4 = (d_procs s)(?q \<mapsto> pq1)"
    "d_txns s4 t = Some (?T\<lparr>tx_buffer := Some b, need_reply := True, tx_from_parent := transaction_stack x\<rparr>)"
    by (simp_all add: s4_def s3_def s2_def)
  moreover have "pq1 = pq\<lparr>p_space := p_space pq1, p_bufs := p_bufs pq1\<rparr>" "p_space pq1 = sp'"
    "bu_data (p_bufs pq1 b) = data" "bu_target (p_bufs pq1 b) = Some a" "bu_txn (p_bufs pq1 b) = Some t" by (simp_all add: pq1_def)
  moreover have "b_addr bf' = b" "b_data_size bf' = ti_data_size tr" "b_offs_size bf' = 0" using al by (simp_all add: bf'_def)
  ultimately show ?thesis
    using run sp' by (intro exI [of _ s4] exI [of _ b] exI [of _ bf'] exI [of _ pq1]) simp
qed

section \<open>A call is delivered\<close>

text \<open>The ten words a reader gets for a call from process \<open>pr\<close> to node \<open>n\<close> of process \<open>pq\<close>, with its data in buffer \<open>b\<close>.\<close>

definition message_words :: "bproc \<Rightarrow> bproc \<Rightarrow> bnode \<Rightarrow> txn_in \<Rightarrow> int \<Rightarrow> u32 list" where
  "message_words pr pq n tr b =
     (let addr = of_int (b_data b + user_buffer_offset (p_space pq))
      in [nd_ptr n, nd_cookie n, ti_code tr, ti_flags tr, of_int (p_pid pr), p_euid pr, ti_data_size tr, 0, addr, addr + ALIGN4 (ti_data_size tr)])"

text \<open>
  C11. A call reaches the target whole. The caller sends \<open>BC_TRANSACTION\<close> with
  some bytes to a node; a thread of the node's process that reads from the list
  the call was put on gets \<open>BR_TRANSACTION\<close> with the node's pointer and
  cookie, the code and flags, the caller's process and user, and the place of a
  buffer in its own area that holds exactly the caller's bytes. Afterwards the call
  is on the stack of both threads. This holds for a call that waits for its reply
  and carries no objects (\<open>plain_call\<close>), when the list it is put on is
  empty before, when the reading thread has no pending error and reads at least
  44 bytes into an empty buffer, and when the driver is not asking the target for
  a new thread: with such a request the first word is lost, as
  \<open>spawn_request_overwrites_call\<close> shows.
\<close>

theorem call_delivered:
  assumes rb: "rb_ok (k_rb K)" and pc: "plain_call K um p th tr g s t c data"
    and x: "d_threads s th = Some x" "th_proc x = p" and pr: "d_procs s p = Some pr" and n: "g_node g = Some a" "d_nodes s a = Some n"
    and y: "d_threads s u = Some y" "return_error y = BR_OK" "u \<noteq> th" and pq: "d_procs s (g_proc g) = Some pq"
    and l: "reads_from s (g_proc g) u (todo_of g)" "work_on (todo_of g) s = []" and sz: "44 \<le> sz" "sz < 2 ^ 32" and lp: "\<not> wants_looper pq y"
  shows "\<exists>s1 s2 m b pq'. binder_transaction K um p th tr False s = Some s1
    \<and> binder_thread_read K (\<lambda>_. True) (g_proc g) u sz 0 nb [] mem s1 = Some (Returned s2 m 44 0)
    \<and> buffer_words m 11 = map Some (UBr BR_TRANSACTION # map UWord (message_words pr pq n tr b))
    \<and> d_procs s2 (g_proc g) = Some pq' \<and> bu_data (p_bufs pq' b) = data \<and> allow_user_free (p_bufs pq' b)
    \<and> map_option transaction_stack (d_threads s2 th) = Some (Some t) \<and> map_option transaction_stack (d_threads s2 u) = Some (Some t)
    \<and> (\<exists>tx. d_txns s2 t = Some tx \<and> tx_from tx = Some th \<and> tx_to_thread tx = Some u)"
proof -
  let ?q = "g_proc g" and ?T = "new_txn K th x (p_euid pr) False tr g"
  obtain s1 b bf pq1 where s1: "binder_transaction K um p th tr False s = Some s1"
    "d_work s1 = d_work s @ [(todo_of g, WTxn t), (ThreadTodo th, WComplete c)]"
    "d_threads s1 = (d_threads s)(th \<mapsto> x\<lparr>transaction_stack := Some t\<rparr>)"
    "d_nodes s1 = (d_nodes s)(a \<mapsto> n\<lparr>local_strong_refs := local_strong_refs n + 1\<rparr>)"
    "d_procs s1 = (d_procs s)(?q \<mapsto> pq1)" "pq1 = pq\<lparr>p_space := p_space pq1, p_bufs := p_bufs pq1\<rparr>"
    "same_area (p_space pq1) (p_space pq)" "buf_at (p_space pq1) b = Some bf" "b_addr bf = b" "b_data_size bf = ti_data_size tr" "b_offs_size bf = 0"
    "bu_data (p_bufs pq1 b) = data" "bu_target (p_bufs pq1 b) = Some a"
    "d_txns s1 t = Some (?T\<lparr>tx_buffer := Some b, need_reply := True, tx_from_parent := transaction_stack x\<rparr>)"
    using call_queued [OF rb pc x(1) pq pr n] by blast
  define tx where "tx = ?T\<lparr>tx_buffer := Some b, need_reply := True, tx_from_parent := transaction_stack x\<rparr>"
  define cl where "cl = \<lparr>c_txn = tx, c_buf = bf, c_node = n\<lparr>local_strong_refs := local_strong_refs n + 1\<rparr>, c_pid = of_int (p_pid pr)\<rparr>"
  have ow: "\<not> one_way K (ti_flags tr)" using pc by (simp add: plain_call_def)
  have tx: "tx_buffer tx = Some b" "tx_flags tx = ti_flags tr" "tx_from tx = Some th" "tx_code tx = ti_code tr" "sender_euid tx = p_euid pr"
    using ow by (simp_all add: tx_def new_txn_def)
  have same: "p_pid pq1 = p_pid pq" "wants_looper pq1 y \<longleftrightarrow> wants_looper pq y"
    using arg_cong [OF s1(6), of p_pid] arg_cong [OF s1(6), of "\<lambda>z. wants_looper z y"] by (simp_all add: wants_looper_def)
  have head: "work_on (todo_of g) s1 = [WTxn t]" if "todo_of g \<noteq> ThreadTodo th" using l(2) that by (simp add: work_on_def s1(2) filter_empty_conv)
  have other: "todo_of g \<noteq> ThreadTodo th" using l(1) y(3) by (auto simp: reads_from_def)
  have "\<exists>fp. d_procs s1 p = Some fp \<and> p_pid fp = p_pid pr" using s1(5) pr pq same(1) by (cases "p = ?q") auto
  then have call: "call_on K (todo_of g) s1 ?q t cl"
    unfolding call_on_def using head [OF other] s1(3-5,8,13,14) tx ow x(2) pr pq same(1) by (auto simp: cl_def simp flip: tx_def)
  have r: "reads_from s1 ?q u (todo_of g)" using l(1) y(3) s1(3)
    by (auto simp: reads_from_def work_on_def s1(2))
  have s1u: "d_threads s1 u = Some y" "d_procs s1 ?q = Some pq1" using s1(3,5) y by simp_all
  obtain s2 m i j b' bufs where s2: "binder_thread_read K (\<lambda>_. True) ?q u sz 0 nb [] mem s1 = Some (Returned s2 m 44 0)"
    "buffer_words m 11 = map Some (UBr BR_TRANSACTION # map UWord (call_words pq1 cl))"
    "d_threads s2 = (d_threads s1)(u \<mapsto> y\<lparr>lp_waiting := False, th_nice := j, transaction_stack := Some t\<rparr>)"
    "d_txns s2 t = Some ((c_txn cl)\<lparr>saved_priority := i, tx_to_parent := transaction_stack y, tx_to_thread := Some u\<rparr>)"
    "tx_buffer (c_txn cl) = Some b'" "d_procs s2 ?q = Some (pq1\<lparr>p_bufs := bufs\<rparr>)" "allow_user_free (bufs b')" "bu_data (bufs b') = bu_data (p_bufs pq1 b')"
    using read_call [OF call r s1u(2,1) y(2) sz, of nb mem] lp same(2) by metis
  have "b' = b" using s2(5) tx(1) by (simp add: cl_def)
  moreover have "call_words pq1 cl = message_words pr pq n tr b"
    using s1 tx by (simp add: call_words_def message_words_def cl_def Let_def b_data_def same_area_def)
  moreover have "d_threads s2 th = Some (x\<lparr>transaction_stack := Some t\<rparr>)" using s2(3) s1(3) y(3) by simp
  ultimately show ?thesis
    using s1(1,12) s2 tx(3) by (intro exI [of _ s1] exI [of _ s2] exI [of _ m] exI [of _ b] exI [of _ "pq1\<lparr>p_bufs := bufs\<rparr>"])
      (simp add: cl_def)
qed

section \<open>An instance\<close>

text \<open>
  Process 101 with thread 201 has handle 1 on node 300 of process 100, whose thread
  200 has nothing to do. Memory is given out from address 600 on.
\<close>

definition first_unused :: kz_fn where
  "first_unused s = find (\<lambda>a. Option.is_none (d_procs s a) \<and> Option.is_none (d_threads s a) \<and> Option.is_none (d_nodes s a) \<and> Option.is_none (d_refs s a)
     \<and> Option.is_none (d_deaths s a) \<and> Option.is_none (d_txns s a) \<and> a \<notin> d_completes s) [600, 601, 602, 603, 604, 605]"

definition quiet_ext :: kext where
  "quiet_ext = demo_ext\<lparr>k_kz := first_unused, k_page := all_mapped\<rparr>"

definition quiet_drv :: drv where
  "quiet_drv = demo_drv\<lparr>d_procs := [100 \<mapsto> (demo_proc 10 (Node Leaf 300 Leaf) Leaf)\<lparr>p_space := demo0\<rparr>,
       101 \<mapsto> (demo_proc 11 Leaf (Node Leaf 500 Leaf))\<lparr>p_space := demo0\<rparr>],
     d_threads := [200 \<mapsto> demo_thread 100 None, 201 \<mapsto> demo_thread 101 None], d_nodes := [300 \<mapsto> demo_node\<lparr>local_strong_refs := 0\<rparr>],
     d_txns := Map.empty, d_work := []\<rparr>"

definition quiet_tr :: txn_in where
  "quiet_tr = \<lparr>ti_handle = 1, ti_code = 3, ti_flags = 0, ti_data_size = 3, ti_offs_size = 0, ti_data = 5, ti_offs = 0\<rparr>"

definition any_mem :: "u32 \<Rightarrow> u8 option" where "any_mem a = Some (ucast a)"

definition quiet_target :: target where
  "quiet_target = \<lparr>g_proc = 100, g_thread = None, g_node = Some 300, g_reply = None\<rparr>"

lemma quiet_maps:
  "d_procs quiet_drv = [100 \<mapsto> (demo_proc 10 (Node Leaf 300 Leaf) Leaf)\<lparr>p_space := demo0\<rparr>, 101 \<mapsto> (demo_proc 11 Leaf (Node Leaf 500 Leaf))\<lparr>p_space := demo0\<rparr>]"
  "d_threads quiet_drv = [200 \<mapsto> demo_thread 100 None, 201 \<mapsto> demo_thread 101 None]" "d_nodes quiet_drv = [300 \<mapsto> demo_node\<lparr>local_strong_refs := 0\<rparr>]"
  "d_refs quiet_drv = d_refs demo_drv" "d_work quiet_drv = []" "d_txns quiet_drv = Map.empty" "d_deaths quiet_drv = Map.empty" "dead_nodes quiet_drv = []"
  "context_mgr_node quiet_drv = None" "d_completes quiet_drv = {}"
  by (simp_all add: quiet_drv_def demo_drv_def)

lemma quiet_room: "can_alloc all_mapped demo0 3 0 False"
proof -
  have r: "request_size 3 0 = 4" by code_simp
  have "size_at demo0 32768 = 16344" by code_simp
  then have "16344 \<in> free_sizes demo0" by (force simp: free_sizes_def demo0_def)
  then show ?thesis unfolding can_alloc_def r by (auto simp: demo0_def all_mapped_def intro!: bexI [of _ 16344])
qed

lemma quiet_call: "plain_call quiet_ext any_mem 101 201 quiet_tr quiet_target quiet_drv 600 601 [5, 6, 7]"
proof -
  have "call_target quiet_ext 101 201 quiet_tr quiet_drv = Some (Inr quiet_target)"
    by (simp add: call_target_def quiet_tr_def quiet_target_def quiet_maps binder_get_ref_def key_desc_def demo_maps demo_proc_def demo_node_def new_node_def
      quiet_ext_def demo_ext_def demo_thread_def)
  moreover have "k_kz quiet_ext quiet_drv = Some 600" by (simp add: quiet_ext_def first_unused_def quiet_maps demo_maps)
  moreover have "k_kz quiet_ext (put_txn 600 x quiet_drv) = Some 601" for x
    by (simp add: quiet_ext_def first_unused_def quiet_maps demo_maps)
  moreover have "get_bytes any_mem 5 3 = Some [5, 6, 7]" by code_simp
  ultimately show ?thesis
    using quiet_room demo0_ok by (simp add: plain_call_def quiet_tr_def quiet_target_def quiet_ext_def demo_ext_def one_way_def quiet_maps)
qed

theorem call_delivered_witness:
  "\<exists>s1 s2 m b. binder_transaction quiet_ext any_mem 101 201 quiet_tr False quiet_drv = Some s1
    \<and> binder_thread_read quiet_ext (\<lambda>_. True) 100 200 256 0 False [] Map.empty s1 = Some (Returned s2 m 44 0)
    \<and> take 7 (buffer_words m 11) = map Some (UBr BR_TRANSACTION # map UWord [7, 8, 3, 0, 11, 1000])
    \<and> (\<exists>pq. d_procs s2 100 = Some pq \<and> bu_data (p_bufs pq b) = [5, 6, 7])"
proof -
  let ?pr = "(demo_proc 11 Leaf (Node Leaf 500 Leaf))\<lparr>p_space := demo0\<rparr>" and ?pq = "(demo_proc 10 (Node Leaf 300 Leaf) Leaf)\<lparr>p_space := demo0\<rparr>"
  let ?n = "demo_node\<lparr>local_strong_refs := 0\<rparr>"
  have "take 6 (message_words ?pr ?pq ?n quiet_tr b) = [7, 8, 3, 0, 11, 1000]" for b
    by (simp add: message_words_def demo_node_def new_node_def quiet_tr_def demo_proc_def Let_def)
  moreover have "\<exists>s1 s2 m b pq'. binder_transaction quiet_ext any_mem 101 201 quiet_tr False quiet_drv = Some s1
    \<and> binder_thread_read quiet_ext (\<lambda>_. True) (g_proc quiet_target) 200 256 0 False [] Map.empty s1 = Some (Returned s2 m 44 0)
    \<and> buffer_words m 11 = map Some (UBr BR_TRANSACTION # map UWord (message_words ?pr ?pq ?n quiet_tr b))
    \<and> d_procs s2 (g_proc quiet_target) = Some pq' \<and> bu_data (p_bufs pq' b) = [5, 6, 7] \<and> allow_user_free (p_bufs pq' b)
    \<and> map_option transaction_stack (d_threads s2 201) = Some (Some 600) \<and> map_option transaction_stack (d_threads s2 200) = Some (Some 600)
    \<and> (\<exists>tx. d_txns s2 600 = Some tx \<and> tx_from tx = Some 201 \<and> tx_to_thread tx = Some 200)"
    by (rule call_delivered [OF _ quiet_call, of "demo_thread 101 None" _ 300 _ _ "demo_thread 100 None"])
      (simp_all add: quiet_ext_def demo_ext_def plain_trees_ok quiet_maps quiet_target_def demo_thread_def reads_from_def todo_of_def work_on_def
        wants_looper_def demo_proc_def)
  ultimately show ?thesis by (fastforce simp: quiet_target_def take_map)
qed

section \<open>Offsets that repeat\<close>

text \<open>
  Thread 201 sends one object, a binder of its own, and names its offset twice. The
  first turn of the loop makes it handle 1 of the receiver, the second takes that
  for handle 1 of the sender, which is a node of the receiver, and makes it that
  node. Releasing the buffer then drops the node's count twice. A second message
  and a released handle later the node is freed while a buffer refers to it.
\<close>

definition rep_tr :: txn_in where
  "rep_tr = \<lparr>ti_handle = 1, ti_code = 3, ti_flags = 1, ti_data_size = 16, ti_offs_size = 8, ti_data = 0x100, ti_offs = 0x200\<rparr>"

definition rep_mem :: "u32 \<Rightarrow> u8 option" where
  "rep_mem a = Some (if a = 0x100 then 1 else if a = 0x108 then 0x10 else if a = 0x10c then 0x11 else 0)"

definition after_read :: "read_res \<Rightarrow> drv option" where
  "after_read r = (case r of Returned s m n e \<Rightarrow> Some s | _ \<Rightarrow> None)"

definition serve :: "drv \<Rightarrow> drv option" where
  "serve s = Option.bind (binder_thread_read quiet_ext (\<lambda>_. True) 100 200 256 0 False [] Map.empty s) after_read"

definition rep_run :: "drv option" where
  "rep_run = do {
     s1 \<leftarrow> binder_transaction quiet_ext rep_mem 101 201 rep_tr False quiet_drv;
     s2 \<leftarrow> serve s1;
     s3 \<leftarrow> write_free_buffer quiet_ext 100 200 4136 s2;
     s4 \<leftarrow> binder_transaction quiet_ext rep_mem 101 201 (quiet_tr\<lparr>ti_flags := 1\<rparr>) False s3;
     s5 \<leftarrow> serve s4;
     s6 \<leftarrow> write_ref quiet_ext 101 BC_RELEASE 1 s5;
     serve s6 }"

lemma rep_run_result:
  "map_option (\<lambda>s. (Option.is_none (d_nodes s 300), map_option (\<lambda>pr. let u = p_bufs pr 32768 in (allow_user_free u, bu_target u)) (d_procs s 100),
     Option.is_none (write_free_buffer quiet_ext 100 200 4136 s))) rep_run = Some (True, Some (True, Some 300), True)"
  by code_simp

text \<open>
  The offsets of a message are not checked for repetition, and a client can
  use that to make the kernel use freed memory: after the run above the receiver
  may free a buffer whose target node has been freed, and doing so reads the node.
\<close>

theorem repeated_offset_use_after_free:
  "\<exists>s pr. rep_run = Some s \<and> d_procs s 100 = Some pr \<and> allow_user_free (p_bufs pr 32768) \<and> bu_target (p_bufs pr 32768) = Some 300
    \<and> d_nodes s 300 = None \<and> write_free_buffer quiet_ext 100 200 4136 s = None"
  using rep_run_result by (auto simp: Let_def Option.is_none_def)

end
