(* ===== verification/KernelWriteProps.thy ===== *)
theory KernelWriteProps
  imports KernelTxnProps
begin

text \<open>
  The commands of \<open>binder_thread_write\<close> that change counts and ask for
  notifications: they keep the graph of nodes and references sound, whatever the
  bytes, and never touch freed memory.
\<close>

section \<open>What the commands leave alone\<close>

text \<open>
  No thread and no process comes or goes, only nodes and notifications are queued,
  and finitely many structures stay finitely many.
\<close>

definition fin :: "drv \<Rightarrow> bool" where
  "fin s \<longleftrightarrow> finite (dom (d_nodes s)) \<and> finite (dom (d_refs s)) \<and> finite (dom (d_deaths s))"

definition kept :: "drv \<Rightarrow> drv \<Rightarrow> bool" where
  "kept s s' \<longleftrightarrow> (\<forall>t. map_option th_proc (d_threads s' t) = map_option th_proc (d_threads s t)) \<and> dom (d_procs s') = dom (d_procs s)
     \<and> (\<forall>l w. (l, w) \<in> set (d_work s') \<longrightarrow> (l, w) \<in> set (d_work s) \<or> (\<exists>a. w = WNode a) \<or> (\<exists>d. w = WDeath d))
     \<and> (fin s \<longrightarrow> fin s')"

lemma kept_refl [simp]: "kept s s"
  by (simp add: kept_def)

lemma kept_trans: "kept s t \<Longrightarrow> kept t u \<Longrightarrow> kept s u"
  unfolding kept_def by metis

lemma kept_puts [simp]:
  "kept s (put_node a n u) = kept s u" "kept s (put_ref r rf u) = kept s u" "kept s (put_death d dt u) = kept s u"
  by (simp_all add: kept_def put_death_def fin_def)

lemma kept_put_proc [simp]:
  "d_procs u p \<noteq> None \<Longrightarrow> kept s (put_proc p pr u) = kept s u" "d_procs s p \<noteq> None \<Longrightarrow> kept (put_proc p pr s) u = kept s u"
  by (simp_all add: kept_def insert_absorb domIff fin_def)

lemma kept_left [simp]: "kept (put_node a n s) u = kept s u" "kept (put_ref r rf s) u = kept s u"
  by (simp_all add: kept_def fin_def)

lemma kept_put_thread [simp]:
  assumes "d_threads u t = Some z" and "th_proc x = th_proc z"
  shows "kept s (put_thread t x u) = kept s u"
proof -
  have "map_option th_proc (((d_threads u)(t \<mapsto> x)) i) = map_option th_proc (d_threads u i)" for i using assms by simp
  then show ?thesis by (simp only: kept_def put_thread_simps fin_def)
qed

lemma kept_work [simp]:
  "kept s u \<Longrightarrow> kept s (list_del_work w u)" "kept s u \<Longrightarrow> kept s (list_add_tail (WNode a) l u)" "kept s u \<Longrightarrow> kept s (list_add_tail (WDeath d) l u)"
  by (auto simp: kept_def list_del_work_def fin_def)

lemma kept_fields [simp]: "kept s (free_node a u) = kept s u" "kept s (u\<lparr>dead_nodes := D\<rparr>) = kept s u"
    "kept s (u\<lparr>d_refs := (d_refs u)(r := None)\<rparr>) = kept s u" "kept s (u\<lparr>d_deaths := (d_deaths u)(d := None)\<rparr>) = kept s u"
  by (simp_all add: kept_def free_node_def fin_def)

lemma dec_node_kept: "binder_dec_node rb s a strong internal = Some s' \<Longrightarrow> kept s s'"
  by (auto simp: binder_dec_node_def Let_def split: if_splits option.splits Option.bind_splits)

lemma inc_node_kept: "binder_inc_node s a strong internal l = Some (s', r) \<Longrightarrow> kept s s'"
  by (auto simp: binder_inc_node_def Let_def split: if_splits option.splits Option.bind_splits)

lemma drop_death_kept [simp]: "kept s u \<Longrightarrow> kept s (drop_death d u)"
  by (auto simp: drop_death_def Let_def kept_def fin_def list_del_work_def split: option.splits)

lemma delete_ref_kept: "binder_delete_ref rb s r = Some s' \<Longrightarrow> kept s s'"
  by (auto simp: binder_delete_ref_def Let_def split: if_splits Option.bind_splits dest!: dec_node_kept intro!: drop_death_kept intro: kept_trans)

lemma inc_ref_kept: "binder_inc_ref s r strong l = Some (s', x) \<Longrightarrow> kept s s'"
  by (auto simp: binder_inc_ref_def Let_def split: if_splits Option.bind_splits dest!: inc_node_kept intro: kept_trans)

lemma dec_ref_kept: "binder_dec_ref rb s r strong = Some (s', x) \<Longrightarrow> kept s s'"
  by (auto simp: binder_dec_ref_def Let_def split: if_splits Option.bind_splits dest!: dec_node_kept delete_ref_kept intro: kept_trans)

lemma get_ref_for_node_kept: "binder_get_ref_for_node rb kz s p a = Some (s', r) \<Longrightarrow> kept s s'"
  by (auto simp: binder_get_ref_for_node_def Let_def split: if_splits option.splits Option.bind_splits)

section \<open>How far counts can grow\<close>

text \<open>
  The larger count of a reference; one command raises it by at most one. The counts are
  C integers, so a write is only followed where they cannot reach the limit.
\<close>

definition ref_count :: "drv \<Rightarrow> int \<Rightarrow> int" where
  "ref_count s r = (case d_refs s r of None \<Rightarrow> 0 | Some rf \<Rightarrow> max 0 (max (rf_strong rf) (rf_weak rf)))"

definition grows :: "int \<Rightarrow> drv \<Rightarrow> drv \<Rightarrow> bool" where
  "grows k s s' \<longleftrightarrow> (\<forall>r. ref_count s' r \<le> ref_count s r + k)"

definition counts_fit :: "drv \<Rightarrow> nat \<Rightarrow> bool" where
  "counts_fit s k \<longleftrightarrow> (\<forall>r. ref_count s r + int k < 2 ^ 31)"

lemma counts_fitD:
  assumes "counts_fit s k" and "d_refs s r = Some rf"
  shows "rf_strong rf + int k < 2 ^ 31" "rf_weak rf + int k < 2 ^ 31"
  using assms(1) [unfolded counts_fit_def, rule_format, of r] assms(2) by (simp_all add: ref_count_def)

lemma fit_grows: "counts_fit s k \<Longrightarrow> grows 1 s s' \<Longrightarrow> j < k \<Longrightarrow> counts_fit s' j"
  unfolding counts_fit_def grows_def by (smt (verit, best) of_nat_less_iff zless_imp_add1_zle)

lemma fit_less: "counts_fit s k \<Longrightarrow> j \<le> k \<Longrightarrow> counts_fit s j"
  unfolding counts_fit_def by (smt (verit, best) of_nat_le_iff)

lemma grows_same: "d_refs s' = d_refs s \<Longrightarrow> 0 \<le> k \<Longrightarrow> grows k s s'"
  by (simp add: grows_def ref_count_def)

lemma grows_trans: "grows 0 s t \<Longrightarrow> grows k t u \<Longrightarrow> grows k s u"
  unfolding grows_def by (smt (verit, best))

lemma grows_upd:
  assumes "d_refs s r = Some rf" and "d_refs s' = (d_refs s)(r \<mapsto> rf')" and "0 \<le> k"
    and "rf_strong rf' \<le> rf_strong rf + k" and "rf_weak rf' \<le> rf_weak rf + k"
  shows "grows k s s'"
  using assms by (auto simp: grows_def ref_count_def)

lemma grows_del: "d_refs s' = (d_refs s)(r := None) \<Longrightarrow> 0 \<le> k \<Longrightarrow> grows k s s'"
  by (auto simp: grows_def ref_count_def split: option.splits)

lemma node_refs:
  "binder_dec_node rb s a strong internal = Some s' \<Longrightarrow> d_refs s' = d_refs s"
  "binder_inc_node s a strong internal l = Some (s', x) \<Longrightarrow> d_refs s' = d_refs s"
  by (auto simp: binder_dec_node_def binder_inc_node_def free_node_def Let_def split: if_splits option.splits Option.bind_splits)

lemma drop_death_refs [simp]: "d_refs (drop_death d s) = d_refs s"
  by (simp add: drop_death_def Let_def split: option.splits)

lemma delete_ref_refs: "binder_delete_ref rb s r = Some s' \<Longrightarrow> d_refs s' = (d_refs s)(r := None)"
  by (auto simp: binder_delete_ref_def Let_def split: if_splits Option.bind_splits dest!: node_refs)

lemma inc_ref_grows:
  assumes "d_refs s r = Some rf" "0 \<le> rf_strong rf" "0 \<le> rf_weak rf" and "binder_inc_ref s r strong l = Some (s', x)"
  shows "grows 1 s s'"
proof -
  have w: "wrap_int (rf_strong rf + 1) \<le> rf_strong rf + 1" "wrap_int (rf_weak rf + 1) \<le> rf_weak rf + 1"
    using assms(2,3) by (simp_all add: wrap_int_le)
  have "d_refs s' = d_refs s \<or> d_refs s' = (d_refs s)(r \<mapsto> rf\<lparr>rf_strong := wrap_int (rf_strong rf + 1)\<rparr>)
      \<or> d_refs s' = (d_refs s)(r \<mapsto> rf\<lparr>rf_weak := wrap_int (rf_weak rf + 1)\<rparr>)"
    using assms(1,4) by (auto simp: binder_inc_ref_def split: if_splits Option.bind_splits dest!: node_refs(2))
  then show ?thesis using w by (auto intro: grows_same grows_upd [OF assms(1)])
qed

lemma dec_ref_grows:
  assumes "d_refs s r = Some rf" "0 \<le> rf_strong rf" "0 \<le> rf_weak rf" and "binder_dec_ref rb s r strong = Some (s', x)"
  shows "grows 0 s s'"
proof -
  define rf1 where "rf1 = (if strong then rf\<lparr>rf_strong := wrap_int (rf_strong rf - 1)\<rparr> else rf\<lparr>rf_weak := wrap_int (rf_weak rf - 1)\<rparr>)"
  show ?thesis
  proof (cases "if strong then rf_strong rf = 0 else rf_weak rf = 0")
    case True
    have "s' = s" using assms(4) unfolding binder_dec_ref_def assms(1) Option.bind.simps if_P [OF True] by simp
    then show ?thesis by (simp add: grows_same)
  next
    case False
    then have le: "rf_strong rf1 \<le> rf_strong rf" "rf_weak rf1 \<le> rf_weak rf"
      using assms(2,3) wrap_int_le [of "rf_strong rf - 1"] wrap_int_le [of "rf_weak rf - 1"] by (auto simp: rf1_def split: if_splits)
    obtain s1 where s1: "(if strong \<and> rf_strong rf1 = 0 then binder_dec_node rb (put_ref r rf1 s) (rf_node rf) True True else Some (put_ref r rf1 s)) = Some s1"
      "(if rf_strong rf1 = 0 \<and> rf_weak rf1 = 0 then do { s2 \<leftarrow> binder_delete_ref rb s1 r; Some (s2, 0) } else Some (s1, 0)) = Some (s', x)"
      using assms(1,4) False by (auto simp: binder_dec_ref_def Let_def rf1_def [symmetric] split: Option.bind_splits)
    have "d_refs s1 = (d_refs s)(r \<mapsto> rf1)" using s1(1) by (auto split: if_splits dest!: node_refs(1))
    then have g: "grows 0 s s1" using le by (intro grows_upd [OF assms(1)]) simp_all
    have "d_refs s' = d_refs s1 \<or> d_refs s' = (d_refs s1)(r := None)" using s1(2) by (auto split: if_splits Option.bind_splits dest!: delete_ref_refs)
    then show ?thesis using grows_trans [OF g] by (auto intro: grows_same grows_del)
  qed
qed

lemma get_ref_for_node_grows: "binder_get_ref_for_node rb kz s p a = Some (s', r) \<Longrightarrow> grows 0 s s'"
  by (auto simp: binder_get_ref_for_node_def grows_def ref_count_def Let_def split: option.splits Option.bind_splits if_splits)

lemma death_grows:
  "request_death K p th r cookie s = Some s' \<Longrightarrow> grows 1 s s'" "clear_death p th r cookie s = Some s' \<Longrightarrow> grows 1 s s'"
  "write_death_done p th cookie s = Some s' \<Longrightarrow> grows 1 s s'"
  by (auto simp: request_death_def clear_death_def write_death_done_def Let_def put_death_def grows_def ref_count_def
      split: if_splits option.splits Option.bind_splits)

lemma other_grows:
  "write_looper p th cmd s = Some s' \<Longrightarrow> grows 1 s s'" "write_death K p th q h cookie s = Some s' \<Longrightarrow> grows 1 s s'"
  "\<not> debug_user_refs K \<Longrightarrow> write_node_done K p strong ptr cookie s = Some s' \<Longrightarrow> grows 1 s s'"
  by (auto simp: write_looper_def write_death_def write_node_done_def debug_node_def Let_def intro!: grows_same
      split: if_splits option.splits Option.bind_splits dest!: death_grows node_refs(1))

section \<open>Lookups\<close>

lemma get_ref_cases:
  assumes "graph_ok s" and "d_procs s p = Some pr"
  obtains "binder_get_ref s p d = Some None"
    | r rf where "binder_get_ref s p d = Some (Some r)" "d_refs s r = Some rf" "rf_proc rf = p" "rf_desc rf = d"
proof -
  have "index_of (key_desc s) (proc_refs s p) (p_refs_by_desc pr)" using graph_okD(3) [OF assms] by (simp add: proc_ok_def)
  from tree_find_cases [OF this, of d] show ?thesis
    using that assms(2) by (auto simp: binder_get_ref_def proc_refs_def key_desc_def)
qed

lemma get_node_cases:
  assumes "graph_ok s" and "d_procs s p = Some pr"
  obtains "binder_get_node s p ptr = Some None"
    | a n where "binder_get_node s p ptr = Some (Some a)" "d_nodes s a = Some n" "nd_proc n = Some p" "nd_ptr n = ptr"
proof -
  have "index_of (key_ptr s) (proc_nodes s p) (p_nodes pr)" using graph_okD(3) [OF assms] by (simp add: proc_ok_def)
  from tree_find_cases [OF this, of ptr] show ?thesis
    using that assms(2) by (auto simp: binder_get_node_def proc_nodes_def key_ptr_def)
qed

text \<open>With memory to be had a reference is always found or made.\<close>

lemma get_ref_for_node_gives:
  assumes "kz s = Some y" and "binder_get_ref_for_node rb kz s p a = Some (s', r)"
  shows "r \<noteq> None"
  using assms(2) unfolding binder_get_ref_for_node_def assms(1) by (auto simp: Let_def split: option.splits Option.bind_splits)

section \<open>Counts\<close>

lemma change_ref_ok:
  assumes rb: "rb_ok rb" and ok: "graph_ok s" and r: "d_refs s r = Some rf" and fit: "counts_fit s 1"
  shows "\<exists>s' x. (if cmd = BC_INCREFS then binder_inc_ref s r False None else if cmd = BC_ACQUIRE then binder_inc_ref s r True None
      else if cmd = BC_RELEASE then binder_dec_ref rb s r True else binder_dec_ref rb s r False) = Some (s', x) \<and> graph_ok s' \<and> kept s s' \<and> grows 1 s s'"
proof -
  have fit': "rf_strong rf + 1 < 2 ^ 31" "rf_weak rf + 1 < 2 ^ 31" "rf_strong rf < 2 ^ 31" "rf_weak rf < 2 ^ 31"
    using counts_fitD [OF fit r] by simp_all
  have ge: "0 \<le> rf_strong rf" "0 \<le> rf_weak rf" using graph_okD(2) [OF ok r] by (simp_all add: ref_ok_def)
  have "\<exists>s' x. binder_inc_ref s r b None = Some (s', x) \<and> graph_ok s' \<and> kept s s' \<and> grows 1 s s'" for b
    using inc_ref_ok [OF ok r fit'(1,2), of None b] inc_ref_kept inc_ref_grows [OF r ge] by fastforce
  moreover have "\<exists>s' x. binder_dec_ref rb s r b = Some (s', x) \<and> graph_ok s' \<and> kept s s' \<and> grows 1 s s'" for b
  proof -
    obtain s' x where d: "binder_dec_ref rb s r b = Some (s', x)" "graph_ok s'" using dec_ref_ok [OF rb ok r fit'(3,4), of b] by blast
    have "grows 1 s s'" using dec_ref_grows [OF r ge d(1)] unfolding grows_def by (smt (verit, best))
    then show ?thesis using d dec_ref_kept [OF d(1)] by blast
  qed
  ultimately show ?thesis by simp
qed

text \<open>
  A command on handle 0 that finds no memory for a reference to the context manager
  reads through the null pointer it got.
\<close>

definition null_ref :: "'a kext_scheme \<Rightarrow> int \<Rightarrow> drv \<Rightarrow> bool" where
  "null_ref K p s \<longleftrightarrow> (\<exists>a. context_mgr_node s = Some a \<and> binder_get_ref_for_node (k_rb K) (k_kz K) s p a = Some (s, None))"

lemma write_ref_ok:
  assumes rb: "rb_ok (k_rb K)" and kz: "kz_fresh (k_kz K)" and dbg: "\<not> debug_user_refs K" and ok: "graph_ok s" and p: "d_procs s p = Some pr"
    and fit: "counts_fit s 1"
  shows "(\<exists>s'. write_ref K p cmd handle s = Some s' \<and> graph_ok s' \<and> kept s s' \<and> grows 1 s s') \<or> write_ref K p cmd handle s = None \<and> null_ref K p s"
proof (cases "handle = 0 \<and> context_mgr_node s \<noteq> None \<and> (cmd = BC_INCREFS \<or> cmd = BC_ACQUIRE)")
  case True
  then obtain a where a: "context_mgr_node s = Some a" by blast
  obtain n where n: "d_nodes s a = Some n" using graph_okD(6) [OF ok] a by (auto simp: roots_ok_def)
  obtain s1 x where g: "binder_get_ref_for_node (k_rb K) (k_kz K) s p a = Some (s1, x)" "graph_ok s1" "x = None \<longrightarrow> s1 = s"
    "\<forall>r. x = Some r \<longrightarrow> (\<exists>rf. d_refs s1 r = Some rf)"
    using get_ref_for_node_ok [OF rb kz ok p n] by blast
  show ?thesis
  proof (cases x)
    case None
    then have "null_ref K p s" using a g(1,3) by (simp add: null_ref_def)
    moreover have "write_ref K p cmd handle s = None" using True a g(1) None by (auto simp: write_ref_def)
    ultimately show ?thesis by simp
  next
    case (Some r)
    then obtain rf where r: "d_refs s1 r = Some rf" using g(4) by blast
    have gr: "grows 0 s s1" by (rule get_ref_for_node_grows [OF g(1)])
    have "counts_fit s1 1" using fit gr unfolding counts_fit_def grows_def by (smt (verit, best))
    from change_ref_ok [OF rb g(2) r this, of cmd] show ?thesis
      using get_ref_for_node_kept [OF g(1)] gr True a g(1) Some dbg
      by (auto simp: write_ref_def debug_ref_def intro: kept_trans grows_trans)
  qed
next
  case False
  show ?thesis
  proof (rule get_ref_cases [OF ok p, of "uint handle"])
    assume "binder_get_ref s p (uint handle) = Some None"
    then show ?thesis using False ok by (auto simp: write_ref_def intro: grows_same)
  next
    fix r rf assume r: "binder_get_ref s p (uint handle) = Some (Some r)" "d_refs s r = Some rf"
    show ?thesis using change_ref_ok [OF rb ok r(2) fit, of cmd] r(1) False dbg by (auto simp: write_ref_def debug_ref_def)
  qed
qed

text \<open>
  With the debug output on, giving up the last count of a reference reads the reference
  after it is freed.
\<close>

lemma debug_output_reads_freed_ref:
  assumes "debug_user_refs K" and "d_refs s r = Some rf" and "binder_get_ref s p (uint handle) = Some (Some r)" and "rf_strong rf = 1" and "rf_weak rf = 0"
  shows "write_ref K p BC_RELEASE handle s = None"
proof -
  have "d_refs s' r = None" if "binder_dec_ref (k_rb K) s r True = Some (s', x)" for s' x
    using that assms(2,4,5) by (auto simp: binder_dec_ref_def wrap_int_def Let_def split: Option.bind_splits dest!: delete_ref_refs)
  then show ?thesis using assms(1,3) by (auto simp: write_ref_def debug_ref_def split: Option.bind_splits)
qed

lemma acknowledged_ok:
  assumes ok: "graph_ok s" and n: "d_nodes s a = Some n" "nd_proc n = Some p"
    and pend: "if strong then pending_strong_ref n else pending_weak_ref n"
    and n': "n' = (if strong then n\<lparr>pending_strong_ref := False\<rparr> else n\<lparr>pending_weak_ref := False\<rparr>)"
  shows "graph_ok (put_node a n' s) \<and> spare (put_node a n' s) a strong"
proof
  have k: "node_ok s a n" using graph_okD(1) [OF ok n(1)] .
  then have "node_ok s a n'" using n(2) pend by (auto simp: node_ok_def counts_ok_def n')
  then show "graph_ok (put_node a n' s)" by (intro graph_ok_put_node [OF ok n(1)]) (simp_all add: n')
  show "spare (put_node a n' s) a strong" using k n(2) pend by (auto simp: node_ok_def counts_ok_def spare_def n')
qed

lemma write_node_done_ok:
  assumes rb: "rb_ok (k_rb K)" and dbg: "\<not> debug_user_refs K" and ok: "graph_ok s" and p: "d_procs s p = Some pr"
  shows "\<exists>s'. write_node_done K p strong ptr cookie s = Some s' \<and> graph_ok s' \<and> kept s s'"
proof (rule get_node_cases [OF ok p, of ptr])
  assume "binder_get_node s p ptr = Some None"
  then show ?thesis using ok by (simp add: write_node_done_def)
next
  fix a n assume a: "binder_get_node s p ptr = Some (Some a)" "d_nodes s a = Some n" "nd_proc n = Some p"
  define n' where "n' = (if strong then n\<lparr>pending_strong_ref := False\<rparr> else n\<lparr>pending_weak_ref := False\<rparr>)"
  show ?thesis
  proof (cases "cookie = nd_cookie n \<and> (if strong then pending_strong_ref n else pending_weak_ref n)")
    case True
    then have "graph_ok (put_node a n' s) \<and> spare (put_node a n' s) a strong" using acknowledged_ok [OF ok a(2,3) _ n'_def] by blast
    then obtain s' where s': "binder_dec_node (k_rb K) (put_node a n' s) a strong False = Some s'" "graph_ok s'"
      using dec_local_ok [OF rb] by blast
    then show ?thesis using a True dec_node_kept [OF s'(1)] dbg by (auto simp: write_node_done_def debug_node_def n'_def split: if_splits)
  next
    case False
    then show ?thesis using a ok by (auto simp: write_node_done_def)
  qed
qed

section \<open>Notifications\<close>

text \<open>States that differ in the notifications only.\<close>

lemma graph_ok_deaths:
  assumes ok: "graph_ok s" and same: "d_nodes s' = d_nodes s" "dead_nodes s' = dead_nodes s" "context_mgr_node s' = context_mgr_node s" "d_procs s' = d_procs s"
    and refs: "\<And>r. map_option (rf_death_update (\<lambda>_. None)) (d_refs s' r) = map_option (rf_death_update (\<lambda>_. None)) (d_refs s r)"
    and dt: "\<And>r rf. d_refs s' r = Some rf \<Longrightarrow> death_ok s' rf" "deaths_ok s'" and w: "work_ok s'"
  shows "graph_ok s'"
proof -
  have f: "map_option rf_node (d_refs s' r) = map_option rf_node (d_refs s r)" "map_option rf_proc (d_refs s' r) = map_option rf_proc (d_refs s r)"
    "map_option rf_desc (d_refs s' r) = map_option rf_desc (d_refs s r)" "map_option rf_strong (d_refs s' r) = map_option rf_strong (d_refs s r)"
    "map_option rf_weak (d_refs s' r) = map_option rf_weak (d_refs s r)" for r
    using arg_cong [OF refs [of r], of "map_option rf_node"] arg_cong [OF refs [of r], of "map_option rf_proc"]
      arg_cong [OF refs [of r], of "map_option rf_desc"] arg_cong [OF refs [of r], of "map_option rf_strong"]
      arg_cong [OF refs [of r], of "map_option rf_weak"] by (simp_all add: option.map_comp comp_def)
  have as_map: "refs_to x a = {r. map_option rf_node (d_refs x r) = Some a}" "proc_refs x p = {r. map_option rf_proc (d_refs x r) = Some p}"
    "strong_in x r \<longleftrightarrow> (\<exists>k. map_option rf_strong (d_refs x r) = Some k \<and> 0 < k)" for x a p r
    by (auto simp: refs_to_def proc_refs_def strong_in_def)
  have sets: "refs_to s' = refs_to s" "proc_refs s' = proc_refs s" "strong_in s' = strong_in s" "key_desc s' = key_desc s" "key_node s' = key_node s"
    unfolding fun_eq_iff as_map key_desc_def key_node_def f by simp_all
  have sets2: "proc_nodes s' = proc_nodes s" "key_ptr s' = key_ptr s" using same(1) by (auto simp: proc_nodes_def key_ptr_def fun_eq_iff)
  have "node_ok s' a n = node_ok s a n" for a n by (simp only: node_ok_def counts_ok_def same sets)
  moreover have "proc_ok s' p pr = proc_ok s p pr" for p pr using sets sets2 by (simp add: proc_ok_def)
  moreover have "ref_ok s' rf" if r: "d_refs s' r = Some rf" for r rf
  proof -
    obtain rf0 where "d_refs s r = Some rf0" "rf_node rf0 = rf_node rf" "rf_proc rf0 = rf_proc rf" "rf_desc rf0 = rf_desc rf"
      "rf_strong rf0 = rf_strong rf" "rf_weak rf0 = rf_weak rf" using f [of r] r by (cases "d_refs s r") auto
    then show ?thesis using graph_okD(2) [OF ok, of r rf0] dt(1) [OF r] same by (simp add: ref_ok_def)
  qed
  moreover have "roots_ok s'" using graph_okD(6) [OF ok] same by (simp add: roots_ok_def)
  ultimately show ?thesis using graph_okD(1,3) [OF ok] dt(2) w same by (simp add: graph_ok_def)
qed

lemma death_ok_other:
  assumes "death_ok s rf" and "map_option nd_proc (d_nodes s' (rf_node rf)) = map_option nd_proc (d_nodes s (rf_node rf))"
    and "\<And>d. rf_death rf = Some d \<Longrightarrow> d_deaths s' d = d_deaths s d \<and> (queued (WDeath d) s' \<longrightarrow> queued (WDeath d) s)"
  shows "death_ok s' rf"
  using assms unfolding death_ok_def by metis

lemma put_death_simps [simp]:
  "d_deaths (put_death d x s) = (d_deaths s)(d \<mapsto> x)" "d_procs (put_death d x s) = d_procs s" "d_nodes (put_death d x s) = d_nodes s"
  "d_refs (put_death d x s) = d_refs s" "d_threads (put_death d x s) = d_threads s" "d_work (put_death d x s) = d_work s"
  "dead_nodes (put_death d x s) = dead_nodes s" "context_mgr_node (put_death d x s) = context_mgr_node s"
  by (simp_all add: put_death_def)

lemma queued_simps:
  "queued w (put_death d x s) = queued w s" "queued w (list_add_tail v l s) \<longleftrightarrow> w = v \<or> queued w s" "queued w (put_ref r y s) = queued w s"
  by (auto simp: queued_def)

text \<open>Queueing a notification that is on no list.\<close>

lemma work_ok_death:
  assumes "work_ok s" "\<not> queued (WDeath d) s" "d_work s' = d_work s \<or> d_work s' = d_work s @ [(l, WDeath d)]" "d_threads s' = d_threads s" "d_nodes s' = d_nodes s"
    and "\<And>e. d_deaths s e \<noteq> None \<Longrightarrow> d_deaths s' e \<noteq> None" "d_deaths s' d \<noteq> None"
  shows "work_ok s'"
proof -
  have "owned s' k a = owned s k a" for k a by (rule owned_cong) (use assms(4,5) in simp_all)
  then show ?thesis using assms by (fastforce simp: work_ok_def queued_def)
qed

lemma request_death_ok:
  assumes kz: "kz_fresh (k_kz K)" and ok: "graph_ok s" and r: "d_refs s r = Some rf" and t: "d_threads s th = Some t"
  shows "\<exists>s'. request_death K p th r cookie s = Some s' \<and> graph_ok s' \<and> kept s s'"
proof (cases "rf_death rf = None")
  case False
  then show ?thesis using ok r t by (simp add: request_death_def)
next
  case none: True
  obtain n where n: "d_nodes s (rf_node rf) = Some n" using graph_okD(2) [OF ok r] by (auto simp: ref_ok_def)
  show ?thesis
  proof (cases "k_kz K s")
    case None
    have "graph_ok (put_thread th (t\<lparr>return_error := BR_ERROR\<rparr>) s)"
      by (rule graph_ok_frame [OF ok same_graph_puts(2) [OF t]]) simp_all
    then show ?thesis using None none r t by (simp add: request_death_def)
  next
    case (Some d)
    then have fresh: "d_deaths s d = None" using kz by (simp add: kz_fresh_def)
    then have nq: "\<not> queued (WDeath d) s" using graph_okD(5) [OF ok] by (auto simp: work_ok_def)
    define dt where "dt = \<lparr>dt_cookie = cookie, dt_type = if nd_proc n = None then DEAD_BINDER else NO_DEATH_WORK\<rparr>"
    define s1 where "s1 = put_ref r (rf\<lparr>rf_death := Some d\<rparr>) (put_death d dt s)"
    define s2 where "s2 = (if nd_proc n = None then list_add_tail (WDeath d) (death_list p th t) s1 else s1)"
    have other: "rf_death x \<noteq> Some d" if "d_refs s i = Some x" for i x
      using graph_okD(2) [OF ok that] fresh by (auto simp: ref_ok_def death_ok_def)
    have f: "d_nodes s2 = d_nodes s" "dead_nodes s2 = dead_nodes s" "context_mgr_node s2 = context_mgr_node s" "d_procs s2 = d_procs s"
      "d_refs s2 = (d_refs s)(r \<mapsto> rf\<lparr>rf_death := Some d\<rparr>)" "d_threads s2 = d_threads s" "d_deaths s2 = (d_deaths s)(d \<mapsto> dt)"
      by (simp_all add: s2_def s1_def list_add_tail_def)
    have q: "queued w s2 \<longleftrightarrow> w = WDeath d \<and> nd_proc n = None \<or> queued w s" for w by (auto simp: s2_def s1_def queued_simps)
    have g: "graph_ok s2"
    proof (rule graph_ok_deaths [OF ok f(1-4)])
      show "map_option (rf_death_update (\<lambda>_. None)) (d_refs s2 i) = map_option (rf_death_update (\<lambda>_. None)) (d_refs s i)" for i
        using r by (simp add: f)
      show "death_ok s2 x" if x: "d_refs s2 i = Some x" for i x
      proof (cases "i = r")
        case True
        then show ?thesis using x n nq by (auto simp: f death_ok_def q dt_def)
      next
        case False
        then have y: "d_refs s i = Some x" using x by (simp add: f)
        show ?thesis
          by (rule death_ok_other [of s]) (use graph_okD(2) [OF ok y] other [OF y] in \<open>auto simp: ref_ok_def f q\<close>)
      qed
      show "deaths_ok s2" using graph_okD(4) [OF ok] other by (auto simp: deaths_ok_def f split: if_splits)
      show "work_ok s2"
        by (rule work_ok_death [OF graph_okD(5) [OF ok] nq]) (auto simp: f s2_def s1_def)
    qed
    moreover have "request_death K p th r cookie s = Some s2"
      using none r t n Some by (auto simp: request_death_def s2_def s1_def dt_def put_ref_def put_death_def list_add_tail_def)
    moreover have "kept s s2" by (simp add: s2_def s1_def)
    ultimately show ?thesis by blast
  qed
qed

text \<open>A notification that no reference has any more can be retyped and queued.\<close>

lemma retype_death_ok:
  assumes ok: "graph_ok s" and d: "d_deaths s d = Some dt" and free: "\<And>r rf. d_refs s r = Some rf \<Longrightarrow> rf_death rf \<noteq> Some d"
  shows "graph_ok (put_death d dt' s)" "\<not> queued (WDeath d) s \<Longrightarrow> graph_ok (list_add_tail (WDeath d) l (put_death d dt' s))"
proof -
  have dk: "death_ok s x" if "d_refs s i = Some x" for i x using graph_okD(2) [OF ok that] by (simp add: ref_ok_def)
  have t: "d_deaths s e \<noteq> None \<Longrightarrow> ((d_deaths s)(d \<mapsto> dt')) e \<noteq> None" for e by auto
  show "graph_ok (put_death d dt' s)"
  proof (rule graph_ok_deaths [OF ok])
    show "death_ok (put_death d dt' s) x" if "d_refs (put_death d dt' s) i = Some x" for i x
      using that by (intro death_ok_other [OF dk [of i x]]) (auto simp: queued_simps free)
    show "work_ok (put_death d dt' s)" by (rule work_ok_cong [OF graph_okD(5) [OF ok]]) auto
  qed (use graph_okD(4) [OF ok] in \<open>auto simp: deaths_ok_def\<close>)
  show "graph_ok (list_add_tail (WDeath d) l (put_death d dt' s))" if nq: "\<not> queued (WDeath d) s"
  proof (rule graph_ok_deaths [OF ok])
    let ?s = "list_add_tail (WDeath d) l (put_death d dt' s)"
    show "death_ok ?s x" if "d_refs ?s i = Some x" for i x
      using that free by (intro death_ok_other [OF dk [of i x]]) (auto simp: queued_simps)
    show "work_ok ?s" by (rule work_ok_death [OF graph_okD(5) [OF ok] nq]) (use t in auto)
  qed (use graph_okD(4) [OF ok] in \<open>auto simp: deaths_ok_def\<close>)
qed

lemma forget_death_ok:
  assumes ok: "graph_ok s" and r: "d_refs s r = Some rf"
  shows "graph_ok (put_ref r (rf\<lparr>rf_death := None\<rparr>) s)"
proof (rule graph_ok_deaths [OF ok])
  let ?s = "put_ref r (rf\<lparr>rf_death := None\<rparr>) s"
  show "map_option (rf_death_update (\<lambda>_. None)) (d_refs ?s i) = map_option (rf_death_update (\<lambda>_. None)) (d_refs s i)" for i using r by simp
  show "death_ok ?s x" if "d_refs ?s i = Some x" for i x
  proof (cases "i = r")
    case True
    then show ?thesis using that by (auto simp: death_ok_def)
  next
    case False
    then have "death_ok s x" using that graph_okD(2) [OF ok, of i x] by (simp add: ref_ok_def)
    then show ?thesis by (rule death_ok_other) (simp_all add: queued_simps)
  qed
  show "work_ok ?s" by (rule work_ok_cong [OF graph_okD(5) [OF ok]]) auto
qed (use graph_okD(4) [OF ok] in \<open>auto simp: deaths_ok_def\<close>)

lemma clear_death_ok:
  assumes ok: "graph_ok s" and r: "d_refs s r = Some rf" and t: "d_threads s th = Some t"
  shows "\<exists>s'. clear_death p th r cookie s = Some s' \<and> graph_ok s' \<and> kept s s'"
proof (cases "rf_death rf")
  case None
  then show ?thesis using ok r t by (simp add: clear_death_def)
next
  case (Some d)
  have dk: "death_ok s rf" using graph_okD(2) [OF ok r] by (simp add: ref_ok_def)
  then obtain dt where dt: "d_deaths s d = Some dt" "\<not> queued (WDeath d) s \<or> dt_type dt = DEAD_BINDER"
    using Some by (auto simp: death_ok_def)
  let ?s = "put_ref r (rf\<lparr>rf_death := None\<rparr>) s"
  have free: "rf_death x \<noteq> Some d" if "d_refs ?s i = Some x" for i x
  proof (cases "i = r")
    case True
    then show ?thesis using that by auto
  next
    case False
    then have "d_refs s i = Some x" using that by simp
    then show ?thesis using graph_okD(4) [OF ok] r Some False unfolding deaths_ok_def by metis
  qed
  note re = retype_death_ok [OF forget_death_ok [OF ok r], of d dt, OF _ free]
  show ?thesis
  proof (cases "dt_cookie dt = cookie")
    case False
    then show ?thesis using ok r t Some dt by (simp add: clear_death_def)
  next
    case True
    then show ?thesis
      using ok r t Some dt re by (cases "queued (WDeath d) s") (simp_all add: clear_death_def Let_def queued_simps)
  qed
qed

text \<open>Only notifications are on the list of those delivered.\<close>

definition delivered_ok :: "drv \<Rightarrow> bool" where
  "delivered_ok s \<longleftrightarrow> (\<forall>p w. (Delivered p, w) \<in> set (d_work s) \<longrightarrow> (\<exists>d. w = WDeath d))"

lemma delivered_kept: "delivered_ok s \<Longrightarrow> kept s s' \<Longrightarrow> graph_ok s' \<Longrightarrow> delivered_ok s'"
  unfolding delivered_ok_def kept_def graph_ok_def work_ok_def owned_def by fastforce

lemma find_death_ok:
  assumes "\<forall>w\<in>set ws. \<exists>d. w = WDeath d \<and> d_deaths s d \<noteq> None"
  shows "\<exists>r. find_death s cookie ws = Some r \<and> (\<forall>d. r = Some d \<longrightarrow> WDeath d \<in> set ws)"
  using assms by (induction ws) auto

lemma write_death_done_ok:
  assumes ok: "graph_ok s" and dl: "delivered_ok s" and t: "d_threads s th = Some t"
  shows "\<exists>s'. write_death_done p th cookie s = Some s' \<and> graph_ok s' \<and> kept s s'"
proof -
  have on: "(Delivered p, w) \<in> set (d_work s)" if "w \<in> set (work_on (Delivered p) s)" for w using that by (auto simp: work_on_def)
  have ex: "d_deaths s d \<noteq> None" if "(l, WDeath d) \<in> set (d_work s)" for l d
    using that graph_okD(5) [OF ok] unfolding work_ok_def queued_def by force
  obtain r where r: "find_death s cookie (work_on (Delivered p) s) = Some r" "\<forall>d. r = Some d \<longrightarrow> WDeath d \<in> set (work_on (Delivered p) s)"
    using find_death_ok [of "work_on (Delivered p) s" s cookie] on ex dl unfolding delivered_ok_def by blast
  show ?thesis
  proof (cases r)
    case None
    then show ?thesis using r t ok by (simp add: write_death_done_def)
  next
    case (Some d)
    obtain dt where dt: "d_deaths s d = Some dt" using ex [OF on] r(2) Some by blast
    let ?s = "list_del_work (WDeath d) s"
    have g: "graph_ok ?s" by (rule graph_ok_del_work [OF ok])
    show ?thesis
    proof (cases "dt_type dt = DEAD_BINDER_AND_CLEAR")
      case True
      have free: "rf_death x \<noteq> Some d" if "d_refs ?s i = Some x" for i x
        using graph_okD(2) [OF ok, of i x] that dt True by (auto simp: ref_ok_def death_ok_def)
      have "\<not> queued (WDeath d) ?s" by (auto simp: queued_def list_del_work_def)
      then show ?thesis using retype_death_ok(2) [OF g, of d dt, OF _ free] True r Some t dt
        by (simp add: write_death_done_def)
    next
      case False
      then show ?thesis using g r Some t dt by (simp add: write_death_done_def)
    qed
  qed
qed

section \<open>A write\<close>

text \<open>The commands that are not messages and do not free a buffer.\<close>

definition ref_cmd :: "bc \<Rightarrow> bool" where
  "ref_cmd c \<longleftrightarrow> c \<notin> {BC_FREE_BUFFER, BC_TRANSACTION, BC_REPLY}"

lemma write_looper_ok:
  assumes ok: "graph_ok s" and p: "d_procs s p = Some pr" and t: "d_threads s th = Some t"
  shows "\<exists>s'. write_looper p th cmd s = Some s' \<and> graph_ok s' \<and> kept s s'"
proof -
  have A: "graph_ok (put_thread th t' s) \<and> kept s (put_thread th t' s)" if "th_proc t' = th_proc t" for t'
    using graph_ok_frame [OF ok same_graph_puts(2) [OF t that]] t that by simp
  have B: "graph_ok (put_thread th t' (put_proc p pr' s)) \<and> kept s (put_thread th t' (put_proc p pr' s))"
    if "th_proc t' = th_proc t" "proc_trees pr' = proc_trees pr" for t' pr'
  proof -
    have "same_graph s (put_thread th t' (put_proc p pr' s))"
      by (rule same_graph_trans [OF same_graph_puts(3) [OF p that(2)]]) (rule same_graph_puts(2) [of _ _ t], use t that in simp_all)
    then show ?thesis using graph_ok_frame [OF ok] t p that by simp
  qed
  show ?thesis using p t by (simp add: write_looper_def A B proc_trees_def)
qed

lemma write_death_ok:
  assumes kz: "kz_fresh (k_kz K)" and ok: "graph_ok s" and p: "d_procs s p = Some pr" and t: "d_threads s th = Some t"
  shows "\<exists>s'. write_death K p th request handle cookie s = Some s' \<and> graph_ok s' \<and> kept s s'"
proof (rule get_ref_cases [OF ok p, of "uint handle"])
  assume "binder_get_ref s p (uint handle) = Some None"
  then show ?thesis using ok by (simp add: write_death_def)
next
  fix r rf assume r: "binder_get_ref s p (uint handle) = Some (Some r)" "d_refs s r = Some rf"
  show ?thesis
    using request_death_ok [OF kz ok r(2) t, of p cookie] clear_death_ok [OF ok r(2) t, of p cookie] r(1) by (simp add: write_death_def)
qed

lemma write_command_ok:
  assumes rb: "rb_ok (k_rb K)" and kz: "kz_fresh (k_kz K)" and dbg: "\<not> debug_user_refs K" and ok: "graph_ok s" "delivered_ok s"
    and p: "d_procs s p = Some pr" and t: "d_threads s th = Some t" and c: "ref_cmd cmd" and fit: "counts_fit s 1"
  shows "(\<exists>s' r. write_command K um p th cmd a s = Some (s', r) \<and> graph_ok s' \<and> kept s s' \<and> grows 1 s s' \<and> (\<forall>e. r = Inl e \<longrightarrow> e \<in> {-EFAULT, -EINVAL}))
    \<or> write_command K um p th cmd a s = None \<and> null_ref K p s"
proof (cases "cmd \<in> {BC_INCREFS, BC_ACQUIRE, BC_RELEASE, BC_DECREFS}")
  case True
  show ?thesis
  proof (cases "get_word um a")
    case None
    then show ?thesis using True ok(1) by (auto simp: write_command_def intro: grows_same)
  next
    case (Some h)
    have "write_command K um p th cmd a s = map_option (\<lambda>s1. (s1, Inr 4)) (write_ref K p cmd h s)"
      using True Some by (cases "write_ref K p cmd h s") (auto simp: write_command_def)
    then show ?thesis using write_ref_ok [OF rb kz dbg ok(1) p fit, of cmd h] by auto
  qed
next
  case False
  note cases = write_node_done_ok [OF rb dbg ok(1) p] write_looper_ok [OF ok(1) p t] write_death_ok [OF kz ok(1) p t] write_death_done_ok [OF ok t, of p]
  let ?ok = "\<lambda>s'. graph_ok s' \<and> kept s s' \<and> grows 1 s s'"
  obtain nd where nd: "\<And>st x y. write_node_done K p st x y s = Some (nd st x y) \<and> ?ok (nd st x y)" using cases(1) other_grows(3) [OF dbg] by metis
  obtain lp where lp: "write_looper p th cmd s = Some lp \<and> ?ok lp" using cases(2) other_grows(1) by metis
  obtain dh where dh: "\<And>q h y. write_death K p th q h y s = Some (dh q h y) \<and> ?ok (dh q h y)" using cases(3) other_grows(2) by metis
  obtain dd where dd: "\<And>y. write_death_done p th y s = Some (dd y) \<and> ?ok (dd y)" using cases(4) death_grows(3) by metis
  have "grows 1 s s" by (simp add: grows_same)
  then have "\<exists>s' r. write_command K um p th cmd a s = Some (s', r) \<and> ?ok s' \<and> (\<forall>e. r = Inl e \<longrightarrow> e \<in> {-EFAULT, -EINVAL})"
    using c False ok(1) nd lp dh dd unfolding ref_cmd_def
    by (cases cmd) (auto simp: write_command_def split: option.splits)
  then show ?thesis by blast
qed

text \<open>A buffer in which no word reads as one of the other commands.\<close>

definition ref_commands :: "(bc \<Rightarrow> u32) \<Rightarrow> (u32 \<Rightarrow> u8 option) \<Rightarrow> bool" where
  "ref_commands code um \<longleftrightarrow> (\<forall>a w c. get_word um a = Some w \<longrightarrow> bc_of code w = Some c \<longrightarrow> ref_cmd c)"

lemma kept_alive: "kept s s' \<Longrightarrow> d_procs s p \<noteq> None \<Longrightarrow> d_procs s' p \<noteq> None" "kept s s' \<Longrightarrow> d_threads s th \<noteq> None \<Longrightarrow> d_threads s' th \<noteq> None"
  unfolding kept_def by (metis domIff) (metis option.map_disc_iff)

lemma write_loop_ok:
  assumes rb: "rb_ok (k_rb K)" and kz: "kz_fresh (k_kz K)" and dbg: "\<not> debug_user_refs K" and um: "ref_commands code um"
  shows "graph_ok s \<Longrightarrow> delivered_ok s \<Longrightarrow> counts_fit s (sz - consumed) \<Longrightarrow> d_procs s p \<noteq> None \<Longrightarrow> d_threads s th \<noteq> None
    \<Longrightarrow> (\<exists>s' n ret. binder_thread_write K code um p th buffer sz consumed s = Some (s', n, ret) \<and> graph_ok s' \<and> delivered_ok s' \<and> kept s s'
        \<and> consumed \<le> n \<and> ret \<in> {0, -EFAULT, -EINVAL})
      \<or> binder_thread_write K code um p th buffer sz consumed s = None \<and> (\<exists>u. graph_ok u \<and> kept s u \<and> null_ref K p u)"
proof (induction "sz - consumed" arbitrary: consumed s rule: less_induct)
  case less
  obtain t where t: "d_threads s th = Some t" using less.prems by blast
  obtain pr where p: "d_procs s p = Some pr" using less.prems by blast
  show ?case
  proof (cases "consumed < sz \<and> return_error t = BR_OK")
    case False
    then have "binder_thread_write K code um p th buffer sz consumed s = Some (s, consumed, 0)"
      using t by (subst binder_thread_write.simps) auto
    then show ?thesis using less.prems by simp
  next
    case True
    consider "get_word um (buffer + of_nat consumed) = None" | w where "get_word um (buffer + of_nat consumed) = Some w" "bc_of code w = None"
      | w cmd where "get_word um (buffer + of_nat consumed) = Some w" "bc_of code w = Some cmd" by fastforce
    then show ?thesis
    proof cases
      case 1
      then have "binder_thread_write K code um p th buffer sz consumed s = Some (s, consumed, -EFAULT)"
        using t True by (subst binder_thread_write.simps) auto
      then show ?thesis using less.prems by simp
    next
      case 2
      then have "binder_thread_write K code um p th buffer sz consumed s = Some (s, consumed, -EINVAL)"
        using t True by (subst binder_thread_write.simps) auto
      then show ?thesis using less.prems by simp
    next
      case 3
      then have c: "ref_cmd cmd" using um by (auto simp: ref_commands_def)
      have "counts_fit s 1" by (rule fit_less [OF less.prems(3)]) (use True in auto)
      from write_command_ok [OF rb kz dbg less.prems(1,2) p t c this, of um "buffer + of_nat consumed + 4"]
      consider (null) "write_command K um p th cmd (buffer + of_nat consumed + 4) s = None" "null_ref K p s"
        | (good) s1 r where "write_command K um p th cmd (buffer + of_nat consumed + 4) s = Some (s1, r)" "graph_ok s1" "kept s s1" "grows 1 s s1"
          "\<forall>e. r = Inl e \<longrightarrow> e \<in> {-EFAULT, -EINVAL}" by (elim disjE exE conjE) (rule that, assumption+)+
      then show ?thesis
      proof cases
        case null
        have "binder_thread_write K code um p th buffer sz consumed s = None"
          using t True 3 null(1) by (subst binder_thread_write.simps) simp
        then show ?thesis using null(2) less.prems(1) kept_refl by blast
      next
        case good
        have dl: "delivered_ok s1" by (rule delivered_kept [OF less.prems(2) good(3,2)])
        have eq: "binder_thread_write K code um p th buffer sz consumed s = (case r of Inl e \<Rightarrow> Some (s1, consumed, e)
            | Inr k \<Rightarrow> binder_thread_write K code um p th buffer sz (consumed + 4 + k) s1)"
          using t True 3 good(1) by (subst binder_thread_write.simps) simp
        show ?thesis
        proof (cases r)
          case (Inl e)
          then show ?thesis using eq good dl by auto
        next
          case (Inr k)
          have lt: "sz - (consumed + 4 + k) < sz - consumed" using True by arith
          have fit: "counts_fit s1 (sz - (consumed + 4 + k))" by (rule fit_grows [OF less.prems(3) good(4) lt])
          from less.hyps [OF lt good(2) dl fit kept_alive(1) [OF good(3) less.prems(4)] kept_alive(2) [OF good(3) less.prems(5)]]
          show ?thesis
          proof (elim disjE exE conjE)
            fix s' n ret assume r: "binder_thread_write K code um p th buffer sz (consumed + 4 + k) s1 = Some (s', n, ret)"
              "graph_ok s'" "delivered_ok s'" "kept s1 s'" "consumed + 4 + k \<le> n" "ret \<in> {0, -EFAULT, -EINVAL}"
            have "consumed \<le> n" using r(5) by simp
            then show ?thesis unfolding eq Inr sum.case r(1) using r(2,3,6) kept_trans [OF good(3) r(4)] by blast
          next
            fix u assume u: "binder_thread_write K code um p th buffer sz (consumed + 4 + k) s1 = None" "graph_ok u" "kept s1 u" "null_ref K p u"
            show ?thesis unfolding eq Inr sum.case u(1) using u(2,4) kept_trans [OF good(3) u(3)] by blast
          qed
        qed
      qed
    qed
  qed
qed


text \<open>
  C16. A process has one handle for a node: asking again returns the same
  reference and changes nothing. A new reference gets the smallest handle that the
  process does not use, 0 being kept for the context manager's node; the graph
  stays sound.
\<close>

theorem handle_is_least_unused:
  assumes "rb_ok rb" and "kz_fresh kz" and "graph_ok s" and "d_procs s p = Some pr" and "d_nodes s a = Some n"
  shows "\<exists>s' r. binder_get_ref_for_node rb kz s p a = Some (s', r) \<and> graph_ok s' \<and> (r = None \<longrightarrow> s' = s)
    \<and> (\<forall>x. r = Some x \<longrightarrow> (\<exists>rf. d_refs s' x = Some rf \<and> rf_proc rf = p \<and> rf_node rf = a
        \<and> (if d_refs s x = None then least_unused (if context_mgr_node s = Some a then 0 else 1) (descs s p) (rf_desc rf) else s' = s)))"
  by (rule get_ref_for_node_ok [OF assms])

section \<open>An instance\<close>

text \<open>Memory is given out above every address in use.\<close>

definition used :: "drv \<Rightarrow> int set" where
  "used s = dom (d_nodes s) \<union> dom (d_refs s) \<union> dom (d_deaths s) \<union> {a. WNode a \<in> snd ` set (d_work s)} \<union> set_option (context_mgr_node s) \<union> set (dead_nodes s)"

definition above_all :: kz_fn where
  "above_all s = (if fin s then Some (Max (insert 0 (used s)) + 1) else None)"

lemma used_finite: "fin s \<Longrightarrow> finite (used s)"
proof -
  assume f: "fin s"
  have "{a. WNode a \<in> snd ` set (d_work s)} = WNode -` (snd ` set (d_work s))" by auto
  moreover have "finite (WNode -` (snd ` set (d_work s)))" by (rule finite_vimageI) (auto simp: inj_def)
  ultimately show ?thesis using f by (simp add: used_def fin_def)
qed

lemma above_all_fresh: "kz_fresh above_all"
proof -
  have "a \<notin> used s" if "above_all s = Some a" for s a
  proof
    assume a: "a \<in> used s"
    have f: "fin s" "a = Max (insert 0 (used s)) + 1" using that by (auto simp: above_all_def split: if_splits)
    then show False using Max_ge [of "insert 0 (used s)" a] used_finite [OF f(1)] a by simp
  qed
  then show "kz_fresh above_all" unfolding kz_fresh_def used_def by (fastforce simp: domIff)
qed

lemma quiet_sets:
  "refs_to quiet_drv a = (if a = 300 then {500} else {})" "proc_refs quiet_drv p = (if p = 101 then {500} else {})"
  "proc_nodes quiet_drv p = (if p = 100 then {300} else {})" "strong_in quiet_drv r = (r = 500)"
  by (auto simp: quiet_maps demo_maps refs_to_def proc_refs_def proc_nodes_def strong_in_def demo_node_def new_node_def split: if_splits)

lemma quiet_graph: "graph_ok quiet_drv"
proof -
  have "node_ok quiet_drv a n" if "d_nodes quiet_drv a = Some n" for a n
    using that by (auto simp: node_ok_def counts_ok_def quiet_sets quiet_maps demo_node_def new_node_def split: if_splits)
  moreover have "ref_ok quiet_drv rf" if "d_refs quiet_drv r = Some rf" for r rf
    using that by (auto simp: ref_ok_def death_ok_def quiet_maps demo_maps split: if_splits)
  moreover have "proc_ok quiet_drv p pr" if "d_procs quiet_drv p = Some pr" for p pr
    using that by (auto simp: proc_ok_def index_of_def quiet_sets quiet_maps demo_maps demo_proc_def key_ptr_def key_desc_def key_node_def split: if_splits)
  moreover have "deaths_ok quiet_drv" "work_ok quiet_drv" "roots_ok quiet_drv"
    by (auto simp: deaths_ok_def work_ok_def roots_ok_def quiet_maps demo_maps queued_def)
  ultimately show ?thesis by (simp add: graph_ok_def)
qed

definition demo_code :: "bc \<Rightarrow> u32" where
  "demo_code c = (if c = BC_ACQUIRE then 1 else if c = BC_FREE_BUFFER then 2 else if c = BC_TRANSACTION then 3 else if c = BC_REPLY then 4 else 5)"

text \<open>\<open>BC_ACQUIRE\<close> of handle 1.\<close>

definition acquire_mem :: "u32 \<Rightarrow> u8 option" where
  "acquire_mem a = Some (if a = 0 \<or> a = 4 then 1 else 0)"

lemma acquire_words: "ref_commands demo_code acquire_mem"
proof -
  have w: "w \<noteq> 2 \<and> w \<noteq> 3 \<and> w \<noteq> 4" if "get_word acquire_mem a = Some w" for a w
    using that by (auto simp: get_word_def acquire_mem_def mk32_def split: if_splits)
  have "demo_code c = w" if "bc_of demo_code w = Some c" for c w using that by (auto simp: bc_of_def find_Some_iff)
  then show ?thesis using w unfolding ref_commands_def ref_cmd_def by (fastforce simp: demo_code_def)
qed

text \<open>As long as there are finitely many structures there is memory.\<close>

lemma null_ref_above:
  assumes "k_kz K = above_all" and "fin s"
  shows "\<not> null_ref K p s"
proof -
  have y: "above_all s = Some (Max (insert 0 (used s)) + 1)" using assms(2) by (simp add: above_all_def)
  show ?thesis unfolding null_ref_def assms(1) using get_ref_for_node_gives [of above_all, OF y] by blast
qed


theorem handle_is_least_unused_witness:
  "\<exists>s' x rf. binder_get_ref_for_node plain_trees above_all quiet_drv 100 300 = Some (s', Some x) \<and> graph_ok s' \<and> d_refs s' x = Some rf \<and> rf_desc rf = 1"
proof -
  obtain s' r where g: "binder_get_ref_for_node plain_trees above_all quiet_drv 100 300 = Some (s', r)" "graph_ok s'"
    "\<forall>x. r = Some x \<longrightarrow> (\<exists>rf. d_refs s' x = Some rf \<and> rf_proc rf = 100 \<and> rf_node rf = 300
      \<and> (if d_refs quiet_drv x = None then least_unused (if context_mgr_node quiet_drv = Some 300 then 0 else 1) (descs quiet_drv 100) (rf_desc rf) else s' = quiet_drv))"
    using handle_is_least_unused [OF plain_trees_ok above_all_fresh quiet_graph, of 100 "(demo_proc 10 (Node Leaf 300 Leaf) Leaf)\<lparr>p_space := demo0\<rparr>"
        300 "demo_node\<lparr>local_strong_refs := 0\<rparr>"] by (auto simp: quiet_maps)
  have "above_all quiet_drv = Some (Max (insert 0 (used quiet_drv)) + 1)" by (simp add: above_all_def fin_def quiet_maps demo_maps)
  then obtain x where x: "r = Some x" using get_ref_for_node_gives [OF _ g(1)] by blast
  then obtain rf where rf: "d_refs s' x = Some rf" "rf_proc rf = 100"
    "if d_refs quiet_drv x = None then least_unused (if context_mgr_node quiet_drv = Some 300 then 0 else 1) (descs quiet_drv 100) (rf_desc rf) else s' = quiet_drv"
    using g(3) by blast
  have "d_refs quiet_drv x = None" using rf by (auto simp: quiet_maps demo_maps split: if_splits)
  moreover have "descs quiet_drv 100 = {}" by (auto simp: descs_def quiet_maps demo_maps split: if_splits)
  ultimately have "least_unused 1 {} (rf_desc rf)" using rf(3) by (simp add: quiet_maps)
  then have "rf_desc rf = 1" unfolding least_unused_def by (metis empty_iff linorder_not_le order_antisym order_refl)
  then show ?thesis using g x rf(1) by auto
qed

end
