(* ===== verification/KernelCtlProps.thy ===== *)
theory KernelCtlProps
  imports KernelWriteProps
begin

text \<open>
  The end of a node and the context manager: when the owner of a node goes away,
  everyone who asked is told, and the graph of nodes and references stays sound.
\<close>

section \<open>Everyone is told\<close>

text \<open>The processes and notifications of some references, in order.\<close>

definition asked :: "drv \<Rightarrow> int list \<Rightarrow> (int \<times> int) list" where
  "asked s rs = concat (map (\<lambda>r. case d_refs s r of None \<Rightarrow> []
     | Some rf \<Rightarrow> (case rf_death rf of None \<Rightarrow> [] | Some d \<Rightarrow> [(rf_proc rf, d)])) rs)"

definition told :: "(int \<times> int) list \<Rightarrow> drv \<Rightarrow> drv" where
  "told as s = s\<lparr>d_work := d_work s @ map (\<lambda>(p, d). (ProcTodo p, WDeath d)) as,
     d_deaths := (\<lambda>e. if e \<in> snd ` set as then map_option (dt_type_update (\<lambda>_. DEAD_BINDER)) (d_deaths s e) else d_deaths s e)\<rparr>"

lemma told_nil [simp]: "told [] s = s"
  by (simp add: told_def)

lemma told_cons:
  assumes "d_deaths s d = Some dt" and "d \<notin> snd ` set as"
  shows "told as (list_add_tail (WDeath d) (ProcTodo p) (put_death d (dt\<lparr>dt_type := DEAD_BINDER\<rparr>) s)) = told ((p, d) # as) s"
  using assms by (auto simp: told_def list_add_tail_def put_death_def fun_eq_iff)

lemma notify_deaths_run:
  assumes "\<forall>r\<in>set rs. d_refs s r \<noteq> None" and "distinct (map snd (asked s rs))"
    and "\<forall>d\<in>snd ` set (asked s rs). d_deaths s d \<noteq> None \<and> \<not> queued (WDeath d) s"
  shows "notify_deaths rs s = Some (told (asked s rs) s)"
  using assms
proof (induction rs arbitrary: s)
  case Nil
  then show ?case by (simp add: asked_def)
next
  case (Cons r rs)
  obtain rf where rf: "d_refs s r = Some rf" using Cons.prems(1) by auto
  show ?case
  proof (cases "rf_death rf")
    case None
    then have "asked s (r # rs) = asked s rs" using rf by (simp add: asked_def)
    then show ?thesis using Cons rf None by simp
  next
    case (Some d)
    have e: "asked s (r # rs) = (rf_proc rf, d) # asked s rs" using rf Some by (simp add: asked_def)
    obtain dt where dt: "d_deaths s d = Some dt" "\<not> queued (WDeath d) s" using Cons.prems(3) e by auto
    have new: "d \<notin> snd ` set (asked s rs)" using Cons.prems(2) e by auto
    define s1 where "s1 = list_add_tail (WDeath d) (ProcTodo (rf_proc rf)) (put_death d (dt\<lparr>dt_type := DEAD_BINDER\<rparr>) s)"
    have same: "asked s1 rs = asked s rs" by (simp add: asked_def s1_def)
    have f: "d_refs s1 = d_refs s" "d_deaths s1 = (d_deaths s)(d \<mapsto> dt\<lparr>dt_type := DEAD_BINDER\<rparr>)" "queued w s1 \<longleftrightarrow> w = WDeath d \<or> queued w s" for w
      by (auto simp: s1_def queued_simps)
    have "notify_deaths rs s1 = Some (told (asked s1 rs) s1)"
      by (rule Cons.IH) (use Cons.prems e new in \<open>auto simp: same f image_iff\<close>)
    then have "notify_deaths rs s1 = Some (told ((rf_proc rf, d) # asked s rs) s)"
      unfolding same using told_cons [OF dt(1) new, of "rf_proc rf"] by (simp add: s1_def)
    then show ?thesis using rf Some dt by (simp add: e s1_def)
  qed
qed

section \<open>A node dies\<close>

definition dead_node :: "bnode \<Rightarrow> bnode" where
  "dead_node n = n\<lparr>nd_proc := None, local_strong_refs := 0, local_weak_refs := 0\<rparr>"

text \<open>The node is out of its owner's tree and on the list of dead nodes; whoever asked is told.\<close>

definition node_dies :: "rb_ops \<Rightarrow> int \<Rightarrow> bnode \<Rightarrow> int \<Rightarrow> bproc \<Rightarrow> drv \<Rightarrow> drv" where
  "node_dies rb a n p pr s = told (asked s (nd_refs n)) ((put_node a (dead_node n) (put_proc p (pr\<lparr>p_nodes := rb_erase rb a (p_nodes pr)\<rparr>) s))\<lparr>dead_nodes := a # dead_nodes s\<rparr>)"

lemma asked_iff: "(p, d) \<in> set (asked s rs) \<longleftrightarrow> (\<exists>r\<in>set rs. \<exists>rf. d_refs s r = Some rf \<and> rf_proc rf = p \<and> rf_death rf = Some d)"
proof (induction rs)
  case (Cons r rs)
  then show ?case by (cases "d_refs s r"; cases "rf_death (the (d_refs s r))") (auto simp: asked_def)
qed (simp add: asked_def)

lemma asked_distinct:
  assumes "deaths_ok s" and "distinct rs"
  shows "distinct (map snd (asked s rs))"
  using assms(2)
proof (induction rs)
  case (Cons r rs)
  have "d \<notin> snd ` set (asked s rs)" if r: "d_refs s r = Some rf" "rf_death rf = Some d" for rf d
  proof
    assume "d \<in> snd ` set (asked s rs)"
    then obtain p where "(p, d) \<in> set (asked s rs)" by force
    then obtain r' rf' where "r' \<in> set rs" "d_refs s r' = Some rf'" "rf_death rf' = Some d" by (auto simp: asked_iff)
    then show False using assms(1) r Cons.prems unfolding deaths_ok_def by (metis distinct.simps(2))
  qed
  then show ?case using Cons by (auto simp: asked_def split: option.splits)
qed (simp add: asked_def)

lemma graph_ok_node_dies:
  assumes rb: "rb_ok rb" and ok: "graph_ok s" and n: "d_nodes s a = Some n" and q: "\<not> queued (WNode a) s"
    and ctx: "context_mgr_node s \<noteq> Some a" and p: "nd_proc n = Some p" "d_procs s p = Some pr"
  shows "graph_ok (node_dies rb a n p pr s)"
proof -
  note g = graph_okD [OF ok]
  define as where "as = asked s (nd_refs n)"
  define s' where "s' = node_dies rb a n p pr s"
  have s': "d_nodes s' = (d_nodes s)(a \<mapsto> dead_node n)" "d_refs s' = d_refs s" "dead_nodes s' = a # dead_nodes s" "context_mgr_node s' = context_mgr_node s"
    "d_procs s' = (d_procs s)(p \<mapsto> pr\<lparr>p_nodes := rb_erase rb a (p_nodes pr)\<rparr>)" "d_threads s' = d_threads s"
    "d_work s' = d_work s @ map (\<lambda>(p, d). (ProcTodo p, WDeath d)) as"
    "d_deaths s' = (\<lambda>e. if e \<in> snd ` set as then map_option (dt_type_update (\<lambda>_. DEAD_BINDER)) (d_deaths s e) else d_deaths s e)"
    by (simp_all add: s'_def node_dies_def told_def as_def cong: if_cong)
  have sets: "refs_to s' = refs_to s" "strong_in s' = strong_in s" "proc_refs s' = proc_refs s" "key_desc s' = key_desc s" "key_node s' = key_node s"
    "key_ptr s' = key_ptr s" "\<And>q. proc_nodes s' q = proc_nodes s q - {a}"
    using s' n by (auto simp: refs_to_def strong_in_def proc_refs_def key_desc_def key_node_def key_ptr_def proc_nodes_def fun_eq_iff dead_node_def)
  have na: "node_ok s a n" by (rule g(1) [OF n])
  have refs: "r \<in> set (nd_refs n) \<longleftrightarrow> (\<exists>rf. d_refs s r = Some rf \<and> rf_node rf = a)" for r using na by (auto simp: node_ok_def refs_to_def)
  have mem: "d \<in> snd ` set as \<longleftrightarrow> (\<exists>r rf. d_refs s r = Some rf \<and> rf_node rf = a \<and> rf_death rf = Some d)" for d
  proof -
    have "d \<in> snd ` set as \<longleftrightarrow> (\<exists>i. (i, d) \<in> set as)" by force
    also have "\<dots> \<longleftrightarrow> (\<exists>r\<in>set (nd_refs n). \<exists>rf. d_refs s r = Some rf \<and> rf_death rf = Some d)" unfolding as_def asked_iff by blast
    also have "\<dots> \<longleftrightarrow> (\<exists>r rf. d_refs s r = Some rf \<and> rf_node rf = a \<and> rf_death rf = Some d)"
      unfolding Bex_def refs by (metis option.inject)
    finally show ?thesis .
  qed
  have idle: "(\<exists>dt. d_deaths s d = Some dt) \<and> \<not> queued (WDeath d) s" if d: "d \<in> snd ` set as" for d
  proof -
    obtain r rf where "d_refs s r = Some rf" "rf_node rf = a" "rf_death rf = Some d" using d unfolding mem by blast
    then have "death_ok s rf" "map_option nd_proc (d_nodes s (rf_node rf)) \<noteq> Some None" using g(2) [of r rf] n p by (simp_all add: ref_ok_def)
    then show ?thesis using \<open>rf_death rf = Some d\<close> unfolding death_ok_def by blast
  qed
  have "node_ok s' b m" if m: "d_nodes s' b = Some m" for b m
  proof (cases "b = a")
    case True
    then show ?thesis using na m s' sets ctx by (auto simp: node_ok_def counts_ok_def dead_node_def)
  next
    case False
    then have "node_ok s b m" using g(1) m s' by simp
    then show ?thesis using s' sets p by (auto simp: node_ok_def counts_ok_def split: option.splits)
  qed
  moreover have "proc_ok s' i x" if x: "d_procs s' i = Some x" for i x
  proof (cases "i = p")
    case True
    have ix: "index_of (key_ptr s) (proc_nodes s p) (p_nodes pr)" using g(3) [OF p(2)] by (simp add: proc_ok_def)
    have "a \<in> proc_nodes s p" using n p by (simp add: proc_nodes_def)
    then show ?thesis using index_erase [OF rb ix] g(3) [OF p(2)] x True s' sets by (auto simp: proc_ok_def)
  next
    case False
    then have "proc_nodes s i - {a} = proc_nodes s i" using n p by (auto simp: proc_nodes_def)
    then show ?thesis using g(3) [of i x] x False s' sets by (auto simp: proc_ok_def)
  qed
  moreover have "ref_ok s' rf" if r: "d_refs s r = Some rf" for r rf
  proof -
    have "death_ok s' rf"
    proof (cases "rf_node rf = a")
      case True
      have "\<exists>dt. d_deaths s' d = Some dt \<and> dt_type dt = DEAD_BINDER" if d: "rf_death rf = Some d" for d
      proof -
        have "d \<in> snd ` set as" unfolding mem using r True d by blast
        then show ?thesis using idle [of d] s'(8) by auto
      qed
      moreover have "map_option nd_proc (d_nodes s' (rf_node rf)) = Some None" using True s'(1) by (simp add: dead_node_def)
      ultimately show ?thesis unfolding death_ok_def by blast
    next
      case False
      have "d \<notin> snd ` set as" if d: "rf_death rf = Some d" for d
      proof
        assume "d \<in> snd ` set as"
        then obtain r' rf' where r': "d_refs s r' = Some rf'" "rf_node rf' = a" "rf_death rf' = Some d" unfolding mem by blast
        then have "r = r'" using g(4) r d unfolding deaths_ok_def by blast
        then show False using r r' False by simp
      qed
      then have h: "d_deaths s' d = d_deaths s d \<and> (queued (WDeath d) s' \<longrightarrow> queued (WDeath d) s)" if "rf_death rf = Some d" for d
        using that s' by (force simp: queued_def)
      have "death_ok s rf" using g(2) [OF r] by (simp add: ref_ok_def)
      moreover have "map_option nd_proc (d_nodes s' (rf_node rf)) = map_option nd_proc (d_nodes s (rf_node rf))" using False s'(1) by simp
      ultimately show ?thesis using h by (rule death_ok_other)
    qed
    then show ?thesis using g(2) [OF r] s' by (auto simp: ref_ok_def)
  qed
  moreover have "work_ok s'"
  proof -
    have "distinct (map snd as)" unfolding as_def by (rule asked_distinct [OF g(4)]) (use na in \<open>simp add: node_ok_def\<close>)
    then have "distinct (map snd (map (\<lambda>(p, d). (ProcTodo p, WDeath d)) as))"
      by (induction as) (auto simp: image_iff)
    moreover have "set (map snd (d_work s)) \<inter> set (map snd (map (\<lambda>(p, d). (ProcTodo p, WDeath d)) as)) = {}"
      using idle by (force simp: queued_def)
    ultimately have "distinct (map snd (d_work s'))" using g(5) unfolding s' work_ok_def by simp
    moreover have "owned s' l b" if "(l, WNode b) \<in> set (d_work s')" for l b
    proof -
      have e: "(l, WNode b) \<in> set (d_work s)" using that s' by auto
      then have "b \<noteq> a" using q by (force simp: queued_def)
      moreover have "owned s l b" using e g(5) by (simp add: work_ok_def)
      ultimately show ?thesis using owned_cong [of s' s b l] s' by simp
    qed
    moreover have "d_deaths s' d \<noteq> None" if "queued (WDeath d) s'" for d
      using that g(5) idle s' by (auto simp: queued_def work_ok_def image_iff) 
    ultimately show ?thesis by (simp add: work_ok_def)
  qed
  moreover have "deaths_ok s'" using g(4) s' by (simp add: deaths_ok_def)
  moreover have "roots_ok s'" using g(6) s' n p by (auto simp: roots_ok_def dead_node_def)
  ultimately show ?thesis unfolding s'_def [symmetric] using s' by (simp add: graph_ok_def)
qed

section \<open>The nodes of a process that ends\<close>

definition node_gone :: "rb_ops \<Rightarrow> int \<Rightarrow> bnode \<Rightarrow> int \<Rightarrow> bproc \<Rightarrow> drv \<Rightarrow> drv" where
  "node_gone rb a n p pr s = (let s1 = list_del_work (WNode a) s in
     if nd_refs n = [] then free_node a (put_proc p (pr\<lparr>p_nodes := rb_erase rb a (p_nodes pr)\<rparr>) s1) else node_dies rb a n p pr s1)"

lemma del_put_proc: "list_del_work w (put_proc p x s) = put_proc p x (list_del_work w s)"
  by (simp add: list_del_work_def put_proc_def)

lemma asked_cong: "d_refs s' = d_refs s \<Longrightarrow> asked s' rs = asked s rs"
  by (simp add: asked_def)

lemma node_release_run:
  assumes ok: "graph_ok s" and n: "d_nodes s a = Some n" and p: "nd_proc n = Some p" and async: "work_on (NodeAsync a) s = []"
  shows "binder_node_release K a (put_proc p (pr\<lparr>p_nodes := rb_erase (k_rb K) a (p_nodes pr)\<rparr>) s) = Some (node_gone (k_rb K) a n p pr s)"
proof -
  let ?pr = "pr\<lparr>p_nodes := rb_erase (k_rb K) a (p_nodes pr)\<rparr>"
  define s1 where "s1 = list_del_work (WNode a) s"
  have "work_on (NodeAsync a) (put_proc p ?pr s1) = []" using async by (auto simp: work_on_def s1_def list_del_work_def filter_empty_conv)
  then have rel: "binder_release_work K (NodeAsync a) (list_del_work (WNode a) (put_proc p ?pr s)) = Some (put_proc p ?pr s1)"
    by (simp add: binder_release_work_def del_put_proc s1_def)
  have n1: "d_nodes (put_proc p ?pr s1) a = Some n" using n by (simp add: s1_def)
  show ?thesis
  proof (cases "nd_refs n = []")
    case True
    then show ?thesis using rel n1 by (simp add: binder_node_release_def node_gone_def s1_def Let_def)
  next
    case False
    let ?s2 = "(put_node a (dead_node n) (put_proc p ?pr s1))\<lparr>dead_nodes := a # dead_nodes s1\<rparr>"
    have ok1: "graph_ok s1" unfolding s1_def by (rule graph_ok_del_work [OF ok])
    have na: "node_ok s1 a n" using graph_okD(1) [OF ok1, of a n] n by (simp add: s1_def)
    have same: "asked ?s2 (nd_refs n) = asked s1 (nd_refs n)" by (rule asked_cong) simp
    have refs: "\<exists>rf. d_refs s1 r = Some rf \<and> rf_node rf = a" if "r \<in> set (nd_refs n)" for r using that na by (auto simp: node_ok_def refs_to_def)
    have "notify_deaths (nd_refs n) ?s2 = Some (told (asked ?s2 (nd_refs n)) ?s2)"
    proof (rule notify_deaths_run)
      show "\<forall>r\<in>set (nd_refs n). d_refs ?s2 r \<noteq> None" using refs by auto
      show "distinct (map snd (asked ?s2 (nd_refs n)))"
        unfolding same by (rule asked_distinct [OF graph_okD(4) [OF ok1]]) (use na in \<open>simp add: node_ok_def\<close>)
      show "\<forall>d\<in>snd ` set (asked ?s2 (nd_refs n)). d_deaths ?s2 d \<noteq> None \<and> \<not> queued (WDeath d) ?s2"
      proof
        fix d assume "d \<in> snd ` set (asked ?s2 (nd_refs n))"
        then obtain i where "(i, d) \<in> set (asked s1 (nd_refs n))" unfolding same by force
        then obtain r rf where r: "r \<in> set (nd_refs n)" "d_refs s1 r = Some rf" "rf_death rf = Some d" by (auto simp: asked_iff)
        have "rf_node rf = a" using refs [OF r(1)] r(2) by simp
        then have "death_ok s1 rf" "map_option nd_proc (d_nodes s1 (rf_node rf)) \<noteq> Some None"
          using graph_okD(2) [OF ok1 r(2)] n p by (simp_all add: ref_ok_def s1_def)
        then have "d_deaths s1 d \<noteq> None \<and> \<not> queued (WDeath d) s1" using r(3) unfolding death_ok_def by blast
        then show "d_deaths ?s2 d \<noteq> None \<and> \<not> queued (WDeath d) ?s2" by (simp add: queued_def)
      qed
    qed
    then have "notify_deaths (nd_refs n) ?s2 = Some (told (asked s1 (nd_refs n)) ?s2)" unfolding same .
    then show ?thesis using False rel n1
      by (simp add: binder_node_release_def node_gone_def node_dies_def dead_node_def s1_def Let_def)
  qed
qed

lemma node_gone_ok:
  assumes rb: "rb_ok rb" and ok: "graph_ok s" and n: "d_nodes s a = Some n" and p: "nd_proc n = Some p" "d_procs s p = Some pr"
    and ctx: "context_mgr_node s \<noteq> Some a"
  shows "graph_ok (node_gone rb a n p pr s)"
proof -
  let ?s = "list_del_work (WNode a) s"
  have ok1: "graph_ok ?s" by (rule graph_ok_del_work [OF ok])
  show ?thesis
    using graph_ok_free_live [OF rb ok1, of a n p pr] graph_ok_node_dies [OF rb ok1, of a n p pr] n p ctx
    by (simp add: node_gone_def Let_def)
qed

lemma node_gone_frame:
  assumes "node_ok s a n"
  shows "d_refs (node_gone rb a n p pr s) = d_refs s" "d_procs (node_gone rb a n p pr s) = (d_procs s)(p \<mapsto> pr\<lparr>p_nodes := rb_erase rb a (p_nodes pr)\<rparr>)"
    "context_mgr_node (node_gone rb a n p pr s) = context_mgr_node s" "b \<noteq> a \<Longrightarrow> d_nodes (node_gone rb a n p pr s) b = d_nodes s b"
    "d_nodes (node_gone rb a n p pr s) a = (if nd_refs n = [] then None else Some (dead_node n))"
    "(l, WDeath d) \<in> set (d_work s) \<Longrightarrow> (l, WDeath d) \<in> set (d_work (node_gone rb a n p pr s))"
    "work_on (NodeAsync b) s = [] \<Longrightarrow> work_on (NodeAsync b) (node_gone rb a n p pr s) = []"
    "d_deaths (node_gone rb a n p pr s) d = d_deaths s d \<or> map_option dt_type (d_deaths (node_gone rb a n p pr s) d) = map_option (\<lambda>_. DEAD_BINDER) (d_deaths s d)"
    "d_refs s r = Some rf \<Longrightarrow> rf_node rf = a \<Longrightarrow> rf_death rf = Some d
      \<Longrightarrow> (ProcTodo (rf_proc rf), WDeath d) \<in> set (d_work (node_gone rb a n p pr s))
        \<and> map_option dt_type (d_deaths (node_gone rb a n p pr s) d) = map_option (\<lambda>_. DEAD_BINDER) (d_deaths s d)"
proof -
  let ?s = "list_del_work (WNode a) s"
  have as: "asked ?s (nd_refs n) = asked s (nd_refs n)" by (rule asked_cong) simp
  have w: "d_work ?s = filter (\<lambda>e. snd e \<noteq> WNode a) (d_work s)" by (simp add: list_del_work_def)
  note defs = node_gone_def node_dies_def told_def Let_def free_node_def as
  show "d_refs (node_gone rb a n p pr s) = d_refs s" "d_procs (node_gone rb a n p pr s) = (d_procs s)(p \<mapsto> pr\<lparr>p_nodes := rb_erase rb a (p_nodes pr)\<rparr>)"
    "context_mgr_node (node_gone rb a n p pr s) = context_mgr_node s"
    "d_nodes (node_gone rb a n p pr s) a = (if nd_refs n = [] then None else Some (dead_node n))"
    by (simp_all add: defs)
  show "d_nodes (node_gone rb a n p pr s) b = d_nodes s b" if "b \<noteq> a" using that by (simp add: defs)
  show "(l, WDeath d) \<in> set (d_work (node_gone rb a n p pr s))" if "(l, WDeath d) \<in> set (d_work s)" using that by (simp add: defs w)
  show "work_on (NodeAsync b) (node_gone rb a n p pr s) = []" if "work_on (NodeAsync b) s = []"
    using that by (auto simp: work_on_def defs w filter_empty_conv)
  show "d_deaths (node_gone rb a n p pr s) d = d_deaths s d \<or> map_option dt_type (d_deaths (node_gone rb a n p pr s) d) = map_option (\<lambda>_. DEAD_BINDER) (d_deaths s d)"
    by (simp add: defs option.map_comp comp_def)
  show "(ProcTodo (rf_proc rf), WDeath d) \<in> set (d_work (node_gone rb a n p pr s))
      \<and> map_option dt_type (d_deaths (node_gone rb a n p pr s) d) = map_option (\<lambda>_. DEAD_BINDER) (d_deaths s d)"
    if r: "d_refs s r = Some rf" "rf_node rf = a" "rf_death rf = Some d"
  proof -
    have m: "r \<in> set (nd_refs n)" using assms r by (auto simp: node_ok_def refs_to_def)
    then have "(rf_proc rf, d) \<in> set (asked s (nd_refs n))" unfolding asked_iff using r by blast
    moreover have "nd_refs n \<noteq> []" using m by auto
    ultimately show ?thesis by (force simp: defs option.map_comp comp_def)
  qed
qed

lemma release_nodes_run:
  assumes rb: "rb_ok (k_rb K)" and "graph_ok s" and "d_procs s p \<noteq> None" and "distinct as" and "set as = proc_nodes s p"
    and "\<forall>a\<in>set as. context_mgr_node s \<noteq> Some a \<and> work_on (NodeAsync a) s = []"
  shows "\<exists>s'. release_nodes K p as s = Some s' \<and> graph_ok s' \<and> d_refs s' = d_refs s \<and> proc_nodes s' p = {}
    \<and> (\<forall>l d. (l, WDeath d) \<in> set (d_work s) \<longrightarrow> (l, WDeath d) \<in> set (d_work s'))
    \<and> (\<forall>b. b \<notin> set as \<longrightarrow> d_nodes s' b = d_nodes s b) \<and> (\<forall>q. q \<noteq> p \<longrightarrow> d_procs s' q = d_procs s q)
    \<and> (\<forall>r rf d. d_refs s r = Some rf \<and> rf_node rf \<in> set as \<and> rf_death rf = Some d \<longrightarrow> (ProcTodo (rf_proc rf), WDeath d) \<in> set (d_work s'))
    \<and> (\<forall>r rf. d_refs s r = Some rf \<and> rf_node rf \<in> set as \<longrightarrow> map_option nd_proc (d_nodes s' (rf_node rf)) = Some None)"
  using assms(2-)
proof (induction as arbitrary: s)
  case Nil
  then show ?case by simp
next
  case (Cons a as)
  obtain n where n: "d_nodes s a = Some n" "nd_proc n = Some p" using Cons.prems(4) by (auto simp: proc_nodes_def)
  obtain pr where pr: "d_procs s p = Some pr" using Cons.prems(2) by auto
  have na: "node_ok s a n" by (rule graph_okD(1) [OF Cons.prems(1) n(1)])
  define s1 where "s1 = node_gone (k_rb K) a n p pr s"
  note fr = node_gone_frame [OF na, where rb = "k_rb K" and p = p and pr = pr, folded s1_def]
  have run: "binder_node_release K a (put_proc p (pr\<lparr>p_nodes := rb_erase (k_rb K) a (p_nodes pr)\<rparr>) s) = Some s1"
    unfolding s1_def by (rule node_release_run [OF Cons.prems(1) n]) (use Cons.prems(5) in simp)
  have ok1: "graph_ok s1" unfolding s1_def by (rule node_gone_ok [OF rb Cons.prems(1) n pr]) (use Cons.prems(5) in simp)
  have "proc_nodes s1 p = proc_nodes s p - {a}"
  proof -
    have "b \<in> proc_nodes s1 p \<longleftrightarrow> b \<in> proc_nodes s p - {a}" for b
      using fr(4) [of b] fr(5) by (cases "b = a") (auto simp: proc_nodes_def dead_node_def split: if_splits)
    then show ?thesis by blast
  qed
  then have nodes: "set as = proc_nodes s1 p" using Cons.prems(3,4) by auto
  have rest: "\<forall>b\<in>set as. context_mgr_node s1 \<noteq> Some b \<and> work_on (NodeAsync b) s1 = []" using Cons.prems(5) fr(3,7) by simp
  obtain s' where s': "release_nodes K p as s1 = Some s'" "graph_ok s'" "d_refs s' = d_refs s1" "proc_nodes s' p = {}"
    "\<forall>l d. (l, WDeath d) \<in> set (d_work s1) \<longrightarrow> (l, WDeath d) \<in> set (d_work s')"
    "\<forall>b. b \<notin> set as \<longrightarrow> d_nodes s' b = d_nodes s1 b" "\<forall>q. q \<noteq> p \<longrightarrow> d_procs s' q = d_procs s1 q"
    "\<forall>r rf d. d_refs s1 r = Some rf \<and> rf_node rf \<in> set as \<and> rf_death rf = Some d \<longrightarrow> (ProcTodo (rf_proc rf), WDeath d) \<in> set (d_work s')"
    "\<forall>r rf. d_refs s1 r = Some rf \<and> rf_node rf \<in> set as \<longrightarrow> map_option nd_proc (d_nodes s' (rf_node rf)) = Some None"
    using Cons.IH [OF ok1 _ _ nodes rest] fr(2) Cons.prems(3) by auto
  have dead: "map_option nd_proc (d_nodes s' a) = Some None" if "d_refs s r = Some rf" "rf_node rf = a" for r rf
  proof -
    have "nd_refs n \<noteq> []" using na that by (auto simp: node_ok_def refs_to_def)
    then show ?thesis using fr(5) s'(6) Cons.prems(3) by (simp add: dead_node_def)
  qed
  have told: "(ProcTodo (rf_proc rf), WDeath d) \<in> set (d_work s')" if "d_refs s r = Some rf" "rf_node rf \<in> set (a # as)" "rf_death rf = Some d" for r rf d
  proof (cases "rf_node rf = a")
    case True
    then show ?thesis using fr(9) [OF that(1) True that(3)] s'(5) by blast
  next
    case False
    then show ?thesis using s'(8) that fr(1) by auto
  qed
  have old: "(l, WDeath d) \<in> set (d_work s')" if "(l, WDeath d) \<in> set (d_work s)" for l d using fr(6) [OF that] s'(5) by blast
  have "release_nodes K p (a # as) s = Some s'" using pr run s'(1) by simp
  moreover have "d_refs s' = d_refs s" using s'(3) fr(1) by simp
  moreover have "\<forall>b. b \<notin> set (a # as) \<longrightarrow> d_nodes s' b = d_nodes s b" using s'(6) fr(4) by simp
  moreover have "\<forall>q. q \<noteq> p \<longrightarrow> d_procs s' q = d_procs s q" using s'(7) fr(2) by simp
  moreover have "\<forall>r rf. d_refs s r = Some rf \<and> rf_node rf \<in> set (a # as) \<longrightarrow> map_option nd_proc (d_nodes s' (rf_node rf)) = Some None"
    using dead s'(9) fr(1) by fastforce
  ultimately show ?case using s'(2,4) told old by blast
qed

text \<open>
  C15. When a process ends, \<open>binder_deferred_release\<close> takes its nodes out one by
  one. Unless one of them is the context manager's, and if no one-way call waits at
  them, that succeeds: no node belongs to the process any more, the nodes of the
  others are untouched, the graph stays sound, and every reference that had asked
  for it has its notification, as \<open>BINDER_WORK_DEAD_BINDER\<close>, on the list of the process
  that holds the reference; the node it refers to is dead but still there.
\<close>

theorem process_end_notifies:
  assumes rb: "rb_ok (k_rb K)" and ok: "graph_ok s" and pr: "d_procs s p = Some pr"
    and "\<forall>a\<in>proc_nodes s p. context_mgr_node s \<noteq> Some a \<and> work_on (NodeAsync a) s = []"
  shows "\<exists>s'. release_nodes K p (inorder (p_nodes pr)) s = Some s' \<and> graph_ok s' \<and> d_refs s' = d_refs s \<and> proc_nodes s' p = {}
    \<and> (\<forall>b. b \<notin> proc_nodes s p \<longrightarrow> d_nodes s' b = d_nodes s b)
    \<and> (\<forall>r rf. d_refs s r = Some rf \<and> rf_node rf \<in> proc_nodes s p \<longrightarrow>
          map_option nd_proc (d_nodes s' (rf_node rf)) = Some None
        \<and> (\<forall>d. rf_death rf = Some d \<longrightarrow> (ProcTodo (rf_proc rf), WDeath d) \<in> set (d_work s') \<and> map_option dt_type (d_deaths s' d) = Some DEAD_BINDER))"
proof -
  have ix: "index_of (key_ptr s) (proc_nodes s p) (p_nodes pr)" using graph_okD(3) [OF ok pr] by (simp add: proc_ok_def)
  then have nodes: "set (inorder (p_nodes pr)) = proc_nodes s p" by (simp add: index_of_def)
  have "distinct (map (the \<circ> key_ptr s) (inorder (p_nodes pr)))"
    using ix by (simp add: index_of_def strict_sorted_iff)
  then have dist: "distinct (inorder (p_nodes pr))" by (simp add: distinct_map)
  obtain s' where s': "release_nodes K p (inorder (p_nodes pr)) s = Some s'" "graph_ok s'" "d_refs s' = d_refs s" "proc_nodes s' p = {}"
    "\<forall>b. b \<notin> proc_nodes s p \<longrightarrow> d_nodes s' b = d_nodes s b"
    and told: "\<forall>r rf d. d_refs s r = Some rf \<and> rf_node rf \<in> proc_nodes s p \<and> rf_death rf = Some d \<longrightarrow> (ProcTodo (rf_proc rf), WDeath d) \<in> set (d_work s')"
    and dead: "\<forall>r rf. d_refs s r = Some rf \<and> rf_node rf \<in> proc_nodes s p \<longrightarrow> map_option nd_proc (d_nodes s' (rf_node rf)) = Some None"
    using release_nodes_run [OF rb ok _ dist nodes] assms(3,4) unfolding nodes by auto
  have "map_option dt_type (d_deaths s' d) = Some DEAD_BINDER"
    if r: "d_refs s r = Some rf" "rf_node rf \<in> proc_nodes s p" "rf_death rf = Some d" for r rf d
  proof -
    have "queued (WDeath d) s'" using told r unfolding queued_def by force
    moreover have "death_ok s' rf" using graph_okD(2) [OF s'(2), of r rf] s'(3) r(1) by (simp add: ref_ok_def)
    ultimately show ?thesis using r(3) by (auto simp: death_ok_def)
  qed
  then show ?thesis using s' told dead by blast
qed

text \<open>Process 101 has asked about node 300 of process 100.\<close>

definition watch_drv :: drv where
  "watch_drv = quiet_drv\<lparr>d_refs := [500 \<mapsto> \<lparr>rf_proc = 101, rf_node = 300, rf_desc = 1, rf_strong = 1, rf_weak = 0, rf_death = Some 700\<rparr>],
     d_deaths := [700 \<mapsto> \<lparr>dt_cookie = 9, dt_type = NO_DEATH_WORK\<rparr>]\<rparr>"

lemma watch_graph: "graph_ok watch_drv"
  by (rule graph_ok_deaths [OF quiet_graph])
    (auto simp: watch_drv_def quiet_maps demo_maps death_ok_def deaths_ok_def work_ok_def queued_def split: if_splits)

theorem process_end_notifies_witness:
  "\<exists>s'. release_nodes quiet_ext 100 [300] watch_drv = Some s' \<and> graph_ok s' \<and> proc_nodes s' 100 = {} \<and> (ProcTodo 101, WDeath 700) \<in> set (d_work s')"
proof -
  have nodes: "proc_nodes watch_drv 100 = {300}" "d_refs watch_drv 500 = Some \<lparr>rf_proc = 101, rf_node = 300, rf_desc = 1, rf_strong = 1, rf_weak = 0, rf_death = Some 700\<rparr>"
    "d_procs watch_drv 100 = Some ((demo_proc 10 (Node Leaf 300 Leaf) Leaf)\<lparr>p_space := demo0\<rparr>)"
    by (auto simp: proc_nodes_def watch_drv_def quiet_maps demo_node_def new_node_def split: if_splits)
  have q: "\<forall>a\<in>proc_nodes watch_drv 100. context_mgr_node watch_drv \<noteq> Some a \<and> work_on (NodeAsync a) watch_drv = []"
    by (simp add: watch_drv_def quiet_maps work_on_def)
  have rb: "rb_ok (k_rb quiet_ext)" using plain_trees_ok by (simp add: quiet_ext_def demo_ext_def)
  have as: "inorder (p_nodes ((demo_proc 10 (Node Leaf 300 Leaf) Leaf)\<lparr>p_space := demo0\<rparr>)) = [300]" by (simp add: demo_proc_def)
  obtain s' where s': "release_nodes quiet_ext 100 [300] watch_drv = Some s'" "graph_ok s'" "proc_nodes s' 100 = {}"
    and told: "\<forall>r rf. d_refs watch_drv r = Some rf \<and> rf_node rf \<in> proc_nodes watch_drv 100 \<longrightarrow>
          map_option nd_proc (d_nodes s' (rf_node rf)) = Some None
        \<and> (\<forall>d. rf_death rf = Some d \<longrightarrow> (ProcTodo (rf_proc rf), WDeath d) \<in> set (d_work s') \<and> map_option dt_type (d_deaths s' d) = Some DEAD_BINDER)"
    using process_end_notifies [OF rb watch_graph nodes(3) q, unfolded as] by blast
  have "(ProcTodo 101, WDeath 700) \<in> set (d_work s')" using told [rule_format, OF conjI, OF nodes(2)] nodes(1) by simp
  then show ?thesis using s' by blast
qed

end
