(* ===== verification/DiskEvents.thy ===== *)
theory DiskEvents
  imports Prelude
begin

text \<open>
  Disk events of \<open>patches/kernel/genhd.c\<close>: the kernel asks a driver for media
  changes and eject requests, from a delayed work item or on demand, and tells user
  space. The theory has the operations as functions on \<open>struct disk_events\<close>, cut
  where the code takes and drops its lock, and the system as a step relation over
  those sections. The conversion of milliseconds to jiffies and the driver are
  arguments.
\<close>

section \<open>State\<close>

text \<open>Bits of the event masks, as \<open>linux/genhd.h\<close> numbers them.\<close>

abbreviation (input) DISK_EVENT_MEDIA_CHANGE :: u32 where "DISK_EVENT_MEDIA_CHANGE \<equiv> 1"

text \<open>\<open>ev_dwork\<close> is the delay of the work item when it is queued.\<close>

record disk_events =
  ev_block :: int
  ev_pending :: u32
  ev_clearing :: u32
  ev_poll_msecs :: int
  ev_dwork :: "nat option"

record evdisk =
  dk_events :: u32
  dk_async :: u32

definition disk_events_strs :: "(nat \<times> string) list" where
  "disk_events_strs = [(0, ''media_change''), (1, ''eject_request'')]"

definition disk_uevents :: "(nat \<times> string) list" where
  "disk_uevents = [(0, ''DISK_MEDIA_CHANGE=1''), (1, ''DISK_EJECT_REQUEST=1'')]"

text \<open>A work item that is queued keeps its delay; \<open>mod_delayed_work\<close> changes it.\<close>

definition queue_delayed_work :: "nat \<Rightarrow> disk_events \<Rightarrow> disk_events" where
  "queue_delayed_work delay e = (if ev_dwork e = None then e\<lparr>ev_dwork := Some delay\<rparr> else e)"

definition mod_delayed_work :: "nat \<Rightarrow> disk_events \<Rightarrow> disk_events" where
  "mod_delayed_work delay e = e\<lparr>ev_dwork := Some delay\<rparr>"

section \<open>Operations\<close>

definition disk_events_poll_jiffies :: "(int \<Rightarrow> nat) \<Rightarrow> int \<Rightarrow> evdisk \<Rightarrow> disk_events \<Rightarrow> nat" where
  "disk_events_poll_jiffies J dfl dk e =
     J (if ev_poll_msecs e \<ge> 0 then ev_poll_msecs e
        else if dk_events dk AND NOT (dk_async dk) \<noteq> 0 then dfl else 0)"

definition block_inc :: "disk_events \<Rightarrow> disk_events" where
  "block_inc e = e\<lparr>ev_block := ev_block e + 1\<rparr>"

definition cancel_work :: "disk_events \<Rightarrow> disk_events" where
  "cancel_work e = e\<lparr>ev_dwork := None\<rparr>"

text \<open>The section of \<open>disk_block_events\<close> under the lock: the count, and whether to cancel.\<close>

definition block_count :: "disk_events \<Rightarrow> disk_events \<times> bool" where
  "block_count e = (block_inc e, ev_block e = 0)"

definition disk_block_events :: "disk_events \<Rightarrow> disk_events" where
  "disk_block_events e = (let (e1, cancel) = block_count e in if cancel then cancel_work e1 else e1)"

definition unblock_events :: "(int \<Rightarrow> nat) \<Rightarrow> int \<Rightarrow> evdisk \<Rightarrow> bool \<Rightarrow> disk_events \<Rightarrow> disk_events" where
  "unblock_events J dfl dk check_now e =
     (if ev_block e \<le> 0 then e
      else let e1 = e\<lparr>ev_block := ev_block e - 1\<rparr>; intv = disk_events_poll_jiffies J dfl dk e1
           in if ev_block e1 \<noteq> 0 then e1
              else if check_now then queue_delayed_work 0 e1
              else if intv \<noteq> 0 then queue_delayed_work intv e1 else e1)"

definition disk_unblock_events :: "(int \<Rightarrow> nat) \<Rightarrow> int \<Rightarrow> evdisk \<Rightarrow> disk_events \<Rightarrow> disk_events" where
  "disk_unblock_events J dfl dk e = unblock_events J dfl dk False e"

definition disk_flush_events :: "u32 \<Rightarrow> disk_events \<Rightarrow> disk_events" where
  "disk_flush_events m e =
     (let e1 = e\<lparr>ev_clearing := ev_clearing e OR m\<rparr> in if ev_block e1 = 0 then mod_delayed_work 0 e1 else e1)"

text \<open>
  The part of \<open>disk_check_events\<close> under the lock, with the driver's answer: which
  events are new, and the next poll.
\<close>

definition note_events :: "(int \<Rightarrow> nat) \<Rightarrow> int \<Rightarrow> evdisk \<Rightarrow> u32 \<Rightarrow> disk_events \<Rightarrow> disk_events \<times> u32" where
  "note_events J dfl dk answer e =
     (let new = answer AND NOT (ev_pending e);
          e1 = e\<lparr>ev_pending := ev_pending e OR new\<rparr>;
          intv = disk_events_poll_jiffies J dfl dk e1
      in (if ev_block e1 = 0 \<and> intv \<noteq> 0 then queue_delayed_work intv e1 else e1, new))"

text \<open>What user space is told: the listed events that are new.\<close>

definition uevent_env :: "evdisk \<Rightarrow> u32 \<Rightarrow> string list" where
  "uevent_env dk new = map snd (filter (\<lambda>(i, _). bit (new AND dk_events dk) i) disk_uevents)"

text \<open>The work item: it clears in the driver what it has asked the driver to clear.\<close>

definition work_done :: "(int \<Rightarrow> nat) \<Rightarrow> int \<Rightarrow> evdisk \<Rightarrow> u32 \<Rightarrow> u32 \<Rightarrow> disk_events \<Rightarrow> disk_events \<times> string list" where
  "work_done J dfl dk clearing answer e =
     (let (e1, new) = note_events J dfl dk answer e
      in (e1\<lparr>ev_clearing := ev_clearing e1 AND NOT clearing\<rparr>, uevent_env dk new))"

definition disk_events_workfn :: "(int \<Rightarrow> nat) \<Rightarrow> int \<Rightarrow> evdisk \<Rightarrow> (u32 \<Rightarrow> u32) \<Rightarrow> disk_events \<Rightarrow> disk_events \<times> string list" where
  "disk_events_workfn J dfl dk check e = work_done J dfl dk (ev_clearing e) (check (ev_clearing e)) e"

definition fetch_events :: "u32 \<Rightarrow> disk_events \<Rightarrow> disk_events \<times> u32" where
  "fetch_events m e = (e\<lparr>ev_pending := ev_pending e AND NOT m\<rparr>, ev_pending e AND m)"

text \<open>
  \<open>flushed\<close> is what calls of \<open>disk_flush_events\<close> add while the driver is asked;
  \<open>media_changed\<close> is the old hook of a driver without events.
\<close>

definition disk_clear_events ::
    "(int \<Rightarrow> nat) \<Rightarrow> int \<Rightarrow> evdisk \<Rightarrow> bool option \<Rightarrow> (u32 \<Rightarrow> u32) \<Rightarrow> u32 \<Rightarrow> u32 \<Rightarrow> disk_events option \<Rightarrow> disk_events option \<times> u32 \<times> string list" where
  "disk_clear_events J dfl dk media_changed check flushed m ev =
     (case ev of
        None \<Rightarrow> (None, if m AND DISK_EVENT_MEDIA_CHANGE \<noteq> 0 \<and> media_changed = Some True then DISK_EVENT_MEDIA_CHANGE else 0, [])
      | Some e \<Rightarrow>
          let e1 = disk_block_events e;
              clearing = m OR ev_clearing e1;
              e2 = disk_flush_events flushed (e1\<lparr>ev_clearing := 0\<rparr>);
              (e3, new) = note_events J dfl dk (check clearing) e2;
              e4 = unblock_events J dfl dk (ev_clearing e3 \<noteq> 0) e3;
              (e5, pending) = fetch_events m e4
          in (Some e5, pending, uevent_env dk new))"

section \<open>Attributes and life cycle\<close>

fun show_events :: "string \<Rightarrow> u32 \<Rightarrow> (nat \<times> string) list \<Rightarrow> string" where
  "show_events delim events [] = []"
| "show_events delim events ((i, name) # rest) =
     (if bit events i then delim @ name @ show_events '' '' events rest else show_events delim events rest)"

definition disk_events_show :: "u32 \<Rightarrow> string" where
  "disk_events_show events = (let out = show_events [] events disk_events_strs in if out \<noteq> [] then out @ [CHR 0x0A] else out)"

text \<open>\<open>intv\<close> is the number that was read, none if there was none.\<close>

definition disk_events_poll_msecs_store ::
    "(int \<Rightarrow> nat) \<Rightarrow> int \<Rightarrow> evdisk \<Rightarrow> int option \<Rightarrow> nat \<Rightarrow> disk_events \<Rightarrow> disk_events \<times> int" where
  "disk_events_poll_msecs_store J dfl dk intv count e =
     (case intv of
        None \<Rightarrow> (e, -EINVAL)
      | Some i \<Rightarrow>
          if count = 0 \<or> i < 0 \<and> i \<noteq> -1 then (e, -EINVAL)
          else (unblock_events J dfl dk True ((disk_block_events e)\<lparr>ev_poll_msecs := i\<rparr>), int count))"

text \<open>All disks with events, on the list \<open>disk_events\<close>, are checked when the default changes.\<close>

definition disk_events_set_dfl_poll_msecs :: "int option \<Rightarrow> int \<Rightarrow> int \<Rightarrow> disk_events list \<Rightarrow> int \<times> disk_events list \<times> int" where
  "disk_events_set_dfl_poll_msecs val err dfl evs =
     (case val of None \<Rightarrow> (dfl, evs, err) | Some v \<Rightarrow> (v, map (disk_flush_events 0) evs, 0))"

definition disk_alloc_events :: "bool \<Rightarrow> bool \<Rightarrow> disk_events option" where
  "disk_alloc_events has_check_events kzalloc =
     (if has_check_events \<and> kzalloc
      then Some \<lparr>ev_block = 1, ev_pending = 0, ev_clearing = 0, ev_poll_msecs = -1, ev_dwork = None\<rparr> else None)"

text \<open>The flag says whether the disk is on the list of disks with events.\<close>

definition disk_add_events :: "(int \<Rightarrow> nat) \<Rightarrow> int \<Rightarrow> evdisk \<Rightarrow> disk_events option \<Rightarrow> disk_events option \<times> bool" where
  "disk_add_events J dfl dk ev = (map_option (unblock_events J dfl dk True) ev, ev \<noteq> None)"

definition disk_del_events :: "disk_events option \<Rightarrow> disk_events option \<times> bool" where
  "disk_del_events ev = (map_option disk_block_events ev, False)"

text \<open>Whether the release is without a warning.\<close>

definition disk_release_events :: "disk_events option \<Rightarrow> bool" where
  "disk_release_events ev = (case ev of None \<Rightarrow> True | Some e \<Rightarrow> ev_block e = 1)"

section \<open>The system\<close>

text \<open>
  The driver is asked without the lock, its answer is noted under the lock, and user
  space is told after the lock is dropped: three sections, between which the others run.
\<close>

datatype check_phase = Asked u32 | Noted "string list"

text \<open>
  \<open>sy_cancel\<close>: the first blocker holds the outer mutex and waits for the work item;
  \<open>sy_running\<close>: how far the work item is, with the events it has asked the driver to
  clear or with what it is about to tell;
  \<open>sy_holders\<close>: calls of \<open>disk_block_events\<close> that have returned and are not undone;
  \<open>sy_unsent\<close>: what calls of \<open>disk_clear_events\<close> have noted and not told yet;
  \<open>sy_told\<close> and \<open>sy_fetched\<close>: what user space was told and what calls of
  \<open>disk_clear_events\<close> have returned.
\<close>

record ev_sys =
  sy_ev :: disk_events
  sy_cancel :: bool
  sy_running :: "check_phase option"
  sy_holders :: nat
  sy_unsent :: "string list list"
  sy_told :: "string list list"
  sy_fetched :: "u32 list"

text \<open>An event is sent if there is something to tell.\<close>

definition tell :: "string list \<Rightarrow> ev_sys \<Rightarrow> ev_sys" where
  "tell env s = (if env = [] then s else s\<lparr>sy_told := sy_told s @ [env]\<rparr>)"

text \<open>
  A blocker waits at the mutex while the first one cancels. The work item may start
  whenever it is queued and does not run; a holder may ask the driver itself, as
  \<open>disk_clear_events\<close> does, or store an interval. Several holders may ask at once, and
  what they noted is told in any order.
\<close>

inductive ev_step :: "(int \<Rightarrow> nat) \<Rightarrow> int \<Rightarrow> evdisk \<Rightarrow> ev_sys \<Rightarrow> ev_sys \<Rightarrow> bool" for J dfl dk where
  block: "\<not> sy_cancel s \<Longrightarrow> block_count (sy_ev s) = (e, cancel)
    \<Longrightarrow> ev_step J dfl dk s (s\<lparr>sy_ev := e, sy_cancel := cancel, sy_holders := sy_holders s + of_bool (\<not> cancel)\<rparr>)"
| block_end: "sy_cancel s \<Longrightarrow> sy_running s = None
    \<Longrightarrow> ev_step J dfl dk s (s\<lparr>sy_ev := cancel_work (sy_ev s), sy_cancel := False, sy_holders := sy_holders s + 1\<rparr>)"
| unblock: "0 < sy_holders s \<Longrightarrow> ev_step J dfl dk s (s\<lparr>sy_ev := unblock_events J dfl dk now (sy_ev s), sy_holders := sy_holders s - 1\<rparr>)"
| flush: "ev_step J dfl dk s (s\<lparr>sy_ev := disk_flush_events m (sy_ev s)\<rparr>)"
| work_start: "ev_dwork (sy_ev s) \<noteq> None \<Longrightarrow> sy_running s = None
    \<Longrightarrow> ev_step J dfl dk s (s\<lparr>sy_ev := cancel_work (sy_ev s), sy_running := Some (Asked (ev_clearing (sy_ev s)))\<rparr>)"
| work_note: "sy_running s = Some (Asked c) \<Longrightarrow> work_done J dfl dk c answer (sy_ev s) = (e, env)
    \<Longrightarrow> ev_step J dfl dk s (s\<lparr>sy_ev := e, sy_running := Some (Noted env)\<rparr>)"
| work_end: "sy_running s = Some (Noted env) \<Longrightarrow> ev_step J dfl dk s (tell env (s\<lparr>sy_running := None\<rparr>))"
| take_clearing: "0 < sy_holders s \<Longrightarrow> ev_step J dfl dk s (s\<lparr>sy_ev := (sy_ev s)\<lparr>ev_clearing := 0\<rparr>\<rparr>)"
| check_note: "0 < sy_holders s \<Longrightarrow> note_events J dfl dk answer (sy_ev s) = (e, new)
    \<Longrightarrow> ev_step J dfl dk s (s\<lparr>sy_ev := e, sy_unsent := sy_unsent s @ [uevent_env dk new]\<rparr>)"
| check_tell: "sy_unsent s = before @ env # after \<Longrightarrow> ev_step J dfl dk s (tell env (s\<lparr>sy_unsent := before @ after\<rparr>))"
| fetch: "fetch_events m (sy_ev s) = (e, pending) \<Longrightarrow> ev_step J dfl dk s (s\<lparr>sy_ev := e, sy_fetched := sy_fetched s @ [pending]\<rparr>)"
| store_interval: "0 < sy_holders s \<Longrightarrow> ev_step J dfl dk s (s\<lparr>sy_ev := (sy_ev s)\<lparr>ev_poll_msecs := i\<rparr>\<rparr>)"

text \<open>A new disk is blocked by its creator.\<close>

definition ev_init :: "ev_sys \<Rightarrow> bool" where
  "ev_init s \<longleftrightarrow> Some (sy_ev s) = disk_alloc_events True True \<and> \<not> sy_cancel s \<and> sy_running s = None \<and> sy_holders s = 1 \<and> sy_unsent s = []
     \<and> sy_told s = [] \<and> sy_fetched s = []"

inductive ev_reach :: "(int \<Rightarrow> nat) \<Rightarrow> int \<Rightarrow> evdisk \<Rightarrow> ev_sys \<Rightarrow> bool" for J dfl dk where
  start: "ev_init s \<Longrightarrow> ev_reach J dfl dk s"
| step: "ev_reach J dfl dk s \<Longrightarrow> ev_step J dfl dk s s' \<Longrightarrow> ev_reach J dfl dk s'"

inductive_cases ev_stepE: "ev_step J dfl dk s s'"

section \<open>Blocking\<close>

definition ev_inv :: "ev_sys \<Rightarrow> bool" where
  "ev_inv s \<longleftrightarrow> ev_block (sy_ev s) = int (sy_holders s) + of_bool (sy_cancel s) \<and> (sy_cancel s \<longrightarrow> sy_holders s = 0)
     \<and> (0 < sy_holders s \<longrightarrow> ev_dwork (sy_ev s) = None \<and> sy_running s = None)"

named_theorems ev_defs \<open>the sections of the code under the lock\<close>

lemmas [ev_defs] = block_count_def block_inc_def cancel_work_def unblock_events_def disk_flush_events_def note_events_def work_done_def fetch_events_def
  queue_delayed_work_def mod_delayed_work_def Let_def

lemma ev_step_inv:
  assumes "ev_step J dfl dk s s'" and "ev_inv s"
  shows "ev_inv s'"
  using assms
proof cases
  case (work_note c answer e env)
  then show ?thesis using assms(2) by (auto simp: ev_inv_def ev_defs split: if_splits)
next
  case (check_note answer e new)
  then show ?thesis using assms(2) by (auto simp: ev_inv_def ev_defs split: if_splits)
qed (auto simp: ev_inv_def ev_defs tell_def split: if_splits)

lemma ev_reach_inv: "ev_reach J dfl dk s \<Longrightarrow> ev_inv s"
proof (induction rule: ev_reach.induct)
  case (start s)
  then show ?case by (auto simp: ev_init_def ev_inv_def disk_alloc_events_def)
next
  case (step s s')
  then show ?case by (blast intro: ev_step_inv)
qed

text \<open>
  C24. Blocking works as \<open>disk_block_events\<close> promises, in every interleaving of
  blockers, unblockers, flushes, the work item and synchronous checks: as long as a
  call of it that has returned is not undone, the work item neither runs nor is queued,
  and the block count is the number of these calls, plus one while the first is still
  waiting for the work item.
\<close>

theorem blocked_no_work:
  assumes "ev_reach J dfl dk s"
  shows "ev_block (sy_ev s) = int (sy_holders s) + of_bool (sy_cancel s)
    \<and> (0 < sy_holders s \<longrightarrow> ev_dwork (sy_ev s) = None \<and> sy_running s = None)"
  using ev_reach_inv [OF assms] by (simp add: ev_inv_def)

section \<open>Reports\<close>

text \<open>
  How often an event was told, is noted and about to be told, and was returned.
\<close>

definition names :: "nat \<Rightarrow> string list \<Rightarrow> bool" where
  "names i env \<longleftrightarrow> (\<exists>(j, name)\<in>set disk_uevents. j = i \<and> name \<in> set env)"

definition reports :: "nat \<Rightarrow> ev_sys \<Rightarrow> nat" where
  "reports i s = length (filter (names i) (sy_told s))"

definition in_flight :: "ev_sys \<Rightarrow> string list list" where
  "in_flight s = (case sy_running s of Some (Noted env) \<Rightarrow> [env] | _ \<Rightarrow> []) @ sy_unsent s"

definition unsent :: "nat \<Rightarrow> ev_sys \<Rightarrow> nat" where
  "unsent i s = length (filter (names i) (in_flight s))"

definition fetches :: "nat \<Rightarrow> ev_sys \<Rightarrow> nat" where
  "fetches i s = length (filter (\<lambda>p. bit p i) (sy_fetched s))"

lemma uevent_env_iff:
  assumes "i < 2" and "bit (dk_events dk) i"
  shows "names i (uevent_env dk new) \<longleftrightarrow> bit new i"
proof -
  have "i = 0 \<or> i = 1" using assms by auto
  then show ?thesis using assms(2) by (auto simp: names_def uevent_env_def disk_uevents_def bit_and_iff)
qed

lemma names_Nil [simp]: "\<not> names i []"
  by (simp add: names_def case_prod_beta)

lemma tell_frame [simp]:
  "sy_ev (tell env s) = sy_ev s" "sy_running (tell env s) = sy_running s" "sy_unsent (tell env s) = sy_unsent s"
  "sy_fetched (tell env s) = sy_fetched s" "reports i (tell env s) = reports i s + of_bool (names i env)"
  by (auto simp: tell_def reports_def)

lemma reports_frame [simp]: "reports i (s\<lparr>sy_running := r\<rparr>) = reports i s" "reports i (s\<lparr>sy_unsent := u\<rparr>) = reports i s"
  by (simp_all add: reports_def)

lemma pending_frame [simp]:
  "ev_pending (block_inc e) = ev_pending e" "ev_pending (cancel_work e) = ev_pending e" "ev_pending (unblock_events J dfl dk now e) = ev_pending e"
  "ev_pending (disk_flush_events m e) = ev_pending e"
  by (auto simp: ev_defs)

lemma note_pending:
  assumes "note_events J dfl dk answer e = (e', new)"
  shows "ev_pending e' = ev_pending e OR new" "new = answer AND NOT (ev_pending e)"
  using assms by (auto simp: ev_defs split: if_splits)

definition told_inv :: "nat \<Rightarrow> ev_sys \<Rightarrow> bool" where
  "told_inv i s \<longleftrightarrow> reports i s + unsent i s = fetches i s + of_bool (bit (ev_pending (sy_ev s)) i)"

lemmas counts = told_inv_def reports_def unsent_def in_flight_def fetches_def

text \<open>What is noted as new was not pending, so that the two sides grow together.\<close>

lemma note_bit:
  assumes "note_events J dfl dk answer e = (e', new)"
  shows "of_bool (bit (ev_pending e') i) = of_bool (bit (ev_pending e) i) + (of_bool (bit new i) :: nat)"
  using note_pending [OF assms] by (auto simp: bit_or_iff bit_and_iff bit_not_iff)

lemma ev_step_told:
  assumes "ev_step J dfl dk s s'" and i: "i < 2" "bit (dk_events dk) i" and inv: "told_inv i s"
  shows "told_inv i s'"
  using assms(1)
proof cases
  case (work_note c answer e env)
  obtain e1 new where n: "note_events J dfl dk answer (sy_ev s) = (e1, new)" by fastforce
  then have "ev_pending e = ev_pending e1" "env = uevent_env dk new" using work_note by (auto simp: work_done_def)
  then show ?thesis using work_note(1,2) inv note_bit [OF n, of i] by (simp add: counts uevent_env_iff [OF i])
next
  case (check_note answer e new)
  then show ?thesis using inv note_bit [OF check_note(3), of i] by (simp add: counts uevent_env_iff [OF i])
next
  case (work_end env)
  then show ?thesis using inv by (auto simp: told_inv_def unsent_def in_flight_def fetches_def)
next
  case (check_tell before env after)
  then show ?thesis using inv by (auto simp: told_inv_def unsent_def in_flight_def fetches_def)
next
  case (fetch m e pending)
  then show ?thesis using inv i(1) by (auto simp: counts fetch_events_def bit_and_iff bit_not_iff)
qed (use inv in \<open>auto simp: counts block_count_def\<close>)

text \<open>
  C25. No event is lost and none is told twice: in every interleaving, user space has been
  told of a listed event, or is about to be told by a check that has noted it and dropped
  the lock, exactly as often as \<open>disk_clear_events\<close> has returned it, once more if it is
  pending, however often the driver reports it and whoever asks the driver. So when no
  report is in flight, user space has been told as often as that. (Between the lock and
  the report a caller can get an event of which user space has not been told yet.)
\<close>

theorem events_told_once:
  assumes "ev_reach J dfl dk s" and "i < 2" and "bit (dk_events dk) i"
  shows "reports i s + unsent i s = fetches i s + of_bool (bit (ev_pending (sy_ev s)) i)
    \<and> (in_flight s = [] \<longrightarrow> reports i s = fetches i s + of_bool (bit (ev_pending (sy_ev s)) i))"
proof -
  have "told_inv i s" using assms(1)
  proof (induction rule: ev_reach.induct)
    case (start s)
    then show ?case by (auto simp: ev_init_def disk_alloc_events_def counts)
  next
    case (step s s')
    then show ?case by (blast intro: ev_step_told assms(2,3))
  qed
  then have e: "reports i s + unsent i s = fetches i s + of_bool (bit (ev_pending (sy_ev s)) i)" by (simp add: told_inv_def)
  moreover have "unsent i s = 0" if "in_flight s = []" using that by (simp add: unsent_def)
  ultimately show ?thesis by (intro conjI impI) simp_all
qed

section \<open>Checking on demand\<close>

text \<open>
  \<open>disk_clear_events\<close> asks the driver to clear the given events and those flushed
  before, returns exactly the given ones among the events that were pending or that the
  driver now has, and removes these; the block count is as before, flushes that arrive
  meanwhile are kept for the next check, which is then queued at once unless someone
  else blocks.
\<close>

theorem clear_events_exact:
  assumes "0 \<le> ev_block e"
  shows "\<exists>e' env. disk_clear_events J dfl dk mc check flushed m (Some e) = (Some e', (ev_pending e OR check (m OR ev_clearing e)) AND m, env)
    \<and> ev_pending e' = (ev_pending e OR check (m OR ev_clearing e)) AND NOT m \<and> ev_block e' = ev_block e \<and> ev_clearing e' = flushed
    \<and> env = uevent_env dk (check (m OR ev_clearing e) AND NOT (ev_pending e))
    \<and> ev_dwork e' = (if ev_block e \<noteq> 0 then ev_dwork e else if flushed \<noteq> 0 then Some 0
        else let intv = disk_events_poll_jiffies J dfl dk e in if intv \<noteq> 0 then Some intv else None)"
proof -
  define a where "a = check (m OR ev_clearing e)"
  define e2 where "e2 = (disk_block_events e)\<lparr>ev_clearing := flushed\<rparr>"
  have e2: "disk_flush_events flushed ((disk_block_events e)\<lparr>ev_clearing := 0\<rparr>) = e2"
    using assms by (auto simp: e2_def disk_block_events_def ev_defs)
  have b: "ev_block e2 = ev_block e + 1" "ev_pending e2 = ev_pending e" "ev_clearing (disk_block_events e) = ev_clearing e" "ev_clearing e2 = flushed"
    "ev_poll_msecs e2 = ev_poll_msecs e" "ev_dwork e2 = (if ev_block e = 0 then None else ev_dwork e)"
    by (auto simp: e2_def disk_block_events_def ev_defs)
  define e3 where "e3 = e2\<lparr>ev_pending := ev_pending e OR (a AND NOT (ev_pending e))\<rparr>"
  have e3: "note_events J dfl dk a e2 = (e3, a AND NOT (ev_pending e))" using b assms by (auto simp: e3_def note_events_def Let_def)
  have p: "ev_pending e OR (a AND NOT (ev_pending e)) = ev_pending e OR a" by (rule bit_word_eqI) (auto simp: bit_or_iff bit_and_iff bit_not_iff)
  define e4 where "e4 = unblock_events J dfl dk (flushed \<noteq> 0) e3"
  have j: "disk_events_poll_jiffies J dfl dk (e3\<lparr>ev_block := k\<rparr>) = disk_events_poll_jiffies J dfl dk e" for k
    using b by (simp add: e3_def disk_events_poll_jiffies_def)
  have e4: "ev_pending e4 = ev_pending e OR a" "ev_clearing e4 = flushed" "ev_block e4 = ev_block e"
    "ev_dwork e4 = (if ev_block e \<noteq> 0 then ev_dwork e else if flushed \<noteq> 0 then Some 0
       else let intv = disk_events_poll_jiffies J dfl dk e in if intv \<noteq> 0 then Some intv else None)"
    using assms b p by (auto simp: e4_def unblock_events_def j Let_def queue_delayed_work_def) (auto simp: e3_def)
  have c: "ev_clearing e3 = flushed" "ev_pending e3 = ev_pending e OR a" using b p by (simp_all add: e3_def)
  have "disk_clear_events J dfl dk mc check flushed m (Some e)
    = (Some (e4\<lparr>ev_pending := (ev_pending e OR a) AND NOT m\<rparr>), (ev_pending e OR a) AND m, uevent_env dk (a AND NOT (ev_pending e)))"
    using e2 e3 e4 b(3) c by (simp add: disk_clear_events_def a_def [symmetric] e4_def [symmetric] fetch_events_def)
  then show ?thesis using e4 unfolding a_def by simp
qed

text \<open>A disk that reports media changes, polled every two seconds at 100 jiffies a second.\<close>

definition sd_disk :: evdisk where "sd_disk = \<lparr>dk_events = 1, dk_async = 0\<rparr>"

definition jiffies100 :: "int \<Rightarrow> nat" where "jiffies100 ms = nat (ms div 10)"

definition new_sys :: ev_sys where
  "new_sys = \<lparr>sy_ev = \<lparr>ev_block = 1, ev_pending = 0, ev_clearing = 0, ev_poll_msecs = -1, ev_dwork = None\<rparr>, sy_cancel = False, sy_running = None,
     sy_holders = 1, sy_unsent = [], sy_told = [], sy_fetched = []\<rparr>"

lemma new_sys_reach: "ev_reach jiffies100 2000 sd_disk new_sys"
  by (rule ev_reach.start) (simp add: ev_init_def new_sys_def disk_alloc_events_def)

theorem blocked_no_work_witness: "ev_dwork (sy_ev new_sys) = None \<and> sy_running new_sys = None"
  using blocked_no_work [OF new_sys_reach] by (simp add: new_sys_def)

text \<open>The creator asks the driver, which reports a media change, and tells user space.\<close>

definition asked_sys :: ev_sys where
  "asked_sys = new_sys\<lparr>sy_ev := (sy_ev new_sys)\<lparr>ev_pending := 1\<rparr>, sy_unsent := [[''DISK_MEDIA_CHANGE=1'']]\<rparr>"

lemma asked_sys_reach: "ev_reach jiffies100 2000 sd_disk asked_sys"
proof (rule ev_reach.step [OF new_sys_reach])
  show "ev_step jiffies100 2000 sd_disk new_sys asked_sys"
    using ev_step.check_note [of new_sys jiffies100 2000 sd_disk 1]
    by (simp add: asked_sys_def new_sys_def note_events_def disk_events_poll_jiffies_def Let_def sd_disk_def uevent_env_def disk_uevents_def)
qed

theorem events_told_once_witness:
  "unsent 0 asked_sys = 1 \<and> reports 0 (tell [''DISK_MEDIA_CHANGE=1''] (asked_sys\<lparr>sy_unsent := []\<rparr>)) = 1"
proof -
  have "ev_step jiffies100 2000 sd_disk asked_sys (tell [''DISK_MEDIA_CHANGE=1''] (asked_sys\<lparr>sy_unsent := [] @ []\<rparr>))"
    by (rule ev_step.check_tell) (simp add: asked_sys_def)
  then have r: "ev_reach jiffies100 2000 sd_disk (tell [''DISK_MEDIA_CHANGE=1''] (asked_sys\<lparr>sy_unsent := []\<rparr>))"
    using ev_reach.step [OF asked_sys_reach] by simp
  have b: "bit (dk_events sd_disk) 0" by (simp add: sd_disk_def)
  have "unsent 0 asked_sys = 1" using events_told_once [OF asked_sys_reach _ b]
    by (simp add: asked_sys_def new_sys_def fetches_def reports_def)
  then show ?thesis using events_told_once [OF r _ b]
    by (simp add: asked_sys_def new_sys_def fetches_def in_flight_def)
qed

theorem clear_events_exact_witness:
  "\<exists>e' env. disk_clear_events jiffies100 2000 sd_disk None (\<lambda>_. 3) 0 1 (Some (sy_ev new_sys)) = (Some e', 1, env) \<and> ev_pending e' = 2"
  using clear_events_exact [of "sy_ev new_sys" jiffies100 2000 sd_disk None "\<lambda>_. 3" 0 1] by (fastforce simp: new_sys_def)

end
