(* ===== verification/GenDisk.thy ===== *)
theory GenDisk
  imports DiskEvents
begin

text \<open>
  Disks and partitions of \<open>patches/kernel/genhd.c\<close>: the partition table and its
  iterator, the map from sectors to partitions, the table of major numbers, device
  numbers, and the life of a disk. Disks and partitions live in maps from addresses, so
  that a use after free and an access outside the table are \<open>None\<close>.
\<close>

section \<open>State\<close>

type_synonym sector_t = u64
type_synonym dev_t = u32

text \<open>\<open>hd_refs\<close> are the references to the device, \<open>hd_ref\<close> those to the partition.\<close>

record hd_struct =
  start_sect :: sector_t
  nr_sects :: sector_t
  partno :: int
  policy :: int
  hd_devt :: dev_t
  volname :: string
  hd_disk :: int
  hd_refs :: nat
  hd_ref :: int

record gendisk =
  gd_major :: int
  gd_first_minor :: int
  gd_minors :: int
  disk_name_of :: string
  fl_ext_devt :: bool
  fl_removable :: bool
  fl_suppress :: bool
  fl_native :: bool
  fl_up :: bool
  part_tbl :: "int option list option"
  last_lookup :: "int option"
  part0 :: int
  uevent_suppress :: bool
  gd_ev :: "disk_events option"
  gd_evmask :: evdisk
  bd_invalidated :: bool

datatype uevent = KOBJ_ADD int "string list" | KOBJ_CHANGE int "string list" | KOBJ_REMOVE int "string list"

text \<open>
  \<open>rcu_todo\<close> are the partitions whose callback waits for the readers, \<open>idr_warnings\<close>
  counts removals of numbers that are not allocated.
\<close>

record blk =
  disks :: "int \<rightharpoonup> gendisk"
  parts :: "int \<rightharpoonup> hd_struct"
  ext_devt_idr :: "int \<rightharpoonup> int"
  idr_warnings :: nat
  rcu_todo :: "int list"
  uevents :: "uevent list"

text \<open>
  What the kernel around the file provides: the allocator of numbers (an unused one or
  an error), the number of partitions a disk may have, whether it is scanned for
  partitions, the option that scatters minor numbers, the option of software RAID, the
  printing of numbers and the length of a jiffy.
\<close>

record gext =
  idr_alloc :: "(int \<rightharpoonup> int) \<Rightarrow> int + int"
  disk_max_parts :: "gendisk \<Rightarrow> int"
  scan_enabled :: "gendisk \<Rightarrow> bool"
  mangle_minors :: bool
  has_md :: bool
  print_int :: "int \<Rightarrow> string"
  jiffies_of :: "int \<Rightarrow> nat"

text \<open>Storing a disk or a partition at its address.\<close>

definition put_disk :: "int \<Rightarrow> gendisk \<Rightarrow> blk \<Rightarrow> blk" where
  "put_disk k d b = b\<lparr>disks := (disks b)(k \<mapsto> d)\<rparr>"

definition put_part :: "int \<Rightarrow> hd_struct \<Rightarrow> blk \<Rightarrow> blk" where
  "put_part p h b = b\<lparr>parts := (parts b)(p \<mapsto> h)\<rparr>"

text \<open>An entry of a table; outside the table there is none.\<close>

definition entry :: "'a list \<Rightarrow> int \<Rightarrow> 'a option" where
  "entry tbl i = (if 0 \<le> i \<and> i < int (length tbl) then Some (tbl ! nat i) else None)"

section \<open>Device numbers\<close>

abbreviation (input) MINORBITS :: nat where "MINORBITS \<equiv> 20"
abbreviation (input) BLOCK_EXT_MAJOR :: int where "BLOCK_EXT_MAJOR \<equiv> 259"

definition MKDEV :: "int \<Rightarrow> int \<Rightarrow> dev_t" where
  "MKDEV ma mi = push_bit MINORBITS (of_int ma) OR of_int mi"

definition MAJOR :: "dev_t \<Rightarrow> int" where
  "MAJOR dev = uint (drop_bit MINORBITS dev)"

definition MINOR :: "dev_t \<Rightarrow> int" where
  "MINOR dev = uint (take_bit MINORBITS dev)"

definition swap_bits :: "nat \<Rightarrow> u32 \<Rightarrow> u32" where
  "swap_bits i minor =
     (let low = minor AND push_bit i 1;
          high = minor AND push_bit (MINORBITS - 1 - i) 1;
          distance = MINORBITS - 1 - 2 * i
      in (minor XOR (low OR high)) OR (push_bit distance low OR drop_bit distance high))"

definition blk_mangle_minor :: "gext \<Rightarrow> int \<Rightarrow> int" where
  "blk_mangle_minor X minor =
     (if mangle_minors X then uint (fold swap_bits [0..<MINORBITS div 2] (of_int minor)) else minor)"

text \<open>The state, the result and the number.\<close>

definition blk_alloc_devt :: "gext \<Rightarrow> int \<Rightarrow> blk \<Rightarrow> (blk \<times> int \<times> dev_t) option" where
  "blk_alloc_devt X p b =
     do { h \<leftarrow> parts b p;
          d \<leftarrow> disks b (hd_disk h);
          if partno h < gd_minors d then Some (b, 0, MKDEV (gd_major d) (gd_first_minor d + partno h))
          else case idr_alloc X (ext_devt_idr b) of
                 Inl e \<Rightarrow> Some (b, if e = -ENOSPC then -EBUSY else e, 0)
               | Inr idx \<Rightarrow> Some (b\<lparr>ext_devt_idr := (ext_devt_idr b)(idx \<mapsto> p)\<rparr>, 0, MKDEV BLOCK_EXT_MAJOR (blk_mangle_minor X idx)) }"

definition idr_remove :: "int \<Rightarrow> blk \<Rightarrow> blk" where
  "idr_remove i b = (if ext_devt_idr b i = None then b\<lparr>idr_warnings := idr_warnings b + 1\<rparr> else b\<lparr>ext_devt_idr := (ext_devt_idr b)(i := None)\<rparr>)"

definition blk_free_devt :: "gext \<Rightarrow> dev_t \<Rightarrow> blk \<Rightarrow> blk" where
  "blk_free_devt X devt b =
     (if devt = MKDEV 0 0 then b
      else if MAJOR devt = BLOCK_EXT_MAJOR then idr_remove (blk_mangle_minor X (MINOR devt)) b else b)"

section \<open>References\<close>

text \<open>The last reference to a partition frees its number and its memory.\<close>

definition part_release :: "gext \<Rightarrow> int \<Rightarrow> blk \<Rightarrow> blk option" where
  "part_release X p b = do { h \<leftarrow> parts b p; let b1 = blk_free_devt X (hd_devt h) b; Some (b1\<lparr>parts := (parts b1)(p := None)\<rparr>) }"

text \<open>The last reference to the disk itself, whose device is that of partition 0.\<close>

definition disk_release :: "gext \<Rightarrow> int \<Rightarrow> blk \<Rightarrow> blk option" where
  "disk_release X k b =
     do { d \<leftarrow> disks b k;
          h \<leftarrow> parts b (part0 d);
          let b1 = blk_free_devt X (hd_devt h) b;
          Some (b1\<lparr>disks := (disks b1)(k := None), parts := (parts b1)(part0 d := None)\<rparr>) }"

definition get_device :: "int \<Rightarrow> blk \<Rightarrow> blk option" where
  "get_device p b = do { h \<leftarrow> parts b p; Some (put_part p (h\<lparr>hd_refs := hd_refs h + 1\<rparr>) b) }"

definition put_device :: "gext \<Rightarrow> int \<Rightarrow> blk \<Rightarrow> blk option" where
  "put_device X p b =
     do { h \<leftarrow> parts b p;
          d \<leftarrow> disks b (hd_disk h);
          if hd_refs h > 1 then Some (put_part p (h\<lparr>hd_refs := hd_refs h - 1\<rparr>) b)
          else if p = part0 d then disk_release X (hd_disk h) b else part_release X p b }"

definition disk_put_part :: "gext \<Rightarrow> int option \<Rightarrow> blk \<Rightarrow> blk option" where
  "disk_put_part X part b = (case part of None \<Rightarrow> Some b | Some p \<Rightarrow> put_device X p b)"

definition disk_get_part :: "int \<Rightarrow> int \<Rightarrow> blk \<Rightarrow> (blk \<times> int option) option" where
  "disk_get_part k n b =
     (if n < 0 then Some (b, None)
      else do { d \<leftarrow> disks b k;
                tbl \<leftarrow> part_tbl d;
                if n < int (length tbl)
                then do { e \<leftarrow> entry tbl n;
                          case e of None \<Rightarrow> Some (b, None) | Some p \<Rightarrow> do { b1 \<leftarrow> get_device p b; Some (b1, Some p) } }
                else Some (b, None) })"

section \<open>The iterator\<close>

record iter_flags =
  pi_reverse :: bool
  pi_empty :: bool
  pi_part0 :: bool
  pi_empty_part0 :: bool

record disk_part_iter =
  it_disk :: int
  it_part :: "int option"
  it_idx :: int
  it_flags :: iter_flags

definition disk_part_iter_init :: "int \<Rightarrow> iter_flags \<Rightarrow> blk \<Rightarrow> disk_part_iter option" where
  "disk_part_iter_init k f b =
     do { d \<leftarrow> disks b k;
          tbl \<leftarrow> part_tbl d;
          Some \<lparr>it_disk = k, it_part = None,
                it_idx = (if pi_reverse f then int (length tbl) - 1 else if pi_part0 f \<or> pi_empty_part0 f then 0 else 1),
                it_flags = f\<rparr> }"

text \<open>The index at which the scan stops, moved on, and the partition, if there is one.\<close>

function iter_scan :: "iter_flags \<Rightarrow> (int \<rightharpoonup> hd_struct) \<Rightarrow> int option list \<Rightarrow> int \<Rightarrow> int \<Rightarrow> (int \<times> int option) option" where
  "iter_scan f ps tbl en idx =
     (if idx = en then Some (idx, None)
      else case entry tbl idx of
        None \<Rightarrow> None
      | Some None \<Rightarrow> iter_scan f ps tbl en (if pi_reverse f then idx - 1 else idx + 1)
      | Some (Some p) \<Rightarrow>
          (case ps p of
             None \<Rightarrow> None
           | Some h \<Rightarrow>
               if nr_sects h = 0 \<and> \<not> pi_empty f \<and> \<not> (pi_empty_part0 f \<and> idx = 0)
               then iter_scan f ps tbl en (if pi_reverse f then idx - 1 else idx + 1)
               else Some (if pi_reverse f then idx - 1 else idx + 1, Some p)))"
  by pat_completeness auto

termination
  by (relation "measure (\<lambda>(f, ps, tbl, en, idx). if pi_reverse f then nat (idx + 1) else nat (int (length tbl) - idx))")
    (auto simp: entry_def split: if_splits)

declare iter_scan.simps [simp del]

definition disk_part_iter_next :: "gext \<Rightarrow> disk_part_iter \<Rightarrow> blk \<Rightarrow> (disk_part_iter \<times> blk) option" where
  "disk_part_iter_next X it b =
     do { b1 \<leftarrow> disk_put_part X (it_part it) b;
          d \<leftarrow> disks b1 (it_disk it);
          tbl \<leftarrow> part_tbl d;
          let f = it_flags it;
          let en = (if pi_reverse f then (if pi_part0 f \<or> pi_empty_part0 f then -1 else 0) else int (length tbl));
          (idx, part) \<leftarrow> iter_scan f (parts b1) tbl en (it_idx it);
          b2 \<leftarrow> (case part of None \<Rightarrow> Some b1 | Some p \<Rightarrow> get_device p b1);
          Some (it\<lparr>it_part := part, it_idx := idx\<rparr>, b2) }"

definition disk_part_iter_exit :: "gext \<Rightarrow> disk_part_iter \<Rightarrow> blk \<Rightarrow> blk option" where
  "disk_part_iter_exit X it b = disk_put_part X (it_part it) b"

text \<open>
  \<open>while ((part = disk_part_iter_next(&piter)))\<close> with a body that changes the state.
  A loop takes at most as many turns as the table has entries, and one more to see the
  end; the bound is the fuel.
\<close>

fun iter_loop :: "gext \<Rightarrow> (int \<Rightarrow> 'a \<Rightarrow> blk \<Rightarrow> ('a \<times> blk) option) \<Rightarrow> nat \<Rightarrow> disk_part_iter \<Rightarrow> 'a \<Rightarrow> blk \<Rightarrow> ('a \<times> blk) option" where
  "iter_loop X body 0 it a b = None"
| "iter_loop X body (Suc n) it a b =
     do { (it1, b1) \<leftarrow> disk_part_iter_next X it b;
          case it_part it1 of
            None \<Rightarrow> do { b2 \<leftarrow> disk_part_iter_exit X it1 b1; Some (a, b2) }
          | Some p \<Rightarrow> do { (a1, b2) \<leftarrow> body p a b1; iter_loop X body n it1 a1 b2 } }"

definition for_each_part :: "gext \<Rightarrow> int \<Rightarrow> iter_flags \<Rightarrow> (int \<Rightarrow> 'a \<Rightarrow> blk \<Rightarrow> ('a \<times> blk) option) \<Rightarrow> 'a \<Rightarrow> blk \<Rightarrow> ('a \<times> blk) option" where
  "for_each_part X k f body a b =
     do { d \<leftarrow> disks b k; tbl \<leftarrow> part_tbl d; it \<leftarrow> disk_part_iter_init k f b; iter_loop X body (length tbl + 1) it a b }"

abbreviation (input) no_flags :: iter_flags where
  "no_flags \<equiv> \<lparr>pi_reverse = False, pi_empty = False, pi_part0 = False, pi_empty_part0 = False\<rparr>"

section \<open>Sectors\<close>

definition sector_in_part :: "hd_struct \<Rightarrow> sector_t \<Rightarrow> bool" where
  "sector_in_part h sector \<longleftrightarrow> start_sect h \<le> sector \<and> sector < start_sect h + nr_sects h"

fun find_sector :: "(int \<rightharpoonup> hd_struct) \<Rightarrow> sector_t \<Rightarrow> int option list \<Rightarrow> int option option" where
  "find_sector ps sector [] = Some None"
| "find_sector ps sector (None # tbl) = find_sector ps sector tbl"
| "find_sector ps sector (Some p # tbl) = do { h \<leftarrow> ps p; if sector_in_part h sector then Some (Some p) else find_sector ps sector tbl }"

definition disk_map_sector_rcu :: "int \<Rightarrow> sector_t \<Rightarrow> blk \<Rightarrow> (blk \<times> int) option" where
  "disk_map_sector_rcu k sector b =
     do { d \<leftarrow> disks b k;
          tbl \<leftarrow> part_tbl d;
          hit \<leftarrow> (case last_lookup d of None \<Rightarrow> Some None | Some p \<Rightarrow> do { h \<leftarrow> parts b p; Some (if sector_in_part h sector then Some p else None) });
          case hit of
            Some p \<Rightarrow> Some (b, p)
          | None \<Rightarrow>
              do { found \<leftarrow> find_sector (parts b) sector (drop 1 tbl);
                   Some (case found of None \<Rightarrow> (b, part0 d) | Some p \<Rightarrow> (put_disk k (d\<lparr>last_lookup := Some p\<rparr>) b, p)) } }"

section \<open>Major numbers\<close>

type_synonym blk_major_name = "nat \<times> string"

definition major_to_index :: "nat \<Rightarrow> nat \<Rightarrow> nat" where
  "major_to_index hash_size major = major mod hash_size"

text \<open>The last empty chain but the first.\<close>

fun free_index :: "blk_major_name list list \<Rightarrow> nat \<Rightarrow> nat" where
  "free_index tbl 0 = 0"
| "free_index tbl (Suc i) = (if tbl ! Suc i = [] then Suc i else free_index tbl i)"

definition register_blkdev :: "bool \<Rightarrow> nat \<Rightarrow> string \<Rightarrow> blk_major_name list list \<Rightarrow> blk_major_name list list \<times> int" where
  "register_blkdev kmalloc major name tbl =
     (let m = (if major = 0 then free_index tbl (length tbl - 1) else major);
          i = major_to_index (length tbl) m
      in if m = 0 then (tbl, -EBUSY)
         else if \<not> kmalloc then (tbl, -ENOMEM)
         else if m \<in> fst ` set (tbl ! i) then (tbl, -EBUSY)
         else (tbl[i := tbl ! i @ [(m, take 15 name)]], if major = 0 then int m else 0))"

fun unlink_major :: "nat \<Rightarrow> string \<Rightarrow> blk_major_name list \<Rightarrow> blk_major_name list" where
  "unlink_major major name [] = []"
| "unlink_major major name ((m, s) # chain) =
     (if m = major then (if s = name then chain else (m, s) # chain) else (m, s) # unlink_major major name chain)"

definition unregister_blkdev :: "nat \<Rightarrow> string \<Rightarrow> blk_major_name list list \<Rightarrow> blk_major_name list list" where
  "unregister_blkdev major name tbl =
     (let i = major_to_index (length tbl) major in tbl[i := unlink_major major name (tbl ! i)])"

definition blkdev_show :: "gext \<Rightarrow> nat \<Rightarrow> blk_major_name list list \<Rightarrow> string list" where
  "blkdev_show X offset tbl =
     (if offset < length tbl then map (\<lambda>(m, s). (let n = print_int X (int m) in replicate (3 - length n) CHR 0x20 @ n) @ CHR 0x20 # s) (tbl ! offset) else [])"

section \<open>The partition table\<close>

definition disk_replace_part_tbl :: "int option list option \<Rightarrow> gendisk \<Rightarrow> gendisk" where
  "disk_replace_part_tbl new d = d\<lparr>part_tbl := new, last_lookup := None\<rparr>"

text \<open>\<open>target\<close> is computed with the wrap-around of a signed integer.\<close>

definition disk_expand_part_tbl :: "gext \<Rightarrow> bool \<Rightarrow> int \<Rightarrow> int \<Rightarrow> blk \<Rightarrow> (blk \<times> int) option" where
  "disk_expand_part_tbl X kzalloc k n b =
     do { d \<leftarrow> disks b k;
          let old = (case part_tbl d of None \<Rightarrow> [] | Some tbl \<Rightarrow> tbl);
          let target = sint (of_int (n + 1) :: u32);
          if target < 0 then Some (b, -EINVAL)
          else if disk_max_parts X d \<noteq> 0 \<and> target > disk_max_parts X d then Some (b, -EINVAL)
          else if target \<le> int (length old) then Some (b, 0)
          else if \<not> kzalloc then Some (b, -ENOMEM)
          else Some (put_disk k (disk_replace_part_tbl (Some (old @ replicate (nat target - length old) None)) d) b, 0) }"

section \<open>Lookups\<close>

text \<open>\<open>kobj_lookup\<close> finds the disk of a number outside the extended range; \<open>get_disk\<close> may fail.\<close>

definition get_gendisk :: "gext \<Rightarrow> (dev_t \<Rightarrow> (int \<times> int) option) \<Rightarrow> (int \<Rightarrow> bool) \<Rightarrow> dev_t \<Rightarrow> blk \<Rightarrow> (int \<times> int) option option" where
  "get_gendisk X kobj_lookup get_disk devt b =
     (if MAJOR devt \<noteq> BLOCK_EXT_MAJOR then Some (kobj_lookup devt)
      else case ext_devt_idr b (blk_mangle_minor X (MINOR devt)) of
             None \<Rightarrow> Some None
           | Some p \<Rightarrow> do { h \<leftarrow> parts b p; Some (if get_disk (hd_disk h) then Some (hd_disk h, partno h) else None) })"

definition bdget_disk :: "gext \<Rightarrow> (dev_t \<Rightarrow> bool) \<Rightarrow> int \<Rightarrow> int \<Rightarrow> blk \<Rightarrow> (blk \<times> dev_t option) option" where
  "bdget_disk X bdget k n b =
     do { (b1, part) \<leftarrow> disk_get_part k n b;
          dev \<leftarrow> (case part of None \<Rightarrow> Some None | Some p \<Rightarrow> do { h \<leftarrow> parts b1 p; Some (if bdget (hd_devt h) then Some (hd_devt h) else None) });
          b2 \<leftarrow> disk_put_part X part b1;
          Some (b2, dev) }"

text \<open>\<open>inval\<close> is what the buffer cache says about the device.\<close>

definition invalidate_partition :: "gext \<Rightarrow> (dev_t \<Rightarrow> bool) \<Rightarrow> (dev_t \<Rightarrow> int) \<Rightarrow> int \<Rightarrow> int \<Rightarrow> blk \<Rightarrow> (blk \<times> int) option" where
  "invalidate_partition X bdget inval k n b =
     do { (b1, dev) \<leftarrow> bdget_disk X bdget k n b; Some (b1, case dev of None \<Rightarrow> 0 | Some v \<Rightarrow> inval v) }"

text \<open>The disks in the order of the class, by name; the device number of a partition.\<close>

fun blk_lookup_devt :: "gext \<Rightarrow> string \<Rightarrow> int \<Rightarrow> int list \<Rightarrow> blk \<Rightarrow> (blk \<times> dev_t) option" where
  "blk_lookup_devt X name n [] b = Some (b, MKDEV 0 0)"
| "blk_lookup_devt X name n (k # ks) b =
     do { d \<leftarrow> disks b k;
          if disk_name_of d \<noteq> name then blk_lookup_devt X name n ks b
          else if n < gd_minors d
          then do { h \<leftarrow> parts b (part0 d); Some (b, MKDEV (MAJOR (hd_devt h)) (MINOR (hd_devt h) + n)) }
          else do { (b1, part) \<leftarrow> disk_get_part k n b;
                    case part of
                      None \<Rightarrow> blk_lookup_devt X name n ks b1
                    | Some p \<Rightarrow> do { h \<leftarrow> parts b1 p; b2 \<leftarrow> disk_put_part X part b1; Some (b2, hd_devt h) } } }"

section \<open>Events to user space\<close>

definition disk_uevent :: "gext \<Rightarrow> int \<Rightarrow> blk \<Rightarrow> (string list \<times> blk) option" where
  "disk_uevent X k b =
     do { (cnt, b1) \<leftarrow> for_each_part X k no_flags (\<lambda>p n b. Some (n + 1, b)) 0 b; Some ([''NPARTS='' @ print_int X cnt], b1) }"

definition part_uevent :: "gext \<Rightarrow> hd_struct \<Rightarrow> string list" where
  "part_uevent X h = (''PARTN='' @ print_int X (partno h)) # (if volname h \<noteq> [] then [''PARTNAME='' @ volname h] else [])"

text \<open>An event of a device, with the variables its type adds; a disk may suppress its own.\<close>

definition kobject_uevent_env :: "gext \<Rightarrow> (int \<Rightarrow> string list \<Rightarrow> uevent) \<Rightarrow> int \<Rightarrow> string list \<Rightarrow> blk \<Rightarrow> blk option" where
  "kobject_uevent_env X action p vars b =
     do { h \<leftarrow> parts b p;
          d \<leftarrow> disks b (hd_disk h);
          if p = part0 d
          then if uevent_suppress d then Some b
               else do { (env, b1) \<leftarrow> disk_uevent X (hd_disk h) b; Some (b1\<lparr>uevents := uevents b1 @ [action p (vars @ env)]\<rparr>) }
          else Some (b\<lparr>uevents := uevents b @ [action p (vars @ part_uevent X h)]\<rparr>) }"

definition kobject_uevent :: "gext \<Rightarrow> (int \<Rightarrow> string list \<Rightarrow> uevent) \<Rightarrow> int \<Rightarrow> blk \<Rightarrow> blk option" where
  "kobject_uevent X action p b = kobject_uevent_env X action p [] b"

definition set_disk_ro_uevent :: "gext \<Rightarrow> int \<Rightarrow> int \<Rightarrow> blk \<Rightarrow> blk option" where
  "set_disk_ro_uevent X p ro b = kobject_uevent_env X KOBJ_CHANGE p [if ro = 0 then ''DISK_RO=0'' else ''DISK_RO=1''] b"

definition set_disk_ro :: "gext \<Rightarrow> int \<Rightarrow> int \<Rightarrow> blk \<Rightarrow> blk option" where
  "set_disk_ro X k flag b =
     do { d \<leftarrow> disks b k;
          h \<leftarrow> parts b (part0 d);
          b1 \<leftarrow> (if policy h \<noteq> flag
                then do { b0 \<leftarrow> set_disk_ro_uevent X (part0 d) flag b;
                          h0 \<leftarrow> parts b0 (part0 d);
                          Some (put_part (part0 d) (h0\<lparr>policy := flag\<rparr>) b0) }
                else Some b);
          (u, b2) \<leftarrow> for_each_part X k (no_flags\<lparr>pi_empty := True\<rparr>)
             (\<lambda>p u b. do { h \<leftarrow> parts b p; Some (u, put_part p (h\<lparr>policy := flag\<rparr>) b) }) () b1;
          Some b2 }"

end
