(* ===== verification/Partitions.thy ===== *)
theory Partitions
  imports GenDisk
begin

text \<open>
  Partitions of \<open>patches/kernel/partition-generic.c\<close>: names, adding and deleting a
  partition with every error path, dropping all of them and scanning the disk again;
  and the parts of \<open>genhd.c\<close> that use them: allocating, adding and deleting a disk
  and the listing of \<open>/proc/partitions\<close>. What drivers, the device core and memory
  answer are arguments. The capacity and the read-only flag of a disk are those of its
  partition 0 and \<open>hd_struct_put\<close> counts down to \<open>__delete_partition\<close>, as the
  inline functions of \<open>linux/genhd.h\<close> do.
\<close>

abbreviation (input) EIO :: int where "EIO \<equiv> 5"

section \<open>Names\<close>

definition digit :: "char \<Rightarrow> bool" where
  "digit c \<longleftrightarrow> 48 \<le> (of_char c :: nat) \<and> (of_char c :: nat) \<le> 57"

text \<open>The character before an empty name is outside it.\<close>

definition disk_name :: "gext \<Rightarrow> gendisk \<Rightarrow> int \<Rightarrow> string option" where
  "disk_name X d n =
     (if n = 0 then Some (take 31 (disk_name_of d))
      else if disk_name_of d = [] then None
      else Some (take 31 (disk_name_of d @ (if digit (last (disk_name_of d)) then ''p'' else []) @ print_int X n)))"

section \<open>Adding a partition\<close>

text \<open>
  What \<open>add_partition\<close> is told: memory for a larger table, the new partition,
  statistics and information; the results of \<open>device_add\<close>, of the directory of
  holders and of the file \<open>whole_disk\<close>.
\<close>

record add_env =
  ae_tbl :: bool
  ae_part :: "int option"
  ae_stats :: bool
  ae_info :: bool
  ae_device :: int
  ae_holders :: bool
  ae_file :: int

definition get_disk_ro :: "int \<Rightarrow> blk \<Rightarrow> int option" where
  "get_disk_ro k b = do { d \<leftarrow> disks b k; h \<leftarrow> parts b (part0 d); Some (policy h) }"

definition get_capacity :: "int \<Rightarrow> blk \<Rightarrow> sector_t option" where
  "get_capacity k b = do { d \<leftarrow> disks b k; h \<leftarrow> parts b (part0 d); Some (nr_sects h) }"

definition set_capacity :: "int \<Rightarrow> sector_t \<Rightarrow> blk \<Rightarrow> blk option" where
  "set_capacity k c b = do { d \<leftarrow> disks b k; h \<leftarrow> parts b (part0 d); Some (put_part (part0 d) (h\<lparr>nr_sects := c\<rparr>) b) }"

text \<open>The tail \<open>out_put\<close>: the last reference is dropped, then the number is freed.\<close>

definition out_put :: "gext \<Rightarrow> int \<Rightarrow> dev_t \<Rightarrow> int \<Rightarrow> blk \<Rightarrow> (blk \<times> (int + int)) option" where
  "out_put X p devt err b = do { b1 \<leftarrow> put_device X p b; Some (blk_free_devt X devt b1, Inl err) }"

definition publish :: "gext \<Rightarrow> int \<Rightarrow> int \<Rightarrow> int \<Rightarrow> blk \<Rightarrow> (blk \<times> (int + int)) option" where
  "publish X k n p b =
     do { d \<leftarrow> disks b k;
          tbl \<leftarrow> part_tbl d;
          let b1 = put_disk k (d\<lparr>part_tbl := Some (tbl[nat n := Some p])\<rparr>) b;
          b2 \<leftarrow> (if uevent_suppress d then Some b1 else kobject_uevent X KOBJ_ADD p b1);
          h \<leftarrow> parts b2 p;
          Some (put_part p (h\<lparr>hd_ref := 1\<rparr>) b2, Inr p) }"

text \<open>From the number of the new partition on.\<close>

definition add_device :: "gext \<Rightarrow> add_env \<Rightarrow> int \<Rightarrow> int \<Rightarrow> int \<Rightarrow> bool \<Rightarrow> hd_struct \<Rightarrow> blk \<Rightarrow> (blk \<times> (int + int)) option" where
  "add_device X E k n p whole h b =
     do { (b1, err, devt) \<leftarrow> blk_alloc_devt X p (put_part p h b);
          if err \<noteq> 0 then Some (b1\<lparr>parts := (parts b1)(p := None)\<rparr>, Inl err)
          else let b2 = put_part p (h\<lparr>hd_devt := devt\<rparr>) b1 in
            if ae_device E \<noteq> 0 then out_put X p devt (ae_device E) b2
            else if \<not> ae_holders E then out_put X p devt (-ENOMEM) b2
            else if whole \<and> ae_file E \<noteq> 0
            then do { b3 \<leftarrow> kobject_uevent X KOBJ_REMOVE p b2; out_put X p devt (ae_file E) b3 }
            else publish X k n p b2 }"

text \<open>The result is the partition or an error pointer; \<open>Inl 0\<close> is the null pointer.\<close>

definition add_partition ::
    "gext \<Rightarrow> add_env \<Rightarrow> int \<Rightarrow> int \<Rightarrow> sector_t \<Rightarrow> sector_t \<Rightarrow> bool \<Rightarrow> string option \<Rightarrow> blk \<Rightarrow> (blk \<times> (int + int)) option" where
  "add_partition X E k n start len whole info b0 =
     do { (b, err) \<leftarrow> disk_expand_part_tbl X (ae_tbl E) k n b0;
          if err \<noteq> 0 then Some (b, Inl err)
          else do {
            d \<leftarrow> disks b k;
            tbl \<leftarrow> part_tbl d;
            e \<leftarrow> entry tbl n;
            if e \<noteq> None then Some (b, Inl (-EBUSY))
            else case ae_part E of
              None \<Rightarrow> Some (b, Inl (-EBUSY))
            | Some p \<Rightarrow>
                if \<not> ae_stats E then Some (b, Inl (-ENOMEM))
                else do {
                  ro \<leftarrow> get_disk_ro k b;
                  if info \<noteq> None \<and> \<not> ae_info E then Some (b, Inl err)
                  else add_device X E k n p whole
                         \<lparr>start_sect = start, nr_sects = len, partno = n, policy = ro, hd_devt = 0,
                          volname = (case info of None \<Rightarrow> [] | Some v \<Rightarrow> v), hd_disk = k, hd_refs = 1, hd_ref = 0\<rparr> b } } }"

section \<open>Deleting partitions\<close>

definition hd_struct_put :: "int \<Rightarrow> blk \<Rightarrow> blk option" where
  "hd_struct_put p b =
     do { h \<leftarrow> parts b p;
          let b1 = put_part p (h\<lparr>hd_ref := hd_ref h - 1\<rparr>) b;
          Some (if hd_ref h - 1 = 0 then b1\<lparr>rcu_todo := rcu_todo b1 @ [p]\<rparr> else b1) }"

definition delete_partition_rcu_cb :: "gext \<Rightarrow> int \<Rightarrow> blk \<Rightarrow> blk option" where
  "delete_partition_rcu_cb X p b = do { h \<leftarrow> parts b p; put_device X p (put_part p (h\<lparr>start_sect := 0, nr_sects := 0\<rparr>) b) }"

text \<open>The grace period is over: the callbacks run.\<close>

fun run_callbacks :: "gext \<Rightarrow> int list \<Rightarrow> blk \<Rightarrow> blk option" where
  "run_callbacks X [] b = Some b"
| "run_callbacks X (p # ps) b = do { b1 \<leftarrow> delete_partition_rcu_cb X p b; run_callbacks X ps b1 }"

definition rcu_barrier :: "gext \<Rightarrow> blk \<Rightarrow> blk option" where
  "rcu_barrier X b = run_callbacks X (rcu_todo b) (b\<lparr>rcu_todo := []\<rparr>)"

definition delete_partition :: "gext \<Rightarrow> int \<Rightarrow> int \<Rightarrow> blk \<Rightarrow> blk option" where
  "delete_partition X k n b =
     do { d \<leftarrow> disks b k;
          tbl \<leftarrow> part_tbl d;
          if n \<ge> int (length tbl) then Some b
          else do {
            e \<leftarrow> entry tbl n;
            case e of
              None \<Rightarrow> Some b
            | Some p \<Rightarrow>
                do { b1 \<leftarrow> kobject_uevent X KOBJ_REMOVE p (put_disk k (d\<lparr>part_tbl := Some (tbl[nat n := None]), last_lookup := None\<rparr>) b);
                     hd_struct_put p b1 } } }"

section \<open>Scanning\<close>

text \<open>A parsed entry and what the partition code makes of a disk.\<close>

record parsed_part =
  pp_from :: sector_t
  pp_size :: sector_t
  pp_whole :: bool
  pp_raid :: bool
  pp_volname :: string

datatype parsed = NoTable | TableError int | Table "parsed_part list" bool

text \<open>
  The answers around a scan: open partitions, the buffer cache, the capacity after the
  driver has looked at the medium, the parser, the driver's hook that unlocks the full
  capacity, and the answers to each addition.
\<close>

record scan_env =
  se_open :: int
  se_bdget :: "dev_t \<Rightarrow> bool"
  se_inval :: "dev_t \<Rightarrow> int"
  se_revalidate :: "sector_t \<Rightarrow> sector_t"
  se_check :: "blk \<Rightarrow> parsed"
  se_unlock :: "(sector_t \<Rightarrow> sector_t) option"
  se_tbl :: bool
  se_add :: "blk \<Rightarrow> nat \<Rightarrow> add_env"

definition disk_unlock_native_capacity :: "scan_env \<Rightarrow> int \<Rightarrow> blk \<Rightarrow> (blk \<times> bool) option" where
  "disk_unlock_native_capacity S k b =
     do { d \<leftarrow> disks b k;
          case se_unlock S of
            None \<Rightarrow> Some (b, False)
          | Some unlock \<Rightarrow>
              if fl_native d then Some (b, False)
              else do { c \<leftarrow> get_capacity k b; b1 \<leftarrow> set_capacity k (unlock c) b; Some (put_disk k (d\<lparr>fl_native := True\<rparr>) b1, True) } }"

definition drop_partitions :: "gext \<Rightarrow> scan_env \<Rightarrow> int \<Rightarrow> blk \<Rightarrow> (blk \<times> int) option" where
  "drop_partitions X S k b =
     (if se_open S \<noteq> 0 then Some (b, -EBUSY)
      else do { (b1, res) \<leftarrow> invalidate_partition X (se_bdget S) (se_inval S) k 0 b;
                if res \<noteq> 0 then Some (b1, res)
                else do { (u, b2) \<leftarrow> for_each_part X k (no_flags\<lparr>pi_empty := True\<rparr>)
                            (\<lambda>p u b. do { h \<leftarrow> parts b p; b1 \<leftarrow> delete_partition X k (partno h) b; Some (u, b1) }) () b1;
                          Some (b2, 0) } })"

datatype scan_step = Rescan blk | Scanned blk int

fun highest_part :: "nat \<Rightarrow> parsed_part list \<Rightarrow> nat" where
  "highest_part i [] = 0"
| "highest_part i (pp # pps) = (let h = highest_part (i + 1) pps in if h \<noteq> 0 then h else if pp_size pp \<noteq> 0 then i else 0)"

text \<open>The partition that is added is cut at the end of the disk.\<close>

fun add_parsed :: "gext \<Rightarrow> scan_env \<Rightarrow> int \<Rightarrow> nat \<Rightarrow> parsed_part list \<Rightarrow> blk \<Rightarrow> scan_step option" where
  "add_parsed X S k i [] b = Some (Scanned b 0)"
| "add_parsed X S k i (pp # pps) b =
     (if pp_size pp = 0 then add_parsed X S k (i + 1) pps b
      else do {
        cap \<leftarrow> get_capacity k b;
        if pp_from pp \<ge> cap
        then do { (b1, again) \<leftarrow> disk_unlock_native_capacity S k b;
                  if again then Some (Rescan b1) else add_parsed X S k (i + 1) pps b1 }
        else do {
          (b1, again) \<leftarrow> (if pp_from pp + pp_size pp > cap then disk_unlock_native_capacity S k b else Some (b, False));
          if again then Some (Rescan b1)
          else do {
            let size = (if pp_from pp + pp_size pp > cap then cap - pp_from pp else pp_size pp);
            (b2, part) \<leftarrow> add_partition X (se_add S b1 i) k (int i) (pp_from pp) size (pp_whole pp) (Some (pp_volname pp)) b1;
            if has_md X \<and> pp_raid pp \<and> part = Inl 0 then None
            else add_parsed X S k (i + 1) pps b2 } } })"

definition rescan_try :: "gext \<Rightarrow> scan_env \<Rightarrow> int \<Rightarrow> blk \<Rightarrow> scan_step option" where
  "rescan_try X S k b =
     do { (b1, res) \<leftarrow> drop_partitions X S k b;
          if res \<noteq> 0 then Some (Scanned b1 res)
          else do {
            c \<leftarrow> get_capacity k b1;
            b2 \<leftarrow> set_capacity k (se_revalidate S c) b1;
            d \<leftarrow> disks b2 k;
            let b3 = put_disk k (d\<lparr>bd_invalidated := False\<rparr>) b2;
            c3 \<leftarrow> get_capacity k b3;
            if c3 = 0 then Some (Scanned b3 0)
            else case se_check S b3 of
              NoTable \<Rightarrow> Some (Scanned b3 0)
            | TableError e \<Rightarrow>
                if e = -ENOSPC
                then do { (b4, again) \<leftarrow> disk_unlock_native_capacity S k b3; Some (if again then Rescan b4 else Scanned b4 (-EIO)) }
                else Some (Scanned b3 (-EIO))
            | Table pps beyond \<Rightarrow>
                do { (b4, again) \<leftarrow> (if beyond then disk_unlock_native_capacity S k b3 else Some (b3, False));
                     if again then Some (Rescan b4)
                     else do { d4 \<leftarrow> disks b4 k;
                               b5 \<leftarrow> kobject_uevent X KOBJ_CHANGE (part0 d4) b4;
                               (b6, err) \<leftarrow> disk_expand_part_tbl X (se_tbl S) k (int (highest_part 1 pps)) b5;
                               add_parsed X S k 1 pps b6 } } } }"

text \<open>The scan starts again at most once, because unlocking sets a flag that forbids it.\<close>

fun rescan_tries :: "nat \<Rightarrow> gext \<Rightarrow> scan_env \<Rightarrow> int \<Rightarrow> blk \<Rightarrow> (blk \<times> int) option" where
  "rescan_tries 0 X S k b = None"
| "rescan_tries (Suc n) X S k b =
     do { r \<leftarrow> rescan_try X S k b; case r of Rescan b1 \<Rightarrow> rescan_tries n X S k b1 | Scanned b1 res \<Rightarrow> Some (b1, res) }"

definition rescan_partitions :: "gext \<Rightarrow> scan_env \<Rightarrow> int \<Rightarrow> blk \<Rightarrow> (blk \<times> int) option" where
  "rescan_partitions X S k b = rescan_tries 2 X S k b"

definition invalidate_partitions :: "gext \<Rightarrow> scan_env \<Rightarrow> int \<Rightarrow> blk \<Rightarrow> (blk \<times> int) option" where
  "invalidate_partitions X S k b =
     do { d \<leftarrow> disks b k;
          if \<not> bd_invalidated d then Some (b, 0)
          else do { (b1, res) \<leftarrow> drop_partitions X S k b;
                    if res \<noteq> 0 then Some (b1, res)
                    else do { b2 \<leftarrow> set_capacity k 0 b1;
                              d2 \<leftarrow> disks b2 k;
                              b3 \<leftarrow> kobject_uevent X KOBJ_CHANGE (part0 d2) (put_disk k (d2\<lparr>bd_invalidated := False\<rparr>) b2);
                              Some (b3, 0) } } }"

section \<open>The life of a disk\<close>

text \<open>The addresses and the table are given when there is memory; the name is set by the driver.\<close>

definition alloc_disk :: "gext \<Rightarrow> (int \<times> int) option \<Rightarrow> bool \<Rightarrow> bool \<Rightarrow> int \<Rightarrow> blk \<Rightarrow> (blk \<times> int option) option" where
  "alloc_disk X mem stats tbl minors b =
     (case mem of
        None \<Rightarrow> Some (b, None)
      | Some (k, p0) \<Rightarrow>
          if \<not> stats then Some (b, None)
          else do {
            let d = \<lparr>gd_major = 0, gd_first_minor = 0, gd_minors = 0, disk_name_of = [], fl_ext_devt = False, fl_removable = False, fl_suppress = False,
                     fl_native = False, fl_up = False, part_tbl = None, last_lookup = None, part0 = p0, uevent_suppress = False, gd_ev = None,
                     gd_evmask = \<lparr>dk_events = 0, dk_async = 0\<rparr>, bd_invalidated = False\<rparr>;
            (b1, err) \<leftarrow> disk_expand_part_tbl X tbl k 0 (put_disk k d b);
            if err \<noteq> 0 then Some (b, None)
            else do {
              d1 \<leftarrow> disks b1 k;
              t \<leftarrow> part_tbl d1;
              let h = \<lparr>start_sect = 0, nr_sects = 0, partno = 0, policy = 0, hd_devt = 0, volname = [], hd_disk = k, hd_refs = 1, hd_ref = 1\<rparr>;
              Some (put_part p0 h (put_disk k (d1\<lparr>part_tbl := Some (t[0 := Some p0]), gd_minors := minors\<rparr>) b1), Some k) } })"

text \<open>
  \<open>open\<close> is the first open of the disk, which scans it. The events of the partitions
  follow that of the disk.
\<close>

definition register_disk :: "gext \<Rightarrow> bool \<Rightarrow> (dev_t \<Rightarrow> bool) \<Rightarrow> (blk \<Rightarrow> blk option) \<Rightarrow> int \<Rightarrow> blk \<Rightarrow> blk option" where
  "register_disk X added bdget open k b =
     do { d \<leftarrow> disks b k;
          let b1 = put_disk k (d\<lparr>uevent_suppress := True\<rparr>) b;
          if \<not> added then Some b1
          else do {
            c \<leftarrow> get_capacity k b1;
            b2 \<leftarrow> (if scan_enabled X d \<and> c \<noteq> 0
                  then do { (b1', dev) \<leftarrow> bdget_disk X bdget k 0 b1;
                            d1 \<leftarrow> disks b1' k;
                            if dev = None then Some b1' else open (put_disk k (d1\<lparr>bd_invalidated := True\<rparr>) b1') }
                  else Some b1);
            d2 \<leftarrow> disks b2 k;
            b3 \<leftarrow> kobject_uevent X KOBJ_ADD (part0 d2) (put_disk k (d2\<lparr>uevent_suppress := False\<rparr>) b2);
            (u, b4) \<leftarrow> for_each_part X k no_flags (\<lambda>p u b. do { b1 \<leftarrow> kobject_uevent X KOBJ_ADD p b; Some (u, b1) }) () b3;
            Some b4 } }"

definition add_disk :: "gext \<Rightarrow> int \<Rightarrow> bool \<Rightarrow> bool \<Rightarrow> bool \<Rightarrow> (dev_t \<Rightarrow> bool) \<Rightarrow> (blk \<Rightarrow> blk option) \<Rightarrow> int \<Rightarrow> blk \<Rightarrow> blk option" where
  "add_disk X dfl has_check kzalloc added bdget open k b =
     do { d \<leftarrow> disks b k;
          (b1, err, devt) \<leftarrow> blk_alloc_devt X (part0 d) (put_disk k (d\<lparr>fl_up := True\<rparr>) b);
          if err \<noteq> 0 then Some b1
          else do {
            h \<leftarrow> parts b1 (part0 d);
            d1 \<leftarrow> disks b1 k;
            let d2 = d1\<lparr>gd_major := MAJOR devt, gd_first_minor := MINOR devt, gd_ev := disk_alloc_events has_check kzalloc\<rparr>;
            b2 \<leftarrow> register_disk X added bdget open k (put_part (part0 d) (h\<lparr>hd_devt := devt\<rparr>) (put_disk k d2 b1));
            d3 \<leftarrow> disks b2 k;
            Some (put_disk k (d3\<lparr>gd_ev := fst (disk_add_events (jiffies_of X) dfl (gd_evmask d3) (gd_ev d3))\<rparr>) b2) } }"

definition del_gendisk :: "gext \<Rightarrow> (dev_t \<Rightarrow> bool) \<Rightarrow> (dev_t \<Rightarrow> int) \<Rightarrow> int \<Rightarrow> blk \<Rightarrow> blk option" where
  "del_gendisk X bdget inval k b =
     do { d \<leftarrow> disks b k;
          (u, b1) \<leftarrow> for_each_part X k (no_flags\<lparr>pi_empty := True, pi_reverse := True\<rparr>)
             (\<lambda>p u b. do { h \<leftarrow> parts b p;
                            (b1, res) \<leftarrow> invalidate_partition X bdget inval k (partno h) b;
                            b2 \<leftarrow> delete_partition X k (partno h) b1;
                            Some (u, b2) }) () (put_disk k (d\<lparr>gd_ev := fst (disk_del_events (gd_ev d))\<rparr>) b);
          (b2, res) \<leftarrow> invalidate_partition X bdget inval k 0 b1;
          b3 \<leftarrow> set_capacity k 0 b2;
          d3 \<leftarrow> disks b3 k;
          kobject_uevent X KOBJ_REMOVE (part0 d3) (put_disk k (d3\<lparr>fl_up := False\<rparr>) b3) }"

section \<open>The listing\<close>

text \<open>A row: major, minor, size in blocks of two sectors, name.\<close>

definition show_partition :: "gext \<Rightarrow> int \<Rightarrow> blk \<Rightarrow> ((int \<times> int \<times> sector_t \<times> string) list \<times> blk) option" where
  "show_partition X k b =
     do { d \<leftarrow> disks b k;
          c \<leftarrow> get_capacity k b;
          if c = 0 \<or> disk_max_parts X d = 0 \<and> fl_removable d then Some ([], b)
          else if fl_suppress d then Some ([], b)
          else for_each_part X k (no_flags\<lparr>pi_part0 := True\<rparr>)
             (\<lambda>p rows b. do { h \<leftarrow> parts b p; d \<leftarrow> disks b k; name \<leftarrow> disk_name X d (partno h);
                               Some (rows @ [(MAJOR (hd_devt h), MINOR (hd_devt h), drop_bit 1 (nr_sects h), name)], b) }) [] b }"

end
