(* ===== verification/BlkNumbers.thy ===== *)
theory BlkNumbers
  imports GenDisk
begin

text \<open>
  The table of major numbers as a finite map, and the device numbers of partitions:
  scattered minor numbers come back, and an allocated number finds its partition.
\<close>

section \<open>Major numbers\<close>

text \<open>A number is in the chain its remainder selects, once, with a name of at most 15 characters.\<close>

definition majors_ok :: "blk_major_name list list \<Rightarrow> bool" where
  "majors_ok tbl \<longleftrightarrow> 1 < length tbl \<and> (\<forall>i<length tbl. distinct (map fst (tbl ! i)) \<and> (\<forall>(m, s)\<in>set (tbl ! i). m mod length tbl = i \<and> length s \<le> 15))"

definition majors_of :: "blk_major_name list list \<Rightarrow> nat \<Rightarrow> string option" where
  "majors_of tbl m = map_of (tbl ! (m mod length tbl)) m"

lemma majors_of_update:
  assumes "m mod length tbl < length tbl"
  shows "majors_of (tbl[m mod length tbl := c]) n = (if n mod length tbl = m mod length tbl then map_of c n else majors_of tbl n)"
  using assms by (simp add: majors_of_def)

lemma free_index_spec:
  shows "free_index tbl i \<le> i" "0 < free_index tbl i \<Longrightarrow> tbl ! free_index tbl i = []" "free_index tbl i = 0 \<Longrightarrow> \<forall>j. 0 < j \<and> j \<le> i \<longrightarrow> tbl ! j \<noteq> []"
proof -
  have "free_index tbl i \<le> i \<and> (0 < free_index tbl i \<longrightarrow> tbl ! free_index tbl i = []) \<and> (free_index tbl i = 0 \<longrightarrow> (\<forall>j. 0 < j \<and> j \<le> i \<longrightarrow> tbl ! j \<noteq> []))"
    by (induction i) (auto simp: le_Suc_eq)
  then show "free_index tbl i \<le> i" "0 < free_index tbl i \<Longrightarrow> tbl ! free_index tbl i = []" "free_index tbl i = 0 \<Longrightarrow> \<forall>j. 0 < j \<and> j \<le> i \<longrightarrow> tbl ! j \<noteq> []"
    by blast+
qed

lemma majors_ok_append:
  assumes ok: "majors_ok tbl" and new: "m \<notin> fst ` set (tbl ! (m mod length tbl))" and s: "length s \<le> 15"
  shows "majors_ok (tbl[m mod length tbl := tbl ! (m mod length tbl) @ [(m, s)]])"
  unfolding majors_ok_def
proof (intro conjI allI impI)
  show "1 < length (tbl[m mod length tbl := tbl ! (m mod length tbl) @ [(m, s)]])" using ok by (simp add: majors_ok_def)
  fix i assume i: "i < length (tbl[m mod length tbl := tbl ! (m mod length tbl) @ [(m, s)]])"
  then have c: "distinct (map fst (tbl ! i))" "\<forall>(m, s)\<in>set (tbl ! i). m mod length tbl = i \<and> length s \<le> 15" using ok by (simp_all add: majors_ok_def)
  show "distinct (map fst (tbl[m mod length tbl := tbl ! (m mod length tbl) @ [(m, s)]] ! i))"
    using c new i by (cases "i = m mod length tbl") simp_all
  show "\<forall>(m', s')\<in>set (tbl[m mod length tbl := tbl ! (m mod length tbl) @ [(m, s)]] ! i). m' mod length (tbl[m mod length tbl := tbl ! (m mod length tbl) @ [(m, s)]]) = i \<and> length s' \<le> 15"
    using c s i by (cases "i = m mod length tbl") auto
qed

lemma unlink_spec:
  assumes "distinct (map fst c)"
  shows "set (unlink_major m s c) \<subseteq> set c" "distinct (map fst (unlink_major m s c))"
    "map_of (unlink_major m s c) n = (if n = m \<and> map_of c m = Some s then None else map_of c n)"
proof -
  have "set (unlink_major m s c) \<subseteq> set c \<and> distinct (map fst (unlink_major m s c))
    \<and> (\<forall>n. map_of (unlink_major m s c) n = (if n = m \<and> map_of c m = Some s then None else map_of c n))"
    using assms
  proof (induction c)
    case (Cons x c)
    obtain a r where x: "x = (a, r)" by (cases x)
    have ih: "set (unlink_major m s c) \<subseteq> set c" "distinct (map fst (unlink_major m s c))"
      "map_of (unlink_major m s c) n = (if n = m \<and> map_of c m = Some s then None else map_of c n)" for n
      using Cons.IH Cons.prems by simp_all
    have "map_of c a = None" using Cons.prems by (simp add: x map_of_eq_None_iff)
    moreover have "a \<notin> fst ` set (unlink_major m s c)" using ih(1) Cons.prems by (auto simp: x)
    ultimately show ?case using ih Cons.prems by (auto simp: x)
  qed simp
  then show "set (unlink_major m s c) \<subseteq> set c" "distinct (map fst (unlink_major m s c))"
    "map_of (unlink_major m s c) n = (if n = m \<and> map_of c m = Some s then None else map_of c n)" by blast+
qed

lemma majors_ok_unlink:
  assumes "majors_ok tbl"
  shows "majors_ok (tbl[j := unlink_major m s (tbl ! j)])"
  unfolding majors_ok_def
proof (intro conjI allI impI)
  show "1 < length (tbl[j := unlink_major m s (tbl ! j)])" using assms by (simp add: majors_ok_def)
  fix i assume "i < length (tbl[j := unlink_major m s (tbl ! j)])"
  then have i: "i < length tbl" "distinct (map fst (tbl ! i))" "\<forall>(m, s)\<in>set (tbl ! i). m mod length tbl = i \<and> length s \<le> 15"
    using assms by (simp_all add: majors_ok_def)
  show "distinct (map fst (tbl[j := unlink_major m s (tbl ! j)] ! i))"
    using i unlink_spec(2) [OF i(2)] by (cases "i = j") simp_all
  show "\<forall>(m', s')\<in>set (tbl[j := unlink_major m s (tbl ! j)] ! i). m' mod length (tbl[j := unlink_major m s (tbl ! j)]) = i \<and> length s' \<le> 15"
    using i(1,3) unlink_spec(1) [OF i(2), of m s] by (cases "i = j") (simp_all, blast)
qed

lemma register_spec:
  assumes ok: "majors_ok tbl"
  shows "\<exists>tbl' ret. register_blkdev mem major name tbl = (tbl', ret) \<and> majors_ok tbl'
    \<and> (if ret < 0 then tbl' = tbl \<and> (ret = -ENOMEM \<and> \<not> mem
            \<or> ret = -EBUSY \<and> (if major = 0 then \<forall>j. 0 < j \<and> j < length tbl \<longrightarrow> tbl ! j \<noteq> [] else majors_of tbl major \<noteq> None))
       else let m = (if major = 0 then nat ret else major) in
            majors_of tbl m = None \<and> majors_of tbl' = (majors_of tbl)(m \<mapsto> take 15 name) \<and> (if major = 0 then 0 < m \<and> m < length tbl else ret = 0))"
proof -
  have L: "1 < length tbl" using ok by (simp add: majors_ok_def)
  have ix: "n mod length tbl < length tbl" for n using L by (intro mod_less_divisor) linarith
  show "\<exists>tbl' ret. register_blkdev mem major name tbl = (tbl', ret) \<and> majors_ok tbl'
    \<and> (if ret < 0 then tbl' = tbl \<and> (ret = -ENOMEM \<and> \<not> mem
            \<or> ret = -EBUSY \<and> (if major = 0 then \<forall>j. 0 < j \<and> j < length tbl \<longrightarrow> tbl ! j \<noteq> [] else majors_of tbl major \<noteq> None))
       else let m = (if major = 0 then nat ret else major) in
            majors_of tbl m = None \<and> majors_of tbl' = (majors_of tbl)(m \<mapsto> take 15 name) \<and> (if major = 0 then 0 < m \<and> m < length tbl else ret = 0))"
  proof -
    define m where "m = (if major = 0 then free_index tbl (length tbl - 1) else major)"
    have fi: "free_index tbl (length tbl - 1) < length tbl" "0 < free_index tbl (length tbl - 1) \<Longrightarrow> tbl ! free_index tbl (length tbl - 1) = []"
      "free_index tbl (length tbl - 1) = 0 \<Longrightarrow> \<forall>j. 0 < j \<and> j < length tbl \<longrightarrow> tbl ! j \<noteq> []"
      using free_index_spec [of tbl "length tbl - 1"] L by fastforce+
    have used: "m \<in> fst ` set (tbl ! (m mod length tbl)) \<longleftrightarrow> majors_of tbl m \<noteq> None"
      unfolding majors_of_def by (simp add: map_of_eq_None_iff)
    have fresh: "majors_of tbl m = None" if "major = 0" "m \<noteq> 0"
      using that fi(1,2) by (simp add: m_def majors_of_def)
    have r: "register_blkdev mem major name tbl =
       (if m = 0 then (tbl, -EBUSY) else if \<not> mem then (tbl, -ENOMEM) else if majors_of tbl m \<noteq> None then (tbl, -EBUSY)
        else (tbl[m mod length tbl := tbl ! (m mod length tbl) @ [(m, take 15 name)]], if major = 0 then int m else 0))"
      unfolding used [symmetric] by (simp add: register_blkdev_def m_def [symmetric] major_to_index_def Let_def)
    have new: "majors_of (tbl[m mod length tbl := tbl ! (m mod length tbl) @ [(m, take 15 name)]]) = (majors_of tbl)(m \<mapsto> take 15 name)" if "majors_of tbl m = None"
    proof
      fix n show "majors_of (tbl[m mod length tbl := tbl ! (m mod length tbl) @ [(m, take 15 name)]]) n = ((majors_of tbl)(m \<mapsto> take 15 name)) n"
        using that unfolding majors_of_update [OF ix] by (auto simp: majors_of_def map_add_def split: option.splits)
    qed
    have app: "majors_ok (tbl[m mod length tbl := tbl ! (m mod length tbl) @ [(m, take 15 name)]])" if "majors_of tbl m = None"
      by (rule majors_ok_append [OF ok]) (use that used in simp_all)
    show ?thesis
    proof (cases "m = 0 \<or> \<not> mem \<or> majors_of tbl m \<noteq> None")
      case True
      then show ?thesis using r ok fi(3) fresh by (cases "m = 0"; cases mem) (auto simp: m_def split: if_splits)
    next
      case False
      then show ?thesis using r app new fi(1) by (auto simp: m_def Let_def)
    qed
  qed
qed

lemma unregister_spec:
  assumes ok: "majors_ok tbl"
  shows "majors_ok (unregister_blkdev major name tbl)"
    "majors_of (unregister_blkdev major name tbl) = (if majors_of tbl major = Some name then (majors_of tbl)(major := None) else majors_of tbl)"
proof -
  have L: "1 < length tbl" using ok by (simp add: majors_ok_def)
  have ix: "n mod length tbl < length tbl" for n using L by (intro mod_less_divisor) linarith
  have c: "distinct (map fst (tbl ! (major mod length tbl)))" using ok ix by (simp add: majors_ok_def)
  show "majors_ok (unregister_blkdev major name tbl)"
    using majors_ok_unlink [OF ok] by (simp add: unregister_blkdev_def Let_def)
  show "majors_of (unregister_blkdev major name tbl) = (if majors_of tbl major = Some name then (majors_of tbl)(major := None) else majors_of tbl)"
  proof
    fix n show "majors_of (unregister_blkdev major name tbl) n = (if majors_of tbl major = Some name then (majors_of tbl)(major := None) else majors_of tbl) n"
      unfolding unregister_blkdev_def Let_def major_to_index_def majors_of_update [OF ix] unlink_spec(3) [OF c] by (auto simp: majors_of_def)
  qed
qed

text \<open>
  C29. The table of major numbers is a finite map from numbers to names. Registering a
  number enters it if it is free and is refused with \<open>-EBUSY\<close> otherwise; asking for
  any number, with 0, gives an unused one below the size of the table, or \<open>-EBUSY\<close>
  when no chain but the first is empty. Unregistering removes exactly the number whose
  name is given. Refused calls and calls without memory change nothing.
\<close>

theorem majors_refine_map:
  assumes "majors_ok tbl"
  shows "(\<exists>tbl' ret. register_blkdev mem major name tbl = (tbl', ret) \<and> majors_ok tbl'
    \<and> (if ret < 0 then tbl' = tbl \<and> (ret = -ENOMEM \<and> \<not> mem
            \<or> ret = -EBUSY \<and> (if major = 0 then \<forall>j. 0 < j \<and> j < length tbl \<longrightarrow> tbl ! j \<noteq> [] else majors_of tbl major \<noteq> None))
       else let m = (if major = 0 then nat ret else major) in
            majors_of tbl m = None \<and> majors_of tbl' = (majors_of tbl)(m \<mapsto> take 15 name) \<and> (if major = 0 then 0 < m \<and> m < length tbl else ret = 0)))
    \<and> majors_ok (unregister_blkdev major name tbl)
    \<and> majors_of (unregister_blkdev major name tbl) = (if majors_of tbl major = Some name then (majors_of tbl)(major := None) else majors_of tbl)"
  using register_spec [OF assms, of mem major name] unregister_spec [OF assms, of major name] by blast

text \<open>
  A name of more than 15 characters is cut when it is stored and compared whole when
  it is removed, so a device with such a name can never be unregistered.
\<close>

theorem long_name_stays:
  assumes ok: "majors_ok tbl" and "15 < length name" and "major \<noteq> 0" and "majors_of tbl major = None"
  shows "majors_of (unregister_blkdev major name (fst (register_blkdev True major name tbl))) major = Some (take 15 name)"
proof -
  obtain tbl' ret where r: "register_blkdev True major name tbl = (tbl', ret)" "majors_ok tbl'"
    "if ret < 0 then tbl' = tbl \<and> (ret = -ENOMEM \<and> \<not> True
            \<or> ret = -EBUSY \<and> (if major = 0 then \<forall>j. 0 < j \<and> j < length tbl \<longrightarrow> tbl ! j \<noteq> [] else majors_of tbl major \<noteq> None))
       else let m = (if major = 0 then nat ret else major) in
            majors_of tbl m = None \<and> majors_of tbl' = (majors_of tbl)(m \<mapsto> take 15 name) \<and> (if major = 0 then 0 < m \<and> m < length tbl else ret = 0)"
    using register_spec [OF ok, of True major name] by blast
  then have m: "majors_of tbl' major = Some (take 15 name)" using assms(3,4) by (auto split: if_splits)
  have "take 15 name \<noteq> name" using assms(2) by (metis length_take min.absorb2 nat_neq_iff order_less_imp_le)
  then show ?thesis using unregister_spec(2) [OF r(2), of major name] m r(1) by simp
qed

section \<open>Device numbers\<close>

lemma bit_swap_bits:
  assumes "i < 10"
  shows "bit (swap_bits i w) j \<longleftrightarrow> bit w (if j = i then 19 - i else if j = 19 - i then i else j)"
proof -
  let ?D = "20 - 1 - 2 * i" and ?low = "w AND push_bit i 1" and ?high = "w AND push_bit (20 - 1 - i) 1"
  have low: "bit ?low n \<longleftrightarrow> n = i \<and> bit w i" and high: "bit ?high n \<longleftrightarrow> n = 19 - i \<and> bit w (19 - i)" for n
    using assms by (auto simp: bit_and_iff bit_exp_iff)
  have D: "?D \<le> n \<and> n - ?D = i \<longleftrightarrow> n = 19 - i" "?D + n = 19 - i \<longleftrightarrow> n = i" for n using assms by auto
  have up: "bit (push_bit ?D ?low) j \<longleftrightarrow> j = 19 - i \<and> bit w i"
    using D(1) [of j] assms unfolding bit_push_bit_iff low by auto
  have down: "bit (drop_bit ?D ?high) j \<longleftrightarrow> j = i \<and> bit w (19 - i)"
    using D(2) [of j] unfolding bit_drop_bit_eq comp_def high by auto
  have "bit (swap_bits i w) j \<longleftrightarrow> (bit w j \<noteq> (bit ?low j \<or> bit ?high j)) \<or> bit (push_bit ?D ?low) j \<or> bit (drop_bit ?D ?high) j"
    unfolding swap_bits_def Let_def bit_or_iff bit_xor_iff by blast
  then show ?thesis unfolding up down low high using assms by auto
qed

lemma bit_swapped:
  assumes "n \<le> 10"
  shows "bit (fold swap_bits [0..<n] w) j \<longleftrightarrow> bit w (if j < n \<or> 20 - n \<le> j \<and> j < 20 then 19 - j else j)"
  using assms
proof (induction n arbitrary: j)
  case (Suc n)
  then have "bit (fold swap_bits [0..<Suc n] w) j \<longleftrightarrow> bit (fold swap_bits [0..<n] w) (if j = n then 19 - n else if j = 19 - n then n else j)"
    by (simp add: bit_swap_bits)
  also have "\<dots> \<longleftrightarrow> bit w (if j < Suc n \<or> 20 - Suc n \<le> j \<and> j < 20 then 19 - j else j)"
  proof -
    define i where "i = (if j = n then 19 - n else if j = 19 - n then n else j)"
    have "(if i < n \<or> 20 - n \<le> i \<and> i < 20 then 19 - i else i) = (if j < Suc n \<or> 20 - Suc n \<le> j \<and> j < 20 then 19 - j else j)"
      using Suc.prems unfolding i_def by (cases "j = n"; cases "j = 19 - n") auto
    then show ?thesis using Suc.IH [of i] Suc.prems by (simp add: i_def)
  qed
  finally show ?case .
qed auto

lemma mangle_word: "fold swap_bits [0..<10] (fold swap_bits [0..<10] w) = w"
  by (rule bit_word_eqI) (auto simp: bit_swapped)

lemma low_bits:
  assumes "0 \<le> x" and "x < 2 ^ k" and "bit (of_int x :: 'a::len word) n"
  shows "n < k"
proof -
  have "take_bit k x = x" using assms(1,2) by (simp add: take_bit_int_eq_self)
  moreover have "bit x n" using assms(3) by (simp add: bit_of_int_iff)
  ultimately show ?thesis by (metis bit_take_bit_iff)
qed

lemma uint_bits:
  assumes "\<And>n. bit (w :: u32) n \<Longrightarrow> n < k"
  shows "uint w < 2 ^ k"
proof -
  have "take_bit k w = w" by (rule bit_word_eqI) (use assms in \<open>auto simp: bit_take_bit_iff\<close>)
  then have "uint w = take_bit k (uint w)" by (metis unsigned_take_bit_eq)
  then show ?thesis by (metis take_bit_int_less_exp)
qed

lemma mangle_involution:
  assumes "0 \<le> i" and "i < 2 ^ 20"
  shows "0 \<le> blk_mangle_minor X i" "blk_mangle_minor X i < 2 ^ 20" "blk_mangle_minor X (blk_mangle_minor X i) = i"
proof -
  let ?w = "fold swap_bits [0..<10] (of_int i :: u32)"
  have "uint (of_int i :: u32) = i" using assms by (simp add: uint_word_of_int take_bit_int_eq_self)
  then have m: "uint (fold swap_bits [0..<10] (of_int (uint ?w))) = i" by (simp add: mangle_word)
  have "n < 20" if "bit ?w n" for n
    using that low_bits [OF assms, of n] by (auto simp: bit_swapped split: if_splits)
  then have "uint ?w < 2 ^ 20" by (rule uint_bits)
  then show "0 \<le> blk_mangle_minor X i" "blk_mangle_minor X i < 2 ^ 20" "blk_mangle_minor X (blk_mangle_minor X i) = i"
    using assms m by (simp_all add: blk_mangle_minor_def)
qed

lemma MKDEV_parts:
  assumes "0 \<le> ma" "ma < 2 ^ 12" "0 \<le> mi" "mi < 2 ^ 20"
  shows "MAJOR (MKDEV ma mi) = ma" "MINOR (MKDEV ma mi) = mi"
proof -
  have A: "bit (of_int ma :: u32) n \<Longrightarrow> n < 12" and B: "bit (of_int mi :: u32) n \<Longrightarrow> n < 20" for n
    by (rule low_bits [OF assms(1,2)], assumption) (rule low_bits [OF assms(3,4)])
  have "drop_bit 20 (MKDEV ma mi) = of_int ma"
    unfolding MKDEV_def by (rule bit_word_eqI) (auto simp: bit_drop_bit_eq bit_or_iff bit_push_bit_iff dest: A B)
  then show "MAJOR (MKDEV ma mi) = ma" using assms by (simp add: MAJOR_def uint_word_of_int take_bit_int_eq_self)
  have "take_bit 20 (MKDEV ma mi) = of_int mi"
    unfolding MKDEV_def by (rule bit_word_eqI) (auto simp: bit_take_bit_iff bit_or_iff bit_push_bit_iff dest: B)
  then show "MINOR (MKDEV ma mi) = mi" using assms by (simp add: MINOR_def uint_word_of_int take_bit_int_eq_self)
qed

text \<open>What the allocator of numbers promises.\<close>

definition idr_ok :: "gext \<Rightarrow> bool" where
  "idr_ok X \<longleftrightarrow> (\<forall>m i. idr_alloc X m = Inr i \<longrightarrow> 0 \<le> i \<and> i < 2 ^ 20 \<and> m i = None) \<and> (\<forall>m e. idr_alloc X m = Inl e \<longrightarrow> e < 0)"

text \<open>
  C30. A partition beyond the consecutive minor numbers of its disk gets an extended
  number under which \<open>get_gendisk\<close> finds exactly its disk and its place, whether minor
  numbers are scattered or not; freeing the number gives the table of numbers back as it
  was.
\<close>

theorem ext_devt_roundtrip:
  assumes X: "idr_ok X" and h: "parts b p = Some h" and d: "disks b (hd_disk h) = Some d" and ext: "gd_minors d \<le> partno h"
    and a: "blk_alloc_devt X p b = Some (b', 0, devt)"
  shows "get_gendisk X kobj_lookup (\<lambda>_. True) devt b' = Some (Some (hd_disk h, partno h)) \<and> MAJOR devt = BLOCK_EXT_MAJOR \<and> blk_free_devt X devt b' = b"
proof -
  obtain i where i: "idr_alloc X (ext_devt_idr b) = Inr i" "b' = b\<lparr>ext_devt_idr := (ext_devt_idr b)(i \<mapsto> p)\<rparr>" "devt = MKDEV BLOCK_EXT_MAJOR (blk_mangle_minor X i)"
    using a h d ext X by (auto simp: blk_alloc_devt_def idr_ok_def split: sum.splits if_splits)
  then have r: "0 \<le> i" "i < 2 ^ 20" "ext_devt_idr b i = None" using X by (auto simp: idr_ok_def)
  note m = mangle_involution [OF r(1,2), of X]
  have dev: "MAJOR devt = BLOCK_EXT_MAJOR" "MINOR devt = blk_mangle_minor X i"
    using MKDEV_parts [of BLOCK_EXT_MAJOR "blk_mangle_minor X i"] m i(3) by simp_all
  have "devt \<noteq> MKDEV 0 0" using dev(1) MKDEV_parts(1) [of 0 0] by auto
  moreover have "b'\<lparr>ext_devt_idr := (ext_devt_idr b')(i := None)\<rparr> = b" using i(2) r(3) by (simp add: fun_upd_idem)
  ultimately have "blk_free_devt X devt b' = b" using dev m(3) i(2) by (simp add: blk_free_devt_def idr_remove_def)
  then show ?thesis using dev m(3) i(2) h by (simp add: get_gendisk_def)
qed

section \<open>Instances\<close>

text \<open>Numbers are given out from the first unused one of the first eight.\<close>

definition demo_gext :: gext where
  "demo_gext = \<lparr>idr_alloc = (\<lambda>m. case find (\<lambda>i. m i = None) [0, 1, 2, 3, 4, 5, 6, 7] of None \<Rightarrow> Inl (-ENOSPC) | Some i \<Rightarrow> Inr i),
     disk_max_parts = (\<lambda>_. 256), scan_enabled = (\<lambda>_. True), mangle_minors = True, has_md = False, print_int = (\<lambda>n. replicate (nat n) CHR ''1''),
     jiffies_of = jiffies100\<rparr>"

lemma demo_idr: "idr_ok demo_gext"
  by (auto simp: idr_ok_def demo_gext_def find_Some_iff split: option.splits)

definition demo_gendisk :: gendisk where
  "demo_gendisk = \<lparr>gd_major = 179, gd_first_minor = 0, gd_minors = 2, disk_name_of = ''mmcblk0'', fl_ext_devt = True, fl_removable = False, fl_suppress = False,
     fl_native = False, fl_up = True, part_tbl = Some [Some 10, Some 11, None, Some 13], last_lookup = None, part0 = 10, uevent_suppress = False, gd_ev = None,
     gd_evmask = sd_disk, bd_invalidated = False\<rparr>"

definition demo_hd :: "int \<Rightarrow> sector_t \<Rightarrow> sector_t \<Rightarrow> hd_struct" where
  "demo_hd n start len = \<lparr>start_sect = start, nr_sects = len, partno = n, policy = 0, hd_devt = 0, volname = [], hd_disk = 1, hd_refs = 1, hd_ref = 1\<rparr>"

definition demo_blk :: blk where
  "demo_blk = \<lparr>disks = [1 \<mapsto> demo_gendisk], parts = [10 \<mapsto> demo_hd 0 0 1000, 11 \<mapsto> demo_hd 1 8 100, 13 \<mapsto> demo_hd 3 200 50], ext_devt_idr = Map.empty,
     idr_warnings = 0, rcu_todo = [], uevents = []\<rparr>"

theorem majors_refine_map_witness:
  "majors_of (fst (register_blkdev True 0 ''mmc'' [[], [], []])) 2 = Some ''mmc''"
proof -
  have "majors_ok [[], [], []]" by (simp add: majors_ok_def less_Suc_eq)
  then show ?thesis using majors_refine_map [of "[[], [], []]" True 0 "''mmc''"] by (auto simp: register_blkdev_def Let_def major_to_index_def majors_of_def)
qed

theorem long_name_stays_witness:
  "majors_of (unregister_blkdev 7 ''a name of twenty chars'' (fst (register_blkdev True 7 ''a name of twenty chars'' [[], [], []]))) 7 = Some ''a name of twent''"
proof -
  have "majors_ok [[], [], []]" by (simp add: majors_ok_def less_Suc_eq)
  then show ?thesis using long_name_stays [of "[[], [], []]" "''a name of twenty chars''" 7] by (simp add: majors_of_def)
qed

theorem ext_devt_roundtrip_witness:
  "\<exists>b' devt. blk_alloc_devt demo_gext 13 demo_blk = Some (b', 0, devt) \<and> get_gendisk demo_gext (\<lambda>_. None) (\<lambda>_. True) devt b' = Some (Some (1, 3))"
proof -
  have "\<exists>b' devt. blk_alloc_devt demo_gext 13 demo_blk = Some (b', 0, devt)"
    by (simp add: blk_alloc_devt_def demo_blk_def demo_hd_def demo_gendisk_def demo_gext_def)
  then obtain b' devt where a: "blk_alloc_devt demo_gext 13 demo_blk = Some (b', 0, devt)" by blast
  have "get_gendisk demo_gext (\<lambda>_. None) (\<lambda>_. True) devt b' = Some (Some (1, 3))"
    using ext_devt_roundtrip [OF demo_idr _ _ _ a, of "demo_hd 3 200 50" demo_gendisk "\<lambda>_. None"] by (simp add: demo_blk_def demo_hd_def demo_gendisk_def)
  then show ?thesis using a by blast
qed

end
