(* ===== verification/GenDiskProps.thy ===== *)
theory GenDiskProps
  imports Partitions BlkNumbers
begin

text \<open>
  What the iterator visits, what a sector maps to, what the table of major numbers and
  the device numbers promise.
\<close>

section \<open>The iterator\<close>

text \<open>The partition at an index, if an iterator with these flags stops there.\<close>

definition stops_at :: "iter_flags \<Rightarrow> (int \<rightharpoonup> hd_struct) \<Rightarrow> int option list \<Rightarrow> nat \<Rightarrow> int option" where
  "stops_at f ps tbl j =
     (case tbl ! j of
        None \<Rightarrow> None
      | Some p \<Rightarrow> (case ps p of None \<Rightarrow> None
                    | Some h \<Rightarrow> if nr_sects h = 0 \<and> \<not> pi_empty f \<and> \<not> (pi_empty_part0 f \<and> j = 0) then None else Some p))"

text \<open>The indices an iterator still has to look at, in its order.\<close>

definition low_index :: "iter_flags \<Rightarrow> nat" where
  "low_index f = (if pi_part0 f \<or> pi_empty_part0 f then 0 else 1)"

definition remaining :: "iter_flags \<Rightarrow> nat \<Rightarrow> int \<Rightarrow> nat list" where
  "remaining f L idx = (if pi_reverse f then rev [low_index f..<nat (idx + 1)] else [nat idx..<L])"

definition in_bounds :: "iter_flags \<Rightarrow> nat \<Rightarrow> int \<Rightarrow> bool" where
  "in_bounds f L idx \<longleftrightarrow> int (low_index f) - 1 \<le> idx \<and> idx \<le> int L \<and> (if pi_reverse f then idx < int L else 0 \<le> idx)"

definition scan_end :: "iter_flags \<Rightarrow> nat \<Rightarrow> int" where
  "scan_end f L = (if pi_reverse f then int (low_index f) - 1 else int L)"

definition next_index :: "iter_flags \<Rightarrow> int \<Rightarrow> int" where
  "next_index f idx = (if pi_reverse f then idx - 1 else idx + 1)"

lemma remaining_end: "remaining f L (scan_end f L) = []"
  by (simp add: remaining_def scan_end_def)

lemma remaining_step:
  assumes "in_bounds f L idx" and "idx \<noteq> scan_end f L"
  shows "0 \<le> idx" "idx < int L" "remaining f L idx = nat idx # remaining f L (next_index f idx)" "in_bounds f L (next_index f idx)"
proof -
  show "0 \<le> idx" "idx < int L" using assms by (auto simp: in_bounds_def scan_end_def low_index_def split: if_splits)
  then show "remaining f L idx = nat idx # remaining f L (next_index f idx)"
    using assms by (auto simp: remaining_def next_index_def in_bounds_def scan_end_def low_index_def upt_rec [of "nat idx" L] nat_add_distrib split: if_splits)
  show "in_bounds f L (next_index f idx)"
    using assms \<open>0 \<le> idx\<close> \<open>idx < int L\<close> by (auto simp: in_bounds_def next_index_def scan_end_def low_index_def split: if_splits)
qed

lemma iter_scan_spec:
  assumes "in_bounds f (length tbl) idx" and "\<forall>j\<in>set (remaining f (length tbl) idx). \<forall>p. tbl ! j = Some p \<longrightarrow> ps p \<noteq> None"
  shows "\<exists>idx' part. iter_scan f ps tbl (scan_end f (length tbl)) idx = Some (idx', part)
    \<and> (case dropWhile (\<lambda>j. stops_at f ps tbl j = None) (remaining f (length tbl) idx) of
         [] \<Rightarrow> part = None \<and> idx' = scan_end f (length tbl)
       | j # js \<Rightarrow> part = stops_at f ps tbl j \<and> in_bounds f (length tbl) idx' \<and> remaining f (length tbl) idx' = js)"
  using assms
proof (induction f ps tbl "scan_end f (length tbl)" idx rule: iter_scan.induct)
  case (1 f ps tbl idx)
  let ?L = "length tbl" and ?en = "scan_end f (length tbl)"
  show ?case
  proof (cases "idx = ?en")
    case True
    then show ?thesis by (simp add: iter_scan.simps remaining_end)
  next
    case False
    note st = remaining_step [OF 1(3) False]
    have e: "entry tbl idx = Some (tbl ! nat idx)" using st by (simp add: entry_def)
    have live: "ps p \<noteq> None" if "tbl ! nat idx = Some p" for p using 1(4) st(3) that by simp
    have rest: "\<forall>j\<in>set (remaining f ?L (next_index f idx)). \<forall>p. tbl ! j = Some p \<longrightarrow> ps p \<noteq> None" using 1(4) st(3) by simp
    show ?thesis
    proof (cases "stops_at f ps tbl (nat idx)")
      case None
      have "iter_scan f ps tbl ?en idx = iter_scan f ps tbl ?en (next_index f idx)"
        using False e live None st(1) by (subst iter_scan.simps) (auto simp: next_index_def stops_at_def split: option.splits if_splits)
      moreover have "\<exists>idx' part. iter_scan f ps tbl ?en (next_index f idx) = Some (idx', part)
          \<and> (case dropWhile (\<lambda>j. stops_at f ps tbl j = None) (remaining f ?L (next_index f idx)) of
               [] \<Rightarrow> part = None \<and> idx' = ?en
             | j # js \<Rightarrow> part = stops_at f ps tbl j \<and> in_bounds f ?L idx' \<and> remaining f ?L idx' = js)"
      proof (cases "tbl ! nat idx")
        case N: None
        show ?thesis unfolding next_index_def
          by (rule 1(1) [OF False e [unfolded N] refl]) (use st(4) rest in \<open>simp_all add: next_index_def\<close>)
      next
        case (Some p)
        then obtain h where h: "ps p = Some h" using live by auto
        have c: "nr_sects h = 0 \<and> \<not> pi_empty f \<and> \<not> (pi_empty_part0 f \<and> idx = 0)"
          using None Some h st(1) by (auto simp: stops_at_def split: if_splits)
        show ?thesis unfolding next_index_def
          by (rule 1(2) [OF False e [unfolded Some] refl h c]) (use st(4) rest in \<open>simp_all add: next_index_def\<close>)
      qed
      ultimately show ?thesis using st(3) None by simp
    next
      case (Some p)
      then have "iter_scan f ps tbl ?en idx = Some (next_index f idx, Some p)"
        using False e st(1) by (subst iter_scan.simps) (auto simp: next_index_def stops_at_def split: option.splits if_splits)
      then show ?thesis using st(3,4) Some by simp
    qed
  qed
qed

text \<open>
  A rule for the loops: \<open>P js a b\<close> says what holds when the indices \<open>js\<close> are left
  and no partition is held. At an index where the iterator stops, the reference, the
  body and the release of the reference lead on.
\<close>

definition loop_inv :: "gext \<Rightarrow> int \<Rightarrow> iter_flags \<Rightarrow> nat \<Rightarrow> (int \<Rightarrow> 'a \<Rightarrow> blk \<Rightarrow> ('a \<times> blk) option) \<Rightarrow> (nat list \<Rightarrow> 'a \<Rightarrow> blk \<Rightarrow> bool) \<Rightarrow> bool" where
  "loop_inv X k f L body P \<longleftrightarrow> (\<forall>js a b. P js a b \<longrightarrow>
     (\<exists>d tbl. disks b k = Some d \<and> part_tbl d = Some tbl \<and> length tbl = L
       \<and> (\<forall>j\<in>set js. \<forall>p. tbl ! j = Some p \<longrightarrow> parts b p \<noteq> None)
       \<and> (\<forall>j js'. js = j # js' \<longrightarrow>
            (case stops_at f (parts b) tbl j of
               None \<Rightarrow> P js' a b
             | Some p \<Rightarrow> (\<exists>b1 a2 b2 b3. get_device p b = Some b1 \<and> body p a b1 = Some (a2, b2) \<and> put_device X p b2 = Some b3 \<and> P js' a2 b3)))))"

lemma loop_invD:
  assumes "loop_inv X k f L body P" and "P js a b"
  obtains d tbl where "disks b k = Some d" "part_tbl d = Some tbl" "length tbl = L" "\<forall>j\<in>set js. \<forall>p. tbl ! j = Some p \<longrightarrow> parts b p \<noteq> None"
    "\<And>j js'. js = j # js' \<Longrightarrow> stops_at f (parts b) tbl j = None \<Longrightarrow> P js' a b"
    "\<And>j js' p. js = j # js' \<Longrightarrow> stops_at f (parts b) tbl j = Some p
      \<Longrightarrow> \<exists>b1 a2 b2 b3. get_device p b = Some b1 \<and> body p a b1 = Some (a2, b2) \<and> put_device X p b2 = Some b3 \<and> P js' a2 b3"
proof -
  obtain d tbl where d: "disks b k = Some d" "part_tbl d = Some tbl" "length tbl = L" "\<forall>j\<in>set js. \<forall>p. tbl ! j = Some p \<longrightarrow> parts b p \<noteq> None"
    and st: "\<forall>j js'. js = j # js' \<longrightarrow> (case stops_at f (parts b) tbl j of None \<Rightarrow> P js' a b
      | Some p \<Rightarrow> (\<exists>b1 a2 b2 b3. get_device p b = Some b1 \<and> body p a b1 = Some (a2, b2) \<and> put_device X p b2 = Some b3 \<and> P js' a2 b3))"
    using assms(1) [unfolded loop_inv_def, rule_format, OF assms(2)] by blast
  show ?thesis
  proof (rule that [OF d])
    fix j js' assume "js = j # js'" "stops_at f (parts b) tbl j = None"
    then show "P js' a b" using st [rule_format, of j js'] by simp
  next
    fix j js' p assume "js = j # js'" "stops_at f (parts b) tbl j = Some p"
    then show "\<exists>b1 a2 b2 b3. get_device p b = Some b1 \<and> body p a b1 = Some (a2, b2) \<and> put_device X p b2 = Some b3 \<and> P js' a2 b3"
      using st [rule_format, of j js'] by simp
  qed
qed

lemma loop_inv_skip:
  assumes "loop_inv X k f L body P" and "P js a b" and "disks b k = Some d" "part_tbl d = Some tbl"
  shows "P (dropWhile (\<lambda>j. stops_at f (parts b) tbl j = None) js) a b"
  using assms(2)
proof (induction js)
  case (Cons j js)
  show ?case
  proof (cases "stops_at f (parts b) tbl j = None")
    case True
    obtain d' tbl' where "disks b k = Some d'" "part_tbl d' = Some tbl'" "stops_at f (parts b) tbl' j = None \<Longrightarrow> P js a b"
      by (rule loop_invD [OF assms(1) Cons.prems]) blast
    then show ?thesis using Cons.IH assms(3,4) True by simp
  qed (use Cons.prems in auto)
qed simp

lemma iter_loop_rule:
  assumes inv: "loop_inv X k f L body P"
    and it: "it_disk it = k" "it_flags it = f" "in_bounds f L (it_idx it)" "remaining f L (it_idx it) = js"
    and held: "disk_put_part X (it_part it) b = Some b0" "P js a b0" and n: "length js < n"
  shows "\<exists>a' b'. iter_loop X body n it a b = Some (a', b') \<and> P [] a' b'"
  using it held n
proof (induction n arbitrary: it a b b0 js)
  case (Suc n)
  obtain d tbl where d: "disks b0 k = Some d" "part_tbl d = Some tbl" "length tbl = L" "\<forall>j\<in>set js. \<forall>p. tbl ! j = Some p \<longrightarrow> parts b0 p \<noteq> None"
    by (rule loop_invD [OF inv Suc.prems(6)])
  have sk: "P (dropWhile (\<lambda>j. stops_at f (parts b0) tbl j = None) js) a b0" by (rule loop_inv_skip [OF inv Suc.prems(6) d(1,2)])
  obtain idx' part where sc: "iter_scan f (parts b0) tbl (scan_end f L) (it_idx it) = Some (idx', part)"
    "case dropWhile (\<lambda>j. stops_at f (parts b0) tbl j = None) js of
         [] \<Rightarrow> part = None \<and> idx' = scan_end f L
       | j # js \<Rightarrow> part = stops_at f (parts b0) tbl j \<and> in_bounds f L idx' \<and> remaining f L idx' = js"
    using iter_scan_spec [of f tbl "it_idx it" "parts b0"] Suc.prems(3,4) d(3,4) by auto
  have en: "(if pi_reverse f then (if pi_part0 f \<or> pi_empty_part0 f then -1 else 0) else int (length tbl)) = scan_end f L"
    using d(3) by (simp add: scan_end_def low_index_def)
  have nx: "disk_part_iter_next X it b = do { b2 \<leftarrow> (case part of None \<Rightarrow> Some b0 | Some p \<Rightarrow> get_device p b0); Some (it\<lparr>it_part := part, it_idx := idx'\<rparr>, b2) }"
    using Suc.prems(1,2,5) d sc(1) by (simp add: disk_part_iter_next_def en Let_def)
  show ?case
  proof (cases "dropWhile (\<lambda>j. stops_at f (parts b0) tbl j = None) js")
    case Nil
    then have "part = None" "P [] a b0" using sc(2) sk unfolding Nil by simp_all
    then show ?thesis using nx by (auto simp: disk_part_iter_exit_def disk_put_part_def)
  next
    case (Cons j js')
    have "stops_at f (parts b0) tbl j \<noteq> None" using hd_dropWhile [of "\<lambda>j. stops_at f (parts b0) tbl j = None" js] Cons by simp
    then obtain p where p: "stops_at f (parts b0) tbl j = Some p" by auto
    obtain b1 a2 b2 b3 where b: "get_device p b0 = Some b1" "body p a b1 = Some (a2, b2)" "put_device X p b2 = Some b3" "P js' a2 b3"
    proof (rule loop_invD [OF inv sk])
      fix d' tbl' assume d': "disks b0 k = Some d'" "part_tbl d' = Some tbl'"
        and g: "\<And>j js' p. dropWhile (\<lambda>j. stops_at f (parts b0) tbl j = None) js = j # js' \<Longrightarrow> stops_at f (parts b0) tbl' j = Some p
          \<Longrightarrow> \<exists>b1 a2 b2 b3. get_device p b0 = Some b1 \<and> body p a b1 = Some (a2, b2) \<and> put_device X p b2 = Some b3 \<and> P js' a2 b3"
      have "tbl' = tbl" using d' d by simp
      then show ?thesis using g [OF Cons] p that by blast
    qed
    have len: "length js' < n" using length_dropWhile_le [of "\<lambda>j. stops_at f (parts b0) tbl j = None" js] Cons Suc.prems(7) by simp
    have "\<exists>a' b'. iter_loop X body n (it\<lparr>it_part := Some p, it_idx := idx'\<rparr>) a2 b2 = Some (a', b') \<and> P [] a' b'"
      by (rule Suc.IH [of _ js' _ b3]) (use Suc.prems(1,2) sc(2) Cons p b len in \<open>auto simp: disk_put_part_def\<close>)
    moreover have "part = Some p" using sc(2) p unfolding Cons by simp
    ultimately show ?thesis using nx b(1,2) by simp
  qed
qed simp

text \<open>The order in which the flags go through a table of a given length.\<close>

definition iter_order :: "iter_flags \<Rightarrow> nat \<Rightarrow> nat list" where
  "iter_order f L = (if pi_reverse f then rev [low_index f..<L] else [low_index f..<L])"

lemma for_each_part_rule:
  assumes inv: "loop_inv X k f L body P" and start: "P (iter_order f L) a b" and L: "0 < L"
  shows "\<exists>a' b'. for_each_part X k f body a b = Some (a', b') \<and> P [] a' b'"
proof -
  obtain d tbl where d: "disks b k = Some d" "part_tbl d = Some tbl" "length tbl = L" by (rule loop_invD [OF inv start])
  define it where "it = \<lparr>it_disk = k, it_part = None, it_idx = (if pi_reverse f then int (length tbl) - 1 else if pi_part0 f \<or> pi_empty_part0 f then 0 else 1), it_flags = f\<rparr>"
  have it: "it_disk it = k" "it_flags it = f" "in_bounds f L (it_idx it)" "remaining f L (it_idx it) = iter_order f L"
    using d(3) L by (auto simp: it_def in_bounds_def remaining_def iter_order_def low_index_def)
  have "disk_put_part X (it_part it) b = Some b" by (simp add: it_def disk_put_part_def)
  moreover have "length (iter_order f L) < L + 1" by (simp add: iter_order_def)
  ultimately have "\<exists>a' b'. iter_loop X body (L + 1) it a b = Some (a', b') \<and> P [] a' b'"
    by (intro iter_loop_rule [OF inv it _ start])
  moreover have "for_each_part X k f body a b = iter_loop X body (L + 1) it a b"
    using d by (simp add: for_each_part_def disk_part_iter_init_def it_def del: iter_loop.simps)
  ultimately show ?thesis by simp
qed

section \<open>Sound tables\<close>

text \<open>Entry 0 is the disk; every entry is a live partition that knows its index and its disk.\<close>

definition table_ok :: "int \<Rightarrow> blk \<Rightarrow> bool" where
  "table_ok k b \<longleftrightarrow> (\<exists>d tbl. disks b k = Some d \<and> part_tbl d = Some tbl \<and> tbl \<noteq> [] \<and> tbl ! 0 = Some (part0 d)
     \<and> (\<forall>i p. i < length tbl \<longrightarrow> tbl ! i = Some p \<longrightarrow> (\<exists>h. parts b p = Some h \<and> partno h = int i \<and> hd_disk h = k \<and> 1 \<le> hd_refs h)))"

lemma table_ok_iff:
  assumes "disks b k = Some d" "part_tbl d = Some tbl"
  shows "table_ok k b \<longleftrightarrow> tbl \<noteq> [] \<and> tbl ! 0 = Some (part0 d)
    \<and> (\<forall>i p. i < length tbl \<longrightarrow> tbl ! i = Some p \<longrightarrow> (\<exists>h. parts b p = Some h \<and> partno h = int i \<and> hd_disk h = k \<and> 1 \<le> hd_refs h))"
  using assms by (simp add: table_ok_def)

lemma table_live:
  assumes "table_ok k b" and "disks b k = Some d" and "part_tbl d = Some tbl" and "i < length tbl" and "tbl ! i = Some p"
  obtains h where "parts b p = Some h" "partno h = int i" "hd_disk h = k" "1 \<le> hd_refs h"
  using assms(1) [unfolded table_ok_iff [OF assms(2,3)]] assms(4,5) by blast

lemma get_put_device:
  assumes "parts b p = Some h" "hd_disk h = k" "disks b k = Some d" "1 \<le> hd_refs h"
  shows "get_device p b = Some (put_part p (h\<lparr>hd_refs := hd_refs h + 1\<rparr>) b)" "put_device X p (put_part p (h\<lparr>hd_refs := hd_refs h + 1\<rparr>) b) = Some b"
  using assms by (simp_all add: get_device_def put_device_def put_part_def fun_upd_idem)

text \<open>The partitions an iterator visits, in order.\<close>

definition visited :: "iter_flags \<Rightarrow> (int \<rightharpoonup> hd_struct) \<Rightarrow> int option list \<Rightarrow> int list" where
  "visited f ps tbl = List.map_filter (stops_at f ps tbl) (iter_order f (length tbl))"

lemma pure_iteration:
  assumes "table_ok k b" and "disks b k = Some d" and "part_tbl d = Some tbl"
  shows "for_each_part X k f (\<lambda>p a b. Some (g p a, b)) a0 b = Some (fold g (visited f (parts b) tbl) a0, b)"
proof -
  let ?body = "\<lambda>p a b. Some (g p a, b)"
  define P where "P js a b' \<longleftrightarrow> b' = b \<and> set js \<subseteq> {..<length tbl} \<and> fold g (List.map_filter (stops_at f (parts b) tbl) js) a = fold g (visited f (parts b) tbl) a0" for js a b'
  have live: "\<exists>h. parts b p = Some h \<and> hd_disk h = k \<and> 1 \<le> hd_refs h" if "i < length tbl" "tbl ! i = Some p" for i p
    by (rule table_live [OF assms that]) blast
  have "loop_inv X k f (length tbl) ?body P"
    unfolding loop_inv_def
  proof (intro allI impI exI conjI)
    fix js a b' assume P: "P js a b'"
    show "disks b' k = Some d" "part_tbl d = Some tbl" "length tbl = length tbl" using P assms by (simp_all add: P_def)
    show "\<forall>j\<in>set js. \<forall>p. tbl ! j = Some p \<longrightarrow> parts b' p \<noteq> None" using P live unfolding P_def by fastforce
    fix j js' assume js: "js = j # js'"
    show "case stops_at f (parts b') tbl j of None \<Rightarrow> P js' a b'
      | Some p \<Rightarrow> \<exists>b1 a2 b2 b3. get_device p b' = Some b1 \<and> ?body p a b1 = Some (a2, b2) \<and> put_device X p b2 = Some b3 \<and> P js' a2 b3"
    proof (cases "stops_at f (parts b') tbl j")
      case None
      then show ?thesis using P js by (simp add: P_def List.map_filter_simps)
    next
      case (Some p)
      then have "tbl ! j = Some p" by (auto simp: stops_at_def split: option.splits if_splits)
      then obtain h where h: "parts b p = Some h" "hd_disk h = k" "1 \<le> hd_refs h" using live P js by (auto simp: P_def)
      have "P js' (g p a) b" using P js Some by (simp add: P_def List.map_filter_simps)
      then show ?thesis using Some P get_put_device [OF h(1,2) assms(2) h(3)] by (auto simp: P_def)
    qed
  qed
  moreover have "P (iter_order f (length tbl)) a0 b" by (auto simp: P_def visited_def iter_order_def)
  moreover have "0 < length tbl" using assms by (auto simp: table_ok_def)
  ultimately obtain a' b' where r: "for_each_part X k f ?body a0 b = Some (a', b')" "P [] a' b'"
    using for_each_part_rule [of X k f "length tbl" ?body P a0 b] by blast
  then show ?thesis by (simp add: P_def List.map_filter_simps)
qed

text \<open>
  C28. An iteration visits exactly the partitions its flags ask for, each once, upwards
  or downwards in the table: without flags those from number 1 on that are not empty,
  with the flags also the empty ones and the disk itself. It never leaves the table,
  ends, and gives back every reference it takes, so that it leaves no trace.
\<close>

theorem iteration_exact:
  assumes "table_ok k b" and "disks b k = Some d" and "part_tbl d = Some tbl"
  shows "for_each_part X k f (\<lambda>p ps b. Some (ps @ [p], b)) [] b = Some (visited f (parts b) tbl, b)"
proof -
  have "fold (\<lambda>p ps. ps @ [p]) xs ys = ys @ xs" for xs ys :: "int list" by (induction xs arbitrary: ys) simp_all
  then show ?thesis using pure_iteration [OF assms, of X f "\<lambda>p ps. ps @ [p]" "[]"] by simp
qed

section \<open>Events\<close>

lemma visited_plain:
  assumes "table_ok k b" and "disks b k = Some d" and "part_tbl d = Some tbl"
  shows "p \<in> set (visited no_flags (parts b) tbl) \<longleftrightarrow> (\<exists>i h. 1 \<le> i \<and> i < length tbl \<and> tbl ! i = Some p \<and> parts b p = Some h \<and> nr_sects h \<noteq> 0 \<and> partno h = int i)"
proof -
  have live: "\<exists>h. parts b p = Some h \<and> partno h = int i" if "i < length tbl" "tbl ! i = Some p" for i
    by (rule table_live [OF assms that]) blast
  have "p \<in> set (visited no_flags (parts b) tbl) \<longleftrightarrow> (\<exists>i\<in>{1..<length tbl}. stops_at no_flags (parts b) tbl i = Some p)"
    by (auto simp: visited_def iter_order_def low_index_def List.map_filter_def image_iff)
  also have "\<dots> \<longleftrightarrow> (\<exists>i h. 1 \<le> i \<and> i < length tbl \<and> tbl ! i = Some p \<and> parts b p = Some h \<and> nr_sects h \<noteq> 0 \<and> partno h = int i)"
  proof -
    have "stops_at no_flags (parts b) tbl i = Some p \<longleftrightarrow> tbl ! i = Some p \<and> (\<exists>h. parts b p = Some h \<and> nr_sects h \<noteq> 0)" for i
      by (auto simp: stops_at_def split: option.splits if_splits)
    moreover have "partno h = int i" if "i < length tbl" "tbl ! i = Some p" "parts b p = Some h" for i h using live [OF that(1,2)] that(3) by auto
    ultimately show ?thesis by (auto simp: Bex_def)
  qed
  finally show ?thesis .
qed

lemma map_filter_distinct:
  assumes "distinct js" and "\<And>i j p. i \<in> set js \<Longrightarrow> j \<in> set js \<Longrightarrow> s i = Some p \<Longrightarrow> s j = Some p \<Longrightarrow> i = j"
  shows "distinct (List.map_filter s js)"
  using assms
proof (induction js)
  case (Cons j js)
  have ih: "distinct (List.map_filter s js)" by (rule Cons.IH) (use Cons.prems in auto)
  have "p \<notin> set (List.map_filter s js)" if j: "s j = Some p" for p
  proof
    assume "p \<in> set (List.map_filter s js)"
    then obtain i where "i \<in> set js" "s i = Some p" by (auto simp: List.map_filter_def)
    then show False using Cons.prems(1) Cons.prems(2) [of i j p] j by auto
  qed
  then show ?case using ih by (simp add: List.map_filter_simps split: option.split)
qed (simp add: List.map_filter_simps)

text \<open>
  The variables that the volume daemon reads agree: the event of a disk says
  \<open>NPARTS=n\<close> for the number of its non-empty partitions, the event of each of these
  says \<open>PARTN=i\<close> for its place in the table, and the places differ.
\<close>

theorem uevent_numbers:
  assumes "table_ok k b" and "disks b k = Some d" and "part_tbl d = Some tbl"
  shows "\<exists>ps. disk_uevent X k b = Some ([''NPARTS='' @ print_int X (int (length ps))], b) \<and> distinct ps
    \<and> (\<forall>p. p \<in> set ps \<longleftrightarrow> (\<exists>i h. 1 \<le> i \<and> i < length tbl \<and> tbl ! i = Some p \<and> parts b p = Some h \<and> nr_sects h \<noteq> 0))
    \<and> (\<forall>p\<in>set ps. \<forall>h. parts b p = Some h \<longrightarrow> hd (part_uevent X h) = ''PARTN='' @ print_int X (partno h) \<and> 1 \<le> partno h \<and> partno h < int (length tbl)
        \<and> tbl ! nat (partno h) = Some p)"
proof -
  let ?ps = "visited no_flags (parts b) tbl"
  have cnt: "fold (\<lambda>p n. n + 1) xs m = m + int (length xs)" for xs :: "int list" and m by (induction xs arbitrary: m) simp_all
  have "disk_uevent X k b = Some ([''NPARTS='' @ print_int X (int (length ?ps))], b)"
    using pure_iteration [OF assms, of X no_flags "\<lambda>p n. n + 1" "0 :: int"] cnt by (simp add: disk_uevent_def)
  moreover have live: "\<exists>h. parts b p = Some h \<and> partno h = int i" if "i < length tbl" "tbl ! i = Some p" for i p
    by (rule table_live [OF assms that]) blast
  have "distinct ?ps" unfolding visited_def
  proof (rule map_filter_distinct)
    show "distinct (iter_order no_flags (length tbl))" by (simp add: iter_order_def)
    fix i j p assume ij: "i \<in> set (iter_order no_flags (length tbl))" "j \<in> set (iter_order no_flags (length tbl))"
      "stops_at no_flags (parts b) tbl i = Some p" "stops_at no_flags (parts b) tbl j = Some p"
    then have "i < length tbl" "j < length tbl" "tbl ! i = Some p" "tbl ! j = Some p"
      by (auto simp: iter_order_def stops_at_def split: option.splits if_splits)
    then show "i = j" using live [of i p] live [of j p] by auto
  qed
  moreover note mem = visited_plain [OF assms]
  have "p \<in> set ?ps \<longleftrightarrow> (\<exists>i h. 1 \<le> i \<and> i < length tbl \<and> tbl ! i = Some p \<and> parts b p = Some h \<and> nr_sects h \<noteq> 0)" for p
  proof -
    have "partno h = int i" if "i < length tbl" "tbl ! i = Some p" "parts b p = Some h" for i h using live [OF that(1,2)] that(3) by auto
    then show ?thesis unfolding mem by blast
  qed
  moreover have "hd (part_uevent X h) = ''PARTN='' @ print_int X (partno h) \<and> 1 \<le> partno h \<and> partno h < int (length tbl) \<and> tbl ! nat (partno h) = Some p"
    if "p \<in> set ?ps" "parts b p = Some h" for p h
    using that unfolding mem by (auto simp: part_uevent_def)
  ultimately show ?thesis by blast
qed

section \<open>Sectors\<close>

text \<open>The partition a sector belongs to: the first that contains it, or the whole disk.\<close>

definition sector_owner :: "gendisk \<Rightarrow> int option list \<Rightarrow> (int \<rightharpoonup> hd_struct) \<Rightarrow> sector_t \<Rightarrow> int" where
  "sector_owner d tbl ps sector =
     (case List.map_filter (\<lambda>e. case e of None \<Rightarrow> None | Some p \<Rightarrow> if sector_in_part (the (ps p)) sector then Some p else None) (drop 1 tbl) of
        [] \<Rightarrow> part0 d | p # _ \<Rightarrow> p)"

lemma find_sector_spec:
  assumes "\<forall>p. Some p \<in> set es \<longrightarrow> ps p \<noteq> None"
  shows "find_sector ps sector es = Some (case List.map_filter (\<lambda>e. case e of None \<Rightarrow> None | Some p \<Rightarrow> if sector_in_part (the (ps p)) sector then Some p else None) es of
      [] \<Rightarrow> None | p # _ \<Rightarrow> Some p)"
  using assms by (induction ps sector es rule: find_sector.induct) (auto simp: List.map_filter_simps)

text \<open>The remembered partition is in the table, and partitions do not overlap.\<close>

definition lookup_ok :: "int \<Rightarrow> blk \<Rightarrow> bool" where
  "lookup_ok k b \<longleftrightarrow> table_ok k b \<and> (\<forall>d tbl. disks b k = Some d \<longrightarrow> part_tbl d = Some tbl \<longrightarrow>
     (\<forall>p. last_lookup d = Some p \<longrightarrow> Some p \<in> set (drop 1 tbl))
     \<and> (\<forall>p q h g sector. Some p \<in> set (drop 1 tbl) \<longrightarrow> Some q \<in> set (drop 1 tbl) \<longrightarrow> parts b p = Some h \<longrightarrow> parts b q = Some g
          \<longrightarrow> sector_in_part h sector \<longrightarrow> sector_in_part g sector \<longrightarrow> p = q))"

lemma lookup_ok_iff:
  assumes "disks b k = Some d" "part_tbl d = Some tbl"
  shows "lookup_ok k b \<longleftrightarrow> table_ok k b \<and> (\<forall>p. last_lookup d = Some p \<longrightarrow> Some p \<in> set (drop 1 tbl))
    \<and> (\<forall>p q h g sector. Some p \<in> set (drop 1 tbl) \<longrightarrow> Some q \<in> set (drop 1 tbl) \<longrightarrow> parts b p = Some h \<longrightarrow> parts b q = Some g
          \<longrightarrow> sector_in_part h sector \<longrightarrow> sector_in_part g sector \<longrightarrow> p = q)"
  using assms by (simp add: lookup_ok_def)

text \<open>
  C27. Looking up a sector with the remembered partition finds the same partition as a
  search through the table, as long as partitions do not overlap; what is remembered
  afterwards is again good for the next lookup, and nothing else changes.
\<close>

theorem sector_lookup_exact:
  assumes ok: "lookup_ok k b" and d: "disks b k = Some d" "part_tbl d = Some tbl"
  shows "\<exists>b'. disk_map_sector_rcu k sector b = Some (b', sector_owner d tbl (parts b) sector) \<and> lookup_ok k b'
    \<and> parts b' = parts b \<and> (\<exists>l. disks b' = (disks b)(k \<mapsto> d\<lparr>last_lookup := l\<rparr>))"
proof -
  let ?F = "\<lambda>e. case e of None \<Rightarrow> None | Some p \<Rightarrow> if sector_in_part (the (parts b p)) sector then Some p else None"
  let ?M = "List.map_filter ?F (drop 1 tbl)"
  have tok: "table_ok k b" using ok by (simp add: lookup_ok_def)
  have live: "parts b p \<noteq> None" if "Some p \<in> set (drop 1 tbl)" for p
  proof -
    have "Some p \<in> set tbl" using that by (rule in_set_dropD)
    then obtain i where "i < length tbl" "tbl ! i = Some p" by (auto simp: in_set_conv_nth)
    then show ?thesis by (rule table_live [OF tok d]) simp
  qed
  have uniq: "p = q" if pq: "Some p \<in> set (drop 1 tbl)" "Some q \<in> set (drop 1 tbl)" "sector_in_part (the (parts b p)) sector" "sector_in_part (the (parts b q)) sector" for p q
  proof -
    obtain h g where "parts b p = Some h" "parts b q = Some g" using live [OF pq(1)] live [OF pq(2)] by auto
    then show ?thesis using ok [unfolded lookup_ok_iff [OF d]] pq by auto
  qed
  have M: "p \<in> set ?M \<longleftrightarrow> Some p \<in> set (drop 1 tbl) \<and> sector_in_part (the (parts b p)) sector" for p
    by (force simp: List.map_filter_def split: option.splits if_splits)
  have keep: "lookup_ok k (put_disk k (d\<lparr>last_lookup := Some p\<rparr>) b)" if "Some p \<in> set (drop 1 tbl)" for p
  proof -
    let ?b = "put_disk k (d\<lparr>last_lookup := Some p\<rparr>) b"
    have d': "disks ?b k = Some (d\<lparr>last_lookup := Some p\<rparr>)" "part_tbl (d\<lparr>last_lookup := Some p\<rparr>) = Some tbl" "parts ?b = parts b" using d by (simp_all add: put_disk_def)
    have "table_ok k ?b" using tok unfolding table_ok_iff [OF d] table_ok_iff [OF d'(1,2)] d'(3) by simp
    then show ?thesis using ok that unfolding lookup_ok_iff [OF d] lookup_ok_iff [OF d'(1,2)] d'(3) by simp
  qed
  have same: "disks b = (disks b)(k \<mapsto> d\<lparr>last_lookup := last_lookup d\<rparr>)" using d by (simp add: fun_upd_idem)
  show ?thesis
  proof (cases "\<exists>p. last_lookup d = Some p \<and> sector_in_part (the (parts b p)) sector")
    case True
    then obtain p where p: "last_lookup d = Some p" "sector_in_part (the (parts b p)) sector" by blast
    then have t: "Some p \<in> set (drop 1 tbl)" using ok d by (auto simp: lookup_ok_def)
    then obtain h where h: "parts b p = Some h" using live by auto
    obtain q qs where q: "?M = q # qs" using M [of p] t p(2) by (cases ?M) auto
    then have "q = p" using M [of q] uniq [of q p] t p(2) by auto
    then have "sector_owner d tbl (parts b) sector = p" using q by (simp add: sector_owner_def)
    then have "disk_map_sector_rcu k sector b = Some (b, sector_owner d tbl (parts b) sector)"
      using d p h by (simp add: disk_map_sector_rcu_def)
    then show ?thesis using ok same by blast
  next
    case False
    have hit: "(case last_lookup d of None \<Rightarrow> Some None | Some p \<Rightarrow> do { h \<leftarrow> parts b p; Some (if sector_in_part h sector then Some p else None) }) = Some None"
    proof (cases "last_lookup d")
      case (Some p)
      then have "Some p \<in> set (drop 1 tbl)" using ok d by (auto simp: lookup_ok_def)
      then show ?thesis using live Some False by fastforce
    qed simp
    have fs: "find_sector (parts b) sector (drop 1 tbl) = Some (case ?M of [] \<Rightarrow> None | p # _ \<Rightarrow> Some p)"
      by (rule find_sector_spec) (use live in blast)
    show ?thesis
    proof (cases ?M)
      case Nil
      then have "disk_map_sector_rcu k sector b = Some (b, sector_owner d tbl (parts b) sector)"
        using d hit fs by (simp add: disk_map_sector_rcu_def sector_owner_def)
      then show ?thesis using ok same by blast
    next
      case (Cons p ps)
      then have "disk_map_sector_rcu k sector b = Some (put_disk k (d\<lparr>last_lookup := Some p\<rparr>) b, sector_owner d tbl (parts b) sector)"
        using d hit fs by (simp add: disk_map_sector_rcu_def sector_owner_def)
      moreover have "Some p \<in> set (drop 1 tbl)" using M [of p] Cons by simp
      ultimately show ?thesis using keep [of p] by (auto simp: put_disk_def)
    qed
  qed
qed

section \<open>An instance\<close>

lemma demo_table: "table_ok 1 demo_blk"
proof -
  have d: "disks demo_blk 1 = Some demo_gendisk" "part_tbl demo_gendisk = Some [Some 10, Some 11, None, Some 13]" by (simp_all add: demo_blk_def demo_gendisk_def)
  show ?thesis unfolding table_ok_iff [OF d]
    by (auto simp: demo_blk_def demo_gendisk_def demo_hd_def less_Suc_eq nth_Cons' split: if_splits)
qed

theorem iteration_exact_witness:
  "for_each_part demo_gext 1 (no_flags\<lparr>pi_reverse := True\<rparr>) (\<lambda>p ps b. Some (ps @ [p], b)) [] demo_blk = Some ([13, 11], demo_blk)"
proof -
  have "visited (no_flags\<lparr>pi_reverse := True\<rparr>) (parts demo_blk) [Some 10, Some 11, None, Some 13] = [13, 11]" by code_simp
  then show ?thesis using iteration_exact [OF demo_table, of demo_gendisk "[Some 10, Some 11, None, Some 13]"]
    by (simp add: demo_blk_def demo_gendisk_def)
qed

theorem uevent_numbers_witness:
  "\<exists>ps. disk_uevent demo_gext 1 demo_blk = Some ([''NPARTS='' @ print_int demo_gext (int (length ps))], demo_blk) \<and> (13 :: int) \<in> set ps"
proof -
  let ?tbl = "[Some 10, Some 11, None, Some 13 :: int option]"
  have d: "disks demo_blk 1 = Some demo_gendisk" "part_tbl demo_gendisk = Some ?tbl" by (simp_all add: demo_blk_def demo_gendisk_def)
  have "\<exists>i h. 1 \<le> i \<and> i < length ?tbl \<and> ?tbl ! i = Some 13 \<and> parts demo_blk 13 = Some h \<and> nr_sects h \<noteq> 0"
    by (intro exI [of _ 3] exI [of _ "demo_hd 3 200 50"]) (simp add: demo_blk_def demo_hd_def)
  then show ?thesis using uevent_numbers [OF demo_table d, of demo_gext] by blast
qed

theorem sector_lookup_exact_witness: "\<exists>b'. disk_map_sector_rcu 1 210 demo_blk = Some (b', 13) \<and> lookup_ok 1 b'"
proof -
  have d: "disks demo_blk 1 = Some demo_gendisk" "part_tbl demo_gendisk = Some [Some 10, Some 11, None, Some 13]" by (simp_all add: demo_blk_def demo_gendisk_def)
  have "lookup_ok 1 demo_blk" unfolding lookup_ok_iff [OF d]
  proof (intro conjI demo_table allI impI)
    have no: "\<not> (200 \<le> s \<and> s < 108)" for s :: sector_t using order_le_less_trans [of 200 s 108] by auto
    fix p q h g and sector :: sector_t
    assume "Some p \<in> set (drop 1 [Some 10, Some 11, None, Some 13 :: int option])" "Some q \<in> set (drop 1 [Some 10, Some 11, None, Some 13 :: int option])"
      "parts demo_blk p = Some h" "parts demo_blk q = Some g" "sector_in_part h sector" "sector_in_part g sector"
    then show "p = q" using no [of sector] by (auto simp: demo_blk_def demo_hd_def sector_in_part_def)
  qed (simp add: demo_gendisk_def)
  moreover have "sector_owner demo_gendisk [Some 10, Some 11, None, Some 13] (parts demo_blk) 210 = 13" by code_simp
  ultimately show ?thesis using sector_lookup_exact [of 1 demo_blk, OF _ d, of 210] by auto
qed

end
