(* ===== verification/PartitionProps.thy ===== *)
theory PartitionProps
  imports GenDiskProps
begin

text \<open>
  Dropping, adding and scanning partitions: the table stays sound whatever fails on the
  way, dropped partitions are handed to their callbacks, a scan ends, and what it adds
  lies on the disk.
\<close>

section \<open>Sound disks\<close>

text \<open>A sound table whose partitions hold their own reference, with the state of the capacity flag.\<close>

definition disk_ok :: "int \<Rightarrow> bool \<Rightarrow> blk \<Rightarrow> bool" where
  "disk_ok k native b \<longleftrightarrow> table_ok k b \<and> (\<forall>d tbl. disks b k = Some d \<longrightarrow> part_tbl d = Some tbl \<longrightarrow> fl_native d = native
     \<and> (\<forall>i p h. 1 \<le> i \<longrightarrow> i < length tbl \<longrightarrow> tbl ! i = Some p \<longrightarrow> parts b p = Some h \<longrightarrow> hd_ref h = 1))"

text \<open>The disk, its table and partition 0 of a sound disk.\<close>

lemma disk_okD:
  assumes "disk_ok k native b"
  obtains d tbl h0 where "disks b k = Some d" "part_tbl d = Some tbl" "table_ok k b" "fl_native d = native" "0 < length tbl" "tbl ! 0 = Some (part0 d)"
    "parts b (part0 d) = Some h0" "partno h0 = 0" "hd_disk h0 = k" "1 \<le> hd_refs h0"
    "\<forall>i p. 1 \<le> i \<longrightarrow> i < length tbl \<longrightarrow> tbl ! i = Some p
      \<longrightarrow> (\<exists>h. parts b p = Some h \<and> partno h = int i \<and> hd_disk h = k \<and> 1 \<le> hd_refs h \<and> hd_ref h = 1 \<and> p \<noteq> part0 d)"
proof -
  have t: "table_ok k b" using assms by (simp add: disk_ok_def)
  then obtain d tbl where d: "disks b k = Some d" "part_tbl d = Some tbl" by (auto simp: table_ok_def)
  note t' = t [unfolded table_ok_iff [OF d]]
  then have t0: "0 < length tbl" "tbl ! 0 = Some (part0 d)" by auto
  obtain h0 where h0: "parts b (part0 d) = Some h0" "partno h0 = int 0" "hd_disk h0 = k" "1 \<le> hd_refs h0"
    by (rule table_live [OF t d t0])
  have "\<exists>h. parts b p = Some h \<and> partno h = int i \<and> hd_disk h = k \<and> 1 \<le> hd_refs h \<and> hd_ref h = 1 \<and> p \<noteq> part0 d"
    if i: "1 \<le> i" "i < length tbl" "tbl ! i = Some p" for i p
  proof -
    obtain h where h: "parts b p = Some h" "partno h = int i" "hd_disk h = k" "1 \<le> hd_refs h" by (rule table_live [OF t d i(2,3)])
    then have "p \<noteq> part0 d" using h0 i(1) by auto
    then show ?thesis using h assms d i unfolding disk_ok_def by blast
  qed
  then show ?thesis using that d t t0 h0 assms by (simp add: disk_ok_def)
qed

lemma disk_okI:
  assumes "disks b k = Some d" "part_tbl d = Some tbl" "fl_native d = native" "0 < length tbl" "tbl ! 0 = Some (part0 d)"
    "parts b (part0 d) = Some h0" "partno h0 = 0" "hd_disk h0 = k" "1 \<le> hd_refs h0"
    "\<And>i p. 1 \<le> i \<Longrightarrow> i < length tbl \<Longrightarrow> tbl ! i = Some p \<Longrightarrow> \<exists>h. parts b p = Some h \<and> partno h = int i \<and> hd_disk h = k \<and> 1 \<le> hd_refs h \<and> hd_ref h = 1"
  shows "disk_ok k native b"
proof -
  have "\<exists>h. parts b p = Some h \<and> partno h = int i \<and> hd_disk h = k \<and> 1 \<le> hd_refs h" if "i < length tbl" "tbl ! i = Some p" for i p
    using that assms(5-9) assms(10) [of i p] by (cases "i = 0") auto
  then have "table_ok k b" unfolding table_ok_iff [OF assms(1,2)] using assms(4,5) by auto
  moreover have "hd_ref h = 1" if "1 \<le> i" "i < length tbl" "tbl ! i = Some p" "parts b p = Some h" for i p h
    using assms(10) [OF that(1-3)] that(4) by auto
  ultimately show ?thesis using assms(1-3) unfolding disk_ok_def by auto
qed

text \<open>Changes that keep the fields a sound disk is about.\<close>

definition same_disk :: "int \<Rightarrow> blk \<Rightarrow> blk \<Rightarrow> bool" where
  "same_disk k b b' \<longleftrightarrow> map_option (\<lambda>d. (part_tbl d, part0 d, fl_native d)) (disks b' k) = map_option (\<lambda>d. (part_tbl d, part0 d, fl_native d)) (disks b k)
     \<and> (\<forall>p. map_option (\<lambda>h. (partno h, hd_disk h, hd_refs h, hd_ref h)) (parts b' p) = map_option (\<lambda>h. (partno h, hd_disk h, hd_refs h, hd_ref h)) (parts b p))"

lemma disk_ok_same:
  assumes ok: "disk_ok k native b" and same: "same_disk k b b'"
  shows "disk_ok k native b'"
proof -
  obtain d tbl h0 where d: "disks b k = Some d" "part_tbl d = Some tbl" "table_ok k b" "fl_native d = native" "0 < length tbl" "tbl ! 0 = Some (part0 d)"
    "parts b (part0 d) = Some h0" "partno h0 = 0" "hd_disk h0 = k" "1 \<le> hd_refs h0"
    and ps: "\<forall>i p. 1 \<le> i \<longrightarrow> i < length tbl \<longrightarrow> tbl ! i = Some p
      \<longrightarrow> (\<exists>h. parts b p = Some h \<and> partno h = int i \<and> hd_disk h = k \<and> 1 \<le> hd_refs h \<and> hd_ref h = 1 \<and> p \<noteq> part0 d)"
    by (rule disk_okD [OF ok])
  obtain d' where d': "disks b' k = Some d'" "part_tbl d' = Some tbl" "part0 d' = part0 d" "fl_native d' = native"
    using same d unfolding same_disk_def by (cases "disks b' k") auto
  have p': "\<exists>h'. parts b' p = Some h' \<and> partno h' = partno h \<and> hd_disk h' = hd_disk h \<and> hd_refs h' = hd_refs h \<and> hd_ref h' = hd_ref h"
    if "parts b p = Some h" for p h
    using same that unfolding same_disk_def by (cases "parts b' p") (auto dest: spec [of _ p])
  obtain h0' where h0': "parts b' (part0 d) = Some h0'" "partno h0' = 0" "hd_disk h0' = k" "1 \<le> hd_refs h0'" using p' [OF d(7)] d(8-10) by auto
  show ?thesis
  proof (rule disk_okI [OF d'(1,2,4) d(5) _ _ h0'(2-4)])
    show "tbl ! 0 = Some (part0 d')" "parts b' (part0 d') = Some h0'" using d(6) d'(3) h0'(1) by simp_all
    fix i p assume "1 \<le> i" "i < length tbl" "tbl ! i = Some p"
    then show "\<exists>h. parts b' p = Some h \<and> partno h = int i \<and> hd_disk h = k \<and> 1 \<le> hd_refs h \<and> hd_ref h = 1" using ps [rule_format, of i p] p' [of p] by fastforce
  qed
qed

text \<open>
  The memory of partitions: there are finitely many, and the partitions that wait for
  the readers of the table are alive, have given up their own reference and wait once.
\<close>

definition mem_ok :: "int \<Rightarrow> blk \<Rightarrow> bool" where
  "mem_ok k b \<longleftrightarrow> finite (dom (parts b)) \<and> distinct (rcu_todo b)
     \<and> (\<forall>p\<in>set (rcu_todo b). \<exists>h. parts b p = Some h \<and> hd_disk h = k \<and> partno h \<noteq> 0 \<and> 1 \<le> hd_refs h \<and> hd_ref h = 0)"

lemma mem_ok_keep:
  assumes "mem_ok k b" "rcu_todo b' = rcu_todo b" "finite (dom (parts b'))"
    "\<And>p h. parts b p = Some h \<Longrightarrow> \<exists>h'. parts b' p = Some h' \<and> hd_disk h' = hd_disk h \<and> partno h' = partno h \<and> hd_refs h' = hd_refs h \<and> hd_ref h' = hd_ref h"
  shows "mem_ok k b'"
proof -
  have "\<exists>h. parts b' p = Some h \<and> hd_disk h = k \<and> partno h \<noteq> 0 \<and> 1 \<le> hd_refs h \<and> hd_ref h = 0" if "p \<in> set (rcu_todo b')" for p
  proof -
    obtain h where h: "parts b p = Some h" "hd_disk h = k" "partno h \<noteq> 0" "1 \<le> hd_refs h" "hd_ref h = 0" using assms(1,2) \<open>p \<in> set (rcu_todo b')\<close> by (auto simp: mem_ok_def)
    then show ?thesis using assms(4) [OF h(1)] by auto
  qed
  then show ?thesis using assms(1-3) by (simp add: mem_ok_def)
qed

lemma mem_ok_same: "mem_ok k b \<Longrightarrow> rcu_todo b' = rcu_todo b \<Longrightarrow> parts b' = parts b \<Longrightarrow> mem_ok k b'"
  by (simp add: mem_ok_def)

lemma mem_ok_nr_sects:
  assumes "mem_ok k b" "parts b p = Some h" "rcu_todo b' = rcu_todo b" "parts b' = (parts b)(p \<mapsto> h\<lparr>nr_sects := v\<rparr>)"
  shows "mem_ok k b'"
proof (rule mem_ok_keep [OF assms(1,3)])
  show "finite (dom (parts b'))" using assms(1,4) by (simp add: mem_ok_def)
qed (use assms(2,4) in auto)

section \<open>Operations on a sound disk\<close>

lemma invalidate_disk:
  assumes "disk_ok k native b"
  shows "\<exists>res. invalidate_partition X bdget inval k 0 b = Some (b, res) \<and> ((\<forall>v. inval v = 0) \<longrightarrow> res = 0)"
proof (rule disk_okD [OF assms])
  fix d tbl h0
  assume d: "disks b k = Some d" "part_tbl d = Some tbl" "0 < length tbl" "tbl ! 0 = Some (part0 d)" "parts b (part0 d) = Some h0" "hd_disk h0 = k" "1 \<le> hd_refs h0"
  note gp = get_put_device [OF d(5,6,1,7)]
  have "disk_get_part k 0 b = Some (put_part (part0 d) (h0\<lparr>hd_refs := hd_refs h0 + 1\<rparr>) b, Some (part0 d))"
    using d gp by (simp add: disk_get_part_def entry_def)
  moreover have "parts (put_part (part0 d) (h0\<lparr>hd_refs := hd_refs h0 + 1\<rparr>) b) (part0 d) = Some (h0\<lparr>hd_refs := hd_refs h0 + 1\<rparr>)" by (simp add: put_part_def)
  ultimately show ?thesis using gp by (simp add: invalidate_partition_def bdget_disk_def disk_put_part_def)
qed

lemma capacity_set:
  assumes "disk_ok k native b"
  shows "\<exists>c b'. get_capacity k b = Some c \<and> set_capacity k v b = Some b' \<and> get_capacity k b' = Some v \<and> disk_ok k native b' \<and> disks b' = disks b
    \<and> (\<forall>d p. disks b k = Some d \<longrightarrow> p \<noteq> part0 d \<longrightarrow> parts b' p = parts b p)"
proof (rule disk_okD [OF assms])
  fix d tbl h0
  assume d: "disks b k = Some d" "parts b (part0 d) = Some h0"
  let ?b = "put_part (part0 d) (h0\<lparr>nr_sects := v\<rparr>) b"
  have "disk_ok k native ?b" by (rule disk_ok_same [OF assms]) (use d in \<open>auto simp: same_disk_def put_part_def\<close>)
  then show ?thesis using d by (auto simp: get_capacity_def set_capacity_def put_part_def)
qed

lemma disk_event:
  assumes "disk_ok k native b" and "disks b k = Some d"
  shows "\<exists>es. kobject_uevent X action (part0 d) b = Some (b\<lparr>uevents := es\<rparr>)"
proof (rule disk_okD [OF assms(1)])
  fix d' tbl h0
  assume d: "disks b k = Some d'" "part_tbl d' = Some tbl" "table_ok k b" "parts b (part0 d') = Some h0" "hd_disk h0 = k"
  have e: "d' = d" using d(1) assms(2) by simp
  obtain env where "disk_uevent X k b = Some (env, b)"
    using pure_iteration [OF d(3,1,2), of X no_flags "\<lambda>p n. n + 1" "0 :: int"] by (simp add: disk_uevent_def)
  then have "kobject_uevent X action (part0 d) b = (if uevent_suppress d then Some b else Some (b\<lparr>uevents := uevents b @ [action (part0 d) env]\<rparr>))"
    using d e by (simp add: kobject_uevent_def kobject_uevent_env_def)
  then show ?thesis by (cases "uevent_suppress d") (auto intro: exI [of _ "uevents b"])
qed

lemma part_event:
  assumes "parts b p = Some h" and "disks b (hd_disk h) = Some d" and "p \<noteq> part0 d"
  shows "kobject_uevent X action p b = Some (b\<lparr>uevents := uevents b @ [action p (part_uevent X h)]\<rparr>)"
  using assms by (simp add: kobject_uevent_def kobject_uevent_env_def)

lemma disk_ok_events [simp]: "disk_ok k native (b\<lparr>uevents := es\<rparr>) = disk_ok k native b"
  by (simp add: disk_ok_def table_ok_def)

section \<open>Dropping all partitions\<close>

text \<open>The table with only the given entries and entry 0, and the partitions with the others deleted.\<close>

definition cleared :: "int option list \<Rightarrow> nat list \<Rightarrow> int option list" where
  "cleared tbl js = map (\<lambda>i. if i = 0 \<or> i \<in> set js then tbl ! i else None) [0..<length tbl]"

definition unlinked :: "int option list \<Rightarrow> nat list \<Rightarrow> (int \<rightharpoonup> hd_struct) \<Rightarrow> int \<rightharpoonup> hd_struct" where
  "unlinked tbl js ps = (\<lambda>q. if \<exists>i. 1 \<le> i \<and> i < length tbl \<and> i \<notin> set js \<and> tbl ! i = Some q then map_option (hd_ref_update (\<lambda>_. 0)) (ps q) else ps q)"

lemma cleared_simps [simp]:
  "length (cleared tbl js) = length tbl" "i < length tbl \<Longrightarrow> cleared tbl js ! i = (if i = 0 \<or> i \<in> set js then tbl ! i else None)"
  by (simp_all add: cleared_def)

lemma cleared_step:
  assumes "1 \<le> j" "j \<notin> set js"
  shows "(cleared tbl (j # js))[j := None] = cleared tbl js" "tbl ! j = None \<Longrightarrow> cleared tbl (j # js) = cleared tbl js"
proof -
  show "(cleared tbl (j # js))[j := None] = cleared tbl js"
  proof (rule nth_equalityI)
    fix i assume "i < length ((cleared tbl (j # js))[j := None])"
    then show "(cleared tbl (j # js))[j := None] ! i = cleared tbl js ! i" using assms by (cases "i = j") simp_all
  qed simp
  assume n: "tbl ! j = None"
  show "cleared tbl (j # js) = cleared tbl js"
  proof (rule nth_equalityI)
    fix i assume "i < length (cleared tbl (j # js))"
    then show "cleared tbl (j # js) ! i = cleared tbl js ! i" using assms n by (cases "i = j") simp_all
  qed simp
qed

lemma unlinked_step:
  assumes "1 \<le> j" "j < length tbl" "j \<notin> set js" "\<And>i q. 1 \<le> i \<Longrightarrow> i < length tbl \<Longrightarrow> tbl ! i = Some q \<Longrightarrow> tbl ! j = Some q \<Longrightarrow> i = j"
  shows "tbl ! j = None \<Longrightarrow> unlinked tbl (j # js) ps = unlinked tbl js ps"
    "tbl ! j = Some p \<Longrightarrow> ps p = Some h \<Longrightarrow> unlinked tbl (j # js) ps p = Some h"
    "tbl ! j = Some p \<Longrightarrow> ps p = Some h \<Longrightarrow> (unlinked tbl (j # js) ps)(p \<mapsto> h\<lparr>hd_ref := 0\<rparr>) = unlinked tbl js ps"
proof -
  show "unlinked tbl (j # js) ps = unlinked tbl js ps" if n: "tbl ! j = None"
  proof -
    have "(1 \<le> i \<and> i < length tbl \<and> i \<notin> set (j # js) \<and> tbl ! i = Some q) = (1 \<le> i \<and> i < length tbl \<and> i \<notin> set js \<and> tbl ! i = Some q)" for i q using n by auto
    then show ?thesis unfolding unlinked_def by presburger
  qed
  assume p: "tbl ! j = Some p" "ps p = Some h"
  show "unlinked tbl (j # js) ps p = Some h" using p assms(4) by (auto simp: unlinked_def)
  show "(unlinked tbl (j # js) ps)(p \<mapsto> h\<lparr>hd_ref := 0\<rparr>) = unlinked tbl js ps"
  proof
    fix q
    have "(\<exists>i. 1 \<le> i \<and> i < length tbl \<and> i \<notin> set (j # js) \<and> tbl ! i = Some q) = (\<exists>i. 1 \<le> i \<and> i < length tbl \<and> i \<notin> set js \<and> tbl ! i = Some q)" if "q \<noteq> p"
      using that p(1) by auto
    moreover have "\<exists>i. 1 \<le> i \<and> i < length tbl \<and> i \<notin> set js \<and> tbl ! i = Some p" using assms p by blast
    ultimately show "((unlinked tbl (j # js) ps)(p \<mapsto> h\<lparr>hd_ref := 0\<rparr>)) q = unlinked tbl js ps q"
      using p(2) by (cases "q = p") (simp_all add: unlinked_def)
  qed
qed

text \<open>What a state is when the partitions at the indices \<open>js\<close> are left.\<close>

definition drop_state :: "int \<Rightarrow> blk \<Rightarrow> gendisk \<Rightarrow> int option list \<Rightarrow> nat list \<Rightarrow> blk \<Rightarrow> bool" where
  "drop_state k b d tbl js b' \<longleftrightarrow> set js \<subseteq> {1..<length tbl} \<and> distinct js
     \<and> (\<exists>l. disks b' = (disks b)(k \<mapsto> d\<lparr>part_tbl := Some (cleared tbl js), last_lookup := l\<rparr>)) \<and> parts b' = unlinked tbl js (parts b)
     \<and> rcu_todo b' @ List.map_filter ((!) tbl) js = rcu_todo b @ List.map_filter ((!) tbl) [1..<length tbl]
     \<and> ext_devt_idr b' = ext_devt_idr b \<and> idr_warnings b' = idr_warnings b"

lemma delete_step:
  assumes ok: "disk_ok k native b" and d: "disks b k = Some d" "part_tbl d = Some tbl" and P: "drop_state k b d tbl (j # js) b'" and j: "tbl ! j = Some p"
  shows "\<exists>h b1 b2 b3. parts b p = Some h \<and> partno h = int j \<and> get_device p b' = Some b1 \<and> parts b1 p = Some (h\<lparr>hd_refs := hd_refs h + 1\<rparr>)
    \<and> delete_partition X k (int j) b1 = Some b2 \<and> put_device X p b2 = Some b3 \<and> drop_state k b d tbl js b3"
proof (rule disk_okD [OF ok])
  fix d' tbl' assume d': "disks b k = Some d'" "part_tbl d' = Some tbl'"
    and ps': "\<forall>i p. 1 \<le> i \<longrightarrow> i < length tbl' \<longrightarrow> tbl' ! i = Some p
      \<longrightarrow> (\<exists>h. parts b p = Some h \<and> partno h = int i \<and> hd_disk h = k \<and> 1 \<le> hd_refs h \<and> hd_ref h = 1 \<and> p \<noteq> part0 d')"
  have e: "d' = d" "tbl' = tbl" using d d' by simp_all
  have jj: "1 \<le> j" "j < length tbl" "j \<notin> set js" "set js \<subseteq> {1..<length tbl}" "distinct js" using P by (auto simp: drop_state_def)
  note ps = ps' [unfolded e, rule_format]
  obtain h where h: "parts b p = Some h" "partno h = int j" "hd_disk h = k" "1 \<le> hd_refs h" "hd_ref h = 1" "p \<noteq> part0 d" using ps [OF jj(1,2) j] by blast
  have uniq: "i = j" if "1 \<le> i" "i < length tbl" "tbl ! i = Some q" "tbl ! j = Some q" for i q using ps [OF that(1-3)] that(4) j h by auto
  note us = unlinked_step [OF jj(1,2,3) uniq]
  obtain l where l: "disks b' = (disks b)(k \<mapsto> d\<lparr>part_tbl := Some (cleared tbl (j # js)), last_lookup := l\<rparr>)" using P by (auto simp: drop_state_def)
  have b': "parts b' = unlinked tbl (j # js) (parts b)" "parts b' p = Some h" using P us(2) j h by (auto simp: drop_state_def)
  let ?dj = "d\<lparr>part_tbl := Some (cleared tbl (j # js)), last_lookup := l\<rparr>"
  define b1 where "b1 = put_part p (h\<lparr>hd_refs := hd_refs h + 1\<rparr>) b'"
  define b2 where "b2 = put_disk k (?dj\<lparr>part_tbl := Some (cleared tbl js), last_lookup := None\<rparr>) b1"
  define b3 where "b3 = b2\<lparr>uevents := uevents b2 @ [KOBJ_REMOVE p (part_uevent X (h\<lparr>hd_refs := hd_refs h + 1\<rparr>))]\<rparr>"
  define b4 where "b4 = (put_part p (h\<lparr>hd_refs := hd_refs h + 1, hd_ref := 0\<rparr>) b3)\<lparr>rcu_todo := rcu_todo b3 @ [p]\<rparr>"
  define b5 where "b5 = put_part p (h\<lparr>hd_ref := 0\<rparr>) b4"
  have g: "get_device p b' = Some b1" using b' by (simp add: get_device_def b1_def)
  have p1: "parts b1 p = Some (h\<lparr>hd_refs := hd_refs h + 1\<rparr>)" by (simp add: b1_def put_part_def)
  have ev: "kobject_uevent X KOBJ_REMOVE p b2 = Some b3"
    unfolding b3_def by (rule part_event [where d = "?dj\<lparr>part_tbl := Some (cleared tbl js), last_lookup := None\<rparr>"])
      (use h p1 in \<open>simp_all add: b2_def put_disk_def\<close>)
  have "delete_partition X k (int j) b1 = do { b3 \<leftarrow> kobject_uevent X KOBJ_REMOVE p b2; hd_struct_put p b3 }"
    using l jj j cleared_step(1) [OF jj(1,3), of tbl] by (simp add: delete_partition_def entry_def b1_def b2_def put_part_def)
  moreover have "hd_struct_put p b3 = Some b4"
    using p1 h(5) by (simp add: hd_struct_put_def b3_def b2_def b4_def put_disk_def put_part_def)
  ultimately have del: "delete_partition X k (int j) b1 = Some b4" using ev by simp
  have put: "put_device X p b4 = Some b5"
    using h(3,4) by (simp add: put_device_def b4_def b3_def b2_def b5_def put_part_def put_disk_def)
  have "disks b5 = (disks b)(k \<mapsto> d\<lparr>part_tbl := Some (cleared tbl js), last_lookup := None\<rparr>)"
    using l by (simp add: b5_def b4_def b3_def b2_def b1_def put_part_def put_disk_def)
  moreover have "parts b5 = unlinked tbl js (parts b)"
    using us(3) j h b'(1) by (simp add: b5_def b4_def b3_def b2_def b1_def put_part_def put_disk_def)
  moreover have "rcu_todo b5 = rcu_todo b' @ [p]" "ext_devt_idr b5 = ext_devt_idr b'" "idr_warnings b5 = idr_warnings b'"
    by (simp_all add: b5_def b4_def b3_def b2_def b1_def put_part_def put_disk_def)
  ultimately have "drop_state k b d tbl js b5" using P jj j by (auto simp: drop_state_def List.map_filter_simps)
  then show ?thesis using h(1,2) g p1 del put by blast
qed

lemma drop_run:
  assumes ok: "disk_ok k native b" and d: "disks b k = Some d" "part_tbl d = Some tbl" and S: "se_open S = 0" "\<forall>v. se_inval S v = 0"
  shows "\<exists>b'. drop_partitions X S k b = Some (b', 0) \<and> disk_ok k native b'
    \<and> (\<exists>l. disks b' = (disks b)(k \<mapsto> d\<lparr>part_tbl := Some (cleared tbl []), last_lookup := l\<rparr>)) \<and> parts b' = unlinked tbl [] (parts b)
    \<and> rcu_todo b' = rcu_todo b @ List.map_filter ((!) tbl) [1..<length tbl] \<and> ext_devt_idr b' = ext_devt_idr b"
proof (rule disk_okD [OF ok])
  fix d' tbl' h0 assume d': "disks b k = Some d'" "part_tbl d' = Some tbl'" "0 < length tbl'" "tbl' ! 0 = Some (part0 d')" "fl_native d' = native"
    and h0: "parts b (part0 d') = Some h0" "partno h0 = 0" "hd_disk h0 = k" "1 \<le> hd_refs h0"
    and ps': "\<forall>i p. 1 \<le> i \<longrightarrow> i < length tbl' \<longrightarrow> tbl' ! i = Some p
      \<longrightarrow> (\<exists>h. parts b p = Some h \<and> partno h = int i \<and> hd_disk h = k \<and> 1 \<le> hd_refs h \<and> hd_ref h = 1 \<and> p \<noteq> part0 d')"
  have e: "d' = d" "tbl' = tbl" using d d' by simp_all
  note ps = ps' [unfolded e, rule_format]
  let ?f = "no_flags\<lparr>pi_empty := True\<rparr>"
  let ?body = "\<lambda>p u b. do { h \<leftarrow> parts b p; b1 \<leftarrow> delete_partition X k (partno h) b; Some (u, b1) }"
  define P where "P js u b' \<longleftrightarrow> drop_state k b d tbl js b'" for js and u :: unit and b'
  have live: "unlinked tbl js (parts b) p \<noteq> None" if "1 \<le> i" "i < length tbl" "tbl ! i = Some p" for js i p
    using ps [OF that] by (auto simp: unlinked_def)
  have "loop_inv X k ?f (length tbl) ?body P"
    unfolding loop_inv_def
  proof (intro allI impI)
    fix js u b' assume P: "P js u b'"
    then obtain l where l: "disks b' k = Some (d\<lparr>part_tbl := Some (cleared tbl js), last_lookup := l\<rparr>)" by (auto simp: P_def drop_state_def)
    have js: "set js \<subseteq> {1..<length tbl}" "distinct js" "parts b' = unlinked tbl js (parts b)" using P by (auto simp: P_def drop_state_def)
    have a1: "\<forall>j\<in>set js. \<forall>p. cleared tbl js ! j = Some p \<longrightarrow> parts b' p \<noteq> None"
    proof (intro ballI allI impI)
      fix j p assume "j \<in> set js" "cleared tbl js ! j = Some p"
      moreover from this have "1 \<le> j" "j < length tbl" using js by auto
      ultimately show "parts b' p \<noteq> None" using live [of j p js] js(3) by simp
    qed
    have a2: "case stops_at ?f (parts b') (cleared tbl js) j of None \<Rightarrow> P js' u b'
        | Some p \<Rightarrow> \<exists>b1 a2 b2 b3. get_device p b' = Some b1 \<and> ?body p u b1 = Some (a2, b2) \<and> put_device X p b2 = Some b3 \<and> P js' a2 b3"
      if s: "js = j # js'" for j js'
    proof -
      have j: "1 \<le> j" "j < length tbl" "j \<notin> set js'" using js s by auto
      show ?thesis
      proof (cases "tbl ! j")
        case None
        have "P js' u b'" using P None s cleared_step(2) [OF j(1,3) None] unlinked_step(1) [OF j, of "parts b"] ps None
          by (auto simp: P_def drop_state_def List.map_filter_simps)
        then show ?thesis using None j s by (simp add: stops_at_def)
      next
        case (Some p)
        obtain h b1 b2 b3 where st: "parts b p = Some h" "partno h = int j" "get_device p b' = Some b1" "parts b1 p = Some (h\<lparr>hd_refs := hd_refs h + 1\<rparr>)"
          "delete_partition X k (int j) b1 = Some b2" "put_device X p b2 = Some b3" "drop_state k b d tbl js' b3"
          using delete_step [OF ok d P [unfolded P_def s] Some, of X] by blast
        have "stops_at ?f (parts b') (cleared tbl js) j = Some p" using Some j s a1 by (auto simp: stops_at_def split: option.splits)
        then show ?thesis using st by (simp add: P_def)
      qed
    qed
    show "\<exists>d tbl'. disks b' k = Some d \<and> part_tbl d = Some tbl' \<and> length tbl' = length tbl \<and> (\<forall>j\<in>set js. \<forall>p. tbl' ! j = Some p \<longrightarrow> parts b' p \<noteq> None)
      \<and> (\<forall>j js'. js = j # js' \<longrightarrow> (case stops_at ?f (parts b') tbl' j of None \<Rightarrow> P js' u b'
        | Some p \<Rightarrow> \<exists>b1 a2 b2 b3. get_device p b' = Some b1 \<and> ?body p u b1 = Some (a2, b2) \<and> put_device X p b2 = Some b3 \<and> P js' a2 b3))"
      by (intro exI [of _ "d\<lparr>part_tbl := Some (cleared tbl js), last_lookup := l\<rparr>"] exI [of _ "cleared tbl js"] conjI allI impI)
        (use l a1 a2 in simp_all)
  qed
  moreover have "P (iter_order ?f (length tbl)) () b"
  proof -
    have "cleared tbl [1..<length tbl] = tbl" by (rule nth_equalityI) auto
    moreover have "unlinked tbl [1..<length tbl] (parts b) = parts b" by (auto simp: unlinked_def)
    moreover have "\<exists>l. disks b = (disks b)(k \<mapsto> d\<lparr>part_tbl := Some tbl, last_lookup := l\<rparr>)"
      using d by (intro exI [of _ "last_lookup d"]) (simp add: fun_upd_idem)
    ultimately show ?thesis unfolding P_def drop_state_def iter_order_def low_index_def by auto
  qed
  ultimately obtain u b' where r: "for_each_part X k ?f ?body () b = Some (u, b')" "P [] u b'"
    using for_each_part_rule [of X k ?f "length tbl" ?body P "()" b] d'(3) e by blast
  obtain l where l: "disks b' = (disks b)(k \<mapsto> d\<lparr>part_tbl := Some (cleared tbl []), last_lookup := l\<rparr>)" using r(2) by (auto simp: P_def drop_state_def)
  have q: "parts b' = unlinked tbl [] (parts b)" "rcu_todo b' = rcu_todo b @ List.map_filter ((!) tbl) [1..<length tbl]" "ext_devt_idr b' = ext_devt_idr b"
    using r(2) by (auto simp: P_def drop_state_def List.map_filter_simps)
  have p0: "parts b' (part0 d) = Some h0" using ps h0 e by (auto simp: q unlinked_def)
  have "disk_ok k native b'"
    by (rule disk_okI [of _ _ "d\<lparr>part_tbl := Some (cleared tbl []), last_lookup := l\<rparr>" "cleared tbl []"]) (use l p0 h0 d' e in auto)
  moreover obtain res where "invalidate_partition X (se_bdget S) (se_inval S) k 0 b = Some (b, res)" "res = 0"
    using invalidate_disk [OF ok, of X "se_bdget S" "se_inval S"] S(2) by blast
  ultimately show ?thesis using r(1) l q S(1) by (auto simp: drop_partitions_def)
qed

text \<open>
  When the partitions of a disk are dropped, because the medium may have changed,
  and none is open and the buffers can be written back, all of them go: the table keeps
  only the entry of the disk, its remembered lookup is gone, every partition has given up
  its own reference and waits, once and in order, for the readers of the table, and no
  reference of the iteration is left. No other partition or disk is touched.
\<close>

theorem drop_clears_table:
  assumes ok: "disk_ok k native b" and d: "disks b k = Some d" "part_tbl d = Some tbl" and S: "se_open S = 0" "\<forall>v. se_inval S v = 0"
  shows "\<exists>b'. drop_partitions X S k b = Some (b', 0) \<and> disk_ok k native b'
    \<and> (\<exists>l. disks b' = (disks b)(k \<mapsto> d\<lparr>part_tbl := Some (cleared tbl []), last_lookup := l\<rparr>)) \<and> parts b' = unlinked tbl [] (parts b)
    \<and> rcu_todo b' = rcu_todo b @ List.map_filter ((!) tbl) [1..<length tbl] \<and> ext_devt_idr b' = ext_devt_idr b"
  by (rule drop_run [OF assms])

text \<open>An example: a scan whose new partitions get one of four addresses.\<close>

definition demo_answers :: add_env where
  "demo_answers = \<lparr>ae_tbl = True, ae_part = None, ae_stats = True, ae_info = True, ae_device = 0, ae_holders = True, ae_file = 0\<rparr>"

definition demo_scan :: scan_env where
  "demo_scan = \<lparr>se_open = 0, se_bdget = (\<lambda>_. True), se_inval = (\<lambda>_. 0), se_revalidate = (\<lambda>c. c),
     se_check = (\<lambda>b. Table [\<lparr>pp_from = 8, pp_size = 100, pp_whole = False, pp_raid = False, pp_volname = []\<rparr>,
                            \<lparr>pp_from = 900, pp_size = 200, pp_whole = False, pp_raid = False, pp_volname = ''data''\<rparr>] False),
     se_unlock = None, se_tbl = True, se_add = (\<lambda>b i. demo_answers\<lparr>ae_part := find (\<lambda>p. parts b p = None) [20, 21, 22, 23]\<rparr>)\<rparr>"

lemma demo_disk_ok: "disk_ok 1 False demo_blk"
proof (rule disk_okI [of _ _ demo_gendisk "[Some 10, Some 11, None, Some 13]" _ "demo_hd 0 0 1000"])
  fix i :: nat and p :: int assume "1 \<le> i" "i < length [Some 10, Some 11, None, Some (13 :: int)]" "[Some 10, Some 11, None, Some 13] ! i = Some p"
  then show "\<exists>h. parts demo_blk p = Some h \<and> partno h = int i \<and> hd_disk h = 1 \<and> 1 \<le> hd_refs h \<and> hd_ref h = 1"
    by (auto simp: demo_blk_def demo_hd_def less_Suc_eq nth_Cons' split: if_splits)
qed (simp_all add: demo_blk_def demo_gendisk_def demo_hd_def)

theorem drop_clears_table_witness:
  "\<exists>b'. drop_partitions demo_gext demo_scan 1 demo_blk = Some (b', 0) \<and> disk_ok 1 False b' \<and> rcu_todo b' = [11, 13]"
proof -
  have d: "disks demo_blk 1 = Some demo_gendisk" "part_tbl demo_gendisk = Some [Some 10, Some 11, None, Some 13]" by (simp_all add: demo_blk_def demo_gendisk_def)
  have "rcu_todo demo_blk @ List.map_filter ((!) [Some 10, Some 11, None, Some 13]) [1..<length [Some 10, Some 11, None, Some (13 :: int)]] = [11, 13]" by code_simp
  then show ?thesis using drop_clears_table [OF demo_disk_ok d, of demo_scan demo_gext] by (auto simp: demo_scan_def)
qed

section \<open>What the table says\<close>

text \<open>Start and length of the partition at an index.\<close>

definition area_at :: "int \<Rightarrow> blk \<Rightarrow> nat \<Rightarrow> (sector_t \<times> sector_t) option" where
  "area_at k b i =
     do { d \<leftarrow> disks b k; tbl \<leftarrow> part_tbl d; e \<leftarrow> entry tbl (int i); p \<leftarrow> e; h \<leftarrow> parts b p; Some (start_sect h, nr_sects h) }"

lemma area_at_eq:
  assumes "disks b k = Some d" "part_tbl d = Some tbl"
  shows "area_at k b i = (if i < length tbl then do { p \<leftarrow> tbl ! i; h \<leftarrow> parts b p; Some (start_sect h, nr_sects h) } else None)"
  using assms by (simp add: area_at_def entry_def)

lemma dropped_area:
  assumes "disks b k = Some d" "part_tbl d = Some (cleared tbl [])" "1 \<le> i"
  shows "area_at k b i = None"
  unfolding area_at_eq [OF assms(1,2)] using assms(3) by simp

text \<open>More partitions in memory, or changes of other partitions, do not matter.\<close>

lemma more_parts:
  assumes ok: "disk_ok k native b" and "disks b' k = disks b k" and same: "\<And>q. parts b q \<noteq> None \<Longrightarrow> parts b' q = parts b q"
  shows "disk_ok k native b'" "area_at k b' i = area_at k b i" "get_capacity k b' = get_capacity k b"
proof -
  obtain d tbl h0 where d: "disks b k = Some d" "part_tbl d = Some tbl" "table_ok k b" "fl_native d = native" "0 < length tbl" "tbl ! 0 = Some (part0 d)"
    "parts b (part0 d) = Some h0" "partno h0 = 0" "hd_disk h0 = k" "1 \<le> hd_refs h0"
    and ps: "\<forall>i p. 1 \<le> i \<longrightarrow> i < length tbl \<longrightarrow> tbl ! i = Some p
      \<longrightarrow> (\<exists>h. parts b p = Some h \<and> partno h = int i \<and> hd_disk h = k \<and> 1 \<le> hd_refs h \<and> hd_ref h = 1 \<and> p \<noteq> part0 d)"
    by (rule disk_okD [OF ok])
  have d': "disks b' k = Some d" using assms(2) d(1) by simp
  have h0: "parts b' (part0 d) = Some h0" using same d(7) by simp
  have live: "parts b p \<noteq> None" if "i < length tbl" "tbl ! i = Some p" for i p by (rule table_live [OF d(3,1,2) that]) simp
  show "disk_ok k native b'"
  proof (rule disk_okI [OF d' d(2,4,5,6) h0 d(8-10)])
    fix i p assume "1 \<le> i" "i < length tbl" "tbl ! i = Some p"
    then show "\<exists>h. parts b' p = Some h \<and> partno h = int i \<and> hd_disk h = k \<and> 1 \<le> hd_refs h \<and> hd_ref h = 1"
      using ps same [of p] by fastforce
  qed
  show "area_at k b' i = area_at k b i"
    unfolding area_at_eq [OF d(1,2)] area_at_eq [OF d' d(2)] using live same by (cases "tbl ! i") auto
  show "get_capacity k b' = get_capacity k b" using d d' h0 by (simp add: get_capacity_def)
qed

text \<open>A longer table.\<close>

lemma longer_table:
  assumes ok: "disk_ok k native b" and d: "disks b k = Some d" "part_tbl d = Some tbl"
    and b': "b' = put_disk k (d\<lparr>part_tbl := Some (tbl @ replicate m None), last_lookup := l\<rparr>) b"
  shows "disk_ok k native b'" "area_at k b' i = area_at k b i" "get_capacity k b' = get_capacity k b" "parts b' = parts b" "rcu_todo b' = rcu_todo b"
proof -
  let ?d = "d\<lparr>part_tbl := Some (tbl @ replicate m None), last_lookup := l\<rparr>"
  have d': "disks b' k = Some ?d" "part_tbl ?d = Some (tbl @ replicate m None)" and p: "parts b' = parts b" by (simp_all add: b' put_disk_def)
  show "disk_ok k native b'"
  proof (rule disk_okD [OF ok])
    fix e t h0 assume e: "disks b k = Some e" "part_tbl e = Some t" "fl_native e = native" "0 < length t" "t ! 0 = Some (part0 e)"
      "parts b (part0 e) = Some h0" "partno h0 = 0" "hd_disk h0 = k" "1 \<le> hd_refs h0"
      and ps: "\<forall>i p. 1 \<le> i \<longrightarrow> i < length t \<longrightarrow> t ! i = Some p
        \<longrightarrow> (\<exists>h. parts b p = Some h \<and> partno h = int i \<and> hd_disk h = k \<and> 1 \<le> hd_refs h \<and> hd_ref h = 1 \<and> p \<noteq> part0 e)"
    have et: "e = d" "t = tbl" using d e by simp_all
    show "disk_ok k native b'"
    proof (rule disk_okI [OF d', of native h0])
      fix i p assume "1 \<le> i" "i < length (tbl @ replicate m None)" "(tbl @ replicate m None) ! i = Some p"
      then show "\<exists>h. parts b' p = Some h \<and> partno h = int i \<and> hd_disk h = k \<and> 1 \<le> hd_refs h \<and> hd_ref h = 1"
        using ps et p by (fastforce simp: nth_append split: if_splits)
    qed (use e et p in \<open>simp_all add: nth_append\<close>)
  qed
  show "area_at k b' i = area_at k b i" unfolding area_at_eq [OF d] area_at_eq [OF d'] using p by (auto simp: nth_append)
  show "get_capacity k b' = get_capacity k b" "parts b' = parts b" "rcu_todo b' = rcu_todo b" using d d' p b' by (simp_all add: get_capacity_def put_disk_def)
qed

lemma expand_run:
  assumes d: "disks b k = Some d" "part_tbl d = Some tbl" and n: "0 \<le> n" "n < 2 ^ 31 - 1"
  shows "\<exists>e m l. disk_expand_part_tbl X kz k n b = Some (put_disk k (d\<lparr>part_tbl := Some (tbl @ replicate m None), last_lookup := l\<rparr>) b, e)
    \<and> (e = 0 \<longrightarrow> n < int (length tbl + m)) \<and> (kz \<and> (disk_max_parts X d = 0 \<or> n < disk_max_parts X d) \<longrightarrow> e = 0)"
proof -
  have t: "sint (of_int (n + 1) :: u32) = n + 1" using n unfolding sint_sbintrunc' by (simp add: signed_take_bit_int_eq_self)
  have id: "put_disk k (d\<lparr>part_tbl := Some (tbl @ replicate 0 None), last_lookup := last_lookup d\<rparr>) b = b"
    using d by (simp add: put_disk_def fun_upd_idem)
  let ?r = "disk_expand_part_tbl X kz k n b"
  consider (max) "disk_max_parts X d \<noteq> 0" "n + 1 > disk_max_parts X d" | (fits) "disk_max_parts X d = 0 \<or> n + 1 \<le> disk_max_parts X d" "n + 1 \<le> int (length tbl)"
    | (grow) "disk_max_parts X d = 0 \<or> n + 1 \<le> disk_max_parts X d" "n + 1 > int (length tbl)" by linarith
  then show ?thesis
  proof cases
    case max
    then have "?r = Some (b, -EINVAL)" using d t n by (simp add: disk_expand_part_tbl_def)
    then show ?thesis using id max by (intro exI [of _ "-EINVAL"] exI [of _ 0] exI [of _ "last_lookup d"]) auto
  next
    case fits
    then have "?r = Some (b, 0)" using d t n by (auto simp: disk_expand_part_tbl_def)
    then show ?thesis using id fits by (intro exI [of _ 0] exI [of _ "last_lookup d"]) auto
  next
    case grow
    show ?thesis
    proof (cases kz)
      case True
      then have "?r = Some (put_disk k (d\<lparr>part_tbl := Some (tbl @ replicate (nat (n + 1) - length tbl) None), last_lookup := None\<rparr>) b, 0)"
        using d t n grow by (auto simp: disk_expand_part_tbl_def disk_replace_part_tbl_def Let_def)
      then show ?thesis using n grow by (intro exI [of _ 0] exI [of _ "nat (n + 1) - length tbl"] exI [of _ None]) auto
    next
      case False
      then have "?r = Some (b, -ENOMEM)" using d t n grow by (auto simp: disk_expand_part_tbl_def)
      then show ?thesis using id False by (intro exI [of _ "-ENOMEM"] exI [of _ 0] exI [of _ "last_lookup d"]) auto
    qed
  qed
qed

section \<open>Adding a partition\<close>

text \<open>Answers with which an addition succeeds.\<close>

definition all_well :: "add_env \<Rightarrow> bool" where
  "all_well E \<longleftrightarrow> ae_tbl E \<and> ae_part E \<noteq> None \<and> ae_stats E \<and> ae_info E \<and> ae_device E = 0 \<and> ae_holders E \<and> ae_file E = 0"

lemma free_devt_frame [simp]: "disks (blk_free_devt X v b) = disks b" "parts (blk_free_devt X v b) = parts b" "rcu_todo (blk_free_devt X v b) = rcu_todo b"
  by (simp_all add: blk_free_devt_def idr_remove_def)

lemma alloc_devt_run:
  assumes "parts b p = Some h" "disks b (hd_disk h) = Some d" "idr_ok X"
  shows "\<exists>m e v. blk_alloc_devt X p b = Some (b\<lparr>ext_devt_idr := m\<rparr>, e, v) \<and> (partno h < gd_minors d \<longrightarrow> e = 0)"
  using assms by (auto simp: blk_alloc_devt_def split: sum.splits if_splits intro: exI [of _ "ext_devt_idr b"])

lemma out_put_run:
  assumes "parts b p = Some h" "hd_refs h = 1" "disks b (hd_disk h) = Some d" "p \<noteq> part0 d"
  shows "\<exists>b'. out_put X p v err b = Some (b', Inl err) \<and> disks b' = disks b \<and> parts b' = (parts b)(p := None) \<and> rcu_todo b' = rcu_todo b"
  using assms by (simp add: out_put_def put_device_def part_release_def)

lemma publish_run:
  assumes ok: "disk_ok k native b" and d: "disks b k = Some d" "part_tbl d = Some tbl" and n: "1 \<le> n" "n < length tbl" "tbl ! n = None"
    and h: "parts b p = None" "partno h = int n" "hd_disk h = k" "1 \<le> hd_refs h"
  shows "\<exists>b'. publish X k (int n) p (put_part p h b) = Some (b', Inr p) \<and> disk_ok k native b' \<and> get_capacity k b' = get_capacity k b
    \<and> area_at k b' = (area_at k b)(n \<mapsto> (start_sect h, nr_sects h)) \<and> (\<exists>d'. disks b' k = Some d' \<and> gd_minors d' = gd_minors d)
    \<and> (mem_ok k b \<longrightarrow> mem_ok k b')"
proof (rule disk_okD [OF ok])
  fix e t h0 assume e: "disks b k = Some e" "part_tbl e = Some t" "table_ok k b" "fl_native e = native" "0 < length t" "t ! 0 = Some (part0 e)"
    "parts b (part0 e) = Some h0" "partno h0 = 0" "hd_disk h0 = k" "1 \<le> hd_refs h0"
    and ps: "\<forall>i p. 1 \<le> i \<longrightarrow> i < length t \<longrightarrow> t ! i = Some p
      \<longrightarrow> (\<exists>h. parts b p = Some h \<and> partno h = int i \<and> hd_disk h = k \<and> 1 \<le> hd_refs h \<and> hd_ref h = 1 \<and> p \<noteq> part0 e)"
  have et: "e = d" "t = tbl" using d e by simp_all
  have p0: "p \<noteq> part0 d" using h(1) e(7) et by auto
  let ?d = "d\<lparr>part_tbl := Some (tbl[n := Some p])\<rparr>"
  define b1 where "b1 = put_disk k ?d (put_part p h b)"
  obtain es where ev: "(if uevent_suppress d then Some b1 else kobject_uevent X KOBJ_ADD p b1) = Some (b1\<lparr>uevents := es\<rparr>)"
  proof (cases "uevent_suppress d")
    case True
    then show ?thesis using that [of "uevents b1"] by simp
  next
    case False
    have "kobject_uevent X KOBJ_ADD p b1 = Some (b1\<lparr>uevents := uevents b1 @ [KOBJ_ADD p (part_uevent X h)]\<rparr>)"
      by (rule part_event [where d = ?d]) (use h p0 in \<open>simp_all add: b1_def put_disk_def put_part_def\<close>)
    then show ?thesis using that False by simp
  qed
  define b' where "b' = put_part p (h\<lparr>hd_ref := 1\<rparr>) (b1\<lparr>uevents := es\<rparr>)"
  have run: "publish X k (int n) p (put_part p h b) = Some (b', Inr p)"
  proof -
    have "publish X k (int n) p (put_part p h b) =
      do { b2 \<leftarrow> (if uevent_suppress d then Some b1 else kobject_uevent X KOBJ_ADD p b1); h \<leftarrow> parts b2 p; Some (put_part p (h\<lparr>hd_ref := 1\<rparr>) b2, Inr p) }"
      using d unfolding publish_def b1_def by (simp add: put_part_def Let_def)
    then show ?thesis unfolding ev by (simp add: b'_def b1_def put_part_def put_disk_def)
  qed
  have d': "disks b' k = Some ?d" "part_tbl ?d = Some (tbl[n := Some p])" and p': "parts b' = (parts b)(p \<mapsto> h\<lparr>hd_ref := 1\<rparr>)"
    by (simp_all add: b'_def b1_def put_part_def put_disk_def)
  have "disk_ok k native b'"
  proof (rule disk_okI [OF d', of native h0])
    fix i q assume iq: "1 \<le> i" "i < length (tbl[n := Some p])" "tbl[n := Some p] ! i = Some q"
    show "\<exists>h. parts b' q = Some h \<and> partno h = int i \<and> hd_disk h = k \<and> 1 \<le> hd_refs h \<and> hd_ref h = 1"
    proof (cases "i = n")
      case True
      then show ?thesis using iq n h p' by simp
    next
      case False
      then have "tbl ! i = Some q" "i < length tbl" using iq by simp_all
      then show ?thesis using ps [rule_format, of i q] iq(1) et p' h(1) by auto
    qed
  qed (use e et n p0 p' in \<open>simp_all add: nth_list_update\<close>)
  moreover have "get_capacity k b' = get_capacity k b" using d d' p' p0 by (simp add: get_capacity_def)
  moreover have "area_at k b' = (area_at k b)(n \<mapsto> (start_sect h, nr_sects h))"
  proof
    fix i
    have "parts b q \<noteq> None" if "i < length tbl" "tbl ! i = Some q" for q by (rule table_live [OF e(3) d that]) simp
    then show "area_at k b' i = ((area_at k b)(n \<mapsto> (start_sect h, nr_sects h))) i"
      unfolding area_at_eq [OF d] area_at_eq [OF d'] using n h(1) p' by (cases "tbl ! i") (auto simp: nth_list_update)
  qed
  moreover have "mem_ok k b \<longrightarrow> mem_ok k b'"
  proof
    assume m: "mem_ok k b"
    have "finite (dom (parts b'))" using m p' by (simp add: mem_ok_def)
    moreover have "rcu_todo b' = rcu_todo b" by (simp add: b'_def b1_def put_part_def put_disk_def)
    ultimately show "mem_ok k b'" using m by (intro mem_ok_keep [OF m]) (use p' h(1) in auto)
  qed
  ultimately show ?thesis using run d' by (intro exI [of _ b']) simp
qed

text \<open>The table after an addition: as before on an error, else with the new partition.\<close>

definition added :: "int \<Rightarrow> bool \<Rightarrow> blk \<Rightarrow> gendisk \<Rightarrow> nat \<Rightarrow> sector_t \<times> sector_t \<Rightarrow> blk \<times> (int + int) \<Rightarrow> bool" where
  "added k native b d n a br \<longleftrightarrow> (case br of (b', r) \<Rightarrow> disk_ok k native b' \<and> get_capacity k b' = get_capacity k b
     \<and> (\<exists>d'. disks b' k = Some d' \<and> gd_minors d' = gd_minors d) \<and> (mem_ok k b \<longrightarrow> mem_ok k b') \<and> area_at k b' = (if isl r then area_at k b else (area_at k b)(n \<mapsto> a)))"

lemma not_added:
  assumes "disk_ok k native b" "disks b k = Some d" "disks b' k = disks b k" "parts b' = parts b" "rcu_todo b' = rcu_todo b"
  shows "added k native b d n a (b', Inl err)"
proof -
  have same: "parts b' q = parts b q" for q using assms(4) by simp
  note mp = more_parts [OF assms(1,3) same]
  have "area_at k b' = area_at k b" using mp(2) by blast
  then show ?thesis using mp(1,3) assms(2,3) mem_ok_same [OF _ assms(5,4)] by (simp add: added_def)
qed

lemma add_device_run:
  assumes ok: "disk_ok k native b" and X: "idr_ok X" and d: "disks b k = Some d" "part_tbl d = Some tbl" and n: "1 \<le> n" "n < length tbl" "tbl ! n = None"
    and h: "parts b p = None" "partno h = int n" "hd_disk h = k" "hd_refs h = 1"
  shows "\<exists>b' r. add_device X E k (int n) p whole h b = Some (b', r) \<and> added k native b d n (start_sect h, nr_sects h) (b', r)
    \<and> (ae_device E = 0 \<and> ae_holders E \<and> ae_file E = 0 \<and> int n < gd_minors d \<longrightarrow> \<not> isl r) \<and> r \<noteq> Inl 0"
proof -
  have p0: "p \<noteq> part0 d" using h(1) disk_okD [OF ok] d(1) by (metis option.discI option.inject)
  obtain m e v where al: "blk_alloc_devt X p (put_part p h b) = Some ((put_part p h b)\<lparr>ext_devt_idr := m\<rparr>, e, v)" "int n < gd_minors d \<longrightarrow> e = 0"
    using alloc_devt_run [of "put_part p h b" p h d X] h d X by (auto simp: put_part_def)
  define b0 where "b0 = b\<lparr>ext_devt_idr := m\<rparr>"
  define h2 where "h2 = h\<lparr>hd_devt := v\<rparr>"
  define b2 where "b2 = put_part p h2 b0"
  have b2: "put_part p h2 ((put_part p h b)\<lparr>ext_devt_idr := m\<rparr>) = b2" by (simp add: b2_def b0_def put_part_def)
  have f2: "parts b2 = (parts b)(p \<mapsto> h2)" "disks b2 = disks b" "rcu_todo b2 = rcu_todo b" by (simp_all add: b2_def b0_def put_part_def)
  have op: "\<exists>b'. out_put X p v err c = Some (b', Inl err) \<and> added k native b d n (start_sect h, nr_sects h) (b', Inl err)"
    if c: "parts c = (parts b)(p \<mapsto> h2)" "disks c = disks b" "rcu_todo c = rcu_todo b" for err c
  proof -
    have "\<exists>b'. out_put X p v err c = Some (b', Inl err) \<and> disks b' = disks c \<and> parts b' = (parts c)(p := None) \<and> rcu_todo b' = rcu_todo c"
      by (rule out_put_run [where h = h2 and d = d]) (use c h d p0 in \<open>simp_all add: h2_def\<close>)
    then obtain b' where b': "out_put X p v err c = Some (b', Inl err)" "disks b' = disks c" "parts b' = (parts c)(p := None)" "rcu_todo b' = rcu_todo c" by blast
    have "added k native b d n (start_sect h, nr_sects h) (b', Inl err)"
      by (rule not_added [OF ok d(1)]) (use b' c h(1) in \<open>simp_all add: fun_upd_idem\<close>)
    then show ?thesis using b' by blast
  qed
  show ?thesis
  proof (cases "e = 0")
    case False
    let ?b = "((put_part p h b)\<lparr>ext_devt_idr := m\<rparr>)\<lparr>parts := (parts ((put_part p h b)\<lparr>ext_devt_idr := m\<rparr>))(p := None)\<rparr>"
    have "added k native b d n (start_sect h, nr_sects h) (?b, Inl e)" by (rule not_added [OF ok d(1)]) (use h(1) in \<open>simp_all add: put_part_def fun_upd_idem\<close>)
    then show ?thesis using al False by (simp add: add_device_def)
  next
    case True
    have run: "add_device X E k (int n) p whole h b =
       (if ae_device E \<noteq> 0 then out_put X p v (ae_device E) b2 else if \<not> ae_holders E then out_put X p v (-ENOMEM) b2
        else if whole \<and> ae_file E \<noteq> 0 then do { b3 \<leftarrow> kobject_uevent X KOBJ_REMOVE p b2; out_put X p v (ae_file E) b3 } else publish X k (int n) p b2)"
      using al True b2 by (simp add: add_device_def h2_def)
    consider (dev) "ae_device E \<noteq> 0" | (hold) "ae_device E = 0" "\<not> ae_holders E" | (attr) "ae_device E = 0" "ae_holders E" "whole" "ae_file E \<noteq> 0"
      | (fine) "ae_device E = 0" "ae_holders E" "\<not> (whole \<and> ae_file E \<noteq> 0)" by blast
    then show ?thesis
    proof cases
      case dev
      then show ?thesis using run op [OF f2, of "ae_device E"] by auto
    next
      case hold
      then show ?thesis using run op [OF f2, of "-ENOMEM"] by auto
    next
      case attr
      have "kobject_uevent X KOBJ_REMOVE p b2 = Some (b2\<lparr>uevents := uevents b2 @ [KOBJ_REMOVE p (part_uevent X h2)]\<rparr>)"
        by (rule part_event [where d = d]) (use f2 h d p0 in \<open>simp_all add: h2_def\<close>)
      then show ?thesis using run attr op [of "b2\<lparr>uevents := uevents b2 @ [KOBJ_REMOVE p (part_uevent X h2)]\<rparr>" "ae_file E"] f2 by auto
    next
      case fine
      have ok0: "disk_ok k native b0" and cap0: "get_capacity k b0 = get_capacity k b" and area0: "area_at k b0 i = area_at k b i" for i
        using more_parts [OF ok, of b0] by (simp_all add: b0_def)
      have "\<exists>b'. publish X k (int n) p (put_part p h2 b0) = Some (b', Inr p) \<and> disk_ok k native b' \<and> get_capacity k b' = get_capacity k b0
        \<and> area_at k b' = (area_at k b0)(n \<mapsto> (start_sect h2, nr_sects h2)) \<and> (\<exists>d'. disks b' k = Some d' \<and> gd_minors d' = gd_minors d)
        \<and> (mem_ok k b0 \<longrightarrow> mem_ok k b')"
        by (rule publish_run [OF ok0 _ d(2) n]) (use d h in \<open>simp_all add: b0_def h2_def\<close>)
      moreover have "area_at k b0 = area_at k b" using area0 by blast
      ultimately obtain b' where b': "publish X k (int n) p b2 = Some (b', Inr p)" "disk_ok k native b'" "get_capacity k b' = get_capacity k b"
        "area_at k b' = (area_at k b)(n \<mapsto> (start_sect h, nr_sects h))" "\<exists>d'. disks b' k = Some d' \<and> gd_minors d' = gd_minors d"
        "mem_ok k b \<longrightarrow> mem_ok k b'"
        using cap0 by (auto simp: b2_def h2_def b0_def mem_ok_def)
      have "add_device X E k (int n) p whole h b = Some (b', Inr p)" using run fine b'(1) by auto
      then show ?thesis using b' by (intro exI [of _ b'] exI [of _ "Inr p"]) (simp add: added_def)
    qed
  qed
qed

lemma add_partition_run:
  assumes ok: "disk_ok k native b" and X: "idr_ok X" and d: "disks b k = Some d" and n: "1 \<le> n" "int n < 2 ^ 31 - 1"
    and fresh: "\<And>p. ae_part E = Some p \<Longrightarrow> parts b p = None"
  shows "\<exists>b' r. add_partition X E k (int n) start len whole info b = Some (b', r) \<and> added k native b d n (start, len) (b', r)
    \<and> (all_well E \<and> area_at k b n = None \<and> (disk_max_parts X d = 0 \<or> int n < disk_max_parts X d) \<and> int n < gd_minors d \<longrightarrow> \<not> isl r)
    \<and> (r = Inl 0 \<longrightarrow> info \<noteq> None \<and> \<not> ae_info E)"
proof -
  obtain tbl where tb: "part_tbl d = Some tbl" "table_ok k b" using ok d by (auto simp: disk_ok_def table_ok_def)
  obtain e m l where ex: "disk_expand_part_tbl X (ae_tbl E) k (int n) b = Some (put_disk k (d\<lparr>part_tbl := Some (tbl @ replicate m None), last_lookup := l\<rparr>) b, e)"
    "e = 0 \<longrightarrow> int n < int (length tbl + m)" "ae_tbl E \<and> (disk_max_parts X d = 0 \<or> int n < disk_max_parts X d) \<longrightarrow> e = 0"
    using expand_run [OF d tb(1), of "int n" X "ae_tbl E"] n by auto
  let ?tbl = "tbl @ replicate m None"
  define d1 where "d1 = d\<lparr>part_tbl := Some ?tbl, last_lookup := l\<rparr>"
  define b1 where "b1 = put_disk k d1 b"
  note lt = longer_table [OF ok d tb(1) b1_def [unfolded d1_def]]
  have d1: "disks b1 k = Some d1" "part_tbl d1 = Some ?tbl" "gd_minors d1 = gd_minors d" by (simp_all add: b1_def d1_def put_disk_def)
  have area1: "area_at k b1 = area_at k b" using lt(2) by blast
  have same: "added k native b d n a (b1, Inl err)" for err a using lt(1,3) area1 d1 mem_ok_same [OF _ lt(5,4)] by (simp add: added_def)
  have step: "added k native b d n a br" if "added k native b1 d1 n a br" for a br
    using that area1 lt(3) d1(3) mem_ok_same [OF _ lt(5,4)] by (auto simp: added_def split: prod.splits)
  note run = add_partition_def [of X E k "int n" start len whole info b, unfolded ex(1) b1_def [symmetric] d1_def [symmetric]]
  show ?thesis
  proof (cases "e = 0")
    case False
    then show ?thesis using run same ex(3) by (auto simp: all_well_def)
  next
    case True
    then have nl: "n < length ?tbl" using ex(2) by simp
    have en: "entry ?tbl (int n) = Some (?tbl ! n)" using nl by (simp add: entry_def)
    obtain ro where ro: "get_disk_ro k b1 = Some ro"
    proof (rule disk_okD [OF lt(1)])
      fix d' h0 assume "disks b1 k = Some d'" "parts b1 (part0 d') = Some h0"
      then show ?thesis using that by (simp add: get_disk_ro_def)
    qed
    let ?h = "\<lparr>start_sect = start, nr_sects = len, partno = int n, policy = ro, hd_devt = 0, volname = (case info of None \<Rightarrow> [] | Some v \<Rightarrow> v), hd_disk = k, hd_refs = 1, hd_ref = 0\<rparr>"
    consider (busy) q where "?tbl ! n = Some q" | (nomem) "?tbl ! n = None" "ae_part E = None" | (stats) p where "?tbl ! n = None" "ae_part E = Some p" "\<not> ae_stats E"
      | (info) p where "?tbl ! n = None" "ae_part E = Some p" "ae_stats E" "info \<noteq> None" "\<not> ae_info E"
      | (fine) p where "?tbl ! n = None" "ae_part E = Some p" "ae_stats E" "\<not> (info \<noteq> None \<and> \<not> ae_info E)" by (cases "?tbl ! n"; cases "ae_part E") blast+
    then show ?thesis
    proof cases
      case busy
      have "table_ok k b1" using lt(1) by (simp add: disk_ok_def)
      then have "parts b1 q \<noteq> None" by (rule table_live [OF _ d1(1,2) nl busy]) simp
      then have "area_at k b1 n \<noteq> None" unfolding area_at_eq [OF d1(1,2)] using nl busy by auto
      then show ?thesis using run True d1 en busy same area1 by auto
    next
      case nomem
      then show ?thesis using run True d1 en same by (auto simp: all_well_def)
    next
      case stats
      then show ?thesis using run True d1 en same by (auto simp: all_well_def)
    next
      case info
      then show ?thesis using run True d1 en same ro by (auto simp: all_well_def)
    next
      case fine
      have "add_partition X E k (int n) start len whole info b = add_device X E k (int n) p whole ?h b1"
        using run True d1 en fine ro by auto
      moreover obtain b' r where "add_device X E k (int n) p whole ?h b1 = Some (b', r)" "added k native b1 d1 n (start, len) (b', r)"
        "ae_device E = 0 \<and> ae_holders E \<and> ae_file E = 0 \<and> int n < gd_minors d1 \<longrightarrow> \<not> isl r" "r \<noteq> Inl 0"
        using add_device_run [OF lt(1) X d1(1,2) n(1) nl fine(1), of p ?h E whole] fresh [OF fine(2)] lt(4) by auto
      ultimately show ?thesis using step d1(3) by (auto simp: all_well_def)
    qed
  qed
qed

end
