(* ===== verification/RescanProps.thy ===== *)
theory RescanProps
  imports PartitionProps
begin

text \<open>
  Scanning a disk: the scan starts again at most once, always returns, and afterwards
  the table holds what the parser found, cut at the end of the disk.
\<close>

section \<open>What a scan should find\<close>

text \<open>
  The part of a parsed partition that lies on a disk of the given capacity, in
  numbers that do not wrap; and the areas of a list of partitions from an index on.
\<close>

definition parsed_area :: "sector_t \<Rightarrow> parsed_part \<Rightarrow> (sector_t \<times> sector_t) option" where
  "parsed_area c pp =
     (if pp_size pp = 0 \<or> unat c \<le> unat (pp_from pp) then None
      else Some (pp_from pp, of_nat (min (unat (pp_size pp)) (unat c - unat (pp_from pp)))))"

definition areas_of :: "(sector_t \<Rightarrow> parsed_part \<Rightarrow> (sector_t \<times> sector_t) option) \<Rightarrow> sector_t \<Rightarrow> parsed_part list
    \<Rightarrow> nat \<Rightarrow> nat \<Rightarrow> (sector_t \<times> sector_t) option" where
  "areas_of A c pps i j = (if i \<le> j \<and> j < i + length pps then A c (pps ! (j - i)) else None)"

lemma areas_of_simps [simp]:
  "areas_of A c [] i j = None"
  "areas_of A c (pp # pps) i j = (if j = i then A c pp else areas_of A c pps (i + 1) j)"
proof -
  have "j - i = Suc (j - Suc i)" if "i \<noteq> j" "i \<le> j" using that by simp
  then show "areas_of A c (pp # pps) i j = (if j = i then A c pp else areas_of A c pps (i + 1) j)" by (auto simp: areas_of_def)
qed (auto simp: areas_of_def)

text \<open>Every such area lies on the disk.\<close>

lemma parsed_area_on_disk:
  assumes "parsed_area c pp = Some (s, l)"
  shows "unat s + unat l \<le> unat c"
proof -
  let ?l = "min (unat (pp_size pp)) (unat c - unat (pp_from pp))"
  have "?l < 2 ^ 64" using unsigned_less [of "pp_size pp", where 'a = nat] by (simp add: min_def)
  then have "unat (of_nat ?l :: sector_t) = ?l" by (simp add: unsigned_of_nat take_bit_nat_eq_self)
  then show ?thesis using assms by (auto simp: parsed_area_def split: if_splits)
qed

text \<open>
  The code adds 64-bit sector numbers. That gives the area above when the end of the
  partition is a sector number; when the sum wraps, the partition is not cut and
  reaches beyond the disk.
\<close>

definition code_area :: "sector_t \<Rightarrow> parsed_part \<Rightarrow> (sector_t \<times> sector_t) option" where
  "code_area c pp =
     (if pp_size pp = 0 \<or> c \<le> pp_from pp then None
      else Some (pp_from pp, if c < pp_from pp + pp_size pp then c - pp_from pp else pp_size pp))"

lemma code_area_parsed:
  assumes "unat (pp_from pp) + unat (pp_size pp) < 2 ^ 64"
  shows "code_area c pp = parsed_area c pp"
proof (cases "pp_size pp = 0 \<or> c \<le> pp_from pp")
  case True
  then show ?thesis by (auto simp: code_area_def parsed_area_def word_le_nat_alt)
next
  case False
  then have lt: "unat (pp_from pp) < unat c" by (simp add: word_less_nat_alt not_le)
  have e: "unat (pp_from pp + pp_size pp) = unat (pp_from pp) + unat (pp_size pp)" using assms by (simp add: unat_word_ariths)
  have "c - pp_from pp = of_nat (unat c - unat (pp_from pp))" using lt by (simp add: of_nat_diff)
  then show ?thesis using False lt by (auto simp: code_area_def parsed_area_def word_less_nat_alt e min_def)
qed

lemma wrapping_end_not_cut:
  assumes "2 ^ 64 \<le> unat (pp_from pp) + unat (pp_size pp)" and "pp_from pp < c" and "pp_from pp + pp_size pp \<le> c"
  shows "code_area c pp = Some (pp_from pp, pp_size pp) \<and> unat c < unat (pp_from pp) + unat (pp_size pp)"
proof -
  have "pp_size pp \<noteq> 0" using assms(1) unsigned_less [of "pp_from pp", where 'a = nat] by auto
  moreover have "unat c < 2 ^ 64" using unsigned_less [of c, where 'a = nat] by simp
  ultimately show ?thesis using assms by (auto simp: code_area_def not_le)
qed

section \<open>The state during a scan\<close>

definition scan_inv :: "int \<Rightarrow> bool \<Rightarrow> int \<Rightarrow> sector_t \<Rightarrow> blk \<Rightarrow> bool" where
  "scan_inv k native m c b \<longleftrightarrow> disk_ok k native b \<and> mem_ok k b \<and> get_capacity k b = Some c \<and> (\<exists>d. disks b k = Some d \<and> gd_minors d = m)"

text \<open>New partitions get fresh memory; and the answers with which every addition up to an index succeeds.\<close>

definition fresh_parts :: "scan_env \<Rightarrow> bool" where
  "fresh_parts S \<longleftrightarrow> (\<forall>b i p. ae_part (se_add S b i) = Some p \<longrightarrow> parts b p = None)"

definition scan_well :: "gext \<Rightarrow> scan_env \<Rightarrow> int \<Rightarrow> nat \<Rightarrow> bool" where
  "scan_well X S m n \<longleftrightarrow> (\<forall>b i. finite (dom (parts b)) \<longrightarrow> all_well (se_add S b i)) \<and> int n < m
     \<and> (\<forall>d. disk_max_parts X d = 0 \<or> int n < disk_max_parts X d)"

lemma unlock_run:
  assumes inv: "scan_inv k native m c b"
  shows "\<exists>b' again. disk_unlock_native_capacity S k b = Some (b', again) \<and> (if again then \<not> native \<and> (\<exists>c'. scan_inv k True m c' b') else b' = b)"
proof (cases "se_unlock S")
  case None
  then have "disk_unlock_native_capacity S k b = Some (b, False)" using inv by (auto simp: disk_unlock_native_capacity_def scan_inv_def)
  then show ?thesis by (intro exI [of _ b] exI [of _ False]) simp
next
  case (Some unlock)
  obtain d where d: "disks b k = Some d" "gd_minors d = m" and ok: "disk_ok k native b" "get_capacity k b = Some c" "mem_ok k b"
    using inv by (auto simp: scan_inv_def)
  show ?thesis
  proof (rule disk_okD [OF ok(1)])
    fix e t h0 assume e: "disks b k = Some e" "part_tbl e = Some t" "fl_native e = native" "0 < length t" "t ! 0 = Some (part0 e)"
      "parts b (part0 e) = Some h0" "partno h0 = 0" "hd_disk h0 = k" "1 \<le> hd_refs h0"
      and ps: "\<forall>i p. 1 \<le> i \<longrightarrow> i < length t \<longrightarrow> t ! i = Some p
        \<longrightarrow> (\<exists>h. parts b p = Some h \<and> partno h = int i \<and> hd_disk h = k \<and> 1 \<le> hd_refs h \<and> hd_ref h = 1 \<and> p \<noteq> part0 e)"
    have ed: "e = d" using d e by simp
    let ?b = "put_disk k (d\<lparr>fl_native := True\<rparr>) (put_part (part0 d) (h0\<lparr>nr_sects := unlock c\<rparr>) b)"
    have run: "disk_unlock_native_capacity S k b = (if native then Some (b, False) else Some (?b, True))"
      using Some d e ed ok(2) by (simp add: disk_unlock_native_capacity_def set_capacity_def)
    have "disk_ok k True ?b"
    proof (rule disk_okI [of _ _ "d\<lparr>fl_native := True\<rparr>" t _ "h0\<lparr>nr_sects := unlock c\<rparr>"])
      fix i p assume i: "1 \<le> i" "i < length t" "t ! i = Some p"
      show "\<exists>h. parts ?b p = Some h \<and> partno h = int i \<and> hd_disk h = k \<and> 1 \<le> hd_refs h \<and> hd_ref h = 1"
        using ps [rule_format, OF i] ed by (auto simp: put_disk_def put_part_def)
    qed (use e ed in \<open>simp_all add: put_disk_def put_part_def\<close>)
    moreover have "get_capacity k ?b = Some (unlock c)" by (simp add: get_capacity_def put_disk_def put_part_def)
    moreover have "mem_ok k ?b" by (rule mem_ok_nr_sects [OF ok(3), of "part0 d" h0]) (use e ed in \<open>simp_all add: put_disk_def put_part_def\<close>)
    ultimately have "scan_inv k True m (unlock c) ?b" using d(2) by (simp add: scan_inv_def put_disk_def put_part_def)
    then show ?thesis using run by (cases native) auto
  qed
qed

lemma add_step:
  assumes inv: "scan_inv k native m c b" and X: "idr_ok X" and S: "fresh_parts S" and n: "1 \<le> n" "n < 2 ^ 31 - 1" and free: "area_at k b n = None"
  shows "\<exists>b' r. add_partition X (se_add S b n) k (int n) start len whole info b = Some (b', r) \<and> scan_inv k native m c b'
    \<and> (\<forall>j. j \<noteq> n \<longrightarrow> area_at k b' j = area_at k b j) \<and> area_at k b' n \<in> {None, Some (start, len)}
    \<and> (\<forall>L\<ge>n. scan_well X S m L \<longrightarrow> area_at k b' n = Some (start, len))"
proof -
  obtain d where d: "disks b k = Some d" "gd_minors d = m" and ok: "disk_ok k native b" "get_capacity k b = Some c" "mem_ok k b"
    using inv by (auto simp: scan_inv_def)
  have fresh: "parts b p = None" if "ae_part (se_add S b n) = Some p" for p using S that by (simp add: fresh_parts_def)
  have n31: "int n < 2 ^ 31 - 1" using n(2) by simp
  obtain b' r where r: "add_partition X (se_add S b n) k (int n) start len whole info b = Some (b', r)" "added k native b d n (start, len) (b', r)"
    "all_well (se_add S b n) \<and> area_at k b n = None \<and> (disk_max_parts X d = 0 \<or> int n < disk_max_parts X d) \<and> int n < gd_minors d \<longrightarrow> \<not> isl r"
    using add_partition_run [where E = "se_add S b n" and start = start and len = len and whole = whole and info = info, OF ok(1) X d(1) n(1) n31 fresh] by blast
  have "scan_inv k native m c b'" using r(2) d ok by (auto simp: added_def scan_inv_def)
  moreover have "\<not> isl r" if "n \<le> L" "scan_well X S m L" for L
    using r(3) that free d ok(3) unfolding scan_well_def mem_ok_def by (meson le_less_trans of_nat_mono)
  ultimately show ?thesis using r(1,2) free by (auto simp: added_def split: if_splits)
qed

section \<open>Adding what the parser found\<close>

definition table_holds :: "gext \<Rightarrow> scan_env \<Rightarrow> int \<Rightarrow> int \<Rightarrow> nat \<Rightarrow> (nat \<Rightarrow> (sector_t \<times> sector_t) option) \<Rightarrow> nat \<Rightarrow> blk \<Rightarrow> bool" where
  "table_holds X S k m L f i b \<longleftrightarrow> (\<forall>j\<ge>i. area_at k b j \<in> {None, f j} \<and> (scan_well X S m L \<longrightarrow> area_at k b j = f j))"

lemma add_parsed_run:
  assumes "scan_inv k native m c b" and "idr_ok X" and "fresh_parts S" and "\<not> has_md X" and "1 \<le> i" and "i + length pps \<le> L + 1" and "L < 2 ^ 30"
    and "\<And>j. i \<le> j \<Longrightarrow> area_at k b j = None"
  shows "(\<exists>b'. add_parsed X S k i pps b = Some (Scanned b' 0) \<and> scan_inv k native m c b' \<and> (\<forall>j<i. area_at k b' j = area_at k b j)
      \<and> table_holds X S k m L (areas_of code_area c pps i) i b')
    \<or> (\<exists>b' c'. add_parsed X S k i pps b = Some (Rescan b') \<and> \<not> native \<and> scan_inv k True m c' b')"
  using assms(1,5,6,8)
proof (induction pps arbitrary: i b)
  case Nil
  then show ?case by (simp add: table_holds_def)
next
  case (Cons pp pps)
  note free = Cons.prems(4)
  have cap: "get_capacity k b = Some c" using Cons.prems(1) by (simp add: scan_inv_def)
  have bnd: "1 \<le> i + 1" "i + 1 + length pps \<le> L + 1" using Cons.prems(3) by simp_all
  have go: ?case if "scan_inv k native m c b1" "\<And>j. j \<noteq> i \<Longrightarrow> area_at k b1 j = area_at k b j" "area_at k b1 i \<in> {None, code_area c pp}"
      "scan_well X S m L \<longrightarrow> area_at k b1 i = code_area c pp" "add_parsed X S k i (pp # pps) b = add_parsed X S k (i + 1) pps b1" for b1
  proof -
    note t = that
    have "area_at k b1 j = None" if "i + 1 \<le> j" for j using t(2) free that by simp
    from Cons.IH [OF t(1) bnd this] consider
        (ended) b' where "add_parsed X S k (i + 1) pps b1 = Some (Scanned b' 0)" "scan_inv k native m c b'" "\<forall>j<i + 1. area_at k b' j = area_at k b1 j"
          "table_holds X S k m L (areas_of code_area c pps (i + 1)) (i + 1) b'"
      | (again) b' c' where "add_parsed X S k (i + 1) pps b1 = Some (Rescan b')" "\<not> native" "scan_inv k True m c' b'" by blast
    then show ?thesis
    proof cases
      case ended
      have "table_holds X S k m L (areas_of code_area c (pp # pps) i) i b'" unfolding table_holds_def
      proof (intro allI impI)
        fix j assume "i \<le> j"
        then consider "j = i" | "i + 1 \<le> j" by linarith
        then show "area_at k b' j \<in> {None, areas_of code_area c (pp # pps) i j} \<and> (scan_well X S m L \<longrightarrow> area_at k b' j = areas_of code_area c (pp # pps) i j)"
        proof cases
          case 1
          then show ?thesis using t(3,4) ended(3) by simp
        next
          case 2
          then show ?thesis using ended(4) by (simp add: table_holds_def)
        qed
      qed
      then show ?thesis unfolding t(5) using ended(1-3) t(2) by (intro disjI1 exI [of _ b']) (simp del: areas_of_simps)
    next
      case again
      then show ?thesis unfolding t(5) by blast
    qed
  qed
  have skip: ?case if "code_area c pp = None" "add_parsed X S k i (pp # pps) b = add_parsed X S k (i + 1) pps b"
    by (rule go [of b]) (use that Cons.prems(1) free in auto)
  have add: ?case if z: "pp_size pp \<noteq> 0" "pp_from pp < c" and r: "add_parsed X S k i (pp # pps) b =
      do { (b2, part) \<leftarrow> add_partition X (se_add S b i) k (int i) (pp_from pp) (snd (the (code_area c pp))) (pp_whole pp) (Some (pp_volname pp)) b;
           add_parsed X S k (i + 1) pps b2 }"
  proof -
    have pa: "code_area c pp = Some (pp_from pp, snd (the (code_area c pp)))" using z by (simp add: code_area_def)
    have i31: "i < 2 ^ 31 - 1" using Cons.prems(3) assms(7) by simp
    obtain b1 part where s: "add_partition X (se_add S b i) k (int i) (pp_from pp) (snd (the (code_area c pp))) (pp_whole pp) (Some (pp_volname pp)) b = Some (b1, part)"
      "scan_inv k native m c b1" "\<forall>j. j \<noteq> i \<longrightarrow> area_at k b1 j = area_at k b j" "area_at k b1 i \<in> {None, Some (pp_from pp, snd (the (code_area c pp)))}"
      "\<forall>L\<ge>i. scan_well X S m L \<longrightarrow> area_at k b1 i = Some (pp_from pp, snd (the (code_area c pp)))"
      using add_step [OF Cons.prems(1) assms(2,3) Cons.prems(2) i31 free [OF order_refl], of "pp_from pp" "snd (the (code_area c pp))" "pp_whole pp" "Some (pp_volname pp)"]
      by blast
    have "i \<le> L" using Cons.prems(3) by simp
    then show ?thesis using s r pa [symmetric] by (intro go [of b1]) auto
  qed
  obtain b1 again where u: "disk_unlock_native_capacity S k b = Some (b1, again)" "if again then \<not> native \<and> (\<exists>c'. scan_inv k True m c' b1) else b1 = b"
    using unlock_run [OF Cons.prems(1)] by blast
  have restart: ?case if "again" "add_parsed X S k i (pp # pps) b = Some (Rescan b1)" using u(2) that by auto
  consider (empty) "pp_size pp = 0" | (past) "pp_size pp \<noteq> 0" "c \<le> pp_from pp" | (cut) "pp_size pp \<noteq> 0" "pp_from pp < c" "c < pp_from pp + pp_size pp"
    | (whole) "pp_size pp \<noteq> 0" "pp_from pp < c" "\<not> c < pp_from pp + pp_size pp" by force
  then show ?case
  proof cases
    case empty
    then show ?thesis by (intro skip) (simp_all add: code_area_def)
  next
    case past
    then have p: "add_parsed X S k i (pp # pps) b = (if again then Some (Rescan b1) else add_parsed X S k (i + 1) pps b1)" using u(1) cap by simp
    show ?thesis
    proof (cases again)
      case True
      then show ?thesis using restart p by simp
    next
      case False
      then show ?thesis using u(2) p past by (intro skip) (simp_all add: code_area_def)
    qed
  next
    case cut
    show ?thesis
    proof (cases again)
      case True
      then show ?thesis using u(1) cap cut by (intro restart) simp_all
    next
      case False
      then show ?thesis using u cap assms(4) cut by (intro add) (simp_all add: code_area_def cut(2) [unfolded not_le [symmetric]])
    qed
  next
    case whole
    then show ?thesis using cap assms(4) by (intro add) (simp_all add: code_area_def whole(2) [unfolded not_le [symmetric]])
  qed
qed

section \<open>The whole scan\<close>

text \<open>What a scan that is not started again leaves, and its result.\<close>

definition scan_outcome :: "(sector_t \<Rightarrow> parsed_part \<Rightarrow> (sector_t \<times> sector_t) option)
    \<Rightarrow> gext \<Rightarrow> scan_env \<Rightarrow> int \<Rightarrow> int \<Rightarrow> sector_t \<Rightarrow> blk \<Rightarrow> int \<Rightarrow> bool" where
  "scan_outcome A X S k m c b res \<longleftrightarrow>
     (if c = 0 then res = 0 \<and> (\<forall>j\<ge>1. area_at k b j = None)
      else \<exists>b3. get_capacity k b3 = Some c \<and> (\<forall>j\<ge>1. area_at k b3 j = None)
        \<and> (case se_check S b3 of
             NoTable \<Rightarrow> res = 0 \<and> (\<forall>j\<ge>1. area_at k b j = None)
           | TableError e \<Rightarrow> res = -EIO \<and> (\<forall>j\<ge>1. area_at k b j = None)
           | Table pps beyond \<Rightarrow> res = 0 \<and> table_holds X S k m (length pps) (areas_of A c pps 1) 1 b))"

lemma set_map_filter: "y \<in> set (List.map_filter f xs) \<longleftrightarrow> (\<exists>x\<in>set xs. f x = Some y)"
  by (induction xs) (auto simp: List.map_filter_simps split: option.splits)

lemma dropped_mem:
  assumes ok: "disk_ok k native b" and mem: "mem_ok k b" and d: "disks b k = Some d" "part_tbl d = Some tbl"
    and b': "parts b' = unlinked tbl [] (parts b)" "rcu_todo b' = rcu_todo b @ List.map_filter ((!) tbl) [1..<length tbl]"
  shows "mem_ok k b'"
proof (rule disk_okD [OF ok])
  fix d' tbl' assume d': "disks b k = Some d'" "part_tbl d' = Some tbl'"
    and ps': "\<forall>i p. 1 \<le> i \<longrightarrow> i < length tbl' \<longrightarrow> tbl' ! i = Some p
      \<longrightarrow> (\<exists>h. parts b p = Some h \<and> partno h = int i \<and> hd_disk h = k \<and> 1 \<le> hd_refs h \<and> hd_ref h = 1 \<and> p \<noteq> part0 d')"
  have e: "d' = d" "tbl' = tbl" using d d' by simp_all
  note ps = ps' [unfolded e, rule_format]
  have in_tbl: "p \<in> set (List.map_filter ((!) tbl) [1..<length tbl]) \<longleftrightarrow> (\<exists>i. 1 \<le> i \<and> i < length tbl \<and> tbl ! i = Some p)" for p
    by (auto simp: set_map_filter)
  have uniq: "i = j" if "1 \<le> i" "i < length tbl" "tbl ! i = Some p" "1 \<le> j" "j < length tbl" "tbl ! j = Some p" for i j p
    using ps [OF that(1-3)] ps [OF that(4-6)] by auto
  have dist: "distinct (List.map_filter ((!) tbl) [1..<length tbl])" by (rule map_filter_distinct) (use uniq in auto)
  have waiting: "\<exists>h. parts b p = Some h \<and> hd_disk h = k \<and> partno h \<noteq> 0 \<and> 1 \<le> hd_refs h \<and> hd_ref h = 0" if "p \<in> set (rcu_todo b)" for p
    using mem that by (simp add: mem_ok_def)
  have new: "p \<notin> set (rcu_todo b)" if w: "p \<in> set (List.map_filter ((!) tbl) [1..<length tbl])" for p
  proof -
    obtain i where i: "1 \<le> i" "i < length tbl" "tbl ! i = Some p" using w unfolding in_tbl by (elim exE conjE)
    then show ?thesis using waiting [of p] ps [OF i] by auto
  qed
  have "\<exists>h. parts b' p = Some h \<and> hd_disk h = k \<and> partno h \<noteq> 0 \<and> 1 \<le> hd_refs h \<and> hd_ref h = 0" if w: "p \<in> set (rcu_todo b')" for p
  proof (cases "p \<in> set (rcu_todo b)")
    case True
    have "\<not> (\<exists>i. 1 \<le> i \<and> i < length tbl \<and> tbl ! i = Some p)" using new [of p] True unfolding in_tbl by blast
    then show ?thesis using waiting [OF True] unfolding b'(1) by (auto simp: unlinked_def)
  next
    case False
    then have "p \<in> set (List.map_filter ((!) tbl) [1..<length tbl])" using w b'(2) by simp
    then obtain i where i: "1 \<le> i" "i < length tbl" "tbl ! i = Some p" unfolding in_tbl by (elim exE conjE)
    obtain h where h: "parts b p = Some h" "partno h = int i" "hd_disk h = k" "1 \<le> hd_refs h" using ps [OF i] by blast
    have "unlinked tbl [] (parts b) p = Some (h\<lparr>hd_ref := 0\<rparr>)" using i h(1) by (auto simp: unlinked_def)
    then show ?thesis using h i(1) unfolding b'(1) by simp
  qed
  moreover have "dom (parts b') = dom (parts b)" unfolding b'(1) by (auto simp: unlinked_def dom_def split: if_splits)
  moreover have "distinct (rcu_todo b')" using mem dist new unfolding b'(2) by (auto simp: mem_ok_def)
  ultimately show ?thesis using mem by (simp add: mem_ok_def)
qed

lemma after_drop:
  assumes ok: "disk_ok k native b" and mem: "mem_ok k b" and d: "disks b k = Some d" "gd_minors d = m" and S: "se_open S = 0" "\<forall>v. se_inval S v = 0"
  shows "\<exists>b1 b2 d2 c0 c. drop_partitions X S k b = Some (b1, 0) \<and> get_capacity k b1 = Some c0 \<and> c = se_revalidate S c0
    \<and> set_capacity k c b1 = Some b2 \<and> disks b2 k = Some d2 \<and> scan_inv k native m c (put_disk k (d2\<lparr>bd_invalidated := False\<rparr>) b2)
    \<and> (\<forall>j\<ge>1. area_at k (put_disk k (d2\<lparr>bd_invalidated := False\<rparr>) b2) j = None)"
proof -
  obtain tbl where tbl: "part_tbl d = Some tbl" using ok d(1) by (auto simp: disk_ok_def table_ok_def)
  obtain b1 l where b1: "drop_partitions X S k b = Some (b1, 0)" "disk_ok k native b1"
    "disks b1 = (disks b)(k \<mapsto> d\<lparr>part_tbl := Some (cleared tbl []), last_lookup := l\<rparr>)" "parts b1 = unlinked tbl [] (parts b)"
    "rcu_todo b1 = rcu_todo b @ List.map_filter ((!) tbl) [1..<length tbl]"
    using drop_run [OF ok d(1) tbl S, of X] by auto
  let ?d = "d\<lparr>part_tbl := Some (cleared tbl []), last_lookup := l\<rparr>"
  have d1: "disks b1 k = Some ?d" using b1(3) by simp
  have mem1: "mem_ok k b1" by (rule dropped_mem [OF ok mem d(1) tbl b1(4,5)])
  show ?thesis
  proof (rule disk_okD [OF b1(2)])
    fix d' h0 assume d': "disks b1 k = Some d'" "parts b1 (part0 d') = Some h0"
    have e: "d' = ?d" using d' d1 by simp
    define c where "c = se_revalidate S (nr_sects h0)"
    define b2 where "b2 = put_part (part0 d) (h0\<lparr>nr_sects := c\<rparr>) b1"
    define b3 where "b3 = put_disk k (?d\<lparr>bd_invalidated := False\<rparr>) b2"
    have cap: "get_capacity k b1 = Some (nr_sects h0)" "set_capacity k c b1 = Some b2" "get_capacity k b3 = Some c" and d2: "disks b2 k = Some ?d"
      using d' e by (simp_all add: get_capacity_def set_capacity_def b2_def b3_def put_disk_def put_part_def)
    have "disk_ok k native b3" by (rule disk_ok_same [OF b1(2)])
      (use d' e in \<open>simp add: same_disk_def b3_def b2_def put_disk_def put_part_def\<close>)
    moreover have d3: "disks b3 k = Some (?d\<lparr>bd_invalidated := False\<rparr>)" by (simp add: b3_def put_disk_def)
    moreover have "mem_ok k b3" by (rule mem_ok_nr_sects [OF mem1 d'(2)]) (use e in \<open>simp_all add: b3_def b2_def put_disk_def put_part_def\<close>)
    ultimately have inv: "scan_inv k native m c b3" using cap(3) d(2) by (simp add: scan_inv_def)
    have "area_at k b3 j = None" if "1 \<le> j" for j by (rule dropped_area [OF d3 _ that]) simp
    then show ?thesis using b1(1) cap(1,2) d2 inv c_def unfolding b3_def
      by (intro exI [of _ b1] exI [of _ b2] exI [of _ ?d] exI [of _ "nr_sects h0"] exI [of _ c]) simp
  qed
qed

lemma change_event:
  assumes inv: "scan_inv k native m c b" and d: "disks b k = Some d"
  shows "\<exists>b5 es. kobject_uevent X KOBJ_CHANGE (part0 d) b = Some b5 \<and> b5 = b\<lparr>uevents := es\<rparr> \<and> scan_inv k native m c b5"
proof -
  have "disk_ok k native b" using inv by (simp add: scan_inv_def)
  then obtain es where "kobject_uevent X KOBJ_CHANGE (part0 d) b = Some (b\<lparr>uevents := es\<rparr>)" using disk_event [OF _ d] by blast
  then show ?thesis using inv by (auto simp: scan_inv_def get_capacity_def mem_ok_def)
qed

lemma expand_inv:
  assumes inv: "scan_inv k native m c b" and n: "n < 2 ^ 30"
  shows "\<exists>b' e. disk_expand_part_tbl X kz k (int n) b = Some (b', e) \<and> scan_inv k native m c b' \<and> (\<forall>j. area_at k b' j = area_at k b j)"
proof -
  obtain d where d: "disks b k = Some d" "gd_minors d = m" and ok: "disk_ok k native b" "get_capacity k b = Some c" "mem_ok k b"
    using inv by (auto simp: scan_inv_def)
  obtain tbl where tbl: "part_tbl d = Some tbl" using ok(1) d(1) by (auto simp: disk_ok_def table_ok_def)
  obtain e l where ex: "\<exists>q. disk_expand_part_tbl X kz k (int n) b = Some (put_disk k (d\<lparr>part_tbl := Some (tbl @ replicate q None), last_lookup := l\<rparr>) b, e)"
    using expand_run [OF d(1) tbl, of "int n" X kz] n by auto
  then obtain q where q: "disk_expand_part_tbl X kz k (int n) b = Some (put_disk k (d\<lparr>part_tbl := Some (tbl @ replicate q None), last_lookup := l\<rparr>) b, e)" by blast
  note lt = longer_table [OF ok(1) d(1) tbl refl, where m = q and l = l]
  show ?thesis using q lt(1-3) d(2) ok(2) mem_ok_same [OF ok(3) lt(5,4)] by (auto simp: scan_inv_def put_disk_def)
qed

lemma highest_bound: "highest_part i pps \<le> i + length pps"
proof (induction pps arbitrary: i)
  case (Cons pp pps)
  then show ?case using Cons.IH [of "i + 1"] by (auto simp: Let_def)
qed simp

lemma try_table:
  assumes inv: "scan_inv k native m c b" and free: "\<And>j. 1 \<le> j \<Longrightarrow> area_at k b j = None" and X: "idr_ok X" "\<not> has_md X" and S: "fresh_parts S"
    and d: "disks b k = Some d" and n: "length pps < 2 ^ 29"
  shows "\<exists>b5 b6 e. kobject_uevent X KOBJ_CHANGE (part0 d) b = Some b5 \<and> disk_expand_part_tbl X kz k (int (highest_part 1 pps)) b5 = Some (b6, e)
    \<and> ((\<exists>b'. add_parsed X S k 1 pps b6 = Some (Scanned b' 0) \<and> scan_inv k native m c b' \<and> table_holds X S k m (length pps) (areas_of code_area c pps 1) 1 b')
      \<or> (\<exists>b' c'. add_parsed X S k 1 pps b6 = Some (Rescan b') \<and> \<not> native \<and> scan_inv k True m c' b'))"
proof -
  obtain b5 es where b5: "kobject_uevent X KOBJ_CHANGE (part0 d) b = Some b5" "b5 = b\<lparr>uevents := es\<rparr>" "scan_inv k native m c b5"
    using change_event [OF inv d, of X] by blast
  have h: "highest_part 1 pps < 2 ^ 30" using highest_bound [of 1 pps] n by simp
  obtain b6 e where b6: "disk_expand_part_tbl X kz k (int (highest_part 1 pps)) b5 = Some (b6, e)" "scan_inv k native m c b6" "\<forall>j. area_at k b6 j = area_at k b5 j"
    using expand_inv [OF b5(3) h, of X kz] by blast
  have "area_at k b5 j = area_at k b j" for j unfolding b5(2) by (simp add: area_at_def)
  then have free6: "area_at k b6 j = None" if "1 \<le> j" for j using b6(3) free that by simp
  have "1 + length pps \<le> length pps + 1" "length pps < 2 ^ 30" using n by simp_all
  then have ap: "(\<exists>b'. add_parsed X S k 1 pps b6 = Some (Scanned b' 0) \<and> scan_inv k native m c b' \<and> (\<forall>j<1. area_at k b' j = area_at k b6 j)
      \<and> table_holds X S k m (length pps) (areas_of code_area c pps 1) 1 b')
    \<or> (\<exists>b' c'. add_parsed X S k 1 pps b6 = Some (Rescan b') \<and> \<not> native \<and> scan_inv k True m c' b')"
    by (rule add_parsed_run [OF b6(2) X(1) S X(2) order_refl]) (rule free6)
  have "(\<exists>b'. add_parsed X S k 1 pps b6 = Some (Scanned b' 0) \<and> scan_inv k native m c b' \<and> table_holds X S k m (length pps) (areas_of code_area c pps 1) 1 b')
      \<or> (\<exists>b' c'. add_parsed X S k 1 pps b6 = Some (Rescan b') \<and> \<not> native \<and> scan_inv k True m c' b')"
    using ap by (elim disjE exE conjE) blast+
  then show ?thesis using b5(1) b6(1) by simp
qed

text \<open>The tables a parser returns are short: a parser is given room for the partitions a disk may have.\<close>

definition short_tables :: "scan_env \<Rightarrow> bool" where
  "short_tables S \<longleftrightarrow> (\<forall>b pps beyond. se_check S b = Table pps beyond \<longrightarrow> length pps < 2 ^ 29)"

lemma rescan_try_run:
  assumes ok: "disk_ok k native b" and mem: "mem_ok k b" and d: "disks b k = Some d" "gd_minors d = m" and X: "idr_ok X" "\<not> has_md X"
    and S: "se_open S = 0" "\<forall>v. se_inval S v = 0" "fresh_parts S" "short_tables S"
  shows "(\<exists>b' c'. rescan_try X S k b = Some (Rescan b') \<and> \<not> native \<and> scan_inv k True m c' b')
    \<or> (\<exists>b' c res. rescan_try X S k b = Some (Scanned b' res) \<and> scan_inv k native m c b' \<and> scan_outcome code_area X S k m c b' res)" (is ?goal)
proof -
  obtain b1 b2 d2 c0 c where p: "drop_partitions X S k b = Some (b1, 0)" "get_capacity k b1 = Some c0" "c = se_revalidate S c0"
    "set_capacity k c b1 = Some b2" "disks b2 k = Some d2" and inv': "scan_inv k native m c (put_disk k (d2\<lparr>bd_invalidated := False\<rparr>) b2)"
    and free': "\<forall>j\<ge>1. area_at k (put_disk k (d2\<lparr>bd_invalidated := False\<rparr>) b2) j = None"
    using after_drop [OF ok mem d S(1,2), of X] by blast
  define b3 where "b3 = put_disk k (d2\<lparr>bd_invalidated := False\<rparr>) b2"
  note inv = inv' [folded b3_def] and free = free' [folded b3_def]
  obtain d3 where d3: "disks b3 k = Some d3" and cap: "get_capacity k b3 = Some c" using inv by (auto simp: scan_inv_def)
  have run: "rescan_try X S k b = (if c = 0 then Some (Scanned b3 0) else case se_check S b3 of
      NoTable \<Rightarrow> Some (Scanned b3 0)
    | TableError e \<Rightarrow> if e = -ENOSPC
        then do { (b4, again) \<leftarrow> disk_unlock_native_capacity S k b3; Some (if again then Rescan b4 else Scanned b4 (-EIO)) }
        else Some (Scanned b3 (-EIO))
    | Table pps beyond \<Rightarrow>
        do { (b4, again) \<leftarrow> (if beyond then disk_unlock_native_capacity S k b3 else Some (b3, False));
             if again then Some (Rescan b4)
             else do { d4 \<leftarrow> disks b4 k; b5 \<leftarrow> kobject_uevent X KOBJ_CHANGE (part0 d4) b4;
                       (b6, err) \<leftarrow> disk_expand_part_tbl X (se_tbl S) k (int (highest_part 1 pps)) b5;
                       add_parsed X S k 1 pps b6 } })"
    using p cap unfolding b3_def by (simp add: rescan_try_def Let_def)
  obtain b4 again where u: "disk_unlock_native_capacity S k b3 = Some (b4, again)" "if again then \<not> native \<and> (\<exists>c'. scan_inv k True m c' b4) else b4 = b3"
    using unlock_run [OF inv] by blast
  have fin': ?goal if "rescan_try X S k b = Some (Scanned b3 res)" "scan_outcome code_area X S k m c b3 res" for res using that inv by blast
  have restart: ?goal if "again" "rescan_try X S k b = Some (Rescan b4)" using u(2) that by auto
  consider (none) "c = 0 \<or> se_check S b3 = NoTable" | (err) e where "c \<noteq> 0" "se_check S b3 = TableError e" | (table) pps beyond where "c \<noteq> 0" "se_check S b3 = Table pps beyond"
    by (cases "se_check S b3") auto
  then show ?thesis
  proof cases
    case none
    then show ?thesis using run cap free by (intro fin' [of 0]) (auto simp: scan_outcome_def)
  next
    case err
    have o: "scan_outcome code_area X S k m c b3 (-EIO)" using err cap free by (auto simp: scan_outcome_def intro!: exI [of _ b3])
    show ?thesis
    proof (cases "e = -ENOSPC \<and> again")
      case True
      then show ?thesis using run err u(1) by (intro restart) simp_all
    next
      case False
      then show ?thesis using run err u o by (intro fin' [of "-EIO"]) (auto split: if_splits)
    qed
  next
    case table
    show ?thesis
    proof (cases "beyond \<and> again")
      case True
      then show ?thesis using run table u(1) by (intro restart) simp_all
    next
      case False
      have n: "length pps < 2 ^ 29" using S(4) table(2) unfolding short_tables_def by blast
      obtain b5 b6 e where t: "kobject_uevent X KOBJ_CHANGE (part0 d3) b3 = Some b5" "disk_expand_part_tbl X (se_tbl S) k (int (highest_part 1 pps)) b5 = Some (b6, e)"
        "(\<exists>b'. add_parsed X S k 1 pps b6 = Some (Scanned b' 0) \<and> scan_inv k native m c b' \<and> table_holds X S k m (length pps) (areas_of code_area c pps 1) 1 b')
          \<or> (\<exists>b' c'. add_parsed X S k 1 pps b6 = Some (Rescan b') \<and> \<not> native \<and> scan_inv k True m c' b')"
        using try_table [OF inv _ X S(3) d3 n, of "se_tbl S"] free by blast
      have r: "rescan_try X S k b = add_parsed X S k 1 pps b6" using run table t(1,2) False u d3 by (auto split: if_splits)
      have so: "scan_outcome code_area X S k m c b' 0" if "table_holds X S k m (length pps) (areas_of code_area c pps 1) 1 b'" for b'
        unfolding scan_outcome_def using table cap free that by auto
      show ?thesis unfolding r using t(3) so by blast
    qed
  qed
qed

lemma rescan_run:
  assumes ok: "disk_ok k native b" and mem: "mem_ok k b" and d: "disks b k = Some d" and X: "idr_ok X" "\<not> has_md X"
    and S: "se_open S = 0" "\<forall>v. se_inval S v = 0" "fresh_parts S" "short_tables S"
  shows "\<exists>b' res native' c. rescan_partitions X S k b = Some (b', res) \<and> disk_ok k native' b' \<and> mem_ok k b' \<and> get_capacity k b' = Some c
    \<and> scan_outcome code_area X S k (gd_minors d) c b' res" (is ?goal)
proof -
  let ?m = "gd_minors d"
  have fin': ?goal if "rescan_partitions X S k b = Some (b', res)" "scan_inv k n' ?m c b'" "scan_outcome code_area X S k ?m c b' res" for b' res n' c
    using that unfolding scan_inv_def by blast
  from rescan_try_run [OF ok mem d refl X S] show ?thesis
  proof (elim disjE exE conjE)
    fix b' c res assume "rescan_try X S k b = Some (Scanned b' res)" "scan_inv k native ?m c b'" "scan_outcome code_area X S k ?m c b' res"
    then show ?thesis by (intro fin') (simp_all add: rescan_partitions_def numeral_2_eq_2)
  next
    fix b1 c' assume r1: "rescan_try X S k b = Some (Rescan b1)" and i1: "scan_inv k True ?m c' b1"
    obtain d1 where d1: "disks b1 k = Some d1" "gd_minors d1 = ?m" and ok1: "disk_ok k True b1" "mem_ok k b1" using i1 by (auto simp: scan_inv_def)
    obtain b' c res where "rescan_try X S k b1 = Some (Scanned b' res)" "scan_inv k True ?m c b'" "scan_outcome code_area X S k ?m c b' res"
      using rescan_try_run [OF ok1 d1 X S] by blast
    then show ?thesis using r1 by (intro fin') (simp_all add: rescan_partitions_def numeral_2_eq_2)
  qed
qed

text \<open>The parsed partitions end at a sector number.\<close>

definition ends_fit :: "scan_env \<Rightarrow> bool" where
  "ends_fit S \<longleftrightarrow> (\<forall>b pps beyond. se_check S b = Table pps beyond
     \<longrightarrow> (\<forall>pp\<in>set pps. unat (pp_from pp) + unat (pp_size pp) < 2 ^ 64))"

lemma outcome_parsed:
  assumes o: "scan_outcome code_area X S k m c b res" and S: "ends_fit S"
  shows "scan_outcome parsed_area X S k m c b res"
proof -
  have "areas_of code_area c pps 1 = areas_of parsed_area c pps 1" if "se_check S b3 = Table pps beyond" for b3 pps beyond
  proof -
    have "code_area c pp = parsed_area c pp" if "pp \<in> set pps" for pp
      by (rule code_area_parsed) (use S \<open>se_check S b3 = Table pps beyond\<close> that in \<open>unfold ends_fit_def, blast\<close>)
    then show ?thesis by (auto simp: fun_eq_iff areas_of_def)
  qed
  note eq = this
  show ?thesis
  proof (cases "c = 0")
    case True
    then show ?thesis using o by (simp add: scan_outcome_def)
  next
    case False
    then obtain b3 where b3: "get_capacity k b3 = Some c" "\<forall>j\<ge>1. area_at k b3 j = None"
        "case se_check S b3 of NoTable \<Rightarrow> res = 0 \<and> (\<forall>j\<ge>1. area_at k b j = None)
         | TableError e \<Rightarrow> res = -EIO \<and> (\<forall>j\<ge>1. area_at k b j = None)
         | Table pps beyond \<Rightarrow> res = 0 \<and> table_holds X S k m (length pps) (areas_of code_area c pps 1) 1 b"
      using o unfolding scan_outcome_def by (simp only: if_False) (elim exE conjE)
    then have "case se_check S b3 of NoTable \<Rightarrow> res = 0 \<and> (\<forall>j\<ge>1. area_at k b j = None)
         | TableError e \<Rightarrow> res = -EIO \<and> (\<forall>j\<ge>1. area_at k b j = None)
         | Table pps beyond \<Rightarrow> res = 0 \<and> table_holds X S k m (length pps) (areas_of parsed_area c pps 1) 1 b"
      using eq [of b3] by (cases "se_check S b3") simp_all
    then show ?thesis using False b3(1,2) unfolding scan_outcome_def by (simp only: if_False) blast
  qed
qed

lemma outcome_on_disk:
  assumes o: "scan_outcome parsed_area X S k m c b res" and j: "1 \<le> j" "area_at k b j = Some (s, l)"
  shows "unat s + unat l \<le> unat c"
proof -
  have c: "c \<noteq> 0" using o j by (auto simp: scan_outcome_def)
  then obtain b3 where "case se_check S b3 of NoTable \<Rightarrow> res = 0 \<and> (\<forall>j\<ge>1. area_at k b j = None)
         | TableError e \<Rightarrow> res = -EIO \<and> (\<forall>j\<ge>1. area_at k b j = None)
         | Table pps beyond \<Rightarrow> res = 0 \<and> table_holds X S k m (length pps) (areas_of parsed_area c pps 1) 1 b"
    using o unfolding scan_outcome_def by (simp only: if_False) (elim exE conjE)
  then obtain pps where "table_holds X S k m (length pps) (areas_of parsed_area c pps 1) 1 b"
    using j by (cases "se_check S b3") auto
  then have "areas_of parsed_area c pps 1 j = Some (s, l)" using j by (auto simp: table_holds_def)
  then show ?thesis by (auto simp: areas_of_def split: if_splits intro: parsed_area_on_disk)
qed

text \<open>
  C22. Scanning a disk for partitions always returns and leaves a sound table, whatever the
  driver, the parser, the allocator and the device core answer, as long as no partition
  is open, the buffers can be written back, new partitions get fresh memory, there is
  no software RAID and every parsed partition ends at a 64-bit sector number. The scan
  starts again at most once. On a disk with no capacity or no table nothing is in the
  table and the result is 0, on an unreadable table nothing is in it and the result is an
  error; else every partition in the table is the part on the disk of the one the parser
  found at its index, so that none reaches beyond the disk. When memory and device numbers
  suffice, all that the parser found and that start on the disk are there. (Where the end
  wraps in 64 bits, the code does not cut: \<open>wrapping_end_not_cut\<close>.)
\<close>

theorem rescan_sound:
  assumes "disk_ok k native b" and "mem_ok k b" and "disks b k = Some d" and "idr_ok X" and "\<not> has_md X"
    and "se_open S = 0" and "\<forall>v. se_inval S v = 0" and "fresh_parts S" and "short_tables S" and "ends_fit S"
  shows "\<exists>b' res native' c. rescan_partitions X S k b = Some (b', res) \<and> disk_ok k native' b' \<and> mem_ok k b' \<and> get_capacity k b' = Some c
    \<and> scan_outcome parsed_area X S k (gd_minors d) c b' res
    \<and> (\<forall>j\<ge>1. \<forall>s l. area_at k b' j = Some (s, l) \<longrightarrow> unat s + unat l \<le> unat c)"
proof -
  obtain b' res native' c where r: "rescan_partitions X S k b = Some (b', res)" "disk_ok k native' b'" "mem_ok k b'" "get_capacity k b' = Some c"
    "scan_outcome code_area X S k (gd_minors d) c b' res" using rescan_run [OF assms(1-9)] by blast
  note o = outcome_parsed [OF r(5) assms(10)]
  show ?thesis using r(1-4) o outcome_on_disk [OF o] by blast
qed

text \<open>Answers with which all additions succeed exist.\<close>

lemma scan_well_possible: "\<exists>S. fresh_parts S \<and> scan_well demo_gext S 16 4"
proof -
  define new where "new b = (if finite (dom (parts b)) then Some (SOME p. parts b p = None) else None)" for b :: blk
  have new: "\<exists>p. new b = Some p \<and> parts b p = None" if f: "finite (dom (parts b))" for b
  proof -
    obtain p where "p \<notin> dom (parts b)" using ex_new_if_finite [OF infinite_UNIV_int f] by (elim exE)
    then have "parts b (SOME p. parts b p = None) = None" by (intro someI [of "\<lambda>p. parts b p = None"]) auto
    then show ?thesis using f by (simp add: new_def)
  qed
  let ?S = "demo_scan\<lparr>se_add := \<lambda>b i. demo_answers\<lparr>ae_part := new b\<rparr>\<rparr>"
  have "parts b p = None" if "new b = Some p" for b p
  proof -
    have "finite (dom (parts b))" using that by (simp add: new_def split: if_splits)
    then show ?thesis using new [of b] that by auto
  qed
  moreover have "new b \<noteq> None" if "finite (dom (parts b))" for b using new [OF that] by auto
  ultimately have "fresh_parts ?S \<and> scan_well demo_gext ?S 16 4"
    by (simp add: fresh_parts_def scan_well_def all_well_def demo_answers_def demo_gext_def)
  then show ?thesis by blast
qed

lemma demo_fresh: "fresh_parts demo_scan"
  unfolding fresh_parts_def
proof (intro allI impI)
  fix b i p assume "ae_part (se_add demo_scan b i) = Some p"
  then have "find (\<lambda>p. parts b p = None) [20, 21, 22, 23] = Some p" by (simp only: demo_scan_def demo_answers_def scan_env.simps add_env.simps)
  then show "parts b p = None" by (simp split: if_splits)
qed

lemma demo_ends: "ends_fit demo_scan"
  unfolding ends_fit_def by (simp add: demo_scan_def)

lemma demo_short: "short_tables demo_scan"
  unfolding short_tables_def by (simp add: demo_scan_def)

theorem rescan_sound_witness:
  "\<exists>b' res native' c. rescan_partitions demo_gext demo_scan 1 demo_blk = Some (b', res) \<and> disk_ok 1 native' b' \<and> mem_ok 1 b' \<and> get_capacity 1 b' = Some c
    \<and> scan_outcome parsed_area demo_gext demo_scan 1 2 c b' res"
proof -
  have "mem_ok 1 demo_blk" "disks demo_blk 1 = Some demo_gendisk" by (simp_all add: demo_blk_def mem_ok_def)
  moreover have "\<not> has_md demo_gext" "se_open demo_scan = 0" "\<forall>v. se_inval demo_scan v = 0" "gd_minors demo_gendisk = 2"
    by (simp_all add: demo_gext_def demo_scan_def demo_gendisk_def)
  ultimately show ?thesis using rescan_sound [OF demo_disk_ok _ _ demo_idr _ _ _ demo_fresh demo_short demo_ends, of demo_gendisk] by metis
qed



end
