(* ===== verification/DiskLife.thy ===== *)
theory DiskLife
  imports RescanProps
begin

text \<open>
  The life of a disk as a step relation: it is allocated, its driver sets the capacity,
  it is scanned and invalidated, partitions are added and deleted one by one, and the
  callbacks of deleted partitions run when the readers of the table are done. Every
  reachable state is sound and no step meets freed memory.
\<close>

section \<open>Single operations\<close>

lemma delete_run:
  assumes ok: "disk_ok k native b" and mem: "mem_ok k b" and n: "1 \<le> n"
  shows "\<exists>b'. delete_partition X k (int n) b = Some b' \<and> disk_ok k native b' \<and> mem_ok k b'"
proof (rule disk_okD [OF ok])
  fix d tbl h0
  assume d: "disks b k = Some d" "part_tbl d = Some tbl" "fl_native d = native" "0 < length tbl" "tbl ! 0 = Some (part0 d)"
    "parts b (part0 d) = Some h0" "partno h0 = 0" "hd_disk h0 = k" "1 \<le> hd_refs h0"
    and ps: "\<forall>i p. 1 \<le> i \<longrightarrow> i < length tbl \<longrightarrow> tbl ! i = Some p
      \<longrightarrow> (\<exists>h. parts b p = Some h \<and> partno h = int i \<and> hd_disk h = k \<and> 1 \<le> hd_refs h \<and> hd_ref h = 1 \<and> p \<noteq> part0 d)"
  consider (out) "length tbl \<le> n" | (empty) "n < length tbl" "tbl ! n = None" | (there) p where "n < length tbl" "tbl ! n = Some p" by (cases "tbl ! n") force+
  then show ?thesis
  proof cases
    case out
    then have "delete_partition X k (int n) b = Some b" using d by (simp add: delete_partition_def)
    then show ?thesis using ok mem by simp
  next
    case empty
    then have "delete_partition X k (int n) b = Some b" using d by (simp add: delete_partition_def entry_def)
    then show ?thesis using ok mem by simp
  next
    case there
    obtain h where h: "parts b p = Some h" "partno h = int n" "hd_disk h = k" "1 \<le> hd_refs h" "hd_ref h = 1" "p \<noteq> part0 d"
      using ps [rule_format, OF n there] by (elim exE conjE)
    let ?d = "d\<lparr>part_tbl := Some (tbl[n := None]), last_lookup := None\<rparr>"
    define b1 where "b1 = put_disk k ?d b"
    define b2 where "b2 = b1\<lparr>uevents := uevents b1 @ [KOBJ_REMOVE p (part_uevent X h)]\<rparr>"
    define b3 where "b3 = (put_part p (h\<lparr>hd_ref := 0\<rparr>) b2)\<lparr>rcu_todo := rcu_todo b @ [p]\<rparr>"
    have ev: "kobject_uevent X KOBJ_REMOVE p b1 = Some b2"
      unfolding b2_def by (rule part_event [where d = ?d]) (use h in \<open>simp_all add: b1_def put_disk_def\<close>)
    have put: "hd_struct_put p b2 = Some b3" using h by (simp add: hd_struct_put_def b3_def b2_def b1_def put_disk_def put_part_def)
    have run: "delete_partition X k (int n) b = Some b3"
      using d(1,2) there ev put by (simp add: delete_partition_def entry_def b1_def [symmetric])
    have d3: "disks b3 k = Some ?d" "part_tbl ?d = Some (tbl[n := None])" and p3: "parts b3 = (parts b)(p \<mapsto> h\<lparr>hd_ref := 0\<rparr>)" "rcu_todo b3 = rcu_todo b @ [p]"
      by (simp_all add: b3_def b2_def b1_def put_disk_def put_part_def)
    have "disk_ok k native b3"
    proof (rule disk_okI [OF d3, of native h0])
      fix i q assume iq: "1 \<le> i" "i < length (tbl[n := None])" "tbl[n := None] ! i = Some q"
      have i: "i \<noteq> n" using iq there by auto
      then have i2: "i < length tbl" "tbl ! i = Some q" using iq by simp_all
      obtain g where "parts b q = Some g" "partno g = int i" "hd_disk g = k" "1 \<le> hd_refs g" "hd_ref g = 1"
        using ps [rule_format, OF iq(1) i2] by (elim exE conjE)
      then show "\<exists>h. parts b3 q = Some h \<and> partno h = int i \<and> hd_disk h = k \<and> 1 \<le> hd_refs h \<and> hd_ref h = 1" using h(1,2) i p3 by auto
    qed (use d h n p3 in \<open>simp_all add: nth_list_update\<close>)
    moreover have "mem_ok k b3"
    proof -
      have w: "\<exists>h. parts b q = Some h \<and> hd_disk h = k \<and> partno h \<noteq> 0 \<and> 1 \<le> hd_refs h \<and> hd_ref h = 0" if "q \<in> set (rcu_todo b)" for q
        using mem that by (simp add: mem_ok_def)
      have "p \<notin> set (rcu_todo b)" using w [of p] h(1,5) by auto
      then show ?thesis using mem w h n p3 unfolding mem_ok_def by auto
    qed
    ultimately show ?thesis using run by blast
  qed
qed

text \<open>The callback of a waiting partition: the others still wait.\<close>

lemma callback_run:
  assumes ok: "disk_ok k native b" and mem: "mem_ok k (b\<lparr>rcu_todo := p # ps\<rparr>)"
  shows "\<exists>b'. delete_partition_rcu_cb X p b = Some b' \<and> disk_ok k native b' \<and> mem_ok k (b'\<lparr>rcu_todo := ps\<rparr>) \<and> rcu_todo b' = rcu_todo b"
proof (rule disk_okD [OF ok])
  fix d tbl h0
  assume d: "disks b k = Some d" "part_tbl d = Some tbl" "fl_native d = native" "0 < length tbl" "tbl ! 0 = Some (part0 d)"
    "parts b (part0 d) = Some h0" "partno h0 = 0" "hd_disk h0 = k" "1 \<le> hd_refs h0"
    and tb: "\<forall>i p. 1 \<le> i \<longrightarrow> i < length tbl \<longrightarrow> tbl ! i = Some p
      \<longrightarrow> (\<exists>h. parts b p = Some h \<and> partno h = int i \<and> hd_disk h = k \<and> 1 \<le> hd_refs h \<and> hd_ref h = 1 \<and> p \<noteq> part0 d)"
  have w: "\<forall>q\<in>set (p # ps). \<exists>h. parts b q = Some h \<and> hd_disk h = k \<and> partno h \<noteq> 0 \<and> 1 \<le> hd_refs h \<and> hd_ref h = 0"
    and dist: "p \<notin> set ps" "distinct ps" and fin: "finite (dom (parts b))" using mem by (simp_all add: mem_ok_def)
  obtain h where h: "parts b p = Some h" "hd_disk h = k" "partno h \<noteq> 0" "1 \<le> hd_refs h" "hd_ref h = 0" using w by auto
  have p0: "p \<noteq> part0 d" using h d(6,7) by auto
  obtain b' where b': "delete_partition_rcu_cb X p b = Some b'" "disks b' = disks b" "rcu_todo b' = rcu_todo b" "\<forall>q. q \<noteq> p \<longrightarrow> parts b' q = parts b q"
    using h p0 d(1) by (cases "hd_refs h > 1") (auto simp: delete_partition_rcu_cb_def put_device_def part_release_def put_part_def Let_def)
  have "disk_ok k native b'"
  proof (rule disk_okI [of b' k d tbl native h0])
    fix i q assume i: "1 \<le> i" "i < length tbl" "tbl ! i = Some q"
    obtain g where g: "parts b q = Some g" "partno g = int i" "hd_disk g = k" "1 \<le> hd_refs g" "hd_ref g = 1" using tb [rule_format, OF i] by (elim exE conjE)
    then have "q \<noteq> p" using h by auto
    then show "\<exists>h. parts b' q = Some h \<and> partno h = int i \<and> hd_disk h = k \<and> 1 \<le> hd_refs h \<and> hd_ref h = 1" using g b'(4) by auto
  qed (use d b' p0 in auto)
  moreover have "mem_ok k (b'\<lparr>rcu_todo := ps\<rparr>)"
  proof -
    have "dom (parts b') \<subseteq> insert p (dom (parts b))"
    proof
      fix q assume "q \<in> dom (parts b')"
      then show "q \<in> insert p (dom (parts b))" using b'(4) by (cases "q = p") auto
    qed
    then have "finite (dom (parts b'))" using fin finite_subset by blast
    moreover have "parts b' q = parts b q" if "q \<in> set ps" for q using b'(4) that dist(1) by auto
    ultimately show ?thesis using w dist(2) unfolding mem_ok_def by simp
  qed
  ultimately show ?thesis using b'(1,3) by blast
qed

text \<open>When the grace period is over all callbacks run and none is left.\<close>

lemma callbacks_run:
  assumes "disk_ok k native b" and "mem_ok k (b\<lparr>rcu_todo := ps\<rparr>)"
  shows "\<exists>b'. run_callbacks X ps b = Some b' \<and> disk_ok k native b' \<and> mem_ok k (b'\<lparr>rcu_todo := []\<rparr>) \<and> rcu_todo b' = rcu_todo b"
  using assms
proof (induction ps arbitrary: b)
  case Nil
  then show ?case by simp
next
  case (Cons p ps)
  obtain c where c: "delete_partition_rcu_cb X p b = Some c" "disk_ok k native c" "mem_ok k (c\<lparr>rcu_todo := ps\<rparr>)" "rcu_todo c = rcu_todo b"
    using callback_run [OF Cons.prems, of X] by blast
  then show ?case using Cons.IH [OF c(2,3)] by simp
qed

lemma barrier_run:
  assumes ok: "disk_ok k native b" and mem: "mem_ok k b"
  shows "\<exists>b'. rcu_barrier X b = Some b' \<and> disk_ok k native b' \<and> mem_ok k b' \<and> rcu_todo b' = []"
proof -
  have "disk_ok k native (b\<lparr>rcu_todo := []\<rparr>)" by (rule disk_ok_same [OF ok]) (simp add: same_disk_def)
  moreover have "mem_ok k (b\<lparr>rcu_todo := []\<rparr>\<lparr>rcu_todo := rcu_todo b\<rparr>)" using mem by simp
  ultimately obtain b' where b': "rcu_barrier X b = Some b'" "disk_ok k native b'" "mem_ok k (b'\<lparr>rcu_todo := []\<rparr>)" "rcu_todo b' = []"
    using callbacks_run [of k native "b\<lparr>rcu_todo := []\<rparr>" "rcu_todo b" X] by (auto simp: rcu_barrier_def)
  then have "mem_ok k b'" by (simp add: mem_ok_def)
  then show ?thesis using b' by blast
qed

section \<open>Dropping and scanning, with refusals\<close>

lemma drop_any:
  assumes ok: "disk_ok k native b" and mem: "mem_ok k b"
  shows "\<exists>b' res. drop_partitions X S k b = Some (b', res) \<and> disk_ok k native b' \<and> mem_ok k b'
    \<and> (res = 0 \<longrightarrow> se_open S = 0 \<and> drop_partitions X (S\<lparr>se_inval := \<lambda>_. 0\<rparr>) k b = Some (b', 0))"
proof (cases "se_open S = 0")
  case False
  then show ?thesis using ok mem by (simp add: drop_partitions_def)
next
  case True
  obtain res where res: "invalidate_partition X (se_bdget S) (se_inval S) k 0 b = Some (b, res)"
    using invalidate_disk [OF ok, of X "se_bdget S" "se_inval S"] by blast
  have zero: "invalidate_partition X (se_bdget S) (\<lambda>_. 0) k 0 b = Some (b, 0)"
    using invalidate_disk [OF ok, of X "se_bdget S" "\<lambda>_. 0"] by auto
  obtain d tbl where d: "disks b k = Some d" "part_tbl d = Some tbl" using ok by (auto simp: disk_ok_def table_ok_def)
  let ?S = "S\<lparr>se_inval := \<lambda>_. 0\<rparr>"
  have S: "se_open ?S = 0" "\<forall>v. se_inval ?S v = 0" using True by simp_all
  obtain b' where b': "drop_partitions X ?S k b = Some (b', 0)" "disk_ok k native b'" "parts b' = unlinked tbl [] (parts b)"
    "rcu_todo b' = rcu_todo b @ List.map_filter ((!) tbl) [1..<length tbl]"
    using drop_run [OF ok d S, of X] by (elim exE conjE)
  have "mem_ok k b'" by (rule dropped_mem [OF ok mem d b'(3,4)])
  moreover have "drop_partitions X S k b = (if res \<noteq> 0 then Some (b, res) else drop_partitions X ?S k b)"
    using True res zero by (simp add: drop_partitions_def)
  ultimately show ?thesis using b'(1,2) ok mem True by (cases "res = 0") simp_all
qed

lemma unlock_inval [simp]: "disk_unlock_native_capacity (S\<lparr>se_inval := f\<rparr>) k b = disk_unlock_native_capacity S k b"
  by (simp add: disk_unlock_native_capacity_def)

lemma add_parsed_inval [simp]: "add_parsed X (S\<lparr>se_inval := f\<rparr>) k i pps b = add_parsed X S k i pps b"
  by (induction pps arbitrary: i b) (simp_all cong: if_cong)

lemma rescan_try_any:
  assumes ok: "disk_ok k native b" and mem: "mem_ok k b" and X: "idr_ok X" "\<not> has_md X" and S: "fresh_parts S" "short_tables S"
  shows "(\<exists>b'. rescan_try X S k b = Some (Rescan b') \<and> \<not> native \<and> disk_ok k True b' \<and> mem_ok k b')
    \<or> (\<exists>b' res. rescan_try X S k b = Some (Scanned b' res) \<and> disk_ok k native b' \<and> mem_ok k b')"
proof -
  obtain b1 res where dr: "drop_partitions X S k b = Some (b1, res)" "disk_ok k native b1" "mem_ok k b1"
    "res = 0 \<longrightarrow> se_open S = 0 \<and> drop_partitions X (S\<lparr>se_inval := \<lambda>_. 0\<rparr>) k b = Some (b1, 0)"
    using drop_any [OF ok mem, of X S] by blast
  show ?thesis
  proof (cases "res = 0")
    case False
    then show ?thesis using dr by (simp add: rescan_try_def)
  next
    case True
    let ?S = "S\<lparr>se_inval := \<lambda>_. 0\<rparr>"
    have same: "rescan_try X S k b = rescan_try X ?S k b" using dr(1,4) True by (simp add: rescan_try_def cong: if_cong parsed.case_cong)
    obtain d where d: "disks b k = Some d" using ok by (auto simp: disk_ok_def table_ok_def)
    have S': "se_open ?S = 0" "\<forall>v. se_inval ?S v = 0" "fresh_parts ?S" "short_tables ?S"
      using dr(4) True S by (simp_all add: fresh_parts_def short_tables_def)
    show ?thesis unfolding same using rescan_try_run [OF ok mem d refl X S'] unfolding scan_inv_def by blast
  qed
qed

lemma rescan_any:
  assumes "disk_ok k native b" and "mem_ok k b" and X: "idr_ok X" "\<not> has_md X" and S: "fresh_parts S" "short_tables S"
  shows "\<exists>b' res native'. rescan_partitions X S k b = Some (b', res) \<and> disk_ok k native' b' \<and> mem_ok k b'"
  using rescan_try_any [OF assms]
proof (elim disjE exE conjE)
  fix b' res assume "rescan_try X S k b = Some (Scanned b' res)" "disk_ok k native b'" "mem_ok k b'"
  then show ?thesis by (auto simp: rescan_partitions_def numeral_2_eq_2)
next
  fix b1 assume r1: "rescan_try X S k b = Some (Rescan b1)" and b1: "disk_ok k True b1" "mem_ok k b1"
  obtain b' res where "rescan_try X S k b1 = Some (Scanned b' res)" "disk_ok k True b'" "mem_ok k b'"
    using rescan_try_any [OF b1 X S] by blast
  then show ?thesis using r1 by (auto simp: rescan_partitions_def numeral_2_eq_2)
qed

lemma capacity_any:
  assumes ok: "disk_ok k native b" and mem: "mem_ok k b"
  shows "\<exists>b'. set_capacity k c b = Some b' \<and> disk_ok k native b' \<and> mem_ok k b'"
proof (rule disk_okD [OF ok])
  fix d h0 assume d: "disks b k = Some d" "parts b (part0 d) = Some h0"
  let ?b = "put_part (part0 d) (h0\<lparr>nr_sects := c\<rparr>) b"
  have "disk_ok k native ?b" by (rule disk_ok_same [OF ok]) (use d in \<open>auto simp: same_disk_def put_part_def\<close>)
  moreover have "mem_ok k ?b" by (rule mem_ok_nr_sects [OF mem d(2)]) (simp_all add: put_part_def)
  ultimately show ?thesis using d by (simp add: set_capacity_def)
qed

lemma invalidate_any:
  assumes ok: "disk_ok k native b" and mem: "mem_ok k b"
  shows "\<exists>b' res. invalidate_partitions X S k b = Some (b', res) \<and> disk_ok k native b' \<and> mem_ok k b'"
proof -
  obtain d where d: "disks b k = Some d" using ok by (auto simp: disk_ok_def table_ok_def)
  obtain b1 res where dr: "drop_partitions X S k b = Some (b1, res)" "disk_ok k native b1" "mem_ok k b1" using drop_any [OF ok mem, of X S] by blast
  obtain b2 where b2: "set_capacity k 0 b1 = Some b2" "disk_ok k native b2" "mem_ok k b2" using capacity_any [OF dr(2,3)] by blast
  obtain d2 where d2: "disks b2 k = Some d2" using b2(2) by (auto simp: disk_ok_def table_ok_def)
  let ?b3 = "put_disk k (d2\<lparr>bd_invalidated := False\<rparr>) b2"
  have ok3: "disk_ok k native ?b3" by (rule disk_ok_same [OF b2(2)]) (use d2 in \<open>simp add: same_disk_def put_disk_def\<close>)
  have mem3: "mem_ok k ?b3" by (rule mem_ok_same [OF b2(3)]) (simp_all add: put_disk_def)
  obtain es where ev: "kobject_uevent X KOBJ_CHANGE (part0 d2) ?b3 = Some (?b3\<lparr>uevents := es\<rparr>)"
    using disk_event [OF ok3, of "d2\<lparr>bd_invalidated := False\<rparr>" X KOBJ_CHANGE] by (auto simp: put_disk_def)
  have "disk_ok k native (?b3\<lparr>uevents := es\<rparr>)" "mem_ok k (?b3\<lparr>uevents := es\<rparr>)" using ok3 mem_ok_same [OF mem3] by simp_all
  then show ?thesis using d dr b2(1) d2 ev ok mem by (auto simp: invalidate_partitions_def)
qed

section \<open>Runs\<close>

text \<open>A new disk has a table with its own entry only.\<close>

lemma alloc_run:
  assumes X: "\<forall>d. 0 \<le> disk_max_parts X d" and b: "finite (dom (parts b))" "rcu_todo b = []" "parts b p0 = None"
  shows "\<exists>b'. alloc_disk X (Some (k, p0)) True True minors b = Some (b', Some k) \<and> disk_ok k False b' \<and> mem_ok k b'"
proof -
  let ?d = "\<lparr>gd_major = 0, gd_first_minor = 0, gd_minors = 0, disk_name_of = [], fl_ext_devt = False, fl_removable = False, fl_suppress = False,
     fl_native = False, fl_up = False, part_tbl = None, last_lookup = None, part0 = p0, uevent_suppress = False, gd_ev = None,
     gd_evmask = \<lparr>dk_events = 0, dk_async = 0\<rparr>, bd_invalidated = False\<rparr>"
  let ?h = "\<lparr>start_sect = 0, nr_sects = 0, partno = 0, policy = 0, hd_devt = 0, volname = [], hd_disk = k, hd_refs = 1, hd_ref = 1\<rparr>"
  let ?d1 = "?d\<lparr>part_tbl := Some [Some p0], gd_minors := minors\<rparr>"
  define b' where "b' = put_part p0 ?h (put_disk k ?d1 (put_disk k (?d\<lparr>part_tbl := Some [None], last_lookup := None\<rparr>) (put_disk k ?d b)))"
  have mp: "disk_max_parts X ?d = 0 \<or> 1 \<le> disk_max_parts X ?d" using X [rule_format, of ?d] by linarith
  have "disk_expand_part_tbl X True k 0 (put_disk k ?d b) = Some (put_disk k (?d\<lparr>part_tbl := Some [None], last_lookup := None\<rparr>) (put_disk k ?d b), 0)"
    using mp by (auto simp: disk_expand_part_tbl_def disk_replace_part_tbl_def put_disk_def Let_def)
  then have "alloc_disk X (Some (k, p0)) True True minors b = Some (b', Some k)"
    by (simp add: alloc_disk_def b'_def put_disk_def Let_def)
  moreover have "disk_ok k False b'"
    by (rule disk_okI [of b' k ?d1 "[Some p0]" False ?h]) (simp_all add: b'_def put_disk_def put_part_def)
  moreover have "mem_ok k b'" using b by (simp add: b'_def mem_ok_def put_disk_def put_part_def)
  ultimately show ?thesis by blast
qed

text \<open>
  What happens to a disk: its driver sets the capacity, it is scanned or invalidated,
  a partition is added (without information) or deleted, the waiting callbacks run.
\<close>

datatype disk_op = SetCapacity sector_t | Scan scan_env | Invalidate scan_env
  | AddPart "blk \<Rightarrow> add_env" nat sector_t sector_t bool | DeletePart nat | Callbacks

fun disk_do :: "gext \<Rightarrow> int \<Rightarrow> disk_op \<Rightarrow> blk \<Rightarrow> blk option" where
  "disk_do X k (SetCapacity c) b = set_capacity k c b"
| "disk_do X k (Scan S) b = map_option fst (rescan_partitions X S k b)"
| "disk_do X k (Invalidate S) b = map_option fst (invalidate_partitions X S k b)"
| "disk_do X k (AddPart E n start len whole) b = map_option fst (add_partition X (E b) k (int n) start len whole None b)"
| "disk_do X k (DeletePart n) b = delete_partition X k (int n) b"
| "disk_do X k Callbacks b = rcu_barrier X b"

fun disk_run :: "gext \<Rightarrow> int \<Rightarrow> disk_op list \<Rightarrow> blk \<Rightarrow> blk option" where
  "disk_run X k [] b = Some b"
| "disk_run X k (x # xs) b = do { b1 \<leftarrow> disk_do X k x b; disk_run X k xs b1 }"

text \<open>New partitions get fresh memory, tables are short, and entry 0 is not touched.\<close>

fun op_ok :: "disk_op \<Rightarrow> bool" where
  "op_ok (Scan S) \<longleftrightarrow> fresh_parts S \<and> short_tables S"
| "op_ok (AddPart E n start len whole) \<longleftrightarrow> 1 \<le> n \<and> n < 2 ^ 31 - 1 \<and> (\<forall>b p. ae_part (E b) = Some p \<longrightarrow> parts b p = None)"
| "op_ok (DeletePart n) \<longleftrightarrow> 1 \<le> n"
| "op_ok _ \<longleftrightarrow> True"

lemma do_run:
  assumes ok: "disk_ok k native b" and mem: "mem_ok k b" and X: "idr_ok X" "\<not> has_md X" and x: "op_ok x"
  shows "\<exists>b' native'. disk_do X k x b = Some b' \<and> disk_ok k native' b' \<and> mem_ok k b'"
proof (cases x)
  case (SetCapacity c)
  then show ?thesis using capacity_any [OF ok mem, of c] by auto
next
  case (Scan S)
  then have "fresh_parts S" "short_tables S" using x by simp_all
  from rescan_any [OF ok mem X this] show ?thesis using Scan by auto
next
  case (Invalidate S)
  then show ?thesis using invalidate_any [OF ok mem, of X S] by auto
next
  case (AddPart E n start len whole)
  then have n: "1 \<le> n" "int n < 2 ^ 31 - 1" and fresh: "\<And>p. ae_part (E b) = Some p \<Longrightarrow> parts b p = None" using x by auto
  obtain d where d: "disks b k = Some d" using ok by (auto simp: disk_ok_def table_ok_def)
  obtain b' r where "add_partition X (E b) k (int n) start len whole None b = Some (b', r)" "added k native b d n (start, len) (b', r)"
    using add_partition_run [where E = "E b" and start = start and len = len and whole = whole and info = None, OF ok X(1) d n fresh] by blast
  then show ?thesis using AddPart mem by (auto simp: added_def)
next
  case (DeletePart n)
  then show ?thesis using delete_run [OF ok mem, of n X] x by auto
next
  case Callbacks
  then show ?thesis using barrier_run [OF ok mem, of X] by auto
qed

lemma run_run:
  assumes "disk_ok k native b" and "mem_ok k b" and X: "idr_ok X" "\<not> has_md X" and "\<forall>x\<in>set xs. op_ok x"
  shows "\<exists>b' native'. disk_run X k xs b = Some b' \<and> disk_ok k native' b' \<and> mem_ok k b'"
  using assms(1,2,5)
proof (induction xs arbitrary: b native)
  case Nil
  then show ?case by auto
next
  case (Cons x xs)
  have "op_ok x" using Cons.prems(3) by simp
  then obtain b1 native1 where b1: "disk_do X k x b = Some b1" "disk_ok k native1 b1" "mem_ok k b1" using do_run [OF Cons.prems(1,2) X] by blast
  then show ?case using Cons.IH [OF b1(2,3)] Cons.prems(3) by simp
qed

text \<open>
  C23. In the whole life of a disk, from its allocation through any sequence of changes of
  its capacity, scans, invalidations, additions and deletions of partitions and runs of
  the callbacks, with any answers of drivers, parsers, memory and device core, no
  operation uses freed memory or leaves the table, and the disk stays sound: every entry
  of the table is a live partition with its own number and its own reference, and every
  partition that waits for its callback is alive, out of the table and waits once. New
  partitions get fresh memory, and there is no software RAID.
\<close>

theorem disk_life_safe:
  assumes "idr_ok X" and "\<not> has_md X" and "\<forall>d. 0 \<le> disk_max_parts X d"
    and "finite (dom (parts b))" and "rcu_todo b = []" and "parts b p0 = None" and "\<forall>x\<in>set xs. op_ok x"
  shows "\<exists>b1 b2 native. alloc_disk X (Some (k, p0)) True True minors b = Some (b1, Some k) \<and> disk_run X k xs b1 = Some b2
    \<and> disk_ok k native b2 \<and> mem_ok k b2"
proof -
  obtain b1 where b1: "alloc_disk X (Some (k, p0)) True True minors b = Some (b1, Some k)" "disk_ok k False b1" "mem_ok k b1"
    using alloc_run [OF assms(3-6), of k minors] by blast
  then show ?thesis using run_run [OF b1(2,3) assms(1,2,7)] by blast
qed

theorem disk_life_safe_witness:
  "\<exists>b1 b2 native. alloc_disk demo_gext (Some (2, 14)) True True 16 demo_blk = Some (b1, Some 2)
    \<and> disk_run demo_gext 2 [SetCapacity 1000, Scan demo_scan, DeletePart 1, Callbacks, Invalidate demo_scan] b1 = Some b2
    \<and> disk_ok 2 native b2 \<and> mem_ok 2 b2"
proof -
  have "\<forall>x\<in>set [SetCapacity 1000, Scan demo_scan, DeletePart 1, Callbacks, Invalidate demo_scan]. op_ok x"
    using demo_fresh demo_short by simp
  then show ?thesis
    by (intro disk_life_safe [OF demo_idr]) (simp_all add: demo_gext_def demo_blk_def)
qed

end
