(* ===== verification/OomAdj.thy ===== *)
theory OomAdj
  imports Prelude "HOL-Library.Signed_Division"
begin

text \<open>
  The files \<open>/proc/pid/oom_adj\<close> and \<open>/proc/pid/oom_score_adj\<close> of
  \<open>patches/kernel/proc-base.c\<close>, with the check this port adds: who may say which
  process is killed first when memory runs out. The parsing of numbers is an argument;
  the numbers a read prints are its result.
\<close>

section \<open>Operations\<close>

text \<open>Limits of \<open>linux/oom.h\<close>.\<close>

abbreviation (input) OOM_DISABLE :: int where "OOM_DISABLE \<equiv> -17"
abbreviation (input) OOM_ADJUST_MIN :: int where "OOM_ADJUST_MIN \<equiv> -16"
abbreviation (input) OOM_ADJUST_MAX :: int where "OOM_ADJUST_MAX \<equiv> 15"
abbreviation (input) OOM_SCORE_ADJ_MIN :: int where "OOM_SCORE_ADJ_MIN \<equiv> -1000"
abbreviation (input) OOM_SCORE_ADJ_MAX :: int where "OOM_SCORE_ADJ_MAX \<equiv> 1000"
abbreviation (input) EACCES :: int where "EACCES \<equiv> 13"
abbreviation (input) ESRCH :: int where "ESRCH \<equiv> 3"

text \<open>
  What the files use of a task and of the writer. \<open>has_mm\<close> and \<open>has_sighand\<close> fail
  for a kernel thread and for a task that is gone.
\<close>

record oom_task =
  oom_score_adj :: int
  oom_score_adj_min :: int
  task_uid :: u32
  task_euid :: u32
  has_mm :: bool
  has_sighand :: bool

record writer =
  wr_euid :: u32
  wr_resource :: bool

definition oom_adj_write_permitted :: "writer \<Rightarrow> oom_task \<Rightarrow> bool" where
  "oom_adj_write_permitted w t \<longleftrightarrow> wr_resource w \<or> wr_euid w = task_uid t \<or> wr_euid w = task_euid t"

definition oom_adj_read :: "oom_task option \<Rightarrow> int + int" where
  "oom_adj_read task =
     (case task of
        None \<Rightarrow> Inl (-ESRCH)
      | Some t \<Rightarrow>
          Inr (if \<not> has_sighand t then OOM_ADJUST_MIN
               else if oom_score_adj t = OOM_SCORE_ADJ_MAX then OOM_ADJUST_MAX
               else (oom_score_adj t * - OOM_DISABLE) sdiv OOM_SCORE_ADJ_MAX))"

definition scale_adj :: "int \<Rightarrow> int" where
  "scale_adj adj = (if adj = OOM_ADJUST_MAX then OOM_SCORE_ADJ_MAX else (adj * OOM_SCORE_ADJ_MAX) sdiv - OOM_DISABLE)"

text \<open>
  A write gets the caller's bytes, none if they cannot be read, of which one less than
  the buffer holds are used; \<open>kstrtoint\<close> gives an error or a number.
\<close>

definition oom_adj_write :: "nat \<Rightarrow> (bytes \<Rightarrow> int + int) \<Rightarrow> writer \<Rightarrow> nat \<Rightarrow> bytes option \<Rightarrow> oom_task option \<Rightarrow> oom_task option \<times> int" where
  "oom_adj_write numbuf kstrtoint w n buf task =
     (let count = min n (numbuf - 1) in
      case buf of
        None \<Rightarrow> (task, -EFAULT)
      | Some b \<Rightarrow>
          (case kstrtoint (take count b) of
             Inl err \<Rightarrow> (task, err)
           | Inr adj \<Rightarrow>
               if (adj < OOM_ADJUST_MIN \<or> adj > OOM_ADJUST_MAX) \<and> adj \<noteq> OOM_DISABLE then (task, -EINVAL)
               else case task of
                 None \<Rightarrow> (task, -ESRCH)
               | Some t \<Rightarrow>
                   if \<not> has_mm t then (task, -EINVAL)
                   else if \<not> has_sighand t then (task, -ESRCH)
                   else if \<not> oom_adj_write_permitted w t then (task, -EACCES)
                   else if scale_adj adj < oom_score_adj t \<and> \<not> wr_resource w then (task, -EACCES)
                   else (Some (t\<lparr>oom_score_adj := scale_adj adj\<rparr>), int count)))"

definition oom_score_adj_read :: "oom_task option \<Rightarrow> int + int" where
  "oom_score_adj_read task =
     (case task of None \<Rightarrow> Inl (-ESRCH) | Some t \<Rightarrow> Inr (if has_sighand t then oom_score_adj t else OOM_SCORE_ADJ_MIN))"

definition oom_score_adj_write :: "nat \<Rightarrow> (bytes \<Rightarrow> int + int) \<Rightarrow> writer \<Rightarrow> nat \<Rightarrow> bytes option \<Rightarrow> oom_task option \<Rightarrow> oom_task option \<times> int" where
  "oom_score_adj_write numbuf kstrtoint w n buf task =
     (let count = min n (numbuf - 1) in
      case buf of
        None \<Rightarrow> (task, -EFAULT)
      | Some b \<Rightarrow>
          (case kstrtoint (take count b) of
             Inl err \<Rightarrow> (task, err)
           | Inr adj \<Rightarrow>
               if adj < OOM_SCORE_ADJ_MIN \<or> adj > OOM_SCORE_ADJ_MAX then (task, -EINVAL)
               else case task of
                 None \<Rightarrow> (task, -ESRCH)
               | Some t \<Rightarrow>
                   if \<not> oom_adj_write_permitted w t then (task, -EACCES)
                   else if \<not> has_mm t then (task, -EINVAL)
                   else if \<not> has_sighand t then (task, -ESRCH)
                   else if adj < oom_score_adj_min t \<and> \<not> wr_resource w then (task, -EACCES)
                   else (Some (t\<lparr>oom_score_adj := adj, oom_score_adj_min := (if wr_resource w then adj else oom_score_adj_min t)\<rparr>), int count)))"

section \<open>Sequences of writes\<close>

text \<open>A write to one of the files: the writer, the file and what is written.\<close>

datatype oom_file = Adj | Score

definition oom_write :: "nat \<Rightarrow> (bytes \<Rightarrow> int + int) \<Rightarrow> writer \<times> oom_file \<times> bytes \<Rightarrow> oom_task \<Rightarrow> oom_task" where
  "oom_write numbuf kstrtoint x t =
     (case x of (w, f, b) \<Rightarrow>
        the (fst ((case f of Adj \<Rightarrow> oom_adj_write | Score \<Rightarrow> oom_score_adj_write) numbuf kstrtoint w (length b) (Some b) (Some t))))"

definition in_range :: "oom_task \<Rightarrow> bool" where
  "in_range t \<longleftrightarrow> OOM_SCORE_ADJ_MIN \<le> oom_score_adj t \<and> oom_score_adj t \<le> OOM_SCORE_ADJ_MAX
     \<and> OOM_SCORE_ADJ_MIN \<le> oom_score_adj_min t \<and> oom_score_adj_min t \<le> OOM_SCORE_ADJ_MAX"

lemma scale_adj_upto: "list_all (\<lambda>x. -1000 \<le> scale_adj x \<and> scale_adj x \<le> 1000) [-17..15]"
  by code_simp

lemma scale_adj_range:
  assumes "-17 \<le> adj" and "adj \<le> 15"
  shows "OOM_SCORE_ADJ_MIN \<le> scale_adj adj" "scale_adj adj \<le> OOM_SCORE_ADJ_MAX"
proof -
  have "adj \<in> {-17..15}" using assms by (simp only: atLeastAtMost_iff)
  then show "OOM_SCORE_ADJ_MIN \<le> scale_adj adj" "scale_adj adj \<le> OOM_SCORE_ADJ_MAX"
    using scale_adj_upto [unfolded list_all_iff set_upto] by blast+
qed

lemma oom_write_cases:
  fixes w f b t numbuf kstrtoint
  defines "t' \<equiv> oom_write numbuf kstrtoint (w, f, b) t"
  obtains "t' = t"
  | v where "oom_adj_write_permitted w t" "t' = t\<lparr>oom_score_adj := v, oom_score_adj_min := (if wr_resource w \<and> f = Score then v else oom_score_adj_min t)\<rparr>"
      "OOM_SCORE_ADJ_MIN \<le> v" "v \<le> OOM_SCORE_ADJ_MAX" "wr_resource w \<or> (if f = Adj then oom_score_adj t else oom_score_adj_min t) \<le> v"
proof (cases "kstrtoint (take (min (length b) (numbuf - 1)) b)")
  case (Inl err)
  then have "t' = t" by (cases f) (simp_all add: t'_def oom_write_def oom_adj_write_def oom_score_adj_write_def)
  then show ?thesis using that by blast
next
  case (Inr v)
  show ?thesis
  proof (cases f)
    case Adj
    then have e: "t' = t \<or> oom_adj_write_permitted w t \<and> t' = t\<lparr>oom_score_adj := scale_adj v\<rparr> \<and> -17 \<le> v \<and> v \<le> 15 \<and> (wr_resource w \<or> oom_score_adj t \<le> scale_adj v)"
      using Inr by (auto simp: t'_def oom_write_def oom_adj_write_def)
    show ?thesis using that(1) that(2) [of "scale_adj v"] e scale_adj_range [of v] Adj by auto
  next
    case Score
    then have e: "t' = t \<or> oom_adj_write_permitted w t \<and> t' = t\<lparr>oom_score_adj := v, oom_score_adj_min := (if wr_resource w then v else oom_score_adj_min t)\<rparr>
        \<and> -1000 \<le> v \<and> v \<le> 1000 \<and> (wr_resource w \<or> oom_score_adj_min t \<le> v)"
      using Inr by (auto simp: t'_def oom_write_def oom_score_adj_write_def)
    show ?thesis using that(1) that(2) [of v] e Score by auto
  qed
qed

text \<open>
  C26. Whatever is written to the two files of a task by whomever, the values stay
  between -1000 and 1000. Writers without \<open>CAP_SYS_RESOURCE\<close> never move the lower
  limit and never bring the value below both itself and the limit, and those who also
  have another user than the task change nothing at all.
\<close>

theorem oom_writes_guarded:
  assumes "in_range t"
  shows "in_range (fold (oom_write numbuf kstrtoint) xs t)
    \<and> ((\<forall>(w, f, b)\<in>set xs. \<not> wr_resource w) \<longrightarrow>
          oom_score_adj_min (fold (oom_write numbuf kstrtoint) xs t) = oom_score_adj_min t
        \<and> min (oom_score_adj t) (oom_score_adj_min t) \<le> oom_score_adj (fold (oom_write numbuf kstrtoint) xs t))
    \<and> ((\<forall>(w, f, b)\<in>set xs. \<not> oom_adj_write_permitted w t) \<longrightarrow> fold (oom_write numbuf kstrtoint) xs t = t)"
  using assms
proof (induction xs arbitrary: t)
  case (Cons x xs)
  obtain w f b where x: "x = (w, f, b)" by (cases x) auto
  define t1 where "t1 = oom_write numbuf kstrtoint x t"
  have c: "t1 = t \<or> oom_adj_write_permitted w t \<and> in_range t1 \<and> (\<forall>w. oom_adj_write_permitted w t1 = oom_adj_write_permitted w t)
      \<and> (\<not> wr_resource w \<longrightarrow> oom_score_adj_min t1 = oom_score_adj_min t \<and> min (oom_score_adj t) (oom_score_adj_min t) \<le> oom_score_adj t1)"
    unfolding t1_def x by (rule oom_write_cases [where w = w and f = f and b = b and t = t and numbuf = numbuf and kstrtoint = kstrtoint])
      (use Cons.prems in \<open>auto simp: in_range_def oom_adj_write_permitted_def min_le_iff_disj split: if_splits\<close>)
  have r: "in_range t1" using c Cons.prems by auto
  note ih = Cons.IH [OF r]
  have "oom_score_adj_min t1 = oom_score_adj_min t \<and> min (oom_score_adj t) (oom_score_adj_min t) \<le> oom_score_adj t1" if "\<not> wr_resource w"
    using c that by auto
  moreover have "t1 = t" if "\<not> oom_adj_write_permitted w t" using c that by auto
  ultimately show ?case using ih by (auto simp: x t1_def [symmetric, unfolded x] min_le_iff_disj)
qed simp

lemma scale_back_upto:
  "list_all (\<lambda>x. let v = scale_adj x; y = (if v = 1000 then 15 else (v * 17) sdiv 1000) in y = x \<or> y = x - sgn x) [-17..15]"
  by code_simp

text \<open>
  A value that \<open>CAP_SYS_RESOURCE\<close> writes to \<open>oom_score_adj\<close> is read back
  exactly; one written to \<open>oom_adj\<close> is read back exactly or one nearer to 0, because
  it is scaled to thousandths and back with rounding towards 0.
\<close>

theorem oom_roundtrip:
  assumes "wr_resource w" and "has_mm t" and "has_sighand t" and "kstrtoint (take (numbuf - 1) b) = Inr v"
  shows "(-1000 \<le> v \<and> v \<le> 1000 \<longrightarrow> oom_score_adj_read (Some (oom_write numbuf kstrtoint (w, Score, b) t)) = Inr v)
    \<and> (-17 \<le> v \<and> v \<le> 15 \<longrightarrow> oom_adj_read (Some (oom_write numbuf kstrtoint (w, Adj, b) t)) \<in> {Inr v, Inr (v - sgn v)})"
proof -
  have k: "kstrtoint (take (min (length b) (numbuf - 1)) b) = Inr v" using assms(4) by (cases "length b \<le> numbuf - 1") (auto simp: min_def)
  have s: "oom_write numbuf kstrtoint (w, Score, b) t = t\<lparr>oom_score_adj := v, oom_score_adj_min := v\<rparr>" if "-1000 \<le> v" "v \<le> 1000"
    using assms(1-3) k that by (simp add: oom_write_def oom_score_adj_write_def oom_adj_write_permitted_def)
  have a: "oom_write numbuf kstrtoint (w, Adj, b) t = t\<lparr>oom_score_adj := scale_adj v\<rparr>" if "-17 \<le> v" "v \<le> 15"
    using assms(1-3) k that by (auto simp: oom_write_def oom_adj_write_def oom_adj_write_permitted_def)
  have "(if scale_adj v = 1000 then 15 else (scale_adj v * 17) sdiv 1000) \<in> {v, v - sgn v}" if v: "-17 \<le> v" "v \<le> 15"
  proof -
    have "v \<in> {-17..15}" using v by (simp only: atLeastAtMost_iff)
    then show ?thesis using scale_back_upto [unfolded list_all_iff set_upto Let_def] by blast
  qed
  then show ?thesis using s a assms(3) by (auto simp: oom_score_adj_read_def oom_adj_read_def)
qed

text \<open>A background application and its manager; a byte is parsed as a small signed number.\<close>

definition demo_app :: oom_task where
  "demo_app = \<lparr>oom_score_adj = 0, oom_score_adj_min = 0, task_uid = 10061, task_euid = 10061, has_mm = True, has_sighand = True\<rparr>"

definition byte_number :: "bytes \<Rightarrow> int + int" where
  "byte_number b = (case b of [] \<Rightarrow> Inl (-EINVAL) | x # _ \<Rightarrow> Inr (sint x))"

theorem oom_writes_guarded_witness:
  "oom_score_adj_min (fold (oom_write 13 byte_number) [(\<lparr>wr_euid = 10061, wr_resource = False\<rparr>, Score, [100]), (\<lparr>wr_euid = 10061, wr_resource = False\<rparr>, Adj, [-5])] demo_app) = 0"
  using oom_writes_guarded [of demo_app 13 byte_number "[(\<lparr>wr_euid = 10061, wr_resource = False\<rparr>, Score, [100]), (\<lparr>wr_euid = 10061, wr_resource = False\<rparr>, Adj, [-5])]"]
  by (simp add: in_range_def demo_app_def)

theorem oom_roundtrip_witness: "oom_adj_read (Some (oom_write 13 byte_number (\<lparr>wr_euid = 1000, wr_resource = True\<rparr>, Adj, [8]) demo_app)) \<in> {Inr 8, Inr 7}"
  using oom_roundtrip [of "\<lparr>wr_euid = 1000, wr_resource = True\<rparr>" demo_app byte_number 13 "[8]" 8] by (simp add: demo_app_def byte_number_def)

end
