(* ===== verification/Spec2Isabelle.thy ===== *)
theory Spec2Isabelle
  imports GrallocWrapper HwDevice LoggerProps ServiceRequests KernelBufProps KernelCtlProps DiskLife OomAdj
begin

text \<open>
  A verification of the C code of an Android 4.4 port to an e-ink reader (Kobo
  Clara HD: 32-bit ARM, no GPU, a grey-scale panel behind a framebuffer driver).
  All paths are below \<open>src/\<close>.

  \<^bold>\<open>The program.\<close> Applications draw into gralloc buffers. The wrapper
  module \<open>gralloc_eink/src/eink_wrapper.c\<close> forwards allocation to the
  vendor's gralloc and remembers the geometry of every buffer in a table. The
  compositor \<open>gralloc_eink/src/hwcomposer_eink.c\<close> asks the table for the
  geometry, composes the layers of a frame into a shadow image, compares it with
  the panel, copies what changed to the framebuffer and asks the panel driver for
  an update of the changed rectangle; a thread of it delivers vsync events. All
  processes talk through binder: the kernel driver
  (\<open>patches/kernel/binder.c\<close>) counts references to the objects of other
  processes, gives every message a buffer in an area of the receiver and queues it
  there, and the service manager (\<open>servicemanager/\<close>) maps names to
  the handles of services and is itself reached by binder messages. All processes
  log through the ring buffers of \<open>patches/kernel/logger.c\<close>. The block layer
  (\<open>patches/kernel/genhd.c\<close>, \<open>patches/kernel/partition-generic.c\<close>) finds the
  partitions of a card and tells Android's volume daemon about them, and the files of
  \<open>patches/kernel/proc-base.c\<close> let Android say which process to kill first.

  \<^bold>\<open>Conventions\<close> (theory \<open>Prelude\<close>). Machine integers whose
  width matters are words and wrap; the counts of binder references, which commands can
  raise at will, wrap by \<open>wrap_int\<close>, while counts that the number of structures in
  memory bounds are plain integers. Memory is a list of bytes with checked
  accesses: an access outside an object, a NULL dereference, and a
  \<open>BUG_ON\<close> that fires is the result \<open>None\<close>, so a theorem
  \<open>f x = Some y\<close> says that the code is memory safe and does not stop.
  Error codes are ordinary results. Every operation is a total function; code
  outside the repository (the vendor's gralloc, the panel driver's answers, the
  kernel's trees and page allocator, user ids and protocol codes of headers) is an
  argument of the definitions that use it.

  \<^bold>\<open>The gralloc wrapper.\<close> \<open>BufferTable\<close> has the table
  (\<open>eink_buf_record\<close>, \<open>eink_buf_forget\<close>,
  \<open>eink_gralloc_query\<close>) and shows that it implements a map bounded by 64
  entries (locale \<open>geometry_store\<close>). \<open>GrallocWrapper\<close> has the
  module: every hook, the opening of devices and its error paths.

  \<^bold>\<open>The compositor.\<close> \<open>Pixel\<close> (conversion, blending; nothing
  wraps), \<open>ComposeLayer\<close> (\<open>compose_layer\<close> with its fast path),
  \<open>Image\<close> and \<open>LayerProps\<close> (what every pixel is after a layer; the
  fast path equals the general loop; a 16-bit layer without a visible column is excluded,
  because the code faults on it), \<open>HwCompose\<close> (the frame:
  \<open>hwc_compose\<close>, \<open>hwc_set\<close>, \<open>hwc_prepare\<close>),
  \<open>FrameProps\<close> (after a frame the framebuffer is the reference image though
  only the dirty rectangle was compared; which update is sent; for layers not larger
  than their frames, because the code leaves larger ones partly stale), \<open>HwDevice\<close>
  (open, close and their resources, the hooks, the vsync thread, the system as a
  step relation whose invariant justifies partial updates).

  \<^bold>\<open>The log device.\<close> \<open>Logger\<close> has the driver,
  \<open>LoggerRing\<close> reads the ring as a stream of entries, \<open>LoggerProps\<close>
  shows that a write appends one entry to every reader's stream and drops only the
  oldest, that a read delivers the oldest entry the reader may see, and that the
  invariant holds in all reachable states. The invariant asks for a log of at
  least two maximal entries (8200 bytes), as all four logs have; the search for the
  next entry of a user has fuel one more than the size of the log, which the
  stream's length bounds.

  \<^bold>\<open>The service manager.\<close> \<open>BinderIo\<close> has the messages
  (\<open>struct binder_io\<close>), \<open>BinderIoProps\<close> the round trips of all
  items that can be written and read back (locale \<open>parcel_item\<close>, closed
  under sequences) and the bounds of reading. \<open>BinderUser\<close> has the driver
  protocol; its parser ends because every step consumes a word.
  \<open>BinderLoop\<close> shows what a read of transactions does for any handler and
  carries handler invariants through the loop (locale
  \<open>handler_contract\<close>). \<open>ServiceManager\<close> has the registry and the
  handler; \<open>ServiceProps\<close> shows that it implements a finite map, that
  references are balanced and that only authorised users change it;
  \<open>ServiceRequests\<close> follows a request from the bytes a client writes to the
  bytes it gets back.

  \<^bold>\<open>The binder driver's buffers.\<close> \<open>KernelBuf\<close> has the allocator
  of \<open>patches/kernel/binder.c\<close> (\<open>binder_buffer_size\<close> to
  \<open>binder_free_buf\<close>, \<open>binder_mmap\<close>). \<open>KernelBufTrees\<close> and
  \<open>KernelBufPages\<close> treat the trees as sorted lists and the page loops as set
  operations. \<open>KernelBufLayout\<close> states the invariant,
  \<open>KernelBufAlloc\<close> and \<open>KernelBufFree\<close> show that allocation and
  release keep it and what they do to the list of buffers, and
  \<open>KernelBufProps\<close> has the reachable states and the properties: best fit,
  merging, the round trip, sizes that do not wrap, exact lookup.

  \<^bold>\<open>The binder driver's nodes and messages.\<close> \<open>KernelDrv\<close> has the
  structures of the driver: processes, threads, nodes, references, notifications and
  transactions live in maps from addresses, so that a use after free is the result
  \<open>None\<close> like a \<open>BUG_ON\<close>; the work lists are one list of pairs of a list
  and an item. It also has the counting of nodes and references. What the kernel
  provides (trees, memory, pages, security hooks, descriptors, the codes of the
  protocol) is the record \<open>kext\<close>. \<open>KernelTrees\<close> reads the trees as sorted
  indexes, \<open>KernelGraph\<close> states the invariant of nodes, references, counts,
  notifications and work and shows that every counting operation keeps it.
  \<open>KernelRead\<close> has \<open>binder_thread_read\<close>; what other threads do while it
  sleeps is an argument, a list of changes of the state. Its retry loop gets
  \<open>length env + 3\<close> attempts, which is enough because every retry consumes a
  change or an acknowledgement. \<open>KernelReadProps\<close> shows that a read ends, is
  safe under any interference that keeps the invariant of the graph and of the queued
  completions, and delivers the first call unless the driver asks for a new thread. \<open>KernelTxn\<close> has \<open>binder_transaction\<close> with its targets, the
  translation of objects, the release of a buffer and all error paths (the walks along
  a transaction stack may not end and are \<open>partial_function (option)\<close>);
  \<open>KernelWrite\<close> has the write commands, \<open>KernelCtl\<close> threads, the control
  calls, opening, the deferred work and the end of a process.
  \<open>KernelTxnProps\<close> composes sending, allocation and reading,
  \<open>KernelWriteProps\<close> shows that the commands on references are safe for any words
  a process writes, with the debug output off and no count near its limit, but for one
  null pointer when memory is short; \<open>KernelCtlProps\<close> that the end of a process is told to all
  who asked.

  \<^bold>\<open>The block layer.\<close> \<open>DiskEvents\<close> has the disk events of
  \<open>genhd.c\<close>, their system as a step relation over the sections under the lock
  and the sending of reports after it, and shows in every interleaving that blocking
  keeps the work item away and that each event is told once, or about to be. \<open>GenDisk\<close> has the table of partitions and its iterator, the
  lookup of sectors, major and device numbers and the events to user space; disks and
  partitions live in maps from addresses, so that a use after free is \<open>None\<close>, and
  what the kernel around provides is the record \<open>gext\<close>. \<open>BlkNumbers\<close> shows
  that the hash table of majors is a finite map and that extended numbers lead back to
  their partition. \<open>GenDiskProps\<close> has a rule for loops over an iterator and shows
  what an iteration visits, which numbers events carry and that the cached lookup of a
  sector is exact; a loop has one turn more than the table has entries, which the rule
  shows to be enough. \<open>Partitions\<close> has \<open>partition-generic.c\<close> and the life of
  a disk. \<open>PartitionProps\<close> defines a sound disk and follows the dropping and the
  adding of partitions on all error paths; \<open>RescanProps\<close> shows that a scan returns
  and that the table holds the parts on the disk of what was parsed, where no parsed end
  wraps in 64 bits. A scan has two attempts, which is enough because
  the hook that makes it start again sets a flag that forbids it. \<open>DiskLife\<close> runs
  any sequence of these operations and of the callbacks of deleted partitions from the
  allocation of a disk on: none uses freed memory and the disk stays sound.

  \<^bold>\<open>The oom files.\<close> \<open>OomAdj\<close> has \<open>oom_adj\<close> and
  \<open>oom_score_adj\<close> of a process with the check this port adds and shows what
  sequences of writers can and cannot do, and which values survive a round trip.

  \<^bold>\<open>Findings.\<close> Some theorems show where the code fails: the fast path
  copies out of bounds for a 16-bit layer beside the panel; a failing open frees the
  panel copy twice; a layer larger than its frame is shown in part; a log write
  around the end of the ring reports a short count; a log whose registration failed
  stays on the list; a late death notice removes the new owner of a name; an
  eight-byte message stops the service manager; the driver's request for a new thread
  overwrites the command it follows; a message that lists an object twice makes the
  driver use a freed node; the driver's debug output reads a freed reference, and a
  command on handle 0 reads a null pointer when memory is short; a parsed partition whose
  end wraps is not cut at the end of the disk; a block driver with a long name never gives its number back;
  a partition without memory for its information is taken for a valid one.

  \<^bold>\<open>Not modelled.\<close> Of the binder driver the debugfs output, the transaction
  log and the statistics, wake-ups of sleeping threads, the stop on user errors, and
  the release of the pages when a process ends; a write buffer is read at addresses
  that do not wrap. Of the block layer the map of probes, the request queue, read-only
  attributes, statistics and the boot listing; of \<open>proc-base.c\<close> all but the two
  oom files, which is stock kernel code that shows structures outside the repository;
  the probes and test programs are sequences of system calls with printed results;
  the scripts, the smali patches and the front light application are not C. Log
  lines, statistics that only log lines use and caches of the processor are left
  out throughout, except the debug output that reads what was just freed.
\<close>

end
